(* ===== verification/Prelude.thy ===== *)
theory Prelude
  imports Complex_Main "HOL-Library.Char_ord" "HOL-Library.List_Lexorder"
begin

text \<open>
  What every component theory shares: the epoch clock, the two statements of SQL the
  repositories are made of (an \<open>UPDATE\<close> with its row count and a \<open>SELECT\<close>), the
  lemmas about tables keyed by a unique column, the text functions, and the two locales in which invariants
  and absorbing facts are carried along the steps of a component.

  Python's floats (epochs, delays, ratios) are reals here: comparison, addition and
  subtraction are exact, so rounding is not modelled. Python's integers are \<open>int\<close> or
  \<open>nat\<close>. A table is the list of its rows in rowid order.
\<close>

type_synonym time = real

named_theorems row_simps \<open>how a statement changes the rows of its table\<close>
named_theorems wf_intro \<open>well-formedness kept by an operation\<close>

subsection \<open>Two statements of SQL\<close>

text \<open>\<open>UPDATE t SET ... WHERE P\<close>: the new rows; \<open>cursor.rowcount\<close> is \<open>sql_count\<close>.\<close>

definition sql_update :: "('r \<Rightarrow> bool) \<Rightarrow> ('r \<Rightarrow> 'r) \<Rightarrow> 'r list \<Rightarrow> 'r list" where
  "sql_update P f rs = map (\<lambda>r. if P r then f r else r) rs"

definition sql_count :: "('r \<Rightarrow> bool) \<Rightarrow> 'r list \<Rightarrow> nat" where
  "sql_count P rs = length (filter P rs)"

text \<open>\<open>SELECT ... WHERE P ... fetchone()\<close>, without an order: the first row in rowid order.\<close>

definition sql_first :: "('r \<Rightarrow> bool) \<Rightarrow> 'r list \<Rightarrow> 'r option" where
  "sql_first P rs = List.find P rs"

lemma sql_update_id: "(\<And>r. r \<in> set rs \<Longrightarrow> P r \<Longrightarrow> f r = r) \<Longrightarrow> sql_update P f rs = rs"
  by (simp add: sql_update_def map_idI)

lemma sql_update_none: "(\<And>r. r \<in> set rs \<Longrightarrow> \<not> P r) \<Longrightarrow> sql_update P f rs = rs"
  by (rule sql_update_id) blast

lemma set_sql_update: "set (sql_update P f rs) = (\<lambda>r. if P r then f r else r) ` set rs"
  by (simp add: sql_update_def)

lemma length_sql_update [simp]: "length (sql_update P f rs) = length rs"
  by (simp add: sql_update_def)

lemma map_sql_update [simp]:
  "(\<And>r. P r \<Longrightarrow> k (f r) = k r) \<Longrightarrow> map k (sql_update P f rs) = map k rs"
  by (simp add: sql_update_def)

lemma sql_first_simps [simp]:
  "sql_first P [] = None"
  "sql_first P (r # rs) = (if P r then Some r else sql_first P rs)"
  by (simp_all add: sql_first_def)

lemma sql_first_None: "sql_first P rs = None \<longleftrightarrow> (\<forall>r \<in> set rs. \<not> P r)"
  by (auto simp: sql_first_def find_None_iff)

lemma sql_first_SomeD: "sql_first P rs = Some r \<Longrightarrow> r \<in> set rs \<and> P r"
  by (auto simp: sql_first_def find_Some_iff)

lemma sql_first_append:
  "sql_first P (xs @ ys) = (case sql_first P xs of None \<Rightarrow> sql_first P ys | Some r \<Rightarrow> Some r)"
  by (induction xs) (simp_all add: sql_first_def)

lemma sql_count_0: "sql_count P rs = 0 \<longleftrightarrow> (\<forall>r \<in> set rs. \<not> P r)"
  by (simp add: sql_count_def filter_empty_conv)

text \<open>A test of what an option holds, in the form the code generator computes.\<close>

lemma option_code [code_unfold]:
  "(\<exists>x. HOL.equal v (Some x) \<and> P x) \<longleftrightarrow> (case v of None \<Rightarrow> False | Some x \<Rightarrow> P x)"
  "(\<forall>x. HOL.equal v (Some x) \<longrightarrow> P x) \<longleftrightarrow> (case v of None \<Rightarrow> True | Some x \<Rightarrow> P x)"
  "(\<exists>x y. HOL.equal v (Some x) \<and> HOL.equal w (Some y) \<and> Q x y)
    \<longleftrightarrow> (case v of None \<Rightarrow> False | Some x \<Rightarrow> (case w of None \<Rightarrow> False | Some y \<Rightarrow> Q x y))"
  by (auto simp: equal_eq split: option.split)

lemma in_map_filter: "x \<in> set xs \<Longrightarrow> f x = Some y \<Longrightarrow> y \<in> set (List.map_filter f xs)"
  by (induction xs) (auto split: option.split)

lemma fold_keeps: "(\<And>x d. x \<in> set xs \<Longrightarrow> g (f x d) = g d) \<Longrightarrow> g (fold f xs d) = g d"
  by (induction xs arbitrary: d) auto

lemma fold_invariant_from:
  assumes "x \<in> set xs" and "\<And>d. P (f x d)" and "\<And>y d. P d \<Longrightarrow> P (f y d)"
  shows "P (fold f xs d)"
proof -
  obtain as bs where "xs = as @ x # bs" using assms(1) by (meson split_list)
  moreover have "P (fold f bs d)" if "P d" for d using that by (induction bs arbitrary: d) (auto intro: assms(3))
  ultimately show ?thesis using assms(2) by simp
qed

lemma fold_invariant: "P d \<Longrightarrow> (\<And>y d. y \<in> set xs \<Longrightarrow> P d \<Longrightarrow> P (f y d)) \<Longrightarrow> P (fold f xs d)"
  by (induction xs arbitrary: d) auto

lemma find_SomeD: "List.find P xs = Some x \<Longrightarrow> x \<in> set xs \<and> P x"
  by (auto simp: find_Some_iff)

subsection \<open>Tables with a unique key\<close>

text \<open>
  With a unique key column, \<open>rowcount == 1\<close> says that the addressed row exists and
  satisfies the rest of the \<open>WHERE\<close> clause: the compare-and-set every repository is built on.
\<close>

lemma keyed_unique:
  "distinct (map k rs) \<Longrightarrow> r \<in> set rs \<Longrightarrow> r' \<in> set rs \<Longrightarrow> k r = k r' \<Longrightarrow> r = r'"
  by (auto simp: distinct_map dest: inj_onD)

lemma sql_count_keyed:
  assumes "distinct (map k rs)"
  shows "sql_count (\<lambda>r. k r = u \<and> Q r) rs = (if \<exists>r \<in> set rs. k r = u \<and> Q r then 1 else 0)"
  using assms
proof (induction rs)
  case Nil
  then show ?case by (simp add: sql_count_def)
next
  case (Cons a rs)
  show ?case
  proof (cases "k a = u \<and> Q a")
    case True
    with Cons.prems have "\<forall>r \<in> set rs. k r \<noteq> u" by (auto simp: image_iff)
    with True show ?thesis by (simp add: sql_count_def filter_empty_conv)
  next
    case False
    with Cons show ?thesis by (auto simp: sql_count_def)
  qed
qed

lemma sql_first_keyed:
  assumes "distinct (map k rs)"
  shows "sql_first (\<lambda>r. k r = u) rs = Some r \<longleftrightarrow> r \<in> set rs \<and> k r = u"
  using assms
proof (induction rs)
  case Nil
  then show ?case by (simp add: sql_first_def)
next
  case (Cons a rs)
  then show ?case by (force simp: sql_first_def)
qed

lemma distinct_sql_update:
  "(\<And>r. P r \<Longrightarrow> k (f r) = k r) \<Longrightarrow> distinct (map k rs) \<Longrightarrow> distinct (map k (sql_update P f rs))"
  by simp

text \<open>Looking a row up by its key after an update.\<close>

lemma sql_first_update:
  assumes "\<And>r. P r \<Longrightarrow> k (f r) = k r"
  shows "sql_first (\<lambda>r. k r = u) (sql_update P f rs) =
    map_option (\<lambda>r. if P r then f r else r) (sql_first (\<lambda>r. k r = u) rs)"
  using assms by (induction rs) (auto simp: sql_first_def sql_update_def)

subsection \<open>Text\<close>

text \<open>Python's \<open>isspace\<close>, \<open>strip\<close> and \<open>lower\<close> on ASCII text, where \<open>lower\<close> is SQLite's too.\<close>

definition is_space :: "char \<Rightarrow> bool" where
  "is_space c \<longleftrightarrow> c \<in> {CHR '' '', CHR 0x09, CHR 0x0A, CHR 0x0B, CHR 0x0C, CHR 0x0D, CHR 0x1C, CHR 0x1D, CHR 0x1E, CHR 0x1F}"

definition strip :: "string \<Rightarrow> string" where
  "strip s = rev (dropWhile is_space (rev (dropWhile is_space s)))"

definition is_upper :: "char \<Rightarrow> bool" where
  "is_upper c \<longleftrightarrow> CHR ''A'' \<le> c \<and> c \<le> CHR ''Z''"

definition is_digit :: "char \<Rightarrow> bool" where
  "is_digit c \<longleftrightarrow> CHR ''0'' \<le> c \<and> c \<le> CHR ''9''"

definition lower :: "string \<Rightarrow> string" where
  "lower s = map (\<lambda>c. if is_upper c then char_of (of_char c + 32 :: nat) else c) s"

lemma lower_char: "is_upper c \<Longrightarrow> \<not> is_upper (char_of (of_char c + 32 :: nat))"
  by (simp add: is_upper_def less_eq_char_def)

lemma lower_lower [simp]: "lower (lower h) = lower h"
  by (simp add: lower_def lower_char)

lemma lower_Nil [simp]: "lower h = [] \<longleftrightarrow> h = []"
  by (simp add: lower_def)

subsection \<open>Invariants and absorbing facts along steps\<close>

locale transition_system =
  fixes step :: "'s \<Rightarrow> 's \<Rightarrow> bool"
    and inv :: "'s \<Rightarrow> bool"
  assumes step_inv: "inv s \<Longrightarrow> step s t \<Longrightarrow> inv t"
begin

lemma steps_inv: "step\<^sup>*\<^sup>* s t \<Longrightarrow> inv s \<Longrightarrow> inv t"
  by (induction rule: rtranclp_induct) (auto intro: step_inv)

end

text \<open>A fact is absorbing when no step changes it once it is known under a key.\<close>

locale absorbing_fact = transition_system step inv
  for step :: "'s \<Rightarrow> 's \<Rightarrow> bool" and inv :: "'s \<Rightarrow> bool" +
  fixes fact :: "'s \<Rightarrow> 'k \<Rightarrow> 'v option"
  assumes step_fact: "inv s \<Longrightarrow> step s t \<Longrightarrow> fact s k = Some v \<Longrightarrow> fact t k = Some v"
begin

lemma steps_fact: "step\<^sup>*\<^sup>* s t \<Longrightarrow> inv s \<Longrightarrow> fact s k = Some v \<Longrightarrow> fact t k = Some v"
proof (induction rule: rtranclp_induct)
  case base
  then show ?case by simp
next
  case (step t u)
  from step.hyps(1) step.prems(1) have "inv t" by (rule steps_inv)
  then show ?case using step by (blast intro: step_fact)
qed

end

end
