(* ===== verification/Watcher.thy ===== *)
theory Watcher
  imports Prelude
begin

text \<open>
  The decision engine of the watch daemon (\<open>acquire/watcher.py\<close>): a pure function of one
  cycle's snapshot and of the state carried from the cycle before. \<open>evaluate\<close> keeps the
  branch order of the method, with its branch numbers as comments; \<open>watch_cycles\<close> runs it
  over a sequence of snapshots as the loop does. Hash sets are sets of strings.
\<close>

datatype watcher_decision = IDLE | START_DEBOUNCE | FIRE_RUN | FIRE_CROSS_SEED | REQUEUE

text \<open>The field \<open>debounce_origin\<close> only ever holds two strings or \<open>None\<close>.\<close>

datatype window_origin = Completion | SafetyNet

record watcher_state =
  debounce_until :: "time option"
  last_successful_run_at :: "time option"
  backoff_multiplier :: nat
  debounce_origin :: "window_origin option"
  cross_seed_dispatched :: "string set"

record watcher_input =
  completed_hashes :: "string set"
  ingested_hashes :: "string set"
  triage_skipped_hashes :: "string set"
  sentinel_present :: bool
  pipeline_lock_held :: bool
  now :: time
  deferred_hashes :: "string set"
  downloading_count :: int

text \<open>\<open>run_reason\<close> is the empty string unless the decision is to fire a run.\<close>

record watcher_output =
  decision :: watcher_decision
  new_state :: watcher_state
  run_reason :: string
  cross_seed_hashes :: "string list"

text \<open>\<open>WatchConfig\<close> with the \<open>scoped\<close> flag \<open>WatcherService.__init__\<close> adds to it.\<close>

record watch_config =
  scoped :: bool
  poll_interval_s :: int
  debounce_s :: int
  safety_net_hours :: int
  enabled :: bool

text \<open>The bounds the configuration model enforces on the fields.\<close>

definition valid_watch_config :: "watch_config \<Rightarrow> bool" where
  "valid_watch_config cfg \<longleftrightarrow> 10 \<le> poll_interval_s cfg \<and> poll_interval_s cfg \<le> 3600
     \<and> 10 \<le> debounce_s cfg \<and> debounce_s cfg \<le> 86400
     \<and> 1 \<le> safety_net_hours cfg \<and> safety_net_hours cfg \<le> 168"

definition fresh_watcher_state :: watcher_state where
  "fresh_watcher_state = \<lparr>debounce_until = None, last_successful_run_at = None,
     backoff_multiplier = 0, debounce_origin = None, cross_seed_dispatched = {}\<rparr>"

definition watcher_output_of :: "watcher_decision \<Rightarrow> watcher_state \<Rightarrow> watcher_output" where
  "watcher_output_of d st =
     \<lparr>decision = d, new_state = st, run_reason = '''', cross_seed_hashes = []\<rparr>"

definition fire_run :: "string \<Rightarrow> watcher_state \<Rightarrow> watcher_output" where
  "fire_run reason st =
     \<lparr>decision = FIRE_RUN, new_state = st, run_reason = reason, cross_seed_hashes = []\<rparr>"

definition requeue :: "watcher_state \<Rightarrow> watcher_output" where
  "requeue st = watcher_output_of REQUEUE st"

definition safety_net_expired :: "watch_config \<Rightarrow> watcher_state \<Rightarrow> time \<Rightarrow> bool" where
  "safety_net_expired cfg st t =
     (case last_successful_run_at st of
        None \<Rightarrow> True
      | Some ended \<Rightarrow> (t - ended) / 3600 \<ge> real_of_int (safety_net_hours cfg))"

text \<open>The delay both firing branches open: exponential, clamped to the safety net.\<close>

definition clamped_delay :: "watch_config \<Rightarrow> nat \<Rightarrow> time" where
  "clamped_delay cfg multiplier =
     min (real_of_int (debounce_s cfg) * 2 ^ multiplier) (real_of_int (safety_net_hours cfg) * 3600)"

definition open_window :: "watch_config \<Rightarrow> window_origin \<Rightarrow> time \<Rightarrow> watcher_state \<Rightarrow> watcher_state" where
  "open_window cfg org t st =
     st\<lparr>debounce_until := Some (t + clamped_delay cfg (backoff_multiplier st)),
        backoff_multiplier := backoff_multiplier st + 1,
        debounce_origin := Some org\<rparr>"

definition clear_window :: "watcher_state \<Rightarrow> watcher_state" where
  "clear_window st = st\<lparr>debounce_until := None, backoff_multiplier := 0, debounce_origin := None\<rparr>"

definition seed_safety_net :: "watch_config \<Rightarrow> watcher_input \<Rightarrow> watcher_state \<Rightarrow> watcher_state" where
  "seed_safety_net cfg inp st =
     (if scoped cfg \<and> last_successful_run_at st = None
      then st\<lparr>last_successful_run_at := Some (now inp)\<rparr> else st)"

definition work_set :: "watcher_input \<Rightarrow> string set" where
  "work_set inp = completed_hashes inp - ingested_hashes inp - triage_skipped_hashes inp"

definition pipeline_work :: "watcher_input \<Rightarrow> string set" where
  "pipeline_work inp = work_set inp - deferred_hashes inp"

text \<open>Branch 3: there is work a pipeline run could progress.\<close>

definition evaluate_work :: "watch_config \<Rightarrow> watcher_input \<Rightarrow> watcher_state \<Rightarrow> watcher_output" where
  "evaluate_work cfg inp st =
     (if downloading_count inp > 0 then
        (case debounce_until st of
           None \<Rightarrow> watcher_output_of IDLE st
         | Some _ \<Rightarrow> watcher_output_of IDLE (st\<lparr>debounce_until := None\<rparr>))
      else
        (case debounce_until st of
           None \<Rightarrow> watcher_output_of START_DEBOUNCE
             (st\<lparr>debounce_until := Some (now inp + real_of_int (debounce_s cfg))\<rparr>)
         | Some until \<Rightarrow>
             if now inp \<ge> until then
               (if pipeline_lock_held inp then requeue st
                else fire_run ''completion'' (open_window cfg Completion (now inp) st))
             else watcher_output_of IDLE st))"

text \<open>Branches 5 and 6: the safety net, then nothing to do.\<close>

definition evaluate_safety_net :: "watch_config \<Rightarrow> watcher_input \<Rightarrow> watcher_state \<Rightarrow> watcher_output" where
  "evaluate_safety_net cfg inp st =
     (if safety_net_expired cfg st (now inp) then
        (if (case debounce_until st of None \<Rightarrow> False | Some until \<Rightarrow> now inp < until)
         then watcher_output_of IDLE st
         else if pipeline_lock_held inp then requeue st
         else fire_run ''safety_net'' (open_window cfg SafetyNet (now inp) st))
      else watcher_output_of IDLE st)"

definition evaluate :: "watch_config \<Rightarrow> watcher_input \<Rightarrow> watcher_state \<Rightarrow> watcher_output" where
  "evaluate cfg inp st0 =
     (if \<not> enabled cfg then watcher_output_of IDLE st0
      else let st = seed_safety_net cfg inp st0 in
        if sentinel_present inp then                                \<comment> \<open>1\<close>
          (if pipeline_lock_held inp then requeue st else fire_run ''manual'' (clear_window st))
        else let fresh = work_set inp - cross_seed_dispatched st in
        if fresh \<noteq> {} then                                         \<comment> \<open>2\<close>
          \<lparr>decision = FIRE_CROSS_SEED,
           new_state = st\<lparr>cross_seed_dispatched := cross_seed_dispatched st \<union> fresh\<rparr>,
           run_reason = '''', cross_seed_hashes = sorted_list_of_set fresh\<rparr>
        else if pipeline_work inp \<noteq> {} then evaluate_work cfg inp st  \<comment> \<open>3\<close>
        else if debounce_until st \<noteq> None \<and> debounce_origin st \<in> {None, Some Completion}  \<comment> \<open>4\<close>
        then watcher_output_of IDLE (clear_window st)
        else evaluate_safety_net cfg inp st)"

text \<open>The loop: each cycle's state is the one the cycle before returned.\<close>

fun watch_cycles :: "watch_config \<Rightarrow> watcher_state \<Rightarrow> watcher_input list \<Rightarrow> watcher_output list" where
  "watch_cycles cfg st [] = []"
| "watch_cycles cfg st (inp # inps) =
     (let out = evaluate cfg inp st in out # watch_cycles cfg (new_state out) inps)"


subsection \<open>What one cycle does\<close>

lemmas evaluate_parts = evaluate_def evaluate_work_def evaluate_safety_net_def Let_def

lemmas output_defs = watcher_output_of_def fire_run_def requeue_def clear_window_def
  open_window_def seed_safety_net_def

lemma fire_conditions:
  assumes "decision (evaluate cfg inp st) = FIRE_RUN"
  shows "enabled cfg \<and> \<not> pipeline_lock_held inp"
  using assms by (auto simp: evaluate_parts output_defs split: if_splits option.splits)

lemma paced_fire_conditions:
  assumes "decision (evaluate cfg inp st) = FIRE_RUN" and "\<not> sentinel_present inp"
  shows "(\<forall>d. debounce_until st = Some d \<longrightarrow> d \<le> now inp)
    \<and> debounce_until (new_state (evaluate cfg inp st))
        = Some (now inp + clamped_delay cfg (backoff_multiplier st))
    \<and> backoff_multiplier (new_state (evaluate cfg inp st)) = backoff_multiplier st + 1
    \<and> (pipeline_work inp = {} \<longrightarrow> debounce_origin (new_state (evaluate cfg inp st)) = Some SafetyNet)"
  using assms by (auto simp: evaluate_parts output_defs split: if_splits option.splits)

lemma completion_fire_is_quiet:
  assumes "decision (evaluate cfg inp st) = FIRE_RUN"
    and "run_reason (evaluate cfg inp st) = ''completion''"
  shows "downloading_count inp \<le> 0 \<and> pipeline_work inp \<noteq> {}
    \<and> (\<exists>d. debounce_until st = Some d \<and> d \<le> now inp)"
  using assms by (auto simp: evaluate_parts output_defs split: if_splits option.splits)

text \<open>Within a steady run a cycle that does not fire keeps the open window and the multiplier.\<close>

lemma idle_keeps_window_work:
  assumes "decision (evaluate cfg inp st) \<noteq> FIRE_RUN" and "\<not> sentinel_present inp"
    and "pipeline_work inp \<noteq> {}" and "downloading_count inp \<le> 0"
  shows "backoff_multiplier (new_state (evaluate cfg inp st)) = backoff_multiplier st
    \<and> (\<forall>d. debounce_until st = Some d \<longrightarrow> debounce_until (new_state (evaluate cfg inp st)) = Some d)"
  using assms by (auto simp: evaluate_parts output_defs split: if_splits option.splits)

lemma idle_keeps_window_safety_net:
  assumes "decision (evaluate cfg inp st) \<noteq> FIRE_RUN" and "\<not> sentinel_present inp"
    and "pipeline_work inp = {}" and "debounce_until st = None \<or> debounce_origin st = Some SafetyNet"
  shows "backoff_multiplier (new_state (evaluate cfg inp st)) = backoff_multiplier st
    \<and> debounce_until (new_state (evaluate cfg inp st)) = debounce_until st
    \<and> debounce_origin (new_state (evaluate cfg inp st)) = debounce_origin st"
  using assms by (auto simp: evaluate_parts output_defs split: if_splits option.splits)

lemma idle_clears_window_completion:
  assumes "\<not> sentinel_present inp" and "pipeline_work inp = {}"
    and "debounce_origin st = None \<or> debounce_origin st = Some Completion" and "debounce_until st = Some d"
  shows "decision (evaluate cfg inp st) \<noteq> FIRE_RUN
    \<and> (debounce_until (new_state (evaluate cfg inp st)) = None
       \<or> debounce_until (new_state (evaluate cfg inp st)) = Some d
         \<and> debounce_origin (new_state (evaluate cfg inp st)) = debounce_origin st)"
  using assms by (auto simp: evaluate_parts output_defs)

subsection \<open>Pacing of a persistently failing run\<close>

text \<open>The moments the loop fires at.\<close>

fun fire_times :: "watch_config \<Rightarrow> watcher_state \<Rightarrow> watcher_input list \<Rightarrow> time list" where
  "fire_times cfg st [] = []"
| "fire_times cfg st (inp # inps) =
     (let out = evaluate cfg inp st; rest = fire_times cfg (new_state out) inps
      in if decision out = FIRE_RUN then now inp # rest else rest)"

fun paced :: "watch_config \<Rightarrow> nat \<Rightarrow> time list \<Rightarrow> bool" where
  "paced cfg m (t # u # ts) = (clamped_delay cfg m \<le> u - t \<and> paced cfg (Suc m) (u # ts))"
| "paced cfg m ts = True"

lemma clamped_delay_mono:
  "valid_watch_config cfg \<Longrightarrow> m \<le> n \<Longrightarrow> clamped_delay cfg m \<le> clamped_delay cfg n"
  unfolding clamped_delay_def valid_watch_config_def
  by (rule min.mono) (auto intro!: mult_left_mono power_increasing)

lemma clamped_delay_pos: "valid_watch_config cfg \<Longrightarrow> 0 < clamped_delay cfg m"
  by (simp add: clamped_delay_def valid_watch_config_def)

lemma clamped_delay_le_cap: "clamped_delay cfg m \<le> real_of_int (safety_net_hours cfg) * 3600"
  by (simp add: clamped_delay_def)

lemma paced_Cons: "paced cfg (Suc m) ts \<Longrightarrow> (\<And>u. u \<in> set ts \<Longrightarrow> t + clamped_delay cfg m \<le> u) \<Longrightarrow> paced cfg m (t # ts)"
  by (cases ts) (auto simp: algebra_simps)

lemma paced_weaken: "valid_watch_config cfg \<Longrightarrow> n \<le> m \<Longrightarrow> paced cfg m ts \<Longrightarrow> paced cfg n ts"
proof (induction cfg m ts arbitrary: n rule: paced.induct)
  case (1 cfg m t u ts)
  then have "clamped_delay cfg n \<le> clamped_delay cfg m" by (simp add: clamped_delay_mono)
  with 1 show ?case by auto
qed simp_all

lemma paced_nth:
  "paced cfg m ts \<Longrightarrow> Suc i < length ts \<Longrightarrow> clamped_delay cfg (m + i) \<le> ts ! Suc i - ts ! i"
proof (induction cfg m ts arbitrary: i rule: paced.induct)
  case (1 cfg m t u ts)
  then show ?case by (cases i) (auto dest: "1.IH")
qed simp_all

definition steady :: "watcher_input list \<Rightarrow> bool" where
  "steady inps \<longleftrightarrow> (\<forall>inp \<in> set inps. \<not> sentinel_present inp) \<and>
     ((\<forall>inp \<in> set inps. pipeline_work inp \<noteq> {} \<and> downloading_count inp \<le> 0) \<or>
      (\<forall>inp \<in> set inps. pipeline_work inp = {}))"


text \<open>A run in which every later firing respects the window and the multiplier of its first state.\<close>

definition paced_from :: "watch_config \<Rightarrow> watcher_state \<Rightarrow> time list \<Rightarrow> bool" where
  "paced_from cfg st ts \<longleftrightarrow> paced cfg (backoff_multiplier st) ts
     \<and> (\<forall>d. debounce_until st = Some d \<longrightarrow> (\<forall>t \<in> set ts. d \<le> t))"

lemma paced_from_fire:
  assumes "valid_watch_config cfg" and "decision (evaluate cfg inp st) = FIRE_RUN"
    and "\<not> sentinel_present inp" and "paced_from cfg (new_state (evaluate cfg inp st)) ts"
  shows "paced_from cfg st (now inp # ts)"
proof -
  note fire = paced_fire_conditions [OF assms(2,3)]
  have "0 < clamped_delay cfg (backoff_multiplier st)" using assms(1) by (rule clamped_delay_pos)
  moreover have ge: "now inp + clamped_delay cfg (backoff_multiplier st) \<le> t" if "t \<in> set ts" for t
    using fire assms(4) that by (simp add: paced_from_def)
  ultimately have "now inp \<le> t" if "t \<in> set ts" for t using that by fastforce
  then show ?thesis
    using fire assms(4) ge by (fastforce simp: paced_from_def intro!: paced_Cons)
qed

lemma paced_run_work:
  assumes "valid_watch_config cfg" and "\<And>inp. inp \<in> set inps \<Longrightarrow>
    \<not> sentinel_present inp \<and> pipeline_work inp \<noteq> {} \<and> downloading_count inp \<le> 0"
  shows "paced_from cfg st (fire_times cfg st inps)"
  using assms(2)
proof (induction inps arbitrary: st)
  case Nil
  then show ?case by (simp add: paced_from_def)
next
  case (Cons inp inps)
  let ?out = "evaluate cfg inp st"
  have IH: "paced_from cfg (new_state ?out) (fire_times cfg (new_state ?out) inps)"
    using Cons.prems by (intro Cons.IH) simp
  show ?case
  proof (cases "decision ?out = FIRE_RUN")
    case True
    with IH Cons.prems assms(1) show ?thesis by (simp add: Let_def paced_from_fire)
  next
    case False
    with idle_keeps_window_work [OF this] IH Cons.prems show ?thesis
      by (auto simp: Let_def paced_from_def)
  qed
qed

lemma paced_run_safety_net:
  assumes "valid_watch_config cfg"
    and "\<And>inp. inp \<in> set inps \<Longrightarrow> \<not> sentinel_present inp \<and> pipeline_work inp = {}"
    and "debounce_until st = None \<or> debounce_origin st = Some SafetyNet"
  shows "paced_from cfg st (fire_times cfg st inps)"
  using assms(2,3)
proof (induction inps arbitrary: st)
  case Nil
  then show ?case by (simp add: paced_from_def)
next
  case (Cons inp inps)
  let ?out = "evaluate cfg inp st"
  show ?case
  proof (cases "decision ?out = FIRE_RUN")
    case True
    with paced_fire_conditions [OF this] Cons.prems
    have "paced_from cfg (new_state ?out) (fire_times cfg (new_state ?out) inps)"
      by (intro Cons.IH) simp_all
    with True Cons.prems assms(1) show ?thesis by (simp add: Let_def paced_from_fire)
  next
    case False
    note keep = idle_keeps_window_safety_net [OF this]
    from keep Cons.prems have "paced_from cfg (new_state ?out) (fire_times cfg (new_state ?out) inps)"
      by (intro Cons.IH) auto
    with False keep Cons.prems show ?thesis by (auto simp: Let_def paced_from_def)
  qed
qed

text \<open>From any state: a window a completion opened is dropped before the safety net fires.\<close>

lemma paced_run_no_work:
  assumes "valid_watch_config cfg"
    and "\<And>inp. inp \<in> set inps \<Longrightarrow> \<not> sentinel_present inp \<and> pipeline_work inp = {}"
  shows "paced cfg 0 (fire_times cfg st inps)"
  using assms(2)
proof (induction inps arbitrary: st)
  case Nil
  then show ?case by simp
next
  case (Cons inp inps)
  show ?case
  proof (cases "debounce_until st = None \<or> debounce_origin st = Some SafetyNet")
    case True
    have "paced_from cfg st (fire_times cfg st (inp # inps))"
      by (rule paced_run_safety_net [OF assms(1) Cons.prems True])
    then show ?thesis
      unfolding paced_from_def using paced_weaken [OF assms(1), of 0] by blast
  next
    case False
    then obtain d where "debounce_until st = Some d"
      and "debounce_origin st = None \<or> debounce_origin st = Some Completion"
      by (cases "debounce_origin st") (auto split: window_origin.split_asm intro: window_origin.exhaust)
    with idle_clears_window_completion [of inp st d cfg] Cons.prems
    have "decision (evaluate cfg inp st) \<noteq> FIRE_RUN" by simp
    with Cons show ?thesis by (simp add: Let_def)
  qed
qed


subsection \<open>Cross-seeding and liveness\<close>

lemma cross_seed_step:
  assumes "finite (completed_hashes inp)"
  shows "distinct (cross_seed_hashes (evaluate cfg inp st))
    \<and> set (cross_seed_hashes (evaluate cfg inp st)) \<inter> cross_seed_dispatched st = {}
    \<and> cross_seed_dispatched (new_state (evaluate cfg inp st))
        = cross_seed_dispatched st \<union> set (cross_seed_hashes (evaluate cfg inp st))"
proof -
  have "finite (work_set inp - D)" for D using assms by (simp add: work_set_def)
  then show ?thesis
    by (auto simp: evaluate_parts output_defs split: if_splits option.splits)
qed

lemma cross_seed_run:
  assumes "\<And>inp. inp \<in> set inps \<Longrightarrow> finite (completed_hashes inp)"
  shows "distinct (concat (map cross_seed_hashes (watch_cycles cfg st inps)))
    \<and> set (concat (map cross_seed_hashes (watch_cycles cfg st inps))) \<inter> cross_seed_dispatched st = {}"
  using assms
proof (induction inps arbitrary: st)
  case Nil
  then show ?case by simp
next
  case (Cons inp inps)
  let ?out = "evaluate cfg inp st"
  have "distinct (concat (map cross_seed_hashes (watch_cycles cfg (new_state ?out) inps)))
    \<and> set (concat (map cross_seed_hashes (watch_cycles cfg (new_state ?out) inps)))
        \<inter> cross_seed_dispatched (new_state ?out) = {}"
    using Cons.prems by (intro Cons.IH) simp
  with cross_seed_step [of inp cfg st] Cons.prems show ?case by (auto simp: Let_def)
qed

text \<open>A cycle of a quiet client with work, everything cross-seeded and nothing running.\<close>

definition ready_cycle :: "watcher_state \<Rightarrow> watcher_input \<Rightarrow> bool" where
  "ready_cycle st inp \<longleftrightarrow> \<not> sentinel_present inp \<and> \<not> pipeline_lock_held inp
     \<and> downloading_count inp \<le> 0 \<and> pipeline_work inp \<noteq> {}
     \<and> work_set inp \<subseteq> cross_seed_dispatched st"

lemma ready_cycle_evaluate:
  assumes "enabled cfg" and "ready_cycle st inp"
  shows "evaluate cfg inp st = evaluate_work cfg inp (seed_safety_net cfg inp st)"
  using assms by (auto simp: evaluate_def ready_cycle_def Let_def seed_safety_net_def)

lemma window_expires:
  assumes "enabled cfg" and "\<forall>inp \<in> set inps. ready_cycle st inp"
    and "debounce_until st = Some d" and "\<exists>inp \<in> set inps. d \<le> now inp"
  shows "\<exists>out \<in> set (watch_cycles cfg st inps). decision out = FIRE_RUN \<and> run_reason out = ''completion''"
  using assms(2-)
proof (induction inps arbitrary: st)
  case Nil
  then show ?case by simp
next
  case (Cons inp inps)
  have ev: "evaluate cfg inp st = evaluate_work cfg inp (seed_safety_net cfg inp st)"
    using assms(1) Cons.prems(1) by (simp add: ready_cycle_evaluate)
  show ?case
  proof (cases "d \<le> now inp")
    case True
    with ev Cons.prems have "decision (evaluate cfg inp st) = FIRE_RUN
      \<and> run_reason (evaluate cfg inp st) = ''completion''"
      by (auto simp: evaluate_work_def ready_cycle_def seed_safety_net_def fire_run_def)
    then show ?thesis by (simp add: Let_def)
  next
    case False
    let ?st' = "seed_safety_net cfg inp st"
    from False ev Cons.prems have out: "new_state (evaluate cfg inp st) = ?st'"
      by (auto simp: evaluate_work_def ready_cycle_def seed_safety_net_def watcher_output_of_def)
    have "\<exists>out \<in> set (watch_cycles cfg ?st' inps). decision out = FIRE_RUN \<and> run_reason out = ''completion''"
      using Cons.prems False by (intro Cons.IH) (auto simp: ready_cycle_def seed_safety_net_def)
    with out show ?thesis by (auto simp: Let_def)
  qed
qed

subsection \<open>Properties\<close>

text \<open>In a persistently failing run (no manual poke; the same side of the work predicate in
  every cycle, and a quiet client whenever there is work), the gap between the \<open>i\<close>-th firing and
  the next is at least the debounce delay doubled \<open>i\<close> times, capped by the safety net: the daemon
  never storms.\<close>

theorem watcher_backoff_pacing:
  assumes "valid_watch_config cfg" and "steady inps" and "Suc i < length (fire_times cfg st inps)"
  shows "min (real_of_int (debounce_s cfg) * 2 ^ i) (real_of_int (safety_net_hours cfg) * 3600)
    \<le> fire_times cfg st inps ! Suc i - fire_times cfg st inps ! i"
proof -
  have "paced cfg 0 (fire_times cfg st inps)"
    using assms(1,2) paced_run_work [OF assms(1), of inps st] paced_weaken [OF assms(1), of 0]
      paced_run_no_work [OF assms(1), of inps st]
    unfolding steady_def paced_from_def by blast
  with assms(3) have "clamped_delay cfg (0 + i) \<le> fire_times cfg st inps ! Suc i - fire_times cfg st inps ! i"
    by (intro paced_nth)
  then show ?thesis by (simp add: clamped_delay_def)
qed

definition demo_config :: watch_config where
  "demo_config = \<lparr>scoped = False, poll_interval_s = 60, debounce_s = 60, safety_net_hours = 24, enabled = True\<rparr>"

definition demo_input :: "string set \<Rightarrow> time \<Rightarrow> watcher_input" where
  "demo_input completed t = \<lparr>completed_hashes = completed, ingested_hashes = {}, triage_skipped_hashes = {},
     sentinel_present = False, pipeline_lock_held = False, now = t, deferred_hashes = {}, downloading_count = 0\<rparr>"

lemmas demo_simps = demo_config_def demo_input_def fresh_watcher_state_def work_set_def
  pipeline_work_def safety_net_expired_def clamped_delay_def

text \<open>A daemon that never succeeds: it fires at once, then after one and after two debounce delays.\<close>


theorem watcher_backoff_pacing_witness:
  "let ts = fire_times demo_config fresh_watcher_state (map (demo_input {}) [0, 30, 60, 120, 180, 400])
   in ts = [0, 60, 180] \<and> (120::real) \<le> ts ! 2 - ts ! 1"
proof -
  let ?inps = "map (demo_input {}) [0, 30, 60, 120, 180, 400]"
  have ts: "fire_times demo_config fresh_watcher_state ?inps = [0, 60, 180]"
    by (simp add: demo_simps evaluate_parts output_defs)
  have "valid_watch_config demo_config" and "steady ?inps"
    by (simp_all add: demo_simps valid_watch_config_def steady_def)
  then show ?thesis
    using watcher_backoff_pacing [of demo_config ?inps 1 fresh_watcher_state] ts
    by (simp add: demo_config_def)
qed

text \<open>No run is ever fired while one is in progress or queued, and a completion run is fired
  only for work it could progress, once the client is quiet and the window opened on silence has
  elapsed; a firing that is not manual opens the next window and raises the backoff.\<close>

theorem watcher_fires_only_when_due:
  assumes "decision (evaluate cfg inp st) = FIRE_RUN"
  shows "\<not> pipeline_lock_held inp
    \<and> (run_reason (evaluate cfg inp st) = ''completion'' \<longrightarrow>
         downloading_count inp \<le> 0 \<and> pipeline_work inp \<noteq> {} \<and> (\<exists>d. debounce_until st = Some d \<and> d \<le> now inp))
    \<and> (\<not> sentinel_present inp \<longrightarrow>
         backoff_multiplier (new_state (evaluate cfg inp st)) = backoff_multiplier st + 1
         \<and> debounce_until (new_state (evaluate cfg inp st))
             = Some (now inp + clamped_delay cfg (backoff_multiplier st)))"
  using fire_conditions [OF assms] completion_fire_is_quiet [OF assms] paced_fire_conditions [OF assms]
  by blast

theorem watcher_fires_only_when_due_witness:
  "let st = fresh_watcher_state\<lparr>debounce_until := Some 60, cross_seed_dispatched := {''aa''}\<rparr>;
       inp = demo_input {''aa''} 60
   in decision (evaluate demo_config inp st) = FIRE_RUN \<and> \<not> pipeline_lock_held inp
      \<and> downloading_count inp \<le> 0 \<and> backoff_multiplier (new_state (evaluate demo_config inp st)) = 1"
proof -
  let ?st = "fresh_watcher_state\<lparr>debounce_until := Some 60, cross_seed_dispatched := {''aa''}\<rparr>"
  let ?inp = "demo_input {''aa''} 60"
  have "decision (evaluate demo_config ?inp ?st) = FIRE_RUN"
    and "run_reason (evaluate demo_config ?inp ?st) = ''completion''"
    by (simp_all add: demo_simps evaluate_parts output_defs)
  then show ?thesis
    using watcher_fires_only_when_due [of demo_config ?inp ?st]
    by (simp add: demo_simps)
qed

text \<open>Over a daemon's whole life no torrent is handed to cross-seeding twice.\<close>

theorem watcher_cross_seeds_once:
  assumes "\<forall>inp \<in> set inps. finite (completed_hashes inp)"
  shows "distinct (concat (map cross_seed_hashes (watch_cycles cfg st inps)))"
  using cross_seed_run [of inps cfg st] assms by blast

theorem watcher_cross_seeds_once_witness:
  "let outs = watch_cycles demo_config fresh_watcher_state
       [demo_input {''aa''} 0, demo_input {''aa'', ''bb''} 60, demo_input {''aa'', ''bb''} 120]
   in concat (map cross_seed_hashes outs) = [''aa'', ''bb''] \<and> distinct (concat (map cross_seed_hashes outs))"
proof -
  let ?inps = "[demo_input {''aa''} 0, demo_input {''aa'', ''bb''} 60, demo_input {''aa'', ''bb''} 120]"
  have "\<forall>inp \<in> set ?inps. finite (completed_hashes inp)" by (simp add: demo_input_def)
  then have "distinct (concat (map cross_seed_hashes (watch_cycles demo_config fresh_watcher_state ?inps)))"
    by (rule watcher_cross_seeds_once)
  moreover have "concat (map cross_seed_hashes (watch_cycles demo_config fresh_watcher_state ?inps)) = [''aa'', ''bb'']"
    by (simp add: demo_simps evaluate_parts output_defs insert_Diff_if)
  ultimately show ?thesis by (simp add: Let_def)
qed

text \<open>Work is not forgotten: once the client stays quiet with work to do and nothing running,
  a completion run is fired as soon as the debounce delay has passed since the first such cycle.\<close>

theorem watcher_completion_run_fires:
  assumes "enabled cfg" and "\<forall>i \<in> set (inp # inps). ready_cycle st i" and "debounce_until st = None"
    and "\<exists>i \<in> set inps. now inp + real_of_int (debounce_s cfg) \<le> now i"
  shows "\<exists>out \<in> set (watch_cycles cfg st (inp # inps)). decision out = FIRE_RUN \<and> run_reason out = ''completion''"
proof -
  let ?st' = "new_state (evaluate cfg inp st)"
  have st': "?st' = (seed_safety_net cfg inp st)\<lparr>debounce_until := Some (now inp + real_of_int (debounce_s cfg))\<rparr>"
    using assms(1-3) ready_cycle_evaluate [of cfg st inp]
    by (auto simp: evaluate_work_def ready_cycle_def seed_safety_net_def watcher_output_of_def)
  have "\<exists>out \<in> set (watch_cycles cfg ?st' inps). decision out = FIRE_RUN \<and> run_reason out = ''completion''"
    using assms st'
    by (intro window_expires [where d = "now inp + real_of_int (debounce_s cfg)"])
      (auto simp: ready_cycle_def seed_safety_net_def)
  then show ?thesis by (auto simp: Let_def)
qed

theorem watcher_completion_run_fires_witness:
  "\<exists>out \<in> set (watch_cycles demo_config (fresh_watcher_state\<lparr>cross_seed_dispatched := {''aa''}\<rparr>)
       [demo_input {''aa''} 0, demo_input {''aa''} 30, demo_input {''aa''} 60]).
     decision out = FIRE_RUN \<and> run_reason out = ''completion''"
  by (rule watcher_completion_run_fires) (auto simp: demo_simps ready_cycle_def)

text \<open>A window the safety net opened does not always survive: a download that is in progress while
  other work waits closes it (branch 3), and if that work vanishes before the window would have ended
  the safety net fires again at once.\<close>

lemma quiescence_drops_safety_net_window:
  "let failing = fresh_watcher_state\<lparr>debounce_until := Some 900, debounce_origin := Some SafetyNet,
         backoff_multiplier := 4, cross_seed_dispatched := {''h''}\<rparr>;
       outs = watch_cycles demo_config failing
         [(demo_input {''h''} 100)\<lparr>downloading_count := 1\<rparr>, demo_input {} 130]
   in map decision outs = [IDLE, FIRE_RUN] \<and> decision (evaluate demo_config (demo_input {} 130) failing) = IDLE"
  by (simp add: Let_def fresh_watcher_state_def demo_input_def demo_config_def evaluate_def seed_safety_net_def
      work_set_def pipeline_work_def evaluate_work_def evaluate_safety_net_def safety_net_expired_def
      watcher_output_of_def fire_run_def)

end
