(* ===== verification/Py_Errors.thy ===== *)
theory Py_Errors
  imports Prelude
begin

text \<open>
  The errors the modelled code raises. \<open>refusal_code\<close> and the refusal classes are those of
  \<open>app/errors.py\<close>; the other constructors of \<open>py_error\<close> are the exceptions of the language, of
  SQLite and of the domain models that a caller can meet. A computation that may raise returns
  \<open>py_error + 'a\<close>, with \<open>Inl\<close> for the exception.
\<close>

datatype refusal_code =
    REQUEST_INVALID | REQUEST_CROSS_ORIGIN | REQUEST_KEY_REUSED | REQUEST_IN_PROGRESS | ROUTE_UNKNOWN
  | INTERNAL | AUTH_REQUIRED | AUTH_REFUSED | AUTH_PLEX_ONLY | AUTH_RATE_LIMITED
  | AUTH_ACCESS_DISABLED | RIGHT_MISSING | INSTANCE_READ_ONLY | INSTANCE_FORBIDDEN_WRITE
  | ACCOUNT_UNKNOWN | ACCOUNT_EMAIL_INVALID | ACCOUNT_EMAIL_TAKEN | ACCOUNT_ADMIN_UNTOUCHABLE
  | ACCOUNT_LAST_ADMIN | ACCOUNT_ACCESS_ADMIN_ONLY | ACCOUNT_OWNER_ACCESS | ACCOUNT_OWN_ACCESS
  | ACCOUNT_ADMIN_OWNER_ONLY | ACCOUNT_OWNER_ADMIN | ROLE_UNKNOWN | ROLE_SYSTEM_IMMUTABLE
  | ROLE_OWN_ROLE | ROLE_ESCALATION | ROLE_NAME_REQUIRED | ROLE_NAME_TAKEN | ROLE_IN_USE
  | ROLE_DEFAULT | RIGHT_UNKNOWN | SESSION_UNKNOWN | SESSION_CURRENT | PASSWORD_REQUIRED
  | PASSWORD_TOO_SHORT | PASSWORD_TOO_WEAK | PASSWORD_CURRENT_WRONG | PASSWORD_HELD_BY_CLI
  | PASSWORD_RESET_ADMIN_ONLY | PASSWORD_RESET_OWN | PLEX_UNREACHABLE | PLEX_SERVER_UNREACHABLE
  | PLEX_TOKEN_REFUSED | PLEX_PIN_UNKNOWN | PLEX_PIN_EXPIRED | MEDIA_NOT_FOUND | MEDIA_AMBIGUOUS
  | PROVIDER_UNAVAILABLE | LIBRARY_LOCKED | LIBRARY_OBLIGATIONS_UNREADABLE | LIBRARY_UNAVAILABLE

text \<open>The subclasses of \<open>AppRefusal\<close>, named without their prefix, and their HTTP status.\<close>

datatype refusal_class = BadRequest | Unauthenticated | Forbidden | NotFound | Conflict
  | ValidationRefused | PreconditionRequired | InternalError | TooManyRequests | Unavailable

fun refusal_status :: "refusal_class \<Rightarrow> nat" where
  "refusal_status BadRequest = 400"
| "refusal_status Unauthenticated = 401"
| "refusal_status Forbidden = 403"
| "refusal_status NotFound = 404"
| "refusal_status Conflict = 409"
| "refusal_status ValidationRefused = 422"
| "refusal_status PreconditionRequired = 428"
| "refusal_status InternalError = 500"
| "refusal_status TooManyRequests = 429"
| "refusal_status Unavailable = 503"

datatype py_error =
    AppRefusal refusal_class refusal_code
  | RunRequestStateError
  | ValueError
  | KeyError
  | TypeError
  | LookupError
  | IntegrityError
  | AssertionError
  | OwnerAlreadySeeded
  | AmbiguousOwner
  | PlexAccountError
  | JSONDecodeError
  | AttributeError
  | UncaughtCircuitOpen
  | ObligationsUnreadable
  | SandboxGuardError

text \<open>Sequencing of computations that may raise.\<close>

definition raising_bind :: "'e + 'a \<Rightarrow> ('a \<Rightarrow> 'e + 'b) \<Rightarrow> 'e + 'b" where
  "raising_bind m f = (case m of Inl e \<Rightarrow> Inl e | Inr x \<Rightarrow> f x)"

lemma raising_bind_simps [simp]:
  "raising_bind (Inl e) f = Inl e"
  "raising_bind (Inr x) f = f x"
  by (simp_all add: raising_bind_def)

lemma raising_bind_Inr: "raising_bind m f = Inr y \<longleftrightarrow> (\<exists>x. m = Inr x \<and> f x = Inr y)"
  by (cases m) auto

text \<open>A check, then the rest; and the check that raises a refusal.\<close>

definition and_then :: "'e + unit \<Rightarrow> 'e + 'a \<Rightarrow> 'e + 'a" where
  "and_then check rest = raising_bind check (\<lambda>_. rest)"

definition refuse_if :: "bool \<Rightarrow> refusal_class \<Rightarrow> refusal_code \<Rightarrow> py_error + unit" where
  "refuse_if b cls code = (if b then Inl (AppRefusal cls code) else Inr ())"

lemma and_then_simps [simp]:
  "and_then (Inl e) m = Inl e"
  "and_then (Inr ()) m = m"
  by (simp_all add: and_then_def)

lemma and_then_Inr: "and_then check rest = Inr y \<longleftrightarrow> check = Inr () \<and> rest = Inr y"
  by (cases check) (auto simp: and_then_def)

lemma refuse_if_Inr: "refuse_if b cls code = Inr u \<longleftrightarrow> \<not> b"
  by (simp add: refuse_if_def)

text \<open>\<open>for x in xs: body\<close>: the loop stops at the first exception.\<close>

fun raising_fold :: "('a \<Rightarrow> 's \<Rightarrow> 'e + 's) \<Rightarrow> 'a list \<Rightarrow> 's \<Rightarrow> 'e + 's" where
  "raising_fold f [] s = Inr s"
| "raising_fold f (x # xs) s = raising_bind (f x s) (raising_fold f xs)"

lemma raising_fold_inv:
  assumes "raising_fold f xs s = Inr s'" and "I s"
    and "\<And>x s s'. x \<in> set xs \<Longrightarrow> I s \<Longrightarrow> f x s = Inr s' \<Longrightarrow> I s'"
  shows "I s'"
  using assms by (induction xs arbitrary: s) (auto simp: raising_bind_Inr)

lemma raising_fold_total:
  assumes "I s" and "\<And>x s. x \<in> set xs \<Longrightarrow> I s \<Longrightarrow> \<exists>s'. f x s = Inr s' \<and> I s'"
  shows "\<exists>s'. raising_fold f xs s = Inr s' \<and> I s'"
  using assms
proof (induction xs arbitrary: s)
  case Nil
  then show ?case by simp
next
  case (Cons x xs)
  obtain s1 where "f x s = Inr s1" and "I s1" using Cons.prems by fastforce
  then show ?case using Cons by simp
qed

end
