(* ===== verification/Json.thy ===== *)
theory Json
  imports Py_Errors
begin

text \<open>
  The JSON the code stores in its text columns. A column is written with \<open>json.dumps\<close> and read
  with \<open>json.loads\<close>; a stored text is modelled by what it decodes to: a value, or \<open>NotJson\<close> for
  a text no value decodes from. With \<open>sort_keys=True\<close> two equal values have equal texts, so
  comparing the texts is comparing the values. Numbers are the integers the code stores.
\<close>

datatype json =
    JNull
  | JBool bool
  | JInt int
  | JStr string
  | JList "json list"
  | JObj "(string \<times> json) list"

datatype json_text = Text json | NotJson

text \<open>\<open>data[k]\<close> and \<open>data.get(k)\<close> of a decoded object; the last of two equal keys wins in
  \<open>json.loads\<close>, and no text the code writes holds a key twice.\<close>

fun json_get :: "json \<Rightarrow> string \<Rightarrow> json option" where
  "json_get (JObj kvs) k = map_of kvs k"
| "json_get _ k = None"

fun json_keys :: "json \<Rightarrow> string list" where
  "json_keys (JObj kvs) = map fst kvs"
| "json_keys _ = []"

definition json_of_int_option :: "int option \<Rightarrow> json" where
  "json_of_int_option x = (case x of None \<Rightarrow> JNull | Some i \<Rightarrow> JInt i)"

text \<open>Reading a field back at the type it was written with; another type is a \<open>TypeError\<close>.\<close>

fun as_bool :: "json \<Rightarrow> py_error + bool" where
  "as_bool (JBool b) = Inr b"
| "as_bool _ = Inl TypeError"

fun as_int_option :: "json \<Rightarrow> py_error + int option" where
  "as_int_option JNull = Inr None"
| "as_int_option (JInt i) = Inr (Some i)"
| "as_int_option _ = Inl TypeError"

lemma as_int_option_of [simp]: "as_int_option (json_of_int_option x) = Inr x"
  by (cases x) (simp_all add: json_of_int_option_def)

definition json_get_or :: "(json \<Rightarrow> py_error + 'a) \<Rightarrow> 'a \<Rightarrow> json \<Rightarrow> string \<Rightarrow> py_error + 'a" where
  "json_get_or conv dflt j k = (case json_get j k of None \<Rightarrow> Inr dflt | Some v \<Rightarrow> conv v)"

end
