(* ===== verification/Run_Request.thy ===== *)
theory Run_Request
  imports Json
begin

text \<open>
  The supervisor's domain (\<open>app/supervisor/model.py\<close>): a request to run with the moves of its
  life, and the lease. A request is a mutable object; each move returns the updated request or
  raises \<open>RunRequestStateError\<close>. The record \<open>run_row\<close> holds the thirteen columns of the
  \<open>run_request\<close> table; \<open>run_request\<close> adds \<open>read_state\<close>, the state the object was last read or
  saved in, which is not stored.
\<close>

definition HEARTBEAT_INTERVAL_S :: time where "HEARTBEAT_INTERVAL_S = 30"

definition STALE_AFTER_S :: time where "STALE_AFTER_S = 3 * HEARTBEAT_INTERVAL_S"

definition LEASE_TTL_S :: time where "LEASE_TTL_S = 60"

datatype run_kind = PIPELINE | RESCRAPE

datatype run_trigger = COMPLETION | SAFETY_NET | MANUAL | WEB | CLI | SCRAPE_RESOLVE

datatype request_state = QUEUED | RUNNING | SETTLED

datatype settlement = SUCCESS | ERROR | KILLED | INTERRUPTED | ABANDONED

datatype wait_reason = BEHIND_RUN | PIPELINE_LOCK_HELD | PAUSED | WORKER_START_FAILED | SUPERVISOR_ABSENT

record run_options =
  dry_run :: bool
  skip_trailers :: bool
  continue_on_trailer_error :: bool
  no_post_maintenance :: bool
  item_id :: "int option"

definition default_options :: run_options where
  "default_options = \<lparr>dry_run = False, skip_trailers = False, continue_on_trailer_error = False,
     no_post_maintenance = False, item_id = None\<rparr>"

type_synonym run_uid = string
type_synonym account_id = string

record run_row =
  uid :: run_uid
  kind :: run_kind
  trigger :: run_trigger
  options_json :: json
  asked_by :: account_id
  asked_at :: time
  state :: request_state
  admitted_at :: "time option"
  worker_pid :: "int option"
  heartbeat_at :: "time option"
  settled_at :: "time option"
  settlement :: "settlement option"
  wait_reason :: "wait_reason option"

record run_request = run_row +
  read_state :: request_state

subsection \<open>The options and their canonical text\<close>

text \<open>\<open>json.dumps(asdict(options), sort_keys=True)\<close>\<close>

definition options_to_json :: "run_options \<Rightarrow> json" where
  "options_to_json opts = JObj
     [(''continue_on_trailer_error'', JBool (continue_on_trailer_error opts)),
      (''dry_run'', JBool (dry_run opts)),
      (''item_id'', json_of_int_option (item_id opts)),
      (''no_post_maintenance'', JBool (no_post_maintenance opts)),
      (''skip_trailers'', JBool (skip_trailers opts))]"

text \<open>\<open>RunOptions(**data)\<close> after the mandatory read of \<open>data["item_id"]\<close>: an unknown key is a
  \<open>TypeError\<close>, a missing one takes its default.\<close>

definition parse_options :: "json \<Rightarrow> py_error + run_options" where
  "parse_options j =
     (case json_get j ''item_id'' of
        None \<Rightarrow> Inl KeyError
      | Some raw \<Rightarrow>
          if \<not> list_all (\<lambda>k. k \<in> {''continue_on_trailer_error'', ''dry_run'', ''item_id'',
                 ''no_post_maintenance'', ''skip_trailers''}) (json_keys j)
          then Inl TypeError
          else raising_bind (as_int_option raw) (\<lambda>item.
               raising_bind (json_get_or as_bool False j ''dry_run'') (\<lambda>dry.
               raising_bind (json_get_or as_bool False j ''skip_trailers'') (\<lambda>skip.
               raising_bind (json_get_or as_bool False j ''continue_on_trailer_error'') (\<lambda>cont.
               raising_bind (json_get_or as_bool False j ''no_post_maintenance'') (\<lambda>nopost.
               Inr \<lparr>dry_run = dry, skip_trailers = skip, continue_on_trailer_error = cont,
                    no_post_maintenance = nopost, item_id = item\<rparr>))))))"

definition options :: "('a run_row_scheme) \<Rightarrow> py_error + run_options" where
  "options req = parse_options (options_json req)"

lemma parse_options_to_json [simp]: "parse_options (options_to_json opts) = Inr opts"
  by (simp add: parse_options_def options_to_json_def json_get_or_def)

lemma options_to_json_inject [simp]: "options_to_json a = options_to_json b \<longleftrightarrow> a = b"
  by (metis parse_options_to_json sum.inject(2))

subsection \<open>The request and its moves\<close>

text \<open>\<open>RunRequest.ask\<close>: the uid is the one the caller minted or a fresh one (\<open>uuid4\<close>, given
  here as an argument).\<close>

definition ask :: "run_kind \<Rightarrow> run_trigger \<Rightarrow> run_options \<Rightarrow> account_id \<Rightarrow> time \<Rightarrow> run_uid option \<Rightarrow> run_uid \<Rightarrow> run_request"
  where
  "ask k trig opts who t promised fresh =
     \<lparr>uid = (case promised of None \<Rightarrow> fresh | Some u \<Rightarrow> u), kind = k, trigger = trig,
      options_json = options_to_json opts, asked_by = who, asked_at = t, state = QUEUED,
      admitted_at = None, worker_pid = None, heartbeat_at = None, settled_at = None,
      settlement = None, wait_reason = None, read_state = QUEUED\<rparr>"

text \<open>\<open>RunRequest.joins\<close>: whether an ask is answered by a request already in the queue. Reading
  the options of either may raise.\<close>

definition joins :: "'a run_row_scheme \<Rightarrow> 'b run_row_scheme \<Rightarrow> py_error + bool" where
  "joins asked other =
     (if kind asked \<noteq> kind other then Inr False
      else if kind asked = RESCRAPE then
        raising_bind (options asked) (\<lambda>mine.
          if item_id mine = None then Inr False
          else raising_bind (options other) (\<lambda>theirs.
            Inr (item_id theirs = item_id mine \<and> state other \<in> {QUEUED, RUNNING})))
      else Inr (state other = QUEUED \<and> options_json other = options_json asked))"

definition require_state :: "request_state \<Rightarrow> 'a run_row_scheme \<Rightarrow> py_error + unit" where
  "require_state s req = (if state req \<noteq> s then Inl RunRequestStateError else Inr ())"

definition wait :: "wait_reason \<Rightarrow> run_request \<Rightarrow> py_error + run_request" where
  "wait reason req = raising_bind (require_state QUEUED req) (\<lambda>_.
     if reason = SUPERVISOR_ABSENT then Inl ValueError
     else Inr (req\<lparr>wait_reason := Some reason\<rparr>))"

definition admit :: "int option \<Rightarrow> time \<Rightarrow> run_request \<Rightarrow> py_error + run_request" where
  "admit pid t req = raising_bind (require_state QUEUED req) (\<lambda>_.
     Inr (req\<lparr>state := RUNNING, worker_pid := pid, admitted_at := Some t,
          heartbeat_at := Some t, wait_reason := None\<rparr>))"

definition record_worker :: "int \<Rightarrow> run_request \<Rightarrow> py_error + run_request" where
  "record_worker pid req = raising_bind (require_state RUNNING req) (\<lambda>_.
     Inr (req\<lparr>worker_pid := Some pid\<rparr>))"

definition back_to_queue :: "wait_reason \<Rightarrow> run_request \<Rightarrow> py_error + run_request" where
  "back_to_queue reason req = raising_bind (require_state RUNNING req) (\<lambda>_.
     Inr (req\<lparr>state := QUEUED, worker_pid := None, admitted_at := None, heartbeat_at := None,
          wait_reason := Some reason\<rparr>))"

definition settle :: "settlement \<Rightarrow> time \<Rightarrow> run_request \<Rightarrow> py_error + run_request" where
  "settle how t req = raising_bind (require_state RUNNING req) (\<lambda>_.
     Inr (req\<lparr>state := SETTLED, settlement := Some how, settled_at := Some t\<rparr>))"

definition abandon :: "time \<Rightarrow> run_request \<Rightarrow> py_error + run_request" where
  "abandon t req = raising_bind (require_state QUEUED req) (\<lambda>_.
     Inr (req\<lparr>state := SETTLED, settlement := Some ABANDONED, settled_at := Some t, wait_reason := None\<rparr>))"

definition stale :: "time \<Rightarrow> 'a run_row_scheme \<Rightarrow> bool" where
  "stale t req =
     (case heartbeat_at req of
        None \<Rightarrow> False
      | Some beat \<Rightarrow> state req = RUNNING \<and> t - beat > STALE_AFTER_S)"

lemmas move_defs = require_state_def wait_def admit_def record_worker_def back_to_queue_def
  settle_def abandon_def

text \<open>One legal move of a request, by whoever holds the object.\<close>

inductive move :: "run_request \<Rightarrow> run_request \<Rightarrow> bool" where
  waits: "wait reason r = Inr r' \<Longrightarrow> move r r'"
| admits: "admit pid t r = Inr r' \<Longrightarrow> move r r'"
| records: "record_worker p r = Inr r' \<Longrightarrow> move r r'"
| sends_back: "back_to_queue reason r = Inr r' \<Longrightarrow> reason \<noteq> SUPERVISOR_ABSENT \<Longrightarrow> move r r'"
| settles: "settle how t r = Inr r' \<Longrightarrow> move r r'"
| abandons: "abandon t r = Inr r' \<Longrightarrow> move r r'"

inductive_cases moveE: "move r r'"

subsection \<open>The fields a state allows\<close>

text \<open>What the docstring of \<open>RunRequest\<close> says of its fields, as an invariant.\<close>

definition wf_request :: "'a run_row_scheme \<Rightarrow> bool" where
  "wf_request r \<longleftrightarrow>
     (case state r of
        QUEUED \<Rightarrow> admitted_at r = None \<and> worker_pid r = None \<and> heartbeat_at r = None
          \<and> settled_at r = None \<and> settlement r = None \<and> wait_reason r \<noteq> Some SUPERVISOR_ABSENT
      | RUNNING \<Rightarrow> admitted_at r \<noteq> None \<and> heartbeat_at r \<noteq> None
          \<and> settled_at r = None \<and> settlement r = None \<and> wait_reason r = None
      | SETTLED \<Rightarrow> settled_at r \<noteq> None \<and> settlement r \<noteq> None \<and> wait_reason r = None
          \<and> (settlement r \<noteq> Some ABANDONED \<longrightarrow> admitted_at r \<noteq> None))
     \<and> (\<exists>opts. options_json r = options_to_json opts)"

lemma wf_ask [wf_intro]: "wf_request (ask k trig opts who t promised fresh)"
  by (auto simp: wf_request_def ask_def)

lemma move_wf [wf_intro]: "move r r' \<Longrightarrow> wf_request r \<Longrightarrow> wf_request r'"
  by (erule moveE) (auto simp: wf_request_def move_defs split: if_splits)

lemma move_identity:
  "move r r' \<Longrightarrow> uid r' = uid r \<and> kind r' = kind r \<and> trigger r' = trigger r \<and> options_json r' = options_json r
     \<and> asked_by r' = asked_by r \<and> asked_at r' = asked_at r \<and> read_state r' = read_state r"
  by (erule moveE) (auto simp: move_defs split: if_splits)

lemma move_from_settled: "move r r' \<Longrightarrow> state r \<noteq> SETTLED"
  by (erule moveE) (auto simp: move_defs split: if_splits)

lemma wf_options: "wf_request r \<Longrightarrow> \<exists>opts. options r = Inr opts"
  by (auto simp: wf_request_def options_def)

lemma options_ask [simp]: "options (ask k trig opts who t promised fresh) = Inr opts"
  by (simp add: options_def ask_def)

subsection \<open>The lease\<close>

record lease =
  holder_pid :: int
  holder_host :: string
  taken_at :: time
  renewed_at :: time
  expires_at :: time

definition live :: "lease \<Rightarrow> time \<Rightarrow> bool" where
  "live l t \<longleftrightarrow> expires_at l > t"

definition claimable :: "lease \<Rightarrow> time \<Rightarrow> (int \<Rightarrow> bool) \<Rightarrow> string \<Rightarrow> bool" where
  "claimable l t pid_alive this_host =
     (if \<not> live l t then True else holder_host l = this_host \<and> \<not> pid_alive (holder_pid l))"

end
