(* ===== verification/Run_Queue.thy ===== *)
theory Run_Queue
  imports Run_Request
begin

text \<open>
  The \<open>run_request\<close> table (\<open>app/supervisor/queue_repository.py\<close>): the rows in rowid order, one
  definition per repository method. No code deletes a row of this table. \<open>save\<close> is the
  compare-and-set every writer of the table goes through. The second half interleaves any number
  of processes at the granularity of the single statements: each holds objects it read earlier,
  moves them and saves them, while heartbeats and new asks arrive in between.
\<close>

type_synonym run_table = "run_row list"

text \<open>\<open>_request\<close> builds the object of a row; \<open>_values\<close> are the columns of an object.\<close>

definition request_of_row :: "run_row \<Rightarrow> run_request" where
  "request_of_row row = run_row.extend row (run_request.fields (state row))"

definition row_values :: "run_request \<Rightarrow> run_row" where
  "row_values req = run_row.truncate req"

lemma request_of_row_sel [simp]:
  "uid (request_of_row row) = uid row" "kind (request_of_row row) = kind row"
  "trigger (request_of_row row) = trigger row" "options_json (request_of_row row) = options_json row"
  "asked_by (request_of_row row) = asked_by row" "asked_at (request_of_row row) = asked_at row"
  "state (request_of_row row) = state row" "admitted_at (request_of_row row) = admitted_at row"
  "worker_pid (request_of_row row) = worker_pid row" "heartbeat_at (request_of_row row) = heartbeat_at row"
  "settled_at (request_of_row row) = settled_at row" "settlement (request_of_row row) = settlement row"
  "wait_reason (request_of_row row) = wait_reason row" "read_state (request_of_row row) = state row"
  by (simp_all add: request_of_row_def run_row.defs run_request.defs)

lemma row_values_sel [simp]:
  "uid (row_values req) = uid req" "kind (row_values req) = kind req"
  "trigger (row_values req) = trigger req" "options_json (row_values req) = options_json req"
  "asked_by (row_values req) = asked_by req" "asked_at (row_values req) = asked_at req"
  "state (row_values req) = state req" "admitted_at (row_values req) = admitted_at req"
  "worker_pid (row_values req) = worker_pid req" "heartbeat_at (row_values req) = heartbeat_at req"
  "settled_at (row_values req) = settled_at req" "settlement (row_values req) = settlement req"
  "wait_reason (row_values req) = wait_reason req"
  by (simp_all add: row_values_def run_row.defs)

lemma row_values_request_of_row [simp]: "row_values (request_of_row row) = row"
  by (cases row) (simp add: row_values_def request_of_row_def run_row.defs run_request.defs)

lemma wf_request_of_row [simp]: "wf_request (request_of_row row) = wf_request row"
  by (simp add: wf_request_def split: request_state.splits)

lemma wf_row_values [simp]: "wf_request (row_values req) = wf_request req"
  by (simp add: wf_request_def split: request_state.splits)

lemma row_values_read_state [simp]: "row_values (r\<lparr>read_state := s\<rparr>) = row_values r"
  by (simp add: row_values_def run_row.defs)

lemma wf_read_state [simp]: "wf_request (r\<lparr>read_state := s\<rparr>) = wf_request r"
  by (simp add: wf_request_def split: request_state.splits)

subsection \<open>The repository\<close>

text \<open>The primary key refuses a second row of a uid (\<open>IntegrityError\<close>).\<close>

definition insert_request :: "run_request \<Rightarrow> run_table \<Rightarrow> py_error + run_table" where
  "insert_request req rows =
     (if \<exists>row \<in> set rows. uid row = uid req then Inl IntegrityError else Inr (rows @ [row_values req]))"

definition get_request :: "run_uid \<Rightarrow> run_table \<Rightarrow> run_request option" where
  "get_request u rows = map_option request_of_row (sql_first (\<lambda>row. uid row = u) rows)"

text \<open>\<open>ORDER BY asked_at, rowid\<close>: a stable sort of the rows, which are in rowid order.\<close>

definition fifo :: "run_table \<Rightarrow> run_table" where
  "fifo rows = sort_key asked_at rows"

definition queued :: "run_table \<Rightarrow> run_request list" where
  "queued rows = map request_of_row (fifo (filter (\<lambda>row. state row = QUEUED) rows))"

definition first_queued :: "run_table \<Rightarrow> run_request option" where
  "first_queued rows =
     (case fifo (filter (\<lambda>row. state row = QUEUED) rows) of [] \<Rightarrow> None | row # _ \<Rightarrow> Some (request_of_row row))"

definition running :: "run_table \<Rightarrow> run_request list" where
  "running rows = map request_of_row (fifo (filter (\<lambda>row. state row = RUNNING) rows))"

text \<open>The SQL clause of \<open>queued_like\<close>: equal text, or \<open>json_extract(options_json, '$.item_id') = ?\<close>.\<close>

definition like_clause :: "json \<Rightarrow> int option \<Rightarrow> run_row \<Rightarrow> bool" where
  "like_clause text item row =
     (case item of
        None \<Rightarrow> options_json row = text
      | Some i \<Rightarrow> json_get (options_json row) ''item_id'' = Some (JInt i))"

definition queued_like :: "run_kind \<Rightarrow> json \<Rightarrow> int option \<Rightarrow> run_table \<Rightarrow> run_request option" where
  "queued_like k text item rows =
     (if k = RESCRAPE \<and> item = None then None
      else case fifo (filter (\<lambda>row. state row = QUEUED \<and> kind row = k \<and> like_clause text item row) rows) of
             [] \<Rightarrow> None | row # _ \<Rightarrow> Some (request_of_row row))"

definition touch_heartbeat :: "run_uid \<Rightarrow> time \<Rightarrow> run_table \<Rightarrow> bool \<times> run_table" where
  "touch_heartbeat u t rows =
     (let P = (\<lambda>row. uid row = u \<and> state row = RUNNING)
      in (sql_count P rows = 1, sql_update P (\<lambda>row. row\<lparr>heartbeat_at := Some t\<rparr>) rows))"

text \<open>\<open>save\<close>: written only over a row still in \<open>read_state\<close>; the object then remembers the
  state it saved. A uid of no row at all is a \<open>LookupError\<close>.\<close>

definition save :: "run_request \<Rightarrow> run_table \<Rightarrow> py_error + (bool \<times> run_request \<times> run_table)" where
  "save req rows =
     (let P = (\<lambda>row. uid row = uid req \<and> state row = read_state req);
          rows' = sql_update P (\<lambda>row. (row_values req)\<lparr>uid := uid row\<rparr>) rows
      in if sql_count P rows = 1 then Inr (True, req\<lparr>read_state := state req\<rparr>, rows')
         else if sql_first (\<lambda>row. uid row = uid req) rows = None then Inl LookupError
         else Inr (False, req, rows'))"

subsection \<open>What the methods do\<close>

definition wf_table :: "run_table \<Rightarrow> bool" where
  "wf_table rows \<longleftrightarrow> distinct (map uid rows) \<and> (\<forall>row \<in> set rows. wf_request row)"

text \<open>The state and the row stored under a uid.\<close>

definition stored :: "run_table \<Rightarrow> run_uid \<Rightarrow> run_row option" where
  "stored rows u = sql_first (\<lambda>row. uid row = u) rows"

lemma wf_table_distinct: "wf_table rows \<Longrightarrow> distinct (map uid rows)"
  by (simp add: wf_table_def)

lemma stored_iff: "wf_table rows \<Longrightarrow> stored rows u = Some row \<longleftrightarrow> row \<in> set rows \<and> uid row = u"
  by (simp add: stored_def wf_table_def sql_first_keyed)

lemma stored_uid: "stored rows u = Some row \<Longrightarrow> uid row = u \<and> row \<in> set rows"
  by (auto simp: stored_def dest: sql_first_SomeD)

lemma get_request_stored: "get_request u rows = map_option request_of_row (stored rows u)"
  by (simp add: get_request_def stored_def)

lemma insert_request_wf [wf_intro]:
  "insert_request req rows = Inr rows' \<Longrightarrow> wf_table rows \<Longrightarrow> wf_request req \<Longrightarrow> wf_table rows'"
  by (force simp: insert_request_def wf_table_def split: if_splits)

lemma insert_request_stored:
  assumes "insert_request req rows = Inr rows'"
  shows "stored rows' u = (if u = uid req then Some (row_values req) else stored rows u)"
proof -
  have "\<forall>row \<in> set rows. uid row \<noteq> uid req" and "rows' = rows @ [row_values req]"
    using assms by (auto simp: insert_request_def split: if_splits)
  moreover from this(1) have "stored rows (uid req) = None" by (simp add: stored_def sql_first_None)
  ultimately show ?thesis by (auto simp: stored_def sql_first_append split: option.splits)
qed

lemma save_wf [wf_intro]:
  assumes "save req rows = Inr (ok, req', rows')" and "wf_table rows" and "wf_request req"
  shows "wf_table rows'"
proof -
  have rows': "rows' = sql_update (\<lambda>row. uid row = uid req \<and> state row = read_state req)
      (\<lambda>row. (row_values req)\<lparr>uid := uid row\<rparr>) rows"
    using assms(1) by (auto simp: save_def Let_def split: if_splits)
  moreover have "wf_request ((row_values req)\<lparr>uid := u\<rparr>)" for u
    using assms(3) by (simp add: wf_request_def split: request_state.splits)
  ultimately show ?thesis
    using assms(2) by (auto simp: wf_table_def set_sql_update)
qed

text \<open>The compare-and-set, on the abstract view of the table.\<close>

lemma save_cases:
  assumes "wf_table rows"
  shows "save req rows =
    (case stored rows (uid req) of
       None \<Rightarrow> Inl LookupError
     | Some row \<Rightarrow>
         if state row = read_state req
         then Inr (True, req\<lparr>read_state := state req\<rparr>,
                   sql_update (\<lambda>row. uid row = uid req) (\<lambda>_. row_values req) rows)
         else Inr (False, req, rows))"
proof (cases "stored rows (uid req)")
  case None
  then have "\<forall>row \<in> set rows. uid row \<noteq> uid req" by (simp add: stored_def sql_first_None)
  then show ?thesis using None
    by (simp add: save_def sql_count_def stored_def filter_empty_conv)
next
  case (Some row)
  with assms have row: "row \<in> set rows" "uid row = uid req" by (simp_all add: stored_iff)
  have only: "row' = row" if "row' \<in> set rows" "uid row' = uid req" for row'
    using keyed_unique [OF wf_table_distinct [OF assms]] that row by metis
  show ?thesis
  proof (cases "state row = read_state req")
    case True
    then have "sql_count (\<lambda>row. uid row = uid req \<and> state row = read_state req) rows = 1"
      using row sql_count_keyed [OF wf_table_distinct [OF assms], of "uid req" "\<lambda>row. state row = read_state req"]
      by auto
    moreover have "sql_update (\<lambda>row. uid row = uid req \<and> state row = read_state req)
        (\<lambda>row. (row_values req)\<lparr>uid := uid row\<rparr>) rows
      = sql_update (\<lambda>row. uid row = uid req) (\<lambda>_. row_values req) rows"
      using True only by (auto simp: sql_update_def)
    ultimately show ?thesis using Some True by (simp add: save_def)
  next
    case False
    then have no: "\<not> (uid row' = uid req \<and> state row' = read_state req)" if "row' \<in> set rows" for row'
      using only that by auto
    then have "sql_count (\<lambda>row. uid row = uid req \<and> state row = read_state req) rows = 0"
      by (simp add: sql_count_0)
    with no Some False show ?thesis
      by (simp add: save_def sql_update_none stored_def)
  qed
qed

lemma stored_update:
  assumes "stored rows (uid req) = Some row"
  shows "stored (sql_update (\<lambda>row. uid row = uid req) (\<lambda>_. row_values req) rows) u =
    (if u = uid req then Some (row_values req) else stored rows u)"
proof -
  have "stored (sql_update (\<lambda>row. uid row = uid req) (\<lambda>_. row_values req) rows) u =
    map_option (\<lambda>row. if uid row = uid req then row_values req else row) (stored rows u)"
    unfolding stored_def by (rule sql_first_update) simp
  then show ?thesis using assms
    by (cases "stored rows u") (auto dest: stored_uid)
qed

lemma save_stored:
  assumes "wf_table rows" and "save req rows = Inr (ok, req', rows')"
  shows "stored rows' u = (if ok \<and> u = uid req then Some (row_values req) else stored rows u)"
    and "ok \<longleftrightarrow> (\<exists>row. stored rows (uid req) = Some row \<and> state row = read_state req)"
    and "req' = (if ok then req\<lparr>read_state := state req\<rparr> else req)"
  using assms(2) stored_update [of rows req]
  by (auto simp: save_cases [OF assms(1)] split: option.splits if_splits)

lemma touch_heartbeat_wf [wf_intro]:
  "touch_heartbeat u t rows = (ok, rows') \<Longrightarrow> wf_table rows \<Longrightarrow> wf_table rows'"
  by (auto simp: touch_heartbeat_def Let_def wf_table_def set_sql_update wf_request_def split: request_state.splits)

lemma touch_heartbeat_stored:
  assumes "touch_heartbeat u t rows = (ok, rows')"
  shows "stored rows' v = map_option (\<lambda>row. if uid row = u \<and> state row = RUNNING
    then row\<lparr>heartbeat_at := Some t\<rparr> else row) (stored rows v)"
  using assms by (auto simp: touch_heartbeat_def Let_def stored_def intro!: sql_first_update)

text \<open>The queries against the table.\<close>

lemma set_queued: "set (queued rows) = request_of_row ` {row \<in> set rows. state row = QUEUED}"
  by (auto simp: queued_def fifo_def)

lemma set_running: "set (running rows) = request_of_row ` {row \<in> set rows. state row = RUNNING}"
  by (auto simp: running_def fifo_def)

lemma running_empty: "running rows = [] \<longleftrightarrow> (\<forall>row \<in> set rows. state row \<noteq> RUNNING)"
  using set_running [of rows] by (auto simp: set_empty [symmetric] simp del: set_empty)

lemma length_running: "length (running rows) = length (filter (\<lambda>row. state row = RUNNING) rows)"
  by (simp add: running_def fifo_def)

lemma first_queued_hd: "first_queued rows = (case queued rows of [] \<Rightarrow> None | r # _ \<Rightarrow> Some r)"
  by (simp add: first_queued_def queued_def split: list.splits)

lemma sort_key_hd_least: "sort_key f xs = x # ys \<Longrightarrow> y \<in> set xs \<Longrightarrow> f x \<le> (f y :: 'b::linorder)"
proof -
  assume "sort_key f xs = x # ys" and "y \<in> set xs"
  then have "sorted (map f (x # ys))" and "y \<in> set (x # ys)"
    by (metis sorted_sort_key, metis set_sort)
  then show ?thesis by auto
qed

lemma first_queued_Some:
  assumes "first_queued rows = Some r"
  shows "\<exists>row \<in> set rows. r = request_of_row row \<and> state row = QUEUED
    \<and> (\<forall>row' \<in> set rows. state row' = QUEUED \<longrightarrow> asked_at row \<le> asked_at row')"
proof -
  obtain row rest where s: "sort_key asked_at (filter (\<lambda>row. state row = QUEUED) rows) = row # rest"
    and r: "r = request_of_row row"
    using assms by (auto simp: first_queued_def fifo_def split: list.splits)
  have "row \<in> set (filter (\<lambda>row. state row = QUEUED) rows)"
    using s by (metis list.set_intros(1) set_sort)
  with r sort_key_hd_least [OF s] show ?thesis by auto
qed

lemma first_queued_None: "first_queued rows = None \<longleftrightarrow> (\<forall>row \<in> set rows. state row \<noteq> QUEUED)"
  using set_queued [of rows] by (auto simp: first_queued_hd set_empty [symmetric] simp del: set_empty split: list.splits)

lemma queued_like_Some:
  assumes "queued_like k text item rows = Some r"
  shows "\<exists>row \<in> set rows. r = request_of_row row \<and> state row = QUEUED \<and> kind row = k
    \<and> like_clause text item row"
proof -
  obtain row rest where s: "sort_key asked_at
      (filter (\<lambda>row. state row = QUEUED \<and> kind row = k \<and> like_clause text item row) rows) = row # rest"
    and r: "r = request_of_row row"
    using assms by (auto simp: queued_like_def fifo_def split: list.splits if_splits)
  have "row \<in> set (filter (\<lambda>row. state row = QUEUED \<and> kind row = k \<and> like_clause text item row) rows)"
    using s by (metis list.set_intros(1) set_sort)
  with r show ?thesis by auto
qed

lemma queued_like_None:
  assumes "queued_like k text item rows = None" and "k \<noteq> RESCRAPE \<or> item \<noteq> None"
  shows "\<forall>row \<in> set rows. \<not> (state row = QUEUED \<and> kind row = k \<and> like_clause text item row)"
proof -
  have "sort_key asked_at (filter (\<lambda>row. state row = QUEUED \<and> kind row = k \<and> like_clause text item row) rows) = []"
    using assms by (auto simp: queued_like_def fifo_def split: list.splits if_splits)
  then have "filter (\<lambda>row. state row = QUEUED \<and> kind row = k \<and> like_clause text item row) rows = []"
    by (metis set_empty set_sort)
  then show ?thesis by (auto simp: filter_empty_conv)
qed


subsection \<open>Interleaved processes\<close>

text \<open>
  The table and every object any process holds. A step is one statement or one move of one
  process: an ask is inserted, a row is read, a held object moves, a held object is saved, a
  worker's heartbeat arrives. Keeping the object a move started from only adds behaviours.
\<close>

type_synonym queue_world = "run_table \<times> run_request set"

inductive queue_step :: "queue_world \<Rightarrow> queue_world \<Rightarrow> bool" where
  asks: "insert_request (ask k trig opts who t promised fresh) rows = Inr rows'
    \<Longrightarrow> queue_step (rows, held) (rows', held)"
| reads: "row \<in> set rows \<Longrightarrow> queue_step (rows, held) (rows, insert (request_of_row row) held)"
| moves: "r \<in> held \<Longrightarrow> move r r' \<Longrightarrow> queue_step (rows, held) (rows, insert r' held)"
| saves: "r \<in> held \<Longrightarrow> save r rows = Inr (ok, r', rows') \<Longrightarrow> queue_step (rows, held) (rows', insert r' held)"
| beats: "touch_heartbeat u t rows = (ok, rows') \<Longrightarrow> queue_step (rows, held) (rows', held)"

inductive_cases queue_stepE: "queue_step s s'"

definition identity_of :: "'a run_row_scheme \<Rightarrow> run_kind \<times> run_trigger \<times> json \<times> account_id \<times> time" where
  "identity_of r = (kind r, trigger r, options_json r, asked_by r, asked_at r)"

definition held_ok :: "run_table \<Rightarrow> run_request \<Rightarrow> bool" where
  "held_ok rows r \<longleftrightarrow> wf_request r \<and>
     (\<exists>row. stored rows (uid r) = Some row \<and> identity_of row = identity_of r
        \<and> (read_state r = SETTLED \<longrightarrow> state r = SETTLED \<and> row = row_values r))"

definition queue_inv :: "queue_world \<Rightarrow> bool" where
  "queue_inv w \<longleftrightarrow> wf_table (fst w) \<and> (\<forall>r \<in> snd w. held_ok (fst w) r)"

definition settled_row :: "queue_world \<Rightarrow> run_uid \<Rightarrow> run_row option" where
  "settled_row w u =
     (case stored (fst w) u of None \<Rightarrow> None | Some row \<Rightarrow> if state row = SETTLED then Some row else None)"

definition request_identity ::
  "queue_world \<Rightarrow> run_uid \<Rightarrow> (run_kind \<times> run_trigger \<times> json \<times> account_id \<times> time) option" where
  "request_identity w u = map_option identity_of (stored (fst w) u)"

text \<open>What a statement may do to the row of a uid.\<close>

definition row_evolves :: "run_row option \<Rightarrow> run_row option \<Rightarrow> bool" where
  "row_evolves old new \<longleftrightarrow>
     (\<forall>row. old = Some row \<longrightarrow> (\<exists>row'. new = Some row' \<and> identity_of row' = identity_of row
        \<and> (state row = SETTLED \<longrightarrow> row' = row)))"

lemma row_evolves_refl [simp]: "row_evolves old old"
  by (simp add: row_evolves_def)

lemma identity_of_request [simp]:
  "identity_of (request_of_row row) = identity_of row"
  "identity_of (row_values r) = identity_of r"
  "identity_of (r\<lparr>read_state := s\<rparr>) = identity_of r"
  by (simp_all add: identity_of_def)

lemma identity_of_move: "move r r' \<Longrightarrow> identity_of r' = identity_of r"
  by (auto simp: identity_of_def dest: move_identity)

lemma held_ok_evolves:
  assumes "held_ok rows r" and "\<And>u. row_evolves (stored rows u) (stored rows' u)"
  shows "held_ok rows' r"
proof -
  obtain row where row: "stored rows (uid r) = Some row" "identity_of row = identity_of r" "wf_request r"
    "read_state r = SETTLED \<longrightarrow> state r = SETTLED \<and> row = row_values r"
    using assms(1) by (auto simp: held_ok_def)
  obtain row' where row': "stored rows' (uid r) = Some row'" "identity_of row' = identity_of row"
    "state row = SETTLED \<longrightarrow> row' = row"
    using assms(2) [of "uid r"] row(1) by (auto simp: row_evolves_def)
  then show ?thesis using row by (auto simp: held_ok_def)
qed

text \<open>Saving a held object changes the row of its uid only, and never a settled one.\<close>

lemma save_evolves:
  assumes "wf_table rows" and "held_ok rows r" and "save r rows = Inr (ok, r', rows')"
  shows "row_evolves (stored rows u) (stored rows' u)" and "held_ok rows' r'"
proof -
  obtain row where row: "stored rows (uid r) = Some row" "identity_of row = identity_of r"
    "read_state r = SETTLED \<longrightarrow> state r = SETTLED \<and> row = row_values r" "wf_request r"
    using assms(2) by (auto simp: held_ok_def)
  note save = save_stored [OF assms(1,3)]
  show ev: "row_evolves (stored rows u) (stored rows' u)" for u
    using save(1) [of u] save(2) row by (auto simp: row_evolves_def split: if_splits)
  show "held_ok rows' r'"
  proof (cases ok)
    case True
    have "stored rows' (uid r) = Some (row_values r)" using save(1) [of "uid r"] True by simp
    then show ?thesis
      using True row save(2,3) by (auto simp: held_ok_def)
  next
    case False
    with save(3) have "r' = r" by simp
    with held_ok_evolves [OF assms(2) ev] show ?thesis by simp
  qed
qed

lemma queue_step_evolves:
  assumes "queue_step w w'" and "queue_inv w"
  shows "row_evolves (stored (fst w) u) (stored (fst w') u)"
  using assms
proof (cases rule: queue_step.cases)
  case (asks k trig opts who t promised fresh rows rows' held)
  have "stored rows u = Some row \<Longrightarrow> u \<noteq> uid (ask k trig opts who t promised fresh)" for row
    using asks(3) by (auto simp: insert_request_def dest: stored_uid split: if_splits)
  with insert_request_stored [OF asks(3)] asks show ?thesis
    by (auto simp: row_evolves_def)
next
  case (saves r held rows ok r' rows')
  with assms(2) show ?thesis
    using save_evolves(1) [of rows r ok r' rows' u] by (auto simp: queue_inv_def)
next
  case (beats u' t rows ok rows' held)
  with touch_heartbeat_stored [of u' t rows ok rows' u] show ?thesis
    by (auto simp: row_evolves_def identity_of_def)
qed simp_all

lemma queue_step_inv:
  assumes "queue_inv w" and "queue_step w w'"
  shows "queue_inv w'"
proof -
  have ev: "row_evolves (stored (fst w) u) (stored (fst w') u)" for u
    using assms by (intro queue_step_evolves)
  have keep: "held_ok (fst w') r" if "r \<in> snd w" for r
    using assms(1) that held_ok_evolves [OF _ ev] by (simp add: queue_inv_def)
  from assms(2) show ?thesis
  proof (cases rule: queue_step.cases)
    case (asks k trig opts who t promised fresh rows rows' held)
    with assms(1) keep show ?thesis
      by (auto simp: queue_inv_def intro: insert_request_wf wf_ask)
  next
    case (reads row rows held)
    moreover have "held_ok rows (request_of_row row)"
      using assms(1) reads by (auto simp: held_ok_def queue_inv_def stored_iff wf_table_def)
    ultimately show ?thesis using assms(1) keep by (auto simp: queue_inv_def)
  next
    case (moves r held r' rows)
    have "held_ok rows r" using assms(1) moves by (auto simp: queue_inv_def)
    with moves(4) have "held_ok rows r'"
      using move_wf [OF moves(4)] identity_of_move [OF moves(4)] move_identity [OF moves(4)]
        move_from_settled [OF moves(4)]
      by (auto simp: held_ok_def)
    then show ?thesis using assms(1) moves by (auto simp: queue_inv_def)
  next
    case (saves r held rows ok r' rows')
    then have r: "wf_table rows" "held_ok rows r" using assms(1) by (auto simp: queue_inv_def)
    have "wf_table rows'" using save_wf [OF saves(4) r(1)] r(2) by (simp add: held_ok_def)
    moreover have "held_ok rows' r'" using save_evolves(2) [OF r saves(4)] .
    ultimately show ?thesis using saves keep by (auto simp: queue_inv_def)
  next
    case (beats u t rows ok rows' held)
    with assms(1) keep show ?thesis by (auto simp: queue_inv_def intro: touch_heartbeat_wf)
  qed
qed

interpretation settled_rows: absorbing_fact queue_step queue_inv settled_row
proof unfold_locales
  fix w w' u row
  assume "queue_inv w" and "queue_step w w'" and "settled_row w u = Some row"
  then show "settled_row w' u = Some row"
    using queue_step_evolves [of w w' u]
    by (auto simp: settled_row_def row_evolves_def split: option.splits if_splits)
qed (rule queue_step_inv)

interpretation identities: absorbing_fact queue_step queue_inv request_identity
proof unfold_locales
  fix w w' u v
  assume "queue_inv w" and "queue_step w w'" and "request_identity w u = Some v"
  then show "request_identity w' u = Some v"
    using queue_step_evolves [of w w' u]
    by (auto simp: request_identity_def row_evolves_def)
qed

subsection \<open>Properties\<close>

text \<open>C6: however the asks, reads, moves, saves and heartbeats of any number of processes
  interleave, starting from an empty table: the table stays well-formed (every row's fields are
  those its state allows, uids are unique), a settled request never changes again, and no request
  ever changes what was asked, by whom or when.\<close>

theorem interleaved_queue_is_safe:
  assumes "queue_step\<^sup>*\<^sup>* ([], {}) w" and "queue_step\<^sup>*\<^sup>* w w'"
  shows "wf_table (fst w')
    \<and> (\<forall>u row. stored (fst w) u = Some row \<longrightarrow>
         (\<exists>row'. stored (fst w') u = Some row' \<and> identity_of row' = identity_of row
            \<and> (state row = SETTLED \<longrightarrow> row' = row)))"
proof -
  have w: "queue_inv w"
    using settled_rows.steps_inv [OF assms(1)] by (simp add: queue_inv_def wf_table_def)
  then have "queue_inv w'" using settled_rows.steps_inv [OF assms(2)] by blast
  moreover have "\<exists>row'. stored (fst w') u = Some row' \<and> identity_of row' = identity_of row
      \<and> (state row = SETTLED \<longrightarrow> row' = row)" if row: "stored (fst w) u = Some row" for u row
  proof -
    have "request_identity w u = Some (identity_of row)" using row by (simp add: request_identity_def)
    with identities.steps_fact [OF assms(2) w] have "request_identity w' u = Some (identity_of row)" by blast
    moreover have "settled_row w' u = Some row" if "state row = SETTLED"
      using settled_rows.steps_fact [OF assms(2) w, of u row] row that by (simp add: settled_row_def)
    ultimately show ?thesis
      by (auto simp: request_identity_def settled_row_def split: option.splits if_splits)
  qed
  ultimately show ?thesis by (auto simp: queue_inv_def)
qed

theorem interleaved_queue_is_safe_witness:
  "\<exists>w w'. queue_step\<^sup>*\<^sup>* ([], {}) w \<and> queue_step\<^sup>*\<^sup>* w w' \<and> fst w \<noteq> [] \<and> wf_table (fst w')"
proof -
  let ?r = "ask PIPELINE WEB default_options ''ana'' 3 None ''u1''"
  let ?rows = "[row_values ?r]"
  have ins: "insert_request ?r [] = Inr ?rows" by (simp add: insert_request_def)
  have s1: "queue_step ([], {}) (?rows, {})" by (rule queue_step.asks [OF ins])
  have s2: "queue_step (?rows, {}) (?rows, {request_of_row (row_values ?r)})" by (rule queue_step.reads) simp
  from s1 have first: "queue_step\<^sup>*\<^sup>* ([], {}) (?rows, {})" by blast
  moreover from s2 have second: "queue_step\<^sup>*\<^sup>* (?rows, {}) (?rows, {request_of_row (row_values ?r)})" by blast
  from interleaved_queue_is_safe [OF first second] have "wf_table ?rows" by simp
  moreover have "?rows \<noteq> []" by simp
  ultimately show ?thesis using second by fastforce
qed

end
