(* ===== verification/Run_Lease.thy ===== *)
theory Run_Lease
  imports Run_Request
begin

text \<open>
  The one row of \<open>run_lease\<close> (\<open>app/supervisor/lease_repository.py\<close>), or none, and what a holder
  may rely on: \<open>lease_authority\<close> states it as an interface, in which the client's lemmas are
  proved, and the repository's methods are its instance. \<open>claim\<close> runs under the writer lock, so a
  call is one step.
\<close>

type_synonym lease_row = "lease option"

definition lease_claim ::
  "int \<Rightarrow> string \<Rightarrow> time \<Rightarrow> time \<Rightarrow> (int \<Rightarrow> bool) \<Rightarrow> lease_row \<Rightarrow> lease option \<times> lease_row" where
  "lease_claim pid host t ttl pid_alive row =
     (let taken = \<lparr>holder_pid = pid, holder_host = host, taken_at = t, renewed_at = t, expires_at = t + ttl\<rparr>
      in case row of
           None \<Rightarrow> (Some taken, Some taken)
         | Some held \<Rightarrow>
             if \<not> claimable held t pid_alive host then (None, row) else (Some taken, Some taken))"

definition held_by :: "int \<Rightarrow> string \<Rightarrow> lease_row \<Rightarrow> bool" where
  "held_by pid host row \<longleftrightarrow> (case row of None \<Rightarrow> False | Some l \<Rightarrow> holder_pid l = pid \<and> holder_host l = host)"

definition lease_renew :: "int \<Rightarrow> string \<Rightarrow> time \<Rightarrow> time \<Rightarrow> lease_row \<Rightarrow> bool \<times> lease_row" where
  "lease_renew pid host t ttl row =
     (held_by pid host row,
      if held_by pid host row then map_option (\<lambda>l. l\<lparr>renewed_at := t, expires_at := t + ttl\<rparr>) row else row)"

definition lease_release :: "int \<Rightarrow> string \<Rightarrow> lease_row \<Rightarrow> bool \<times> lease_row" where
  "lease_release pid host row = (held_by pid host row, if held_by pid host row then None else row)"

subsection \<open>What a holder may rely on\<close>

locale lease_authority =
  fixes holder :: "'s \<Rightarrow> 'h option"
    and displaceable :: "'s \<Rightarrow> time \<Rightarrow> 'h \<Rightarrow> bool"
    and claim :: "'h \<Rightarrow> time \<Rightarrow> 's \<Rightarrow> bool \<times> 's"
    and renew :: "'h \<Rightarrow> time \<Rightarrow> 's \<Rightarrow> bool \<times> 's"
    and release :: "'h \<Rightarrow> 's \<Rightarrow> bool \<times> 's"
  assumes claim_granted: "fst (claim h t s) \<longleftrightarrow> holder s = None \<or> displaceable s t h"
    and claim_holder: "holder (snd (claim h t s)) = (if fst (claim h t s) then Some h else holder s)"
    and claim_refused: "\<not> fst (claim h t s) \<Longrightarrow> snd (claim h t s) = s"
    and renew_granted: "fst (renew h t s) \<longleftrightarrow> holder s = Some h"
    and renew_refused: "\<not> fst (renew h t s) \<Longrightarrow> snd (renew h t s) = s"
    and renew_holder: "holder (snd (renew h t s)) = holder s"
    and release_granted: "fst (release h s) \<longleftrightarrow> holder s = Some h"
    and release_holder: "holder (snd (release h s)) = (if fst (release h s) then None else holder s)"
    and release_refused: "\<not> fst (release h s) \<Longrightarrow> snd (release h s) = s"
begin

text \<open>A call that succeeds leaves its caller the holder, or nobody after a release.\<close>

lemma granted_holder:
  "fst (claim h t s) \<Longrightarrow> holder (snd (claim h t s)) = Some h"
  "fst (renew h t s) \<Longrightarrow> holder (snd (renew h t s)) = Some h"
  by (simp_all add: claim_holder renew_holder renew_granted)

lemma renew_exclusive: "fst (renew h t s) \<Longrightarrow> fst (renew h' t' s) \<Longrightarrow> h = h'"
  by (simp add: renew_granted)

text \<open>Another's call on a lease it may not displace changes nothing.\<close>

lemma other_call_refused:
  assumes "holder s = Some h" and "h' \<noteq> h" and "\<not> displaceable s t h'"
  shows "claim h' t s = (False, s)" and "renew h' t s = (False, s)" and "release h' s = (False, s)"
proof -
  have "\<not> fst (claim h' t s)" "\<not> fst (renew h' t s)" "\<not> fst (release h' s)"
    using assms by (simp_all add: claim_granted renew_granted release_granted)
  with claim_refused renew_refused release_refused
  show "claim h' t s = (False, s)" and "renew h' t s = (False, s)" and "release h' s = (False, s)"
    by (metis prod.collapse)+
qed

text \<open>A stopped holder hands over at once.\<close>

lemma release_then_claim: "fst (release h s) \<Longrightarrow> fst (claim h' t (snd (release h s)))"
  by (simp add: claim_granted release_holder)

end

definition lease_holder :: "lease_row \<Rightarrow> (int \<times> string) option" where
  "lease_holder row = map_option (\<lambda>l. (holder_pid l, holder_host l)) row"

lemma lease_holder_iff: "lease_holder row = Some (pid, host) \<longleftrightarrow> held_by pid host row"
  by (cases row) (auto simp: lease_holder_def held_by_def)

text \<open>The calls of a supervisor \<open>(pid, host)\<close>, at a moment when \<open>pid_alive\<close> tells which
  processes of its machine run.\<close>

definition claim_of :: "time \<Rightarrow> (int \<Rightarrow> bool) \<Rightarrow> int \<times> string \<Rightarrow> time \<Rightarrow> lease_row \<Rightarrow> bool \<times> lease_row" where
  "claim_of ttl pid_alive h t row =
     (let r = lease_claim (fst h) (snd h) t ttl pid_alive row in (fst r \<noteq> None, snd r))"

definition renew_of :: "time \<Rightarrow> int \<times> string \<Rightarrow> time \<Rightarrow> lease_row \<Rightarrow> bool \<times> lease_row" where
  "renew_of ttl h t row = lease_renew (fst h) (snd h) t ttl row"

definition release_of :: "int \<times> string \<Rightarrow> lease_row \<Rightarrow> bool \<times> lease_row" where
  "release_of h row = lease_release (fst h) (snd h) row"

definition displaceable_by :: "(int \<Rightarrow> bool) \<Rightarrow> lease_row \<Rightarrow> time \<Rightarrow> int \<times> string \<Rightarrow> bool" where
  "displaceable_by pid_alive row t h =
     (case row of None \<Rightarrow> False | Some l \<Rightarrow> claimable l t pid_alive (snd h))"

lemmas lease_defs = claim_of_def renew_of_def release_of_def displaceable_by_def lease_claim_def
  lease_renew_def lease_release_def held_by_def lease_holder_def Let_def

interpretation run_lease: lease_authority lease_holder "displaceable_by pid_alive"
    "claim_of ttl pid_alive" "renew_of ttl" release_of
  for ttl :: time and pid_alive :: "int \<Rightarrow> bool"
  by unfold_locales (auto simp: lease_defs split: option.splits if_splits)

subsection \<open>Several supervisors\<close>

datatype lease_call = Claim "int \<times> string" time | Renew "int \<times> string" time | Release "int \<times> string" time

fun caller :: "lease_call \<Rightarrow> int \<times> string" where
  "caller (Claim h t) = h"
| "caller (Renew h t) = h"
| "caller (Release h t) = h"

fun call_time :: "lease_call \<Rightarrow> time" where
  "call_time (Claim h t) = t"
| "call_time (Renew h t) = t"
| "call_time (Release h t) = t"

text \<open>\<open>alive host t pid\<close>: whether the process runs on that machine at \<open>t\<close>.\<close>

fun perform :: "time \<Rightarrow> (string \<Rightarrow> time \<Rightarrow> int \<Rightarrow> bool) \<Rightarrow> lease_call \<Rightarrow> lease_row \<Rightarrow> bool \<times> lease_row" where
  "perform ttl alive (Claim h t) row = claim_of ttl (alive (snd h) t) h t row"
| "perform ttl alive (Renew h t) row = renew_of ttl h t row"
| "perform ttl alive (Release h t) row = release_of h row"

fun lease_calls :: "time \<Rightarrow> (string \<Rightarrow> time \<Rightarrow> int \<Rightarrow> bool) \<Rightarrow> lease_call list \<Rightarrow> lease_row \<Rightarrow> bool list \<times> lease_row" where
  "lease_calls ttl alive [] row = ([], row)"
| "lease_calls ttl alive (c # cs) row =
     (let (ok, row') = perform ttl alive c row; (oks, row'') = lease_calls ttl alive cs row'
      in (ok # oks, row''))"

text \<open>C37: the lease excludes: from the moment a supervisor claims or renews it until it expires,
  while its process runs on its own machine, every claim, renewal or release of any other supervisor is refused and
  leaves the row as it is, whatever their order and number.\<close>

theorem lease_excludes_others:
  assumes "perform ttl alive c row = (True, row')" and "c = Claim h t \<or> c = Renew h t"
    and "\<forall>d \<in> set calls. caller d \<noteq> h \<and> call_time d < t + ttl \<and> alive (snd h) (call_time d) (fst h)"
  shows "lease_calls ttl alive calls row' = (replicate (length calls) False, row')"
proof -
  have held: "lease_holder row' = Some h" and exp: "\<exists>l. row' = Some l \<and> expires_at l = t + ttl"
    using assms(1,2) by (auto simp: lease_defs split: option.splits if_splits)
  have refused: "perform ttl alive d row' = (False, row')" if "d \<in> set calls" for d
  proof -
    have d: "caller d \<noteq> h" "call_time d < t + ttl" "alive (snd h) (call_time d) (fst h)"
      using assms(3) that by auto
    have "\<not> displaceable_by (alive (snd (caller d)) (call_time d)) row' (call_time d) (caller d)"
      using held exp d(2,3) by (auto simp: displaceable_by_def claimable_def live_def lease_holder_def)
    then show ?thesis
      using run_lease.other_call_refused [OF held d(1)] by (cases d) auto
  qed
  then show ?thesis by (induction calls) (auto simp: refused)
qed

text \<open>Process 7 runs on the machine \<open>nas\<close> only; another machine may have no such process.\<close>

definition lease_demo_alive :: "string \<Rightarrow> time \<Rightarrow> int \<Rightarrow> bool" where
  "lease_demo_alive host t pid \<longleftrightarrow> host = ''nas'' \<and> pid = 7"

theorem lease_excludes_others_witness:
  "let row = Some \<lparr>holder_pid = 7, holder_host = ''nas'', taken_at = 0, renewed_at = 0, expires_at = LEASE_TTL_S\<rparr>
   in perform LEASE_TTL_S lease_demo_alive (Claim (7, ''nas'') 0) None = (True, row)
      \<and> lease_calls LEASE_TTL_S lease_demo_alive [Claim (8, ''nas'') 10, Claim (9, ''mac'') 20, Renew (9, ''mac'') 59] row = ([False, False, False], row)"
proof -
  let ?row = "Some \<lparr>holder_pid = 7, holder_host = ''nas'', taken_at = 0, renewed_at = 0, expires_at = LEASE_TTL_S\<rparr>"
  let ?calls = "[Claim (8, ''nas'') 10, Claim (9, ''mac'') 20, Renew (9, ''mac'') 59]"
  have c: "perform LEASE_TTL_S lease_demo_alive (Claim (7, ''nas'') 0) None = (True, ?row)"
    by (simp add: lease_defs)
  have "lease_calls LEASE_TTL_S lease_demo_alive ?calls ?row = (replicate (length ?calls) False, ?row)"
    by (rule lease_excludes_others [OF c, of "(7, ''nas'')" 0]) (simp_all add: LEASE_TTL_S_def lease_demo_alive_def)
  with c show ?thesis by simp
qed

text \<open>Nobody waits for a lease without need: one that is free, lapsed, released by its holder, or
  held by a dead process of the claimer's own machine is claimed at once; a lease another machine
  holds is claimable on expiry alone, whatever the process table says.\<close>

theorem lease_takeover:
  "fst (claim_of ttl pid_alive h t row) \<longleftrightarrow>
     (case row of
        None \<Rightarrow> True
      | Some l \<Rightarrow> expires_at l \<le> t \<or> holder_host l = snd h \<and> \<not> pid_alive (holder_pid l))"
  by (auto simp: lease_defs claimable_def live_def split: option.splits)

end
