(* ===== verification/Rights.thy ===== *)
theory Rights
  imports Py_Errors
begin

text \<open>
  Who may do what: the rights (\<open>app/accounts/rights.py\<close>), the rights each operation of the
  contract asks (\<open>requirements.py\<close>), the instance's ceiling (\<open>ceiling.py\<close>), the actor
  (\<open>actor.py\<close>) and the authorisation that every service method decorated with \<open>@requires\<close>
  passes through (\<open>authorise.py\<close>). The refusals carry their class and code; the texts and the
  parameters of the wire answer are not modelled.
\<close>

datatype right =
    LIBRARY_READ | LIBRARY_DELETE | LIBRARY_RESCRAPE | ACQUISITION_REQUEST | ACQUISITION_FOLLOW
  | ACQUISITION_PILOT_OWN | ACQUISITION_PILOT_ANY | ACQUISITION_SEE_OTHERS | ACQUISITION_TODO_VIEW
  | ACQUISITION_QUALITY_OWN | ACQUISITION_PAUSE_OWN | ACQUISITION_REASSIGN | PIPELINE_CONTROL
  | TRACKERS_VIEW | TRACKERS_CONTROL | TRACKERS_UPLOAD | SYSTEM_VIEW | CONFIGURATION_VIEW
  | CONFIGURATION_WRITE | ACCOUNTS_MANAGE

definition WRITE_RIGHTS :: "right set" where
  "WRITE_RIGHTS = {LIBRARY_DELETE, LIBRARY_RESCRAPE, ACQUISITION_REQUEST, ACQUISITION_FOLLOW,
     ACQUISITION_PILOT_OWN, ACQUISITION_PILOT_ANY, ACQUISITION_QUALITY_OWN, ACQUISITION_PAUSE_OWN,
     ACQUISITION_REASSIGN, PIPELINE_CONTROL, TRACKERS_CONTROL, TRACKERS_UPLOAD,
     CONFIGURATION_WRITE, ACCOUNTS_MANAGE}"

text \<open>\<open>type Requirement = Public | SignedIn | AnyOf\<close>; the flag of \<open>SignedIn\<close> is \<open>write\<close>.\<close>

datatype requirement = Public | SignedIn bool | AnyOf "right set"

definition holds_right :: "right \<Rightarrow> requirement" where
  "holds_right r = AnyOf {r}"

subsection \<open>What each operation asks\<close>

definition ACQUISITION_ANY :: requirement where
  "ACQUISITION_ANY = AnyOf {ACQUISITION_REQUEST, ACQUISITION_SEE_OTHERS}"

definition PILOT_ANY :: requirement where
  "PILOT_ANY = AnyOf {ACQUISITION_PILOT_OWN, ACQUISITION_PILOT_ANY}"

definition OPERATION_RIGHTS :: "(string \<times> requirement) list" where
  "OPERATION_RIGHTS =
    [(''readAccount'', SignedIn False), (''signIn'', Public), (''signOut'', SignedIn False),
     (''signInWithPlex'', Public), (''startPlexSignIn'', Public),
     (''readVersion'', SignedIn False), (''changeOwnPassword'', SignedIn True),
     (''setOwnLanguage'', SignedIn True), (''readOwnSessions'', SignedIn False),
     (''revokeOwnSession'', SignedIn True), (''readNotices'', SignedIn False),
     (''markNoticesRead'', SignedIn True), (''readNotificationPreferences'', SignedIn False),
     (''updateNotificationPreference'', SignedIn True), (''registerPushDevice'', SignedIn True),
     (''readAccounts'', AnyOf {ACCOUNTS_MANAGE, ACQUISITION_REASSIGN}),
     (''createAccount'', holds_right ACCOUNTS_MANAGE),
     (''updateAccount'', holds_right ACCOUNTS_MANAGE),
     (''resetAccountPassword'', holds_right ACCOUNTS_MANAGE),
     (''setAccountAccess'', holds_right ACCOUNTS_MANAGE),
     (''createRole'', holds_right ACCOUNTS_MANAGE), (''updateRole'', holds_right ACCOUNTS_MANAGE),
     (''deleteRole'', holds_right ACCOUNTS_MANAGE),
     (''readLibraryItems'', holds_right LIBRARY_READ),
     (''readLibraryCategories'', holds_right LIBRARY_READ),
     (''readLibraryRecent'', holds_right LIBRARY_READ),
     (''readLibraryIncomplete'', holds_right LIBRARY_READ),
     (''readLibraryMembership'', holds_right LIBRARY_READ),
     (''readMediaSheet'', holds_right LIBRARY_READ),
     (''readMediaSeasons'', holds_right LIBRARY_READ),
     (''readMediaPoster'', holds_right LIBRARY_READ),
     (''deleteLibraryItems'', holds_right LIBRARY_DELETE),
     (''rescrapeMedia'', holds_right LIBRARY_RESCRAPE), (''readFollows'', SignedIn False),
     (''readFollowCompleteness'', SignedIn False), (''readAcquisitionQueue'', SignedIn False),
     (''readAcquisitionStatus'', SignedIn False), (''readJourney'', SignedIn False),
     (''readDecisions'', ACQUISITION_ANY), (''readStaging'', ACQUISITION_ANY),
     (''readStagedMediaCopies'', ACQUISITION_ANY), (''readStagingDestinations'', ACQUISITION_ANY),
     (''readSuggestions'', holds_right ACQUISITION_REQUEST),
     (''searchProviders'', holds_right ACQUISITION_REQUEST),
     (''searchProviderById'', holds_right ACQUISITION_REQUEST), (''readReleases'', PILOT_ANY),
     (''createFollow'', holds_right ACQUISITION_REQUEST),
     (''updateFollow'', holds_right ACQUISITION_FOLLOW),
     (''deleteFollow'', holds_right ACQUISITION_FOLLOW),
     (''restoreFollow'', holds_right ACQUISITION_FOLLOW), (''searchForFollow'', PILOT_ANY),
     (''grabForFollow'', PILOT_ANY), (''grabSeasonForFollow'', PILOT_ANY),
     (''requeueJourney'', PILOT_ANY), (''dismissClosure'', SignedIn True),
     (''rescrapeJourney'', PILOT_ANY),
     (''setAcquisitionQuality'', holds_right ACQUISITION_QUALITY_OWN),
     (''setAcquisitionPause'', holds_right ACQUISITION_PAUSE_OWN),
     (''reassignRequester'', holds_right ACQUISITION_REASSIGN),
     (''runDetection'', holds_right PIPELINE_CONTROL),
     (''deleteStagedMedia'', holds_right PIPELINE_CONTROL),
     (''continueStagedMedia'', holds_right PIPELINE_CONTROL),
     (''discardStagedMedia'', holds_right PIPELINE_CONTROL),
     (''reclassifyStagedMedia'', holds_right PIPELINE_CONTROL),
     (''restoreReclassifiedMedia'', holds_right PIPELINE_CONTROL),
     (''resolvePlexMatch'', holds_right PIPELINE_CONTROL),
     (''resolveDecision'', holds_right PIPELINE_CONTROL),
     (''reopenDecision'', holds_right PIPELINE_CONTROL),
     (''enqueueForResolution'', holds_right PIPELINE_CONTROL),
     (''dismissDecision'', holds_right PIPELINE_CONTROL),
     (''searchForDecision'', holds_right PIPELINE_CONTROL),
     (''runPipeline'', holds_right PIPELINE_CONTROL),
     (''pausePipeline'', holds_right PIPELINE_CONTROL),
     (''resumePipeline'', holds_right PIPELINE_CONTROL),
     (''killPipeline'', holds_right PIPELINE_CONTROL),
     (''setWatcher'', holds_right PIPELINE_CONTROL),
     (''runMaintenanceAction'', holds_right PIPELINE_CONTROL),
     (''readPipeline'', holds_right SYSTEM_VIEW),
     (''readPipelineHistory'', holds_right SYSTEM_VIEW), (''readRun'', holds_right SYSTEM_VIEW),
     (''readServices'', holds_right SYSTEM_VIEW), (''readDependencies'', holds_right SYSTEM_VIEW),
     (''readErrors'', holds_right SYSTEM_VIEW), (''readSchedulers'', holds_right SYSTEM_VIEW),
     (''readDisks'', holds_right SYSTEM_VIEW), (''readIndexHealth'', holds_right SYSTEM_VIEW),
     (''readMaintenanceActions'', holds_right SYSTEM_VIEW),
     (''readDeletionJournal'', holds_right SYSTEM_VIEW), (''readLocks'', holds_right SYSTEM_VIEW),
     (''readTrackers'', holds_right TRACKERS_VIEW),
     (''readDownloads'', holds_right TRACKERS_VIEW),
     (''readObligations'', holds_right TRACKERS_VIEW),
     (''readMediaCrossSeed'', holds_right TRACKERS_VIEW),
     (''removeDownload'', holds_right TRACKERS_CONTROL),
     (''markBrokenObligationSeen'', holds_right TRACKERS_CONTROL),
     (''cutCrossSeed'', holds_right TRACKERS_CONTROL),
     (''searchCrossSeed'', holds_right TRACKERS_CONTROL),
     (''uploadCrossSeed'', holds_right TRACKERS_UPLOAD),
     (''writeCrossSeedExclusion'', holds_right TRACKERS_CONTROL),
     (''undoCrossSeedExclusion'', holds_right TRACKERS_CONTROL),
     (''readSettings'', AnyOf {CONFIGURATION_VIEW, TRACKERS_VIEW, SYSTEM_VIEW}),
     (''readConfigurationStatus'', AnyOf {CONFIGURATION_VIEW, SYSTEM_VIEW}),
     (''readSecrets'', holds_right CONFIGURATION_VIEW),
     (''readConfigurationFiles'', holds_right CONFIGURATION_VIEW),
     (''readConfigurationFile'', holds_right CONFIGURATION_VIEW),
     (''updateSecrets'', holds_right CONFIGURATION_WRITE),
     (''updateConfigurationFile'', holds_right CONFIGURATION_WRITE),
     (''restartWeb'', holds_right CONFIGURATION_WRITE),
     (''previewRanking'', holds_right CONFIGURATION_WRITE)]"

subsection \<open>The instance's ceiling\<close>

record instance_ceiling =
  forbidden :: "right set"
  read_only :: bool

datatype environment = DEV | STAGING | PROD

text \<open>
  \<open>current_ceiling\<close>, from the two variables it reads: \<open>PERSONALSCRAPER_WEB_ROLE\<close> (\<open>None\<close> when
  unset) and the environment \<open>PERSONALSCRAPER_ENV\<close> names (\<open>None\<close> when it names none, which
  raises \<open>EnvironmentSettingError\<close>, a \<open>ValueError\<close>).
\<close>

definition current_ceiling :: "string option \<Rightarrow> environment option \<Rightarrow> py_error + instance_ceiling" where
  "current_ceiling web_role env =
     (if (case web_role of None \<Rightarrow> ''prod'' | Some v \<Rightarrow> v) = ''staging''
      then Inr \<lparr>forbidden = WRITE_RIGHTS, read_only = True\<rparr>
      else case env of
             None \<Rightarrow> Inl ValueError
           | Some e \<Rightarrow>
               if e = STAGING then Inr \<lparr>forbidden = {LIBRARY_DELETE}, read_only = False\<rparr>
               else Inr \<lparr>forbidden = {}, read_only = False\<rparr>)"

subsection \<open>The actor\<close>

datatype role_kind = ADMIN | ORDINARY

record actor =
  actor_id :: string
  actor_name :: string
  actor_role :: string
  actor_role_kind :: role_kind
  actor_role_rights :: "right set"
  actor_ceiling :: instance_ceiling

definition holds :: "actor \<Rightarrow> right \<Rightarrow> bool" where
  "holds a r =
     (if r \<in> forbidden (actor_ceiling a) then False
      else actor_role_kind a = ADMIN \<or> r \<in> actor_role_rights a)"

definition holds_any :: "actor \<Rightarrow> right set \<Rightarrow> bool" where
  "holds_any a rs \<longleftrightarrow> (\<exists>r \<in> rs. holds a r)"

definition is_requester :: "actor \<Rightarrow> string list \<Rightarrow> bool" where
  "is_requester a requester_ids =
     (if holds a ACQUISITION_PILOT_ANY then True else actor_id a \<in> set requester_ids)"

text \<open>\<open>Actor.system\<close>: the unattended processes act on the Admin role, under the same ceiling.\<close>

definition system_actor :: "instance_ceiling \<Rightarrow> string \<Rightarrow> string \<Rightarrow> actor" where
  "system_actor ceil who nm = \<lparr>actor_id = who, actor_name = nm, actor_role = ''admin'',
     actor_role_kind = ADMIN, actor_role_rights = {}, actor_ceiling = ceil\<rparr>"

subsection \<open>The authorisation\<close>

definition role_grants :: "actor \<Rightarrow> right \<Rightarrow> bool" where
  "role_grants a r \<longleftrightarrow> actor_role_kind a = ADMIN \<or> r \<in> actor_role_rights a"

definition authorise_any_of :: "actor \<Rightarrow> right set \<Rightarrow> py_error + unit" where
  "authorise_any_of a rs =
     (if holds_any a rs then Inr ()
      else if \<exists>r \<in> rs. r \<in> forbidden (actor_ceiling a) \<and> role_grants a r
      then Inl (AppRefusal Forbidden INSTANCE_FORBIDDEN_WRITE)
      else Inl (AppRefusal Forbidden RIGHT_MISSING))"

fun authorise :: "actor option \<Rightarrow> requirement \<Rightarrow> py_error + unit" where
  "authorise _ Public = Inr ()"
| "authorise None _ = Inl (AppRefusal Unauthenticated AUTH_REQUIRED)"
| "authorise (Some a) (SignedIn write) =
     (if write \<and> read_only (actor_ceiling a) then Inl (AppRefusal Forbidden INSTANCE_READ_ONLY) else Inr ())"
| "authorise (Some a) (AnyOf rs) = authorise_any_of a rs"

text \<open>\<open>@requires(operation_id)\<close>: the requirement is looked up once (a \<open>KeyError\<close> for an unknown
  operation), and the refusal comes before the body.\<close>

definition requires :: "string \<Rightarrow> actor \<Rightarrow> (unit \<Rightarrow> py_error + 'a) \<Rightarrow> py_error + 'a" where
  "requires operation a body =
     (case map_of OPERATION_RIGHTS operation of
        None \<Rightarrow> Inl KeyError
      | Some req \<Rightarrow> raising_bind (authorise (Some a) req) body)"

lemma holds_iff: "holds a r \<longleftrightarrow> r \<notin> forbidden (actor_ceiling a) \<and> role_grants a r"
  by (simp add: holds_def role_grants_def)

lemma authorise_any_of_Inr: "authorise_any_of a rs = Inr () \<longleftrightarrow> (\<exists>r \<in> rs. holds a r)"
  by (auto simp: authorise_any_of_def holds_any_def)

lemma requires_Inr:
  "requires operation a body = Inr x \<longleftrightarrow>
     (\<exists>req. map_of OPERATION_RIGHTS operation = Some req \<and> authorise (Some a) req = Inr () \<and> body () = Inr x)"
  by (auto simp: requires_def raising_bind_Inr split: option.splits)

text \<open>The operations whose requirement can be met without a write right: on the read-only clone
  only these pass, whoever asks.\<close>

fun reads_only :: "requirement \<Rightarrow> bool" where
  "reads_only Public = True"
| "reads_only (SignedIn write) = (\<not> write)"
| "reads_only (AnyOf rs) = (\<not> rs \<subseteq> WRITE_RIGHTS)"

lemma read_only_authorise:
  assumes "forbidden (actor_ceiling a) = WRITE_RIGHTS" and "read_only (actor_ceiling a)"
    and "authorise (Some a) req = Inr ()"
  shows "reads_only req"
  using assms by (cases req) (auto simp: authorise_any_of_Inr holds_iff split: if_splits)

lemma read_operation_names:
  "\<forall>(operation, req) \<in> set OPERATION_RIGHTS. reads_only req \<longrightarrow>
     take 4 operation = ''read'' \<or> operation \<in> {''signIn'', ''signOut'', ''signInWithPlex'', ''startPlexSignIn''}"
  by (simp add: OPERATION_RIGHTS_def holds_right_def ACQUISITION_ANY_def PILOT_ANY_def WRITE_RIGHTS_def)

definition demo_actor :: "role_kind \<Rightarrow> right set \<Rightarrow> instance_ceiling \<Rightarrow> actor" where
  "demo_actor k rs ceil = \<lparr>actor_id = ''ana'', actor_name = ''Ana'', actor_role = ''role-1'',
     actor_role_kind = k, actor_role_rights = rs, actor_ceiling = ceil\<rparr>"

subsection \<open>Properties\<close>

text \<open>An operation of the contract passes the authorisation exactly when it is public, or asks a
  session only (and is no write of a read-only instance), or one of the rights it asks is granted by
  the actor's role and not forbidden by the instance; otherwise it is refused with the class and code
  of the first reason that applies, and an Admin is bound by the ceiling like everyone.\<close>

theorem authorise_decides:
  "(authorise (Some a) req = Inr () \<longleftrightarrow>
     (case req of
        Public \<Rightarrow> True
      | SignedIn write \<Rightarrow> \<not> (write \<and> read_only (actor_ceiling a))
      | AnyOf rs \<Rightarrow> \<exists>r \<in> rs. r \<notin> forbidden (actor_ceiling a) \<and> (actor_role_kind a = ADMIN \<or> r \<in> actor_role_rights a)))
   \<and> (authorise (Some a) req = Inl e \<longleftrightarrow>
     (case req of
        Public \<Rightarrow> False
      | SignedIn write \<Rightarrow> write \<and> read_only (actor_ceiling a) \<and> e = AppRefusal Forbidden INSTANCE_READ_ONLY
      | AnyOf rs \<Rightarrow> \<not> (\<exists>r \<in> rs. holds a r) \<and>
          e = (if \<exists>r \<in> rs. actor_role_kind a = ADMIN \<or> r \<in> actor_role_rights a
               then AppRefusal Forbidden INSTANCE_FORBIDDEN_WRITE else AppRefusal Forbidden RIGHT_MISSING)))"
  by (cases req) (auto simp: authorise_any_of_def holds_any_def holds_def role_grants_def)

text \<open>On the read-only clone no operation that writes is ever carried out, whatever the role,
  Admin and the system actor included: an operation whose body runs is one of the contract's reads
  or one of the four steps of signing in and out.\<close>

theorem read_only_instance_runs_no_write:
  assumes "current_ceiling (Some ''staging'') env = Inr ceil" and "actor_ceiling a = ceil"
    and "requires operation a body = Inr x"
  shows "take 4 operation = ''read'' \<or>
    operation \<in> {''signIn'', ''signOut'', ''signInWithPlex'', ''startPlexSignIn''}"
proof -
  from assms(1) have "ceil = \<lparr>forbidden = WRITE_RIGHTS, read_only = True\<rparr>"
    by (simp add: current_ceiling_def)
  moreover from assms(3) obtain req where req: "map_of OPERATION_RIGHTS operation = Some req"
    and "authorise (Some a) req = Inr ()"
    by (auto simp: requires_Inr)
  ultimately have "reads_only req" using assms(2) read_only_authorise [of a req] by auto
  then show ?thesis using read_operation_names map_of_SomeD [OF req] by blast
qed

theorem read_only_instance_runs_no_write_witness:
  "let ceil = \<lparr>forbidden = WRITE_RIGHTS, read_only = True\<rparr>; a = demo_actor ADMIN {} ceil
   in requires ''readPipeline'' a (\<lambda>_. Inr True) = Inr True \<and> take 4 ''readPipeline'' = ''read''
      \<and> requires ''runPipeline'' a (\<lambda>_. Inr True) = Inl (AppRefusal Forbidden INSTANCE_FORBIDDEN_WRITE)"
proof -
  let ?ceil = "\<lparr>forbidden = WRITE_RIGHTS, read_only = True\<rparr>"
  let ?a = "demo_actor ADMIN {} ?ceil"
  have read: "requires ''readPipeline'' ?a (\<lambda>_. Inr True) = Inr True"
    by (simp add: requires_def OPERATION_RIGHTS_def holds_right_def authorise_any_of_def holds_any_def
        holds_def demo_actor_def WRITE_RIGHTS_def)
  have run: "requires ''runPipeline'' ?a (\<lambda>_. Inr True) = Inl (AppRefusal Forbidden INSTANCE_FORBIDDEN_WRITE)"
    by (simp add: requires_def OPERATION_RIGHTS_def holds_right_def authorise_any_of_def holds_any_def
        holds_def role_grants_def demo_actor_def WRITE_RIGHTS_def)
  have "current_ceiling (Some ''staging'') None = Inr ?ceil" by (simp add: current_ceiling_def)
  moreover have "actor_ceiling ?a = ?ceil" by (simp add: demo_actor_def)
  ultimately have "take 4 ''readPipeline'' = ''read'' \<or>
      ''readPipeline'' \<in> {''signIn'', ''signOut'', ''signInWithPlex'', ''startPlexSignIn''}"
    using read by (rule read_only_instance_runs_no_write)
  with read run show ?thesis by simp
qed

end
