(* ===== verification/Run_Service.thy ===== *)
theory Run_Service
  imports Run_Queue Run_Lease Rights
begin

text \<open>
  Asking a run (\<open>app/supervisor/service.py\<close>): an ask is authorised, then answered in one
  transaction by the request it joins or by a new queued request. The clock and the fresh
  \<open>uuid4\<close> are arguments.
\<close>

datatype pipeline_answer = Queued | Running | Idle

fun answer_of :: "request_state \<Rightarrow> pipeline_answer" where
  "answer_of QUEUED = Queued"
| "answer_of RUNNING = Running"
| "answer_of SETTLED = Idle"

record run_asked =
  answer_uid :: run_uid
  answer_state :: pipeline_answer
  joined :: bool

text \<open>\<open>next((request for request in running if asked.joins(request)), None)\<close>\<close>

fun first_joined :: "run_request \<Rightarrow> run_request list \<Rightarrow> py_error + run_request option" where
  "first_joined asked [] = Inr None"
| "first_joined asked (r # rs) =
     raising_bind (joins asked r) (\<lambda>yes. if yes then Inr (Some r) else first_joined asked rs)"

definition joinable :: "run_request \<Rightarrow> bool \<Rightarrow> run_table \<Rightarrow> py_error + run_request option" where
  "joinable asked promised rows =
     (if promised then Inr (get_request (uid asked) rows)
      else raising_bind (options asked) (\<lambda>opts.
        let like = queued_like (kind asked) (options_json asked) (item_id opts) rows
        in raising_bind (if like = None \<and> kind asked = RESCRAPE then first_joined asked (running rows) else Inr like)
          (\<lambda>found. case found of
             None \<Rightarrow> Inr None
           | Some r \<Rightarrow> raising_bind (joins asked r) (\<lambda>yes. Inr (if yes then Some r else None)))))"

text \<open>\<open>RunService._ask\<close>\<close>

definition answer_ask :: "run_request \<Rightarrow> bool \<Rightarrow> run_table \<Rightarrow> py_error + (run_asked \<times> run_table)" where
  "answer_ask asked promised rows =
     raising_bind (joinable asked promised rows) (\<lambda>found.
       case found of
         Some r \<Rightarrow> Inr (\<lparr>answer_uid = uid r, answer_state = answer_of (state r), joined = True\<rparr>, rows)
       | None \<Rightarrow> raising_bind (insert_request asked rows) (\<lambda>rows'.
           Inr (\<lparr>answer_uid = uid asked, answer_state = Queued, joined = False\<rparr>, rows')))"

definition ask_run :: "actor \<Rightarrow> run_trigger \<Rightarrow> run_options \<Rightarrow> run_uid option \<Rightarrow> time \<Rightarrow> run_uid \<Rightarrow> run_table
    \<Rightarrow> py_error + (run_asked \<times> run_table)" where
  "ask_run a trig opts promised t fresh rows = requires ''runPipeline'' a (\<lambda>_.
     answer_ask (ask PIPELINE trig opts (actor_id a) t promised fresh) (promised \<noteq> None) rows)"

definition ask_rescrape :: "actor \<Rightarrow> int \<Rightarrow> time \<Rightarrow> run_uid \<Rightarrow> run_table \<Rightarrow> py_error + (run_asked \<times> run_table)" where
  "ask_rescrape a item t fresh rows = requires ''rescrapeMedia'' a (\<lambda>_.
     answer_ask (ask RESCRAPE WEB (default_options\<lparr>item_id := Some item\<rparr>) (actor_id a) t None fresh) False rows)"

record run_queue_view =
  view_running :: "run_request option"
  view_queued :: "run_request list"
  lease_live :: bool

text \<open>\<open>queue_view\<close> reads the three under one snapshot.\<close>

definition queue_view :: "run_table \<Rightarrow> lease_row \<Rightarrow> time \<Rightarrow> run_queue_view" where
  "queue_view rows row t =
     \<lparr>view_running = (case running rows of [] \<Rightarrow> None | r # _ \<Rightarrow> Some r), view_queued = queued rows,
      lease_live = (case row of None \<Rightarrow> False | Some l \<Rightarrow> live l t)\<rparr>"

subsection \<open>What an ask does\<close>

lemma ask_sel [simp]:
  "kind (ask k trig opts who t promised fresh) = k"
  "options_json (ask k trig opts who t promised fresh) = options_to_json opts"
  "state (ask k trig opts who t promised fresh) = QUEUED"
  "asked_at (ask k trig opts who t promised fresh) = t"
  "uid (ask k trig opts who t promised fresh) = (case promised of None \<Rightarrow> fresh | Some u \<Rightarrow> u)"
  by (simp_all add: ask_def)

definition waiting_like :: "run_kind \<Rightarrow> run_options \<Rightarrow> run_row \<Rightarrow> bool" where
  "waiting_like k opts row \<longleftrightarrow> state row = QUEUED \<and> kind row = k \<and> options_json row = options_to_json opts"

lemma joins_pipeline:
  "kind asked = PIPELINE \<Longrightarrow> joins asked r =
     Inr (kind r = PIPELINE \<and> state r = QUEUED \<and> options_json r = options_json asked)"
  by (auto simp: joins_def)

lemma pipeline_joinable:
  assumes "item_id opts = None"
  shows "joinable (ask PIPELINE trig opts who t None fresh) False rows =
    Inr (queued_like PIPELINE (options_to_json opts) None rows)"
proof (cases "queued_like PIPELINE (options_to_json opts) None rows")
  case None
  with assms show ?thesis by (simp add: joinable_def)
next
  case (Some r)
  then obtain row where "r = request_of_row row" "state row = QUEUED" "kind row = PIPELINE"
    "options_json row = options_to_json opts"
    by (auto dest!: queued_like_Some simp: like_clause_def)
  with Some assms show ?thesis by (simp add: joinable_def joins_pipeline)
qed

lemma queued_like_earliest:
  assumes "queued_like PIPELINE text None rows = Some r"
    and "row \<in> set rows" "state row = QUEUED" "kind row = PIPELINE" "options_json row = text"
  shows "asked_at r \<le> asked_at row"
proof -
  obtain first rest where s: "sort_key asked_at
      (filter (\<lambda>row. state row = QUEUED \<and> kind row = PIPELINE \<and> like_clause text None row) rows) = first # rest"
    and r: "r = request_of_row first"
    using assms(1) by (auto simp: queued_like_def fifo_def split: list.splits)
  with sort_key_hd_least [OF s, of row] assms(2-) show ?thesis by (simp add: like_clause_def)
qed

lemma authorised_pipeline:
  "authorise (Some a) (AnyOf {PIPELINE_CONTROL}) = Inr () \<Longrightarrow> requires ''runPipeline'' a body = body ()"
  by (simp add: requires_def OPERATION_RIGHTS_def holds_right_def)

lemma insert_fresh:
  "u \<notin> uid ` set rows \<Longrightarrow> uid req = u \<Longrightarrow> insert_request req rows = Inr (rows @ [row_values req])"
  by (auto simp: insert_request_def image_iff)

text \<open>A rescrape ask is answered by a waiting request of its item first, else by a running one.\<close>

definition active_rescrape :: "int \<Rightarrow> run_row \<Rightarrow> bool" where
  "active_rescrape item row \<longleftrightarrow> kind row = RESCRAPE \<and> state row \<in> {QUEUED, RUNNING}
     \<and> (\<exists>opts. options_json row = options_to_json opts \<and> item_id opts = Some item)"

lemma joins_rescrape:
  assumes "wf_request r"
  shows "joins (ask RESCRAPE trig (default_options\<lparr>item_id := Some item\<rparr>) who t None fresh) r =
    Inr (active_rescrape item (row_values r))"
proof -
  obtain opts where "options_json r = options_to_json opts"
    using assms by (auto simp: wf_request_def)
  then show ?thesis by (auto simp: joins_def options_def active_rescrape_def)
qed

lemma first_joined_spec:
  assumes "\<And>r. r \<in> set rs \<Longrightarrow> joins asked r = Inr (P r)"
  shows "first_joined asked rs = Inr (List.find P rs)"
  using assms by (induction rs) auto

lemma like_clause_item:
  "wf_request row \<Longrightarrow> like_clause text (Some item) row \<longleftrightarrow>
     (\<exists>opts. options_json row = options_to_json opts \<and> item_id opts = Some item)"
  by (force simp: wf_request_def like_clause_def options_to_json_def json_of_int_option_def split: option.splits)

lemma rescrape_joinable:
  assumes "wf_table rows"
  shows "\<exists>found. joinable (ask RESCRAPE WEB (default_options\<lparr>item_id := Some item\<rparr>) who t None fresh) False rows = Inr found
    \<and> (case found of
         None \<Rightarrow> \<forall>row \<in> set rows. \<not> active_rescrape item row
       | Some r \<Rightarrow> \<exists>row \<in> set rows. r = request_of_row row \<and> active_rescrape item row)"
proof -
  let ?ask = "ask RESCRAPE WEB (default_options\<lparr>item_id := Some item\<rparr>) who t None fresh"
  let ?like = "queued_like RESCRAPE (options_json ?ask) (Some item) rows"
  have wf: "wf_request row" if "row \<in> set rows" for row using assms that by (simp add: wf_table_def)
  have joins_row: "joins ?ask (request_of_row row) = Inr (active_rescrape item row)" if "row \<in> set rows" for row
    using joins_rescrape [of "request_of_row row" WEB item who t fresh] wf [OF that] by simp
  have opts: "options ?ask = Inr (default_options\<lparr>item_id := Some item\<rparr>)" by simp
  show ?thesis
  proof (cases ?like)
    case (Some r)
    then obtain row where row: "row \<in> set rows" "r = request_of_row row" "state row = QUEUED" "kind row = RESCRAPE"
      "like_clause (options_json ?ask) (Some item) row"
      by (auto dest!: queued_like_Some)
    then have "active_rescrape item row"
      using wf by (auto simp: active_rescrape_def like_clause_item)
    then show ?thesis
      using Some row joins_row by (auto simp: joinable_def opts intro!: bexI [of _ row])
  next
    case None
    let ?P = "\<lambda>r. active_rescrape item (row_values r)"
    have none: "\<not> active_rescrape item row" if "row \<in> set rows" "state row = QUEUED" for row
      using queued_like_None [OF None] that wf by (auto simp: active_rescrape_def like_clause_item)
    have "first_joined ?ask (running rows) = Inr (List.find ?P (running rows))"
      using joins_row by (intro first_joined_spec) (auto simp: set_running)
    moreover have "\<forall>row \<in> set rows. \<not> active_rescrape item row" if "List.find ?P (running rows) = None"
    proof
      fix row assume row: "row \<in> set rows"
      show "\<not> active_rescrape item row"
      proof (cases "state row = RUNNING")
        case True
        with row have "request_of_row row \<in> set (running rows)" by (auto simp: set_running)
        with that show ?thesis by (auto simp: find_None_iff)
      next
        case False
        with none [OF row] show ?thesis by (auto simp: active_rescrape_def)
      qed
    qed
    moreover have "\<exists>row \<in> set rows. r = request_of_row row \<and> active_rescrape item row"
      if "List.find ?P (running rows) = Some r" for r
    proof -
      have "r \<in> set (running rows)" "?P r" using that by (auto simp: find_Some_iff)
      then show ?thesis by (auto simp: set_running)
    qed
    ultimately show ?thesis
      using None joins_row
      by (cases "List.find ?P (running rows)") (auto simp: joinable_def opts intro!: exI [of _ "Some r" for r])
  qed
qed


subsection \<open>Properties\<close>

text \<open>An authorised ask of a pipeline run always gets an answer, and equal asks coalesce: if a
  request with the same options waits, the earliest such answers and the table is left as it is;
  otherwise exactly one queued request is added, with the options asked. A request that already
  runs never absorbs an ask.\<close>

theorem ask_run_coalesces:
  assumes "wf_table rows" and "authorise (Some a) (AnyOf {PIPELINE_CONTROL}) = Inr ()"
    and "item_id opts = None" and "fresh \<notin> uid ` set rows"
  shows "\<exists>answer rows'. ask_run a trig opts None t fresh rows = Inr (answer, rows') \<and> wf_table rows'
    \<and> answer_state answer = Queued
    \<and> (if \<exists>row \<in> set rows. waiting_like PIPELINE opts row
       then rows' = rows \<and> joined answer
         \<and> (\<exists>row. stored rows (answer_uid answer) = Some row \<and> waiting_like PIPELINE opts row
              \<and> (\<forall>row' \<in> set rows. waiting_like PIPELINE opts row' \<longrightarrow> asked_at row \<le> asked_at row'))
       else \<not> joined answer \<and> answer_uid answer = fresh
         \<and> rows' = rows @ [row_values (ask PIPELINE trig opts (actor_id a) t None fresh)])"
proof -
  let ?ask = "ask PIPELINE trig opts (actor_id a) t None fresh"
  let ?like = "queued_like PIPELINE (options_to_json opts) None rows"
  have run: "ask_run a trig opts None t fresh rows = answer_ask ?ask False rows"
    using assms(2) by (simp add: ask_run_def authorised_pipeline)
  note found = pipeline_joinable [OF assms(3), of trig "actor_id a" t fresh rows]
  show ?thesis
  proof (cases ?like)
    case (Some r)
    then obtain row where row: "row \<in> set rows" "r = request_of_row row" "waiting_like PIPELINE opts row"
      by (auto dest!: queued_like_Some simp: like_clause_def waiting_like_def)
    moreover have "asked_at row \<le> asked_at row'" if "row' \<in> set rows" "waiting_like PIPELINE opts row'" for row'
      using queued_like_earliest [OF Some, of row'] row(2) that by (simp add: waiting_like_def)
    ultimately show ?thesis
      using run found Some assms(1) by (auto simp: answer_ask_def stored_iff waiting_like_def)
  next
    case None
    then have "\<not> (\<exists>row \<in> set rows. waiting_like PIPELINE opts row)"
      by (auto dest!: queued_like_None simp: like_clause_def waiting_like_def)
    moreover have insert: "insert_request ?ask rows = Inr (rows @ [row_values ?ask])"
      using assms(4) by (intro insert_fresh) simp_all
    moreover have "wf_table (rows @ [row_values ?ask])"
      using insert_request_wf [OF insert assms(1) wf_ask] .
    ultimately show ?thesis using run found None by (simp add: answer_ask_def)
  qed
qed

definition demo_pilot :: actor where
  "demo_pilot = demo_actor ORDINARY {PIPELINE_CONTROL, LIBRARY_RESCRAPE} \<lparr>forbidden = {}, read_only = False\<rparr>"

definition demo_row :: "run_uid \<Rightarrow> run_options \<Rightarrow> time \<Rightarrow> run_row" where
  "demo_row u opts t = row_values (ask PIPELINE WEB opts ''ana'' t None u)"

lemma demo_pilot_authorised: "authorise (Some demo_pilot) (AnyOf {PIPELINE_CONTROL}) = Inr ()"
  by (simp add: demo_pilot_def demo_actor_def authorise_any_of_def holds_any_def holds_def)

lemma wf_demo_row [simp]: "wf_request (demo_row u opts t)"
  by (simp add: demo_row_def wf_ask)

lemma demo_row_sel [simp]:
  "uid (demo_row u opts t) = u" "asked_at (demo_row u opts t) = t" "state (demo_row u opts t) = QUEUED"
  "kind (demo_row u opts t) = PIPELINE" "options_json (demo_row u opts t) = options_to_json opts"
  by (simp_all add: demo_row_def)

theorem ask_run_coalesces_witness:
  "\<exists>answer. ask_run demo_pilot MANUAL default_options None 9 ''u2'' [demo_row ''u1'' default_options 3]
      = Inr (answer, [demo_row ''u1'' default_options 3]) \<and> joined answer \<and> answer_uid answer = ''u1''"
proof -
  let ?rows = "[demo_row ''u1'' default_options 3]"
  have "wf_table ?rows" by (simp add: wf_table_def)
  moreover have "item_id default_options = None" and "''u2'' \<notin> uid ` set ?rows"
    by (simp_all add: default_options_def)
  ultimately obtain answer rows' where ans: "ask_run demo_pilot MANUAL default_options None 9 ''u2'' ?rows = Inr (answer, rows')"
    "if \<exists>row \<in> set ?rows. waiting_like PIPELINE default_options row
       then rows' = ?rows \<and> joined answer \<and> (\<exists>row. stored ?rows (answer_uid answer) = Some row \<and> waiting_like PIPELINE default_options row
              \<and> (\<forall>row' \<in> set ?rows. waiting_like PIPELINE default_options row' \<longrightarrow> asked_at row \<le> asked_at row'))
       else \<not> joined answer \<and> answer_uid answer = ''u2''
         \<and> rows' = ?rows @ [row_values (ask PIPELINE MANUAL default_options (actor_id demo_pilot) 9 None ''u2'')]"
    using ask_run_coalesces [of ?rows demo_pilot default_options "''u2''" MANUAL 9] demo_pilot_authorised by blast
  moreover have "\<exists>row \<in> set ?rows. waiting_like PIPELINE default_options row" by (simp add: waiting_like_def)
  ultimately show ?thesis by (auto simp: stored_def split: if_splits)
qed

text \<open>An authorised ask of an item's rescrape always gets an answer: a request of that item
  that waits or runs answers it and nothing is written; otherwise exactly one queued rescrape of that
  item is added. After it, that item has an active request, and no second one was made.\<close>

theorem ask_rescrape_joins:
  assumes "wf_table rows" and "authorise (Some a) (AnyOf {LIBRARY_RESCRAPE}) = Inr ()"
    and "fresh \<notin> uid ` set rows"
  shows "\<exists>answer rows'. ask_rescrape a item t fresh rows = Inr (answer, rows') \<and> wf_table rows'
    \<and> (\<exists>row. stored rows' (answer_uid answer) = Some row \<and> active_rescrape item row)
    \<and> (if \<exists>row \<in> set rows. active_rescrape item row then rows' = rows \<and> joined answer
       else \<not> joined answer \<and> (\<exists>row. rows' = rows @ [row] \<and> active_rescrape item row))"
proof -
  let ?ask = "ask RESCRAPE WEB (default_options\<lparr>item_id := Some item\<rparr>) (actor_id a) t None fresh"
  have run: "ask_rescrape a item t fresh rows = answer_ask ?ask False rows"
    using assms(2) by (simp add: ask_rescrape_def requires_def OPERATION_RIGHTS_def holds_right_def)
  obtain found where found: "joinable ?ask False rows = Inr found"
    "case found of None \<Rightarrow> \<forall>row \<in> set rows. \<not> active_rescrape item row
       | Some r \<Rightarrow> \<exists>row \<in> set rows. r = request_of_row row \<and> active_rescrape item row"
    using rescrape_joinable [OF assms(1)] by blast
  show ?thesis
  proof (cases found)
    case (Some r)
    with found obtain row where "row \<in> set rows" "r = request_of_row row" "active_rescrape item row" by auto
    then show ?thesis
      using run found Some assms(1) by (auto simp: answer_ask_def stored_iff)
  next
    case None
    have insert: "insert_request ?ask rows = Inr (rows @ [row_values ?ask])"
      using assms(3) by (intro insert_fresh) simp_all
    have wf: "wf_table (rows @ [row_values ?ask])"
      using insert_request_wf [OF insert assms(1) wf_ask] .
    have act: "active_rescrape item (row_values ?ask)"
      by (auto simp: active_rescrape_def)
    have "stored (rows @ [row_values ?ask]) fresh = Some (row_values ?ask)"
      using insert_request_stored [OF insert, of fresh] by simp
    with run found None insert wf act show ?thesis by (auto simp: answer_ask_def)
  qed
qed

theorem ask_rescrape_joins_witness:
  "\<exists>answer rows'. ask_rescrape demo_pilot 42 9 ''u2'' [demo_row ''u1'' default_options 3] = Inr (answer, rows')
     \<and> \<not> joined answer \<and> length rows' = 2"
proof -
  let ?rows = "[demo_row ''u1'' default_options 3]"
  have "authorise (Some demo_pilot) (AnyOf {LIBRARY_RESCRAPE}) = Inr ()"
    by (simp add: demo_pilot_def demo_actor_def authorise_any_of_def holds_any_def holds_def)
  moreover have "wf_table ?rows" and "''u2'' \<notin> uid ` set ?rows" by (simp_all add: wf_table_def)
  ultimately obtain answer rows' where "ask_rescrape demo_pilot 42 9 ''u2'' ?rows = Inr (answer, rows')"
    "if \<exists>row \<in> set ?rows. active_rescrape 42 row then rows' = ?rows \<and> joined answer
     else \<not> joined answer \<and> (\<exists>row. rows' = ?rows @ [row] \<and> active_rescrape 42 row)"
    using ask_rescrape_joins [of ?rows demo_pilot "''u2''" 42 9] by blast
  then show ?thesis by (auto simp: active_rescrape_def split: if_splits)
qed

text \<open>A run promised under a uid joins no other request: it is queued under that uid whatever
  waits with the same options. Asking it again is a retry: the stored request answers with the state
  it has by then (waiting, running or settled) and nothing is written.\<close>

theorem promised_ask_is_idempotent:
  assumes "wf_table rows" and "authorise (Some a) (AnyOf {PIPELINE_CONTROL}) = Inr ()"
  shows "ask_run a trig opts (Some u) t fresh rows =
    (case stored rows u of
       None \<Rightarrow> Inr (\<lparr>answer_uid = u, answer_state = Queued, joined = False\<rparr>,
                 rows @ [row_values (ask PIPELINE trig opts (actor_id a) t (Some u) fresh)])
     | Some row \<Rightarrow> Inr (\<lparr>answer_uid = u, answer_state = answer_of (state row), joined = True\<rparr>, rows))"
proof (cases "stored rows u")
  case None
  then have "u \<notin> uid ` set rows" by (auto simp: stored_def sql_first_None)
  then have "insert_request (ask PIPELINE trig opts (actor_id a) t (Some u) fresh) rows
      = Inr (rows @ [row_values (ask PIPELINE trig opts (actor_id a) t (Some u) fresh)])"
    by (intro insert_fresh) simp_all
  with None assms(2) show ?thesis
    by (simp add: ask_run_def authorised_pipeline answer_ask_def joinable_def get_request_stored)
next
  case (Some row)
  with assms(2) show ?thesis
    by (auto simp: ask_run_def authorised_pipeline answer_ask_def joinable_def get_request_stored dest: stored_uid)
qed

theorem promised_ask_is_idempotent_witness:
  "ask_run demo_pilot WEB default_options (Some ''u1'') 20 ''x'' [demo_row ''u1'' default_options 3]
    = Inr (\<lparr>answer_uid = ''u1'', answer_state = Queued, joined = True\<rparr>, [demo_row ''u1'' default_options 3])"
proof -
  have "wf_table [demo_row ''u1'' default_options 3]" by (simp add: wf_table_def)
  from promised_ask_is_idempotent [OF this demo_pilot_authorised, of WEB default_options "''u1''" 20 "''x''"]
  show ?thesis by (simp add: stored_def)
qed

end
