(* ===== verification/Supervisor.thy ===== *)
theory Supervisor
  imports Watcher Run_Service
begin

text \<open>
  The supervisor (\<open>app/supervisor/supervisor.py\<close>): one process that holds the lease, settles the
  requests whose worker ended, announces the new ones and starts the head of the queue.
  \<open>tick_admission\<close> is one admission tick over the shared tables and the supervisor's own memory;
  what the operating system and the other stores answer during the tick (which processes run, the
  exit codes, whether a worker starts, the pause and lock files, the history row) is the record
  \<open>tick_env\<close>. The durable writes that took place, the worker starts and the published events are
  logged, in order, in \<open>effects\<close>. A tick runs as one step; statements of other processes that fall
  between two of its statements are the business of the compare-and-set theorems of \<open>Run_Queue\<close>.
  The child table of \<open>ProcessWorkerLauncher\<close> is the list of the child pids.
\<close>

definition LOST_LOCK_EXIT :: int where "LOST_LOCK_EXIT = 3"

definition MAX_UNREADABLE_ROW_READS :: nat where "MAX_UNREADABLE_ROW_READS = 30"

definition MAX_CONSECUTIVE_TICK_FAILURES :: nat where "MAX_CONSECUTIVE_TICK_FAILURES = 30"

definition MAX_WORKER_START_ATTEMPTS :: nat where "MAX_WORKER_START_ATTEMPTS = 5"

datatype errno = EMFILE | ENFILE | ENOMEM | EAGAIN | OtherErrno int

text \<open>Why a worker did not start: an \<open>OSError\<close> with its number, or any other exception.\<close>

datatype start_failure = OSErr errno | OtherFailure

definition transient :: "start_failure \<Rightarrow> bool" where
  "transient f = (case f of OSErr e \<Rightarrow> e \<in> {EMFILE, ENFILE, ENOMEM, EAGAIN} | OtherFailure \<Rightarrow> False)"

text \<open>Reading the run's history row: it cannot be read now, or its outcome (\<open>None\<close> without a row).\<close>

datatype row_read = Unreadable | Outcome "string option"

record tick_env =
  tick_now :: time
  alive :: "int \<Rightarrow> bool"
  poll :: "int \<Rightarrow> int option"
  poll_at_reap :: "int \<Rightarrow> int option"
  start_worker :: "run_uid \<Rightarrow> start_failure + int"
  row_outcome :: "run_uid \<Rightarrow> row_read"
  pause_file :: bool
  pipeline_lock :: bool
  scrape_lock :: bool
  has_watcher :: bool

datatype run_event =
    RunQueued run_uid run_kind run_trigger bool
  | RunAdmitted run_uid run_kind
  | RunSettled run_uid run_kind settlement

datatype effect = Saved run_uid request_state | Launched run_uid | Emitted run_event

record supervisor =
  table :: run_table
  lease_db :: lease_row
  effects :: "effect list"
  sup_pid :: int
  sup_host :: string
  holding :: bool
  seen :: "run_uid set"
  start_failures :: "run_uid \<rightharpoonup> nat"
  unreadable_reads :: "run_uid \<rightharpoonup> nat"
  sup_watcher :: watcher_state
  children :: "int list"

type_synonym tick_result = "py_error + supervisor"

definition emit :: "run_event \<Rightarrow> supervisor \<Rightarrow> supervisor" where
  "emit e s = s\<lparr>effects := effects s @ [Emitted e]\<rparr>"

definition save_request :: "run_request \<Rightarrow> supervisor \<Rightarrow> py_error + (bool \<times> run_request \<times> supervisor)" where
  "save_request req s = raising_bind (save req (table s)) (\<lambda>(ok, req', rows).
     Inr (ok, req', s\<lparr>table := rows, effects := effects s @ (if ok then [Saved (uid req) (state req)] else [])\<rparr>))"

subsection \<open>The launcher\<close>

definition exit_code :: "tick_env \<Rightarrow> supervisor \<Rightarrow> int \<Rightarrow> int option" where
  "exit_code env s p = (if p \<in> set (children s) then poll env p else None)"

definition reap :: "tick_env \<Rightarrow> int set \<Rightarrow> supervisor \<Rightarrow> supervisor" where
  "reap env keep s = s\<lparr>children := filter (\<lambda>p. p \<in> keep \<or> poll_at_reap env p = None) (children s)\<rparr>"

text \<open>\<open>ProcessWorkerLauncher.start\<close>: the new child is remembered.\<close>

definition start :: "tick_env \<Rightarrow> run_uid \<Rightarrow> supervisor \<Rightarrow> (start_failure + int) \<times> supervisor" where
  "start env u s =
     (case start_worker env u of
        Inl f \<Rightarrow> (Inl f, s)
      | Inr p \<Rightarrow> (Inr p, s\<lparr>children := p # filter (\<lambda>q. q \<noteq> p) (children s),
                          effects := effects s @ [Launched u]\<rparr>))"

subsection \<open>The lease\<close>

definition hold_lease :: "tick_env \<Rightarrow> supervisor \<Rightarrow> bool \<times> supervisor" where
  "hold_lease env s =
     (if holding s then
        (let (ok, row) = lease_renew (sup_pid s) (sup_host s) (tick_now env) LEASE_TTL_S (lease_db s)
         in if ok then (True, s\<lparr>lease_db := row\<rparr>) else (False, s\<lparr>lease_db := row, holding := False\<rparr>))
      else
        (let (claimed, row) = lease_claim (sup_pid s) (sup_host s) (tick_now env) LEASE_TTL_S (alive env) (lease_db s)
         in if claimed = None then (False, s\<lparr>lease_db := row\<rparr>) else (True, s\<lparr>lease_db := row, holding := True\<rparr>)))"

definition stop :: "supervisor \<Rightarrow> supervisor" where
  "stop s = (if \<not> holding s then s
     else s\<lparr>holding := False, lease_db := snd (lease_release (sup_pid s) (sup_host s) (lease_db s))\<rparr>)"

subsection \<open>Settling\<close>

definition settlement_of :: "int \<Rightarrow> settlement" where
  "settlement_of code = (if code = 0 then SUCCESS else if code < 0 then KILLED else ERROR)"

definition row_settlement :: "string option \<Rightarrow> settlement" where
  "row_settlement outcome =
     (case outcome of
        None \<Rightarrow> INTERRUPTED
      | Some o' \<Rightarrow> (case map_of [(''success'', SUCCESS), (''error'', ERROR), (''killed'', KILLED)] o' of
                     None \<Rightarrow> INTERRUPTED | Some how \<Rightarrow> how))"

definition save_settled :: "tick_env \<Rightarrow> run_request \<Rightarrow> settlement \<Rightarrow> supervisor \<Rightarrow> tick_result" where
  "save_settled env req how s = raising_bind (save_request req s) (\<lambda>(ok, _, s).
     if \<not> ok then Inr s
     else let s = emit (RunSettled (uid req) (kind req) how) s
          in if how = SUCCESS \<and> kind req = PIPELINE
             then raising_bind (options req) (\<lambda>opts.
               if \<not> dry_run opts \<and> has_watcher env
               then Inr (s\<lparr>sup_watcher := (sup_watcher s)\<lparr>last_successful_run_at := Some (tick_now env)\<rparr>\<rparr>)
               else Inr s)
             else Inr s)"

definition settle_request :: "tick_env \<Rightarrow> run_request \<Rightarrow> settlement \<Rightarrow> supervisor \<Rightarrow> tick_result" where
  "settle_request env req how s = raising_bind (settle how (tick_now env) req) (\<lambda>req. save_settled env req how s)"

definition requeue_lost_lock :: "run_request \<Rightarrow> supervisor \<Rightarrow> tick_result" where
  "requeue_lost_lock req s = raising_bind (back_to_queue wait_reason.PIPELINE_LOCK_HELD req) (\<lambda>req.
     raising_bind (save_request req s) (\<lambda>(_, _, s). Inr s))"

definition settle_silent :: "tick_env \<Rightarrow> bool \<Rightarrow> run_request \<Rightarrow> supervisor \<Rightarrow> tick_result" where
  "settle_silent env gone req s =
     (case row_outcome env (uid req) of
        Unreadable \<Rightarrow>
          (let reads = (case unreadable_reads s (uid req) of None \<Rightarrow> 0 | Some n \<Rightarrow> n) + 1
           in if reads \<ge> MAX_UNREADABLE_ROW_READS
              then settle_request env req INTERRUPTED (s\<lparr>unreadable_reads := (unreadable_reads s)(uid req := None)\<rparr>)
              else Inr (s\<lparr>unreadable_reads := (unreadable_reads s)(uid req \<mapsto> reads)\<rparr>))
      | Outcome outcome \<Rightarrow>
          (let s = s\<lparr>unreadable_reads := (unreadable_reads s)(uid req := None)\<rparr>
           in if gone \<and> outcome = None \<and> heartbeat_at req = admitted_at req
              then requeue_lost_lock req s
              else settle_request env req (row_settlement outcome) s))"

definition settle_one :: "tick_env \<Rightarrow> run_request \<Rightarrow> supervisor \<Rightarrow> tick_result" where
  "settle_one env req s =
     (let pid = worker_pid req;
          code = (case pid of None \<Rightarrow> None | Some p \<Rightarrow> exit_code env s p)
      in if code = Some LOST_LOCK_EXIT then requeue_lost_lock req s
         else case code of
           Some c \<Rightarrow> settle_request env req (settlement_of c) s
         | None \<Rightarrow>
             (let gone = (case pid of None \<Rightarrow> False | Some p \<Rightarrow> \<not> alive env p)
              in if gone \<or> stale (tick_now env) req then settle_silent env gone req s else Inr s))"

definition settle_ended :: "tick_env \<Rightarrow> supervisor \<Rightarrow> tick_result" where
  "settle_ended env s = raising_bind (raising_fold (settle_one env) (running (table s)) s) (\<lambda>s.
     Inr (reap env {p. \<exists>req \<in> set (running (table s)). worker_pid req = Some p} s))"

lemma settle_ended_code [code]:
  "settle_ended env s = raising_bind (raising_fold (settle_one env) (running (table s)) s) (\<lambda>s.
     Inr (reap env (set (List.map_filter worker_pid (running (table s)))) s))"
proof -
  have pids: "{p. \<exists>req \<in> set rs. worker_pid req = Some p} = set (List.map_filter worker_pid rs)" for rs
    by (induction rs) (auto split: option.split)
  show ?thesis unfolding settle_ended_def pids ..
qed

subsection \<open>Announcing\<close>

definition announce :: "supervisor \<Rightarrow> supervisor" where
  "announce s =
     (let waiting = queued (table s);
          fresh = filter (\<lambda>req. uid req \<notin> seen s) waiting;
          live = uid ` set waiting \<union> uid ` set (running (table s))
      in s\<lparr>effects := effects s @ map (\<lambda>req. Emitted (RunQueued (uid req) (kind req) (trigger req) False)) fresh,
           seen := (seen s \<union> uid ` set fresh) \<inter> live,
           start_failures := start_failures s |` live,
           unreadable_reads := unreadable_reads s |` live\<rparr>)"

subsection \<open>Admitting\<close>

definition blocker :: "tick_env \<Rightarrow> wait_reason option" where
  "blocker env =
     (if pause_file env then Some PAUSED
      else if pipeline_lock env \<or> scrape_lock env then Some wait_reason.PIPELINE_LOCK_HELD else None)"

definition record_wait :: "run_request \<Rightarrow> wait_reason \<Rightarrow> supervisor \<Rightarrow> tick_result" where
  "record_wait req reason s =
     (if wait_reason req = Some reason then Inr s
      else raising_bind (wait reason req) (\<lambda>req. raising_bind (save_request req s) (\<lambda>(_, _, s). Inr s)))"

definition start_failed :: "tick_env \<Rightarrow> run_request \<Rightarrow> start_failure \<Rightarrow> supervisor \<Rightarrow> tick_result" where
  "start_failed env req failure s =
     (let attempt = (case start_failures s (uid req) of None \<Rightarrow> 0 | Some n \<Rightarrow> n) + 1
      in raising_bind (back_to_queue WORKER_START_FAILED req) (\<lambda>req.
         if transient failure \<and> attempt < MAX_WORKER_START_ATTEMPTS
         then raising_bind (save_request req (s\<lparr>start_failures := (start_failures s)(uid req \<mapsto> attempt)\<rparr>))
                (\<lambda>(_, _, s). Inr s)
         else raising_bind (abandon (tick_now env) req) (\<lambda>req.
                save_settled env req ABANDONED (s\<lparr>start_failures := (start_failures s)(uid req := None)\<rparr>))))"

definition start_request :: "tick_env \<Rightarrow> run_request \<Rightarrow> supervisor \<Rightarrow> py_error + (bool \<times> supervisor)" where
  "start_request env req s = raising_bind (admit None (tick_now env) req) (\<lambda>req.
     raising_bind (save_request req s) (\<lambda>(ok, req, s).
       if \<not> ok then Inr (False, s)
       else case start env (uid req) s of
         (Inl failure, s) \<Rightarrow> raising_bind (start_failed env req failure s) (\<lambda>s. Inr (False, s))
       | (Inr p, s) \<Rightarrow>
           raising_bind (record_worker p req) (\<lambda>req.
             raising_bind (save_request req (s\<lparr>start_failures := (start_failures s)(uid req := None)\<rparr>)) (\<lambda>(_, _, s).
               Inr (True, emit (RunAdmitted (uid req) (kind req)) s)))))"

definition admit_head :: "tick_env \<Rightarrow> supervisor \<Rightarrow> tick_result" where
  "admit_head env s =
     (case first_queued (table s) of
        None \<Rightarrow> Inr s
      | Some head \<Rightarrow>
          if running (table s) \<noteq> [] then record_wait head BEHIND_RUN s
          else case blocker env of
            Some reason \<Rightarrow> record_wait head reason s
          | None \<Rightarrow> raising_bind (start_request env head s) (\<lambda>(started, s).
              if \<not> started then Inr s
              else case first_queued (table s) of
                None \<Rightarrow> Inr s
              | Some head \<Rightarrow> record_wait head BEHIND_RUN s))"

definition tick_admission :: "tick_env \<Rightarrow> supervisor \<Rightarrow> tick_result" where
  "tick_admission env s =
     (case hold_lease env s of
        (False, s) \<Rightarrow> Inr s
      | (True, s) \<Rightarrow> raising_bind (settle_ended env s) (\<lambda>s. admit_head env (announce s)))"

text \<open>\<open>_guarded\<close>: the consecutive failures of one kind of tick; \<open>None\<close> is \<open>SupervisorWedged\<close>.\<close>

definition guarded :: "bool \<Rightarrow> nat \<Rightarrow> nat option" where
  "guarded failed count =
     (if failed then (if count + 1 \<ge> MAX_CONSECUTIVE_TICK_FAILURES then None else Some (count + 1)) else Some 0)"

end
