(* ===== verification/Supervisor_Phases.thy ===== *)
theory Supervisor_Phases
  imports Supervisor
begin

text \<open>
  The two phases of an admission tick as functions of the table's rows. \<open>verdict\<close> says what becomes
  of a request's row when the settling phase looks at it, \<open>start_verdict\<close> what becomes of the head of
  the queue when it is started; the lemmas show that the code's loops, with their compare-and-sets,
  do exactly that (\<open>settle_ended_rows\<close>, \<open>admit_head_admitted\<close>), and never raise on a well-formed table.
\<close>

subsection \<open>Writing the row of a request\<close>

definition put_row :: "run_row \<Rightarrow> run_table \<Rightarrow> run_table" where
  "put_row new rows = sql_update (\<lambda>row. uid row = uid new) (\<lambda>_. new) rows"

lemma put_row_twice: "uid a = uid b \<Longrightarrow> put_row a (put_row b rows) = put_row a rows"
  by (auto simp: put_row_def sql_update_def)

lemma set_put_row: "set (put_row new rows) = (\<lambda>row. if uid row = uid new then new else row) ` set rows"
  by (auto simp: put_row_def set_sql_update)

lemma put_row_member: "row \<in> set rows \<Longrightarrow> uid row = uid new \<Longrightarrow> new \<in> set (put_row new rows)"
  by (auto simp: set_put_row image_iff)

lemma put_row_uids [simp]: "map uid (put_row new rows) = map uid rows"
  by (auto simp: put_row_def)

lemma put_row_wf [wf_intro]: "wf_table rows \<Longrightarrow> wf_request new \<Longrightarrow> wf_table (put_row new rows)"
  by (auto simp: wf_table_def set_put_row)

lemma put_row_map:
  assumes "wf_table rows" and "row \<in> set rows" and "uid new = uid row"
  shows "put_row new rows = map (\<lambda>x. if x = row then new else x) rows"
  using keyed_unique [OF wf_table_distinct [OF assms(1)] _ assms(2)] assms
  by (auto simp: put_row_def sql_update_def)

lemma save_put_row:
  assumes "wf_table rows" and "row \<in> set rows" and "uid req = uid row" and "read_state req = state row"
  shows "save req rows = Inr (True, req\<lparr>read_state := state req\<rparr>, put_row (row_values req) rows)"
proof -
  have "stored rows (uid req) = Some row" using assms by (simp add: stored_iff)
  with assms show ?thesis by (simp add: save_cases put_row_def)
qed

lemma row_values_update [simp]:
  "row_values (r\<lparr>state := x\<rparr>) = (row_values r)\<lparr>state := x\<rparr>"
  "row_values (r\<lparr>admitted_at := y\<rparr>) = (row_values r)\<lparr>admitted_at := y\<rparr>"
  "row_values (r\<lparr>worker_pid := p\<rparr>) = (row_values r)\<lparr>worker_pid := p\<rparr>"
  "row_values (r\<lparr>heartbeat_at := y\<rparr>) = (row_values r)\<lparr>heartbeat_at := y\<rparr>"
  "row_values (r\<lparr>settled_at := y\<rparr>) = (row_values r)\<lparr>settled_at := y\<rparr>"
  "row_values (r\<lparr>settlement := h\<rparr>) = (row_values r)\<lparr>settlement := h\<rparr>"
  "row_values (r\<lparr>wait_reason := w\<rparr>) = (row_values r)\<lparr>wait_reason := w\<rparr>"
  by (simp_all add: row_values_def run_row.defs)

lemma save_request_row:
  assumes "wf_table (table s)" and "row \<in> set (table s)" and "uid req = uid row" and "read_state req = state row"
  shows "save_request req s = Inr (True, req\<lparr>read_state := state req\<rparr>,
    s\<lparr>table := put_row (row_values req) (table s), effects := effects s @ [Saved (uid req) (state req)]\<rparr>)"
  using save_put_row [OF assms] by (simp add: save_request_def)

subsection \<open>The settling phase, row by row\<close>

datatype row_verdict = Keep | Requeue | Finish settlement

definition row_exit :: "tick_env \<Rightarrow> supervisor \<Rightarrow> run_row \<Rightarrow> int option" where
  "row_exit env s row = Option.bind (worker_pid row) (exit_code env s)"

definition worker_gone :: "tick_env \<Rightarrow> run_row \<Rightarrow> bool" where
  "worker_gone env row = (case worker_pid row of None \<Rightarrow> False | Some p \<Rightarrow> \<not> alive env p)"

definition failed_reads :: "supervisor \<Rightarrow> run_uid \<Rightarrow> nat" where
  "failed_reads s u = (case unreadable_reads s u of None \<Rightarrow> 0 | Some n \<Rightarrow> n)"

definition verdict :: "tick_env \<Rightarrow> supervisor \<Rightarrow> run_row \<Rightarrow> row_verdict" where
  "verdict env s row =
     (if state row \<noteq> RUNNING then Keep
      else case row_exit env s row of
        Some code \<Rightarrow> if code = LOST_LOCK_EXIT then Requeue
                     else Finish (if code = 0 then SUCCESS else if code < 0 then KILLED else ERROR)
      | None \<Rightarrow>
          if \<not> worker_gone env row \<and> \<not> stale (tick_now env) row then Keep
          else case row_outcome env (uid row) of
            Unreadable \<Rightarrow> if failed_reads s (uid row) + 1 < MAX_UNREADABLE_ROW_READS then Keep else Finish INTERRUPTED
          | Outcome None \<Rightarrow>
              if worker_gone env row \<and> heartbeat_at row = admitted_at row then Requeue else Finish INTERRUPTED
          | Outcome (Some o') \<Rightarrow>
              Finish (if o' = ''success'' then SUCCESS else if o' = ''error'' then ERROR
                else if o' = ''killed'' then KILLED else INTERRUPTED))"

lemma row_settlement_Some:
  "row_settlement (Some o') = (if o' = ''success'' then SUCCESS else if o' = ''error'' then ERROR
     else if o' = ''killed'' then KILLED else INTERRUPTED)"
  by (simp add: row_settlement_def)

fun judged :: "time \<Rightarrow> row_verdict \<Rightarrow> run_row \<Rightarrow> run_row" where
  "judged t Keep row = row"
| "judged t Requeue row = row\<lparr>state := QUEUED, worker_pid := None, admitted_at := None, heartbeat_at := None,
     wait_reason := Some wait_reason.PIPELINE_LOCK_HELD\<rparr>"
| "judged t (Finish how) row = row\<lparr>state := SETTLED, settlement := Some how, settled_at := Some t\<rparr>"

fun verdict_effects :: "row_verdict \<Rightarrow> run_row \<Rightarrow> effect list" where
  "verdict_effects Keep row = []"
| "verdict_effects Requeue row = [Saved (uid row) QUEUED]"
| "verdict_effects (Finish how) row = [Saved (uid row) SETTLED, Emitted (RunSettled (uid row) (kind row) how)]"

definition same_supervisor :: "supervisor \<Rightarrow> supervisor \<Rightarrow> bool" where
  "same_supervisor s s' \<longleftrightarrow> lease_db s' = lease_db s \<and> sup_pid s' = sup_pid s \<and> sup_host s' = sup_host s
     \<and> holding s' = holding s \<and> seen s' = seen s \<and> start_failures s' = start_failures s \<and> children s' = children s"

lemma same_supervisor_trans [trans]: "same_supervisor a b \<Longrightarrow> same_supervisor b c \<Longrightarrow> same_supervisor a c"
  by (simp add: same_supervisor_def)

lemma same_supervisor_refl [simp]: "same_supervisor s s"
  by (simp add: same_supervisor_def)

lemma judged_uid [simp]: "uid (judged t v row) = uid row"
  by (cases v) simp_all

lemma judged_wf: "wf_request row \<Longrightarrow> v \<noteq> Keep \<Longrightarrow> state row = RUNNING \<Longrightarrow> wf_request (judged t v row)"
  by (cases v) (auto simp: wf_request_def)

lemma settle_request_row:
  assumes "wf_table (table s)" and "row \<in> set (table s)" and "state row = RUNNING"
  shows "\<exists>s'. settle_request env (request_of_row row) how s = Inr s'
    \<and> table s' = put_row (judged (tick_now env) (Finish how) row) (table s)
    \<and> effects s' = effects s @ verdict_effects (Finish how) row
    \<and> same_supervisor s s' \<and> unreadable_reads s' = unreadable_reads s"
proof -
  have "wf_request row" using assms by (simp add: wf_table_def)
  then obtain opts where opts: "options_json row = options_to_json opts" by (auto simp: wf_request_def)
  show ?thesis
    using assms opts
    by (simp add: settle_request_def move_defs save_settled_def save_request_row emit_def options_def
        same_supervisor_def Let_def)
qed

lemma requeue_row:
  assumes "wf_table (table s)" and "row \<in> set (table s)" and "state row = RUNNING"
  shows "\<exists>s'. requeue_lost_lock (request_of_row row) s = Inr s'
    \<and> table s' = put_row (judged t Requeue row) (table s)
    \<and> effects s' = effects s @ verdict_effects Requeue row
    \<and> same_supervisor s s' \<and> unreadable_reads s' = unreadable_reads s"
  using assms
  by (simp add: requeue_lost_lock_def move_defs save_request_row same_supervisor_def)

lemma put_row_same: "wf_table rows \<Longrightarrow> row \<in> set rows \<Longrightarrow> put_row row rows = rows"
  by (simp add: put_row_map cong: map_cong)


lemma settle_silent_row:
  assumes "wf_table (table s)" and "row \<in> set (table s)" and "state row = RUNNING"
    and "row_exit env s row = None" and "worker_gone env row \<or> stale (tick_now env) row"
  shows "\<exists>s'. settle_silent env (worker_gone env row) (request_of_row row) s = Inr s'
    \<and> table s' = put_row (judged (tick_now env) (verdict env s row) row) (table s)
    \<and> effects s' = effects s @ verdict_effects (verdict env s row) row
    \<and> same_supervisor s s' \<and> (\<forall>u. u \<noteq> uid row \<longrightarrow> unreadable_reads s' u = unreadable_reads s u)"
proof -
  let ?s = "s\<lparr>unreadable_reads := (unreadable_reads s)(uid row := None)\<rparr>"
  have s: "wf_table (table ?s)" "row \<in> set (table ?s)" using assms by simp_all
  note settled = settle_request_row [OF s assms(3), of env] requeue_row [OF s assms(3), of "tick_now env"]
  consider (bad) "row_outcome env (uid row) = Unreadable"
    | (none) "row_outcome env (uid row) = Outcome None"
    | (some) o' where "row_outcome env (uid row) = Outcome (Some o')"
    by (metis row_read.exhaust option.exhaust)
  then show ?thesis
  proof cases
    case bad
    show ?thesis
    proof (cases "failed_reads s (uid row) + 1 < MAX_UNREADABLE_ROW_READS")
      case True
      with bad assms show ?thesis
        by (auto simp: settle_silent_def verdict_def failed_reads_def Let_def same_supervisor_def put_row_same)
    next
      case False
      with bad assms settled(1) [of INTERRUPTED] show ?thesis
        by (auto simp: settle_silent_def verdict_def failed_reads_def Let_def same_supervisor_def)
    qed
  next
    case none
    with assms settled(2) settled(1) [of INTERRUPTED] show ?thesis
      by (auto simp: settle_silent_def verdict_def Let_def same_supervisor_def row_settlement_def)
  next
    case some
    have "verdict env s row = Finish (row_settlement (Some o'))"
      using some assms by (auto simp: verdict_def row_settlement_Some)
    with some settled(1) [of "row_settlement (Some o')"] show ?thesis
      by (auto simp: settle_silent_def Let_def same_supervisor_def)
  qed
qed

lemma settle_one_row:
  assumes "wf_table (table s)" and "row \<in> set (table s)" and "state row = RUNNING"
  shows "\<exists>s'. settle_one env (request_of_row row) s = Inr s'
    \<and> table s' = put_row (judged (tick_now env) (verdict env s row) row) (table s)
    \<and> effects s' = effects s @ verdict_effects (verdict env s row) row
    \<and> same_supervisor s s' \<and> (\<forall>u. u \<noteq> uid row \<longrightarrow> unreadable_reads s' u = unreadable_reads s u)"
proof -
  have code: "(case worker_pid row of None \<Rightarrow> None | Some p \<Rightarrow> exit_code env s p) = row_exit env s row"
    by (simp add: row_exit_def Option.bind_def split: option.splits)
  have gone: "(case worker_pid row of None \<Rightarrow> False | Some p \<Rightarrow> \<not> alive env p) = worker_gone env row"
    by (simp add: worker_gone_def)
  have stale: "stale t (request_of_row row) = stale t row" for t by (simp add: stale_def split: option.splits)
  show ?thesis
  proof (cases "row_exit env s row")
    case None
    show ?thesis
    proof (cases "worker_gone env row \<or> stale (tick_now env) row")
      case True
      with settle_silent_row [OF assms None True] None show ?thesis
        by (simp add: settle_one_def code gone stale Let_def)
    next
      case False
      with None assms show ?thesis
        by (simp add: settle_one_def code gone stale Let_def verdict_def put_row_same)
    qed
  next
    case (Some c)
    with settle_request_row [OF assms, of env "settlement_of c"] requeue_row [OF assms, of "tick_now env"] assms
    show ?thesis
      by (auto simp: settle_one_def code gone stale Let_def verdict_def settlement_of_def)
  qed
qed


lemma verdict_other:
  assumes "same_supervisor s s'" and "\<forall>u. u \<noteq> v \<longrightarrow> unreadable_reads s' u = unreadable_reads s u" and "uid row \<noteq> v"
  shows "verdict env s' row = verdict env s row"
proof -
  have "exit_code env s' = exit_code env s" using assms(1) by (auto simp: exit_code_def same_supervisor_def fun_eq_iff)
  moreover have "failed_reads s' (uid row) = failed_reads s (uid row)" using assms by (simp add: failed_reads_def)
  ultimately show ?thesis by (simp add: verdict_def row_exit_def)
qed

lemma settle_rows:
  assumes "wf_table (table s)" and "set xs \<subseteq> set (table s)" and "distinct (map uid xs)"
    and "\<forall>row \<in> set xs. state row = RUNNING"
  shows "\<exists>s'. raising_fold (settle_one env) (map request_of_row xs) s = Inr s'
    \<and> table s' = map (\<lambda>row. if row \<in> set xs then judged (tick_now env) (verdict env s row) row else row) (table s)
    \<and> effects s' = effects s @ concat (map (\<lambda>row. verdict_effects (verdict env s row) row) xs)
    \<and> same_supervisor s s'"
  using assms
proof (induction xs arbitrary: s)
  case Nil
  then show ?case by simp
next
  case (Cons x xs)
  let ?j = "\<lambda>s row. judged (tick_now env) (verdict env s row) row"
  have x: "x \<in> set (table s)" "state x = RUNNING" "uid x \<notin> uid ` set xs" using Cons.prems by auto
  obtain s1 where s1: "settle_one env (request_of_row x) s = Inr s1" "table s1 = put_row (?j s x) (table s)"
      "effects s1 = effects s @ verdict_effects (verdict env s x) x" "same_supervisor s s1"
      "\<forall>u. u \<noteq> uid x \<longrightarrow> unreadable_reads s1 u = unreadable_reads s u"
    using settle_one_row [OF Cons.prems(1) x(1,2), of env] by blast
  have table1: "table s1 = map (\<lambda>r. if r = x then ?j s x else r) (table s)"
    unfolding s1(2) using Cons.prems(1) x(1) by (simp add: put_row_map)
  have wfx: "wf_request x" using Cons.prems(1) x(1) by (simp add: wf_table_def)
  have "wf_request (?j s x)"
    using wfx x(2) judged_wf by (cases "verdict env s x = Keep") auto
  with Cons.prems(1) s1(2) have wf1: "wf_table (table s1)" by (auto intro: put_row_wf)
  have sub: "set xs \<subseteq> set (table s1)"
    using Cons.prems(2) x(3) by (force simp: table1)
  obtain s' where s': "raising_fold (settle_one env) (map request_of_row xs) s1 = Inr s'"
      "table s' = map (\<lambda>row. if row \<in> set xs then ?j s1 row else row) (table s1)"
      "effects s' = effects s1 @ concat (map (\<lambda>row. verdict_effects (verdict env s1 row) row) xs)"
      "same_supervisor s1 s'"
    using Cons.IH [OF wf1 sub] Cons.prems(3,4) by auto
  have same: "verdict env s1 row = verdict env s row" if "row \<in> set xs" for row
    using that x(3) by (intro verdict_other [OF s1(4,5)]) (metis imageI)
  have "table s' = map (\<lambda>row. if row \<in> set (x # xs) then ?j s row else row) (table s)"
    unfolding s'(2) table1 map_map
  proof (rule map_cong [OF refl])
    fix r assume "r \<in> set (table s)"
    show "((\<lambda>row. if row \<in> set xs then ?j s1 row else row) \<circ> (\<lambda>r. if r = x then ?j s x else r)) r
      = (if r \<in> set (x # xs) then ?j s r else r)"
    proof (cases "r = x")
      case True
      have "?j s x \<notin> set xs"
        using x(3) by (metis imageI judged_uid)
      with True show ?thesis by simp
    next
      case False
      with same show ?thesis by simp
    qed
  qed
  moreover have "effects s' = effects s @ concat (map (\<lambda>row. verdict_effects (verdict env s row) row) (x # xs))"
    unfolding s'(3) s1(3) using same by (simp cong: map_cong)
  ultimately show ?case
    using s1(1,4) s'(1,4) same_supervisor_trans by fastforce
qed

definition running_rows :: "run_table \<Rightarrow> run_row list" where
  "running_rows rows = fifo (filter (\<lambda>row. state row = RUNNING) rows)"

lemma set_running_rows: "set (running_rows rows) = {row \<in> set rows. state row = RUNNING}"
  by (auto simp: running_rows_def fifo_def)

lemma distinct_running_rows: "wf_table rows \<Longrightarrow> distinct (map uid (running_rows rows))"
proof -
  assume "wf_table rows"
  then have "distinct (map uid (filter (\<lambda>row. state row = RUNNING) rows))"
    by (simp add: wf_table_def distinct_map_filter)
  then show ?thesis by (auto simp: running_rows_def fifo_def distinct_map)
qed

definition settled_table :: "tick_env \<Rightarrow> supervisor \<Rightarrow> run_table" where
  "settled_table env s = map (\<lambda>row. judged (tick_now env) (verdict env s row) row) (table s)"

definition settle_effects :: "tick_env \<Rightarrow> supervisor \<Rightarrow> effect list" where
  "settle_effects env s = concat (map (\<lambda>row. verdict_effects (verdict env s row) row) (running_rows (table s)))"

lemma settle_ended_rows:
  assumes "wf_table (table s)"
  shows "\<exists>s'. settle_ended env s = Inr s' \<and> table s' = settled_table env s
    \<and> effects s' = effects s @ settle_effects env s
    \<and> lease_db s' = lease_db s \<and> sup_pid s' = sup_pid s \<and> sup_host s' = sup_host s \<and> holding s' = holding s
    \<and> seen s' = seen s \<and> start_failures s' = start_failures s"
proof -
  obtain s1 where s1: "raising_fold (settle_one env) (map request_of_row (running_rows (table s))) s = Inr s1"
      "table s1 = map (\<lambda>row. if row \<in> set (running_rows (table s))
        then judged (tick_now env) (verdict env s row) row else row) (table s)"
      "effects s1 = effects s @ concat (map (\<lambda>row. verdict_effects (verdict env s row) row) (running_rows (table s)))"
      "same_supervisor s s1"
    using settle_rows [OF assms _ distinct_running_rows [OF assms], of env] set_running_rows [of "table s"] by blast
  have rows: "running (table s) = map request_of_row (running_rows (table s))"
    by (simp add: running_def running_rows_def)
  have "table s1 = settled_table env s"
    unfolding s1(2) settled_table_def
    by (rule map_cong) (auto simp: set_running_rows verdict_def)
  with s1(3,4) show ?thesis
    by (simp add: settle_ended_def rows s1(1) reap_def same_supervisor_def settle_effects_def)
qed

lemma settled_table_wf [wf_intro]:
  assumes "wf_table (table s)" shows "wf_table (settled_table env s)"
proof -
  have "wf_request (judged t (verdict env s row) row)" if "row \<in> set (table s)" for row t
    using assms that judged_wf [of row "verdict env s row" t]
    by (cases "verdict env s row = Keep") (auto simp: wf_table_def verdict_def split: if_splits)
  with assms show ?thesis by (auto simp: wf_table_def settled_table_def comp_def)
qed

subsection \<open>The admitting phase, row by row\<close>

definition head_row :: "run_table \<Rightarrow> run_row option" where
  "head_row rows = (case fifo (filter (\<lambda>row. state row = QUEUED) rows) of [] \<Rightarrow> None | row # _ \<Rightarrow> Some row)"

lemma first_queued_head: "first_queued rows = map_option request_of_row (head_row rows)"
  by (simp add: first_queued_def head_row_def split: list.splits)

lemma head_row_Some:
  assumes "head_row rows = Some row"
  shows "row \<in> set rows" and "state row = QUEUED"
    and "row' \<in> set rows \<Longrightarrow> state row' = QUEUED \<Longrightarrow> asked_at row \<le> asked_at row'"
proof -
  obtain rest where s: "sort_key asked_at (filter (\<lambda>row. state row = QUEUED) rows) = row # rest"
    using assms by (auto simp: head_row_def fifo_def split: list.splits)
  have "row \<in> set (filter (\<lambda>row. state row = QUEUED) rows)"
    using s by (metis list.set_intros(1) set_sort)
  with sort_key_hd_least [OF s, of row']
  show "row \<in> set rows" and "state row = QUEUED"
    and "row' \<in> set rows \<Longrightarrow> state row' = QUEUED \<Longrightarrow> asked_at row \<le> asked_at row'" by auto
qed

datatype start_outcome = Admitted int | Retry | GiveUp

definition start_attempt :: "supervisor \<Rightarrow> run_uid \<Rightarrow> nat" where
  "start_attempt s u = (case start_failures s u of None \<Rightarrow> 0 | Some n \<Rightarrow> n) + 1"

definition start_verdict :: "tick_env \<Rightarrow> supervisor \<Rightarrow> run_uid \<Rightarrow> start_outcome" where
  "start_verdict env s u =
     (case start_worker env u of
        Inr p \<Rightarrow> Admitted p
      | Inl f \<Rightarrow> if transient f \<and> start_attempt s u < MAX_WORKER_START_ATTEMPTS then Retry else GiveUp)"

fun started_row :: "time \<Rightarrow> start_outcome \<Rightarrow> run_row \<Rightarrow> run_row" where
  "started_row t (Admitted p) row = row\<lparr>state := RUNNING, worker_pid := Some p, admitted_at := Some t,
     heartbeat_at := Some t, wait_reason := None\<rparr>"
| "started_row t Retry row = row\<lparr>wait_reason := Some WORKER_START_FAILED\<rparr>"
| "started_row t GiveUp row = row\<lparr>state := SETTLED, settlement := Some ABANDONED, settled_at := Some t,
     wait_reason := None\<rparr>"

fun start_effects :: "start_outcome \<Rightarrow> run_row \<Rightarrow> effect list" where
  "start_effects (Admitted p) row =
     [Saved (uid row) RUNNING, Launched (uid row), Saved (uid row) RUNNING, Emitted (RunAdmitted (uid row) (kind row))]"
| "start_effects Retry row = [Saved (uid row) RUNNING, Saved (uid row) QUEUED]"
| "start_effects GiveUp row =
     [Saved (uid row) RUNNING, Saved (uid row) SETTLED, Emitted (RunSettled (uid row) (kind row) ABANDONED)]"

definition after_start :: "tick_env \<Rightarrow> run_row \<Rightarrow> supervisor \<Rightarrow> supervisor" where
  "after_start env row s =
     (let v = start_verdict env s (uid row)
      in s\<lparr>table := put_row (started_row (tick_now env) v row) (table s),
           effects := effects s @ start_effects v row,
           start_failures := (start_failures s)(uid row := (if v = Retry then Some (start_attempt s (uid row)) else None)),
           children := (case v of Admitted p \<Rightarrow> p # filter (\<lambda>q. q \<noteq> p) (children s) | _ \<Rightarrow> children s)\<rparr>)"

lemma started_row_uid [simp]: "uid (started_row t v row) = uid row" "asked_at (started_row t v row) = asked_at row"
  by (cases v; simp)+

lemma started_row_wf: "wf_request row \<Longrightarrow> state row = QUEUED \<Longrightarrow> wf_request (started_row t v row)"
  by (cases v) (auto simp: wf_request_def)

lemma row_eqI: "run_row.truncate a = run_row.truncate b \<Longrightarrow> a = (b :: run_row)"
  by (simp add: run_row.defs)

lemma start_request_row:
  assumes "wf_table (table s)" and "row \<in> set (table s)" and "state row = QUEUED"
  shows "start_request env (request_of_row row) s =
    Inr (\<exists>p. start_verdict env s (uid row) = Admitted p, after_start env row s)"
proof -
  have wf: "wf_request row" using assms by (simp add: wf_table_def)
  then have q: "admitted_at row = None" "worker_pid row = None" "heartbeat_at row = None"
    using assms(3) by (simp_all add: wf_request_def)
  let ?run = "row\<lparr>state := RUNNING, worker_pid := None, admitted_at := Some (tick_now env),
     heartbeat_at := Some (tick_now env), wait_reason := None\<rparr>"
  let ?s = "s\<lparr>table := put_row ?run (table s), effects := effects s @ [Saved (uid row) RUNNING]\<rparr>"
  have run: "wf_request ?run" "?run \<in> set (put_row ?run (table s))"
    using wf assms by (auto simp: wf_request_def intro!: put_row_member)
  with assms(1) have wf1: "wf_table (put_row ?run (table s))" by (auto intro: put_row_wf)
  have same: "row\<lparr>state := QUEUED, worker_pid := None, admitted_at := None, heartbeat_at := None,
      wait_reason := w\<rparr> = row\<lparr>wait_reason := w\<rparr>" for w
    using q assms(3) by (cases row) simp
  have first: "save_request r s = Inr (True, r\<lparr>read_state := state r\<rparr>,
      s\<lparr>table := put_row (row_values r) (table s), effects := effects s @ [Saved (uid row) (state r)]\<rparr>)"
    if "uid r = uid row" "read_state r = QUEUED" for r
    using save_request_row [OF assms(1,2), of r] that assms(3) by simp
  have again: "save_request r t = Inr (True, r\<lparr>read_state := state r\<rparr>,
      t\<lparr>table := put_row (row_values r) (table s), effects := effects t @ [Saved (uid row) (state r)]\<rparr>)"
    if "table t = put_row ?run (table s)" "uid r = uid row" "read_state r = RUNNING" for t r
    using save_request_row [of t ?run r] wf1 run(2) that by (simp add: put_row_twice)
  show ?thesis
  proof (cases "start_worker env (uid row)")
    case (Inr p)
    with assms(3) show ?thesis
      by (simp add: start_request_def move_defs first again start_def after_start_def start_verdict_def
          emit_def Let_def) (cases s, cases row, simp)
  next
    case (Inl f)
    show ?thesis
    proof (cases "transient f \<and> start_attempt s (uid row) < MAX_WORKER_START_ATTEMPTS")
      case True
      with Inl assms(3) same show ?thesis
        by (simp add: start_request_def move_defs first again start_def after_start_def start_verdict_def
            start_failed_def start_attempt_def Let_def)
    next
      case False
      with Inl assms(3) same show ?thesis
        by (auto simp: start_request_def move_defs first again start_def after_start_def start_verdict_def
            start_failed_def start_attempt_def save_settled_def emit_def Let_def) (cases s, cases row, simp)+
    qed
  qed
qed

lemma record_wait_row:
  assumes "wf_table (table s)" and "row \<in> set (table s)" and "state row = QUEUED" and "reason \<noteq> SUPERVISOR_ABSENT"
  shows "record_wait (request_of_row row) reason s =
    Inr (s\<lparr>table := put_row (row\<lparr>wait_reason := Some reason\<rparr>) (table s),
           effects := effects s @ (if wait_reason row = Some reason then [] else [Saved (uid row) QUEUED])\<rparr>)"
proof (cases "wait_reason row = Some reason")
  case True
  then have row: "row\<lparr>wait_reason := Some reason\<rparr> = row" by (cases row) simp
  have "put_row (row\<lparr>wait_reason := Some reason\<rparr>) (table s) = table s"
    unfolding row using assms by (simp add: put_row_same)
  with True show ?thesis by (simp add: record_wait_def)
next
  case False
  have "save_request r s = Inr (True, r\<lparr>read_state := state r\<rparr>,
      s\<lparr>table := put_row (row_values r) (table s), effects := effects s @ [Saved (uid row) (state r)]\<rparr>)"
    if "uid r = uid row" "read_state r = QUEUED" for r
    using save_request_row [OF assms(1,2), of r] that assms(3) by simp
  with False assms show ?thesis by (simp add: record_wait_def move_defs)
qed


definition head_waits :: "wait_reason \<Rightarrow> supervisor \<Rightarrow> supervisor" where
  "head_waits reason s =
     (case head_row (table s) of
        None \<Rightarrow> s
      | Some row \<Rightarrow> s\<lparr>table := put_row (row\<lparr>wait_reason := Some reason\<rparr>) (table s),
          effects := effects s @ (if wait_reason row = Some reason then [] else [Saved (uid row) QUEUED])\<rparr>)"

definition admitted :: "tick_env \<Rightarrow> supervisor \<Rightarrow> supervisor" where
  "admitted env s =
     (if running_rows (table s) \<noteq> [] then head_waits BEHIND_RUN s
      else case blocker env of
        Some reason \<Rightarrow> head_waits reason s
      | None \<Rightarrow>
          (case head_row (table s) of
             None \<Rightarrow> s
           | Some row \<Rightarrow>
               (case start_verdict env s (uid row) of
                  Admitted p \<Rightarrow> head_waits BEHIND_RUN (after_start env row s)
                | _ \<Rightarrow> after_start env row s)))"

lemma running_rows_empty: "running_rows rows = [] \<longleftrightarrow> (\<forall>row \<in> set rows. state row \<noteq> RUNNING)"
  using set_running_rows [of rows] by (auto simp: set_empty [symmetric] simp del: set_empty)

lemma running_running_rows: "running rows = map request_of_row (running_rows rows)"
  by (simp add: running_def running_rows_def)

lemma head_record_wait:
  assumes "wf_table (table s)" and "reason \<noteq> SUPERVISOR_ABSENT"
  shows "(case first_queued (table s) of None \<Rightarrow> Inr s | Some head \<Rightarrow> record_wait head reason s) = Inr (head_waits reason s)"
  using record_wait_row [OF assms(1) head_row_Some(1,2) assms(2)]
  by (simp add: first_queued_head head_waits_def split: option.splits)

lemma after_start_wf:
  assumes "wf_table (table s)" and "row \<in> set (table s)" and "state row = QUEUED"
  shows "wf_table (table (after_start env row s))"
proof -
  have "wf_request row" using assms by (simp add: wf_table_def)
  with assms show ?thesis by (simp add: after_start_def Let_def put_row_wf started_row_wf)
qed

lemma head_waits_wf:
  assumes "wf_table (table s)" and "reason \<noteq> SUPERVISOR_ABSENT"
  shows "wf_table (table (head_waits reason s))"
proof (cases "head_row (table s)")
  case (Some row)
  with assms head_row_Some(1,2) [OF Some] have "wf_request (row\<lparr>wait_reason := Some reason\<rparr>)"
    by (auto simp: wf_table_def wf_request_def)
  with assms Some show ?thesis by (auto simp: head_waits_def intro: put_row_wf)
qed (use assms in \<open>simp add: head_waits_def\<close>)

lemma blocker_None: "blocker env = None \<longleftrightarrow> \<not> pause_file env \<and> \<not> pipeline_lock env \<and> \<not> scrape_lock env"
  by (simp add: blocker_def)

lemma blocker_reason: "blocker env = Some reason \<Longrightarrow> reason \<noteq> SUPERVISOR_ABSENT"
  by (auto simp: blocker_def split: if_splits)

lemma admit_head_admitted:
  assumes "wf_table (table s)"
  shows "admit_head env s = Inr (admitted env s)" and "wf_table (table (admitted env s))"
proof -
  consider (behind) "running_rows (table s) \<noteq> []"
    | (blocked) reason where "running_rows (table s) = []" "blocker env = Some reason"
    | (empty) "running_rows (table s) = []" "blocker env = None" "head_row (table s) = None"
    | (starts) row where "running_rows (table s) = []" "blocker env = None" "head_row (table s) = Some row"
    by (metis option.exhaust)
  then have "admit_head env s = Inr (admitted env s) \<and> wf_table (table (admitted env s))"
  proof cases
    case behind
    with head_record_wait [OF assms, of BEHIND_RUN] head_waits_wf [OF assms, of BEHIND_RUN]
    show ?thesis by (cases "first_queued (table s)") (simp_all add: admit_head_def admitted_def running_running_rows)
  next
    case blocked
    with head_record_wait [OF assms blocker_reason] head_waits_wf [OF assms blocker_reason]
    show ?thesis by (cases "first_queued (table s)") (simp_all add: admit_head_def admitted_def running_running_rows)
  next
    case empty
    with assms show ?thesis by (simp add: admit_head_def admitted_def first_queued_head)
  next
    case starts
    note row = head_row_Some(1,2) [OF starts(3)]
    note wf = after_start_wf [OF assms row, of env]
    show ?thesis
      using starts start_request_row [OF assms row, of env] wf
        head_record_wait [OF wf, of BEHIND_RUN] head_waits_wf [OF wf, of BEHIND_RUN]
      by (auto simp: admit_head_def admitted_def first_queued_head running_running_rows split: start_outcome.splits)
  qed
  then show "admit_head env s = Inr (admitted env s)" and "wf_table (table (admitted env s))" by auto
qed

end
