(* ===== verification/Supervisor_Ticks.thy ===== *)
theory Supervisor_Ticks
  imports Supervisor_Phases
begin

text \<open>
  Whole admission ticks, and any number of supervisors over the shared tables. \<open>system_step\<close>
  interleaves ticks, restarts and stops of supervisors with asks and heartbeats at the granularity of
  whole ticks; the invariant (a well-formed table with at most one running request) is carried by the
  locale \<open>absorbing_fact\<close> of the prelude, with the settled rows as the absorbing fact.
\<close>

subsection \<open>One tick\<close>

definition gets_lease :: "tick_env \<Rightarrow> supervisor \<Rightarrow> bool" where
  "gets_lease env s = fst (hold_lease env s)"

lemma hold_lease_keeps:
  "table (snd (hold_lease env s)) = table s" "effects (snd (hold_lease env s)) = effects s"
  "children (snd (hold_lease env s)) = children s" "seen (snd (hold_lease env s)) = seen s"
  "start_failures (snd (hold_lease env s)) = start_failures s"
  "unreadable_reads (snd (hold_lease env s)) = unreadable_reads s"
  "sup_pid (snd (hold_lease env s)) = sup_pid s" "sup_host (snd (hold_lease env s)) = sup_host s"
  "holding (snd (hold_lease env s)) = gets_lease env s"
  by (simp_all add: hold_lease_def gets_lease_def Let_def split: prod.splits)

lemma gets_lease_row:
  "gets_lease env s \<Longrightarrow> \<exists>l. lease_db (snd (hold_lease env s)) = Some l \<and> holder_pid l = sup_pid s
     \<and> holder_host l = sup_host s \<and> expires_at l = tick_now env + LEASE_TTL_S"
  by (auto simp: gets_lease_def hold_lease_def lease_renew_def lease_claim_def held_by_def Let_def
      split: option.splits if_splits)

lemma verdict_lease [simp]: "verdict env (snd (hold_lease env s)) row = verdict env s row"
proof -
  have "exit_code env (snd (hold_lease env s)) = exit_code env s"
    by (simp add: exit_code_def hold_lease_keeps fun_eq_iff)
  then show ?thesis by (simp add: verdict_def row_exit_def failed_reads_def hold_lease_keeps)
qed

lemma settled_table_lease [simp]: "settled_table env (snd (hold_lease env s)) = settled_table env s"
  using hold_lease_keeps [of env s] by (simp add: settled_table_def)

lemma settle_effects_lease [simp]: "settle_effects env (snd (hold_lease env s)) = settle_effects env s"
  using hold_lease_keeps [of env s] by (simp add: settle_effects_def)

lemma tick_without_lease: "\<not> gets_lease env s \<Longrightarrow> tick_admission env s = Inr (snd (hold_lease env s))"
  by (cases "hold_lease env s") (simp add: tick_admission_def gets_lease_def)

definition announced :: "supervisor \<Rightarrow> effect list" where
  "announced s = map (\<lambda>req. Emitted (RunQueued (uid req) (kind req) (trigger req) False))
     (filter (\<lambda>req. uid req \<notin> seen s) (queued (table s)))"

lemma tick_with_lease:
  assumes "wf_table (table s)" and "gets_lease env s"
  shows "\<exists>s1. tick_admission env s = Inr (admitted env s1) \<and> table s1 = settled_table env s
    \<and> effects s1 = effects s @ settle_effects env s @ announced (s\<lparr>table := settled_table env s\<rparr>)
    \<and> lease_db s1 = lease_db (snd (hold_lease env s)) \<and> sup_pid s1 = sup_pid s \<and> sup_host s1 = sup_host s \<and> holding s1
    \<and> start_failures s1 = start_failures s |` {u. \<exists>row \<in> set (settled_table env s). uid row = u \<and> state row \<noteq> SETTLED}"
proof -
  let ?s = "snd (hold_lease env s)"
  have wf: "wf_table (table ?s)" using assms(1) by (simp add: hold_lease_keeps)
  obtain s1 where s1: "settle_ended env ?s = Inr s1" "table s1 = settled_table env ?s"
      "effects s1 = effects ?s @ settle_effects env ?s" "lease_db s1 = lease_db ?s" "sup_pid s1 = sup_pid ?s"
      "sup_host s1 = sup_host ?s" "holding s1 = holding ?s" "seen s1 = seen ?s" "start_failures s1 = start_failures ?s"
    using settle_ended_rows [OF wf] by blast
  have wf1: "wf_table (table (announce s1))"
    using settled_table_wf [OF wf, of env] by (simp add: announce_def Let_def s1(2))
  have live: "uid ` set (queued rows) \<union> uid ` set (running rows) = {u. \<exists>row \<in> set rows. uid row = u \<and> state row \<noteq> SETTLED}" for rows
  proof -
    have "state row \<noteq> SETTLED \<longleftrightarrow> state row = QUEUED \<or> state row = RUNNING" for row :: run_row
      by (cases "state row") auto
    then show ?thesis by (auto simp: set_queued set_running image_iff)
  qed
  have "tick_admission env s = Inr (admitted env (announce s1))"
    using s1(1) admit_head_admitted(1) [OF wf1] assms(2)
    by (cases "hold_lease env s") (simp add: tick_admission_def gets_lease_def)
  then show ?thesis
    using s1 assms(2)
    by (intro exI [of _ "announce s1"])
       (simp add: announce_def announced_def Let_def hold_lease_keeps live)
qed

subsection \<open>What a tick keeps\<close>

lemma announced_no_launch: "Launched u \<notin> set (announced s)"
  by (auto simp: announced_def)

lemma settle_effects_no_launch: "Launched u \<notin> set (settle_effects env s)"
proof -
  have "Launched u \<notin> set (verdict_effects v row)" for v row by (cases v) auto
  then show ?thesis by (auto simp: settle_effects_def)
qed

lemma head_waits_keeps:
  "lease_db (head_waits r s) = lease_db s" "sup_pid (head_waits r s) = sup_pid s" "sup_host (head_waits r s) = sup_host s"
  "holding (head_waits r s) = holding s" "children (head_waits r s) = children s"
  "start_failures (head_waits r s) = start_failures s"
  by (simp_all add: head_waits_def split: option.splits)

lemma admitted_keeps:
  "lease_db (admitted env s) = lease_db s" "sup_pid (admitted env s) = sup_pid s" "sup_host (admitted env s) = sup_host s"
  "holding (admitted env s) = holding s"
  by (simp_all add: admitted_def head_waits_keeps after_start_def Let_def split: option.splits start_outcome.splits)

lemma running_rows_count: "length (running_rows rows) = length (filter (\<lambda>row. state row = RUNNING) rows)"
  by (simp add: running_rows_def fifo_def)

lemma length_filter_map:
  "(\<And>x. x \<in> set xs \<Longrightarrow> P (f x) \<Longrightarrow> P x) \<Longrightarrow> length (filter P (map f xs)) \<le> length (filter P xs)"
  by (induction xs) fastforce+

lemma put_row_running:
  assumes "wf_table rows" and "row \<in> set rows" and "uid new = uid row" and "state new = RUNNING \<Longrightarrow> state row = RUNNING"
  shows "length (running_rows (put_row new rows)) \<le> length (running_rows rows)"
  unfolding running_rows_count put_row_map [OF assms(1-3)]
  by (rule length_filter_map) (use assms(4) in \<open>auto split: if_splits\<close>)

lemma settled_table_running: "length (running_rows (settled_table env s)) \<le> length (running_rows (table s))"
  unfolding running_rows_count settled_table_def
proof (rule length_filter_map)
  fix row assume "state (judged (tick_now env) (verdict env s row) row) = RUNNING"
  then show "state row = RUNNING" by (cases "verdict env s row") auto
qed

lemma put_row_first_running:
  assumes "wf_table rows" and "running_rows rows = []"
  shows "length (running_rows (put_row new rows)) \<le> 1"
proof -
  have "filter (\<lambda>row. state row = RUNNING) (put_row new rows) = filter (\<lambda>row. uid row = uid new \<and> state row = RUNNING) (put_row new rows)"
    using assms(2) by (intro filter_cong) (auto simp: running_rows_empty set_put_row split: if_splits)
  moreover have "distinct (map uid (put_row new rows))" using assms(1) by (simp add: wf_table_def)
  note sql_count_keyed [OF this, of "uid new" "\<lambda>row. state row = RUNNING"]
  ultimately show ?thesis by (auto simp: running_rows_count sql_count_def)
qed

lemma head_waits_running:
  assumes "wf_table (table s)"
  shows "length (running_rows (table (head_waits reason s))) \<le> length (running_rows (table s))"
proof (cases "head_row (table s)")
  case (Some row)
  with put_row_running [OF assms head_row_Some(1) [OF Some], of "row\<lparr>wait_reason := Some reason\<rparr>"]
  show ?thesis by (simp add: head_waits_def)
qed (simp add: head_waits_def)

lemma after_start_running:
  assumes "wf_table (table s)" and "running_rows (table s) = []"
  shows "length (running_rows (table (after_start env row s))) \<le> 1"
  using put_row_first_running [OF assms] by (simp add: after_start_def Let_def)

lemma admitted_running:
  assumes "wf_table (table s)" and "length (running_rows (table s)) \<le> 1"
  shows "length (running_rows (table (admitted env s))) \<le> 1"
proof -
  have starts: "length (running_rows (table (after_start env row s))) \<le> 1"
      "length (running_rows (table (head_waits BEHIND_RUN (after_start env row s)))) \<le> 1"
    if "running_rows (table s) = []" "head_row (table s) = Some row" for row
  proof -
    note row = head_row_Some(1,2) [OF that(2)]
    show first: "length (running_rows (table (after_start env row s))) \<le> 1"
      using after_start_running [OF assms(1) that(1)] .
    show "length (running_rows (table (head_waits BEHIND_RUN (after_start env row s)))) \<le> 1"
      using head_waits_running [OF after_start_wf [OF assms(1) row]] first order_trans by blast
  qed
  have waits: "length (running_rows (table (head_waits reason s))) \<le> 1" for reason
    using head_waits_running [OF assms(1)] assms(2) order_trans by blast
  show ?thesis
    using starts waits assms(2)
    by (auto simp: admitted_def split: option.splits start_outcome.splits)
qed

lemma tick_result:
  assumes "wf_table (table s)"
  shows "\<exists>s'. tick_admission env s = Inr s' \<and> wf_table (table s') \<and> (length (running_rows (table s)) \<le> 1 \<longrightarrow> length (running_rows (table s')) \<le> 1)
     \<and> holding s' = gets_lease env s"
proof (cases "gets_lease env s")
  case True
  obtain s1 where s1: "tick_admission env s = Inr (admitted env s1)" "table s1 = settled_table env s" "holding s1"
    using tick_with_lease [OF assms True] by blast
  have wf: "wf_table (table s1)" using assms s1(2) by (simp add: settled_table_wf)
  have "length (running_rows (table s1)) \<le> length (running_rows (table s))"
    using s1(2) settled_table_running by simp
  with admit_head_admitted(2) [OF wf] admitted_running [OF wf] s1(1,3) True
  show ?thesis by (auto simp: admitted_keeps intro: order_trans)
next
  case False
  with assms show ?thesis by (auto simp: tick_without_lease hold_lease_keeps)
qed

lemma stored_put_row:
  assumes "row \<in> set rows" and "uid row = uid new"
  shows "stored (put_row new rows) u = (if u = uid new then Some new else stored rows u)"
proof -
  have "stored (put_row new rows) u = map_option (\<lambda>row. if uid row = uid new then new else row) (stored rows u)"
    unfolding stored_def put_row_def by (rule sql_first_update) simp
  moreover have "stored rows (uid new) \<noteq> None"
    using assms by (auto simp: stored_def sql_first_None)
  ultimately show ?thesis by (cases "stored rows u") (auto dest: stored_uid)
qed

lemma stored_settled_table:
  "stored (settled_table env s) u = map_option (\<lambda>row. judged (tick_now env) (verdict env s row) row) (stored (table s) u)"
  using sql_first_update [of "\<lambda>_. True" uid "\<lambda>row. judged (tick_now env) (verdict env s row) row" u "table s"]
  by (simp add: stored_def settled_table_def sql_update_def)

lemma identity_updates [simp]:
  "identity_of (judged t v row) = identity_of row" "identity_of (started_row t sv row) = identity_of row"
  "identity_of (row\<lparr>wait_reason := w\<rparr>) = identity_of row"
proof -
  show "identity_of (judged t v row) = identity_of row" by (cases v) (simp_all add: identity_of_def)
  show "identity_of (started_row t sv row) = identity_of row" by (cases sv) (simp_all add: identity_of_def)
qed (simp add: identity_of_def)

lemma row_evolves_trans: "row_evolves a b \<Longrightarrow> row_evolves b c \<Longrightarrow> row_evolves a c"
  unfolding row_evolves_def by metis

lemma put_row_evolves:
  assumes "wf_table rows" and "row \<in> set rows" and "uid row = uid new" and "state row \<noteq> SETTLED" and "identity_of new = identity_of row"
  shows "row_evolves (stored rows u) (stored (put_row new rows) u)"
proof -
  have "stored rows (uid new) = Some row" using assms by (simp add: stored_iff)
  with assms show ?thesis by (auto simp: row_evolves_def stored_put_row)
qed

lemma head_waits_evolves:
  assumes "wf_table (table s)"
  shows "row_evolves (stored (table s) u) (stored (table (head_waits reason s)) u)"
proof (cases "head_row (table s)")
  case (Some row)
  with put_row_evolves [OF assms, of row "row\<lparr>wait_reason := Some reason\<rparr>" u] head_row_Some(1,2) [OF Some]
  show ?thesis by (simp add: head_waits_def)
qed (simp add: head_waits_def)

lemma after_start_evolves:
  assumes "wf_table (table s)" and "head_row (table s) = Some row"
  shows "row_evolves (stored (table s) u) (stored (table (after_start env row s)) u)"
  using put_row_evolves [OF assms(1), of row "started_row (tick_now env) (start_verdict env s (uid row)) row" u]
    head_row_Some(1,2) [OF assms(2)]
  by (simp add: after_start_def Let_def)

lemma admitted_evolves:
  assumes "wf_table (table s)"
  shows "row_evolves (stored (table s) u) (stored (table (admitted env s)) u)"
proof -
  have "row_evolves (stored (table s) u) (stored (table (head_waits BEHIND_RUN (after_start env row s))) u)"
    if "head_row (table s) = Some row" for row
    using after_start_evolves [OF assms that] head_waits_evolves [OF after_start_wf [OF assms head_row_Some(1,2) [OF that]]]
    by (rule row_evolves_trans)
  then show ?thesis
    using head_waits_evolves [OF assms] after_start_evolves [OF assms]
    by (auto simp: admitted_def split: option.splits start_outcome.splits)
qed

lemma settled_table_evolves: "row_evolves (stored (table s) u) (stored (settled_table env s) u)"
  by (auto simp: row_evolves_def stored_settled_table verdict_def)

lemma tick_evolves:
  assumes "wf_table (table s)" and "tick_admission env s = Inr s'"
  shows "row_evolves (stored (table s) u) (stored (table s') u)"
proof (cases "gets_lease env s")
  case True
  obtain s1 where s1: "tick_admission env s = Inr (admitted env s1)" "table s1 = settled_table env s"
    using tick_with_lease [OF assms(1) True] by blast
  have "wf_table (table s1)" using assms(1) s1(2) by (simp add: settled_table_wf)
  from admitted_evolves [OF this, of u env] settled_table_evolves [of s u env] s1 assms(2)
  show ?thesis by (auto intro: row_evolves_trans)
next
  case False
  with assms(2) show ?thesis by (auto simp: tick_without_lease hold_lease_keeps)
qed

subsection \<open>The whole system\<close>

text \<open>
  Any number of supervisors over the shared tables: a tick of one of them under any answers of its
  surroundings, a restart of one with any memory, a request asked, a worker's heartbeat.
\<close>

type_synonym system = "run_table \<times> lease_row \<times> (nat \<Rightarrow> supervisor)"

definition over :: "supervisor \<Rightarrow> run_table \<Rightarrow> lease_row \<Rightarrow> supervisor" where
  "over s rows l = s\<lparr>table := rows, lease_db := l\<rparr>"

inductive system_step :: "system \<Rightarrow> system \<Rightarrow> bool" where
  ticks: "tick_admission env (over (mem i) rows l) = Inr s'
    \<Longrightarrow> system_step (rows, l, mem) (table s', lease_db s', mem(i := s'))"
| restarts: "system_step (rows, l, mem) (rows, l, mem(i := s))"
| stops: "system_step (rows, l, mem) (rows, lease_db (stop (over (mem i) rows l)), mem(i := stop (over (mem i) rows l)))"
| asked: "insert_request (ask k trig opts who t promised fresh) rows = Inr rows'
    \<Longrightarrow> system_step (rows, l, mem) (rows', l, mem)"
| heartbeats: "touch_heartbeat u t rows = (ok, rows') \<Longrightarrow> system_step (rows, l, mem) (rows', l, mem)"

definition system_inv :: "system \<Rightarrow> bool" where
  "system_inv w \<longleftrightarrow> wf_table (fst w) \<and> length (running_rows (fst w)) \<le> 1"

definition settled_in :: "system \<Rightarrow> run_uid \<Rightarrow> run_row option" where
  "settled_in w u =
     (case stored (fst w) u of None \<Rightarrow> None | Some row \<Rightarrow> if state row = SETTLED then Some row else None)"

lemma insert_request_running:
  "insert_request (ask k trig opts who t promised fresh) rows = Inr rows' \<Longrightarrow>
     length (running_rows rows') = length (running_rows rows)"
  by (auto simp: insert_request_def running_rows_count ask_def split: if_splits)

lemma touch_heartbeat_running:
  "touch_heartbeat u t rows = (ok, rows') \<Longrightarrow> length (running_rows rows') \<le> length (running_rows rows)"
  by (auto simp: touch_heartbeat_def Let_def running_rows_count sql_update_def intro!: length_filter_map split: if_splits)

lemma system_step_inv:
  assumes "system_inv w" and "system_step w w'"
  shows "system_inv w'"
  using assms(2,1)
proof (cases rule: system_step.cases)
  case (ticks env mem i rows l s')
  with assms(1) tick_result [of "over (mem i) rows l" env] show ?thesis
    by (auto simp: system_inv_def over_def)
next
  case (asked k trig opts who t promised fresh rows rows' l mem)
  with assms(1) insert_request_running [OF asked(3)] show ?thesis
    by (auto simp: system_inv_def intro: insert_request_wf wf_ask)
next
  case (heartbeats u t rows ok rows' l mem)
  with assms(1) touch_heartbeat_running [OF heartbeats(3)] show ?thesis
    by (auto simp: system_inv_def intro: touch_heartbeat_wf)
qed (simp_all add: system_inv_def)

lemma system_step_evolves:
  assumes "system_inv w" and "system_step w w'"
  shows "row_evolves (stored (fst w) u) (stored (fst w') u)"
  using assms(2,1)
proof (cases rule: system_step.cases)
  case (ticks env mem i rows l s')
  with assms(1) tick_evolves [of "over (mem i) rows l" env s' u] show ?thesis
    by (simp add: system_inv_def over_def)
next
  case (asked k trig opts who t promised fresh rows rows' l mem)
  have "stored rows u = Some row \<Longrightarrow> u \<noteq> uid (ask k trig opts who t promised fresh)" for row
    using asked(3) by (auto simp: insert_request_def dest: stored_uid split: if_splits)
  with insert_request_stored [OF asked(3)] asked show ?thesis
    by (auto simp: row_evolves_def)
next
  case (heartbeats u' t rows ok rows' l mem)
  with touch_heartbeat_stored [of u' t rows ok rows' u] show ?thesis
    by (auto simp: row_evolves_def identity_of_def)
qed simp_all

interpretation supervised: absorbing_fact system_step system_inv settled_in
proof unfold_locales
  fix w w' u row
  assume "system_inv w" and "system_step w w'" and "settled_in w u = Some row"
  then show "settled_in w' u = Some row"
    using system_step_evolves [of w w' u]
    by (auto simp: settled_in_def row_evolves_def split: option.splits if_splits)
qed (rule system_step_inv)

subsection \<open>Who is started\<close>

lemma head_waits_effects:
  "\<exists>es. effects (head_waits r s) = effects s @ es \<and> (\<forall>u. Launched u \<notin> set es)"
  by (auto simp: head_waits_def split: option.splits)

lemma admitted_launches:
  "\<exists>es. effects (admitted env s) = effects s @ es \<and>
     ((\<forall>u. Launched u \<notin> set es) \<or>
      (\<exists>row p post. head_row (table s) = Some row \<and> running_rows (table s) = [] \<and> blocker env = None
         \<and> start_worker env (uid row) = Inr p
         \<and> es = [Saved (uid row) RUNNING, Launched (uid row)] @ post \<and> (\<forall>u. Launched u \<notin> set post)))"
proof -
  consider (waits) reason where "admitted env s = head_waits reason s"
    | (same) "admitted env s = s"
    | (starts) row where "running_rows (table s) = []" "blocker env = None" "head_row (table s) = Some row"
    by (cases "running_rows (table s) = []"; cases "blocker env"; cases "head_row (table s)")
       (auto simp: admitted_def)
  then show ?thesis
  proof cases
    case waits
    with head_waits_effects [of reason s] show ?thesis by auto
  next
    case same
    then show ?thesis by (intro exI [of _ "[]"]) simp
  next
    case starts
    show ?thesis
    proof (cases "start_worker env (uid row)")
      case (Inl f)
      with starts show ?thesis
        by (auto simp: admitted_def start_verdict_def after_start_def Let_def)
    next
      case (Inr p)
      obtain es where es: "effects (head_waits BEHIND_RUN (after_start env row s)) = effects (after_start env row s) @ es"
          "\<forall>u. Launched u \<notin> set es"
        using head_waits_effects by blast
      with starts Inr show ?thesis
        by (auto simp: admitted_def start_verdict_def after_start_def Let_def)
    qed
  qed
qed

subsection \<open>A worker that never starts\<close>

lemma insort_key_map:
  "(\<And>x. k (f x) = k x) \<Longrightarrow> insort_key k (f x) (map f xs) = map f (insort_key k x xs)"
  by (induction xs) simp_all

lemma sort_key_map: "(\<And>x. k (f x) = k x) \<Longrightarrow> sort_key k (map f xs) = map f (sort_key k xs)"
  by (induction xs) (simp_all add: insort_key_map)

lemma head_row_put_row:
  assumes "wf_table rows" and "head_row rows = Some row" and "uid new = uid row" and "state new = QUEUED" and "asked_at new = asked_at row"
  shows "head_row (put_row new rows) = Some new"
proof -
  note row = head_row_Some(1,2) [OF assms(2)]
  let ?f = "\<lambda>x. if x = row then new else x"
  have "filter (\<lambda>row. state row = QUEUED) (map ?f rows) = map ?f (filter (\<lambda>row. state row = QUEUED) rows)"
    unfolding filter_map by (intro arg_cong [of _ _ "map ?f"] filter_cong) (use row assms(4) in auto)
  then have "fifo (filter (\<lambda>row. state row = QUEUED) (put_row new rows))
      = map ?f (fifo (filter (\<lambda>row. state row = QUEUED) rows))"
    unfolding put_row_map [OF assms(1) row(1) assms(3)] fifo_def
    using assms(5) by (simp add: sort_key_map)
  then show ?thesis using assms(2) by (auto simp: head_row_def split: list.splits)
qed

lemma settled_table_idle: "running_rows (table s) = [] \<Longrightarrow> settled_table env s = table s"
  by (auto simp: settled_table_def running_rows_empty verdict_def intro!: map_idI)

definition keeps_lease :: "supervisor \<Rightarrow> bool" where
  "keeps_lease s \<longleftrightarrow> holding s \<and> held_by (sup_pid s) (sup_host s) (lease_db s)"

lemma keeps_lease_gets: "keeps_lease s \<Longrightarrow> gets_lease env s"
  by (simp add: keeps_lease_def gets_lease_def hold_lease_def lease_renew_def Let_def)

lemma tick_failed_start:
  assumes "wf_table (table s)" and "gets_lease env s" and "running_rows (table s) = []" and "blocker env = None"
    and "head_row (table s) = Some row" and "start_worker env (uid row) = Inl f"
  shows "\<exists>s'. tick_admission env s = Inr s' \<and> keeps_lease s'
    \<and> table s' = put_row (started_row (tick_now env) (start_verdict env s (uid row)) row) (table s)
    \<and> start_failures s' (uid row) =
        (if start_verdict env s (uid row) = Retry then Some (start_attempt s (uid row)) else None)"
proof -
  obtain s1 where s1: "tick_admission env s = Inr (admitted env s1)" "table s1 = table s"
      "lease_db s1 = lease_db (snd (hold_lease env s))" "sup_pid s1 = sup_pid s" "sup_host s1 = sup_host s" "holding s1"
      "start_failures s1 = start_failures s |` {u. \<exists>row \<in> set (table s). uid row = u \<and> state row \<noteq> SETTLED}"
    using tick_with_lease [OF assms(1,2)] unfolding settled_table_idle [OF assms(3)] by blast
  note row = head_row_Some(1,2) [OF assms(5)]
  have "start_failures s1 (uid row) = start_failures s (uid row)"
    using s1(7) row by (auto simp: restrict_map_def)
  then have same: "start_verdict env s1 (uid row) = start_verdict env s (uid row)"
      "start_attempt s1 (uid row) = start_attempt s (uid row)"
    by (simp_all add: start_verdict_def start_attempt_def cong: sum.case_cong)
  have "admitted env s1 = after_start env row s1"
    using assms(3-6) s1(2) by (simp add: admitted_def start_verdict_def)
  with s1 same gets_lease_row [OF assms(2)] show ?thesis
    by (auto simp: after_start_def Let_def keeps_lease_def held_by_def)
qed

definition fails_transiently :: "run_uid \<Rightarrow> tick_env \<Rightarrow> bool" where
  "fails_transiently u env \<longleftrightarrow> blocker env = None
     \<and> (case start_worker env u of Inl f \<Rightarrow> transient f | Inr _ \<Rightarrow> False)"

lemma failing_ticks:
  assumes "wf_table (table s)" and "keeps_lease s" and "running_rows (table s) = []"
    and "head_row (table s) = Some row" and "uid row = u"
    and "\<forall>env \<in> set envs. fails_transiently u env"
    and "start_attempt s u + length envs \<le> Suc MAX_WORKER_START_ATTEMPTS"
  shows "\<exists>s' row'. raising_fold tick_admission envs s = Inr s' \<and> stored (table s') u = Some row'
    \<and> (if start_attempt s u + length envs < Suc MAX_WORKER_START_ATTEMPTS \<or> envs = [] then state row' = QUEUED
       else state row' = SETTLED \<and> settlement row' = Some ABANDONED)"
  using assms
proof (induction envs arbitrary: s row)
  case Nil
  with head_row_Some(1,2) [OF Nil.prems(4)] show ?case by (auto simp: stored_iff)
next
  case (Cons env envs)
  note row = head_row_Some(1,2) [OF Cons.prems(4)]
  obtain f where f: "start_worker env u = Inl f" "transient f" "blocker env = None"
    using Cons.prems(6) by (auto simp: fails_transiently_def split: sum.splits)
  let ?v = "start_verdict env s u"
  let ?row = "started_row (tick_now env) ?v row"
  obtain s1 where s1: "tick_admission env s = Inr s1" "keeps_lease s1" "table s1 = put_row ?row (table s)"
      "start_failures s1 u = (if ?v = Retry then Some (start_attempt s u) else None)"
    using tick_failed_start [OF Cons.prems(1) keeps_lease_gets [OF Cons.prems(2)] Cons.prems(3) f(3) Cons.prems(4)]
      f(1) Cons.prems(5) by auto
  have st1: "stored (table s1) u = Some ?row"
    using stored_put_row [of row "table s" ?row u] row(1) Cons.prems(5) s1(3) by simp
  show ?case
  proof (cases "start_attempt s u < MAX_WORKER_START_ATTEMPTS")
    case True
    then have v: "?v = Retry" using f by (simp add: start_verdict_def)
    then have r: "?row = row\<lparr>wait_reason := Some WORKER_START_FAILED\<rparr>" by simp
    have "wf_request row" using Cons.prems(1) row(1) by (simp add: wf_table_def)
    then have wf1: "wf_table (table s1)"
      using Cons.prems(1) row(2) s1(3) by (auto intro!: put_row_wf started_row_wf)
    have idle: "running_rows (table s1) = []"
      using Cons.prems(3) row(2) r s1(3) by (auto simp: running_rows_empty set_put_row)
    have head: "head_row (table s1) = Some ?row"
      using head_row_put_row [OF Cons.prems(1,4), of ?row] row(2) r s1(3) by simp
    have att: "start_attempt s1 u = Suc (start_attempt s u)"
      using s1(4) v by (simp add: start_attempt_def)
    obtain s' row' where "raising_fold tick_admission envs s1 = Inr s'" "stored (table s') u = Some row'"
      "if start_attempt s1 u + length envs < Suc MAX_WORKER_START_ATTEMPTS \<or> envs = [] then state row' = QUEUED
       else state row' = SETTLED \<and> settlement row' = Some ABANDONED"
      using Cons.IH [OF wf1 s1(2) idle head] Cons.prems(5-7) att by auto
    with s1(1) att True show ?thesis by (auto split: if_splits)
  next
    case False
    then have "envs = []" "start_attempt s u = MAX_WORKER_START_ATTEMPTS"
      using Cons.prems(7) by (auto simp: le_Suc_eq) (cases envs; simp)+
    moreover have "?v = GiveUp" using False f by (simp add: start_verdict_def)
    ultimately show ?thesis using s1(1) st1 by simp
  qed
qed

subsection \<open>Concrete runs\<close>

definition demo_env :: "time \<Rightarrow> (run_uid \<Rightarrow> start_failure + int) \<Rightarrow> tick_env" where
  "demo_env t starts = \<lparr>tick_now = t, alive = (\<lambda>_. True), poll = (\<lambda>_. Some 0), poll_at_reap = (\<lambda>_. Some 0),
     start_worker = starts, row_outcome = (\<lambda>_. Outcome None), pause_file = False, pipeline_lock = False,
     scrape_lock = False, has_watcher = True\<rparr>"

definition demo_supervisor :: "run_table \<Rightarrow> supervisor" where
  "demo_supervisor rows = \<lparr>table = rows, lease_db = None, effects = [], sup_pid = 7, sup_host = ''nas'',
     holding = False, seen = {}, start_failures = Map.empty, unreadable_reads = Map.empty,
     sup_watcher = fresh_watcher_state, children = [41]\<rparr>"

lemma demo_sel [simp]:
  "table (demo_supervisor rows) = rows" "effects (demo_supervisor rows) = []"
  "start_failures (demo_supervisor rows) = Map.empty" "gets_lease env (demo_supervisor rows)"
  "tick_now (demo_env t starts) = t" "start_worker (demo_env t starts) = starts" "blocker (demo_env t starts) = None"
  "\<not> pause_file (demo_env t starts)" "\<not> pipeline_lock (demo_env t starts)" "\<not> scrape_lock (demo_env t starts)"
  "over (demo_supervisor rows) rows' None = demo_supervisor rows'"
  by (simp_all add: demo_supervisor_def demo_env_def blocker_def gets_lease_def hold_lease_def lease_claim_def over_def Let_def)

abbreviation one_asked :: run_table where "one_asked \<equiv> [demo_row ''u1'' default_options 3]"

lemma demo_asked [simp]:
  "wf_table one_asked" "running_rows one_asked = []" "head_row one_asked = Some (demo_row ''u1'' default_options 3)"
  "settled_table env (demo_supervisor one_asked) = one_asked"
  by (simp_all add: wf_table_def running_rows_empty head_row_def fifo_def settled_table_def verdict_def)

lemma put_row_single [simp]: "put_row new [row] = (if uid row = uid new then [new] else [row])"
  by (simp add: put_row_def sql_update_def)

lemma demo_ask_step: "system_step ([], l, mem) (one_asked, l, mem)"
proof -
  have "insert_request (ask PIPELINE WEB default_options ''ana'' 3 None ''u1'') [] = Inr one_asked"
    by (simp add: insert_request_def demo_row_def)
  then show ?thesis by (rule system_step.asked)
qed

text \<open>A run whose worker does not start for a lasting reason is abandoned at once.\<close>

lemma demo_abandoned:
  "\<exists>s'. tick_admission (demo_env 10 (\<lambda>_. Inl OtherFailure)) (demo_supervisor one_asked) = Inr s'
     \<and> table s' = [started_row 10 GiveUp (demo_row ''u1'' default_options 3)]"
proof -
  let ?env = "demo_env 10 (\<lambda>_. Inl OtherFailure)" and ?s = "demo_supervisor one_asked"
  have v: "start_verdict ?env ?s ''u1'' = GiveUp" by (simp add: start_verdict_def transient_def)
  have "wf_table (table ?s)" "gets_lease ?env ?s" "running_rows (table ?s) = []" "blocker ?env = None"
    "head_row (table ?s) = Some (demo_row ''u1'' default_options 3)"
    "start_worker ?env (uid (demo_row ''u1'' default_options 3)) = Inl OtherFailure" by simp_all
  from tick_failed_start [OF this] show ?thesis by (auto simp: v)
qed

lemma demo_reaches_settled:
  "\<exists>w. system_step\<^sup>*\<^sup>* ([], None, \<lambda>_. demo_supervisor []) w \<and> fst w = [started_row 10 GiveUp (demo_row ''u1'' default_options 3)]"
proof -
  let ?mem = "\<lambda>_::nat. demo_supervisor []" and ?env = "demo_env 10 (\<lambda>_. Inl OtherFailure)"
  obtain s' where s': "tick_admission ?env (demo_supervisor one_asked) = Inr s'"
    "table s' = [started_row 10 GiveUp (demo_row ''u1'' default_options 3)]"
    using demo_abandoned by blast
  have "system_step (one_asked, None, ?mem) (table s', lease_db s', ?mem(0 := s'))"
    by (rule system_step.ticks [where env = ?env and i = 0]) (simp add: s'(1))
  with demo_ask_step have "system_step\<^sup>*\<^sup>* ([], None, ?mem) (table s', lease_db s', ?mem(0 := s'))"
    by (meson converse_rtranclp_into_rtranclp r_into_rtranclp)
  with s'(2) show ?thesis by (intro exI [of _ "(table s', lease_db s', ?mem(0 := s'))"]) simp
qed

lemma demo_started:
  "\<exists>s'. tick_admission (demo_env 10 (\<lambda>_. Inr 9)) (demo_supervisor one_asked) = Inr s' \<and> Launched ''u1'' \<in> set (effects s')"
proof -
  let ?env = "demo_env 10 (\<lambda>_. Inr 9)" and ?s = "demo_supervisor one_asked"
  obtain s1 where s1: "tick_admission ?env ?s = Inr (admitted ?env s1)" "table s1 = one_asked"
    using tick_with_lease [of ?s ?env] by auto
  then have "Launched ''u1'' \<in> set (effects (admitted ?env s1))"
    by (auto simp: admitted_def start_verdict_def after_start_def Let_def head_waits_def split: option.splits)
  with s1(1) show ?thesis by blast
qed

subsection \<open>Properties\<close>

text \<open>C1: one run at a time: from an empty table, whatever supervisors tick, stop and restart, under whatever
  answers of the operating system and the other stores, and whatever is asked and beats meanwhile, the
  table stays well-formed, never holds two running requests, and no tick raises.\<close>

theorem at_most_one_run:
  assumes "system_step\<^sup>*\<^sup>* ([], None, mem) w"
  shows "wf_table (fst w) \<and> length (running (fst w)) \<le> 1
    \<and> (\<forall>i env. \<exists>s'. tick_admission env (over (snd (snd w) i) (fst w) (fst (snd w))) = Inr s')"
proof -
  have "system_inv w"
    using supervised.steps_inv [OF assms] by (simp add: system_inv_def wf_table_def running_rows_count)
  with tick_result [of "over (snd (snd w) i) (fst w) (fst (snd w))" for i] show ?thesis
    by (auto simp: system_inv_def running_running_rows over_def)
qed

theorem at_most_one_run_witness:
  "\<exists>w. system_step\<^sup>*\<^sup>* ([], None, \<lambda>_. demo_supervisor []) w \<and> length (fst w) = 1 \<and> length (running (fst w)) \<le> 1"
proof -
  obtain w where w: "system_step\<^sup>*\<^sup>* ([], None, \<lambda>_. demo_supervisor []) w"
    "fst w = [started_row 10 GiveUp (demo_row ''u1'' default_options 3)]"
    using demo_reaches_settled by blast
  from at_most_one_run [OF w(1)] have "length (running (fst w)) \<le> 1" by blast
  with w show ?thesis by (intro exI [of _ w]) simp
qed

text \<open>C23: a tick that starts a worker starts one only, for the request asked first of those queued, when no
  request runs after the settling and neither a pause nor a lock blocks; it holds the lease, and the
  request is durably \<open>RUNNING\<close> before its worker exists.\<close>

theorem only_the_head_is_started:
  assumes "wf_table (table s)" and "tick_admission env s = Inr s'" and "effects s' = effects s @ new"
    and "Launched u \<in> set new"
  shows "gets_lease env s \<and> \<not> pause_file env \<and> \<not> pipeline_lock env \<and> \<not> scrape_lock env
    \<and> running_rows (settled_table env s) = []
    \<and> (\<exists>row \<in> set (settled_table env s). uid row = u \<and> state row = QUEUED
         \<and> (\<forall>row' \<in> set (settled_table env s). state row' = QUEUED \<longrightarrow> asked_at row \<le> asked_at row'))
    \<and> (\<exists>pre post. new = pre @ [Saved u RUNNING, Launched u] @ post \<and> (\<forall>v. Launched v \<notin> set pre \<union> set post))"
proof (cases "gets_lease env s")
  case True
  let ?t = "settled_table env s"
  let ?pre = "settle_effects env s @ announced (s\<lparr>table := ?t\<rparr>)"
  obtain s1 where s1: "s' = admitted env s1" "table s1 = ?t" "effects s1 = effects s @ ?pre"
    using tick_with_lease [OF assms(1) True] assms(2) by auto
  have pre: "Launched v \<notin> set ?pre" for v
    by (simp add: settle_effects_no_launch announced_no_launch)
  obtain es where es: "effects s' = effects s1 @ es"
      "(\<forall>u. Launched u \<notin> set es) \<or>
       (\<exists>row p post. head_row ?t = Some row \<and> running_rows ?t = [] \<and> blocker env = None
         \<and> start_worker env (uid row) = Inr p
         \<and> es = [Saved (uid row) RUNNING, Launched (uid row)] @ post \<and> (\<forall>u. Launched u \<notin> set post))"
    using admitted_launches [of env s1] s1(1,2) by auto
  have new: "new = ?pre @ es" using assms(3) es(1) s1(3) by simp
  with assms(4) pre have "Launched u \<in> set es" by auto
  with es(2) obtain row post where row: "head_row ?t = Some row" "running_rows ?t = []" "blocker env = None"
      "es = [Saved (uid row) RUNNING, Launched (uid row)] @ post" "\<forall>u. Launched u \<notin> set post"
    by blast
  then have u: "u = uid row" using \<open>Launched u \<in> set es\<close> by auto
  have "\<exists>pre post. new = pre @ [Saved u RUNNING, Launched u] @ post \<and> (\<forall>v. Launched v \<notin> set pre \<union> set post)"
    using new row(4,5) u pre by (intro exI [of _ ?pre] exI [of _ post]) auto
  with True row(2) row(3) [unfolded blocker_None] head_row_Some [OF row(1)] u show ?thesis by blast
next
  case False
  with assms(2-4) show ?thesis by (auto simp: tick_without_lease hold_lease_keeps)
qed

theorem only_the_head_is_started_witness:
  "\<exists>s' pre post. tick_admission (demo_env 10 (\<lambda>_. Inr 9)) (demo_supervisor one_asked) = Inr s'
     \<and> effects s' = pre @ [Saved ''u1'' RUNNING, Launched ''u1''] @ post"
proof -
  let ?env = "demo_env 10 (\<lambda>_. Inr 9)"
  obtain s' where s': "tick_admission ?env (demo_supervisor one_asked) = Inr s'" "Launched ''u1'' \<in> set (effects s')"
    using demo_started by blast
  have "effects s' = effects (demo_supervisor one_asked) @ effects s'" by simp
  from only_the_head_is_started [OF _ s'(1) this s'(2)] s'(1) show ?thesis by auto
qed

text \<open>The queue moves: when the lease is held, nothing runs and nothing blocks, the tick starts the head
  of the queue and records its worker.\<close>

theorem free_head_is_started:
  assumes "wf_table (table s)" and "gets_lease env s"
    and "\<not> pause_file env" "\<not> pipeline_lock env" "\<not> scrape_lock env"
    and "running_rows (settled_table env s) = []" and "head_row (settled_table env s) = Some row"
    and "start_worker env (uid row) = Inr p"
  shows "\<exists>s' row'. tick_admission env s = Inr s' \<and> stored (table s') (uid row) = Some row'
    \<and> state row' = RUNNING \<and> worker_pid row' = Some p \<and> admitted_at row' = Some (tick_now env)
    \<and> heartbeat_at row' = Some (tick_now env) \<and> Launched (uid row) \<in> set (effects s') \<and> p \<in> set (children s')"
proof -
  note assms = assms(1,2) blocker_None [THEN iffD2, OF conjI, OF assms(3) conjI, OF assms(4,5)] assms(6-8)
  obtain s1 where s1: "tick_admission env s = Inr (admitted env s1)" "table s1 = settled_table env s"
    using tick_with_lease [OF assms(1,2)] by blast
  have wf: "wf_table (table s1)" using assms(1) s1(2) by (simp add: settled_table_wf)
  have head: "head_row (table s1) = Some row" using assms(5) s1(2) by simp
  note row = head_row_Some(1,2) [OF head]
  let ?s2 = "after_start env row s1"
  let ?row = "started_row (tick_now env) (Admitted p) row"
  have adm: "admitted env s1 = head_waits BEHIND_RUN ?s2"
    using assms(3-6) s1(2) by (simp add: admitted_def start_verdict_def)
  have t2: "table ?s2 = put_row ?row (table s1)"
    using assms(6) by (simp add: after_start_def start_verdict_def Let_def)
  have wf2: "wf_table (table ?s2)" using after_start_wf [OF wf row] .
  have st2: "stored (table ?s2) (uid row) = Some ?row"
    using stored_put_row [of row "table s1" ?row "uid row"] row t2 by simp
  have "stored (table (admitted env s1)) (uid row) = Some ?row"
  proof (cases "head_row (table ?s2)")
    case (Some next')
    have "next' \<in> set (table ?s2)" "state next' = QUEUED" using head_row_Some(1,2) [OF Some] .
    have "state ?row = RUNNING" by simp
    then have "uid next' \<noteq> uid row"
      using \<open>next' \<in> _\<close> \<open>state next' = _\<close> st2 stored_iff [OF wf2, of "uid row" next'] by fastforce
    with Some st2 \<open>next' \<in> set (table ?s2)\<close> show ?thesis
      by (simp add: adm head_waits_def stored_put_row)
  qed (use st2 in \<open>simp add: adm head_waits_def\<close>)
  moreover have "Launched (uid row) \<in> set (effects (admitted env s1)) \<and> p \<in> set (children (admitted env s1))"
    using assms(6) head_waits_effects [of BEHIND_RUN ?s2]
    by (auto simp: adm head_waits_keeps after_start_def start_verdict_def Let_def)
  ultimately show ?thesis using s1(1) by auto
qed

theorem free_head_is_started_witness:
  "\<exists>s' row'. tick_admission (demo_env 10 (\<lambda>_. Inr 9)) (demo_supervisor one_asked) = Inr s'
     \<and> stored (table s') ''u1'' = Some row' \<and> state row' = RUNNING \<and> worker_pid row' = Some 9"
  using free_head_is_started [of "demo_supervisor one_asked" "demo_env 10 (\<lambda>_. Inr 9)" "demo_row ''u1'' default_options 3" 9]
  by auto

text \<open>C22: the settling phase writes exactly what the verdict says of each running request and touches no
  other row: exit code 3 sends it back to the queue, another exit code settles it by its value, a
  silent worker (gone, or no heartbeat for 90 s) is settled by its history row, sent back when it
  never took the lock, or left alone while the history cannot be read, 29 times at most.\<close>

theorem settle_phase_judges_each_run:
  assumes "wf_table (table s)"
  shows "\<exists>s'. settle_ended env s = Inr s' \<and> table s' = settled_table env s
    \<and> effects s' = effects s @ settle_effects env s"
  using settle_ended_rows [OF assms] by blast

theorem settle_phase_judges_each_run_witness:
  "let row = started_row 5 (Admitted 41) (demo_row ''u1'' default_options 3)
   in \<exists>s' row'. settle_ended (demo_env 10 (\<lambda>_. Inr 9)) (demo_supervisor [row]) = Inr s'
        \<and> table s' = [row'] \<and> state row' = SETTLED \<and> settlement row' = Some SUCCESS"
proof -
  let ?row = "started_row 5 (Admitted 41) (demo_row ''u1'' default_options 3)"
  let ?env = "demo_env 10 (\<lambda>_. Inr 9)"
  have "wf_table (table (demo_supervisor [?row]))"
    using started_row_wf [of "demo_row ''u1'' default_options 3"] by (simp add: wf_table_def del: started_row.simps)
  moreover have "verdict ?env (demo_supervisor [?row]) ?row = Finish SUCCESS"
    by (simp add: verdict_def row_exit_def exit_code_def demo_supervisor_def demo_env_def LOST_LOCK_EXIT_def settlement_of_def)
  ultimately show ?thesis
    using settle_phase_judges_each_run [of "demo_supervisor [?row]" ?env] by (auto simp: settled_table_def Let_def)
qed

text \<open>A tick either ends holding the lease, whose row then names this supervisor and expires 60 s after
  the tick began, or it has written no request, started no worker and published nothing.\<close>

theorem tick_acts_only_under_the_lease:
  assumes "wf_table (table s)"
  shows "\<exists>s'. tick_admission env s = Inr s'
    \<and> (if holding s'
       then \<exists>l. lease_db s' = Some l \<and> holder_pid l = sup_pid s \<and> holder_host l = sup_host s
              \<and> expires_at l = tick_now env + LEASE_TTL_S
       else table s' = table s \<and> effects s' = effects s \<and> children s' = children s)"
proof (cases "gets_lease env s")
  case True
  with tick_with_lease [OF assms True] gets_lease_row [OF True] show ?thesis
    by (auto simp: admitted_keeps)
next
  case False
  then show ?thesis by (simp add: tick_without_lease hold_lease_keeps)
qed

theorem tick_acts_only_under_the_lease_witness:
  "\<exists>s' l. tick_admission (demo_env 10 (\<lambda>_. Inr 41)) (demo_supervisor one_asked) = Inr s'
     \<and> lease_db s' = Some l \<and> holder_pid l = 7 \<and> expires_at l = 70"
proof -
  let ?env = "demo_env 10 (\<lambda>_. Inr 41)"
  obtain s' where s': "tick_admission ?env (demo_supervisor one_asked) = Inr s'" "holding s'"
    using tick_result [of "demo_supervisor one_asked" ?env] by auto
  with tick_acts_only_under_the_lease [of "demo_supervisor one_asked" ?env] show ?thesis
    by (auto simp: LEASE_TTL_S_def demo_supervisor_def)
qed

text \<open>A settled request is never run again: no tick of any supervisor, no restart, no ask and no
  heartbeat changes its row.\<close>

theorem settled_runs_stay_settled:
  assumes "system_step\<^sup>*\<^sup>* ([], None, mem) w" and "system_step\<^sup>*\<^sup>* w w'"
    and "row \<in> set (fst w)" and "state row = SETTLED"
  shows "row \<in> set (fst w')"
proof -
  have w: "system_inv w"
    using supervised.steps_inv [OF assms(1)] by (simp add: system_inv_def wf_table_def running_rows_count)
  then have "settled_in w (uid row) = Some row"
    using assms(3,4) stored_iff [of "fst w" "uid row" row] by (simp add: settled_in_def system_inv_def)
  from supervised.steps_fact [OF assms(2) w this] show ?thesis
    by (auto simp: settled_in_def dest: stored_uid split: option.splits if_splits)
qed

theorem settled_runs_stay_settled_witness:
  "\<exists>w w'. system_step\<^sup>*\<^sup>* ([], None, \<lambda>_. demo_supervisor []) w \<and> system_step w w'
     \<and> started_row 10 GiveUp (demo_row ''u1'' default_options 3) \<in> set (fst w')"
proof -
  let ?row = "started_row 10 GiveUp (demo_row ''u1'' default_options 3)"
  obtain w where w: "system_step\<^sup>*\<^sup>* ([], None, \<lambda>_. demo_supervisor []) w" "fst w = [?row]"
    using demo_reaches_settled by blast
  obtain rows l mem where ws: "w = (rows, l, mem)" by (cases w)
  obtain ok rows' where beat: "touch_heartbeat ''u1'' 99 rows = (ok, rows')" by (meson surj_pair)
  then have step: "system_step w (rows', l, mem)" unfolding ws by (rule system_step.heartbeats)
  then have "system_step\<^sup>*\<^sup>* w (rows', l, mem)" by blast
  from settled_runs_stay_settled [OF w(1) this, of ?row] w(2) have "?row \<in> set (fst (rows', l, mem))" by simp
  with w(1) step show ?thesis by blast
qed

text \<open>A worker that cannot start for want of resources is retried on the next tick, at most five times:
  the request is still queued after each of the first four failures and abandoned at the fifth, so
  that the queue behind it moves again.\<close>

theorem failing_start_is_bounded:
  assumes "wf_table (table s)" and "keeps_lease s" and "running_rows (table s) = []"
    and "head_row (table s) = Some row" and "start_failures s (uid row) = None"
    and "\<forall>env \<in> set envs. fails_transiently (uid row) env" and "length envs \<le> MAX_WORKER_START_ATTEMPTS"
  shows "\<exists>s' row'. raising_fold tick_admission envs s = Inr s' \<and> stored (table s') (uid row) = Some row'
    \<and> (if length envs < MAX_WORKER_START_ATTEMPTS then state row' = QUEUED
       else state row' = SETTLED \<and> settlement row' = Some ABANDONED)"
proof -
  have "start_attempt s (uid row) = 1" using assms(5) by (simp add: start_attempt_def)
  with failing_ticks [OF assms(1-4) refl assms(6)] assms(7) show ?thesis
    by (auto simp: MAX_WORKER_START_ATTEMPTS_def split: if_splits)
qed

theorem failing_start_is_bounded_witness:
  "let s = (demo_supervisor one_asked)\<lparr>holding := True,
       lease_db := Some \<lparr>holder_pid = 7, holder_host = ''nas'', taken_at = 0, renewed_at = 0, expires_at = LEASE_TTL_S\<rparr>\<rparr>
   in \<exists>s' row'. raising_fold tick_admission (replicate 5 (demo_env 10 (\<lambda>_. Inl (OSErr EMFILE)))) s = Inr s'
        \<and> stored (table s') ''u1'' = Some row' \<and> settlement row' = Some ABANDONED"
proof -
  let ?s = "(demo_supervisor one_asked)\<lparr>holding := True,
       lease_db := Some \<lparr>holder_pid = 7, holder_host = ''nas'', taken_at = 0, renewed_at = 0, expires_at = LEASE_TTL_S\<rparr>\<rparr>"
  let ?env = "demo_env 10 (\<lambda>_. Inl (OSErr EMFILE))"
  have "keeps_lease ?s" by (simp add: keeps_lease_def held_by_def demo_supervisor_def)
  moreover have "\<forall>env \<in> set (replicate 5 ?env). fails_transiently ''u1'' env"
    by (simp add: fails_transiently_def transient_def)
  ultimately show ?thesis
    using failing_start_is_bounded [of ?s "demo_row ''u1'' default_options 3" "replicate 5 ?env"]
    by (auto simp: MAX_WORKER_START_ATTEMPTS_def Let_def)
qed

end
