(* ===== verification/Watch_Cycle.thy ===== *)
theory Watch_Cycle
  imports Supervisor_Phases
begin

text \<open>
  The supervisor's other tick (\<open>tick_watcher\<close>, \<open>_watch_cycle\<close>, \<open>_ask\<close> of
  \<open>app/supervisor/supervisor.py\<close>): one watcher cycle, whose \<open>FIRE_RUN\<close> becomes a request asked by
  the system's own account. What the torrent client answers (\<open>poll\<close>), the cross-seed dispatch and the
  files are the record \<open>watch_env\<close>. The advisory publication of the pending run is not modelled.
\<close>

text \<open>\<open>RunTrigger(reason)\<close>\<close>

definition run_trigger_of :: "string \<Rightarrow> run_trigger option" where
  "run_trigger_of = map_of
     [(''completion'', COMPLETION), (''safety_net'', SAFETY_NET), (''manual'', MANUAL), (''web'', WEB),
      (''cli'', CLI), (''scrape-resolve'', SCRAPE_RESOLVE)]"

record watch_env =
  polled :: "watcher_input option"
  paused_file :: bool
  watch_cfg :: watch_config
  watcher_present :: bool
  cross_seeded :: "watcher_output \<Rightarrow> watcher_state \<Rightarrow> watcher_state"
  watch_actor :: actor
  watch_time :: time
  watch_uid :: run_uid

text \<open>\<open>_ask\<close>: whether the run was taken. A refusal of the right is caught; any other exception is not.
  After a manual trigger is taken, the trigger file is removed (not modelled).\<close>

definition watch_ask :: "watch_env \<Rightarrow> string \<Rightarrow> run_table \<Rightarrow> py_error + (bool \<times> run_table)" where
  "watch_ask env reason rows =
     (case run_trigger_of reason of
        None \<Rightarrow> Inr (False, rows)
      | Some trig \<Rightarrow>
          (case ask_run (watch_actor env) trig default_options None (watch_time env) (watch_uid env) rows of
             Inl (AppRefusal Forbidden code) \<Rightarrow> Inr (False, rows)
           | Inl e \<Rightarrow> Inl e
           | Inr (asked, rows') \<Rightarrow> Inr (True, rows')))"

definition queue_busy :: "run_queue_view \<Rightarrow> bool" where
  "queue_busy view \<longleftrightarrow> view_running view \<noteq> None \<or> view_queued view \<noteq> []"

text \<open>The error that leaves the cycle, if any, and the supervisor after it: the state is restored
  before an exception goes on.\<close>

definition watch_cycle :: "watch_env \<Rightarrow> supervisor \<Rightarrow> py_error option \<times> supervisor" where
  "watch_cycle env s =
     (case polled env of
        None \<Rightarrow> (None, s)
      | Some polled' \<Rightarrow>
          (let busy = queue_busy (queue_view (table s) (lease_db s) (watch_time env));
               inp = polled'\<lparr>pipeline_lock_held := busy\<rparr>;
               before = sup_watcher s;
               out = evaluate (watch_cfg env) inp before
           in case decision out of
                FIRE_RUN \<Rightarrow>
                  (case watch_ask env (run_reason out) (table s) of
                     Inl e \<Rightarrow> (Some e, s\<lparr>sup_watcher := before\<rparr>)
                   | Inr (taken, rows) \<Rightarrow>
                       (None, s\<lparr>table := rows, sup_watcher := (if taken then new_state out else before)\<rparr>))
              | FIRE_CROSS_SEED \<Rightarrow> (None, s\<lparr>sup_watcher := cross_seeded env out (new_state out)\<rparr>)
              | _ \<Rightarrow> (None, s\<lparr>sup_watcher := new_state out\<rparr>)))"

definition tick_watcher :: "watch_env \<Rightarrow> supervisor \<Rightarrow> py_error option \<times> supervisor" where
  "tick_watcher env s =
     (if \<not> holding s \<or> \<not> watcher_present env \<or> \<not> enabled (watch_cfg env) then (None, s)
      else if paused_file env then (None, s)
      else watch_cycle env s)"

subsection \<open>What a cycle does\<close>

lemma fire_not_held:
  "decision (evaluate cfg inp st) = FIRE_RUN \<Longrightarrow> \<not> pipeline_lock_held inp"
  by (auto simp: evaluate_def evaluate_work_def evaluate_safety_net_def requeue_def watcher_output_of_def Let_def
      split: if_splits option.splits)

lemma fire_reason:
  "decision (evaluate cfg inp st) = FIRE_RUN \<Longrightarrow>
     run_reason (evaluate cfg inp st) \<in> {''completion'', ''safety_net'', ''manual''}"
  by (auto simp: evaluate_def evaluate_work_def evaluate_safety_net_def requeue_def watcher_output_of_def
      fire_run_def Let_def split: if_splits option.splits)

definition idle_queue :: "run_table \<Rightarrow> bool" where
  "idle_queue rows \<longleftrightarrow> (\<forall>row \<in> set rows. state row = SETTLED)"

lemma busy_iff: "queue_busy (queue_view rows l t) \<longleftrightarrow> \<not> idle_queue rows"
proof -
  have "state row = SETTLED \<longleftrightarrow> state row \<noteq> QUEUED \<and> state row \<noteq> RUNNING" for row :: run_row
    by (cases "state row") auto
  moreover have "queued rows = [] \<longleftrightarrow> (\<forall>row \<in> set rows. state row \<noteq> QUEUED)"
    using set_queued [of rows] by (auto simp: set_empty [symmetric] simp del: set_empty)
  ultimately show ?thesis
    using running_empty [of rows] by (auto simp: queue_busy_def queue_view_def idle_queue_def split: list.splits)
qed

lemma idle_ask:
  assumes "wf_table rows" and "idle_queue rows" and "u \<notin> uid ` set rows"
  shows "ask_run a trig default_options None t u rows =
    (case authorise (Some a) (AnyOf {PIPELINE_CONTROL}) of
       Inl e \<Rightarrow> Inl e
     | Inr _ \<Rightarrow> Inr (\<lparr>answer_uid = u, answer_state = Queued, joined = False\<rparr>,
         rows @ [row_values (ask PIPELINE trig default_options (actor_id a) t None u)]))"
proof -
  have req: "map_of OPERATION_RIGHTS ''runPipeline'' = Some (AnyOf {PIPELINE_CONTROL})"
    by (simp add: OPERATION_RIGHTS_def holds_right_def)
  have no_item: "item_id default_options = None" by (simp add: default_options_def)
  have none: "filter (\<lambda>row. state row = QUEUED \<and> Q row) rows = []" for Q
    using assms(2) by (auto simp: idle_queue_def filter_empty_conv)
  have "queued_like PIPELINE (options_to_json default_options) None rows = None"
    by (simp add: queued_like_def fifo_def none)
  then have "joinable (ask PIPELINE trig default_options (actor_id a) t None u) False rows = Inr None"
    using pipeline_joinable [OF no_item] by simp
  moreover have "insert_request (ask PIPELINE trig default_options (actor_id a) t None u) rows =
      Inr (rows @ [row_values (ask PIPELINE trig default_options (actor_id a) t None u)])"
    using assms(3) by (auto simp: insert_request_def)
  ultimately show ?thesis
    by (simp add: ask_run_def requires_def req answer_ask_def raising_bind_def split: sum.splits)
qed

lemma pilot_refusal:
  "authorise (Some a) (AnyOf {PIPELINE_CONTROL}) = Inl e \<Longrightarrow> \<exists>code. e = AppRefusal Forbidden code"
  by (auto simp: authorise_any_of_def split: if_splits)

lemma idle_watch_ask:
  assumes "wf_table rows" and "idle_queue rows" and "watch_uid env \<notin> uid ` set rows"
    and "reason \<in> {''completion'', ''safety_net'', ''manual''}"
  shows "\<exists>taken rows'. watch_ask env reason rows = Inr (taken, rows')
    \<and> (if taken then \<exists>trig \<in> {COMPLETION, SAFETY_NET, MANUAL}. rows' = rows @
          [row_values (ask PIPELINE trig default_options (actor_id (watch_actor env)) (watch_time env) None (watch_uid env))]
       else rows' = rows)"
proof -
  obtain trig where trig: "run_trigger_of reason = Some trig" "trig \<in> {COMPLETION, SAFETY_NET, MANUAL}"
    using assms(4) by (auto simp: run_trigger_of_def)
  note ask = idle_ask [OF assms(1-3), of "watch_actor env" trig "watch_time env"]
  show ?thesis
  proof (cases "authorise (Some (watch_actor env)) (AnyOf {PIPELINE_CONTROL})")
    case (Inl e)
    then obtain code where "e = AppRefusal Forbidden code" using pilot_refusal by blast
    with ask Inl have "ask_run (watch_actor env) trig default_options None (watch_time env) (watch_uid env) rows
        = Inl (AppRefusal Forbidden code)" by simp
    then have "watch_ask env reason rows = Inr (False, rows)" by (simp add: watch_ask_def trig(1))
    then show ?thesis by (intro exI) (rule conjI, assumption, simp)
  next
    case (Inr u)
    with ask have "ask_run (watch_actor env) trig default_options None (watch_time env) (watch_uid env) rows =
        Inr (\<lparr>answer_uid = watch_uid env, answer_state = Queued, joined = False\<rparr>, rows @
        [row_values (ask PIPELINE trig default_options (actor_id (watch_actor env)) (watch_time env) None (watch_uid env))])"
      by simp
    then have "watch_ask env reason rows = Inr (True, rows @
        [row_values (ask PIPELINE trig default_options (actor_id (watch_actor env)) (watch_time env) None (watch_uid env))])"
      by (simp add: watch_ask_def trig(1))
    with trig(2) show ?thesis by (intro exI) (rule conjI, assumption, auto)
  qed
qed

text \<open>The watcher adds at most one run per cycle, asked in the system's name, only under the
  lease and only when no request waits or runs; no exception leaves the cycle; and a fire that put no
  run in the queue leaves the watcher's state as it was, so that it fires again.\<close>

theorem watch_cycle_asks_only_when_idle:
  assumes "wf_table (table s)" and "watch_uid env \<notin> uid ` set (table s)"
  shows "\<exists>s'. tick_watcher env s = (None, s') \<and> wf_table (table s') \<and>
    (if table s' = table s
     then (\<exists>inp. polled env = Some inp \<and> decision (evaluate (watch_cfg env)
             (inp\<lparr>pipeline_lock_held := \<not> idle_queue (table s)\<rparr>) (sup_watcher s)) = FIRE_RUN)
          \<longrightarrow> sup_watcher s' = sup_watcher s
     else holding s \<and> idle_queue (table s)
       \<and> (\<exists>trig \<in> {COMPLETION, SAFETY_NET, MANUAL}. table s' = table s @
            [row_values (ask PIPELINE trig default_options (actor_id (watch_actor env)) (watch_time env) None (watch_uid env))]))"
proof (cases "holding s \<and> watcher_present env \<and> enabled (watch_cfg env) \<and> \<not> paused_file env \<and> polled env \<noteq> None")
  case False
  then show ?thesis using assms(1)
    by (auto simp: tick_watcher_def watch_cycle_def)
next
  case True
  then obtain p where p: "polled env = Some p" by blast
  let ?inp = "p\<lparr>pipeline_lock_held := \<not> idle_queue (table s)\<rparr>"
  let ?out = "evaluate (watch_cfg env) ?inp (sup_watcher s)"
  show ?thesis
  proof (cases "decision ?out = FIRE_RUN")
    case False
    have "\<exists>st. tick_watcher env s = (None, s\<lparr>sup_watcher := st\<rparr>)"
      using True p False by (cases "decision ?out") (auto simp: tick_watcher_def watch_cycle_def Let_def busy_iff)
    then obtain st where st: "tick_watcher env s = (None, s\<lparr>sup_watcher := st\<rparr>)" by blast
    show ?thesis by (rule exI [of _ "s\<lparr>sup_watcher := st\<rparr>"]) (simp add: st assms(1) p False)
  next
    case fire: True
    have idle: "idle_queue (table s)" using fire_not_held [OF fire] by simp
    obtain taken rows' where ask: "watch_ask env (run_reason ?out) (table s) = Inr (taken, rows')"
      "if taken then \<exists>trig \<in> {COMPLETION, SAFETY_NET, MANUAL}. rows' = table s @
          [row_values (ask PIPELINE trig default_options (actor_id (watch_actor env)) (watch_time env) None (watch_uid env))]
       else rows' = table s"
      using idle_watch_ask [OF assms(1) idle assms(2) fire_reason [OF fire]] by blast
    have wf: "wf_table rows'"
    proof (cases taken)
      case True
      with ask(2) obtain trig where "rows' = table s @
          [row_values (ask PIPELINE trig default_options (actor_id (watch_actor env)) (watch_time env) None (watch_uid env))]"
        by auto
      then show ?thesis using assms wf_ask by (auto simp: wf_table_def)
    qed (use ask(2) assms(1) in auto)
    have "tick_watcher env s = (None, s\<lparr>table := rows', sup_watcher := (if taken then new_state ?out else sup_watcher s)\<rparr>)"
      using True p fire ask(1) by (simp add: tick_watcher_def watch_cycle_def Let_def busy_iff)
    with ask(2) wf idle True show ?thesis by (cases taken) auto
  qed
qed

theorem watch_cycle_asks_only_when_idle_witness:
  "\<exists>s'. tick_watcher \<lparr>polled = Some ((demo_input {} 50)\<lparr>sentinel_present := True\<rparr>), paused_file = False,
       watch_cfg = demo_config, watcher_present = True, cross_seeded = (\<lambda>_ st. st), watch_actor = demo_pilot,
       watch_time = 50, watch_uid = ''u2''\<rparr>
     \<lparr>table = [], lease_db = None, effects = [], sup_pid = 7, sup_host = ''nas'', holding = True, seen = {},
      start_failures = Map.empty, unreadable_reads = Map.empty, sup_watcher = fresh_watcher_state, children = []\<rparr>
     = (None, s') \<and> length (table s') = 1"
proof -
  let ?env = "\<lparr>polled = Some ((demo_input {} 50)\<lparr>sentinel_present := True\<rparr>), paused_file = False,
       watch_cfg = demo_config, watcher_present = True, cross_seeded = (\<lambda>_ st. st), watch_actor = demo_pilot,
       watch_time = 50, watch_uid = ''u2''\<rparr>"
  let ?s = "\<lparr>table = [], lease_db = None, effects = [], sup_pid = 7, sup_host = ''nas'', holding = True, seen = {},
      start_failures = Map.empty, unreadable_reads = Map.empty, sup_watcher = fresh_watcher_state, children = []\<rparr>"
  have idle: "idle_queue []" by (simp add: idle_queue_def)
  have wf: "wf_table []" by (simp add: wf_table_def)
  have ask: "ask_run demo_pilot MANUAL default_options None 50 ''u2'' [] =
      Inr (\<lparr>answer_uid = ''u2'', answer_state = Queued, joined = False\<rparr>,
        [row_values (ask PIPELINE MANUAL default_options (actor_id demo_pilot) 50 None ''u2'')])"
    using idle_ask [OF wf idle, of "''u2''" demo_pilot MANUAL 50] demo_pilot_authorised by simp
  have "table (snd (tick_watcher ?env ?s)) \<noteq> []"
    by (simp add: tick_watcher_def watch_cycle_def Let_def queue_busy_def queue_view_def running_def queued_def fifo_def
        demo_config_def demo_input_def evaluate_def seed_safety_net_def fire_run_def watch_ask_def
        run_trigger_of_def ask fresh_watcher_state_def)
  with watch_cycle_asks_only_when_idle [of ?s ?env] wf show ?thesis by (auto split: if_splits)
qed

end
