(* ===== verification/Sessions.thy ===== *)
theory Sessions
  imports Rights
begin

text \<open>
  The sessions (\<open>app/accounts/session_repository.py\<close>, \<open>app/accounts/sessions.py\<close>,
  \<open>app/accounts/own_sessions.py\<close>): the rows of the \<open>session\<close> table and the service's memory of the
  values a renewal replaced. SHA-256 is the parameter \<open>hash_of\<close>, a new cookie value
  (\<open>token_urlsafe\<close>) an argument, and the accounts and roles a session's actor is read from are the
  parameter \<open>actor_of\<close>. Each public method runs as one step.
\<close>

definition SESSION_RENEWAL_INTERVAL_S :: time where "SESSION_RENEWAL_INTERVAL_S = 3600"

definition SESSION_ROTATION_GRACE_S :: time where "SESSION_ROTATION_GRACE_S = 60"

record session_row =
  session_id :: int
  session_account :: string
  token_hash :: string
  session_created_at :: time
  session_expires_at :: time
  last_seen_at :: time
  revoked_at :: "time option"
  user_agent :: "string option"

type_synonym session_table = "session_row list"

subsection \<open>The repository\<close>

text \<open>An \<open>INTEGER PRIMARY KEY\<close> is one more than the largest; \<open>token_hash\<close> is \<open>UNIQUE\<close>.\<close>

definition next_session_id :: "session_table \<Rightarrow> int" where
  "next_session_id rows = fold max (map session_id rows) 0 + 1"

definition insert_session :: "session_row \<Rightarrow> session_table \<Rightarrow> py_error + session_table" where
  "insert_session row rows =
     (if \<exists>r \<in> set rows. token_hash r = token_hash row then Inl IntegrityError
      else Inr (rows @ [row\<lparr>session_id := next_session_id rows\<rparr>]))"

definition session_by_hash :: "string \<Rightarrow> session_table \<Rightarrow> session_row option" where
  "session_by_hash h rows = sql_first (\<lambda>r. token_hash r = h) rows"

definition session_of :: "int \<Rightarrow> session_table \<Rightarrow> session_row option" where
  "session_of i rows = sql_first (\<lambda>r. session_id r = i) rows"

text \<open>\<open>ORDER BY created_at DESC, id DESC\<close>\<close>

definition live_sessions_of :: "string \<Rightarrow> time \<Rightarrow> session_table \<Rightarrow> session_row list" where
  "live_sessions_of account t rows =
     rev (sort_key session_created_at (sort_key session_id
       (filter (\<lambda>r. session_account r = account \<and> revoked_at r = None \<and> session_expires_at r > t) rows)))"

definition renew_session :: "int \<Rightarrow> time \<Rightarrow> string \<Rightarrow> time \<Rightarrow> time \<Rightarrow> session_table \<Rightarrow> bool \<times> session_table" where
  "renew_session i seen h expires t rows =
     (let P = (\<lambda>r. session_id r = i \<and> last_seen_at r = seen \<and> revoked_at r = None)
      in (sql_count P rows = 1,
          sql_update P (\<lambda>r. r\<lparr>token_hash := h, session_expires_at := expires, last_seen_at := t\<rparr>) rows))"

definition revoke_session :: "int \<Rightarrow> time \<Rightarrow> session_table \<Rightarrow> session_table" where
  "revoke_session i t rows = sql_update (\<lambda>r. session_id r = i) (\<lambda>r. r\<lparr>revoked_at := Some t\<rparr>) rows"

definition revoke_sessions_of :: "string \<Rightarrow> int option \<Rightarrow> time \<Rightarrow> session_table \<Rightarrow> nat \<times> session_table" where
  "revoke_sessions_of account except t rows =
     (let P = (\<lambda>r. session_account r = account \<and> revoked_at r = None \<and> Some (session_id r) \<noteq> except)
      in (sql_count P rows, sql_update P (\<lambda>r. r\<lparr>revoked_at := Some t\<rparr>) rows))"

subsection \<open>The service\<close>

record replaced =
  replaced_session :: int
  replaced_at :: time
  until :: "time option"

record sessions =
  session_rows :: session_table
  replaced_values :: "string \<rightharpoonup> replaced"
  awaiting :: "int \<rightharpoonup> string list"

definition open_session :: "(string \<Rightarrow> string) \<Rightarrow> time \<Rightarrow> string \<Rightarrow> string option \<Rightarrow> time \<Rightarrow> string \<Rightarrow> sessions
    \<Rightarrow> py_error + (string \<times> sessions)" where
  "open_session hash_of idle account ua t fresh s =
     raising_bind (insert_session
       \<lparr>session_id = 0, session_account = account, token_hash = hash_of fresh, session_created_at = t,
        session_expires_at = t + idle, last_seen_at = t, revoked_at = None, user_agent = ua\<rparr> (session_rows s))
       (\<lambda>rows. Inr (fresh, s\<lparr>session_rows := rows\<rparr>))"

text \<open>The replaced values of a session get their end when its current value comes back.\<close>

definition end_replaced :: "time \<Rightarrow> string list \<Rightarrow> (string \<rightharpoonup> replaced) \<Rightarrow> (string \<rightharpoonup> replaced)" where
  "end_replaced t hashes m = (\<lambda>h. if h \<in> set hashes
     then map_option (\<lambda>r. if until r = None then r\<lparr>until := Some (t + SESSION_ROTATION_GRACE_S)\<rparr> else r) (m h) else m h)"

definition confirm :: "int \<Rightarrow> time \<Rightarrow> sessions \<Rightarrow> sessions" where
  "confirm i t s =
     s\<lparr>replaced_values := end_replaced t (case awaiting s i of None \<Rightarrow> [] | Some hs \<Rightarrow> hs) (replaced_values s),
       awaiting := (awaiting s)(i := None)\<rparr>"

definition replaced_session_of :: "string \<Rightarrow> time \<Rightarrow> sessions \<Rightarrow> (session_row \<times> bool) option \<times> sessions" where
  "replaced_session_of h t s =
     (case replaced_values s h of
        None \<Rightarrow> (None, s)
      | Some r \<Rightarrow>
          if (case until r of None \<Rightarrow> False | Some e \<Rightarrow> t \<ge> e)
          then (None, s\<lparr>replaced_values := (replaced_values s)(h := None)\<rparr>)
          else (case session_of (replaced_session r) (session_rows s) of
                  None \<Rightarrow> (None, s) | Some row \<Rightarrow> (Some (row, until r = None), s)))"

definition live_session :: "(string \<Rightarrow> string) \<Rightarrow> string \<Rightarrow> time \<Rightarrow> sessions \<Rightarrow> (session_row \<times> bool) option \<times> sessions" where
  "live_session hash_of token t s =
     (let (found, s') = (case session_by_hash (hash_of token) (session_rows s) of
            Some row \<Rightarrow> (Some (row, True), confirm (session_id row) t s)
          | None \<Rightarrow> replaced_session_of (hash_of token) t s)
      in (case found of
            None \<Rightarrow> (None, s')
          | Some (row, renewable) \<Rightarrow>
              if revoked_at row \<noteq> None \<or> t \<ge> session_expires_at row then (None, s') else (Some (row, renewable), s')))"

definition is_stale_value :: "time \<Rightarrow> time \<Rightarrow> replaced \<Rightarrow> bool" where
  "is_stale_value idle t r \<longleftrightarrow> (case until r of None \<Rightarrow> False | Some e \<Rightarrow> t \<ge> e) \<or> t - replaced_at r \<ge> idle"

definition forget_stale :: "time \<Rightarrow> time \<Rightarrow> sessions \<Rightarrow> sessions" where
  "forget_stale idle t s =
     (let stale = (\<lambda>h. case replaced_values s h of None \<Rightarrow> False | Some r \<Rightarrow> is_stale_value idle t r)
      in s\<lparr>replaced_values := (\<lambda>h. if stale h then None else replaced_values s h),
           awaiting := (\<lambda>i. case awaiting s i of None \<Rightarrow> None | Some hs \<Rightarrow>
             (let hs' = filter (\<lambda>h. \<not> (stale h \<and> (case replaced_values s h of None \<Rightarrow> False
                    | Some r \<Rightarrow> replaced_session r = i))) hs
              in if hs' = [] then None else Some hs'))\<rparr>)"

definition renew :: "(string \<Rightarrow> string) \<Rightarrow> time \<Rightarrow> session_row \<Rightarrow> time \<Rightarrow> string \<Rightarrow> sessions \<Rightarrow> string option \<times> sessions" where
  "renew hash_of idle row t fresh s =
     (let (ok, rows) = renew_session (session_id row) (last_seen_at row) (hash_of fresh) (t + idle) t (session_rows s)
      in if \<not> ok then (None, s\<lparr>session_rows := rows\<rparr>)
         else let s = forget_stale idle t (s\<lparr>session_rows := rows\<rparr>); h = token_hash row; i = session_id row
              in (Some fresh,
                  if replaced_values s h = None
                  then s\<lparr>replaced_values := (replaced_values s)(h \<mapsto> \<lparr>replaced_session = i, replaced_at = t, until = None\<rparr>),
                         awaiting := (awaiting s)(i \<mapsto> (case awaiting s i of None \<Rightarrow> [] | Some hs \<Rightarrow> hs) @ [h])\<rparr>
                  else s))"

definition resolve :: "(string \<Rightarrow> string) \<Rightarrow> (string \<Rightarrow> 'a option) \<Rightarrow> string \<Rightarrow> time \<Rightarrow> sessions \<Rightarrow> 'a option \<times> sessions" where
  "resolve hash_of actor_of token t s =
     (let (found, s') = live_session hash_of token t s
      in (case found of None \<Rightarrow> None | Some (row, _) \<Rightarrow> actor_of (session_account row), s'))"

text \<open>\<open>use\<close>: the actor and the renewed value, if any.\<close>

definition use_session :: "(string \<Rightarrow> string) \<Rightarrow> (string \<Rightarrow> 'a option) \<Rightarrow> time \<Rightarrow> string \<Rightarrow> time \<Rightarrow> string \<Rightarrow> sessions
    \<Rightarrow> ('a \<times> string option) option \<times> sessions" where
  "use_session hash_of actor_of idle token t fresh s =
     (let (found, s) = live_session hash_of token t s
      in case found of
           None \<Rightarrow> (None, s)
         | Some (row, renewable) \<Rightarrow>
             (case actor_of (session_account row) of
                None \<Rightarrow> (None, s)
              | Some a \<Rightarrow>
                  if renewable \<and> t - last_seen_at row \<ge> SESSION_RENEWAL_INTERVAL_S
                  then (let (renewed, s) = renew hash_of idle row t fresh s in (Some (a, renewed), s))
                  else (Some (a, None), s)))"

definition live_session_id :: "(string \<Rightarrow> string) \<Rightarrow> string \<Rightarrow> time \<Rightarrow> sessions \<Rightarrow> int option \<times> sessions" where
  "live_session_id hash_of token t s =
     (let (found, s') = live_session hash_of token t s in (map_option (session_id \<circ> fst) found, s'))"

definition close_session :: "(string \<Rightarrow> string) \<Rightarrow> string \<Rightarrow> time \<Rightarrow> sessions \<Rightarrow> sessions" where
  "close_session hash_of token t s =
     (let (found, s') = live_session hash_of token t s
      in case found of None \<Rightarrow> s'
         | Some (row, _) \<Rightarrow> s'\<lparr>session_rows := revoke_session (session_id row) t (session_rows s')\<rparr>)"

subsection \<open>Ending one's own sessions\<close>

text \<open>The refusal of the rights comes before the body; the memory the body's reading changed stays
  changed when a later refusal is raised.\<close>

definition revoke_own_session :: "(string \<Rightarrow> string) \<Rightarrow> actor \<Rightarrow> string \<Rightarrow> int \<Rightarrow> time \<Rightarrow> sessions
    \<Rightarrow> (py_error + unit) \<times> sessions" where
  "revoke_own_session hash_of a token i t s =
     (case requires ''revokeOwnSession'' a (\<lambda>_. Inr ()) of
        Inl e \<Rightarrow> (Inl e, s)
      | Inr _ \<Rightarrow>
          (let (current, s) = live_session_id hash_of token t s
           in case session_of i (session_rows s) of
                None \<Rightarrow> (Inl (AppRefusal NotFound SESSION_UNKNOWN), s)
              | Some row \<Rightarrow>
                  if \<not> (revoked_at row = None \<and> t < session_expires_at row) \<or> session_account row \<noteq> actor_id a
                  then (Inl (AppRefusal NotFound SESSION_UNKNOWN), s)
                  else if Some (session_id row) = current then (Inl (AppRefusal Conflict SESSION_CURRENT), s)
                  else (Inr (), s\<lparr>session_rows := revoke_session i t (session_rows s)\<rparr>)))"

definition read_own_sessions :: "(string \<Rightarrow> string) \<Rightarrow> actor \<Rightarrow> string \<Rightarrow> time \<Rightarrow> sessions
    \<Rightarrow> (py_error + (session_row \<times> bool) list) \<times> sessions" where
  "read_own_sessions hash_of a token t s =
     (case requires ''readOwnSessions'' a (\<lambda>_. Inr ()) of
        Inl e \<Rightarrow> (Inl e, s)
      | Inr _ \<Rightarrow>
          (let (current, s) = live_session_id hash_of token t s
           in (Inr (map (\<lambda>row. (row, Some (session_id row) = current))
                 (live_sessions_of (actor_id a) t (session_rows s))), s)))"

subsection \<open>Requests over time\<close>

text \<open>
  Every use of the service, by any client. The second component of the world is the set of every hash
  a value ever had: a new value's hash is none of them. \<open>silent\<close> holds sessions whose current value
  nobody presents, and every call is before the horizon.
\<close>

type_synonym session_world = "sessions \<times> string set"

definition presents :: "(string \<Rightarrow> string) \<Rightarrow> int set \<Rightarrow> string \<Rightarrow> sessions \<Rightarrow> bool" where
  "presents hash_of silent token s \<longleftrightarrow>
     (\<forall>row. session_by_hash (hash_of token) (session_rows s) = Some row \<longrightarrow> session_id row \<notin> silent)"

inductive session_step :: "(string \<Rightarrow> string) \<Rightarrow> (string \<Rightarrow> actor option) \<Rightarrow> time \<Rightarrow> int set \<Rightarrow> time
    \<Rightarrow> session_world \<Rightarrow> session_world \<Rightarrow> bool" for hash_of actor_of idle silent horizon where
  opens: "open_session hash_of idle account ua t fresh s = Inr (token, s') \<Longrightarrow> hash_of fresh \<notin> used
    \<Longrightarrow> session_step hash_of actor_of idle silent horizon (s, used) (s', insert (hash_of fresh) used)"
| reads: "presents hash_of silent token s
    \<Longrightarrow> session_step hash_of actor_of idle silent horizon (s, used) (snd (live_session hash_of token t s), used)"
| uses: "presents hash_of silent token s \<Longrightarrow> hash_of fresh \<notin> used \<Longrightarrow> t < horizon
    \<Longrightarrow> session_step hash_of actor_of idle silent horizon (s, used)
          (snd (use_session hash_of actor_of idle token t fresh s), insert (hash_of fresh) used)"
| closes: "presents hash_of silent token s
    \<Longrightarrow> session_step hash_of actor_of idle silent horizon (s, used) (close_session hash_of token t s, used)"
| revokes: "presents hash_of silent token s
    \<Longrightarrow> session_step hash_of actor_of idle silent horizon (s, used) (snd (revoke_own_session hash_of a token i t s), used)"
| revokes_all: "session_step hash_of actor_of idle silent horizon (s, used)
    (s\<lparr>session_rows := snd (revoke_sessions_of account except t (session_rows s))\<rparr>, used)"

definition hashes :: "sessions \<Rightarrow> string set" where
  "hashes s = token_hash ` set (session_rows s)"

definition rows_ok :: "session_table \<Rightarrow> string set \<Rightarrow> bool" where
  "rows_ok rows used \<longleftrightarrow> distinct (map session_id rows) \<and> distinct (map token_hash rows) \<and> token_hash ` set rows \<subseteq> used"

definition values_ok :: "sessions \<Rightarrow> string set \<Rightarrow> bool" where
  "values_ok s used \<longleftrightarrow> dom (replaced_values s) \<subseteq> used \<and> dom (replaced_values s) \<inter> hashes s = {}"

text \<open>A value is on the list of a session exactly while it awaits that session's new value.\<close>

definition listed :: "sessions \<Rightarrow> int \<Rightarrow> string \<Rightarrow> bool" where
  "listed s i h \<longleftrightarrow> (\<exists>hs. awaiting s i = Some hs \<and> h \<in> set hs)"

definition awaited :: "sessions \<Rightarrow> bool" where
  "awaited s \<longleftrightarrow> (\<forall>i h. listed s i h \<longleftrightarrow>
     (\<exists>r. replaced_values s h = Some r \<and> until r = None \<and> replaced_session r = i))"

lemma awaitedD: "awaited s \<Longrightarrow> listed s i h \<longleftrightarrow>
    (\<exists>r. replaced_values s h = Some r \<and> until r = None \<and> replaced_session r = i)"
  by (simp add: awaited_def)

definition session_inv :: "session_world \<Rightarrow> bool" where
  "session_inv w \<longleftrightarrow> rows_ok (session_rows (fst w)) (snd w) \<and> values_ok (fst w) (snd w) \<and> awaited (fst w)"

lemma session_invI:
  "rows_ok (session_rows s) used \<Longrightarrow> values_ok s used \<Longrightarrow> awaited s \<Longrightarrow> session_inv (s, used)"
  by (simp add: session_inv_def)

lemma confirm_values:
  "replaced_values (confirm i t s) h = (case replaced_values s h of None \<Rightarrow> None | Some r \<Rightarrow>
     Some (if until r = None \<and> listed s i h
           then r\<lparr>until := Some (t + SESSION_ROTATION_GRACE_S)\<rparr> else r))"
  by (auto simp: confirm_def end_replaced_def listed_def split: option.splits)

lemma confirm_sel [simp]:
  "session_rows (confirm i t s) = session_rows s" "awaiting (confirm i t s) = (awaiting s)(i := None)"
  "hashes (confirm i t s) = hashes s" "dom (replaced_values (confirm i t s)) = dom (replaced_values s)"
  by (auto simp: confirm_def hashes_def end_replaced_def dom_def split: if_splits)

lemma confirm_awaited:
  assumes "awaited s" shows "awaited (confirm i t s)"
  unfolding awaited_def
proof (intro allI)
  fix j h
  have "listed (confirm i t s) j h \<longleftrightarrow> j \<noteq> i \<and> listed s j h" by (auto simp: listed_def)
  then show "listed (confirm i t s) j h \<longleftrightarrow>
      (\<exists>r. replaced_values (confirm i t s) h = Some r \<and> until r = None \<and> replaced_session r = j)"
    using awaitedD [OF assms, of _ h] by (auto simp: confirm_values split: option.splits if_splits)
qed

lemma confirm_inv: "session_inv (s, used) \<Longrightarrow> session_inv (confirm i t s, used)"
  by (simp add: session_inv_def values_ok_def confirm_awaited)

lemma drop_value_inv:
  assumes "session_inv (s, used)" and "replaced_values s h = Some r" and "until r = Some e"
  shows "session_inv (s\<lparr>replaced_values := (replaced_values s)(h := None)\<rparr>, used)"
proof -
  have "awaited (s\<lparr>replaced_values := (replaced_values s)(h := None)\<rparr>)"
    unfolding awaited_def
  proof (intro allI)
    fix i k
    have "listed (s\<lparr>replaced_values := (replaced_values s)(h := None)\<rparr>) i k \<longleftrightarrow> listed s i k" by (simp add: listed_def)
    then show "listed (s\<lparr>replaced_values := (replaced_values s)(h := None)\<rparr>) i k \<longleftrightarrow>
        (\<exists>r. replaced_values (s\<lparr>replaced_values := (replaced_values s)(h := None)\<rparr>) k = Some r
          \<and> until r = None \<and> replaced_session r = i)"
      using assms awaitedD [of s i k] by (auto simp: session_inv_def)
  qed
  with assms(1) show ?thesis by (auto simp: session_inv_def values_ok_def hashes_def)
qed

lemma live_session_state:
  "snd (live_session hash_of token t s) =
     (case session_by_hash (hash_of token) (session_rows s) of
        Some row \<Rightarrow> confirm (session_id row) t s
      | None \<Rightarrow> snd (replaced_session_of (hash_of token) t s))"
  by (auto simp: live_session_def Let_def split: option.splits prod.splits)

lemma live_session_inv: "session_inv (s, used) \<Longrightarrow> session_inv (snd (live_session hash_of token t s), used)"
  by (auto simp: live_session_state replaced_session_of_def confirm_inv intro: drop_value_inv split: option.splits)

lemma live_session_rows [simp]: "session_rows (snd (live_session hash_of token t s)) = session_rows s"
  by (auto simp: live_session_state replaced_session_of_def split: option.splits)

lemma live_session_found:
  assumes "fst (live_session hash_of token t s) = Some (row, renewable)"
  shows "row \<in> set (session_rows s)" and "revoked_at row = None" and "t < session_expires_at row"
    and "token_hash row = hash_of token \<or> (\<exists>r. replaced_values s (hash_of token) = Some r
      \<and> session_id row = replaced_session r \<and> (renewable \<longleftrightarrow> until r = None)
      \<and> (\<forall>e. until r = Some e \<longrightarrow> t < e))"
  using assms
  by (auto simp: live_session_def Let_def replaced_session_of_def session_by_hash_def session_of_def
      split: option.splits prod.splits if_splits dest!: sql_first_SomeD)

subsection \<open>A renewal\<close>

lemma forget_stale_sel [simp]:
  "session_rows (forget_stale idle t s) = session_rows s" "hashes (forget_stale idle t s) = hashes s"
  by (simp_all add: forget_stale_def Let_def hashes_def)

lemma forget_stale_values:
  "replaced_values (forget_stale idle t s) h = (case replaced_values s h of None \<Rightarrow> None
     | Some r \<Rightarrow> if is_stale_value idle t r then None else Some r)"
  by (auto simp: forget_stale_def Let_def split: option.splits)

lemma forget_stale_awaited:
  assumes "awaited s" shows "awaited (forget_stale idle t s)"
  unfolding awaited_def
proof (intro allI)
  fix i h
  have "listed (forget_stale idle t s) i h \<longleftrightarrow> listed s i h \<and> (\<forall>r. replaced_values s h = Some r \<longrightarrow>
      \<not> (is_stale_value idle t r \<and> replaced_session r = i))"
    by (auto simp: listed_def forget_stale_def Let_def filter_empty_conv split: option.splits if_splits)
  then show "listed (forget_stale idle t s) i h \<longleftrightarrow>
      (\<exists>r. replaced_values (forget_stale idle t s) h = Some r \<and> until r = None \<and> replaced_session r = i)"
    using awaitedD [OF assms, of i h] by (auto simp: forget_stale_values split: option.splits if_splits)
qed

lemma renew_session_rows:
  assumes "distinct (map session_id rows)" and "row \<in> set rows" and "revoked_at row = None"
  shows "renew_session (session_id row) (last_seen_at row) h expires t rows =
    (True, map (\<lambda>r. if r = row then r\<lparr>token_hash := h, session_expires_at := expires, last_seen_at := t\<rparr> else r) rows)"
proof -
  have only: "session_id r = session_id row \<longleftrightarrow> r = row" if "r \<in> set rows" for r
    using keyed_unique [OF assms(1) that assms(2)] by blast
  have "sql_count (\<lambda>r. session_id r = session_id row \<and> last_seen_at r = last_seen_at row \<and> revoked_at r = None) rows = 1"
    using sql_count_keyed [OF assms(1), of "session_id row"
        "\<lambda>r. last_seen_at r = last_seen_at row \<and> revoked_at r = None"] assms(2,3) by auto
  with only assms(3) show ?thesis
    by (auto simp: renew_session_def Let_def sql_update_def)
qed

lemma forget_stale_rows:
  "forget_stale idle t (s\<lparr>session_rows := rows\<rparr>) = (forget_stale idle t s)\<lparr>session_rows := rows\<rparr>"
  by (simp add: forget_stale_def Let_def cong: if_cong option.case_cong)

text \<open>What a renewal of the row found leaves: the row has the new value, the old one awaits it.\<close>

lemma renew_cases:
  assumes "session_inv (s, used)" and "row \<in> set (session_rows s)" and "revoked_at row = None"
  shows "\<exists>s'. renew hash_of idle row t fresh s = (Some fresh, s')
    \<and> session_rows s' = map (\<lambda>r. if r = row then r\<lparr>token_hash := hash_of fresh, session_expires_at := t + idle,
          last_seen_at := t\<rparr> else r) (session_rows s)
    \<and> replaced_values s' = (replaced_values (forget_stale idle t s))
        (token_hash row \<mapsto> \<lparr>replaced_session = session_id row, replaced_at = t, until = None\<rparr>)
    \<and> awaiting s' = (awaiting (forget_stale idle t s))(session_id row \<mapsto>
        (case awaiting (forget_stale idle t s) (session_id row) of None \<Rightarrow> [] | Some hs \<Rightarrow> hs) @ [token_hash row])"
proof -
  have d: "distinct (map session_id (session_rows s))" using assms(1) by (simp add: session_inv_def rows_ok_def)
  let ?rows = "map (\<lambda>r. if r = row then r\<lparr>token_hash := hash_of fresh, session_expires_at := t + idle,
          last_seen_at := t\<rparr> else r) (session_rows s)"
  have "token_hash row \<in> hashes s" using assms(2) by (simp add: hashes_def)
  then have "replaced_values s (token_hash row) = None"
    using assms(1) by (auto simp: session_inv_def values_ok_def)
  then have "replaced_values (forget_stale idle t s) (token_hash row) = None" by (simp add: forget_stale_values)
  then show ?thesis
    using renew_session_rows [OF d assms(2,3), of "hash_of fresh" "t + idle" t]
    by (simp add: renew_def Let_def forget_stale_rows)
qed

lemma renew_inv:
  assumes "session_inv (s, used)" and "row \<in> set (session_rows s)" and "revoked_at row = None" and "hash_of fresh \<notin> used"
  shows "session_inv (snd (renew hash_of idle row t fresh s), insert (hash_of fresh) used)"
proof -
  obtain s' where s': "renew hash_of idle row t fresh s = (Some fresh, s')"
    "session_rows s' = map (\<lambda>r. if r = row then r\<lparr>token_hash := hash_of fresh, session_expires_at := t + idle,
          last_seen_at := t\<rparr> else r) (session_rows s)"
    "replaced_values s' = (replaced_values (forget_stale idle t s))
        (token_hash row \<mapsto> \<lparr>replaced_session = session_id row, replaced_at = t, until = None\<rparr>)"
    "awaiting s' = (awaiting (forget_stale idle t s))(session_id row \<mapsto>
        (case awaiting (forget_stale idle t s) (session_id row) of None \<Rightarrow> [] | Some hs \<Rightarrow> hs) @ [token_hash row])"
    using renew_cases [OF assms(1-3), of hash_of idle t fresh] by blast
  have rows: "distinct (map session_id (session_rows s))" "distinct (map token_hash (session_rows s))"
    "token_hash ` set (session_rows s) \<subseteq> used"
    using assms(1) by (simp_all add: session_inv_def rows_ok_def)
  have "rows_ok (session_rows s') (insert (hash_of fresh) used)"
  proof -
    have ids: "map session_id (session_rows s') = map session_id (session_rows s)" by (simp add: s'(2))
    have "token_hash ` set (session_rows s') \<subseteq> insert (hash_of fresh) used" using rows(3) by (auto simp: s'(2))
    moreover have "distinct (map token_hash (session_rows s'))"
      unfolding s'(2) map_map
    proof (subst distinct_map, intro conjI inj_onI)
      show "distinct (session_rows s)" using rows(1) by (simp add: distinct_map)
      fix a b assume ab: "a \<in> set (session_rows s)" "b \<in> set (session_rows s)"
        "(token_hash \<circ> (\<lambda>r. if r = row then r\<lparr>token_hash := hash_of fresh, session_expires_at := t + idle,
          last_seen_at := t\<rparr> else r)) a = (token_hash \<circ> (\<lambda>r. if r = row then r\<lparr>token_hash := hash_of fresh,
          session_expires_at := t + idle, last_seen_at := t\<rparr> else r)) b"
      have "token_hash a \<noteq> hash_of fresh" "token_hash b \<noteq> hash_of fresh"
        using ab(1,2) rows(3) assms(4) by auto
      with ab show "a = b" using keyed_unique [OF rows(2) ab(1,2)] by (auto split: if_splits)
    qed
    ultimately show ?thesis using rows(1) by (simp add: rows_ok_def ids)
  qed
  moreover have "values_ok s' (insert (hash_of fresh) used)"
  proof -
    have old: "dom (replaced_values s) \<subseteq> used" "dom (replaced_values s) \<inter> hashes s = {}"
      using assms(1) by (simp_all add: session_inv_def values_ok_def)
    have a: "dom (replaced_values s') \<subseteq> insert (token_hash row) (dom (replaced_values s))"
      by (auto simp: s'(3) forget_stale_values split: option.splits if_splits)
    have b: "hashes s' \<subseteq> insert (hash_of fresh) (hashes s - {token_hash row})"
      using keyed_unique [OF rows(2) _ assms(2)] by (auto simp: hashes_def s'(2))
    have c: "token_hash row \<in> used" using rows(3) assms(2) by auto
    have "x \<in> used \<and> x \<notin> hashes s'" if "x \<in> dom (replaced_values s')" for x
    proof -
      have x: "x = token_hash row \<or> x \<in> dom (replaced_values s)" using subsetD [OF a that] by (simp only: insert_iff)
      have used: "x \<in> used"
      proof (cases "x = token_hash row")
        case False
        with x have "x \<in> dom (replaced_values s)" by simp
        with old(1) show ?thesis by (rule subsetD)
      qed (simp add: c)
      have "x \<notin> hashes s'"
      proof
        assume "x \<in> hashes s'"
        from subsetD [OF b this] used assms(4) have h: "x \<in> hashes s" "x \<noteq> token_hash row" by auto
        with x have "x \<in> dom (replaced_values s)" by simp
        with h(1) old(2) show False by (simp add: disjoint_iff)
      qed
      with used show ?thesis by simp
    qed
    then show ?thesis unfolding values_ok_def subset_iff disjoint_iff by blast
  qed
  moreover have "awaited s'"
    unfolding awaited_def
  proof (intro allI)
    fix i h
    let ?f = "forget_stale idle t s"
    have f: "awaited ?f" using assms(1) by (simp add: session_inv_def forget_stale_awaited)
    have "token_hash row \<in> hashes s" using assms(2) by (simp add: hashes_def)
    then have new: "replaced_values ?f (token_hash row) = None"
      using assms(1) by (auto simp: session_inv_def values_ok_def forget_stale_values split: option.splits)
    have "listed s' i h \<longleftrightarrow> listed ?f i h \<or> (i = session_id row \<and> h = token_hash row)"
      by (cases "awaiting ?f (session_id row)") (auto simp: listed_def s'(4))
    then show "listed s' i h \<longleftrightarrow> (\<exists>r. replaced_values s' h = Some r \<and> until r = None \<and> replaced_session r = i)"
      using awaitedD [OF f, of i h] new by (auto simp: s'(3))
  qed
  ultimately show ?thesis using s'(1) by (simp add: session_invI)
qed


subsection \<open>The steps\<close>

lemma update_rows_inv:
  assumes "session_inv (s, used)" and "map session_id rows = map session_id (session_rows s)"
    and "map token_hash rows = map token_hash (session_rows s)"
  shows "session_inv (s\<lparr>session_rows := rows\<rparr>, used)"
proof -
  have "token_hash ` set rows = token_hash ` set (session_rows s)" using assms(3) by (metis set_map)
  with assms show ?thesis by (simp add: session_inv_def rows_ok_def values_ok_def hashes_def awaited_def listed_def)
qed

lemma revoke_session_keys [simp]:
  "map session_id (revoke_session i t rows) = map session_id rows"
  "map token_hash (revoke_session i t rows) = map token_hash rows"
  "map session_id (snd (revoke_sessions_of account except t rows)) = map session_id rows"
  "map token_hash (snd (revoke_sessions_of account except t rows)) = map token_hash rows"
  by (simp_all add: revoke_session_def revoke_sessions_of_def Let_def)

lemma fold_max_ge: "x \<in> set xs \<Longrightarrow> x \<le> fold max xs (m :: int)" "m \<le> fold max xs (m :: int)"
proof -
  have ge: "m \<le> fold max xs m" for xs and m :: int
  proof (induction xs arbitrary: m)
    case (Cons y ys)
    from Cons.IH [of "max y m"] show ?case by simp
  qed simp
  then show "m \<le> fold max xs m" .
  show "x \<in> set xs \<Longrightarrow> x \<le> fold max xs m"
  proof (induction xs arbitrary: m)
    case (Cons y ys)
    with ge [of "max y m" ys] show ?case by (cases "x = y") auto
  qed simp
qed

lemma open_session_inv:
  assumes "session_inv (s, used)" and "open_session hash_of idle account ua t fresh s = Inr (token, s')"
    and "hash_of fresh \<notin> used"
  shows "session_inv (s', insert (hash_of fresh) used)"
proof -
  let ?row = "\<lparr>session_id = next_session_id (session_rows s), session_account = account, token_hash = hash_of fresh,
     session_created_at = t, session_expires_at = t + idle, last_seen_at = t, revoked_at = None, user_agent = ua\<rparr>"
  have s': "s' = s\<lparr>session_rows := session_rows s @ [?row]\<rparr>"
    using assms(2) by (auto simp: open_session_def insert_session_def raising_bind_Inr split: if_splits)
  have "next_session_id (session_rows s) \<notin> session_id ` set (session_rows s)"
    using fold_max_ge(1) [of _ "map session_id (session_rows s)" 0] by (force simp: next_session_id_def)
  moreover have "hash_of fresh \<notin> dom (replaced_values s)" "hash_of fresh \<notin> hashes s"
    using assms(1,3) by (auto simp: session_inv_def values_ok_def rows_ok_def hashes_def)
  ultimately show ?thesis
    using assms(1) by (auto simp: s' session_inv_def rows_ok_def values_ok_def hashes_def awaited_def listed_def)
qed

lemma use_session_state:
  "snd (use_session hash_of actor_of idle token t fresh s) =
     (let s1 = snd (live_session hash_of token t s)
      in case fst (live_session hash_of token t s) of
           None \<Rightarrow> s1
         | Some (row, renewable) \<Rightarrow>
             if actor_of (session_account row) \<noteq> None \<and> renewable \<and> t - last_seen_at row \<ge> SESSION_RENEWAL_INTERVAL_S
             then snd (renew hash_of idle row t fresh s1) else s1)"
  by (simp add: use_session_def Let_def split: option.splits prod.splits)

lemma use_session_cases:
  assumes "session_inv (s, used)"
  shows "snd (use_session hash_of actor_of idle token t fresh s) = snd (live_session hash_of token t s)
    \<or> (\<exists>row. row \<in> set (session_rows s) \<and> revoked_at row = None \<and> t < session_expires_at row
        \<and> snd (use_session hash_of actor_of idle token t fresh s) =
            snd (renew hash_of idle row t fresh (snd (live_session hash_of token t s))))"
proof (cases "fst (live_session hash_of token t s)")
  case None
  then show ?thesis by (simp add: use_session_state Let_def)
next
  case (Some f)
  obtain row renewable where f: "f = (row, renewable)" by (cases f)
  from live_session_found(1-3) [OF Some [unfolded f]] show ?thesis
    by (auto simp: use_session_state Let_def Some f)
qed

lemma use_session_inv:
  assumes "session_inv (s, used)" and "hash_of fresh \<notin> used"
  shows "session_inv (snd (use_session hash_of actor_of idle token t fresh s), insert (hash_of fresh) used)"
proof -
  let ?s1 = "snd (live_session hash_of token t s)"
  have s1: "session_inv (?s1, used)" using live_session_inv [OF assms(1)] .
  have weaken: "session_inv (?s1, insert (hash_of fresh) used)"
    using s1 by (auto simp: session_inv_def rows_ok_def values_ok_def)
  from use_session_cases [OF assms(1), of hash_of actor_of idle token t fresh] show ?thesis
  proof (elim disjE exE conjE)
    assume "snd (use_session hash_of actor_of idle token t fresh s) = ?s1"
    with weaken show ?thesis by simp
  next
    fix row assume row: "row \<in> set (session_rows s)" "revoked_at row = None"
      "snd (use_session hash_of actor_of idle token t fresh s) = snd (renew hash_of idle row t fresh ?s1)"
    then have "row \<in> set (session_rows ?s1)" by simp
    from renew_inv [of _ used row hash_of fresh idle t, OF s1 this row(2) assms(2)] row(3) show ?thesis by simp
  qed
qed

lemma close_session_inv: "session_inv (s, used) \<Longrightarrow> session_inv (close_session hash_of token t s, used)"
  using live_session_inv [of s used hash_of token t] live_session_rows [of hash_of token t s]
  by (auto simp: close_session_def Let_def split: option.splits prod.splits intro!: update_rows_inv)

lemma revoke_own_session_cases:
  "snd (revoke_own_session hash_of a token i t s) \<in>
     {s, snd (live_session hash_of token t s),
      (snd (live_session hash_of token t s))\<lparr>session_rows := revoke_session i t (session_rows s)\<rparr>}"
proof -
  obtain found s1 where s1: "live_session hash_of token t s = (found, s1)" by (meson surj_pair)
  with live_session_rows [of hash_of token t s] have rows: "session_rows s1 = session_rows s" by simp
  show ?thesis
    by (auto simp: revoke_own_session_def live_session_id_def Let_def s1 rows split: sum.splits option.splits if_splits)
qed

lemma session_step_inv:
  assumes "session_inv w" and "session_step hash_of actor_of idle silent horizon w w'"
  shows "session_inv w'"
  using assms(2,1)
proof (cases rule: session_step.cases)
  case (revokes token s used a i t)
  have s1: "session_inv (snd (live_session hash_of token t s), used)"
    using assms(1) revokes live_session_inv by simp
  then have "session_inv ((snd (live_session hash_of token t s))\<lparr>session_rows := revoke_session i t (session_rows s)\<rparr>, used)"
    by (intro update_rows_inv) simp_all
  with s1 assms(1) revokes revoke_own_session_cases [of hash_of a token i t s] show ?thesis by auto
qed (use assms(1) in \<open>auto intro: open_session_inv live_session_inv use_session_inv close_session_inv update_rows_inv\<close>)


subsection \<open>What lasts\<close>

text \<open>A session that was revoked.\<close>

definition ended_session :: "session_world \<Rightarrow> int \<Rightarrow> unit option" where
  "ended_session w i = (if \<exists>row \<in> set (session_rows (fst w)). session_id row = i \<and> revoked_at row \<noteq> None then Some () else None)"

text \<open>A value replaced for good: its grace, if it has one left, ends by the deadline.\<close>

definition outdated_value :: "time \<Rightarrow> session_world \<Rightarrow> string \<Rightarrow> unit option" where
  "outdated_value deadline w h =
     (if h \<in> snd w \<and> h \<notin> hashes (fst w) \<and> (case replaced_values (fst w) h of None \<Rightarrow> True
        | Some r \<Rightarrow> \<exists>u. until r = Some u \<and> u \<le> deadline) then Some () else None)"

text \<open>A replaced value whose successor never came back, with the session it names.\<close>

definition orphan_value :: "time \<Rightarrow> int set \<Rightarrow> time \<Rightarrow> session_world \<Rightarrow> string \<Rightarrow> int option" where
  "orphan_value idle silent horizon w h =
     (case replaced_values (fst w) h of None \<Rightarrow> None
      | Some r \<Rightarrow> if until r = None \<and> replaced_session r \<in> silent \<and> horizon \<le> replaced_at r + idle
                  then Some (replaced_session r) else None)"

lemma live_session_values:
  "replaced_values (snd (live_session hash_of token t s)) h = replaced_values s h
    \<or> (\<exists>r u. replaced_values s h = Some r \<and> until r = Some u \<and> u \<le> t
        \<and> replaced_values (snd (live_session hash_of token t s)) h = None)
    \<or> (\<exists>r row. replaced_values s h = Some r \<and> until r = None
        \<and> session_by_hash (hash_of token) (session_rows s) = Some row
        \<and> listed s (session_id row) h
        \<and> replaced_values (snd (live_session hash_of token t s)) h = Some (r\<lparr>until := Some (t + SESSION_ROTATION_GRACE_S)\<rparr>))"
  by (auto simp: live_session_state replaced_session_of_def confirm_values split: option.splits)

lemma use_session_values:
  assumes "session_inv (s, used)" and "h \<in> used" and "h \<notin> hashes s" and "hash_of fresh \<notin> used"
  shows "h \<notin> hashes (snd (use_session hash_of actor_of idle token t fresh s))
    \<and> (replaced_values (snd (use_session hash_of actor_of idle token t fresh s)) h
         = replaced_values (snd (live_session hash_of token t s)) h
       \<or> (\<exists>r. replaced_values (snd (live_session hash_of token t s)) h = Some r \<and> is_stale_value idle t r
          \<and> replaced_values (snd (use_session hash_of actor_of idle token t fresh s)) h = None))"
proof -
  let ?s1 = "snd (live_session hash_of token t s)" and ?s2 = "snd (use_session hash_of actor_of idle token t fresh s)"
  from use_session_cases [OF assms(1), of hash_of actor_of idle token t fresh] show ?thesis
  proof (elim disjE exE conjE)
    assume "?s2 = ?s1"
    with assms(3) show ?thesis by (simp add: hashes_def)
  next
    fix row assume row: "row \<in> set (session_rows s)" "revoked_at row = None" "?s2 = snd (renew hash_of idle row t fresh ?s1)"
    then have "row \<in> set (session_rows ?s1)" by simp
    from renew_cases [OF live_session_inv [OF assms(1), of hash_of token t] this row(2), of hash_of idle t fresh]
    obtain s' where s': "?s2 = s'"
      "session_rows s' = map (\<lambda>r. if r = row then r\<lparr>token_hash := hash_of fresh, session_expires_at := t + idle,
          last_seen_at := t\<rparr> else r) (session_rows ?s1)"
      "replaced_values s' = (replaced_values (forget_stale idle t ?s1))
        (token_hash row \<mapsto> \<lparr>replaced_session = session_id row, replaced_at = t, until = None\<rparr>)"
      using row(3) by auto
    have h: "h \<noteq> token_hash row" "h \<noteq> hash_of fresh" using row(1) assms(2-4) by (auto simp: hashes_def)
    then have "h \<notin> hashes s'" using assms(3) by (auto simp: hashes_def s'(2))
    moreover have "replaced_values s' h = replaced_values (forget_stale idle t ?s1) h" using h(1) by (simp add: s'(3))
    ultimately show ?thesis unfolding s'(1) by (auto simp: forget_stale_values split: option.splits)
  qed
qed

lemma close_session_values:
  "replaced_values (close_session hash_of token t s) = replaced_values (snd (live_session hash_of token t s))
   \<and> hashes (close_session hash_of token t s) = hashes s"
proof -
  obtain found s1 where s1: "live_session hash_of token t s = (found, s1)" by (meson surj_pair)
  with live_session_rows [of hash_of token t s] have rows: "session_rows s1 = session_rows s" by simp
  have "set (map token_hash (revoke_session i t rs)) = set (map token_hash rs)" for i rs by simp
  then have "token_hash ` set (revoke_session i t rs) = token_hash ` set rs" for i rs by (metis set_map)
  then show ?thesis
    by (auto simp: close_session_def s1 rows hashes_def split: option.splits)
qed

text \<open>How the memory of one value may change in a step.\<close>

definition value_step :: "time \<Rightarrow> int set \<Rightarrow> time \<Rightarrow> sessions \<Rightarrow> sessions \<Rightarrow> string \<Rightarrow> bool" where
  "value_step idle silent horizon s s' h \<longleftrightarrow>
     replaced_values s' h = replaced_values s h
     \<or> (\<exists>r t. replaced_values s h = Some r \<and> (until r \<noteq> None \<or> t < horizon) \<and> is_stale_value idle t r
          \<and> replaced_values s' h = None)
     \<or> (\<exists>r u row. replaced_values s h = Some r \<and> until r = None \<and> row \<in> set (session_rows s)
          \<and> session_id row \<notin> silent \<and> listed s (session_id row) h
          \<and> (replaced_values s' h = Some (r\<lparr>until := Some u\<rparr>) \<or> replaced_values s' h = None))"

lemma live_value_step:
  assumes "presents hash_of silent token s"
  shows "value_step idle silent horizon s (snd (live_session hash_of token t s)) h"
  using live_session_values [of hash_of token t s h]
proof (elim disjE exE conjE)
  assume "replaced_values (snd (live_session hash_of token t s)) h = replaced_values s h"
  then show ?thesis by (simp add: value_step_def)
next
  fix r u assume "replaced_values s h = Some r" "until r = Some u" "u \<le> t"
    "replaced_values (snd (live_session hash_of token t s)) h = None"
  moreover from this have "is_stale_value idle t r" by (simp add: is_stale_value_def)
  ultimately show ?thesis unfolding value_step_def by blast
next
  fix r row assume r: "replaced_values s h = Some r" "until r = None"
    "session_by_hash (hash_of token) (session_rows s) = Some row"
    "listed s (session_id row) h"
    "replaced_values (snd (live_session hash_of token t s)) h = Some (r\<lparr>until := Some (t + SESSION_ROTATION_GRACE_S)\<rparr>)"
  have "row \<in> set (session_rows s)" using r(3) by (auto simp: session_by_hash_def dest: sql_first_SomeD)
  moreover have "session_id row \<notin> silent" using assms r(3) by (simp add: presents_def)
  ultimately show ?thesis unfolding value_step_def using r by blast
qed

lemma use_value_step:
  assumes "session_inv (s, used)" and "h \<in> used" and "h \<notin> hashes s" and "hash_of fresh \<notin> used"
    and "presents hash_of silent token s" and "t < horizon"
  shows "value_step idle silent horizon s (snd (use_session hash_of actor_of idle token t fresh s)) h"
proof -
  let ?s1 = "snd (live_session hash_of token t s)" and ?s2 = "snd (use_session hash_of actor_of idle token t fresh s)"
  have v1: "value_step idle silent horizon s ?s1 h" using live_value_step [OF assms(5)] .
  from use_session_values [of s used h hash_of fresh actor_of idle token t, OF assms(1-4)]
  consider (same) "replaced_values ?s2 h = replaced_values ?s1 h"
    | (gone) r where "replaced_values ?s1 h = Some r" "is_stale_value idle t r" "replaced_values ?s2 h = None"
    by blast
  then show ?thesis
  proof cases
    case same
    with v1 show ?thesis by (simp add: value_step_def)
  next
    case gone
    from v1 consider (kept) "replaced_values ?s1 h = replaced_values s h"
      | (ended) "\<exists>r row. replaced_values s h = Some r \<and> until r = None \<and> row \<in> set (session_rows s)
          \<and> session_id row \<notin> silent \<and> listed s (session_id row) h"
      using gone(1) unfolding value_step_def by auto
    then show ?thesis
    proof cases
      case kept
      with gone assms(6) show ?thesis unfolding value_step_def by metis
    next
      case ended
      with \<open>replaced_values ?s2 h = None\<close> show ?thesis unfolding value_step_def by blast
    qed
  qed
qed

lemma step_values:
  assumes "session_inv w" and "session_step hash_of actor_of idle silent horizon w w'" and "h \<in> snd w" and "h \<notin> hashes (fst w)"
  shows "h \<in> snd w' \<and> h \<notin> hashes (fst w') \<and> value_step idle silent horizon (fst w) (fst w') h"
  using assms(2)
proof (cases rule: session_step.cases)
  case (opens account ua t fresh s token s' used)
  then have "session_rows s' = session_rows s @ [\<lparr>session_id = next_session_id (session_rows s), session_account = account,
      token_hash = hash_of fresh, session_created_at = t, session_expires_at = t + idle, last_seen_at = t,
      revoked_at = None, user_agent = ua\<rparr>]" "replaced_values s' = replaced_values s"
    by (auto simp: open_session_def insert_session_def raising_bind_Inr split: if_splits)
  with opens assms(3,4) show ?thesis by (auto simp: hashes_def value_step_def)
next
  case (reads token s used t)
  with live_value_step [OF reads(3), of idle horizon t h] assms(3,4) show ?thesis by (simp add: hashes_def)
next
  case (uses token s fresh used t)
  from use_value_step [of s used h hash_of fresh silent token t horizon idle actor_of]
    use_session_values [of s used h hash_of fresh actor_of idle token t] uses assms(1,3,4)
  show ?thesis by simp
next
  case (closes token s used t)
  with live_value_step [OF closes(3), of idle horizon t h] close_session_values [of hash_of token t s] assms(3,4)
  show ?thesis by (simp add: value_step_def)
next
  case (revokes token s used a i t)
  let ?s1 = "snd (live_session hash_of token t s)" and ?s' = "snd (revoke_own_session hash_of a token i t s)"
  have same: "token_hash ` set (revoke_session i t (session_rows s)) = token_hash ` set (session_rows s)"
    by (metis revoke_session_keys(2) set_map)
  have s': "?s' = s \<or> ?s' = ?s1 \<or> ?s' = ?s1\<lparr>session_rows := revoke_session i t (session_rows s)\<rparr>"
    using revoke_own_session_cases [of hash_of a token i t s] by blast
  then have "hashes ?s' = hashes s" using same by (elim disjE) (simp_all add: hashes_def)
  moreover have "value_step idle silent horizon s ?s' h"
    using s' live_value_step [of hash_of silent token s idle horizon t h, OF revokes(3)]
    by (elim disjE) (simp_all add: value_step_def)
  ultimately show ?thesis using revokes assms(3,4) by simp
next
  case (revokes_all s used account except t)
  have "set (map token_hash (snd (revoke_sessions_of account except t rs))) = set (map token_hash rs)" for rs by simp
  then have "token_hash ` set (snd (revoke_sessions_of account except t rs)) = token_hash ` set rs" for rs by (metis set_map)
  with revokes_all assms(3,4) show ?thesis by (simp add: value_step_def hashes_def)
qed


interpretation outdated_values: absorbing_fact "session_step hash_of actor_of idle silent horizon" session_inv
    "outdated_value deadline"
  for hash_of :: "string \<Rightarrow> string" and actor_of :: "string \<Rightarrow> actor option" and idle silent horizon deadline
proof unfold_locales
  fix w w' h v
  assume inv: "session_inv w" and step: "session_step hash_of actor_of idle silent horizon w w'"
    and fact: "outdated_value deadline w h = Some v"
  have h: "h \<in> snd w" "h \<notin> hashes (fst w)" "case replaced_values (fst w) h of None \<Rightarrow> True
        | Some r \<Rightarrow> \<exists>u. until r = Some u \<and> u \<le> deadline"
    using fact by (auto simp: outdated_value_def split: if_splits)
  from step_values [OF inv step h(1,2)] h(3) show "outdated_value deadline w' h = Some v"
    by (auto simp: outdated_value_def value_step_def split: option.splits)
qed (rule session_step_inv)

lemma unknown_hash: "h \<notin> hashes s \<Longrightarrow> session_by_hash h (session_rows s) = None"
  by (force simp: session_by_hash_def hashes_def sql_first_None image_iff)

interpretation orphan_values: absorbing_fact "session_step hash_of actor_of idle silent horizon" session_inv
    "orphan_value idle silent horizon"
  for hash_of :: "string \<Rightarrow> string" and actor_of :: "string \<Rightarrow> actor option" and idle silent horizon
proof unfold_locales
  fix w w' h i
  assume inv: "session_inv w" and step: "session_step hash_of actor_of idle silent horizon w w'"
    and fact: "orphan_value idle silent horizon w h = Some i"
  obtain r where r: "replaced_values (fst w) h = Some r" "until r = None" "replaced_session r = i" "i \<in> silent"
    "horizon \<le> replaced_at r + idle"
    using fact by (auto simp: orphan_value_def split: option.splits if_splits)
  have h: "h \<in> snd w" "h \<notin> hashes (fst w)" using inv r(1) by (auto simp: session_inv_def values_ok_def)
  have "\<not> is_stale_value idle t r" if "t < horizon" for t using that r(2,5) by (simp add: is_stale_value_def)
  moreover have "session_id row \<in> silent" if "listed (fst w) (session_id row) h" for row
    using inv r(1,3,4) that awaitedD by (auto simp: session_inv_def)
  ultimately have "replaced_values (fst w') h = Some r"
    using step_values [OF inv step h] r by (auto simp: value_step_def)
  with r show "orphan_value idle silent horizon w' h = Some i" by (simp add: orphan_value_def)
qed

lemma revoked_stays:
  assumes "row \<in> set rows" and "revoked_at row \<noteq> None"
  shows "\<exists>row' \<in> set (sql_update P (\<lambda>r. r\<lparr>revoked_at := Some t\<rparr>) rows). session_id row' = session_id row \<and> revoked_at row' \<noteq> None"
proof (rule bexI [of _ "if P row then row\<lparr>revoked_at := Some t\<rparr> else row"])
  show "(if P row then row\<lparr>revoked_at := Some t\<rparr> else row) \<in> set (sql_update P (\<lambda>r. r\<lparr>revoked_at := Some t\<rparr>) rows)"
    using assms(1) by (simp add: set_sql_update image_iff) blast
qed (use assms(2) in simp)

lemma ended_rows:
  assumes "row \<in> set (session_rows s)" and "revoked_at row \<noteq> None" and "session_inv (s, used)"
    and "session_step hash_of actor_of idle silent horizon (s, used) (s', used')"
  shows "\<exists>row' \<in> set (session_rows s'). session_id row' = session_id row \<and> revoked_at row' \<noteq> None"
  using assms(4)
proof (cases rule: session_step.cases)
  case (opens account ua t fresh token)
  with assms(1,2) show ?thesis
    by (auto simp: open_session_def insert_session_def raising_bind_Inr split: if_splits)
next
  case (reads token t)
  with assms(1,2) show ?thesis by auto
next
  case (uses token fresh t)
  from use_session_cases [OF assms(3), of hash_of actor_of idle token t fresh] show ?thesis
  proof (elim disjE exE conjE)
    assume "snd (use_session hash_of actor_of idle token t fresh s) = snd (live_session hash_of token t s)"
    with uses assms(1,2) show ?thesis by auto
  next
    fix r assume r: "r \<in> set (session_rows s)" "revoked_at r = None"
      "snd (use_session hash_of actor_of idle token t fresh s) = snd (renew hash_of idle r t fresh (snd (live_session hash_of token t s)))"
    then have "r \<in> set (session_rows (snd (live_session hash_of token t s)))" by simp
    from renew_cases [OF live_session_inv [OF assms(3), of hash_of token t] this r(2), of hash_of idle t fresh]
    have rows: "session_rows s' = map (\<lambda>x. if x = r then x\<lparr>token_hash := hash_of fresh, session_expires_at := t + idle,
          last_seen_at := t\<rparr> else x) (session_rows s)"
      using r(3) uses by auto
    have "row \<noteq> r" using assms(2) r(2) by auto
    with assms(1) have "row \<in> set (session_rows s')" unfolding rows by (auto simp: image_iff intro!: bexI [of _ row])
    with assms(2) show ?thesis by auto
  qed
next
  case (closes token t)
  then have "session_rows s' = session_rows s \<or> (\<exists>i. session_rows s' = revoke_session i t (session_rows s))"
    using live_session_rows [of hash_of token t s]
    by (cases "live_session hash_of token t s") (auto simp: close_session_def split: option.splits)
  with assms(1,2) revoked_stays [OF assms(1,2)] show ?thesis by (auto simp: revoke_session_def)
next
  case (revokes token a i t)
  then have "session_rows s' = session_rows s \<or> session_rows s' = revoke_session i t (session_rows s)"
    using revoke_own_session_cases [of hash_of a token i t s] by auto
  with assms(1,2) revoked_stays [OF assms(1,2)] show ?thesis by (auto simp: revoke_session_def)
next
  case (revokes_all account except t)
  with revoked_stays [OF assms(1,2)] show ?thesis by (simp add: revoke_sessions_of_def Let_def)
qed

interpretation ended_sessions: absorbing_fact "session_step hash_of actor_of idle silent horizon" session_inv ended_session
  for hash_of :: "string \<Rightarrow> string" and actor_of :: "string \<Rightarrow> actor option" and idle silent horizon
proof unfold_locales
  fix w w' i v
  assume "session_inv w" and "session_step hash_of actor_of idle silent horizon w w'" and "ended_session w i = Some v"
  then show "ended_session w' i = Some v"
    using ended_rows [of _ "fst w" "snd w" hash_of actor_of idle silent horizon "fst w'" "snd w'"]
    by (auto simp: ended_session_def split: if_splits)
qed

subsection \<open>Properties\<close>

definition no_sessions :: session_world where
  "no_sessions = (\<lparr>session_rows = [], replaced_values = Map.empty, awaiting = Map.empty\<rparr>, {})"

lemma no_sessions_inv: "session_inv no_sessions"
  by (simp add: no_sessions_def session_inv_def rows_ok_def values_ok_def awaited_def listed_def)

text \<open>An ended session signs nobody in any more: once it is revoked (signed out, ended from another
  device, or with all the sessions of its account), no value ever gives it again, whether its current
  one or one in its grace, whatever other requests do in between.\<close>

theorem ended_session_is_never_found:
  assumes "(session_step hash_of actor_of idle {} horizon)\<^sup>*\<^sup>* no_sessions w"
    and "row \<in> set (session_rows (fst w))" and "revoked_at row \<noteq> None"
    and "(session_step hash_of actor_of idle {} horizon)\<^sup>*\<^sup>* w w'"
    and "fst (live_session hash_of token t (fst w')) = Some (found, renewable)"
  shows "session_id found \<noteq> session_id row"
proof
  assume same: "session_id found = session_id row"
  have w: "session_inv w" using outdated_values.steps_inv [OF assms(1) no_sessions_inv] .
  then have w': "session_inv w'" using outdated_values.steps_inv [OF assms(4)] by blast
  have "ended_session w (session_id row) = Some ()" using assms(2,3) by (auto simp: ended_session_def)
  from ended_sessions.steps_fact [OF assms(4) w this]
  obtain r where r: "r \<in> set (session_rows (fst w'))" "session_id r = session_id row" "revoked_at r \<noteq> None"
    by (auto simp: ended_session_def split: if_splits)
  note found = live_session_found(1,2) [OF assms(5)]
  have "distinct (map session_id (session_rows (fst w')))" using w' by (simp add: session_inv_def rows_ok_def)
  from keyed_unique [OF this r(1) found(1)] r(2,3) found(2) same show False by simp
qed

text \<open>C38: a copied old value stops working: a minute after its session's current value came back, a
  value that a renewal had replaced is refused for good, whatever is done meanwhile, even by whoever
  holds it.\<close>

theorem replaced_value_dies_after_its_grace:
  assumes "(session_step hash_of actor_of idle {} horizon)\<^sup>*\<^sup>* no_sessions w"
    and "replaced_values (fst w) (hash_of old) = Some r" and "session_by_hash (hash_of new) (session_rows (fst w)) = Some row"
    and "session_id row = replaced_session r" and "until r = None"
    and "(session_step hash_of actor_of idle {} horizon)\<^sup>*\<^sup>* (snd (live_session hash_of new c (fst w)), snd w) w'"
    and "c + SESSION_ROTATION_GRACE_S \<le> t"
  shows "fst (live_session hash_of old t (fst w')) = None"
proof -
  have w: "session_inv w" using outdated_values.steps_inv [OF assms(1) no_sessions_inv] .
  let ?w1 = "(snd (live_session hash_of new c (fst w)), snd w)"
  have w1: "session_inv ?w1" using live_session_inv [of "fst w" "snd w"] w by simp
  have h: "hash_of old \<in> snd w" "hash_of old \<notin> hashes (fst w)"
    using w assms(2) by (auto simp: session_inv_def values_ok_def)
  have "listed (fst w) (session_id row) (hash_of old)"
    using w assms(2,4,5) awaitedD by (auto simp: session_inv_def)
  then have "outdated_value (c + SESSION_ROTATION_GRACE_S) ?w1 (hash_of old) = Some ()"
    using assms(2,3,5) h by (simp add: outdated_value_def live_session_state confirm_values)
  from outdated_values.steps_fact [OF assms(6) w1 this]
  have out: "hash_of old \<notin> hashes (fst w')" "case replaced_values (fst w') (hash_of old) of None \<Rightarrow> True
      | Some r \<Rightarrow> \<exists>u. until r = Some u \<and> u \<le> c + SESSION_ROTATION_GRACE_S"
    by (auto simp: outdated_value_def split: if_splits)
  from out(2) assms(7) have "fst (replaced_session_of (hash_of old) t (fst w')) = None"
    by (auto simp: replaced_session_of_def split: option.splits)
  with unknown_hash [OF out(1)] show ?thesis
    by (cases "replaced_session_of (hash_of old) t (fst w')") (simp add: live_session_def)
qed

text \<open>Nobody is locked out by a lost answer: a browser that never received the new value of a
  renewal keeps signing in with the one it has, and may renew, as long as the session itself is alive
  and the new value never comes back, for an idle lifetime after the renewal.\<close>

theorem unreceived_renewal_loses_nothing:
  assumes "(session_step hash_of actor_of idle {} horizon)\<^sup>*\<^sup>* no_sessions w"
    and "replaced_values (fst w) (hash_of old) = Some r" and "until r = None" and "replaced_session r = i"
    and "horizon \<le> replaced_at r + idle"
    and "(session_step hash_of actor_of idle {i} horizon)\<^sup>*\<^sup>* w w'"
    and "row \<in> set (session_rows (fst w'))" and "session_id row = i" and "revoked_at row = None" and "t < session_expires_at row"
  shows "fst (live_session hash_of old t (fst w')) = Some (row, True)"
proof -
  have w: "session_inv w" using outdated_values.steps_inv [OF assms(1) no_sessions_inv] .
  then have w': "session_inv w'" using outdated_values.steps_inv [OF assms(6)] by blast
  have "orphan_value idle {i} horizon w (hash_of old) = Some i"
    using assms(2-5) by (simp add: orphan_value_def)
  from orphan_values.steps_fact [OF assms(6) w this]
  obtain r' where r': "replaced_values (fst w') (hash_of old) = Some r'" "until r' = None" "replaced_session r' = i"
    by (auto simp: orphan_value_def split: option.splits if_splits)
  have "hash_of old \<notin> hashes (fst w')" using w' r'(1) by (auto simp: session_inv_def values_ok_def)
  then have "session_by_hash (hash_of old) (session_rows (fst w')) = None" by (rule unknown_hash)
  moreover have "session_of i (session_rows (fst w')) = Some row"
    using w' assms(7,8) by (auto simp: session_of_def session_inv_def rows_ok_def sql_first_keyed)
  ultimately show ?thesis
    using r' assms(9,10) by (simp add: live_session_def replaced_session_of_def Let_def)
qed


subsection \<open>A session from its opening on\<close>

definition demo_session_row :: "string \<Rightarrow> time \<Rightarrow> time \<Rightarrow> session_row" where
  "demo_session_row h expires seen = \<lparr>session_id = 1, session_account = ''ana'', token_hash = h, session_created_at = 0,
     session_expires_at = expires, last_seen_at = seen, revoked_at = None, user_agent = None\<rparr>"

definition demo_replaced :: "time \<Rightarrow> replaced" where
  "demo_replaced t = \<lparr>replaced_session = 1, replaced_at = t, until = None\<rparr>"

definition opened_sessions :: sessions where
  "opened_sessions = \<lparr>session_rows = [demo_session_row ''a'' 86400 0], replaced_values = Map.empty, awaiting = Map.empty\<rparr>"

definition renewed_sessions :: sessions where
  "renewed_sessions = \<lparr>session_rows = [demo_session_row ''b'' 90000 3600],
     replaced_values = [''a'' \<mapsto> demo_replaced 3600], awaiting = [1 \<mapsto> [''a'']]\<rparr>"

definition any_actor :: "string \<Rightarrow> actor option" where
  "any_actor u = Some (demo_actor ORDINARY {} \<lparr>forbidden = {}, read_only = False\<rparr>)"

lemmas session_run_simps = use_session_def live_session_def session_by_hash_def session_of_def confirm_def
  end_replaced_def replaced_session_of_def renew_def renew_session_def forget_stale_def is_stale_value_def
  sql_update_def sql_count_def demo_session_row_def demo_replaced_def any_actor_def Let_def
  SESSION_RENEWAL_INTERVAL_S_def SESSION_ROTATION_GRACE_S_def

lemma demo_open: "open_session id 86400 ''ana'' None 0 ''a'' (fst no_sessions) = Inr (''a'', opened_sessions)"
  by (simp add: open_session_def insert_session_def next_session_id_def no_sessions_def opened_sessions_def demo_session_row_def)

lemma demo_renew: "snd (use_session id any_actor 86400 ''a'' 3600 ''b'' opened_sessions) = renewed_sessions"
  by (simp add: session_run_simps opened_sessions_def renewed_sessions_def fun_eq_iff)

lemma demo_session_steps:
  assumes "3600 < horizon"
  shows "(session_step id any_actor 86400 {} horizon)\<^sup>*\<^sup>* no_sessions (renewed_sessions, {''a'', ''b''})"
proof -
  have "session_step id any_actor 86400 {} horizon no_sessions (opened_sessions, {''a''})"
    using session_step.opens [of id 86400 "''ana''" None 0 "''a''" "fst no_sessions" "''a''" opened_sessions "{}"] demo_open
    by (simp add: no_sessions_def)
  moreover have "session_step id any_actor 86400 {} horizon (opened_sessions, {''a''}) (renewed_sessions, {''a'', ''b''})"
    using session_step.uses [of id "{}" "''a''" opened_sessions "''b''" "{''a''}" 3600 horizon any_actor 86400] assms demo_renew
    by (simp add: presents_def insert_commute)
  ultimately show ?thesis by (meson converse_rtranclp_into_rtranclp rtranclp.rtrancl_refl)
qed

theorem ended_session_is_never_found_witness:
  "let s = renewed_sessions\<lparr>session_rows := snd (revoke_sessions_of ''ana'' None 4000 (session_rows renewed_sessions))\<rparr>
   in \<forall>found renewable. fst (live_session id ''a'' 4001 s) = Some (found, renewable) \<longrightarrow> session_id found \<noteq> 1"
proof -
  let ?s = "renewed_sessions\<lparr>session_rows := snd (revoke_sessions_of ''ana'' None 4000 (session_rows renewed_sessions))\<rparr>"
  have "session_step id any_actor 86400 {} 5000 (renewed_sessions, {''a'', ''b''}) (?s, {''a'', ''b''})"
    by (rule session_step.revokes_all)
  with demo_session_steps [of 5000]
  have steps: "(session_step id any_actor 86400 {} 5000)\<^sup>*\<^sup>* no_sessions (?s, {''a'', ''b''})" by simp
  let ?row = "(demo_session_row ''b'' 90000 3600)\<lparr>revoked_at := Some 4000\<rparr>"
  have "?row \<in> set (session_rows (fst (?s, {''a'', ''b''})))" "revoked_at ?row \<noteq> None" "session_id ?row = 1"
    by (simp_all add: renewed_sessions_def revoke_sessions_of_def sql_update_def demo_session_row_def Let_def)
  with ended_session_is_never_found [OF steps this(1,2) rtranclp.rtrancl_refl, of "''a''" 4001] show ?thesis
    by (auto simp: Let_def)
qed

theorem replaced_value_dies_after_its_grace_witness:
  "fst (live_session id ''a'' 3760 (snd (live_session id ''b'' 3700 renewed_sessions))) = None"
  using replaced_value_dies_after_its_grace [OF demo_session_steps [of 5000], of "''a''" "demo_replaced 3600" "''b''"
      "demo_session_row ''b'' 90000 3600" 3700 "(snd (live_session id ''b'' 3700 renewed_sessions), {''a'', ''b''})" 3760]
  by (simp add: renewed_sessions_def session_by_hash_def demo_session_row_def demo_replaced_def SESSION_ROTATION_GRACE_S_def)

theorem unreceived_renewal_loses_nothing_witness:
  "fst (live_session id ''a'' 80000 renewed_sessions) = Some (demo_session_row ''b'' 90000 3600, True)"
  using unreceived_renewal_loses_nothing [OF demo_session_steps [of 85000], of "''a''" "demo_replaced 3600" 1
      "(renewed_sessions, {''a'', ''b''})" "demo_session_row ''b'' 90000 3600" 80000]
  by (simp add: renewed_sessions_def demo_session_row_def demo_replaced_def)

text \<open>
  The idle lifetime of that guarantee is counted from the first renewal, not from the last use: a
  browser that keeps using its session every day but never receives a new value is refused once the
  first renewal is an idle lifetime old, while the session itself is alive.
\<close>

definition lifetime_run :: "(time \<times> string) list \<Rightarrow> sessions \<Rightarrow> sessions" where
  "lifetime_run uses s = fold (\<lambda>(t, fresh) s. snd (use_session id any_actor 86400 ''a'' t fresh s)) uses s"

lemma used_session_can_be_refused:
  "let s = lifetime_run [(50000, ''c''), (90001, ''d'')] renewed_sessions
   in (\<exists>row \<in> set (session_rows s). session_id row = 1 \<and> revoked_at row = None \<and> session_expires_at row = 176401)
      \<and> fst (live_session id ''a'' 90002 s) = None"
  by (simp add: lifetime_run_def session_run_simps renewed_sessions_def)

end
