(* ===== verification/Idempotency.thy ===== *)
theory Idempotency
  imports Py_Errors "HOL-Library.Word"
begin

text \<open>
  A write's first answer, kept under its \<open>Idempotency-Key\<close> (\<open>app/idempotency/repository.py\<close>,
  \<open>app/idempotency/service.py\<close>, and the settling half of \<open>http_v1/idempotency.py\<close>). The table is the
  list of its rows in rowid order; \<open>idem_claim\<close> runs in one transaction, so a call is one step. The
  HMAC is a parameter; the framing of what it digests is the code's.
\<close>

type_synonym bytes = "8 word list"

record idem_row =
  idem_account :: string
  idem_key :: string
  idem_operation :: string
  idem_fingerprint :: string
  idem_claim_id :: string
  idem_created_at :: time
  idem_status :: "int option"
  idem_body :: "bytes option"
  idem_content_type :: "string option"

type_synonym idem_table = "idem_row list"
type_synonym idem_scope = "string \<times> string \<times> string"

definition DEFAULT_RETENTION_S :: time where "DEFAULT_RETENTION_S = 24 * 3600"

definition DEFAULT_PENDING_S :: time where "DEFAULT_PENDING_S = 300"

definition FINAL_REFUSALS :: "int set" where "FINAL_REFUSALS = {400, 404, 405, 409, 410, 415, 422}"

definition is_kept :: "int \<Rightarrow> bool" where
  "is_kept status \<longleftrightarrow> 200 \<le> status \<and> status < 300 \<or> status \<in> FINAL_REFUSALS"

subsection \<open>The fingerprint\<close>

text \<open>\<open>len(part).to_bytes(8, "big")\<close>, which raises \<open>OverflowError\<close> from \<open>2 ^ 64\<close> on.\<close>

definition to_bytes_8 :: "nat \<Rightarrow> bytes" where
  "to_bytes_8 n = map (\<lambda>i. word_of_nat (n div 256 ^ (7 - i))) [0..<8]"

definition framed_part :: "bytes \<Rightarrow> bytes" where
  "framed_part part = to_bytes_8 (length part) @ part"

definition framed :: "bytes \<Rightarrow> bytes \<Rightarrow> bytes \<Rightarrow> bytes \<Rightarrow> bytes" where
  "framed meth path query body = concat (map framed_part [meth, path, query, body])"

definition fingerprint :: "(bytes \<Rightarrow> string) \<Rightarrow> bytes \<Rightarrow> bytes \<Rightarrow> bytes \<Rightarrow> bytes \<Rightarrow> string" where
  "fingerprint hmac_hex meth path query body = hmac_hex (framed meth path query body)"

subsection \<open>The repository\<close>

definition idem_scope_of :: "idem_row \<Rightarrow> idem_scope" where
  "idem_scope_of row = (idem_account row, idem_key row, idem_operation row)"

definition idem_find :: "idem_scope \<Rightarrow> idem_table \<Rightarrow> idem_row option" where
  "idem_find sc rows = sql_first (\<lambda>row. idem_scope_of row = sc) rows"

text \<open>\<open>INSERT OR REPLACE\<close>: the row of the same primary key is deleted, the new one gets a new rowid.\<close>

definition idem_insert :: "idem_scope \<Rightarrow> string \<Rightarrow> string \<Rightarrow> time \<Rightarrow> idem_table \<Rightarrow> idem_table" where
  "idem_insert sc fp cid t rows =
     filter (\<lambda>row. idem_scope_of row \<noteq> sc) rows @
     [\<lparr>idem_account = fst sc, idem_key = fst (snd sc), idem_operation = snd (snd sc), idem_fingerprint = fp,
       idem_claim_id = cid, idem_created_at = t, idem_status = None, idem_body = None, idem_content_type = None\<rparr>]"

definition idem_complete :: "string \<Rightarrow> int \<Rightarrow> bytes \<Rightarrow> string option \<Rightarrow> idem_table \<Rightarrow> bool \<times> idem_table" where
  "idem_complete cid status body ctype rows =
     (let P = (\<lambda>row. idem_claim_id row = cid \<and> idem_status row = None)
      in (sql_count P rows = 1,
          sql_update P (\<lambda>row. row\<lparr>idem_status := Some status, idem_body := Some body, idem_content_type := ctype\<rparr>) rows))"

definition idem_release :: "string \<Rightarrow> idem_table \<Rightarrow> idem_table" where
  "idem_release cid rows = filter (\<lambda>row. \<not> (idem_claim_id row = cid \<and> idem_status row = None)) rows"

definition idem_sweep :: "time \<Rightarrow> idem_table \<Rightarrow> idem_table" where
  "idem_sweep before rows = filter (\<lambda>row. \<not> idem_created_at row < before) rows"

subsection \<open>The service\<close>

datatype claim_outcome = Claimed string | Replay int bytes "string option"

text \<open>\<open>claim\<close>: the sweep commits only with the transaction, so a refusal rolls it back. The fresh
  claim id (\<open>uuid4\<close>) is an argument.\<close>

definition idem_claim :: "time \<Rightarrow> time \<Rightarrow> idem_scope \<Rightarrow> string \<Rightarrow> time \<Rightarrow> string \<Rightarrow> idem_table
    \<Rightarrow> (py_error + claim_outcome) \<times> idem_table" where
  "idem_claim retention pending sc fp t fresh rows =
     (let swept = idem_sweep (t - retention) rows;
          take = (Inr (Claimed fresh), idem_insert sc fp fresh t swept)
      in case idem_find sc swept of
           None \<Rightarrow> take
         | Some row \<Rightarrow>
             if idem_fingerprint row \<noteq> fp then (Inl (AppRefusal Conflict REQUEST_KEY_REUSED), rows)
             else (case idem_status row of
               Some status \<Rightarrow>
                 (Inr (Replay status (case idem_body row of None \<Rightarrow> [] | Some b \<Rightarrow> b) (idem_content_type row)), swept)
             | None \<Rightarrow>
                 if t - idem_created_at row \<le> pending
                 then (Inl (AppRefusal Conflict REQUEST_IN_PROGRESS), rows)
                 else take))"

text \<open>\<open>IdempotencyRecorder._settle\<close>: once the answer is known, kept or released.\<close>

definition idem_settle :: "string \<Rightarrow> int \<Rightarrow> bytes \<Rightarrow> string option \<Rightarrow> idem_table \<Rightarrow> idem_table" where
  "idem_settle cid status body ctype rows =
     (if is_kept status then snd (idem_complete cid status body ctype rows) else idem_release cid rows)"

subsection \<open>The framing is unambiguous\<close>

lemma length_to_bytes_8 [simp]: "length (to_bytes_8 n) = 8"
  by (simp add: to_bytes_8_def)

lemma byte_digits: "(\<forall>i < k. n div 256 ^ i mod 256 = m div 256 ^ i mod 256) \<Longrightarrow> n mod 256 ^ k = m mod (256 ^ k :: nat)"
proof (induction k)
  case (Suc k)
  have "n mod 256 ^ Suc k = 256 ^ k * (n div 256 ^ k mod 256) + n mod 256 ^ k" for n :: nat
    using mod_mult2_eq [of n "256 ^ k" 256] by (simp add: mult.commute)
  with Suc show ?case by simp
qed simp

lemma to_bytes_8_inject:
  assumes "to_bytes_8 n = to_bytes_8 m" and "n < 2 ^ 64" and "m < 2 ^ 64"
  shows "n = m"
proof -
  have "n div 256 ^ i mod 256 = m div 256 ^ i mod 256" if "i < 8" for i
  proof -
    have "to_bytes_8 n ! (7 - i) = to_bytes_8 m ! (7 - i)" using assms(1) by simp
    then have "(word_of_nat (n div 256 ^ i) :: 8 word) = word_of_nat (m div 256 ^ i)"
      using that nth_upt [of 0 "7 - i" 8] by (simp add: to_bytes_8_def)
    then show ?thesis by (simp add: word_of_nat_eq_iff take_bit_eq_mod)
  qed
  then have "n mod 256 ^ 8 = m mod 256 ^ 8" by (intro byte_digits) blast
  with assms(2,3) show ?thesis by simp
qed

lemma framed_part_append:
  assumes "framed_part a @ xs = framed_part b @ ys" and "length a < 2 ^ 64" and "length b < 2 ^ 64"
  shows "a = b \<and> xs = ys"
proof -
  have "to_bytes_8 (length a) = to_bytes_8 (length b)" "a @ xs = b @ ys"
    using assms(1) by (simp_all add: framed_part_def)
  then have "length a = length b" using to_bytes_8_inject assms(2,3) by blast
  with \<open>a @ xs = b @ ys\<close> show ?thesis by simp
qed

subsection \<open>Requests over time\<close>

text \<open>
  Any number of requests over the table: a claim at some time up to the horizon, or the settling of a
  claim. \<open>running\<close> holds claims whose answer is not known yet: they do not settle. The second
  component is the set of claim ids ever made.
\<close>

type_synonym idem_world = "idem_table \<times> string set"

inductive idem_step :: "time \<Rightarrow> time \<Rightarrow> time \<Rightarrow> string set \<Rightarrow> idem_world \<Rightarrow> idem_world \<Rightarrow> bool"
  for retention pending horizon in_flight where
  claims: "idem_claim retention pending sc fp t fresh rows = (out, rows') \<Longrightarrow> t \<le> horizon \<Longrightarrow> fresh \<notin> used
    \<Longrightarrow> idem_step retention pending horizon in_flight (rows, used) (rows', insert fresh used)"
| settles: "cid \<notin> in_flight \<Longrightarrow>
    idem_step retention pending horizon in_flight (rows, used) (idem_settle cid status body ctype rows, used)"

definition idem_inv :: "idem_world \<Rightarrow> bool" where
  "idem_inv w \<longleftrightarrow> distinct (map idem_scope_of (fst w)) \<and> idem_claim_id ` set (fst w) \<subseteq> snd w"

lemma idem_find_iff: "distinct (map idem_scope_of rows) \<Longrightarrow> idem_find sc rows = Some row \<longleftrightarrow> row \<in> set rows \<and> idem_scope_of row = sc"
  by (simp add: idem_find_def sql_first_keyed)

lemma distinct_filter_key: "distinct (map k rows) \<Longrightarrow> distinct (map k (filter P rows))"
  by (induction rows) auto

lemma idem_insert_inv:
  "idem_inv (rows, used) \<Longrightarrow> idem_inv (idem_insert sc fp fresh t (idem_sweep before rows), insert fresh used)"
  by (auto simp: idem_inv_def idem_insert_def idem_sweep_def idem_scope_of_def distinct_filter_key)

lemma idem_settle_cases:
  "idem_settle cid status body ctype rows =
     (if is_kept status
      then sql_update (\<lambda>row. idem_claim_id row = cid \<and> idem_status row = None)
             (\<lambda>row. row\<lparr>idem_status := Some status, idem_body := Some body, idem_content_type := ctype\<rparr>) rows
      else filter (\<lambda>row. \<not> (idem_claim_id row = cid \<and> idem_status row = None)) rows)"
  by (simp add: idem_settle_def idem_complete_def idem_release_def Let_def)

lemma idem_settle_inv: "idem_inv (rows, used) \<Longrightarrow> idem_inv (idem_settle cid status body ctype rows, used)"
  by (auto simp: idem_inv_def idem_settle_cases set_sql_update idem_scope_of_def distinct_filter_key
      intro!: distinct_sql_update)

lemma idem_claim_cases:
  assumes "idem_claim retention pending sc fp t fresh rows = (out, rows')"
  shows "rows' = rows \<or> rows' = idem_sweep (t - retention) rows
    \<or> (rows' = idem_insert sc fp fresh t (idem_sweep (t - retention) rows) \<and> out = Inr (Claimed fresh))"
  using assms by (auto simp: idem_claim_def Let_def split: option.splits if_splits)

lemma idem_step_inv: "idem_inv w \<Longrightarrow> idem_step retention pending horizon in_flight w w' \<Longrightarrow> idem_inv w'"
proof (erule idem_step.cases)
  fix sc fp t fresh rows out rows' used
  assume w: "idem_inv w" "w = (rows, used)" "w' = (rows', insert fresh used)"
    and c: "idem_claim retention pending sc fp t fresh rows = (out, rows')"
  from idem_claim_cases [OF c] w idem_insert_inv [of rows used sc fp fresh t "t - retention"] show "idem_inv w'"
    by (auto simp: idem_inv_def idem_sweep_def distinct_filter_key image_subset_iff)
qed (simp add: idem_settle_inv)

text \<open>A row that a claim of its own scope would not take is left as it is by every claim.\<close>

lemma idem_claim_keeps:
  assumes "idem_claim retention pending sc' fp' t fresh rows = (out, rows')"
    and "distinct (map idem_scope_of rows)" and "idem_find sc rows = Some row" and "t - retention \<le> idem_created_at row"
    and "idem_status row \<noteq> None \<or> t - idem_created_at row \<le> pending"
  shows "idem_find sc rows' = Some row"
proof -
  have row: "row \<in> set rows" "idem_scope_of row = sc" using assms(2,3) by (simp_all add: idem_find_iff)
  let ?swept = "idem_sweep (t - retention) rows"
  have d: "distinct (map idem_scope_of ?swept)" using assms(2) by (simp add: idem_sweep_def distinct_filter_key)
  have swept: "idem_find sc ?swept = Some row"
    using row d assms(4) by (simp add: idem_find_iff) (simp add: idem_sweep_def)
  show ?thesis
  proof (cases "sc' = sc")
    case True
    with assms(1,3,5) swept show ?thesis
      by (auto simp: idem_claim_def Let_def split: if_splits option.splits)
  next
    case False
    have "idem_find sc (idem_insert sc' fp' fresh t ?swept) = Some row"
    proof -
      have "distinct (map idem_scope_of (idem_insert sc' fp' fresh t ?swept))"
        using d by (auto simp: idem_insert_def idem_scope_of_def distinct_filter_key)
      moreover have "row \<in> set (idem_insert sc' fp' fresh t ?swept)"
        using False row swept d by (auto simp: idem_insert_def idem_find_iff)
      ultimately show ?thesis using row(2) by (simp add: idem_find_iff)
    qed
    with idem_claim_cases [OF assms(1)] assms(3) swept show ?thesis by auto
  qed
qed

lemma idem_settle_keeps:
  assumes "distinct (map idem_scope_of rows)" and "idem_find sc rows = Some row"
    and "idem_status row \<noteq> None \<or> idem_claim_id row \<noteq> cid"
  shows "idem_find sc (idem_settle cid status body ctype rows) = Some row"
proof -
  have row: "row \<in> set rows" "idem_scope_of row = sc" using assms(1,2) by (simp_all add: idem_find_iff)
  have "distinct (map idem_scope_of (idem_settle cid status body ctype rows))"
    using idem_settle_inv [of rows UNIV] assms(1) by (simp add: idem_inv_def)
  moreover have "row \<in> set (idem_settle cid status body ctype rows)"
    using row(1) assms(3) by (auto simp: idem_settle_cases set_sql_update image_iff intro!: bexI [of _ row])
  ultimately show ?thesis using row(2) by (simp add: idem_find_iff)
qed

text \<open>What is known of a key: its answered row within the retention, or its claim in flight.\<close>

definition lasting_row :: "time \<Rightarrow> time \<Rightarrow> time \<Rightarrow> string set \<Rightarrow> idem_world \<Rightarrow> idem_scope \<Rightarrow> idem_row option" where
  "lasting_row retention pending horizon in_flight w sc =
     (case idem_find sc (fst w) of
        None \<Rightarrow> None
      | Some row \<Rightarrow>
          if horizon - retention \<le> idem_created_at row
             \<and> (idem_status row \<noteq> None \<or> horizon - idem_created_at row \<le> pending \<and> idem_claim_id row \<in> in_flight)
          then Some row else None)"

interpretation idem_keys: absorbing_fact "idem_step retention pending horizon in_flight" idem_inv
    "lasting_row retention pending horizon in_flight"
  for retention pending horizon :: time and in_flight
proof unfold_locales
  fix w w' sc row
  assume inv: "idem_inv w" and step: "idem_step retention pending horizon in_flight w w'"
    and fact: "lasting_row retention pending horizon in_flight w sc = Some row"
  have row: "idem_find sc (fst w) = Some row" "horizon - retention \<le> idem_created_at row"
    "idem_status row \<noteq> None \<or> horizon - idem_created_at row \<le> pending \<and> idem_claim_id row \<in> in_flight"
    using fact by (auto simp: lasting_row_def split: option.splits if_splits)
  have d: "distinct (map idem_scope_of (fst w))" using inv by (simp add: idem_inv_def)
  have "idem_find sc (fst w') = Some row"
    using step
  proof (cases rule: idem_step.cases)
    case (claims sc' fp t fresh rows out rows' used)
    then show ?thesis using idem_claim_keeps [OF claims(3) _ _, of sc row] row d by auto
  next
    case (settles cid rows used status body ctype)
    then show ?thesis using idem_settle_keeps [of rows sc row cid status body ctype] row d by auto
  qed
  with row(2,3) show "lasting_row retention pending horizon in_flight w' sc = Some row"
    by (simp add: lasting_row_def)
qed (rule idem_step_inv)

lemma idem_claim_of_kept_row:
  assumes "distinct (map idem_scope_of rows)" and "idem_find sc rows = Some row" and "t - retention \<le> idem_created_at row"
  shows "fst (idem_claim retention pending sc fp t fresh rows) =
    (if idem_fingerprint row \<noteq> fp then Inl (AppRefusal Conflict REQUEST_KEY_REUSED)
     else case idem_status row of
       Some status \<Rightarrow> Inr (Replay status (case idem_body row of None \<Rightarrow> [] | Some b \<Rightarrow> b) (idem_content_type row))
     | None \<Rightarrow> if t - idem_created_at row \<le> pending then Inl (AppRefusal Conflict REQUEST_IN_PROGRESS) else Inr (Claimed fresh))"
proof -
  have "idem_find sc (idem_sweep (t - retention) rows) = Some row"
    using assms distinct_filter_key [OF assms(1), of "\<lambda>row. \<not> idem_created_at row < t - retention"]
    by (simp add: idem_find_iff idem_sweep_def)
  then show ?thesis by (simp add: idem_claim_def Let_def split: option.splits)
qed

text \<open>Two requests have the same fingerprint only when their method, path, query and body are
  the same: the length prefixes make the digested text unambiguous, so that nothing moves between the
  parts; only a collision of the HMAC itself could confuse two requests.\<close>

theorem fingerprint_tells_requests_apart:
  assumes "hmac_hex (framed m p q b) = hmac_hex (framed m' p' q' b') \<longrightarrow> framed m p q b = framed m' p' q' b'"
    and "\<forall>part \<in> {m, p, q, b, m', p', q', b'}. length part < 2 ^ 64"
  shows "fingerprint hmac_hex m p q b = fingerprint hmac_hex m' p' q' b' \<longleftrightarrow> (m, p, q, b) = (m', p', q', b')"
proof
  assume "fingerprint hmac_hex m p q b = fingerprint hmac_hex m' p' q' b'"
  then have f: "framed_part m @ framed_part p @ framed_part q @ framed_part b @ [] =
      framed_part m' @ framed_part p' @ framed_part q' @ framed_part b' @ []"
    using assms(1) by (simp add: fingerprint_def framed_def)
  have "m = m' \<and> framed_part p @ framed_part q @ framed_part b @ [] = framed_part p' @ framed_part q' @ framed_part b' @ []"
    by (rule framed_part_append [OF f]) (use assms(2) in auto)
  moreover from this have "p = p' \<and> framed_part q @ framed_part b @ [] = framed_part q' @ framed_part b' @ []"
    by (intro framed_part_append) (use assms(2) in auto)
  moreover from this have "q = q' \<and> framed_part b @ [] = framed_part b' @ []"
    by (intro framed_part_append) (use assms(2) in auto)
  moreover from this have "b = b' \<and> ([] :: bytes) = []"
    by (intro framed_part_append) (use assms(2) in auto)
  ultimately show "(m, p, q, b) = (m', p', q', b')" by simp
qed simp


text \<open>C39: a write whose answer was kept is never applied again: whatever other requests claim and
  settle meanwhile, until the retention is over, the same request on the same key is answered by that
  very answer, and another request on it is refused.\<close>

theorem kept_answer_is_replayed:
  assumes "(idem_step retention pending horizon {})\<^sup>*\<^sup>* ([], {}) w"
    and "idem_find sc (fst w) = Some row" and "idem_status row = Some status"
    and "(idem_step retention pending horizon {})\<^sup>*\<^sup>* w w'"
    and "t \<le> horizon" and "horizon - retention \<le> idem_created_at row"
  shows "fst (idem_claim retention pending sc fp t fresh (fst w')) =
    (if idem_fingerprint row = fp
     then Inr (Replay status (case idem_body row of None \<Rightarrow> [] | Some b \<Rightarrow> b) (idem_content_type row))
     else Inl (AppRefusal Conflict REQUEST_KEY_REUSED))"
proof -
  have w: "idem_inv w" using idem_keys.steps_inv [OF assms(1)] by (simp add: idem_inv_def)
  then have w': "idem_inv w'" using idem_keys.steps_inv [OF assms(4)] by blast
  have "lasting_row retention pending horizon {} w sc = Some row"
    using assms(2,3,6) by (simp add: lasting_row_def)
  from idem_keys.steps_fact [OF assms(4) w this] have "idem_find sc (fst w') = Some row"
    by (auto simp: lasting_row_def split: option.splits if_splits)
  from idem_claim_of_kept_row [OF _ this, of t retention pending fp fresh] w' assms(3,5,6) show ?thesis
    by (simp add: idem_inv_def)
qed

text \<open>C19: a write is not applied twice at the same time: from the claim of a key on, as long as that
  request is not answered and the pending delay is not over, every further claim of the key is refused
  whatever the others do; and a claim that was taken over no longer settles the row of its successor.\<close>

theorem running_write_excludes_others:
  assumes "idem_inv w" and "idem_claim retention pending sc fp t0 cid (fst w) = (Inr (Claimed cid), rows)"
    and "cid \<notin> snd w" and "pending \<le> retention"
    and "(idem_step retention pending (t0 + pending) {cid})\<^sup>*\<^sup>* (rows, insert cid (snd w)) w'"
    and "t \<le> t0 + pending"
  shows "fst (idem_claim retention pending sc fp' t fresh (fst w')) =
      Inl (AppRefusal Conflict (if fp' = fp then REQUEST_IN_PROGRESS else REQUEST_KEY_REUSED))
    \<and> (\<forall>old status body ctype. old \<noteq> cid \<longrightarrow>
        idem_find sc (idem_settle old status body ctype (fst w')) = idem_find sc (fst w'))"
proof -
  obtain rows0 used where w: "w = (rows0, used)" by (cases w)
  let ?row = "\<lparr>idem_account = fst sc, idem_key = fst (snd sc), idem_operation = snd (snd sc), idem_fingerprint = fp,
       idem_claim_id = cid, idem_created_at = t0, idem_status = None, idem_body = None, idem_content_type = None\<rparr>"
  have rows: "rows = idem_insert sc fp cid t0 (idem_sweep (t0 - retention) rows0)"
    using assms(2) w by (auto simp: idem_claim_def Let_def split: option.splits if_splits)
  have inv: "idem_inv (rows, insert cid used)"
    using idem_insert_inv [of rows0 used sc fp cid t0 "t0 - retention"] assms(1) w rows by simp
  then have d: "distinct (map idem_scope_of rows)" by (simp add: idem_inv_def)
  have "?row \<in> set rows" "idem_scope_of ?row = sc" by (simp_all add: rows idem_insert_def idem_scope_of_def)
  with d have "idem_find sc rows = Some ?row" by (simp add: idem_find_iff)
  then have "lasting_row retention pending (t0 + pending) {cid} (rows, insert cid used) sc = Some ?row"
    using assms(4) by (simp add: lasting_row_def)
  from idem_keys.steps_fact [OF _ inv this, of w'] assms(5) w
  have found: "idem_find sc (fst w') = Some ?row"
    by (auto simp: lasting_row_def split: option.splits if_splits)
  have d': "distinct (map idem_scope_of (fst w'))"
    using idem_keys.steps_inv [OF _ inv, of _ _ _ _ w'] assms(5) w by (auto simp: idem_inv_def)
  have "fst (idem_claim retention pending sc fp' t fresh (fst w')) =
      Inl (AppRefusal Conflict (if fp' = fp then REQUEST_IN_PROGRESS else REQUEST_KEY_REUSED))"
    using idem_claim_of_kept_row [OF d' found, of t retention pending fp' fresh] assms(4,6) by simp
  with idem_settle_keeps [OF d' found] found show ?thesis by simp
qed


definition demo_hex :: "bytes \<Rightarrow> string" where
  "demo_hex bs = map (\<lambda>b. char_of (unat b)) bs"

lemma demo_hex_inject: "demo_hex bs = demo_hex cs \<Longrightarrow> bs = cs"
proof -
  have "b = c" if "(char_of (unat b) :: char) = char_of (unat c)" for b c :: "8 word"
  proof -
    have "of_char (char_of (unat b) :: char) = (of_char (char_of (unat c)) :: nat)" using that by simp
    then have "unat b mod 256 = unat c mod 256" by simp
    moreover have "unat b < 256" "unat c < 256" using unsigned_less [of b] unsigned_less [of c] by simp_all
    ultimately show ?thesis by (simp add: word_unat_eq_iff)
  qed
  then show "demo_hex bs = demo_hex cs \<Longrightarrow> bs = cs"
    unfolding demo_hex_def by (metis (mono_tags, lifting) injI inj_map_eq_map)
qed

theorem fingerprint_tells_requests_apart_witness:
  "fingerprint demo_hex [80] [1] [2, 3] [] \<noteq> fingerprint demo_hex [80] [1, 2] [3] []"
  using fingerprint_tells_requests_apart [of demo_hex "[80]" "[1]" "[2, 3]" "[]" "[80]" "[1, 2]" "[3]" "[]"]
    demo_hex_inject by auto

lemma demo_claim:
  "idem_claim 86400 300 (''ana'', ''k'', ''POST /runs'') ''f'' 10 ''c1'' [] =
    (Inr (Claimed ''c1''), idem_insert (''ana'', ''k'', ''POST /runs'') ''f'' ''c1'' 10 [])"
  by (simp add: idem_claim_def idem_sweep_def idem_find_def)

theorem kept_answer_is_replayed_witness:
  "let rows = idem_settle ''c1'' 202 [7] None (idem_insert (''ana'', ''k'', ''POST /runs'') ''f'' ''c1'' 10 [])
   in fst (idem_claim 86400 300 (''ana'', ''k'', ''POST /runs'') ''f'' 5000 ''c9'' rows) = Inr (Replay 202 [7] None)"
proof -
  let ?rows1 = "idem_insert (''ana'', ''k'', ''POST /runs'') ''f'' ''c1'' 10 []"
  let ?rows = "idem_settle ''c1'' 202 [7] None ?rows1"
  have s1: "idem_step 86400 300 6000 {} ([], {}) (?rows1, {''c1''})"
    by (rule idem_step.claims [OF demo_claim]) simp_all
  have s2: "idem_step 86400 300 6000 {} (?rows1, {''c1''}) (?rows, {''c1''})"
    by (rule idem_step.settles) simp
  from s1 s2 have steps: "(idem_step 86400 300 6000 {})\<^sup>*\<^sup>* ([], {}) (?rows, {''c1''})"
    by (meson converse_rtranclp_into_rtranclp rtranclp.rtrancl_refl)
  have found: "\<exists>row. idem_find (''ana'', ''k'', ''POST /runs'') ?rows = Some row \<and> idem_status row = Some 202
      \<and> idem_fingerprint row = ''f'' \<and> idem_body row = Some [7] \<and> idem_content_type row = None \<and> idem_created_at row = 10"
    by (simp add: idem_settle_cases is_kept_def idem_insert_def idem_find_def sql_update_def idem_scope_of_def)
  then obtain row where row: "idem_find (''ana'', ''k'', ''POST /runs'') (fst (?rows, {''c1''})) = Some row"
    "idem_status row = Some 202" "idem_fingerprint row = ''f''" "idem_body row = Some [7]"
    "idem_content_type row = None" "idem_created_at row = 10"
    by auto
  from kept_answer_is_replayed [OF steps row(1,2) rtranclp.rtrancl_refl, of 5000 "''f''" "''c9''"] row(3-6)
  show ?thesis by (simp add: Let_def)
qed

theorem running_write_excludes_others_witness:
  "fst (idem_claim 86400 300 (''ana'', ''k'', ''POST /runs'') ''f'' 200 ''c2''
      (idem_insert (''ana'', ''k'', ''POST /runs'') ''f'' ''c1'' 10 [])) = Inl (AppRefusal Conflict REQUEST_IN_PROGRESS)"
proof -
  let ?rows = "idem_insert (''ana'', ''k'', ''POST /runs'') ''f'' ''c1'' 10 []"
  have "idem_inv ([], {})" by (simp add: idem_inv_def)
  moreover have "idem_claim 86400 300 (''ana'', ''k'', ''POST /runs'') ''f'' 10 ''c1'' (fst ([], {} :: string set))
      = (Inr (Claimed ''c1''), ?rows)" using demo_claim by simp
  ultimately show ?thesis
    using running_write_excludes_others [of "([], {})" 86400 300 "(''ana'', ''k'', ''POST /runs'')" "''f''" 10 "''c1''"
        ?rows "(?rows, {''c1''})" 200 "''f''" "''c2''"] by simp
qed

end
