(* ===== verification/Rate_Limit.thy ===== *)
theory Rate_Limit
  imports Prelude
begin

text \<open>
  The brute-force friction of the sign-in doors (\<open>app/accounts/ratelimit.py\<close>). The failures are a
  map from the client key to its list of timestamps, oldest first; every method prunes the list of its
  key first. Each method holds the lock, so a call is one step.
\<close>

definition MAX_FAILED_ATTEMPTS :: nat where "MAX_FAILED_ATTEMPTS = 5"

definition WINDOW_SECONDS :: time where "WINDOW_SECONDS = 60"

definition LOOPBACK_HOSTS :: "string set" where
  "LOOPBACK_HOSTS = {''127.0.0.1'', ''::1'', ''localhost''}"

subsection \<open>The key of a client\<close>

text \<open>\<open>s.split(",")[-1]\<close>\<close>

definition last_part :: "string \<Rightarrow> string" where
  "last_part s = rev (takeWhile (\<lambda>c. c \<noteq> CHR '','') (rev s))"

definition rate_limit_key :: "string option \<Rightarrow> string option \<Rightarrow> string" where
  "rate_limit_key peer forwarded_for =
     (let p = (case peer of None \<Rightarrow> ''unknown'' | Some h \<Rightarrow> h)
      in if p \<in> LOOPBACK_HOSTS \<and> forwarded_for \<noteq> None \<and> forwarded_for \<noteq> Some ''''
         then strip (last_part (the forwarded_for)) else p)"

subsection \<open>The limiter\<close>

record limiter =
  max_attempts :: nat
  window_seconds :: time
  failures :: "string \<rightharpoonup> time list"

definition fresh_limiter :: limiter where
  "fresh_limiter = \<lparr>max_attempts = MAX_FAILED_ATTEMPTS, window_seconds = WINDOW_SECONDS, failures = Map.empty\<rparr>"

definition prune :: "string \<Rightarrow> time \<Rightarrow> limiter \<Rightarrow> time list \<times> limiter" where
  "prune key t rl =
     (let cutoff = t - window_seconds rl;
          kept = filter (\<lambda>ts. ts > cutoff) (case failures rl key of None \<Rightarrow> [] | Some ts \<Rightarrow> ts)
      in (kept, rl\<lparr>failures := (failures rl)(key := (if kept \<noteq> [] then Some kept else None))\<rparr>))"

definition allow :: "string \<Rightarrow> time \<Rightarrow> limiter \<Rightarrow> bool \<times> limiter" where
  "allow key t rl = (let (kept, rl) = prune key t rl in (length kept < max_attempts rl, rl))"

definition record_failure :: "string \<Rightarrow> time \<Rightarrow> limiter \<Rightarrow> limiter" where
  "record_failure key t rl =
     (let (kept, rl) = prune key t rl in rl\<lparr>failures := (failures rl)(key \<mapsto> kept @ [t])\<rparr>)"

definition reset :: "string \<Rightarrow> limiter \<Rightarrow> limiter" where
  "reset key rl = rl\<lparr>failures := (failures rl)(key := None)\<rparr>"

definition clear :: "limiter \<Rightarrow> limiter" where
  "clear rl = rl\<lparr>failures := Map.empty\<rparr>"

subsection \<open>Against the whole history\<close>

text \<open>The reference: the limiter's answers in terms of everything that happened, nothing pruned.\<close>

datatype limiter_call = Allow string time | Failed string time | Reset string | Clear

fun call_at :: "limiter_call \<Rightarrow> time option" where
  "call_at (Allow key t) = Some t"
| "call_at (Failed key t) = Some t"
| "call_at (Reset key) = None"
| "call_at Clear = None"

fun limit :: "limiter_call \<Rightarrow> limiter \<Rightarrow> limiter" where
  "limit (Allow key t) rl = snd (allow key t rl)"
| "limit (Failed key t) rl = record_failure key t rl"
| "limit (Reset key) rl = reset key rl"
| "limit Clear rl = clear rl"

text \<open>The failures of a key since its last reset, of a history with the latest call first.\<close>

fun failures_since_reset :: "string \<Rightarrow> limiter_call list \<Rightarrow> time list" where
  "failures_since_reset key [] = []"
| "failures_since_reset key (Failed k t # h) =
     (if k = key then failures_since_reset key h @ [t] else failures_since_reset key h)"
| "failures_since_reset key (Reset k # h) = (if k = key then [] else failures_since_reset key h)"
| "failures_since_reset key (Clear # h) = []"
| "failures_since_reset key (Allow k t # h) = failures_since_reset key h"

definition recorded :: "limiter \<Rightarrow> string \<Rightarrow> time list" where
  "recorded rl key = (case failures rl key of None \<Rightarrow> [] | Some ts \<Rightarrow> ts)"

lemma prune_recorded:
  "fst (prune key t rl) = filter (\<lambda>ts. ts > t - window_seconds rl) (recorded rl key)"
  "recorded (snd (prune key t rl)) k =
     (if k = key then filter (\<lambda>ts. ts > t - window_seconds rl) (recorded rl key) else recorded rl k)"
  "window_seconds (snd (prune key t rl)) = window_seconds rl" "max_attempts (snd (prune key t rl)) = max_attempts rl"
  by (auto simp: prune_def Let_def recorded_def)

lemma limit_recorded:
  "recorded (limit (Allow key t) rl) k =
     (if k = key then filter (\<lambda>ts. ts > t - window_seconds rl) (recorded rl key) else recorded rl k)"
  "recorded (limit (Failed key t) rl) k =
     (if k = key then filter (\<lambda>ts. ts > t - window_seconds rl) (recorded rl key) @ [t] else recorded rl k)"
  "recorded (limit (Reset key) rl) k = (if k = key then [] else recorded rl k)"
  "recorded (limit Clear rl) k = []"
  "window_seconds (limit c rl) = window_seconds rl" "max_attempts (limit c rl) = max_attempts rl"
proof -
  show "recorded (limit (Failed key t) rl) k =
     (if k = key then filter (\<lambda>ts. ts > t - window_seconds rl) (recorded rl key) @ [t] else recorded rl k)"
    using prune_recorded [of key t rl]
    by (cases "prune key t rl") (simp add: record_failure_def recorded_def)
  show "window_seconds (limit c rl) = window_seconds rl" "max_attempts (limit c rl) = max_attempts rl"
    by (cases c; simp add: allow_def record_failure_def reset_def clear_def prune_def Let_def)+
  show "recorded (limit (Allow key t) rl) k =
     (if k = key then filter (\<lambda>ts. ts > t - window_seconds rl) (recorded rl key) else recorded rl k)"
    using prune_recorded [of key t rl] by (cases "prune key t rl") (simp add: allow_def)
qed (simp_all add: reset_def clear_def recorded_def)

declare limit.simps [simp del]

fun timely :: "time \<Rightarrow> limiter_call list \<Rightarrow> bool" where
  "timely t [] = True"
| "timely t (c # h) = (case call_at c of None \<Rightarrow> timely t h | Some t' \<Rightarrow> t' \<le> t \<and> timely t' h)"

lemma timely_mono: "timely t h \<Longrightarrow> t \<le> t' \<Longrightarrow> timely t' h"
  by (induction h arbitrary: t t') (auto split: option.splits)

definition after_calls :: "limiter_call list \<Rightarrow> limiter" where
  "after_calls h = foldr limit h fresh_limiter"

lemma after_calls_simps [simp]:
  "after_calls [] = fresh_limiter" "after_calls (c # h) = limit c (after_calls h)"
  by (simp_all add: after_calls_def)

lemma after_calls_const [simp]:
  "window_seconds (after_calls h) = WINDOW_SECONDS" "max_attempts (after_calls h) = MAX_FAILED_ATTEMPTS"
  by (induction h) (simp_all add: fresh_limiter_def limit_recorded)

lemma filter_later:
  "s \<le> t \<Longrightarrow> filter (\<lambda>x. s - W < x \<and> t - W < x) xs = filter ((<) (t - W)) (xs :: time list)"
  by (rule filter_cong) auto

lemma length_filter_imp:
  "(\<And>x. x \<in> set xs \<Longrightarrow> P x \<Longrightarrow> Q x) \<Longrightarrow> length (filter P xs) \<le> length (filter Q xs)"
  by (induction xs) (auto simp: le_SucI)

lemma recorded_history:
  "timely t h \<Longrightarrow> filter (\<lambda>x. x > t - WINDOW_SECONDS) (recorded (after_calls h) key) =
     filter (\<lambda>x. x > t - WINDOW_SECONDS) (failures_since_reset key h)"
proof (induction h)
  case Nil
  then show ?case by (simp add: fresh_limiter_def recorded_def)
next
  case (Cons c h)
  have "timely t h"
    using Cons.prems timely_mono by (auto split: option.splits)
  note IH = Cons.IH [OF this]
  show ?case
  proof (cases c)
    case (Allow k s)
    with Cons.prems IH show ?thesis by (auto simp: limit_recorded filter_later)
  next
    case (Failed k s)
    with Cons.prems IH show ?thesis by (auto simp: limit_recorded filter_later)
  qed (use IH in \<open>simp_all add: limit_recorded\<close>)
qed

lemma allow_recorded:
  "fst (allow key t rl) \<longleftrightarrow> length (filter (\<lambda>x. x > t - window_seconds rl) (recorded rl key)) < max_attempts rl"
  using prune_recorded [of key t rl] by (cases "prune key t rl") (simp add: allow_def)

text \<open>Pruning loses nothing: after any history of calls on a clock that does not go back, an
  attempt is allowed exactly when its client failed fewer than five times in the last sixty seconds
  since it was last reset, whatever the other clients did.\<close>

theorem limiter_counts_the_window:
  assumes "timely t h"
  shows "fst (allow key t (after_calls h)) \<longleftrightarrow>
    length (filter (\<lambda>x. x > t - WINDOW_SECONDS) (failures_since_reset key h)) < MAX_FAILED_ATTEMPTS"
  by (simp add: allow_recorded recorded_history [OF assms])

theorem limiter_counts_the_window_witness:
  "let h = map (\<lambda>t. Failed ''1.2.3.4'' t) [50, 40, 30, 20, 10]
   in \<not> fst (allow ''1.2.3.4'' 60 (after_calls h)) \<and> fst (allow ''5.6.7.8'' 60 (after_calls h))
      \<and> fst (allow ''1.2.3.4'' 71 (after_calls h))"
  using limiter_counts_the_window [of 60 "map (\<lambda>t. Failed ''1.2.3.4'' t) [50, 40, 30, 20, 10]"]
    limiter_counts_the_window [of 71 "map (\<lambda>t. Failed ''1.2.3.4'' t) [50, 40, 30, 20, 10]"]
  by (simp add: WINDOW_SECONDS_def MAX_FAILED_ATTEMPTS_def)

text \<open>A client that tries as often as it is let in, and always fails: the times it gets through.\<close>

fun let_in :: "string \<Rightarrow> time list \<Rightarrow> limiter \<Rightarrow> time list" where
  "let_in key [] rl = []"
| "let_in key (t # ts) rl =
     (let (ok, rl) = allow key t rl
      in if ok then t # let_in key ts (record_failure key t rl) else let_in key ts rl)"

definition in_window :: "time \<Rightarrow> time list \<Rightarrow> time list" where
  "in_window e ts = filter (\<lambda>x. e - WINDOW_SECONDS < x \<and> x \<le> e) ts"

lemma in_window_append [simp]: "in_window e (xs @ ys) = in_window e xs @ in_window e ys"
  by (simp add: in_window_def)

lemma let_in_history:
  assumes "timely s h" and "sorted ts" and "\<forall>t \<in> set ts. s \<le> t"
    and "\<And>e. length (in_window e (failures_since_reset key h)) \<le> MAX_FAILED_ATTEMPTS"
  shows "length (in_window e (failures_since_reset key h @ let_in key ts (after_calls h))) \<le> MAX_FAILED_ATTEMPTS"
  using assms
proof (induction ts arbitrary: s h)
  case Nil
  then show ?case by (simp add: in_window_def)
next
  case (Cons t ts)
  have h: "timely t h" using Cons.prems(1,3) timely_mono by auto
  have ts: "sorted ts" "\<forall>x \<in> set ts. t \<le> x" using Cons.prems(2) by auto
  obtain ok rl where a: "allow key t (after_calls h) = (ok, rl)" by (meson surj_pair)
  then have rl: "rl = after_calls (Allow key t # h)" by (simp add: limit.simps)
  have step: "let_in key (t # ts) (after_calls h) =
      (if ok then t # let_in key ts (after_calls (Failed key t # Allow key t # h))
       else let_in key ts (after_calls (Allow key t # h)))"
    using rl by (simp add: a limit.simps(2))
  show ?case
  proof (cases ok)
    case True
    let ?h = "Failed key t # Allow key t # h"
    have few: "length (filter (\<lambda>x. x > t - WINDOW_SECONDS) (failures_since_reset key h)) < MAX_FAILED_ATTEMPTS"
      using allow_recorded [of key t "after_calls h"] a True by (simp add: recorded_history [OF h])
    have "length (in_window e (failures_since_reset key ?h)) \<le> MAX_FAILED_ATTEMPTS" for e
    proof (cases "e - WINDOW_SECONDS < t \<and> t \<le> e")
      case True
      then have "length (in_window e (failures_since_reset key h))
          \<le> length (filter (\<lambda>x. x > t - WINDOW_SECONDS) (failures_since_reset key h))"
        unfolding in_window_def by (intro length_filter_imp) auto
      with few show ?thesis by (simp add: in_window_def)
    next
      case False
      with Cons.prems(4) [of e] show ?thesis by (auto simp: in_window_def)
    qed
    moreover have "timely t ?h" using h by simp
    ultimately have "length (in_window e (failures_since_reset key ?h @ let_in key ts (after_calls ?h))) \<le> MAX_FAILED_ATTEMPTS"
      using ts by (intro Cons.IH [of t]) auto
    then show ?thesis unfolding step using True by simp
  next
    case False
    have "length (in_window e (failures_since_reset key (Allow key t # h) @ let_in key ts (after_calls (Allow key t # h)))) \<le> MAX_FAILED_ATTEMPTS"
      using ts h Cons.prems(4) by (intro Cons.IH [of t]) auto
    then show ?thesis unfolding step using False by simp
  qed
qed

text \<open>C40: a client that tries as often as it likes and always fails gets through at most five times
  in any sixty seconds, wherever the window starts.\<close>

theorem limiter_bounds_the_rate:
  assumes "sorted attempts"
  shows "length (in_window e (let_in key attempts fresh_limiter)) \<le> MAX_FAILED_ATTEMPTS"
proof (cases attempts)
  case (Cons t ts)
  then have "\<forall>x \<in> set attempts. t \<le> x" using assms by auto
  with let_in_history [of t "[]" attempts key e] assms show ?thesis by (simp add: in_window_def)
qed (simp add: in_window_def)

theorem limiter_bounds_the_rate_witness:
  "length (in_window 60 (let_in ''1.2.3.4'' [1, 2, 3, 4, 5, 6, 62, 63] fresh_limiter)) \<le> MAX_FAILED_ATTEMPTS"
  using limiter_bounds_the_rate [of "[1, 2, 3, 4, 5, 6, 62, 63]" 60 "''1.2.3.4''"] by simp

lemma last_part_append:
  assumes "CHR '','' \<notin> set addr"
  shows "last_part (xs @ CHR '','' # addr) = addr"
proof -
  have "takeWhile (\<lambda>c. c \<noteq> CHR '','') (rev addr @ CHR '','' # rev xs) =
      rev addr @ takeWhile (\<lambda>c. c \<noteq> CHR '','') (CHR '','' # rev xs)"
    by (rule takeWhile_append2) (use assms in auto)
  then show ?thesis by (simp add: last_part_def)
qed

text \<open>Behind the local proxy the key is the address the proxy itself appended: whatever
  addresses a client writes into the header before it, its key stays the same.\<close>

theorem forwarded_key_is_not_spoofable:
  assumes "peer \<in> LOOPBACK_HOSTS" and "CHR '','' \<notin> set addr"
  shows "rate_limit_key (Some peer) (Some (spoofed @ CHR '','' # addr)) = strip addr"
  using assms by (simp add: rate_limit_key_def last_part_append)

theorem forwarded_key_is_not_spoofable_witness:
  "rate_limit_key (Some ''127.0.0.1'') (Some ''6.6.6.6, 7.7.7.7, 1.2.3.4'') = ''1.2.3.4''"
  using forwarded_key_is_not_spoofable [of "''127.0.0.1''" "'' 1.2.3.4''" "''6.6.6.6, 7.7.7.7''"]
  by (simp add: LOOPBACK_HOSTS_def strip_def is_space_def)

end
