(* ===== verification/Circuit.thy ===== *)
theory Circuit
  imports Prelude
begin

text \<open>
  The circuit breaker of the API providers (\<open>core/circuit.py\<close>). Time is \<open>time.monotonic()\<close>; each
  method changes the breaker under its lock, so a call is one step; the emitted events are returned
  with the new breaker. \<open>opened_at = 0\<close> is the code's "never opened".
\<close>

datatype circuit_state = CLOSED | OPEN | HALF_OPEN

datatype circuit_event = CircuitBreakerOpened int | CircuitBreakerClosed | CircuitBreakerHalfOpened

record circuit =
  failure_threshold :: int
  cooldown_seconds :: time
  circuit_state :: circuit_state
  failure_count :: int
  opened_at :: time

definition new_circuit :: "int \<Rightarrow> time \<Rightarrow> circuit" where
  "new_circuit threshold cooldown = \<lparr>failure_threshold = threshold, cooldown_seconds = cooldown,
     circuit_state = CLOSED, failure_count = 0, opened_at = 0\<rparr>"

text \<open>The exceptions the breaker tells apart; \<open>HTTPError\<close> may carry no response.\<close>

datatype call_error = ApiError int | HTTPError "int option" | ConnectionFailure | Timeout | OtherError

definition is_circuit_error :: "call_error \<Rightarrow> bool" where
  "is_circuit_error e =
     (case e of
        ApiError status \<Rightarrow> status \<ge> 500
      | HTTPError (Some status) \<Rightarrow> status \<ge> 500
      | HTTPError None \<Rightarrow> False
      | ConnectionFailure \<Rightarrow> True
      | Timeout \<Rightarrow> True
      | OtherError \<Rightarrow> False)"

definition remaining_cooldown :: "time \<Rightarrow> circuit \<Rightarrow> time" where
  "remaining_cooldown t c = (if opened_at c = 0 then 0 else max 0 (cooldown_seconds c - (t - opened_at c)))"

definition cooldown_elapsed :: "time \<Rightarrow> circuit \<Rightarrow> bool" where
  "cooldown_elapsed t c \<longleftrightarrow> remaining_cooldown t c = 0"

text \<open>The property \<open>state\<close>, with its side effect.\<close>

definition read_circuit :: "time \<Rightarrow> circuit \<Rightarrow> circuit_state \<times> circuit \<times> circuit_event list" where
  "read_circuit t c =
     (if circuit_state c = OPEN \<and> cooldown_elapsed t c
      then (HALF_OPEN, c\<lparr>circuit_state := HALF_OPEN\<rparr>, [CircuitBreakerHalfOpened])
      else (circuit_state c, c, []))"

definition can_proceed :: "time \<Rightarrow> circuit \<Rightarrow> bool \<times> circuit \<times> circuit_event list" where
  "can_proceed t c = (let (st, c', es) = read_circuit t c in (st \<noteq> OPEN, c', es))"

text \<open>\<open>guard\<close>: \<open>Inl\<close> is \<open>CircuitOpenError\<close> with the remaining cooldown.\<close>

definition guard :: "time \<Rightarrow> circuit \<Rightarrow> (time + unit) \<times> circuit \<times> circuit_event list" where
  "guard t c = (let (ok, c', es) = can_proceed t c in ((if \<not> ok then Inl (remaining_cooldown t c') else Inr ()), c', es))"

definition record_success :: "circuit \<Rightarrow> circuit \<times> circuit_event list" where
  "record_success c = (c\<lparr>circuit_state := CLOSED, failure_count := 0\<rparr>,
     if circuit_state c \<noteq> CLOSED then [CircuitBreakerClosed] else [])"

definition circuit_failure :: "call_error \<Rightarrow> time \<Rightarrow> circuit \<Rightarrow> circuit \<times> circuit_event list" where
  "circuit_failure e t c =
     (if \<not> is_circuit_error e then (c, [])
      else if circuit_state c = HALF_OPEN
      then (c\<lparr>circuit_state := OPEN, opened_at := t\<rparr>, [CircuitBreakerOpened (failure_threshold c)])
      else (let count = failure_count c + 1
            in if count \<ge> failure_threshold c
               then (c\<lparr>failure_count := count, circuit_state := OPEN, opened_at := t\<rparr>, [CircuitBreakerOpened count])
               else (c\<lparr>failure_count := count\<rparr>, [])))"

definition reset_circuit :: "circuit \<Rightarrow> circuit" where
  "reset_circuit c = c\<lparr>circuit_state := CLOSED, failure_count := 0, opened_at := 0\<rparr>"

subsection \<open>Calls over time\<close>

datatype circuit_call = Guard time | Success time | Failure call_error time | Reset time

fun called_at :: "circuit_call \<Rightarrow> time" where
  "called_at (Guard t) = t"
| "called_at (Success t) = t"
| "called_at (Failure e t) = t"
| "called_at (Reset t) = t"

text \<open>Whether a guard let the call through (\<open>None\<close> for the other calls), and the events.\<close>

fun perform_call :: "circuit_call \<Rightarrow> circuit \<Rightarrow> bool option \<times> circuit \<times> circuit_event list" where
  "perform_call (Guard t) c = (let (r, c', es) = guard t c in (Some (r = Inr ()), c', es))"
| "perform_call (Success t) c = (let (c', es) = record_success c in (None, c', es))"
| "perform_call (Failure e t) c = (let (c', es) = circuit_failure e t c in (None, c', es))"
| "perform_call (Reset t) c = (None, reset_circuit c, [])"

fun circuit_calls :: "circuit_call list \<Rightarrow> circuit \<Rightarrow> bool option list \<times> circuit \<times> circuit_event list" where
  "circuit_calls [] c = ([], c, [])"
| "circuit_calls (call # calls) c =
     (let (r, c', es) = perform_call call c; (rs, c'', es') = circuit_calls calls c' in (r # rs, c'', es @ es'))"

lemmas circuit_defs = guard_def can_proceed_def read_circuit_def record_success_def circuit_failure_def
  reset_circuit_def cooldown_elapsed_def remaining_cooldown_def Let_def

text \<open>What holds between calls: a closed breaker counts fewer failures than its threshold, an open one
  knows when it opened.\<close>

definition wf_circuit :: "circuit \<Rightarrow> bool" where
  "wf_circuit c \<longleftrightarrow> 0 < failure_threshold c \<and> 0 < cooldown_seconds c \<and> 0 \<le> failure_count c
     \<and> (circuit_state c = CLOSED \<longrightarrow> failure_count c < failure_threshold c)
     \<and> (circuit_state c = OPEN \<longrightarrow> 0 < opened_at c)"

lemma perform_call_wf [wf_intro]:
  "perform_call call c = (r, c', es) \<Longrightarrow> wf_circuit c \<Longrightarrow> 0 < called_at call \<Longrightarrow> wf_circuit c'"
  by (cases call) (auto simp: circuit_defs wf_circuit_def split: if_splits)

lemma circuit_calls_wf:
  "circuit_calls calls c = (rs, c', es) \<Longrightarrow> wf_circuit c \<Longrightarrow> \<forall>call \<in> set calls. 0 < called_at call \<Longrightarrow> wf_circuit c'"
  by (induction calls arbitrary: c rs es) (auto simp: Let_def split: prod.splits dest: perform_call_wf)

text \<open>Consecutive failures of a closed breaker.\<close>

definition trips :: "call_error list \<Rightarrow> int" where
  "trips es = int (length (filter is_circuit_error es))"

lemma failing_calls:
  assumes "circuit_state c = CLOSED" and "wf_circuit c" and "failure_count c + trips (map fst fs) < failure_threshold c"
  shows "snd (circuit_calls (map (\<lambda>(e, t). Failure e t) fs) c) = (c\<lparr>failure_count := failure_count c + trips (map fst fs)\<rparr>, [])"
  using assms
proof (induction fs arbitrary: c)
  case Nil
  then show ?case by (simp add: trips_def)
next
  case (Cons f fs)
  obtain e t where f: "f = (e, t)" by (cases f)
  show ?case
  proof (cases "is_circuit_error e")
    case True
    let ?c = "c\<lparr>failure_count := failure_count c + 1\<rparr>"
    have few: "failure_count c + 1 < failure_threshold c" using Cons.prems(3) f True by (simp add: trips_def)
    have "wf_circuit ?c" using Cons.prems(1,2) few by (simp add: wf_circuit_def)
    then have "snd (circuit_calls (map (\<lambda>(e, t). Failure e t) fs) ?c) = (?c\<lparr>failure_count := failure_count ?c + trips (map fst fs)\<rparr>, [])"
      using Cons.prems(1,3) f True by (intro Cons.IH) (auto simp: trips_def)
    with Cons.prems(1) few f True show ?thesis
      by (auto simp: circuit_failure_def Let_def trips_def algebra_simps split: prod.splits)
  next
    case False
    then have "snd (circuit_calls (map (\<lambda>(e, t). Failure e t) fs) c) = (c\<lparr>failure_count := failure_count c + trips (map fst fs)\<rparr>, [])"
      using Cons.prems f by (intro Cons.IH) (simp_all add: trips_def)
    with f False show ?thesis
      by (cases "circuit_calls (map (\<lambda>(e, t). Failure e t) fs) c") (simp add: circuit_failure_def trips_def)
  qed
qed

text \<open>A closed breaker opens at the failure that makes the consecutive counted ones reach its
  threshold, and not before: fewer failures, whatever uncounted ones (429, 4xx) fall between them,
  leave it closed and silent; the one that completes them opens it and publishes it once.\<close>

theorem breaker_trips_at_threshold:
  assumes "wf_circuit c" and "circuit_state c = CLOSED" and "failure_count c = 0"
    and "trips (map fst fs) = failure_threshold c - 1" and "is_circuit_error e"
  shows "snd (circuit_calls (map (\<lambda>(e, t). Failure e t) fs) c) = (c\<lparr>failure_count := failure_threshold c - 1\<rparr>, [])
    \<and> circuit_failure e t (fst (snd (circuit_calls (map (\<lambda>(e, t). Failure e t) fs) c))) =
        (c\<lparr>failure_count := failure_threshold c, circuit_state := OPEN, opened_at := t\<rparr>,
         [CircuitBreakerOpened (failure_threshold c)])"
  using failing_calls [OF assms(2,1), of fs] assms
  by (simp add: circuit_failure_def Let_def)

theorem breaker_trips_at_threshold_witness:
  "fst (circuit_failure (ApiError 503) 9 (fst (snd (circuit_calls [Failure Timeout 7, Failure (ApiError 429) 8] (new_circuit 2 300)))))
     = \<lparr>failure_threshold = 2, cooldown_seconds = 300, circuit_state = OPEN, failure_count = 2, opened_at = 9\<rparr>"
  using breaker_trips_at_threshold [of "new_circuit 2 300" "[(Timeout, 7), (ApiError 429, 8)]" "ApiError 503" 9]
  by (simp add: new_circuit_def wf_circuit_def trips_def is_circuit_error_def circuit_failure_def Let_def)

lemma open_keeps:
  assumes "circuit_state c = OPEN" and "0 < d" and "d \<le> opened_at c" and "cooldown_seconds c = cd"
    and "\<forall>call \<in> set calls. d \<le> called_at call \<and> called_at call < d + cd
      \<and> ((\<exists>u. call = Guard u) \<or> (\<exists>e u. call = Failure e u))"
  shows "circuit_state (fst (snd (circuit_calls calls c))) = OPEN
    \<and> Some True \<notin> set (fst (circuit_calls calls c)) \<and> d \<le> opened_at (fst (snd (circuit_calls calls c)))"
  using assms
proof (induction calls arbitrary: c)
  case Nil
  then show ?case by simp
next
  case (Cons call calls)
  have call: "d \<le> called_at call" "called_at call < d + cd" "(\<exists>u. call = Guard u) \<or> (\<exists>e u. call = Failure e u)"
    using Cons.prems(5) by auto
  obtain r c' es where step: "perform_call call c = (r, c', es)" by (metis prod_cases3)
  have c': "circuit_state c' = OPEN" "d \<le> opened_at c'" "cooldown_seconds c' = cd" "r \<noteq> Some True"
    using step call Cons.prems(1-4) by (auto simp: circuit_defs split: if_splits)
  have "circuit_state (fst (snd (circuit_calls calls c'))) = OPEN
    \<and> Some True \<notin> set (fst (circuit_calls calls c')) \<and> d \<le> opened_at (fst (snd (circuit_calls calls c')))"
    using Cons.prems(2,5) c'(1-3) by (intro Cons.IH) auto
  with step c'(4) show ?case by (auto simp: Let_def split: prod.splits)
qed

text \<open>An open breaker protects the provider: during its cooldown every guarded call is refused,
  and late failures of calls already under way leave it open and can only extend the cooldown.\<close>

theorem open_breaker_refuses:
  assumes "wf_circuit c" and "circuit_state c = OPEN"
    and "\<forall>call \<in> set calls. opened_at c \<le> called_at call \<and> called_at call < opened_at c + cooldown_seconds c
      \<and> ((\<exists>u. call = Guard u) \<or> (\<exists>e u. call = Failure e u))"
  shows "circuit_state (fst (snd (circuit_calls calls c))) = OPEN
    \<and> Some True \<notin> set (fst (circuit_calls calls c))
    \<and> opened_at c \<le> opened_at (fst (snd (circuit_calls calls c)))"
  using open_keeps [OF assms(2) _ order_refl refl assms(3)] assms(1,2) by (simp add: wf_circuit_def)

theorem open_breaker_refuses_witness:
  "fst (circuit_calls [Guard 10, Failure Timeout 20, Guard 300]
     \<lparr>failure_threshold = 2, cooldown_seconds = 300, circuit_state = OPEN, failure_count = 2, opened_at = 9\<rparr>)
     = [Some False, None, Some False]"
proof -
  let ?c = "\<lparr>failure_threshold = 2, cooldown_seconds = 300, circuit_state = OPEN, failure_count = 2, opened_at = 9\<rparr>"
  have "Some True \<notin> set (fst (circuit_calls [Guard 10, Failure Timeout 20, Guard 300] ?c))"
    using open_breaker_refuses [of ?c "[Guard 10, Failure Timeout 20, Guard 300]"] by (simp add: wf_circuit_def)
  then show ?thesis by (simp add: circuit_defs is_circuit_error_def)
qed

text \<open>An open breaker recovers: once the cooldown has elapsed a guarded call is let through and
  its outcome decides: a success closes the breaker and forgets the failures, a counted failure opens
  it again for a full cooldown, and any other failure leaves the next call as another trial.\<close>

theorem open_breaker_recovers:
  assumes "wf_circuit c" and "circuit_state c = OPEN" and "opened_at c + cooldown_seconds c \<le> t" and "t \<le> t'"
  shows "guard t c = (Inr (), c\<lparr>circuit_state := HALF_OPEN\<rparr>, [CircuitBreakerHalfOpened])
    \<and> record_success (c\<lparr>circuit_state := HALF_OPEN\<rparr>) =
        (c\<lparr>circuit_state := CLOSED, failure_count := 0\<rparr>, [CircuitBreakerClosed])
    \<and> circuit_failure e t' (c\<lparr>circuit_state := HALF_OPEN\<rparr>) =
        (if is_circuit_error e
         then (c\<lparr>circuit_state := OPEN, opened_at := t'\<rparr>, [CircuitBreakerOpened (failure_threshold c)])
         else (c\<lparr>circuit_state := HALF_OPEN\<rparr>, []))"
  using assms by (auto simp: circuit_defs wf_circuit_def)

theorem open_breaker_recovers_witness:
  "fst (guard 400 \<lparr>failure_threshold = 2, cooldown_seconds = 300, circuit_state = OPEN, failure_count = 2, opened_at = 9\<rparr>) = Inr ()"
  using open_breaker_recovers [of "\<lparr>failure_threshold = 2, cooldown_seconds = 300, circuit_state = OPEN,
      failure_count = 2, opened_at = 9\<rparr>" 400 400 Timeout]
  by (simp add: wf_circuit_def)

text \<open>A half-open breaker does not limit the trial to one call: until an outcome is recorded, every
  guarded call goes through.\<close>

lemma half_open_lets_every_call_through:
  "circuit_state c = HALF_OPEN \<Longrightarrow>
     circuit_calls (map Guard ts) c = (replicate (length ts) (Some True), c, [])"
  by (induction ts) (simp_all add: circuit_defs)

end
