(* ===== verification/Accounts.thy ===== *)
theory Accounts
  imports Sessions Rate_Limit
begin

text \<open>
  The accounts and roles (\<open>app/accounts/model.py\<close>) and their tables in \<open>app.db\<close>
  (\<open>role_repository.py\<close>, \<open>account_repository.py\<close>, \<open>pin_repository.py\<close>, with the keys and foreign keys of
  \<open>app/store/migrations\<close>): a statement that breaks a constraint raises \<open>IntegrityError\<close>. Texts are
  ASCII. A role's column of right names holds names the server knows.
\<close>

subsection \<open>Rights by name\<close>

fun right_value :: "right \<Rightarrow> string" where
  "right_value LIBRARY_READ = ''library.read''"
| "right_value LIBRARY_DELETE = ''library.delete''"
| "right_value LIBRARY_RESCRAPE = ''library.rescrape''"
| "right_value ACQUISITION_REQUEST = ''acquisition.request''"
| "right_value ACQUISITION_FOLLOW = ''acquisition.follow''"
| "right_value ACQUISITION_PILOT_OWN = ''acquisition.pilot.own''"
| "right_value ACQUISITION_PILOT_ANY = ''acquisition.pilot.any''"
| "right_value ACQUISITION_SEE_OTHERS = ''acquisition.see.others''"
| "right_value ACQUISITION_TODO_VIEW = ''acquisition.todo.view''"
| "right_value ACQUISITION_QUALITY_OWN = ''acquisition.quality.own''"
| "right_value ACQUISITION_PAUSE_OWN = ''acquisition.pause.own''"
| "right_value ACQUISITION_REASSIGN = ''acquisition.reassign''"
| "right_value PIPELINE_CONTROL = ''pipeline.control''"
| "right_value TRACKERS_VIEW = ''trackers.view''"
| "right_value TRACKERS_CONTROL = ''trackers.control''"
| "right_value TRACKERS_UPLOAD = ''trackers.upload''"
| "right_value SYSTEM_VIEW = ''system.view''"
| "right_value CONFIGURATION_VIEW = ''configuration.view''"
| "right_value CONFIGURATION_WRITE = ''configuration.write''"
| "right_value ACCOUNTS_MANAGE = ''accounts.manage''"

definition all_rights :: "right list" where
  "all_rights = [LIBRARY_READ, LIBRARY_DELETE, LIBRARY_RESCRAPE, ACQUISITION_REQUEST, ACQUISITION_FOLLOW,
     ACQUISITION_PILOT_OWN, ACQUISITION_PILOT_ANY, ACQUISITION_SEE_OTHERS, ACQUISITION_TODO_VIEW,
     ACQUISITION_QUALITY_OWN, ACQUISITION_PAUSE_OWN, ACQUISITION_REASSIGN, PIPELINE_CONTROL,
     TRACKERS_VIEW, TRACKERS_CONTROL, TRACKERS_UPLOAD, SYSTEM_VIEW, CONFIGURATION_VIEW,
     CONFIGURATION_WRITE, ACCOUNTS_MANAGE]"

definition right_named :: "string \<Rightarrow> right option" where
  "right_named nm = map_of (map (\<lambda>r. (right_value r, r)) all_rights) nm"

definition rights_named :: "string list \<Rightarrow> py_error + right set" where
  "rights_named names =
     (if \<exists>nm \<in> set names. right_named nm = None then Inl (AppRefusal BadRequest RIGHT_UNKNOWN)
      else Inr (set (List.map_filter right_named names)))"

lemma all_rights_complete [simp]: "r \<in> set all_rights"
  by (cases r) (simp_all add: all_rights_def)

lemma right_named_value: "right_named (right_value r) = Some r"
  by (cases r) (simp_all add: right_named_def all_rights_def)

lemma right_value_inject: "right_value r = right_value r' \<longleftrightarrow> r = r'"
  by (metis right_named_value option.inject)

text \<open>A right is a \<open>StrEnum\<close>: rights are ordered as their values.\<close>

instantiation right :: linorder
begin

definition less_eq_right :: "right \<Rightarrow> right \<Rightarrow> bool" where
  "less_eq_right r r' \<longleftrightarrow> right_value r \<le> right_value r'"

definition less_right :: "right \<Rightarrow> right \<Rightarrow> bool" where
  "less_right r r' \<longleftrightarrow> right_value r < right_value r'"

instance
  by standard (auto simp: less_eq_right_def less_right_def right_value_inject dest: antisym)

end

subsection \<open>The model\<close>

datatype start_kind = PlexHome | PlexGuest

datatype sign_in_kind = OWNER_ACCOUNT | PLEX_ACCOUNT | LOCAL_ACCOUNT

datatype server_access = OwnerAccess | SharedAccess

datatype language = FR | EN

record role =
  role_id :: string
  role_name :: "string option"
  role_kind :: role_kind
  role_rights :: "right set"
  role_default_for :: "start_kind set"

record plex_link =
  link_account :: string
  plex_id :: int
  plex_uuid :: string
  plex_username :: string
  link_access :: server_access
  token_ciphertext :: "string option"
  token_stored_at :: "time option"
  linked_at :: time
  last_sign_in_at :: "time option"

record account_row =
  account_id :: string
  account_name :: string
  account_email :: string
  account_avatar :: string
  account_role :: string
  password_hash :: "string option"
  account_created_at :: time
  account_updated_at :: time
  sign_in_allowed :: bool
  demoted_from :: "string option"
  account_language :: language

record account = account_row +
  account_link :: "plex_link option"

definition sign_in_kind_of :: "plex_link option \<Rightarrow> sign_in_kind" where
  "sign_in_kind_of link = (case link of None \<Rightarrow> LOCAL_ACCOUNT
     | Some l \<Rightarrow> if link_access l = OwnerAccess then OWNER_ACCOUNT else PLEX_ACCOUNT)"

definition is_admin :: "role \<Rightarrow> bool" where
  "is_admin role \<longleftrightarrow> role_kind role = ADMIN"

definition check_mutable :: "role \<Rightarrow> py_error + unit" where
  "check_mutable role = refuse_if (is_admin role) Conflict ROLE_SYSTEM_IMMUTABLE"

definition check_deletable :: "nat \<Rightarrow> role \<Rightarrow> py_error + unit" where
  "check_deletable holders role =
     and_then (refuse_if (is_admin role) Conflict ROLE_SYSTEM_IMMUTABLE)
     (and_then (refuse_if (role_default_for role \<noteq> {}) Conflict ROLE_DEFAULT)
     (refuse_if (holders > 0) Conflict ROLE_IN_USE))"

definition check_access_cut :: "string \<Rightarrow> account \<Rightarrow> py_error + unit" where
  "check_access_cut by_id acc =
     and_then (refuse_if (sign_in_kind_of (account_link acc) = OWNER_ACCOUNT) Forbidden ACCOUNT_OWNER_ACCESS)
     (refuse_if (account_id acc = by_id) Forbidden ACCOUNT_OWN_ACCESS)"

definition check_leaves_admin :: "role \<Rightarrow> role \<Rightarrow> nat \<Rightarrow> account \<Rightarrow> py_error + unit" where
  "check_leaves_admin current target admins acc =
     and_then (refuse_if (\<not> is_admin target \<and> sign_in_kind_of (account_link acc) = OWNER_ACCOUNT) Forbidden ACCOUNT_OWNER_ADMIN)
     (refuse_if (is_admin current \<and> \<not> is_admin target \<and> admins \<le> 1) Conflict ACCOUNT_LAST_ADMIN)"

definition check_password_held_here :: "account \<Rightarrow> py_error + unit" where
  "check_password_held_here acc =
     (let k = sign_in_kind_of (account_link acc)
      in and_then (refuse_if (k = OWNER_ACCOUNT) Forbidden PASSWORD_HELD_BY_CLI)
         (refuse_if (k = PLEX_ACCOUNT) Forbidden AUTH_PLEX_ONLY))"

text \<open>The acting side of a change.\<close>

record grantor =
  grantor_actor :: actor
  is_owner :: bool

definition grantor_of :: "actor \<Rightarrow> plex_link option \<Rightarrow> grantor" where
  "grantor_of a link = \<lparr>grantor_actor = a, is_owner = (sign_in_kind_of link = OWNER_ACCOUNT)\<rparr>"

definition within_rights :: "grantor \<Rightarrow> right set \<Rightarrow> bool" where
  "within_rights g rs \<longleftrightarrow> actor_role_kind (grantor_actor g) = ADMIN \<or> rs \<subseteq> actor_role_rights (grantor_actor g)"

definition check_may_give :: "grantor \<Rightarrow> role \<Rightarrow> py_error + unit" where
  "check_may_give g role =
     (if actor_role_kind (grantor_actor g) = ADMIN then Inr ()
      else refuse_if (is_admin role \<or> \<not> within_rights g (role_rights role)) Forbidden ROLE_ESCALATION)"

definition check_may_give_rights :: "grantor \<Rightarrow> right set \<Rightarrow> py_error + unit" where
  "check_may_give_rights g rs = refuse_if (\<not> within_rights g rs) Forbidden ROLE_ESCALATION"

definition check_may_rename :: "grantor \<Rightarrow> role \<Rightarrow> py_error + unit" where
  "check_may_rename g role = refuse_if (\<not> within_rights g (role_rights role)) Forbidden ROLE_ESCALATION"

definition check_may_give_admin :: "grantor \<Rightarrow> py_error + unit" where
  "check_may_give_admin g = refuse_if (\<not> is_owner g) Forbidden ACCOUNT_ADMIN_OWNER_ONLY"

definition check_may_change_role :: "grantor \<Rightarrow> role \<Rightarrow> py_error + unit" where
  "check_may_change_role g role =
     refuse_if (actor_role_kind (grantor_actor g) \<noteq> ADMIN \<and> role_id role = actor_role (grantor_actor g))
       Forbidden ROLE_OWN_ROLE"

definition check_may_touch :: "grantor \<Rightarrow> account \<Rightarrow> role \<Rightarrow> role \<Rightarrow> py_error + unit" where
  "check_may_touch g acc current target =
     (if actor_role_kind (grantor_actor g) = ADMIN then Inr ()
      else and_then (refuse_if (account_id acc = actor_id (grantor_actor g)) Forbidden ROLE_OWN_ROLE)
           (refuse_if (is_admin current \<or> is_admin target) Forbidden ACCOUNT_ADMIN_UNTOUCHABLE))"

text \<open>\<open>email.rpartition("@")\<close>: the text before the last \<open>@\<close> and the text after it.\<close>

definition is_email :: "string \<Rightarrow> bool" where
  "is_email email =
     (CHR ''@'' \<in> set email
      \<and> tl (dropWhile (\<lambda>c. c \<noteq> CHR ''@'') (rev email)) \<noteq> []
      \<and> takeWhile (\<lambda>c. c \<noteq> CHR ''@'') (rev email) \<noteq> []
      \<and> \<not> list_ex is_space email)"

subsection \<open>The tables\<close>

record role_row =
  row_role_id :: string
  row_role_name :: "string option"
  row_role_kind :: role_kind
  role_created_at :: time
  role_updated_at :: time

record pin_row =
  pin_id :: int
  pin_code :: string
  nonce_hash :: string
  pin_created_at :: time
  pin_expires_at :: "time option"
  last_checked_at :: "time option"
  consumed_at :: "time option"

record app_store =
  role_rows :: "role_row list"
  right_rows :: "(string \<times> right) set"
  start_rows :: "start_kind \<rightharpoonup> string"
  account_rows :: "account_row list"
  link_rows :: "plex_link list"
  pin_rows :: "pin_row list"
  store_sessions :: sessions

subsection \<open>Roles\<close>

definition role_of_row :: "app_store \<Rightarrow> role_row \<Rightarrow> role" where
  "role_of_row st row = \<lparr>role_id = row_role_id row, role_name = row_role_name row, role_kind = row_role_kind row,
     role_rights = {r. (row_role_id row, r) \<in> right_rows st},
     role_default_for = {k. start_rows st k = Some (row_role_id row)}\<rparr>"

definition roles :: "app_store \<Rightarrow> role list" where
  "roles st = map (role_of_row st) (sort_key role_created_at (role_rows st))"

definition role_by_id :: "string \<Rightarrow> app_store \<Rightarrow> role option" where
  "role_by_id rid st = map_option (role_of_row st) (sql_first (\<lambda>row. row_role_id row = rid) (role_rows st))"

text \<open>\<open>role(id)\<close> is a primary key and at most one role is of the kind \<open>admin\<close> (a partial unique index).\<close>

definition insert_role :: "role \<Rightarrow> time \<Rightarrow> app_store \<Rightarrow> py_error + app_store" where
  "insert_role role t st =
     (if (\<exists>row \<in> set (role_rows st). row_role_id row = role_id role \<or> row_role_kind row = ADMIN \<and> role_kind role = ADMIN)
         \<or> (\<exists>k \<in> role_default_for role. start_rows st k \<noteq> None)
      then Inl IntegrityError
      else Inr (st\<lparr>role_rows := role_rows st @ [\<lparr>row_role_id = role_id role, row_role_name = role_name role,
                      row_role_kind = role_kind role, role_created_at = t, role_updated_at = t\<rparr>],
                   right_rows := right_rows st \<union> {role_id role} \<times> role_rights role,
                   start_rows := (\<lambda>k. if k \<in> role_default_for role then Some (role_id role) else start_rows st k)\<rparr>))"

definition update_role_row :: "string \<Rightarrow> string option \<Rightarrow> right set option \<Rightarrow> time \<Rightarrow> app_store \<Rightarrow> app_store" where
  "update_role_row rid nm rs t st =
     st\<lparr>role_rows := sql_update (\<lambda>row. row_role_id row = rid)
          (\<lambda>row. row\<lparr>row_role_name := (case nm of None \<Rightarrow> row_role_name row | Some n \<Rightarrow> Some n), role_updated_at := t\<rparr>)
          (role_rows st),
        right_rows := (case rs of None \<Rightarrow> right_rows st
          | Some held \<Rightarrow> {p \<in> right_rows st. fst p \<noteq> rid} \<union> {rid} \<times> held)\<rparr>"

text \<open>\<open>account.role_id\<close> and \<open>role_start.role_id\<close> hold a role back; its rights go with it and
  \<open>account.demoted_from\<close> is set to \<open>NULL\<close>.\<close>

definition delete_role_row :: "string \<Rightarrow> app_store \<Rightarrow> py_error + app_store" where
  "delete_role_row rid st =
     (if (\<exists>acc \<in> set (account_rows st). account_role acc = rid) \<or> (\<exists>k. start_rows st k = Some rid)
      then Inl IntegrityError
      else Inr (st\<lparr>role_rows := filter (\<lambda>row. row_role_id row \<noteq> rid) (role_rows st),
                   right_rows := {p \<in> right_rows st. fst p \<noteq> rid},
                   account_rows := sql_update (\<lambda>acc. demoted_from acc = Some rid) (\<lambda>acc. acc\<lparr>demoted_from := None\<rparr>)
                     (account_rows st)\<rparr>))"

definition role_for_start :: "start_kind \<Rightarrow> app_store \<Rightarrow> role option" where
  "role_for_start k st = Option.bind (start_rows st k) (\<lambda>rid. role_by_id rid st)"

definition set_role_start :: "start_kind \<Rightarrow> string \<Rightarrow> app_store \<Rightarrow> py_error + app_store" where
  "set_role_start k rid st =
     (if \<forall>row \<in> set (role_rows st). row_role_id row \<noteq> rid then Inl IntegrityError
      else Inr (st\<lparr>start_rows := (start_rows st)(k \<mapsto> rid)\<rparr>))"

subsection \<open>Accounts\<close>

definition plex_link_of :: "string \<Rightarrow> app_store \<Rightarrow> plex_link option" where
  "plex_link_of aid st = sql_first (\<lambda>l. link_account l = aid) (link_rows st)"

definition account_of_row :: "app_store \<Rightarrow> account_row \<Rightarrow> account" where
  "account_of_row st row = account_row.extend row \<lparr>account_link = plex_link_of (account_id row) st\<rparr>"

definition accounts :: "app_store \<Rightarrow> account list" where
  "accounts st = map (account_of_row st) (sort_key account_created_at (account_rows st))"

definition account_by_id :: "string \<Rightarrow> app_store \<Rightarrow> account option" where
  "account_by_id aid st = map_option (account_of_row st) (sql_first (\<lambda>row. account_id row = aid) (account_rows st))"

definition account_by_email :: "string \<Rightarrow> app_store \<Rightarrow> account option" where
  "account_by_email email st =
     map_option (account_of_row st) (sql_first (\<lambda>row. lower (account_email row) = lower email) (account_rows st))"

definition role_exists :: "string \<Rightarrow> app_store \<Rightarrow> bool" where
  "role_exists rid st \<longleftrightarrow> rid \<in> row_role_id ` set (role_rows st)"

text \<open>\<open>account(id)\<close> is a primary key, \<open>lower(email)\<close> unique, \<open>role_id\<close> and \<open>demoted_from\<close> name roles.\<close>

definition insert_account :: "account_row \<Rightarrow> app_store \<Rightarrow> py_error + app_store" where
  "insert_account row st =
     (if (\<exists>r \<in> set (account_rows st). account_id r = account_id row \<or> lower (account_email r) = lower (account_email row))
         \<or> \<not> role_exists (account_role row) st
         \<or> (case demoted_from row of None \<Rightarrow> False | Some rid \<Rightarrow> \<not> role_exists rid st)
      then Inl IntegrityError
      else Inr (st\<lparr>account_rows := account_rows st @ [row]\<rparr>))"

definition update_account_row :: "string \<Rightarrow> (account_row \<Rightarrow> account_row) \<Rightarrow> app_store \<Rightarrow> app_store" where
  "update_account_row aid f st = st\<lparr>account_rows := sql_update (\<lambda>row. account_id row = aid) f (account_rows st)\<rparr>"

definition set_role :: "string \<Rightarrow> string \<Rightarrow> time \<Rightarrow> string option \<Rightarrow> app_store \<Rightarrow> py_error + app_store" where
  "set_role aid rid t demoted st =
     (if (\<exists>r \<in> set (account_rows st). account_id r = aid)
         \<and> (\<not> role_exists rid st \<or> (case demoted of None \<Rightarrow> False | Some d \<Rightarrow> \<not> role_exists d st))
      then Inl IntegrityError
      else Inr (update_account_row aid (\<lambda>row. row\<lparr>account_role := rid, demoted_from := demoted, account_updated_at := t\<rparr>) st))"

definition set_password_hash :: "string \<Rightarrow> string option \<Rightarrow> time \<Rightarrow> app_store \<Rightarrow> app_store" where
  "set_password_hash aid h t st =
     update_account_row aid (\<lambda>row. row\<lparr>password_hash := h, account_updated_at := t\<rparr>) st"

definition set_sign_in_allowed :: "string \<Rightarrow> bool \<Rightarrow> time \<Rightarrow> app_store \<Rightarrow> app_store" where
  "set_sign_in_allowed aid ok t st =
     update_account_row aid (\<lambda>row. row\<lparr>sign_in_allowed := ok, account_updated_at := t\<rparr>) st"

definition set_language :: "string \<Rightarrow> language \<Rightarrow> time \<Rightarrow> app_store \<Rightarrow> app_store" where
  "set_language aid lang t st =
     update_account_row aid (\<lambda>row. row\<lparr>account_language := lang, account_updated_at := t\<rparr>) st"

text \<open>The count joins \<open>account\<close> and \<open>role\<close>.\<close>

definition count_on_role_kind :: "role_kind \<Rightarrow> app_store \<Rightarrow> nat" where
  "count_on_role_kind k st = length
     [acc \<leftarrow> account_rows st. \<exists>row \<in> set (role_rows st). row_role_id row = account_role acc \<and> row_role_kind row = k]"

definition accounts_on_role :: "string \<Rightarrow> app_store \<Rightarrow> string list" where
  "accounts_on_role rid st =
     map account_id (sort_key account_created_at (filter (\<lambda>acc. account_role acc = rid) (account_rows st)))"

subsection \<open>Plex links\<close>

definition plex_link_by_plex_id :: "int \<Rightarrow> app_store \<Rightarrow> plex_link option" where
  "plex_link_by_plex_id pid st = sql_first (\<lambda>l. plex_id l = pid) (link_rows st)"

definition owner_links :: "app_store \<Rightarrow> plex_link list" where
  "owner_links st = sort_key linked_at (filter (\<lambda>l. link_access l = OwnerAccess) (link_rows st))"

definition owner_link :: "app_store \<Rightarrow> plex_link option" where
  "owner_link st = (case owner_links st of [] \<Rightarrow> None | l # _ \<Rightarrow> Some l)"

text \<open>\<open>account_id\<close> is the primary key and references \<open>account\<close>, \<open>plex_id\<close> is unique; a token the new
  link does not carry is kept.\<close>

definition upsert_plex_link :: "plex_link \<Rightarrow> app_store \<Rightarrow> py_error + app_store" where
  "upsert_plex_link link st =
     (if (\<exists>l \<in> set (link_rows st). plex_id l = plex_id link \<and> link_account l \<noteq> link_account link)
         \<or> (\<forall>acc \<in> set (account_rows st). account_id acc \<noteq> link_account link)
      then Inl IntegrityError
      else Inr (st\<lparr>link_rows :=
        (if \<exists>l \<in> set (link_rows st). link_account l = link_account link
         then sql_update (\<lambda>l. link_account l = link_account link)
                (\<lambda>l. link\<lparr>token_ciphertext := (if token_ciphertext link = None then token_ciphertext l else token_ciphertext link),
                          token_stored_at := (if token_stored_at link = None then token_stored_at l else token_stored_at link)\<rparr>)
                (link_rows st)
         else link_rows st @ [link])\<rparr>))"

definition plex_links_with_token :: "app_store \<Rightarrow> plex_link list" where
  "plex_links_with_token st = sort_key link_account (filter (\<lambda>l. token_ciphertext l \<noteq> None) (link_rows st))"

definition set_token_ciphertext :: "string \<Rightarrow> string option \<Rightarrow> time option \<Rightarrow> app_store \<Rightarrow> app_store" where
  "set_token_ciphertext aid blob t st = st\<lparr>link_rows := sql_update (\<lambda>l. link_account l = aid)
     (\<lambda>l. l\<lparr>token_ciphertext := blob, token_stored_at := t\<rparr>) (link_rows st)\<rparr>"

end
