(* ===== verification/Account_Services.thy ===== *)
theory Account_Services
  imports Accounts
begin

text \<open>
  The services over the accounts: the roles (\<open>app/accounts/roles.py\<close>), the roster (\<open>roster.py\<close>), the
  passwords and the sign-in (\<open>credentials.py\<close>, \<open>passwords.py\<close>), the Plex sign-in (\<open>plex_sign_in.py\<close>), the
  actor of a session (\<open>sessions.py\<close>) and the views they answer (\<open>views.py\<close>). \<open>store.immediate()\<close> is one
  transaction: a method that raises inside it leaves the store as it was. Each method runs as one step
  and its readings of the clock are one reading. scrypt, SHA-256, the avatar's URL, the token vault
  and plex.tv are parameters, as are the fresh ids and values.
\<close>

subsection \<open>The world and what the services are given\<close>

datatype rights_change_cause = ROLE_ASSIGNED | ROLE_RIGHTS_CHANGED | ROLE_RENAMED | PLEX_LINKED

text \<open>A session's opening is told with the user agent its device is named from.\<close>

datatype account_event = AccountRightsChanged "string list" rights_change_cause | PlexSessionOpened string "string option"

record accounts_world =
  app :: app_store
  sign_in_limiter :: limiter
  password_limiter :: limiter
  start_limiter :: limiter
  known_owner :: "int option"
  account_events :: "account_event list"

record service_env =
  hash_token :: "string \<Rightarrow> string"
  idle_lifetime :: time
  ceiling_now :: instance_ceiling
  hash_password :: "string \<Rightarrow> string"
  verify_password :: "string \<Rightarrow> string \<Rightarrow> bool"
  avatar_of :: "plex_link option \<Rightarrow> string \<Rightarrow> string option"
  configured_language :: language
  vault_seal :: "(string \<Rightarrow> string \<Rightarrow> string) option"

type_synonym 'r answer = "py_error + ('r \<times> accounts_world)"

definition SYSTEM_ROLE_ID :: string where "SYSTEM_ROLE_ID = ''admin''"

definition with_store :: "accounts_world \<Rightarrow> app_store \<Rightarrow> accounts_world" where
  "with_store w st = w\<lparr>app := st\<rparr>"

definition publish :: "account_event \<Rightarrow> accounts_world \<Rightarrow> accounts_world" where
  "publish e w = w\<lparr>account_events := account_events w @ [e]\<rparr>"

text \<open>A lookup that refuses.\<close>

definition found_or :: "'a option \<Rightarrow> refusal_class \<Rightarrow> refusal_code \<Rightarrow> py_error + 'a" where
  "found_or x cls code = (case x of None \<Rightarrow> Inl (AppRefusal cls code) | Some y \<Rightarrow> Inr y)"

lemma found_or_Inr [simp]: "found_or x cls code = Inr y \<longleftrightarrow> x = Some y"
  by (auto simp: found_or_def split: option.splits)

subsection \<open>Views\<close>

record role_view =
  view_role_id :: string
  view_role_name :: "string option"
  view_role_kind :: role_kind
  view_role_rights :: "right list"
  view_default_for :: "start_kind list"

record account_summary =
  summary_id :: string
  summary_name :: string
  summary_email :: string
  summary_role :: role_view
  summary_sign_in_kind :: sign_in_kind
  summary_sign_in_allowed :: bool
  summary_demoted_from :: "string option"

record account_view =
  view_id :: string
  view_name :: string
  view_email :: string
  view_avatar :: "string option"
  view_role :: role_view
  view_sign_in_kind :: sign_in_kind
  view_forbidden_writes :: "right list"
  view_language :: language

definition role_view_of :: "role \<Rightarrow> role_view" where
  "role_view_of role = \<lparr>view_role_id = role_id role, view_role_name = role_name role, view_role_kind = role_kind role,
     view_role_rights = sorted_list_of_set (role_rights role),
     view_default_for = filter (\<lambda>k. k \<in> role_default_for role) [PlexHome, PlexGuest]\<rparr>"

definition summary_of :: "account \<Rightarrow> role \<Rightarrow> account_summary" where
  "summary_of acc role = \<lparr>summary_id = account_id acc, summary_name = account_name acc, summary_email = account_email acc,
     summary_role = role_view_of role, summary_sign_in_kind = sign_in_kind_of (account_link acc),
     summary_sign_in_allowed = sign_in_allowed acc, summary_demoted_from = demoted_from acc\<rparr>"

definition account_view_of :: "service_env \<Rightarrow> app_store \<Rightarrow> account \<Rightarrow> actor \<Rightarrow> py_error + account_view" where
  "account_view_of env st acc a =
     raising_bind (found_or (role_by_id (actor_role a) st) Unauthenticated AUTH_REQUIRED) (\<lambda>role.
       Inr \<lparr>view_id = account_id acc, view_name = account_name acc, view_email = account_email acc,
         view_avatar = avatar_of env (account_link acc) (account_email acc), view_role = role_view_of role,
         view_sign_in_kind = sign_in_kind_of (account_link acc),
         view_forbidden_writes = sorted_list_of_set (forbidden (actor_ceiling a)), view_language = account_language acc\<rparr>)"

subsection \<open>Roles\<close>

definition refuse_name_taken :: "app_store \<Rightarrow> string \<Rightarrow> string option \<Rightarrow> py_error + unit" where
  "refuse_name_taken st nm except_id =
     refuse_if (\<exists>role \<in> set (roles st). Some (role_id role) \<noteq> except_id
       \<and> (case role_name role of None \<Rightarrow> False | Some n \<Rightarrow> lower (strip n) = lower nm)) Conflict ROLE_NAME_TAKEN"

definition grantor_in :: "app_store \<Rightarrow> actor \<Rightarrow> grantor" where
  "grantor_in st a = grantor_of a (plex_link_of (actor_id a) st)"

definition create_role :: "time \<Rightarrow> string \<Rightarrow> actor \<Rightarrow> string \<Rightarrow> string list \<Rightarrow> accounts_world \<Rightarrow> role_view answer" where
  "create_role t fresh a nm names w = requires ''createRole'' a (\<lambda>_.
     raising_bind (rights_named names) (\<lambda>held.
       let typed = strip nm;
           role = \<lparr>role_id = ''role-'' @ fresh, role_name = Some typed, role_kind = ORDINARY, role_rights = held, role_default_for = {}\<rparr>
       in and_then (refuse_if (typed = []) BadRequest ROLE_NAME_REQUIRED)
          (and_then (refuse_name_taken (app w) typed None)
          (and_then (check_may_give_rights (grantor_in (app w) a) held)
          (raising_bind (insert_role role t (app w)) (\<lambda>st. Inr (role_view_of role, with_store w st)))))))"

text \<open>The writes of an accepted update, and the event it publishes.\<close>

definition write_role :: "time \<Rightarrow> role \<Rightarrow> string option \<Rightarrow> right set option \<Rightarrow> accounts_world \<Rightarrow> role_view answer" where
  "write_role t role new_name held w =
     (let rights_moved = held \<noteq> None \<and> held \<noteq> Some (role_rights role);
          renamed = new_name \<noteq> None \<and> new_name \<noteq> role_name role;
          st = (if rights_moved \<or> renamed
                then update_role_row (role_id role) (if renamed then new_name else None)
                       (if rights_moved then held else None) t (app w)
                else app w);
          holders = accounts_on_role (role_id role) st
      in case role_by_id (role_id role) st of
           None \<Rightarrow> Inl AssertionError
         | Some updated \<Rightarrow>
             Inr (role_view_of updated,
               if (rights_moved \<or> renamed) \<and> holders \<noteq> []
               then publish (AccountRightsChanged holders (if rights_moved then ROLE_RIGHTS_CHANGED else ROLE_RENAMED)) (with_store w st)
               else with_store w st))"

definition update_role :: "time \<Rightarrow> actor \<Rightarrow> string \<Rightarrow> string option \<Rightarrow> string list option \<Rightarrow> accounts_world \<Rightarrow> role_view answer" where
  "update_role t a rid nm names w = requires ''updateRole'' a (\<lambda>_.
     raising_bind (case names of None \<Rightarrow> Inr None | Some ns \<Rightarrow> raising_bind (rights_named ns) (\<lambda>rs. Inr (Some rs))) (\<lambda>held.
       let new_name = (case nm of None \<Rightarrow> None | Some n \<Rightarrow> if strip n = [] then None else Some (strip n));
           st = app w
       in raising_bind (found_or (role_by_id rid st) NotFound ROLE_UNKNOWN) (\<lambda>role.
          and_then (check_mutable role)
          (let g = grantor_in st a
           in and_then (check_may_change_role g role)
              (and_then (case held of None \<Rightarrow> Inr () | Some rs \<Rightarrow> check_may_give_rights g rs)
              (and_then (if nm = None then Inr () else check_may_rename g role)
              (and_then (case new_name of None \<Rightarrow> Inr () | Some n \<Rightarrow> refuse_name_taken st n (Some (role_id role)))
              (write_role t role new_name held w))))))))"

definition delete_role :: "actor \<Rightarrow> string \<Rightarrow> accounts_world \<Rightarrow> unit answer" where
  "delete_role a rid w = requires ''deleteRole'' a (\<lambda>_.
     raising_bind (found_or (role_by_id rid (app w)) NotFound ROLE_UNKNOWN) (\<lambda>role.
       and_then (check_deletable (length (accounts_on_role (role_id role) (app w))) role)
       (and_then (check_may_give (grantor_in (app w) a) role)
       (raising_bind (delete_role_row (role_id role) (app w)) (\<lambda>st. Inr ((), with_store w st))))))"

subsection \<open>Passwords\<close>

definition PASSWORD_MINIMUM :: nat where "PASSWORD_MINIMUM = 12"

text \<open>The Unicode categories of ASCII: \<open>Lu\<close> the capitals, \<open>Nd\<close> the digits, \<open>P*\<close> and \<open>S*\<close> the other
  printed characters but the space.\<close>

definition is_special :: "char \<Rightarrow> bool" where
  "is_special c \<longleftrightarrow> CHR ''!'' \<le> c \<and> c \<le> CHR ''~'' \<and> \<not> is_upper c \<and> \<not> is_digit c
     \<and> \<not> (CHR ''a'' \<le> c \<and> c \<le> CHR ''z'')"

definition policy_refusal :: "string \<Rightarrow> py_error + unit" where
  "policy_refusal password =
     and_then (refuse_if (length password < PASSWORD_MINIMUM) BadRequest PASSWORD_TOO_SHORT)
     (refuse_if (\<not> (list_ex is_upper password \<and> list_ex is_digit password \<and> list_ex is_special password))
        BadRequest PASSWORD_TOO_WEAK)"

definition provisional_refusal :: "string option \<Rightarrow> py_error + unit" where
  "provisional_refusal password =
     (if password = None \<or> password = Some [] then Inl (AppRefusal BadRequest PASSWORD_REQUIRED)
      else policy_refusal (the password))"

definition revoke_all :: "string \<Rightarrow> int option \<Rightarrow> time \<Rightarrow> app_store \<Rightarrow> app_store" where
  "revoke_all aid except_id t st = st\<lparr>store_sessions := (store_sessions st)
     \<lparr>session_rows := snd (revoke_sessions_of aid except_id t (session_rows (store_sessions st)))\<rparr>\<rparr>"

subsection \<open>The roster\<close>

definition read_account :: "service_env \<Rightarrow> actor \<Rightarrow> accounts_world \<Rightarrow> py_error + account_view" where
  "read_account env a w = requires ''readAccount'' a (\<lambda>_.
     raising_bind (found_or (account_by_id (actor_id a) (app w)) Unauthenticated AUTH_REQUIRED) (\<lambda>acc.
       account_view_of env (app w) acc a))"

definition set_own_language :: "service_env \<Rightarrow> time \<Rightarrow> actor \<Rightarrow> language \<Rightarrow> accounts_world \<Rightarrow> account_view answer" where
  "set_own_language env t a lang w = requires ''setOwnLanguage'' a (\<lambda>_.
     raising_bind (found_or (account_by_id (actor_id a) (app w)) Unauthenticated AUTH_REQUIRED) (\<lambda>acc.
       let st = set_language (account_id acc) lang t (app w)
       in raising_bind (account_view_of env st (acc\<lparr>account_language := lang\<rparr>) a) (\<lambda>view.
         Inr (view, with_store w st))))"

definition reset_account_password :: "service_env \<Rightarrow> time \<Rightarrow> actor \<Rightarrow> string \<Rightarrow> string \<Rightarrow> accounts_world \<Rightarrow> unit answer" where
  "reset_account_password env t a aid password w = requires ''resetAccountPassword'' a (\<lambda>_.
     and_then (refuse_if (actor_role_kind a \<noteq> ADMIN) Forbidden PASSWORD_RESET_ADMIN_ONLY)
     (and_then (refuse_if (aid = actor_id a) Forbidden PASSWORD_RESET_OWN)
     (raising_bind (found_or (account_by_id aid (app w)) NotFound ACCOUNT_UNKNOWN) (\<lambda>acc.
       and_then (check_password_held_here acc)
       (and_then (provisional_refusal (Some password))
       (Inr ((), with_store w (revoke_all (account_id acc) None t
          (set_password_hash (account_id acc) (Some (hash_password env password)) t (app w)))))))))) "

definition set_account_access :: "time \<Rightarrow> actor \<Rightarrow> string \<Rightarrow> bool \<Rightarrow> accounts_world \<Rightarrow> account_summary answer" where
  "set_account_access t a aid allowed w = requires ''setAccountAccess'' a (\<lambda>_.
     and_then (refuse_if (actor_role_kind a \<noteq> ADMIN) Forbidden ACCOUNT_ACCESS_ADMIN_ONLY)
     (raising_bind (found_or (account_by_id aid (app w)) NotFound ACCOUNT_UNKNOWN) (\<lambda>acc.
       and_then (check_access_cut (actor_id a) acc)
       (case role_by_id (account_role acc) (app w) of
          None \<Rightarrow> Inl AssertionError
        | Some role \<Rightarrow>
            (let moved = (sign_in_allowed acc \<noteq> allowed);
                 st = (if moved then set_sign_in_allowed (account_id acc) allowed t (app w) else app w);
                 st' = (if moved \<and> \<not> allowed then revoke_all (account_id acc) None t st else st)
             in Inr (summary_of (acc\<lparr>sign_in_allowed := allowed\<rparr>) role, with_store w st'))))))"

text \<open>\<open>by_id[account.role_id]\<close> is a dictionary lookup.\<close>

definition read_roster :: "actor \<Rightarrow> accounts_world \<Rightarrow> py_error + (account_summary list \<times> role_view list)" where
  "read_roster a w = requires ''readAccounts'' a (\<lambda>_.
     let rs = roles (app w);
         role_at = (\<lambda>acc. map_of (map (\<lambda>role. (role_id role, role)) rs) (account_role acc));
         shown = (\<lambda>acc. actor_role_kind a = ADMIN
           \<or> (case role_at acc of None \<Rightarrow> True | Some role \<Rightarrow> \<not> is_admin role));
         listed = filter shown (accounts (app w))
     in if \<exists>acc \<in> set listed. role_at acc = None then Inl KeyError
        else Inr (map (\<lambda>acc. summary_of acc (the (role_at acc))) listed, map role_view_of rs))"

definition create_account :: "service_env \<Rightarrow> time \<Rightarrow> string \<Rightarrow> actor \<Rightarrow> string \<Rightarrow> string \<Rightarrow> string \<Rightarrow> string option
    \<Rightarrow> accounts_world \<Rightarrow> account_summary answer" where
  "create_account env t fresh a nm email rid password w = requires ''createAccount'' a (\<lambda>_.
     let nm = strip nm; email = strip email
     in and_then (refuse_if (nm = [] \<or> \<not> is_email email) BadRequest ACCOUNT_EMAIL_INVALID)
        (raising_bind (found_or (role_by_id rid (app w)) NotFound ROLE_UNKNOWN) (\<lambda>role.
          let g = grantor_in (app w) a
          in and_then (check_may_give g role)
             (and_then (if is_admin role then check_may_give_admin g else Inr ())
             (and_then (refuse_if (account_by_email email (app w) \<noteq> None) Conflict ACCOUNT_EMAIL_TAKEN)
             (and_then (provisional_refusal password)
             (let row = \<lparr>account_id = ''account-'' @ fresh, account_name = nm, account_email = email, account_avatar = [],
                    account_role = role_id role, password_hash = map_option (hash_password env) password,
                    account_created_at = t, account_updated_at = t, sign_in_allowed = True, demoted_from = None,
                    account_language = configured_language env\<rparr>
              in raising_bind (insert_account row (app w)) (\<lambda>st.
                Inr (summary_of (account_row.extend row \<lparr>account_link = None\<rparr>) role, with_store w st)))))))))"

text \<open>An account put back on its own role only loses its demotion.\<close>

definition write_account_role :: "time \<Rightarrow> account \<Rightarrow> role \<Rightarrow> accounts_world \<Rightarrow> account_summary answer" where
  "write_account_role t acc target w =
     (let moved = (account_role acc \<noteq> role_id target)
      in raising_bind
           (if moved \<or> demoted_from acc \<noteq> None then set_role (account_id acc) (role_id target) t None (app w) else Inr (app w)) (\<lambda>st.
         Inr (summary_of (acc\<lparr>demoted_from := None\<rparr>) target,
           if moved then publish (AccountRightsChanged [account_id acc] ROLE_ASSIGNED) (with_store w st) else with_store w st)))"

definition update_account :: "time \<Rightarrow> actor \<Rightarrow> string \<Rightarrow> string \<Rightarrow> accounts_world \<Rightarrow> account_summary answer" where
  "update_account t a aid rid w = requires ''updateAccount'' a (\<lambda>_.
     let st = app w
     in raising_bind (found_or (account_by_id aid st) NotFound ACCOUNT_UNKNOWN) (\<lambda>acc.
        raising_bind (found_or (role_by_id rid st) NotFound ROLE_UNKNOWN) (\<lambda>target.
        raising_bind (found_or (role_by_id (account_role acc) st) NotFound ROLE_UNKNOWN) (\<lambda>current.
          let g = grantor_in st a
          in and_then (check_may_touch g acc current target)
             (and_then (check_may_give g target)
             (and_then (if is_admin target \<and> \<not> is_admin current then check_may_give_admin g else Inr ())
             (and_then (check_leaves_admin current target (count_on_role_kind ADMIN st) acc)
             (write_account_role t acc target w))))))))"

end
