(* ===== verification/Sign_In.thy ===== *)
theory Sign_In
  imports Account_Services
begin

text \<open>
  Signing in: with a password and the owner's seeding (\<open>app/accounts/credentials.py\<close>), and with Plex
  (\<open>plex_sign_in.py\<close>, the PINs of \<open>pin_repository.py\<close>). plex.tv and the Plex server are the fields of
  \<open>plex_api\<close>; their answers are what the clients of \<open>api/plex_account.py\<close> return or raise.
\<close>

subsection \<open>The actor of a session\<close>

definition actor_in :: "instance_ceiling \<Rightarrow> app_store \<Rightarrow> string \<Rightarrow> actor option" where
  "actor_in ceil st aid =
     (case account_by_id aid st of
        None \<Rightarrow> None
      | Some acc \<Rightarrow>
          (case role_by_id (account_role acc) st of
             None \<Rightarrow> None
           | Some role \<Rightarrow> Some \<lparr>actor_id = account_id acc, actor_name = account_name acc, actor_role = role_id role,
               actor_role_kind = role_kind role, actor_role_rights = role_rights role, actor_ceiling = ceil\<rparr>))"

definition session_actor :: "service_env \<Rightarrow> string \<Rightarrow> time \<Rightarrow> accounts_world \<Rightarrow> actor option \<times> accounts_world" where
  "session_actor env token t w =
     (let (a, s) = resolve (hash_token env) (actor_in (ceiling_now env) (app w)) token t (store_sessions (app w))
      in (a, with_store w ((app w)\<lparr>store_sessions := s\<rparr>)))"

subsection \<open>Passwords\<close>

text \<open>The session is opened in one transaction with the check that the account may sign in.\<close>

definition open_proven_session :: "service_env \<Rightarrow> time \<Rightarrow> string \<Rightarrow> string \<Rightarrow> string option \<Rightarrow> accounts_world
    \<Rightarrow> (py_error + (account_view \<times> string)) \<times> accounts_world" where
  "open_proven_session env t fresh aid ua w =
     (case raising_bind (found_or (account_by_id aid (app w)) Unauthenticated AUTH_REFUSED) (\<lambda>acc.
             and_then (refuse_if (\<not> sign_in_allowed acc) Forbidden AUTH_ACCESS_DISABLED)
             (raising_bind (open_session (hash_token env) (idle_lifetime env) aid ua t fresh (store_sessions (app w))) (\<lambda>(token, s).
               Inr (acc, token, with_store w ((app w)\<lparr>store_sessions := s\<rparr>))))) of
        Inl e \<Rightarrow> (Inl e, w)
      | Inr (acc, token, w) \<Rightarrow>
          (let (found, w) = session_actor env token t w
           in case found of
                None \<Rightarrow> (Inl (AppRefusal Unauthenticated AUTH_REQUIRED), w)
              | Some a \<Rightarrow>
                  (raising_bind (account_view_of env (app w) (acc\<lparr>account_link := plex_link_of (account_id acc) (app w)\<rparr>) a)
                     (\<lambda>view. Inr (view, token)), w)))"

definition sign_in_with_password :: "service_env \<Rightarrow> time \<Rightarrow> string \<Rightarrow> string \<Rightarrow> string \<Rightarrow> string \<Rightarrow> string option
    \<Rightarrow> accounts_world \<Rightarrow> (py_error + (account_view \<times> string)) \<times> accounts_world" where
  "sign_in_with_password env t fresh email password client_key ua w =
     (let (ok, rl) = allow client_key t (sign_in_limiter w); w = w\<lparr>sign_in_limiter := rl\<rparr>
      in if \<not> ok then (Inl (AppRefusal TooManyRequests AUTH_RATE_LIMITED), w)
         else (let found = account_by_email email (app w);
                   matches = (case found of None \<Rightarrow> False | Some acc \<Rightarrow>
                     (case password_hash acc of None \<Rightarrow> False | Some h \<Rightarrow> verify_password env password h))
               in case found of
                    None \<Rightarrow> (Inl (AppRefusal Unauthenticated AUTH_REFUSED),
                             w\<lparr>sign_in_limiter := record_failure client_key t (sign_in_limiter w)\<rparr>)
                  | Some acc \<Rightarrow>
                      if \<not> matches \<or> sign_in_kind_of (account_link acc) = PLEX_ACCOUNT
                      then (Inl (AppRefusal Unauthenticated AUTH_REFUSED),
                            w\<lparr>sign_in_limiter := record_failure client_key t (sign_in_limiter w)\<rparr>)
                      else open_proven_session env t fresh (account_id acc) ua w))"

definition owner_account_id :: "app_store \<Rightarrow> py_error + string option" where
  "owner_account_id st =
     (let links = owner_links st
      in if length links > 1 then Inl AmbiguousOwner
         else Inr (case links of [] \<Rightarrow> None | l # _ \<Rightarrow> Some (link_account l)))"

definition system_actor_in :: "instance_ceiling \<Rightarrow> app_store \<Rightarrow> actor" where
  "system_actor_in ceil st =
     (let owner_id = (case owner_account_id st of Inl _ \<Rightarrow> None | Inr x \<Rightarrow> x);
          attributed = Option.bind owner_id (\<lambda>i. account_by_id i st);
          attributed' = (if attributed = None
            then (case accounts_on_role SYSTEM_ROLE_ID st of [] \<Rightarrow> None | i # _ \<Rightarrow> account_by_id i st)
            else attributed)
      in case attributed' of
           None \<Rightarrow> system_actor ceil ''system'' ''system''
         | Some acc \<Rightarrow> system_actor ceil (account_id acc) (account_name acc))"

definition set_password :: "service_env \<Rightarrow> time \<Rightarrow> string \<Rightarrow> string \<Rightarrow> accounts_world \<Rightarrow> unit answer" where
  "set_password env t email password w =
     and_then (policy_refusal password)
     (raising_bind (found_or (account_by_email email (app w)) NotFound ACCOUNT_UNKNOWN) (\<lambda>acc.
       Inr ((), with_store w (set_password_hash (account_id acc) (Some (hash_password env password)) t (app w)))))"

record owner_identity =
  owner_plex_id :: int
  owner_plex_uuid :: string
  owner_plex_username :: string

definition create_owner :: "service_env \<Rightarrow> time \<Rightarrow> string \<Rightarrow> string \<Rightarrow> string \<Rightarrow> string \<Rightarrow> owner_identity \<Rightarrow> accounts_world
    \<Rightarrow> string answer" where
  "create_owner env t fresh email nm password plex w =
     (let nm = strip nm; email = strip email; st = app w; aid = ''account-'' @ fresh
      in and_then (refuse_if (nm = [] \<or> \<not> is_email email) BadRequest ACCOUNT_EMAIL_INVALID)
         (and_then (refuse_if (password = []) BadRequest PASSWORD_REQUIRED)
         (and_then (policy_refusal password)
         (if count_on_role_kind ADMIN st > 0 \<or> owner_link st \<noteq> None \<or> plex_link_by_plex_id (owner_plex_id plex) st \<noteq> None
          then Inl OwnerAlreadySeeded
          else and_then (refuse_if (account_by_email email st \<noteq> None) Conflict ACCOUNT_EMAIL_TAKEN)
            (case role_by_id SYSTEM_ROLE_ID st of
               None \<Rightarrow> Inl (AppRefusal NotFound ROLE_UNKNOWN)
             | Some role \<Rightarrow>
                 if role_kind role \<noteq> ADMIN then Inl (AppRefusal NotFound ROLE_UNKNOWN)
                 else raising_bind (insert_account
                   \<lparr>account_id = aid, account_name = nm, account_email = email, account_avatar = [],
                    account_role = role_id role, password_hash = Some (hash_password env password),
                    account_created_at = t, account_updated_at = t, sign_in_allowed = True, demoted_from = None,
                    account_language = configured_language env\<rparr> st) (\<lambda>st.
                   raising_bind (upsert_plex_link
                     \<lparr>link_account = aid, plex_id = owner_plex_id plex, plex_uuid = owner_plex_uuid plex,
                      plex_username = owner_plex_username plex, link_access = OwnerAccess, token_ciphertext = None,
                      token_stored_at = None, linked_at = t, last_sign_in_at = None\<rparr> st) (\<lambda>st.
                     Inr (aid, with_store w st))))))))"

text \<open>The account is read again in the transaction; as one step it is the account read before.\<close>

definition change_own_password :: "service_env \<Rightarrow> time \<Rightarrow> actor \<Rightarrow> string \<Rightarrow> string \<Rightarrow> string \<Rightarrow> accounts_world
    \<Rightarrow> (py_error + unit) \<times> accounts_world" where
  "change_own_password env t a token current_password new_password w =
     (case requires ''changeOwnPassword'' a (\<lambda>_.
         raising_bind (found_or (account_by_id (actor_id a) (app w)) Unauthenticated AUTH_REQUIRED) (\<lambda>acc.
           and_then (check_password_held_here acc) (Inr acc))) of
        Inl e \<Rightarrow> (Inl e, w)
      | Inr acc \<Rightarrow>
          (let (ok, rl) = allow (account_id acc) t (password_limiter w); w = w\<lparr>password_limiter := rl\<rparr>
           in if \<not> ok then (Inl (AppRefusal TooManyRequests AUTH_RATE_LIMITED), w)
              else if \<not> (case password_hash acc of None \<Rightarrow> False | Some h \<Rightarrow> verify_password env current_password h)
              then (Inl (AppRefusal BadRequest PASSWORD_CURRENT_WRONG),
                    w\<lparr>password_limiter := record_failure (account_id acc) t (password_limiter w)\<rparr>)
              else case policy_refusal new_password of
                Inl e \<Rightarrow> (Inl e, w)
              | Inr _ \<Rightarrow>
                  (let (kept, s) = live_session_id (hash_token env) token t (store_sessions (app w));
                       w = with_store w ((app w)\<lparr>store_sessions := s\<rparr>)
                   in (Inr (), with_store w (revoke_all (account_id acc) kept t
                        (set_password_hash (account_id acc) (Some (hash_password env new_password)) t (app w)))))))"

definition sign_out :: "service_env \<Rightarrow> time \<Rightarrow> actor \<Rightarrow> string \<Rightarrow> accounts_world \<Rightarrow> unit answer" where
  "sign_out env t a token w = requires ''signOut'' a (\<lambda>_.
     Inr ((), with_store w ((app w)\<lparr>store_sessions := close_session (hash_token env) token t (store_sessions (app w))\<rparr>)))"

subsection \<open>plex.tv\<close>

datatype plex_error = PlexPinExpired | PlexTokenRefused | PlexAccountUnreachable

datatype plex_access = PLEX_OWNER | PLEX_HOME | PLEX_SHARED | PLEX_NONE

record plex_account =
  plex_account_id :: int
  plex_account_uuid :: string
  plex_account_username :: string
  plex_title :: string
  plex_email :: string
  plex_confirmed :: bool

text \<open>\<open>plex_server\<close> is \<open>None\<close> when no server is configured, else the identifier it answers.\<close>

record plex_api =
  create_pin :: "plex_error + (int \<times> string \<times> time option)"
  check_pin :: "int \<Rightarrow> string \<Rightarrow> plex_error + string option"
  account_behind :: "string \<Rightarrow> plex_error + plex_account"
  server_access_of :: "string \<Rightarrow> string \<Rightarrow> plex_error + plex_access"
  plex_server :: "string option option"
  server_token :: string

subsection \<open>The PINs\<close>

definition insert_pin :: "pin_row \<Rightarrow> app_store \<Rightarrow> py_error + app_store" where
  "insert_pin row st = (if \<exists>p \<in> set (pin_rows st). pin_id p = pin_id row then Inl IntegrityError
     else Inr (st\<lparr>pin_rows := pin_rows st @ [row]\<rparr>))"

definition pin_by_id :: "int \<Rightarrow> app_store \<Rightarrow> pin_row option" where
  "pin_by_id i st = sql_first (\<lambda>p. pin_id p = i) (pin_rows st)"

definition mark_pin_checked :: "int \<Rightarrow> time \<Rightarrow> app_store \<Rightarrow> app_store" where
  "mark_pin_checked i t st =
     st\<lparr>pin_rows := sql_update (\<lambda>p. pin_id p = i) (\<lambda>p. p\<lparr>last_checked_at := Some t\<rparr>) (pin_rows st)\<rparr>"

definition claim_pin_check :: "int \<Rightarrow> time \<Rightarrow> time \<Rightarrow> app_store \<Rightarrow> bool \<times> app_store" where
  "claim_pin_check i t min_interval st =
     (let P = (\<lambda>p. pin_id p = i \<and> consumed_at p = None
        \<and> (case last_checked_at p of None \<Rightarrow> True | Some c \<Rightarrow> c \<le> t - min_interval))
      in (sql_count P (pin_rows st) = 1,
          st\<lparr>pin_rows := sql_update P (\<lambda>p. p\<lparr>last_checked_at := Some t\<rparr>) (pin_rows st)\<rparr>))"

definition consume_pin :: "int \<Rightarrow> time \<Rightarrow> app_store \<Rightarrow> bool \<times> app_store" where
  "consume_pin i t st =
     (let P = (\<lambda>p. pin_id p = i \<and> consumed_at p = None)
      in (sql_count P (pin_rows st) = 1,
          st\<lparr>pin_rows := sql_update P (\<lambda>p. p\<lparr>consumed_at := Some t\<rparr>) (pin_rows st)\<rparr>))"

text \<open>\<open>DELETE ... IN (SELECT ... LIMIT limit)\<close>: the first rows of those no sign-in can use.\<close>

definition purge_pins :: "time \<Rightarrow> time \<Rightarrow> nat \<Rightarrow> app_store \<Rightarrow> app_store" where
  "purge_pins t lifetime most st =
     (let dead = (\<lambda>p. consumed_at p \<noteq> None
            \<or> (case pin_expires_at p of Some e \<Rightarrow> e \<le> t | None \<Rightarrow> pin_created_at p \<le> t - lifetime));
          gone = map pin_id (take most (filter dead (pin_rows st)))
      in st\<lparr>pin_rows := filter (\<lambda>p. pin_id p \<notin> set gone) (pin_rows st)\<rparr>)"

subsection \<open>The Plex sign-in\<close>

definition PIN_CHECK_MIN_INTERVAL_S :: time where "PIN_CHECK_MIN_INTERVAL_S = 1"

definition PIN_LIFETIME_FALLBACK_S :: time where "PIN_LIFETIME_FALLBACK_S = 1800"

definition PIN_PURGE_LIMIT :: nat where "PIN_PURGE_LIMIT = 100"

text \<open>\<open>start\<close>: the PIN's id, the nonce and the lifetime of its cookie; an error of plex.tv other than
  its silence is not caught.\<close>

definition plex_start :: "(string \<Rightarrow> string) \<Rightarrow> plex_api \<Rightarrow> time \<Rightarrow> string \<Rightarrow> string \<Rightarrow> accounts_world
    \<Rightarrow> (py_error + (int \<times> string \<times> int)) \<times> accounts_world" where
  "plex_start nonce_hash_of api t nonce client_key w =
     (if plex_server api = None then (Inl (AppRefusal Unavailable PLEX_SERVER_UNREACHABLE), w)
      else (let (ok, rl) = allow client_key t (start_limiter w); w = w\<lparr>start_limiter := rl\<rparr>
            in if \<not> ok then (Inl (AppRefusal TooManyRequests AUTH_RATE_LIMITED), w)
               else (let w = w\<lparr>start_limiter := record_failure client_key t (start_limiter w)\<rparr>
                     in case create_pin api of
                          Inl PlexAccountUnreachable \<Rightarrow> (Inl (AppRefusal Unavailable PLEX_UNREACHABLE), w)
                        | Inl _ \<Rightarrow> (Inl PlexAccountError, w)
                        | Inr (i, code, expires) \<Rightarrow>
                            (let w = with_store w (purge_pins t PIN_LIFETIME_FALLBACK_S PIN_PURGE_LIMIT (app w))
                             in case insert_pin \<lparr>pin_id = i, pin_code = code, nonce_hash = nonce_hash_of nonce,
                                      pin_created_at = t, pin_expires_at = expires, last_checked_at = None,
                                      consumed_at = None\<rparr> (app w) of
                                  Inl e \<Rightarrow> (Inl e, w)
                                | Inr st \<Rightarrow> (Inr (i, nonce, max 1 \<lfloor>case expires of None \<Rightarrow> PIN_LIFETIME_FALLBACK_S | Some e \<Rightarrow> e - t\<rfloor>),
                                             with_store w st)))))"

definition live_pin :: "(string \<Rightarrow> string) \<Rightarrow> int \<Rightarrow> string option \<Rightarrow> time \<Rightarrow> app_store \<Rightarrow> py_error + pin_row" where
  "live_pin nonce_hash_of i nonce t st =
     (case pin_by_id i st of
        None \<Rightarrow> Inl (AppRefusal BadRequest PLEX_PIN_UNKNOWN)
      | Some row \<Rightarrow>
          if \<not> (consumed_at row = None \<and> nonce \<noteq> None \<and> nonce_hash row = nonce_hash_of (the nonce))
          then Inl (AppRefusal BadRequest PLEX_PIN_UNKNOWN)
          else if (case pin_expires_at row of None \<Rightarrow> False | Some e \<Rightarrow> t \<ge> e) then Inl (AppRefusal Conflict PLEX_PIN_EXPIRED)
          else Inr row)"

text \<open>What a call of plex.tv or of \<open>_access\<close> raises: an error of the client, or a refusal.\<close>

datatype door_error = Plex plex_error | App py_error

fun door_refusal :: "door_error \<Rightarrow> py_error" where
  "door_refusal (Plex PlexPinExpired) = AppRefusal Conflict PLEX_PIN_EXPIRED"
| "door_refusal (Plex PlexTokenRefused) = AppRefusal Unauthenticated PLEX_TOKEN_REFUSED"
| "door_refusal (Plex PlexAccountUnreachable) = AppRefusal Unavailable PLEX_UNREACHABLE"
| "door_refusal (App e) = e"

text \<open>The server's owner is read once and kept.\<close>

definition server_owner :: "plex_api \<Rightarrow> accounts_world \<Rightarrow> (door_error + int) \<times> accounts_world" where
  "server_owner api w =
     (case known_owner w of
        Some i \<Rightarrow> (Inr i, w)
      | None \<Rightarrow>
          if server_token api = [] then (Inl (App (AppRefusal Unavailable PLEX_SERVER_UNREACHABLE)), w)
          else case account_behind api (server_token api) of
                 Inl PlexTokenRefused \<Rightarrow> (Inl (App (AppRefusal Unavailable PLEX_SERVER_UNREACHABLE)), w)
               | Inl e \<Rightarrow> (Inl (Plex e), w)
               | Inr acc \<Rightarrow> (Inr (plex_account_id acc), w\<lparr>known_owner := Some (plex_account_id acc)\<rparr>))"

definition access_of :: "plex_api \<Rightarrow> string \<Rightarrow> plex_account \<Rightarrow> accounts_world \<Rightarrow> (door_error + plex_access) \<times> accounts_world" where
  "access_of api token plex w =
     (case plex_server api of
        None \<Rightarrow> (Inl (App AssertionError), w)
      | Some machine \<Rightarrow>
          if machine = None \<or> machine = Some [] then (Inl (App (AppRefusal Unavailable PLEX_SERVER_UNREACHABLE)), w)
          else case server_access_of api token (the machine) of
                 Inl e \<Rightarrow> (Inl (Plex e), w)
               | Inr PLEX_OWNER \<Rightarrow>
                   (case server_owner api w of
                      (Inl e, w) \<Rightarrow> (Inl e, w)
                    | (Inr i, w) \<Rightarrow> (Inr (if plex_account_id plex \<noteq> i then PLEX_NONE else PLEX_OWNER), w))
               | Inr access \<Rightarrow> (Inr access, w))"

definition first_role :: "app_store \<Rightarrow> plex_access \<Rightarrow> py_error + role" where
  "first_role st access =
     found_or (if access = PLEX_OWNER then role_by_id SYSTEM_ROLE_ID st
               else role_for_start (if access = PLEX_HOME then PlexHome else PlexGuest) st) InternalError INTERNAL"

definition refuse_cut :: "account \<Rightarrow> py_error + unit" where
  "refuse_cut acc = refuse_if (\<not> sign_in_allowed acc) Forbidden AUTH_ACCESS_DISABLED"

definition plex_new_account :: "service_env \<Rightarrow> time \<Rightarrow> string \<Rightarrow> plex_account \<Rightarrow> role \<Rightarrow> account_row" where
  "plex_new_account env t fresh plex role =
     \<lparr>account_id = ''account-'' @ fresh,
      account_name = (if plex_title plex \<noteq> [] then plex_title plex
        else if plex_account_username plex \<noteq> [] then plex_account_username plex
        else takeWhile (\<lambda>c. c \<noteq> CHR ''@'') (plex_email plex)),
      account_email = plex_email plex, account_avatar = [], account_role = role_id role, password_hash = None,
      account_created_at = t, account_updated_at = t, sign_in_allowed = True, demoted_from = None,
      account_language = configured_language env\<rparr>"

definition link_by_email :: "time \<Rightarrow> account \<Rightarrow> role \<Rightarrow> bool \<Rightarrow> app_store \<Rightarrow> py_error + (bool \<times> app_store)" where
  "link_by_email t acc role owner st =
     (let moved = (account_role acc \<noteq> role_id role)
      in raising_bind (if moved then set_role (account_id acc) (role_id role) t
              (if owner then None else Some (account_role acc)) st else Inr st) (\<lambda>st.
         Inr (moved, if \<not> owner \<and> password_hash acc \<noteq> None
           then revoke_all (account_id acc) None t (set_password_hash (account_id acc) None t st) else st)))"

text \<open>\<open>_admit\<close>, one transaction: the account of the identity, found by its link, by its confirmed e-mail, or
  created, with the date of its link and whether its role moved; then the PIN is consumed and the link
  written.\<close>

definition plex_account_for :: "service_env \<Rightarrow> time \<Rightarrow> string \<Rightarrow> plex_account \<Rightarrow> plex_access \<Rightarrow> app_store
    \<Rightarrow> py_error + (string \<times> time \<times> bool \<times> app_store)" where
  "plex_account_for env t fresh plex access st =
     (case plex_link_by_plex_id (plex_account_id plex) st of
        Some link \<Rightarrow>
          (case account_by_id (link_account link) st of
             None \<Rightarrow> Inl AssertionError
           | Some acc \<Rightarrow> and_then (refuse_cut acc) (Inr (account_id acc, linked_at link, False, st)))
      | None \<Rightarrow>
          (case account_by_email (plex_email plex) st of
             None \<Rightarrow> raising_bind (first_role st access) (\<lambda>role.
               let row = plex_new_account env t fresh plex role
               in raising_bind (insert_account row st) (\<lambda>st. Inr (account_id row, t, False, st)))
           | Some found \<Rightarrow>
               and_then (refuse_if (\<not> plex_confirmed plex) Unauthenticated AUTH_REFUSED)
               (and_then (refuse_if (account_link found \<noteq> None) Unauthenticated AUTH_REFUSED)
               (and_then (refuse_cut found)
               (raising_bind (first_role st access) (\<lambda>role.
                 raising_bind (link_by_email t found role (access = PLEX_OWNER) st) (\<lambda>(moved, st).
                   Inr (account_id found, t, moved, st))))))))"

definition plex_admit :: "service_env \<Rightarrow> time \<Rightarrow> string \<Rightarrow> int \<Rightarrow> plex_account \<Rightarrow> plex_access \<Rightarrow> string \<Rightarrow> app_store
    \<Rightarrow> py_error + ((string \<times> bool) \<times> app_store)" where
  "plex_admit env t fresh pin plex access token st =
     raising_bind (plex_account_for env t fresh plex access st) (\<lambda>(aid, linked, moved, st).
       let (consumed, st) = consume_pin pin t st
       in and_then (refuse_if (\<not> consumed) BadRequest PLEX_PIN_UNKNOWN)
          (let sealed = map_option (\<lambda>seal. seal aid token) (vault_seal env)
           in raising_bind (upsert_plex_link
               \<lparr>link_account = aid, plex_id = plex_account_id plex, plex_uuid = plex_account_uuid plex,
                plex_username = plex_account_username plex,
                link_access = (if access = PLEX_OWNER then OwnerAccess else SharedAccess),
                token_ciphertext = sealed, token_stored_at = (if sealed = None then None else Some t),
                linked_at = linked, last_sign_in_at = Some t\<rparr> st) (\<lambda>st. Inr ((aid, moved), st))))"

datatype plex_outcome = PlexPending | PlexSignedIn account_view string

text \<open>What \<open>finish\<close> asks plex.tv once it claimed the check: \<open>None\<close> while the PIN is not confirmed.\<close>

definition ask_plex :: "plex_api \<Rightarrow> int \<Rightarrow> string \<Rightarrow> accounts_world
    \<Rightarrow> (door_error + (string \<times> plex_account \<times> plex_access) option) \<times> accounts_world" where
  "ask_plex api i code w =
     (case check_pin api i code of
        Inl e \<Rightarrow> (Inl (Plex e), w)
      | Inr None \<Rightarrow> (Inr None, w)
      | Inr (Some token) \<Rightarrow>
          (case account_behind api token of
             Inl e \<Rightarrow> (Inl (Plex e), w)
           | Inr plex \<Rightarrow>
               (case access_of api token plex w of
                  (Inl e, w) \<Rightarrow> (Inl e, w)
                | (Inr access, w) \<Rightarrow> (Inr (Some (token, plex, access)), w))))"

definition plex_finish :: "service_env \<Rightarrow> (string \<Rightarrow> string) \<Rightarrow> plex_api \<Rightarrow> time \<Rightarrow> string \<Rightarrow> string \<Rightarrow> int \<Rightarrow> string option
    \<Rightarrow> string option \<Rightarrow> accounts_world \<Rightarrow> (py_error + plex_outcome) \<times> accounts_world" where
  "plex_finish env nonce_hash_of api t fresh_account fresh_token i nonce ua w =
     (case live_pin nonce_hash_of i nonce t (app w) of
        Inl e \<Rightarrow> (Inl e, w)
      | Inr row \<Rightarrow>
          if plex_server api = None then (Inl (AppRefusal Unavailable PLEX_SERVER_UNREACHABLE), w)
          else (let (claimed, st) = claim_pin_check i t PIN_CHECK_MIN_INTERVAL_S (app w); w = with_store w st
                in if \<not> claimed then (Inr PlexPending, w)
                   else case ask_plex api i (pin_code row) w of
                     (Inl e, w) \<Rightarrow> (Inl (door_refusal e), w)
                   | (Inr None, w) \<Rightarrow> (Inr PlexPending, w)
                   | (Inr (Some (token, plex, access)), w) \<Rightarrow>
                       (let burnt = with_store w (snd (consume_pin i t (app w)))
                        in if access = PLEX_NONE then (Inl (AppRefusal Unauthenticated AUTH_REFUSED), burnt)
                           else case plex_admit env t fresh_account i plex access token (app w) of
                             Inl (AppRefusal Unauthenticated code) \<Rightarrow> (Inl (AppRefusal Unauthenticated code), burnt)
                           | Inl (AppRefusal Forbidden code) \<Rightarrow> (Inl (AppRefusal Forbidden code), burnt)
                           | Inl e \<Rightarrow> (Inl e, w)
                           | Inr ((aid, moved), st) \<Rightarrow>
                               (let w = with_store w st;
                                    w = (if moved then publish (AccountRightsChanged [aid] PLEX_LINKED) w else w)
                                in case open_proven_session env t fresh_token aid ua w of
                                     (Inl e, w) \<Rightarrow> (Inl e, w)
                                   | (Inr (view, value), w) \<Rightarrow>
                                       (Inr (PlexSignedIn view value), publish (PlexSessionOpened aid ua) w)))))"

end
