(* ===== verification/Account_Tables.thy ===== *)
theory Account_Tables
  imports Sign_In
begin

text \<open>
  The invariant of the account tables and what each statement of the repositories does to it. The
  invariant reads four projections: the roles with their kinds, the accounts with their role and access,
  the Plex links, and the accounts that have a session not revoked. The statements' lemmas say how
  they move these projections; \<open>Account_Safety\<close> reduces the services to the statements.
\<close>

subsection \<open>The invariant\<close>

text \<open>The invariant reads these projections of the tables only.\<close>

definition role_kinds :: "app_store \<Rightarrow> (string \<times> role_kind) list" where
  "role_kinds st = map (\<lambda>row. (row_role_id row, row_role_kind row)) (role_rows st)"

definition holders :: "app_store \<Rightarrow> (string \<times> string \<times> bool) list" where
  "holders st = map (\<lambda>acc. (account_id acc, account_role acc, sign_in_allowed acc)) (account_rows st)"

definition signed_in :: "app_store \<Rightarrow> string set" where
  "signed_in st = session_account ` {row \<in> set (session_rows (store_sessions st)). revoked_at row = None}"

definition roles_held :: "app_store \<Rightarrow> string set" where
  "roles_held st = (fst \<circ> snd) ` set (holders st)"

definition admin_roles :: "app_store \<Rightarrow> string set" where
  "admin_roles st = {i. (i, ADMIN) \<in> set (role_kinds st)}"

definition cut_off :: "app_store \<Rightarrow> string set" where
  "cut_off st = set (map fst (filter (\<lambda>h. \<not> snd (snd h)) (holders st)))"

definition keys_ok :: "app_store \<Rightarrow> bool" where
  "keys_ok st \<longleftrightarrow> distinct (map fst (role_kinds st)) \<and> distinct (map fst (holders st))
     \<and> distinct (map link_account (link_rows st)) \<and> distinct (map plex_id (link_rows st))
     \<and> roles_held st \<subseteq> fst ` set (role_kinds st) \<and> link_account ` set (link_rows st) \<subseteq> set (map fst (holders st))"

definition system_role_ok :: "app_store \<Rightarrow> bool" where
  "system_role_ok st \<longleftrightarrow> admin_roles st = {SYSTEM_ROLE_ID}"

text \<open>The account of the server's owner \<open>n\<close>, once linked, is on the Admin role and may sign in.\<close>

definition owner_ok :: "int \<Rightarrow> app_store \<Rightarrow> bool" where
  "owner_ok n st \<longleftrightarrow> (\<forall>l \<in> set (link_rows st). (link_access l = OwnerAccess \<longleftrightarrow> plex_id l = n)
     \<and> (plex_id l = n \<longrightarrow> (link_account l, SYSTEM_ROLE_ID, True) \<in> set (holders st)))"

text \<open>An account whose access is cut has no session that is not revoked.\<close>

definition cut_ok :: "app_store \<Rightarrow> bool" where
  "cut_ok st \<longleftrightarrow> cut_off st \<inter> signed_in st = {}"

definition accounts_ok :: "int \<Rightarrow> app_store \<Rightarrow> bool" where
  "accounts_ok n st \<longleftrightarrow> keys_ok st \<and> system_role_ok st \<and> owner_ok n st \<and> cut_ok st"

lemma accounts_okI:
  "keys_ok st \<Longrightarrow> system_role_ok st \<Longrightarrow> owner_ok n st \<Longrightarrow> cut_ok st \<Longrightarrow> accounts_ok n st"
  by (simp add: accounts_ok_def)

lemma accounts_okD:
  "accounts_ok n st \<Longrightarrow> keys_ok st" "accounts_ok n st \<Longrightarrow> system_role_ok st"
  "accounts_ok n st \<Longrightarrow> owner_ok n st" "accounts_ok n st \<Longrightarrow> cut_ok st"
  by (simp_all add: accounts_ok_def)

lemmas accounts_ok_defs = accounts_ok_def keys_ok_def system_role_ok_def owner_ok_def cut_ok_def
  roles_held_def admin_roles_def cut_off_def

lemma accounts_ok_cong:
  assumes "role_kinds st' = role_kinds st" "holders st' = holders st" "link_rows st' = link_rows st"
    "signed_in st' \<subseteq> signed_in st" and "accounts_ok n st"
  shows "accounts_ok n st'"
  using assms by (auto simp: accounts_ok_defs)

lemma keys_okD:
  assumes "keys_ok st"
  shows "distinct (map row_role_id (role_rows st))" "distinct (map account_id (account_rows st))"
    "distinct (map link_account (link_rows st))" "distinct (map plex_id (link_rows st))"
  using assms by (simp_all add: keys_ok_def role_kinds_def holders_def comp_def)

lemma in_holders: "x \<in> set (holders st) \<longleftrightarrow>
    (\<exists>acc \<in> set (account_rows st). x = (account_id acc, account_role acc, sign_in_allowed acc))"
  by (auto simp: holders_def)

lemma in_role_kinds: "x \<in> set (role_kinds st) \<longleftrightarrow> (\<exists>row \<in> set (role_rows st). x = (row_role_id row, row_role_kind row))"
  by (auto simp: role_kinds_def)

lemma role_exists_kinds: "role_exists rid st \<longleftrightarrow> rid \<in> fst ` set (role_kinds st)"
  by (simp add: role_exists_def role_kinds_def image_image)

subsection \<open>Reading the tables\<close>

lemma role_by_id_Some:
  assumes "role_by_id rid st = Some role"
  shows "\<exists>row \<in> set (role_rows st). row_role_id row = rid \<and> role = role_of_row st row"
  using assms by (auto simp: role_by_id_def dest: sql_first_SomeD)

lemma role_by_id_iff:
  assumes "keys_ok st"
  shows "role_by_id rid st = Some role \<longleftrightarrow> (\<exists>row \<in> set (role_rows st). row_role_id row = rid \<and> role = role_of_row st row)"
  using sql_first_keyed [OF keys_okD(1) [OF assms], of rid] by (auto simp: role_by_id_def)

lemma role_of_row_sel [simp]:
  "role_id (role_of_row st row) = row_role_id row" "role_kind (role_of_row st row) = row_role_kind row"
  "role_name (role_of_row st row) = row_role_name row"
  "role_rights (role_of_row st row) = {r. (row_role_id row, r) \<in> right_rows st}"
  by (simp_all add: role_of_row_def)

lemma role_by_id_id: "role_by_id rid st = Some role \<Longrightarrow> role_id role = rid"
  using role_by_id_Some [of rid st role] by auto

lemma role_by_id_admin:
  assumes "system_role_ok st" and "role_by_id rid st = Some role" and "keys_ok st"
  shows "is_admin role \<longleftrightarrow> rid = SYSTEM_ROLE_ID"
proof -
  obtain row where "row \<in> set (role_rows st)" "row_role_id row = rid" "role = role_of_row st row"
    using role_by_id_Some [OF assms(2)] by blast
  then have rid: "(rid, role_kind role) \<in> set (role_kinds st)" by (auto simp: in_role_kinds)
  show ?thesis
  proof
    assume "is_admin role"
    with rid have "rid \<in> admin_roles st" by (simp add: is_admin_def admin_roles_def)
    with assms(1) show "rid = SYSTEM_ROLE_ID" by (simp add: system_role_ok_def)
  next
    assume r: "rid = SYSTEM_ROLE_ID"
    have "SYSTEM_ROLE_ID \<in> admin_roles st" using assms(1) by (simp add: system_role_ok_def)
    with rid r assms(3) show "is_admin role"
      by (auto simp: is_admin_def admin_roles_def keys_ok_def dest: eq_key_imp_eq_value)
  qed
qed

lemma role_exists_iff: "role_exists rid st \<longleftrightarrow> (\<exists>role. role_by_id rid st = Some role)"
proof
  assume "role_exists rid st"
  then have "sql_first (\<lambda>row. row_role_id row = rid) (role_rows st) \<noteq> None"
    by (auto simp: role_exists_def sql_first_None)
  then show "\<exists>role. role_by_id rid st = Some role" by (auto simp: role_by_id_def)
next
  assume "\<exists>role. role_by_id rid st = Some role"
  then show "role_exists rid st" using role_by_id_Some [of rid st] by (auto simp: role_exists_def)
qed

lemma account_of_row_sel [simp]:
  "account_id (account_of_row st row) = account_id row" "account_role (account_of_row st row) = account_role row"
  "sign_in_allowed (account_of_row st row) = sign_in_allowed row" "password_hash (account_of_row st row) = password_hash row"
  "account_link (account_of_row st row) = plex_link_of (account_id row) st"
  "demoted_from (account_of_row st row) = demoted_from row"
  by (simp_all add: account_of_row_def account_row.defs)

lemma account_by_id_Some:
  "account_by_id aid st = Some acc \<Longrightarrow> \<exists>row \<in> set (account_rows st). account_id row = aid \<and> acc = account_of_row st row"
  by (auto simp: account_by_id_def dest: sql_first_SomeD)

lemma account_by_id_iff:
  assumes "keys_ok st"
  shows "account_by_id aid st = Some acc \<longleftrightarrow> (\<exists>row \<in> set (account_rows st). account_id row = aid \<and> acc = account_of_row st row)"
  using sql_first_keyed [OF keys_okD(2) [OF assms], of aid] by (auto simp: account_by_id_def)

lemma account_by_email_Some:
  "account_by_email email st = Some acc \<Longrightarrow> \<exists>row \<in> set (account_rows st). acc = account_of_row st row"
  by (auto simp: account_by_email_def dest: sql_first_SomeD)

lemma plex_link_of_Some: "plex_link_of aid st = Some l \<Longrightarrow> l \<in> set (link_rows st) \<and> link_account l = aid"
  by (auto simp: plex_link_of_def dest: sql_first_SomeD)

lemma plex_link_of_iff:
  "keys_ok st \<Longrightarrow> plex_link_of aid st = Some l \<longleftrightarrow> l \<in> set (link_rows st) \<and> link_account l = aid"
  using sql_first_keyed [of link_account "link_rows st" aid] by (simp add: keys_okD plex_link_of_def)

text \<open>An account whose sign-in kind is the owner's is on the Admin role and allowed in.\<close>

lemma owner_account:
  assumes "accounts_ok n st" and "sign_in_kind_of (plex_link_of (account_id row) st) = OWNER_ACCOUNT"
    and "row \<in> set (account_rows st)"
  shows "account_role row = SYSTEM_ROLE_ID" and "sign_in_allowed row"
proof -
  obtain l where "l \<in> set (link_rows st)" "link_account l = account_id row" "link_access l = OwnerAccess"
    using assms(2) by (auto simp: sign_in_kind_of_def dest: plex_link_of_Some split: option.splits if_splits)
  with assms(1) have "(account_id row, SYSTEM_ROLE_ID, True) \<in> set (holders st)"
    by (auto simp: accounts_ok_def owner_ok_def)
  moreover have "(account_id row, account_role row, sign_in_allowed row) \<in> set (holders st)"
    using assms(3) by (auto simp: in_holders)
  ultimately have "(account_role row, sign_in_allowed row) = (SYSTEM_ROLE_ID, True)"
    using assms(1) by (auto simp: accounts_ok_def keys_ok_def dest: eq_key_imp_eq_value)
  then show "account_role row = SYSTEM_ROLE_ID" and "sign_in_allowed row" by simp_all
qed

lemma owner_kind:
  assumes "accounts_ok n st" and "l \<in> set (link_rows st)" and "plex_id l = n"
  shows "sign_in_kind_of (plex_link_of (link_account l) st) = OWNER_ACCOUNT"
proof -
  have "plex_link_of (link_account l) st = Some l"
    using assms(1,2) by (simp add: plex_link_of_iff accounts_ok_def)
  with assms show ?thesis by (auto simp: sign_in_kind_of_def accounts_ok_def owner_ok_def)
qed

subsection \<open>The statements of the repositories\<close>

lemma insert_role_effect:
  assumes "insert_role role t st = Inr st'"
  shows "role_kinds st' = role_kinds st @ [(role_id role, role_kind role)]" and "holders st' = holders st"
    and "link_rows st' = link_rows st" and "store_sessions st' = store_sessions st"
    and "role_id role \<notin> fst ` set (role_kinds st)"
  using assms by (auto simp: insert_role_def role_kinds_def holders_def split: if_splits)

lemma insert_role_ok:
  assumes "accounts_ok n st" and "insert_role role t st = Inr st'" and "role_kind role = ORDINARY"
  shows "accounts_ok n st'"
proof (rule accounts_okI)
  note e = insert_role_effect [OF assms(2)] and ok = accounts_okD [OF assms(1)]
  show "keys_ok st'" using ok(1) e by (auto simp: keys_ok_def roles_held_def)
  show "system_role_ok st'" using ok(2) e(1) assms(3) by (simp add: system_role_ok_def admin_roles_def)
  show "owner_ok n st'" using ok(3) e by (simp add: owner_ok_def)
  show "cut_ok st'" using ok(4) e by (simp add: cut_ok_def cut_off_def signed_in_def)
qed

lemma update_role_row_effect [simp]:
  "role_kinds (update_role_row rid nm rs t st) = role_kinds st"
  "holders (update_role_row rid nm rs t st) = holders st"
  "account_rows (update_role_row rid nm rs t st) = account_rows st"
  "link_rows (update_role_row rid nm rs t st) = link_rows st"
  "store_sessions (update_role_row rid nm rs t st) = store_sessions st"
  by (simp_all add: update_role_row_def role_kinds_def holders_def)

lemma update_role_row_ok: "accounts_ok n st \<Longrightarrow> accounts_ok n (update_role_row rid nm rs t st)"
  by (rule accounts_ok_cong [where st = st]) (simp_all add: signed_in_def)

lemma delete_role_row_effect:
  assumes "delete_role_row rid st = Inr st'"
  shows "role_kinds st' = filter (\<lambda>p. fst p \<noteq> rid) (role_kinds st)" and "holders st' = holders st"
    and "link_rows st' = link_rows st" and "store_sessions st' = store_sessions st"
    and "rid \<notin> (fst \<circ> snd) ` set (holders st)"
  using assms by (auto simp: delete_role_row_def role_kinds_def holders_def filter_map comp_def sql_update_def split: if_splits)

lemma delete_role_row_ok:
  assumes "accounts_ok n st" and "delete_role_row rid st = Inr st'" and "rid \<noteq> SYSTEM_ROLE_ID"
  shows "accounts_ok n st'"
proof (rule accounts_okI)
  note e = delete_role_row_effect [OF assms(2)] and ok = accounts_okD [OF assms(1)]
  have "roles_held st' \<subseteq> fst ` set (role_kinds st')"
  proof
    fix r assume r: "r \<in> roles_held st'"
    then have "r \<in> fst ` set (role_kinds st)" using ok(1) e(2) by (auto simp: keys_ok_def roles_held_def)
    moreover have "r \<noteq> rid" using r e(2,5) by (force simp: roles_held_def)
    ultimately show "r \<in> fst ` set (role_kinds st')" by (force simp: e(1))
  qed
  then show "keys_ok st'" using ok(1) e(1-3) by (simp add: keys_ok_def distinct_map_filter)
  have "admin_roles st' = admin_roles st - {rid}" by (auto simp: admin_roles_def e(1))
  then show "system_role_ok st'" using ok(2) assms(3) by (simp add: system_role_ok_def)
  show "owner_ok n st'" using ok(3) e by (simp add: owner_ok_def)
  show "cut_ok st'" using ok(4) e by (simp add: cut_ok_def cut_off_def signed_in_def)
qed

lemma insert_account_effect:
  assumes "insert_account row st = Inr st'"
  shows "holders st' = holders st @ [(account_id row, account_role row, sign_in_allowed row)]"
    and "role_kinds st' = role_kinds st" "link_rows st' = link_rows st" "store_sessions st' = store_sessions st"
    and "account_id row \<notin> fst ` set (holders st)" and "account_role row \<in> fst ` set (role_kinds st)"
    and "pin_rows st' = pin_rows st"
  using assms by (auto simp: insert_account_def role_kinds_def holders_def role_exists_def image_image split: if_splits)

lemma insert_account_ok:
  assumes "accounts_ok n st" and "insert_account row st = Inr st'" and "sign_in_allowed row"
  shows "accounts_ok n st'"
proof (rule accounts_okI)
  note e = insert_account_effect [OF assms(2)] and ok = accounts_okD [OF assms(1)]
  show "keys_ok st'" using ok(1) e by (auto simp: keys_ok_def roles_held_def)
  show "system_role_ok st'" using ok(2) e by (simp add: system_role_ok_def admin_roles_def)
  show "owner_ok n st'" using ok(3) e by (simp add: owner_ok_def)
  show "cut_ok st'" using ok(4) e assms(3) by (simp add: cut_ok_def cut_off_def signed_in_def)
qed

text \<open>A write to an account that leaves its role and its access as they are.\<close>

lemma update_account_row_ok:
  assumes "accounts_ok n st"
    and "\<And>row. account_id (f row) = account_id row \<and> account_role (f row) = account_role row
        \<and> sign_in_allowed (f row) = sign_in_allowed row"
  shows "accounts_ok n (update_account_row aid f st)"
  by (rule accounts_ok_cong [OF _ _ _ _ assms(1)])
    (auto simp: update_account_row_def holders_def role_kinds_def sql_update_def signed_in_def assms(2))

lemma set_password_hash_ok: "accounts_ok n st \<Longrightarrow> accounts_ok n (set_password_hash aid h t st)"
  by (simp add: set_password_hash_def update_account_row_ok)

lemma set_language_ok: "accounts_ok n st \<Longrightarrow> accounts_ok n (set_language aid lang t st)"
  by (simp add: set_language_def update_account_row_ok)

text \<open>Who holds what after a change of role or of access.\<close>

lemma set_role_effect:
  assumes "set_role aid rid t d st = Inr st'"
  shows "holders st' = map (\<lambda>h. (fst h, if fst h = aid then rid else fst (snd h), snd (snd h))) (holders st)"
    and "role_kinds st' = role_kinds st" "link_rows st' = link_rows st" "store_sessions st' = store_sessions st"
    and "aid \<in> fst ` set (holders st) \<longrightarrow> rid \<in> fst ` set (role_kinds st)"
  using assms by (auto simp: set_role_def update_account_row_def role_kinds_def holders_def role_exists_def image_image
      sql_update_def split: if_splits)

lemma set_role_ok:
  assumes "accounts_ok n st" and "set_role aid rid t d st = Inr st'"
    and "rid = SYSTEM_ROLE_ID \<or> sign_in_kind_of (plex_link_of aid st) \<noteq> OWNER_ACCOUNT"
  shows "accounts_ok n st'"
proof (rule accounts_okI)
  note e = set_role_effect [OF assms(2)] and ok = accounts_okD [OF assms(1)]
  let ?f = "\<lambda>h. (fst h, if fst h = aid then rid else fst (snd h), snd (snd h))"
  have st': "holders st' = map ?f (holders st)" by (rule e(1))
  have "roles_held st' \<subseteq> fst ` set (role_kinds st')"
  proof
    fix r assume "r \<in> roles_held st'"
    then obtain h where h: "h \<in> set (holders st)" and r: "r = (if fst h = aid then rid else fst (snd h))"
      by (auto simp: roles_held_def st')
    from h have "fst (snd h) \<in> roles_held st" by (simp add: roles_held_def)
    moreover have "fst h = aid \<longrightarrow> rid \<in> fst ` set (role_kinds st)" using h e(5) by blast
    ultimately show "r \<in> fst ` set (role_kinds st')" using ok(1) r e(2) by (auto simp: keys_ok_def)
  qed
  moreover have "map fst (holders st') = map fst (holders st)" by (simp add: st' comp_def)
  ultimately show "keys_ok st'" using ok(1) e(2,3) by (simp add: keys_ok_def)
  show "owner_ok n st'"
    unfolding owner_ok_def
  proof (intro ballI conjI impI)
    fix l assume l: "l \<in> set (link_rows st')"
    then show "link_access l = OwnerAccess \<longleftrightarrow> plex_id l = n" using ok(3) e(3) by (simp add: owner_ok_def)
    assume n: "plex_id l = n"
    then have h: "(link_account l, SYSTEM_ROLE_ID, True) \<in> set (holders st)"
      using l ok(3) e(3) by (simp add: owner_ok_def)
    have "link_account l = aid \<longrightarrow> rid = SYSTEM_ROLE_ID"
      using assms(3) owner_kind [OF assms(1) _ n] l e(3) by auto
    then have "?f (link_account l, SYSTEM_ROLE_ID, True) = (link_account l, SYSTEM_ROLE_ID, True)" by simp
    moreover have "?f (link_account l, SYSTEM_ROLE_ID, True) \<in> set (holders st')"
      unfolding st' set_map by (rule imageI [OF h])
    ultimately show "(link_account l, SYSTEM_ROLE_ID, True) \<in> set (holders st')" by simp
  qed
  have "cut_off st' = cut_off st" by (simp add: cut_off_def st' filter_map comp_def)
  then show "cut_ok st'" using ok(4) e(4) by (simp add: cut_ok_def signed_in_def)
  show "system_role_ok st'" using ok(2) e(2) by (simp add: system_role_ok_def admin_roles_def)
qed

lemma revoke_all_effect [simp]:
  "role_kinds (revoke_all aid ex t st) = role_kinds st" "holders (revoke_all aid ex t st) = holders st"
  "link_rows (revoke_all aid ex t st) = link_rows st" "account_rows (revoke_all aid ex t st) = account_rows st"
  "pin_rows (revoke_all aid ex t st) = pin_rows st"
  by (simp_all add: revoke_all_def role_kinds_def holders_def)

text \<open>An update of session rows that revives none.\<close>

lemma signed_in_update:
  assumes "session_rows (store_sessions st') = sql_update P f (session_rows (store_sessions st))"
    and "\<And>r. P r \<Longrightarrow> session_account (f r) = session_account r" and "\<And>r. P r \<Longrightarrow> revoked_at r \<noteq> None \<Longrightarrow> revoked_at (f r) \<noteq> None"
  shows "signed_in st' \<subseteq> signed_in st"
proof
  fix i assume "i \<in> signed_in st'"
  then obtain r where r: "r \<in> set (session_rows (store_sessions st))" "i = session_account (if P r then f r else r)"
      "revoked_at (if P r then f r else r) = None"
    by (auto simp: signed_in_def assms(1) set_sql_update)
  then have "i = session_account r \<and> revoked_at r = None" using assms(2,3) by (metis (full_types))
  with r(1) show "i \<in> signed_in st" by (auto simp: signed_in_def)
qed

lemma revoke_all_rows:
  "session_rows (store_sessions (revoke_all aid ex t st)) =
     sql_update (\<lambda>r. session_account r = aid \<and> revoked_at r = None \<and> Some (session_id r) \<noteq> ex)
       (\<lambda>r. r\<lparr>revoked_at := Some t\<rparr>) (session_rows (store_sessions st))"
  by (simp add: revoke_all_def revoke_sessions_of_def Let_def)

lemma revoke_all_signed_in: "signed_in (revoke_all aid ex t st) \<subseteq> signed_in st"
  by (rule signed_in_update [OF revoke_all_rows]) simp_all

lemma revoke_all_ends: "aid \<notin> signed_in (revoke_all aid None t st)"
proof
  assume "aid \<in> signed_in (revoke_all aid None t st)"
  then obtain r where r: "r \<in> set (session_rows (store_sessions (revoke_all aid None t st)))"
      "session_account r = aid" "revoked_at r = None"
    by (auto simp: signed_in_def)
  from r(1) obtain r0 where "r = (if session_account r0 = aid \<and> revoked_at r0 = None \<and> Some (session_id r0) \<noteq> None
      then r0\<lparr>revoked_at := Some t\<rparr> else r0)"
    unfolding revoke_all_rows set_sql_update by blast
  with r(2,3) show False by (simp split: if_splits)
qed

lemma revoke_all_ok: "accounts_ok n st \<Longrightarrow> accounts_ok n (revoke_all aid ex t st)"
  by (rule accounts_ok_cong [where st = st]) (simp_all add: revoke_all_signed_in)

lemma set_sign_in_allowed_effect [simp]:
  "holders (set_sign_in_allowed aid b t st) =
     map (\<lambda>h. (fst h, fst (snd h), if fst h = aid then b else snd (snd h))) (holders st)"
  "role_kinds (set_sign_in_allowed aid b t st) = role_kinds st"
  "link_rows (set_sign_in_allowed aid b t st) = link_rows st"
  "store_sessions (set_sign_in_allowed aid b t st) = store_sessions st"
  by (simp_all add: set_sign_in_allowed_def update_account_row_def holders_def role_kinds_def sql_update_def if_distrib comp_def)

lemma set_sign_in_allowed_ok:
  assumes "accounts_ok n st" and "b \<or> sign_in_kind_of (plex_link_of aid st) \<noteq> OWNER_ACCOUNT"
    and "signed_in st' \<subseteq> signed_in st" and "b \<or> aid \<notin> signed_in st'"
    and st': "role_kinds st' = role_kinds st" "link_rows st' = link_rows st"
      "holders st' = holders (set_sign_in_allowed aid b t st)"
  shows "accounts_ok n st'"
proof (rule accounts_okI)
  note ok = accounts_okD [OF assms(1)]
  show "keys_ok st'" using ok(1) st' by (simp add: keys_ok_def roles_held_def comp_def image_image)
  show "system_role_ok st'" using ok(2) st' by (simp add: system_role_ok_def admin_roles_def)
  have "cut_off st' \<subseteq> cut_off st \<union> (if b then {} else {aid})"
    by (auto simp: cut_off_def st' split: if_splits)
  then show "cut_ok st'" using ok(4) assms(3,4) by (auto simp: cut_ok_def split: if_splits)
  show "owner_ok n st'"
    unfolding owner_ok_def
  proof (intro ballI conjI impI)
    fix l assume l: "l \<in> set (link_rows st')"
    then show "link_access l = OwnerAccess \<longleftrightarrow> plex_id l = n" using ok(3) st' by (simp add: owner_ok_def)
    assume n: "plex_id l = n"
    then have h: "(link_account l, SYSTEM_ROLE_ID, True) \<in> set (holders st)"
      using l ok(3) st' by (simp add: owner_ok_def)
    have "b \<or> link_account l \<noteq> aid" using assms(2) owner_kind [OF assms(1) _ n] l st' by auto
    then show "(link_account l, SYSTEM_ROLE_ID, True) \<in> set (holders st')"
      using imageI [OF h, of "\<lambda>h. (fst h, fst (snd h), if fst h = aid then b else snd (snd h))"]
      by (auto simp: st' split: if_splits)
  qed
qed

lemma distinct_map_update:
  "distinct (map k rs) \<Longrightarrow> distinct (map a rs) \<Longrightarrow> \<forall>r \<in> set rs. k r = p \<longrightarrow> a r = u
    \<Longrightarrow> distinct (map (\<lambda>r. if a r = u then p else k r) rs)"
  by (induction rs) (auto simp: image_iff)

lemma upsert_plex_link_effect:
  assumes "upsert_plex_link link st = Inr st'"
  shows "role_kinds st' = role_kinds st" "holders st' = holders st" "store_sessions st' = store_sessions st"
    and "\<forall>l \<in> set (link_rows st'). l \<in> set (link_rows st) \<and> link_account l \<noteq> link_account link
      \<or> link_account l = link_account link \<and> plex_id l = plex_id link \<and> link_access l = link_access link"
  using assms by (auto simp: upsert_plex_link_def role_kinds_def holders_def set_sql_update split: if_splits)

lemma upsert_plex_link_keys:
  assumes "upsert_plex_link link st = Inr st'" and "keys_ok st"
  shows "keys_ok st'"
proof -
  note e = upsert_plex_link_effect [OF assms(1)]
  have unique: "\<forall>l \<in> set (link_rows st). plex_id l = plex_id link \<longrightarrow> link_account l = link_account link"
    using assms(1) by (auto simp: upsert_plex_link_def split: if_splits)
  show ?thesis
  proof (cases "\<exists>l \<in> set (link_rows st). link_account l = link_account link")
    case True
    let ?P = "\<lambda>l. link_account l = link_account link"
    obtain f where st': "link_rows st' = sql_update ?P f (link_rows st)"
      and f: "\<And>l. link_account (f l) = link_account link" "\<And>l. plex_id (f l) = plex_id link"
      using assms(1) True by (auto simp: upsert_plex_link_def split: if_splits)
    have m: "map link_account (link_rows st') = map link_account (link_rows st)"
      unfolding st' by (rule map_sql_update) (simp add: f)
    have "map plex_id (link_rows st') = map (\<lambda>l. if link_account l = link_account link then plex_id link else plex_id l) (link_rows st)"
      by (simp add: st' sql_update_def f if_distrib comp_def)
    moreover have "distinct (map (\<lambda>l. if link_account l = link_account link then plex_id link else plex_id l) (link_rows st))"
      using assms(2) unique by (intro distinct_map_update) (simp_all add: keys_ok_def)
    moreover have "link_account ` set (link_rows st') = link_account ` set (link_rows st)" using m by (metis set_map)
    ultimately show ?thesis using m assms(2) e(1,2) by (simp add: keys_ok_def roles_held_def)
  next
    case False
    then have "link_rows st' = link_rows st @ [link]"
      using assms(1) by (auto simp: upsert_plex_link_def split: if_splits)
    moreover have "link_account link \<notin> link_account ` set (link_rows st)" using False by force
    moreover have "plex_id link \<notin> plex_id ` set (link_rows st)" using False unique by force
    moreover obtain acc where "acc \<in> set (account_rows st)" "account_id acc = link_account link"
      using assms(1) by (auto simp: upsert_plex_link_def split: if_splits)
    then have "link_account link \<in> fst ` set (holders st)" unfolding holders_def set_map image_image by force
    ultimately show ?thesis using assms(2) e(1,2) by (simp add: keys_ok_def roles_held_def)
  qed
qed

lemma upsert_plex_link_ok:
  assumes "accounts_ok n st" and "upsert_plex_link link st = Inr st'"
    and "link_access link = OwnerAccess \<longleftrightarrow> plex_id link = n"
    and "plex_id link = n \<Longrightarrow> (link_account link, SYSTEM_ROLE_ID, True) \<in> set (holders st)"
  shows "accounts_ok n st'"
proof (rule accounts_okI)
  note e = upsert_plex_link_effect [OF assms(2)] and ok = accounts_okD [OF assms(1)]
  show "keys_ok st'" using upsert_plex_link_keys [OF assms(2) ok(1)] .
  show "system_role_ok st'" using ok(2) e(1) by (simp add: system_role_ok_def admin_roles_def)
  show "cut_ok st'" using ok(4) e(2,3) by (simp add: cut_ok_def cut_off_def signed_in_def)
  show "owner_ok n st'"
    unfolding owner_ok_def
  proof
    fix l assume "l \<in> set (link_rows st')"
    with e(4) consider "l \<in> set (link_rows st)"
      | "link_account l = link_account link" "plex_id l = plex_id link" "link_access l = link_access link" by blast
    then show "(link_access l = OwnerAccess \<longleftrightarrow> plex_id l = n)
        \<and> (plex_id l = n \<longrightarrow> (link_account l, SYSTEM_ROLE_ID, True) \<in> set (holders st'))"
      using ok(3) assms(3,4) e(2) by cases (auto simp: owner_ok_def)
  qed
qed

text \<open>The sessions: none is opened for an account that is cut.\<close>

lemma sessions_ok:
  assumes "accounts_ok n st" and "signed_in (st\<lparr>store_sessions := s\<rparr>) \<subseteq> signed_in st \<union> A" and "A \<inter> cut_off st = {}"
  shows "accounts_ok n (st\<lparr>store_sessions := s\<rparr>)"
proof -
  let ?st = "st\<lparr>store_sessions := s\<rparr>"
  have h: "holders ?st = holders st" "role_kinds ?st = role_kinds st" by (simp_all add: holders_def role_kinds_def)
  then have "cut_off ?st = cut_off st" by (simp add: cut_off_def)
  then have "cut_ok ?st" using accounts_okD(4) [OF assms(1)] assms(2,3) unfolding cut_ok_def by blast
  moreover have "keys_ok ?st \<and> system_role_ok ?st \<and> owner_ok n ?st"
    using assms(1) h by (simp add: accounts_ok_def keys_ok_def system_role_ok_def owner_ok_def roles_held_def admin_roles_def)
  ultimately show ?thesis by (simp add: accounts_ok_def)
qed

text \<open>A link the owner has stays, unless its account is linked to someone else.\<close>

definition linked :: "app_store \<Rightarrow> (string \<times> int) set" where
  "linked st = (\<lambda>l. (link_account l, plex_id l)) ` set (link_rows st)"

lemma upsert_plex_link_keeps:
  assumes "upsert_plex_link link st = Inr st'"
    and "\<forall>l \<in> set (link_rows st). link_account l = link_account link \<longrightarrow> plex_id l = plex_id link"
  shows "linked st \<subseteq> linked st'" and "(link_account link, plex_id link) \<in> linked st'"
proof -
  let ?P = "\<lambda>l. link_account l = link_account link"
  have *: "linked st \<union> {(link_account link, plex_id link)} \<subseteq> linked st'"
  proof (cases "\<exists>l \<in> set (link_rows st). ?P l")
    case True
    obtain f where st': "link_rows st' = sql_update ?P f (link_rows st)"
      and f: "\<And>l. link_account (f l) = link_account link" "\<And>l. plex_id (f l) = plex_id link"
      using assms(1) True by (auto simp: upsert_plex_link_def split: if_splits)
    have same: "(link_account (if ?P l then f l else l), plex_id (if ?P l then f l else l)) = (link_account l, plex_id l)"
      if "l \<in> set (link_rows st)" for l
      using assms(2) that f by simp
    let ?k = "\<lambda>l. (link_account l, plex_id l)"
    have "map ?k (link_rows st') = map ?k (link_rows st)"
      unfolding st' sql_update_def map_map by (rule map_cong [OF refl]) (use same in auto)
    then have "linked st' = linked st" unfolding linked_def by (metis set_map)
    moreover obtain l where "l \<in> set (link_rows st)" "link_account l = link_account link" using True by blast
    then have "(link_account link, plex_id link) \<in> linked st" using assms(2) unfolding linked_def image_iff by metis
    ultimately show ?thesis by blast
  qed (use assms(1) in \<open>auto simp: upsert_plex_link_def linked_def split: if_splits\<close>)
  then show "linked st \<subseteq> linked st'" and "(link_account link, plex_id link) \<in> linked st'" by simp_all
qed

subsection \<open>The sessions\<close>

lemma signed_in_sessions: "session_rows s = session_rows (store_sessions st) \<Longrightarrow> signed_in (st\<lparr>store_sessions := s\<rparr>) = signed_in st"
  by (simp add: signed_in_def)

lemma renew_signed_in:
  assumes "session_rows s = session_rows (store_sessions st)"
  shows "signed_in (st\<lparr>store_sessions := snd (renew hash_of idle row t fresh s)\<rparr>) \<subseteq> signed_in st"
proof (rule signed_in_update)
  show "session_rows (store_sessions (st\<lparr>store_sessions := snd (renew hash_of idle row t fresh s)\<rparr>)) =
      sql_update (\<lambda>r. session_id r = session_id row \<and> last_seen_at r = last_seen_at row \<and> revoked_at r = None)
        (\<lambda>r. r\<lparr>token_hash := hash_of fresh, session_expires_at := t + idle, last_seen_at := t\<rparr>)
        (session_rows (store_sessions st))"
    using assms by (simp add: renew_def renew_session_def Let_def)
qed simp_all

lemma use_signed_in:
  "signed_in (st\<lparr>store_sessions := snd (use_session hash_of actor_of idle token t fresh (store_sessions st))\<rparr>) \<subseteq> signed_in st"
  using renew_signed_in [of "snd (live_session hash_of token t (store_sessions st))" st]
  by (auto simp: use_session_state Let_def signed_in_sessions split: option.splits prod.splits)

lemma revoke_session_signed_in:
  assumes "session_rows s = session_rows (store_sessions st)"
  shows "signed_in (st\<lparr>store_sessions := s\<lparr>session_rows := revoke_session i t (session_rows s)\<rparr>\<rparr>) \<subseteq> signed_in st"
  by (rule signed_in_update [where P = "\<lambda>r. session_id r = i" and f = "\<lambda>r. r\<lparr>revoked_at := Some t\<rparr>"])
    (simp_all add: revoke_session_def assms)

lemma close_signed_in:
  "signed_in (st\<lparr>store_sessions := close_session hash_of token t (store_sessions st)\<rparr>) \<subseteq> signed_in st"
proof -
  obtain found s where s: "live_session hash_of token t (store_sessions st) = (found, s)" by fastforce
  with live_session_rows [of hash_of token t "store_sessions st"] have "session_rows s = session_rows (store_sessions st)" by simp
  then show ?thesis
    using revoke_session_signed_in [of s st]
    by (cases found) (auto simp: close_session_def s signed_in_sessions)
qed

lemma revoke_own_signed_in:
  "signed_in (st\<lparr>store_sessions := snd (revoke_own_session hash_of a token i t (store_sessions st))\<rparr>) \<subseteq> signed_in st"
  using revoke_own_session_cases [of hash_of a token i t "store_sessions st"]
    revoke_session_signed_in [of "snd (live_session hash_of token t (store_sessions st))" st i t]
  by (auto simp: signed_in_sessions)

lemma open_signed_in:
  assumes "open_session hash_of idle aid ua t fresh (store_sessions st) = Inr (token, s)"
  shows "signed_in (st\<lparr>store_sessions := s\<rparr>) \<subseteq> signed_in st \<union> {aid}"
  using assms by (auto simp: open_session_def insert_session_def raising_bind_Inr signed_in_def split: if_splits)

end
