(* ===== verification/Account_Gates.thy ===== *)
theory Account_Gates
  imports Account_Tables
begin

text \<open>
  Each account service reduced to the statements it runs and the checks they passed (its gate), and the
  proof that it keeps the invariant of the tables and the Plex links there are (\<open>keeps\<close>).
\<close>

subsection \<open>The gates\<close>

lemmas service_simps = requires_Inr and_then_Inr raising_bind_Inr refuse_if_Inr Let_def with_store_def publish_def

lemma create_role_gate:
  assumes "create_role t fresh a nm names w = Inr (v, w')"
  shows "known_owner w' = known_owner w \<and> (\<exists>role. insert_role role t (app w) = Inr (app w')
    \<and> role_kind role = ORDINARY \<and> role_default_for role = {}
    \<and> within_rights (grantor_in (app w) a) (role_rights role))"
  using assms by (auto simp: create_role_def service_simps check_may_give_rights_def)

lemma write_role_gate:
  assumes "write_role t role nm held w = Inr (v, w')"
  shows "known_owner w' = known_owner w \<and> (app w' = app w \<or>
    (\<exists>nm' rs. app w' = update_role_row (role_id role) nm' rs t (app w) \<and> (rs = None \<or> rs = held)))"
proof -
  define b where "b \<longleftrightarrow> held \<noteq> None \<and> held \<noteq> Some (role_rights role)"
  define c where "c \<longleftrightarrow> nm \<noteq> None \<and> nm \<noteq> role_name role"
  define st where "st = (if b \<or> c
    then update_role_row (role_id role) (if c then nm else None) (if b then held else None) t (app w) else app w)"
  have "app w' = st \<and> known_owner w' = known_owner w"
    using assms unfolding write_role_def Let_def b_def [symmetric] c_def [symmetric] st_def [symmetric]
    by (auto simp: with_store_def publish_def split: option.splits)
  moreover have "(if b then held else None) = None \<or> (if b then held else None) = held" by simp
  ultimately show ?thesis unfolding st_def by (cases "b \<or> c") (simp, blast, simp)
qed

lemma update_role_gate:
  assumes "update_role t a rid nm names w = Inr (v, w')"
  shows "known_owner w' = known_owner w \<and> (\<exists>role. role_by_id rid (app w) = Some role \<and> \<not> is_admin role
    \<and> (app w' = app w \<or> (\<exists>nm' rs. app w' = update_role_row rid nm' rs t (app w)
        \<and> (\<forall>held. rs = Some held \<longrightarrow> within_rights (grantor_in (app w) a) held))))"
proof -
  obtain role held new_name where role: "role_by_id rid (app w) = Some role" "check_mutable role = Inr ()"
      "(case held of None \<Rightarrow> Inr () | Some rs \<Rightarrow> check_may_give_rights (grantor_in (app w) a) rs) = Inr ()"
      "write_role t role new_name held w = Inr (v, w')"
    using assms unfolding update_role_def Let_def requires_Inr raising_bind_Inr and_then_Inr found_or_Inr by blast
  have "\<forall>rs. held = Some rs \<longrightarrow> within_rights (grantor_in (app w) a) rs"
    using role(3) by (auto simp: check_may_give_rights_def refuse_if_Inr)
  with write_role_gate [OF role(4)] role(1,2) role_by_id_id [OF role(1)] show ?thesis
    by (auto simp: check_mutable_def refuse_if_Inr)
qed

lemma delete_role_gate:
  assumes "delete_role a rid w = Inr (v, w')"
  shows "known_owner w' = known_owner w \<and> (\<exists>role. role_by_id rid (app w) = Some role \<and> \<not> is_admin role
    \<and> delete_role_row rid (app w) = Inr (app w'))"
  using assms by (auto simp: delete_role_def service_simps check_deletable_def role_by_id_id)

lemma create_account_gate:
  assumes "create_account env t fresh a nm email rid password w = Inr (v, w')"
  shows "known_owner w' = known_owner w \<and> (\<exists>role row. role_by_id rid (app w) = Some role
    \<and> check_may_give (grantor_in (app w) a) role = Inr () \<and> insert_account row (app w) = Inr (app w')
    \<and> account_role row = rid \<and> sign_in_allowed row)"
  using assms by (auto simp: create_account_def service_simps role_by_id_id)
    (intro exI conjI, assumption, simp_all)

lemma write_account_role_gate:
  assumes "write_account_role t acc target w = Inr (v, w')"
  shows "known_owner w' = known_owner w
    \<and> (app w' = app w \<or> set_role (account_id acc) (role_id target) t None (app w) = Inr (app w'))"
  using assms by (auto simp: write_account_role_def service_simps split: if_splits)

lemma update_account_gate:
  assumes "update_account t a aid rid w = Inr (v, w')"
  shows "known_owner w' = known_owner w \<and> (\<exists>acc target. account_by_id aid (app w) = Some acc
    \<and> role_by_id rid (app w) = Some target
    \<and> check_may_give (grantor_in (app w) a) target = Inr ()
    \<and> (is_admin target \<or> sign_in_kind_of (account_link acc) \<noteq> OWNER_ACCOUNT)
    \<and> (app w' = app w \<or> set_role (account_id acc) rid t None (app w) = Inr (app w')))"
proof -
  obtain acc target current where u: "account_by_id aid (app w) = Some acc" "role_by_id rid (app w) = Some target"
      "check_may_give (grantor_in (app w) a) target = Inr ()"
      "check_leaves_admin current target (count_on_role_kind ADMIN (app w)) acc = Inr ()"
      "write_account_role t acc target w = Inr (v, w')"
    using assms unfolding update_account_def Let_def requires_Inr raising_bind_Inr and_then_Inr found_or_Inr by blast
  from u(4) have "is_admin target \<or> sign_in_kind_of (account_link acc) \<noteq> OWNER_ACCOUNT"
    by (auto simp: check_leaves_admin_def and_then_Inr refuse_if_Inr)
  with write_account_role_gate [OF u(5)] u(1-3) role_by_id_id [OF u(2)] show ?thesis by simp
qed

lemma reset_account_password_gate:
  assumes "reset_account_password env t a aid password w = Inr (v, w')"
  shows "known_owner w' = known_owner w \<and> actor_role_kind a = ADMIN
    \<and> (\<exists>acc h. account_by_id aid (app w) = Some acc \<and> sign_in_kind_of (account_link acc) = LOCAL_ACCOUNT
        \<and> app w' = revoke_all (account_id acc) None t (set_password_hash (account_id acc) h t (app w)))"
proof -
  have "k = LOCAL_ACCOUNT" if "k \<noteq> OWNER_ACCOUNT" "k \<noteq> PLEX_ACCOUNT" for k using that by (cases k) simp_all
  then show ?thesis
    using assms by (auto simp: reset_account_password_def service_simps check_password_held_here_def)
qed

lemma set_account_access_gate:
  assumes "set_account_access t a aid allowed w = Inr (v, w')"
  shows "known_owner w' = known_owner w \<and> actor_role_kind a = ADMIN
    \<and> (\<exists>acc. account_by_id aid (app w) = Some acc \<and> sign_in_kind_of (account_link acc) \<noteq> OWNER_ACCOUNT
        \<and> account_id acc \<noteq> actor_id a
        \<and> (allowed = sign_in_allowed acc \<and> app w' = app w
          \<or> allowed \<and> app w' = set_sign_in_allowed (account_id acc) True t (app w)
          \<or> \<not> allowed \<and> app w' = revoke_all (account_id acc) None t (set_sign_in_allowed (account_id acc) False t (app w))))"
  using assms by (auto simp: set_account_access_def service_simps check_access_cut_def split: option.splits if_splits)

lemma set_own_language_gate:
  assumes "set_own_language env t a lang w = Inr (v, w')"
  shows "known_owner w' = known_owner w \<and> (\<exists>aid. app w' = set_language aid lang t (app w))"
  using assms by (auto simp: set_own_language_def service_simps)

lemma create_owner_gate:
  assumes "create_owner env t fresh email nm password plex w = Inr (v, w')"
  shows "known_owner w' = known_owner w \<and> (\<exists>row link st. insert_account row (app w) = Inr st
    \<and> upsert_plex_link link st = Inr (app w') \<and> account_role row = SYSTEM_ROLE_ID \<and> sign_in_allowed row
    \<and> link_account link = account_id row \<and> plex_id link = owner_plex_id plex \<and> link_access link = OwnerAccess)"
  using assms by (auto simp: create_owner_def service_simps role_by_id_id split: option.splits if_splits)
    (intro exI conjI, assumption, assumption, simp_all)

subsection \<open>The services keep the invariant\<close>

definition keeps :: "int \<Rightarrow> app_store \<Rightarrow> app_store \<Rightarrow> bool" where
  "keeps n st st' \<longleftrightarrow> (accounts_ok n st \<longrightarrow> accounts_ok n st' \<and> linked st \<subseteq> linked st')"

lemma keeps_refl [simp]: "keeps n st st"
  by (simp add: keeps_def)

lemma keeps_trans: "keeps n a b \<Longrightarrow> keeps n b c \<Longrightarrow> keeps n a c"
  unfolding keeps_def by blast

lemma keepsI: "(accounts_ok n st \<Longrightarrow> accounts_ok n st') \<Longrightarrow> link_rows st' = link_rows st \<Longrightarrow> keeps n st st'"
  by (simp add: keeps_def linked_def)

lemma keeps_sessions: "signed_in (st\<lparr>store_sessions := s\<rparr>) \<subseteq> signed_in st \<Longrightarrow> keeps n st (st\<lparr>store_sessions := s\<rparr>)"
  using sessions_ok [of n st s "{}"] by (auto intro!: keepsI)

lemma account_writes_links [simp]:
  "link_rows (set_password_hash aid h t st) = link_rows st" "link_rows (set_language aid lang t st) = link_rows st"
  by (simp_all add: set_password_hash_def set_language_def update_account_row_def)

lemma create_role_keeps: "create_role t fresh a nm names w = Inr (v, w') \<Longrightarrow> keeps n (app w) (app w')"
  by (drule create_role_gate) (auto intro!: keepsI intro: insert_role_ok dest: insert_role_effect(3))

lemma update_role_keeps: "update_role t a rid nm names w = Inr (v, w') \<Longrightarrow> keeps n (app w) (app w')"
  by (drule update_role_gate) (auto intro!: keepsI intro: update_role_row_ok)

lemma delete_role_keeps:
  assumes "delete_role a rid w = Inr (v, w')" shows "keeps n (app w) (app w')"
proof -
  obtain role where role: "role_by_id rid (app w) = Some role" "\<not> is_admin role"
    and del: "delete_role_row rid (app w) = Inr (app w')"
    using delete_role_gate [OF assms] by blast
  have "accounts_ok n (app w) \<Longrightarrow> rid \<noteq> SYSTEM_ROLE_ID"
    using role role_by_id_admin accounts_okD(1,2) by blast
  with del show ?thesis by (auto intro!: keepsI intro: delete_role_row_ok dest: delete_role_row_effect(3))
qed

lemma create_account_keeps:
  "create_account env t fresh a nm email rid password w = Inr (v, w') \<Longrightarrow> keeps n (app w) (app w')"
  by (drule create_account_gate) (auto intro!: keepsI intro: insert_account_ok dest: insert_account_effect(3))

lemma update_account_keeps:
  assumes "update_account t a aid rid w = Inr (v, w')" shows "keeps n (app w) (app w')"
proof -
  obtain acc target where acc: "account_by_id aid (app w) = Some acc" and target: "role_by_id rid (app w) = Some target"
    and stays: "is_admin target \<or> sign_in_kind_of (account_link acc) \<noteq> OWNER_ACCOUNT"
    and set: "app w' = app w \<or> set_role (account_id acc) rid t None (app w) = Inr (app w')"
    using update_account_gate [OF assms] by blast
  have link: "account_link acc = plex_link_of (account_id acc) (app w)" using account_by_id_Some [OF acc] by auto
  show ?thesis
  proof (cases "app w' = app w")
    case False
    with set have set: "set_role (account_id acc) rid t None (app w) = Inr (app w')" by blast
    show ?thesis
    proof (rule keepsI)
      assume ok: "accounts_ok n (app w)"
      have "rid = SYSTEM_ROLE_ID \<or> sign_in_kind_of (plex_link_of (account_id acc) (app w)) \<noteq> OWNER_ACCOUNT"
        using stays role_by_id_admin [OF accounts_okD(2) [OF ok] target accounts_okD(1) [OF ok]] link by auto
      then show "accounts_ok n (app w')" by (rule set_role_ok [OF ok set])
    qed (rule set_role_effect(3) [OF set])
  qed simp
qed

lemma reset_account_password_keeps:
  "reset_account_password env t a aid password w = Inr (v, w') \<Longrightarrow> keeps n (app w) (app w')"
  by (drule reset_account_password_gate)
    (auto intro!: keepsI simp: revoke_all_ok set_password_hash_ok)

lemma set_account_access_keeps:
  assumes "set_account_access t a aid allowed w = Inr (v, w')" shows "keeps n (app w) (app w')"
proof -
  obtain acc where acc: "account_by_id aid (app w) = Some acc" "sign_in_kind_of (account_link acc) \<noteq> OWNER_ACCOUNT"
    and w': "app w' = app w \<or> allowed \<and> app w' = set_sign_in_allowed (account_id acc) True t (app w)
      \<or> \<not> allowed \<and> app w' = revoke_all (account_id acc) None t (set_sign_in_allowed (account_id acc) False t (app w))"
    using set_account_access_gate [OF assms] by blast
  have link: "account_link acc = plex_link_of (account_id acc) (app w)" using account_by_id_Some [OF acc(1)] by auto
  have same: "signed_in (set_sign_in_allowed (account_id acc) b t (app w)) = signed_in (app w)" for b
    by (simp add: signed_in_def)
  show ?thesis
  proof (cases "app w' = app w")
    case False
    show ?thesis
    proof (rule keepsI)
      assume ok: "accounts_ok n (app w)"
      show "accounts_ok n (app w')"
      proof (rule set_sign_in_allowed_ok [OF ok, where b = allowed and aid = "account_id acc" and t = t])
        show "allowed \<or> sign_in_kind_of (plex_link_of (account_id acc) (app w)) \<noteq> OWNER_ACCOUNT" using acc(2) link by simp
        show "signed_in (app w') \<subseteq> signed_in (app w)" 
          using w' same revoke_all_signed_in [of "account_id acc" None t "set_sign_in_allowed (account_id acc) False t (app w)"]
          by auto
        show "allowed \<or> account_id acc \<notin> signed_in (app w')" using w' False revoke_all_ends by auto
      qed (use w' False in auto)
    qed (use w' in auto)
  qed simp
qed

lemma set_own_language_keeps: "set_own_language env t a lang w = Inr (v, w') \<Longrightarrow> keeps n (app w) (app w')"
  by (drule set_own_language_gate)
    (auto intro!: keepsI intro: set_language_ok)

subsection \<open>The doors keep the invariant\<close>

lemma session_actor_app:
  "app (snd (session_actor env token t w)) = (app w)\<lparr>store_sessions :=
     snd (live_session (hash_token env) token t (store_sessions (app w)))\<rparr>"
  "known_owner (snd (session_actor env token t w)) = known_owner w"
  by (auto simp: session_actor_def resolve_def Let_def with_store_def split: prod.splits)

lemma session_actor_keeps: "keeps n (app w) (app (snd (session_actor env token t w)))"
  unfolding session_actor_app by (rule keeps_sessions) (simp add: signed_in_sessions)

text \<open>A session is opened for an account that may sign in, and its row is the only write.\<close>

lemma open_proven_session_cases:
  "(app (snd (open_proven_session env t fresh aid ua w)) = app w \<or>
     (\<exists>acc token s. account_by_id aid (app w) = Some acc \<and> sign_in_allowed acc
       \<and> open_session (hash_token env) (idle_lifetime env) aid ua t fresh (store_sessions (app w)) = Inr (token, s)
       \<and> app (snd (open_proven_session env t fresh aid ua w)) = (app w)\<lparr>store_sessions :=
           snd (live_session (hash_token env) token t s)\<rparr>))
   \<and> known_owner (snd (open_proven_session env t fresh aid ua w)) = known_owner w"
proof (cases "raising_bind (found_or (account_by_id aid (app w)) Unauthenticated AUTH_REFUSED) (\<lambda>acc.
    and_then (refuse_if (\<not> sign_in_allowed acc) Forbidden AUTH_ACCESS_DISABLED)
    (raising_bind (open_session (hash_token env) (idle_lifetime env) aid ua t fresh (store_sessions (app w))) (\<lambda>(token, s).
      Inr (acc, token, with_store w ((app w)\<lparr>store_sessions := s\<rparr>)))))")
  case (Inl e)
  then show ?thesis by (simp add: open_proven_session_def)
next
  case (Inr x)
  then obtain acc token s where x: "x = (acc, token, with_store w ((app w)\<lparr>store_sessions := s\<rparr>))"
      "account_by_id aid (app w) = Some acc" "sign_in_allowed acc"
      "open_session (hash_token env) (idle_lifetime env) aid ua t fresh (store_sessions (app w)) = Inr (token, s)"
    by (auto simp: raising_bind_Inr and_then_Inr refuse_if_Inr)
  let ?w = "with_store w ((app w)\<lparr>store_sessions := s\<rparr>)"
  have "snd (open_proven_session env t fresh aid ua w) = snd (session_actor env token t ?w)"
    unfolding open_proven_session_def Inr x(1) by (auto split: prod.splits option.splits)
  with x(2-4) session_actor_app [of env token t ?w] show ?thesis by (auto simp: with_store_def)
qed

lemma open_proven_session_keeps: "keeps n (app w) (app (snd (open_proven_session env t fresh aid ua w)))"
proof (rule keepsI)
  let ?w = "snd (open_proven_session env t fresh aid ua w)"
  assume ok: "accounts_ok n (app w)"
  show "accounts_ok n (app ?w)"
  proof (cases "app ?w = app w")
    case False
    then obtain acc token s where acc: "account_by_id aid (app w) = Some acc" "sign_in_allowed acc"
      and s: "open_session (hash_token env) (idle_lifetime env) aid ua t fresh (store_sessions (app w)) = Inr (token, s)"
      and w: "app ?w = (app w)\<lparr>store_sessions := snd (live_session (hash_token env) token t s)\<rparr>"
      using open_proven_session_cases [of env t fresh aid ua w] by blast
    obtain row where "row \<in> set (account_rows (app w))" "account_id row = aid" "sign_in_allowed row"
      using account_by_id_Some [OF acc(1)] acc(2) by auto
    then have h: "(aid, account_role row, True) \<in> set (holders (app w))" by (force simp: in_holders)
    have "{aid} \<inter> cut_off (app w) = {}"
    proof -
      have "aid \<notin> cut_off (app w)"
      proof
        assume "aid \<in> cut_off (app w)"
        then obtain r where "(aid, r, False) \<in> set (holders (app w))" by (auto simp: cut_off_def)
        with h accounts_okD(1) [OF ok] show False by (auto simp: keys_ok_def dest: eq_key_imp_eq_value)
      qed
      then show ?thesis by simp
    qed
    moreover have "signed_in ((app w)\<lparr>store_sessions := snd (live_session (hash_token env) token t s)\<rparr>)
        \<subseteq> signed_in (app w) \<union> {aid}"
      using open_signed_in [OF s] by (simp add: signed_in_def)
    ultimately show ?thesis unfolding w using sessions_ok [OF ok] by blast
  qed (use ok in simp)
qed (use open_proven_session_cases [of env t fresh aid ua w] in auto)

lemma sign_in_with_password_keeps:
  "keeps n (app w) (app (snd (sign_in_with_password env t fresh email password key ua w)))
   \<and> known_owner (snd (sign_in_with_password env t fresh email password key ua w)) = known_owner w"
proof -
  obtain ok rl where rl: "allow key t (sign_in_limiter w) = (ok, rl)" by fastforce
  let ?w = "w\<lparr>sign_in_limiter := rl\<rparr>"
  have "app ?w = app w" "known_owner ?w = known_owner w" by simp_all
  with open_proven_session_keeps [of n ?w env t fresh _ ua] open_proven_session_cases [of env t fresh _ ua ?w]
  show ?thesis by (auto simp: sign_in_with_password_def Let_def rl split: option.splits)
qed

lemma change_own_password_keeps:
  "keeps n (app w) (app (snd (change_own_password env t a token current new w)))
   \<and> known_owner (snd (change_own_password env t a token current new w)) = known_owner w"
proof -
  obtain kept s where s: "live_session_id (hash_token env) token t (store_sessions (app w)) = (kept, s)" by fastforce
  have "s = snd (live_session (hash_token env) token t (store_sessions (app w)))"
    using s by (auto simp: live_session_id_def split: prod.splits)
  then have s1: "keeps n (app w) ((app w)\<lparr>store_sessions := s\<rparr>)"
    by (simp add: keeps_sessions signed_in_sessions)
  have "keeps n ((app w)\<lparr>store_sessions := s\<rparr>)
      (revoke_all aid kept t (set_password_hash aid h t ((app w)\<lparr>store_sessions := s\<rparr>)))" for aid h
    by (rule keepsI) (simp_all add: revoke_all_ok set_password_hash_ok)
  then have "keeps n (app w) (revoke_all aid kept t (set_password_hash aid h t ((app w)\<lparr>store_sessions := s\<rparr>)))" for aid h
    using keeps_trans [OF s1] by blast
  then show ?thesis
    by (auto simp: change_own_password_def Let_def s with_store_def split: sum.splits prod.splits)
qed

lemma set_password_keeps: "set_password env t email password w = Inr (v, w') \<Longrightarrow>
    keeps n (app w) (app w') \<and> known_owner w' = known_owner w"
  by (auto simp: set_password_def service_simps intro!: keepsI set_password_hash_ok)

lemma link_has_account: "keys_ok st \<Longrightarrow> l \<in> set (link_rows st) \<Longrightarrow> link_account l \<in> fst ` set (holders st)"
  unfolding keys_ok_def set_map by blast

lemma create_owner_keeps:
  assumes "create_owner env t fresh email nm password plex w = Inr (v, w')" and "owner_plex_id plex = n"
  shows "keeps n (app w) (app w')" and "accounts_ok n (app w) \<Longrightarrow> \<exists>aid. (aid, n) \<in> linked (app w')"
proof -
  obtain row link st where ins: "insert_account row (app w) = Inr st" and ups: "upsert_plex_link link st = Inr (app w')"
    and row: "account_role row = SYSTEM_ROLE_ID" "sign_in_allowed row"
    and link: "link_account link = account_id row" "plex_id link = owner_plex_id plex" "link_access link = OwnerAccess"
    using create_owner_gate [OF assms(1)] by blast
  note e = insert_account_effect [OF ins]
  have only: "\<forall>l \<in> set (link_rows st). link_account l = link_account link \<longrightarrow> plex_id l = plex_id link"
    if "accounts_ok n (app w)"
    using e(3,5) link(1) link_has_account [OF accounts_okD(1) [OF that]] by metis
  have "accounts_ok n (app w')" if ok: "accounts_ok n (app w)"
  proof (rule upsert_plex_link_ok [OF insert_account_ok [OF ok ins row(2)] ups])
    show "(link_account link, SYSTEM_ROLE_ID, True) \<in> set (holders st)" using e(1) row link(1) by simp
  qed (use link assms(2) in simp)
  moreover have "linked (app w) = linked st" using e(3) by (simp add: linked_def)
  ultimately show "keeps n (app w) (app w')"
    using upsert_plex_link_keeps(1) [OF ups] only by (auto simp: keeps_def)
  show "accounts_ok n (app w) \<Longrightarrow> \<exists>aid. (aid, n) \<in> linked (app w')"
    using upsert_plex_link_keeps(2) [OF ups] only link(2) assms(2) by auto
qed

lemma pins_keep [simp]:
  "accounts_ok n (st\<lparr>pin_rows := ps\<rparr>) = accounts_ok n st" "linked (st\<lparr>pin_rows := ps\<rparr>) = linked st"
  by (simp_all add: accounts_ok_defs holders_def role_kinds_def signed_in_def linked_def)

lemma consume_pin_store: "snd (consume_pin i t st) = st\<lparr>pin_rows := pin_rows (snd (consume_pin i t st))\<rparr>"
  by (simp add: consume_pin_def Let_def)

text \<open>What \<open>_admit\<close> settles on before it consumes the PIN: the account \<open>aid\<close> and the store.\<close>

definition admits :: "int \<Rightarrow> bool \<Rightarrow> app_store \<Rightarrow> string \<Rightarrow> int \<Rightarrow> app_store \<Rightarrow> bool" where
  "admits n owner st aid pid st' \<longleftrightarrow> accounts_ok n st' \<and> linked st \<subseteq> linked st'
     \<and> (\<forall>l \<in> set (link_rows st'). link_account l = aid \<longrightarrow> plex_id l = pid)
     \<and> (owner \<longrightarrow> (aid, SYSTEM_ROLE_ID, True) \<in> set (holders st'))"

lemma admits_linked:
  assumes ok: "accounts_ok n st" and link: "plex_link_by_plex_id pid st = Some link" and owner: "owner \<longleftrightarrow> pid = n"
  shows "admits n owner st (link_account link) pid st"
proof -
  have l: "link \<in> set (link_rows st)" "plex_id link = pid"
    using link by (auto simp: plex_link_by_plex_id_def dest: sql_first_SomeD)
  have "\<forall>l \<in> set (link_rows st). link_account l = link_account link \<longrightarrow> plex_id l = pid"
    using keyed_unique [OF keys_okD(3) [OF accounts_okD(1) [OF ok]] _ l(1)] l(2) by blast
  with ok l owner show ?thesis by (auto simp: admits_def accounts_ok_def owner_ok_def)
qed

lemma admits_new:
  assumes ok: "accounts_ok n st" and ins: "insert_account row st = Inr st'" and row: "sign_in_allowed row"
    and owner: "owner \<Longrightarrow> account_role row = SYSTEM_ROLE_ID"
  shows "admits n owner st (account_id row) pid st'"
proof -
  note e = insert_account_effect [OF ins]
  have "\<forall>l \<in> set (link_rows st'). link_account l \<noteq> account_id row"
    using e(3,5) link_has_account [OF accounts_okD(1) [OF ok]] by metis
  then show ?thesis
    using insert_account_ok [OF ok ins row] e(1,3) row owner by (auto simp: admits_def linked_def)
qed

lemma link_by_email_ok:
  assumes ok: "accounts_ok n st" and b: "link_by_email t acc role owner st = Inr (moved, st')"
    and acc: "account_by_email email st = Some acc" "account_link acc = None" "sign_in_allowed acc"
    and role: "owner \<Longrightarrow> role_id role = SYSTEM_ROLE_ID"
  shows "admits n owner st (account_id acc) pid st'"
proof -
  obtain row where row: "row \<in> set (account_rows st)" "acc = account_of_row st row"
    using account_by_email_Some [OF acc(1)] by blast
  then have link: "plex_link_of (account_id acc) st = None" using acc(2) by simp
  have h: "(account_id acc, account_role acc, True) \<in> set (holders st)" using row acc(3) by (force simp: in_holders)
  obtain st1 where st1: "(if account_role acc \<noteq> role_id role then set_role (account_id acc) (role_id role) t
        (if owner then None else Some (account_role acc)) st else Inr st) = Inr st1"
    and st': "st' = st1 \<or> st' = revoke_all (account_id acc) None t (set_password_hash (account_id acc) None t st1)"
    using b by (auto simp: link_by_email_def Let_def raising_bind_Inr split: if_splits)
  have 1: "accounts_ok n st1 \<and> link_rows st1 = link_rows st \<and> (owner \<longrightarrow> (account_id acc, SYSTEM_ROLE_ID, True) \<in> set (holders st1))"
  proof (cases "account_role acc = role_id role")
    case True
    with st1 ok h role show ?thesis by auto
  next
    case False
    then have set: "set_role (account_id acc) (role_id role) t (if owner then None else Some (account_role acc)) st = Inr st1"
      using st1 by simp
    note e = set_role_effect [OF set]
    have "(account_id acc, role_id role, True) \<in> set (holders st1)"
      using imageI [OF h, of "\<lambda>h. (fst h, if fst h = account_id acc then role_id role else fst (snd h), snd (snd h))"]
      by (simp add: e(1))
    with set_role_ok [OF ok set] link e(3) role show ?thesis by (auto simp: sign_in_kind_of_def)
  qed
  have no_link: "\<forall>l \<in> set (link_rows st). link_account l \<noteq> account_id acc"
    using link by (auto simp: plex_link_of_def sql_first_None)
  have "holders (set_password_hash i h t s) = holders s" for i h s
    by (simp add: set_password_hash_def update_account_row_def holders_def sql_update_def)
  with 1 st' no_link show ?thesis
    by (auto simp: admits_def linked_def revoke_all_ok set_password_hash_ok)
qed

lemma plex_account_for_admits:
  assumes first: "plex_account_for env t fresh plex access st = Inr (aid, linked_t, moved, st1)"
    and owner: "access = PLEX_OWNER \<longleftrightarrow> plex_account_id plex = n" and ok: "accounts_ok n st"
  shows "admits n (access = PLEX_OWNER) st aid (plex_account_id plex) st1"
proof -
  let ?pid = "plex_account_id plex" and ?owner = "access = PLEX_OWNER"
  have system: "role_id role = SYSTEM_ROLE_ID" if "first_role st access = Inr role" "?owner" for role
    using that by (auto simp: first_role_def role_by_id_id)
  show ?thesis
  proof (cases "plex_link_by_plex_id ?pid st")
    case (Some link)
    then obtain acc where acc: "account_by_id (link_account link) st = Some acc" "st1 = st" "aid = account_id acc"
      using first by (auto simp: plex_account_for_def and_then_Inr split: option.splits)
    moreover have "account_id acc = link_account link" using account_by_id_Some [OF acc(1)] by auto
    ultimately show ?thesis using admits_linked [OF ok Some owner] by simp
  next
    case None
    show ?thesis
    proof (cases "account_by_email (plex_email plex) st")
      case None': None
      obtain role where role: "first_role st access = Inr role"
        and ins: "insert_account (plex_new_account env t fresh plex role) st = Inr st1"
        and aid: "aid = account_id (plex_new_account env t fresh plex role)"
        using first by (auto simp: plex_account_for_def None None' Let_def raising_bind_Inr)
      have "sign_in_allowed (plex_new_account env t fresh plex role)"
        "account_role (plex_new_account env t fresh plex role) = role_id role" by (simp_all add: plex_new_account_def)
      with admits_new [OF ok ins, of ?owner ?pid] system [OF role] show ?thesis by (simp add: aid)
    next
      case (Some found)
      obtain role moved' where role: "first_role st access = Inr role" "link_by_email t found role ?owner st = Inr (moved', st1)"
        and found: "account_link found = None" "sign_in_allowed found" "aid = account_id found"
        using first by (auto simp: plex_account_for_def None Some and_then_Inr raising_bind_Inr refuse_if_Inr refuse_cut_def)
      show ?thesis
        using link_by_email_ok [OF ok role(2) Some found(1,2)] system [OF role(1)] by (simp add: found(3))
    qed
  qed
qed

lemma plex_admit_cases:
  assumes "plex_admit env t fresh pin plex access token st = Inr ((aid, moved), st')"
  shows "\<exists>linked_t st1 link. plex_account_for env t fresh plex access st = Inr (aid, linked_t, moved, st1)
    \<and> upsert_plex_link link (snd (consume_pin pin t st1)) = Inr st'
    \<and> fst (consume_pin pin t st1) \<and> link_account link = aid \<and> plex_id link = plex_account_id plex
    \<and> link_access link = (if access = PLEX_OWNER then OwnerAccess else SharedAccess)"
proof (cases "plex_account_for env t fresh plex access st")
  case (Inr x)
  obtain i linked_t m st1 where x: "x = (i, linked_t, m, st1)" by (cases x)
  obtain c st2 where c: "consume_pin pin t st1 = (c, st2)" by fastforce
  show ?thesis
    using assms by (auto simp: plex_admit_def Inr x c and_then_Inr raising_bind_Inr refuse_if_Inr Let_def)
qed (use assms in \<open>simp add: plex_admit_def\<close>)

lemma plex_admit_keeps:
  assumes admit: "plex_admit env t fresh pin plex access token st = Inr ((aid, moved), st')"
    and owner: "access = PLEX_OWNER \<longleftrightarrow> plex_account_id plex = n"
  shows "keeps n st st'"
proof -
  obtain linked_t st1 link where first: "plex_account_for env t fresh plex access st = Inr (aid, linked_t, moved, st1)"
    and ups: "upsert_plex_link link (snd (consume_pin pin t st1)) = Inr st'"
    and link: "link_account link = aid" "plex_id link = plex_account_id plex"
      "link_access link = (if access = PLEX_OWNER then OwnerAccess else SharedAccess)"
    using plex_admit_cases [OF admit] by blast
  show ?thesis
    unfolding keeps_def
  proof
    assume ok: "accounts_ok n st"
    note admits = plex_account_for_admits [OF first owner ok]
    define st2 where "st2 = snd (consume_pin pin t st1)"
    obtain ps where ps: "st2 = st1\<lparr>pin_rows := ps\<rparr>" using consume_pin_store [of pin t st1] st2_def by blast
    then have st2: "accounts_ok n st2" "linked st2 = linked st1" "link_rows st2 = link_rows st1" "holders st2 = holders st1"
      using admits by (simp_all add: admits_def holders_def)
    have "accounts_ok n st'"
      using upsert_plex_link_ok [OF st2(1) ups [folded st2_def]] link owner admits st2(4) by (auto simp: admits_def)
    moreover have "linked st2 \<subseteq> linked st'"
      using upsert_plex_link_keeps(1) [OF ups [folded st2_def]] admits link(1,2) st2(3) by (simp add: admits_def)
    ultimately show "accounts_ok n st' \<and> linked st \<subseteq> linked st'" using admits st2(2) by (auto simp: admits_def)
  qed
qed

text \<open>
  What is assumed of plex.tv: the account behind the server's token is the server's owner \<open>n\<close>, and plex.tv
  says of a token of the owner's account that it owns the server, or that it has no access to it.
\<close>

definition plex_owner_is :: "int \<Rightarrow> plex_api \<Rightarrow> bool" where
  "plex_owner_is n api \<longleftrightarrow>
     (\<forall>p. account_behind api (server_token api) = Inr p \<longrightarrow> plex_account_id p = n)
     \<and> (\<forall>token p m access. account_behind api token = Inr p \<longrightarrow> plex_account_id p = n
          \<longrightarrow> server_access_of api token m = Inr access \<longrightarrow> access = PLEX_OWNER \<or> access = PLEX_NONE)"

definition owner_known :: "int \<Rightarrow> accounts_world \<Rightarrow> bool" where
  "owner_known n w \<longleftrightarrow> known_owner w = None \<or> known_owner w = Some n"

lemma server_owner_cases:
  assumes "plex_owner_is n api" and "owner_known n w"
  shows "app (snd (server_owner api w)) = app w \<and> owner_known n (snd (server_owner api w))
    \<and> (\<forall>i. fst (server_owner api w) = Inr i \<longrightarrow> i = n)"
  using assms by (auto simp: server_owner_def owner_known_def plex_owner_is_def split: option.splits sum.splits plex_error.splits)

lemma access_of_cases:
  assumes "plex_owner_is n api" and "owner_known n w" and "account_behind api token = Inr plex"
  shows "app (snd (access_of api token plex w)) = app w \<and> owner_known n (snd (access_of api token plex w))
    \<and> (\<forall>access. fst (access_of api token plex w) = Inr access \<longrightarrow> access \<noteq> PLEX_NONE \<longrightarrow>
        (access = PLEX_OWNER \<longleftrightarrow> plex_account_id plex = n))"
proof (cases "plex_server api")
  case (Some machine)
  obtain r w1 where w1: "server_owner api w = (r, w1)" by fastforce
  note owner = server_owner_cases [OF assms(1,2), unfolded w1]
  show ?thesis
  proof (cases "machine = None \<or> machine = Some []")
    case False
    show ?thesis
    proof (cases "server_access_of api token (the machine)")
      case (Inr access)
      have "plex_account_id plex = n \<Longrightarrow> access = PLEX_OWNER \<or> access = PLEX_NONE"
        using assms(1,3) Inr unfolding plex_owner_is_def by blast
      then show ?thesis
        using Some False Inr owner assms(2)
        by (cases access; cases r) (auto simp: access_of_def w1)
    qed (use Some False assms(2) in \<open>simp add: access_of_def\<close>)
  qed (use Some assms(2) in \<open>auto simp: access_of_def\<close>)
qed (use assms(2) in \<open>simp add: access_of_def\<close>)

lemma ask_plex_cases:
  assumes "plex_owner_is n api" and "owner_known n w"
  shows "app (snd (ask_plex api i code w)) = app w \<and> owner_known n (snd (ask_plex api i code w))
    \<and> (\<forall>token plex access. fst (ask_plex api i code w) = Inr (Some (token, plex, access)) \<longrightarrow>
        check_pin api i code = Inr (Some token) \<and> account_behind api token = Inr plex
        \<and> (access \<noteq> PLEX_NONE \<longrightarrow> (access = PLEX_OWNER \<longleftrightarrow> plex_account_id plex = n)))"
proof (cases "check_pin api i code")
  case (Inr found)
  show ?thesis
  proof (cases found)
    case (Some token)
    show ?thesis
    proof (cases "account_behind api token")
      case plex: (Inr plex)
      obtain r w1 where w1: "access_of api token plex w = (r, w1)" by fastforce
      show ?thesis
        using access_of_cases [OF assms plex] Inr Some plex by (cases r) (auto simp: ask_plex_def w1)
    qed (use Inr Some assms(2) in \<open>simp add: ask_plex_def\<close>)
  qed (use Inr assms(2) in \<open>simp add: ask_plex_def\<close>)
qed (use assms(2) in \<open>simp add: ask_plex_def\<close>)

lemma keeps_pins: "keeps n st (st\<lparr>pin_rows := ps\<rparr>)"
  by (simp add: keeps_def)

lemma claim_pin_store: "snd (claim_pin_check i t d st) = st\<lparr>pin_rows := pin_rows (snd (claim_pin_check i t d st))\<rparr>"
  by (simp add: claim_pin_check_def Let_def)

subsection \<open>The Plex door\<close>

text \<open>
  What the Plex door promises, whatever relation of stores its writes keep: the PINs', the admission's and
  the session's.
\<close>

locale kept_by_doors =
  fixes K :: "app_store \<Rightarrow> app_store \<Rightarrow> bool" and n :: int
  assumes K_trans: "K a b \<Longrightarrow> K b c \<Longrightarrow> K a c"
    and K_pins: "K st (st\<lparr>pin_rows := ps\<rparr>)"
    and K_open: "K (app w) (app (snd (open_proven_session env t fresh aid ua w)))"
    and K_admit: "plex_admit env t fresh pin plex access token st = Inr ((aid, moved), st') \<Longrightarrow>
      (access = PLEX_OWNER \<longleftrightarrow> plex_account_id plex = n) \<Longrightarrow> access \<noteq> PLEX_NONE \<Longrightarrow> K st st'"
begin

lemma K_refl [simp]: "K st st"
  using K_pins [of st "pin_rows st"] by simp

lemma finish:
  assumes "plex_owner_is n api" and "owner_known n w"
  shows "K (app w) (app (snd (plex_finish env nh api t fa ft i nonce ua w)))
    \<and> owner_known n (snd (plex_finish env nh api t fa ft i nonce ua w))"
proof (cases "live_pin nh i nonce t (app w)")
  case (Inr row)
  show ?thesis
  proof (cases "plex_server api")
    case None
    with Inr assms(2) show ?thesis by (simp add: plex_finish_def)
  next
    case server: (Some machine)
    obtain claimed st where claim: "claim_pin_check i t PIN_CHECK_MIN_INTERVAL_S (app w) = (claimed, st)" by fastforce
    have st: "K (app w) st"
      using claim_pin_store [of i t PIN_CHECK_MIN_INTERVAL_S "app w"] K_pins unfolding claim by (metis snd_conv)
    let ?w1 = "with_store w st"
    have w1: "owner_known n ?w1" "app ?w1 = st" using assms(2) by (simp_all add: owner_known_def with_store_def)
    obtain r w2 where ask: "ask_plex api i (pin_code row) ?w1 = (r, w2)" by fastforce
    have w2: "app w2 = st" "owner_known n w2"
      using ask_plex_cases [OF assms(1) w1(1), of i "pin_code row", unfolded ask] w1(2) by simp_all
    show ?thesis
    proof (cases "claimed \<and> (\<exists>token plex access. r = Inr (Some (token, plex, access)))")
      case False
      with Inr server claim ask st w1 w2 show ?thesis
        by (auto simp: plex_finish_def Let_def split: sum.split option.split)
    next
      case True
      then obtain token plex access where r: claimed "r = Inr (Some (token, plex, access))" by blast
      let ?burnt = "with_store w2 (snd (consume_pin i t (app w2)))"
      have "K st (snd (consume_pin i t st))" by (subst consume_pin_store) (rule K_pins)
      then have burnt: "K (app w) (app ?burnt)" "owner_known n ?burnt"
        using K_trans [OF st] w2 by (simp_all add: with_store_def owner_known_def)
      show ?thesis
      proof (cases "access = PLEX_NONE")
        case True
        with Inr server claim ask r burnt show ?thesis by (simp add: plex_finish_def Let_def)
      next
        case False
        show ?thesis
        proof (cases "plex_admit env t fa i plex access token (app w2)")
          case (Inl e)
          show ?thesis
          proof (cases "\<exists>c. e = AppRefusal Unauthenticated c \<or> e = AppRefusal Forbidden c")
            case True
            with Inr server claim ask r burnt False Inl show ?thesis by (auto simp: plex_finish_def Let_def)
          next
            case e: False
            have "snd (plex_finish env nh api t fa ft i nonce ua w) = w2"
              using Inr server claim ask r False Inl e
              by (simp add: plex_finish_def Let_def split: py_error.splits refusal_class.splits)
            with st w2 show ?thesis by simp
          qed
        next
          case admit: (Inr y)
          obtain aid moved st3 where y: "y = ((aid, moved), st3)" by (cases y) auto
          let ?w3 = "(if moved then publish (AccountRightsChanged [aid] PLEX_LINKED) (with_store w2 st3) else with_store w2 st3)"
          have w3: "app ?w3 = st3" "owner_known n ?w3"
            using w2(2) by (auto simp: with_store_def publish_def owner_known_def)
          have "access = PLEX_OWNER \<longleftrightarrow> plex_account_id plex = n"
            using ask_plex_cases [OF assms(1) w1(1), of i "pin_code row", unfolded ask] r False by simp
          with K_admit [OF admit [unfolded y]] False st w2(1) have "K (app w) st3" by (blast intro: K_trans)
          then have "K (app w) (app (snd (open_proven_session env t ft aid ua ?w3)))"
            using K_trans K_open [of ?w3 env t ft aid ua] w3(1) by metis
          moreover have "owner_known n (snd (open_proven_session env t ft aid ua ?w3))"
            using open_proven_session_cases [of env t ft aid ua ?w3] w3(2) by (simp only: owner_known_def)
          moreover have "app (snd (plex_finish env nh api t fa ft i nonce ua w)) = app (snd (open_proven_session env t ft aid ua ?w3))
              \<and> known_owner (snd (plex_finish env nh api t fa ft i nonce ua w)) = known_owner (snd (open_proven_session env t ft aid ua ?w3))"
            using Inr server claim ask r False admit y
            by (auto simp: plex_finish_def Let_def publish_def split: prod.splits sum.splits)
          ultimately show ?thesis by (simp add: owner_known_def)
        qed
      qed
    qed
  qed
qed (use assms(2) in \<open>simp add: plex_finish_def\<close>)

lemma start:
  "K (app w) (app (snd (plex_start nh api t nonce key w)))
   \<and> known_owner (snd (plex_start nh api t nonce key w)) = known_owner w"
proof -
  have purge: "\<exists>ps. purge_pins t l m st = st\<lparr>pin_rows := ps\<rparr>" for l m st by (auto simp: purge_pins_def Let_def)
  have "\<exists>ps. app (snd (plex_start nh api t nonce key w)) = (app w)\<lparr>pin_rows := ps\<rparr>"
  proof -
    have same: "\<exists>ps. app w = (app w)\<lparr>pin_rows := ps\<rparr>" by (rule exI [of _ "pin_rows (app w)"]) simp
    obtain ps where ps: "purge_pins t PIN_LIFETIME_FALLBACK_S PIN_PURGE_LIMIT (app w) = (app w)\<lparr>pin_rows := ps\<rparr>"
      using purge by blast
    show ?thesis
      using same by (auto simp: plex_start_def Let_def with_store_def ps insert_pin_def split: prod.splits sum.splits plex_error.splits)
  qed
  moreover have "known_owner (snd (plex_start nh api t nonce key w)) = known_owner w"
    by (auto simp: plex_start_def Let_def with_store_def split: prod.splits sum.splits plex_error.splits)
  ultimately show ?thesis by (auto simp: K_pins)
qed

end

interpretation door: kept_by_doors "keeps n" n for n
  by unfold_locales (auto intro: keeps_trans keeps_pins open_proven_session_keeps plex_admit_keeps)

end
