(* ===== verification/Account_Safety.thy ===== *)
theory Account_Safety
  imports Account_Gates
begin

text \<open>
  What the accounts guarantee over every run of their operations: the server's owner keeps the Admin role
  and their access, nobody but an Admin widens what the accounts hold together, and an account whose
  access is cut is out.
\<close>

subsection \<open>The steps\<close>

text \<open>
  A step is one call: of a signed-in actor (\<open>Some a\<close>), or of a door and of the command line (\<open>None\<close>). A
  call that raises with nothing written is no step. \<open>n\<close> is the Plex id of the server's owner.
\<close>

inductive account_step :: "int \<Rightarrow> actor option \<Rightarrow> accounts_world \<Rightarrow> accounts_world \<Rightarrow> bool" for n where
  by_create_role: "create_role t fresh a nm names w = Inr (v, w') \<Longrightarrow> account_step n (Some a) w w'"
| by_update_role: "update_role t a rid new_name held w = Inr (v, w') \<Longrightarrow> account_step n (Some a) w w'"
| by_delete_role: "delete_role a rid w = Inr (v', w') \<Longrightarrow> account_step n (Some a) w w'"
| by_set_own_language: "set_own_language env t a lang w = Inr (view, w') \<Longrightarrow> account_step n (Some a) w w'"
| by_reset_password: "reset_account_password env t a aid password w = Inr (v', w') \<Longrightarrow> account_step n (Some a) w w'"
| by_set_access: "set_account_access t a aid allowed w = Inr (s, w') \<Longrightarrow> account_step n (Some a) w w'"
| by_create_account: "create_account env t fresh a nm email rid pw w = Inr (s, w') \<Longrightarrow> account_step n (Some a) w w'"
| by_update_account: "update_account t a aid rid w = Inr (s, w') \<Longrightarrow> account_step n (Some a) w w'"
| by_change_password: "account_step n (Some a) w (snd (change_own_password env t a token current new w))"
| by_sign_out: "sign_out env t a token w = Inr (v', w') \<Longrightarrow> account_step n (Some a) w w'"
| by_revoke_session: "account_step n (Some a) w (with_store w ((app w)\<lparr>store_sessions :=
    snd (revoke_own_session (hash_token (env :: service_env)) a token i t (store_sessions (app w)))\<rparr>))"
| by_use: "account_step n None w (with_store w ((app w)\<lparr>store_sessions :=
    snd (use_session (hash_token (env :: service_env)) (actor_in ceil (app w)) idle token t fresh (store_sessions (app w)))\<rparr>))"
| by_resolve: "account_step n None w (snd (session_actor env token t w))"
| by_password: "account_step n None w (snd (sign_in_with_password env t fresh email password key ua w))"
| by_plex_start: "account_step n None w (snd (plex_start nonce_hash_of api t nonce key w))"
| by_plex_finish: "plex_owner_is n api \<Longrightarrow>
    account_step n None w (snd (plex_finish env nonce_hash_of api t fresh_account fresh_token i given ua w))"
| by_set_password: "set_password env t email password w = Inr (v', w') \<Longrightarrow> account_step n None w w'"
| by_create_owner: "create_owner env t fresh email nm password plex w = Inr (aid, w') \<Longrightarrow> owner_plex_id plex = n \<Longrightarrow>
    account_step n None w w'"

definition account_moves :: "int \<Rightarrow> accounts_world \<Rightarrow> accounts_world \<Rightarrow> bool" where
  "account_moves n w w' \<longleftrightarrow> (\<exists>who. account_step n who w w')"

definition accounts_inv :: "int \<Rightarrow> accounts_world \<Rightarrow> bool" where
  "accounts_inv n w \<longleftrightarrow> accounts_ok n (app w) \<and> owner_known n w"

lemma sign_out_keeps: "sign_out env t a token w = Inr (v, w') \<Longrightarrow> keeps n (app w) (app w') \<and> known_owner w' = known_owner w"
  using close_signed_in [where st = "app w" and hash_of = "hash_token env" and token = token and t = t]
  by (auto simp: sign_out_def service_simps intro!: keeps_sessions)

lemma known_owner_stays: "known_owner w' = known_owner w \<Longrightarrow> owner_known n w \<Longrightarrow> owner_known n w'"
  by (simp add: owner_known_def)

lemma account_step_keeps:
  assumes "account_step n who w w'" and "owner_known n w"
  shows "keeps n (app w) (app w') \<and> owner_known n w'"
  using assms
proof cases
  case by_create_role
  then show ?thesis using assms(2) create_role_gate [OF by_create_role(2)] create_role_keeps [OF by_create_role(2)] by (simp add: owner_known_def)
next
  case by_update_role
  then show ?thesis using assms(2) update_role_gate [OF by_update_role(2)] update_role_keeps [OF by_update_role(2)] by (simp add: owner_known_def)
next
  case by_delete_role
  then show ?thesis using assms(2) delete_role_gate [OF by_delete_role(2)] delete_role_keeps [OF by_delete_role(2)] by (simp add: owner_known_def)
next
  case by_set_own_language
  then show ?thesis using assms(2) set_own_language_gate [OF by_set_own_language(2)] set_own_language_keeps [OF by_set_own_language(2)] by (simp add: owner_known_def)
next
  case by_reset_password
  then show ?thesis using assms(2) reset_account_password_gate [OF by_reset_password(2)] reset_account_password_keeps [OF by_reset_password(2)] by (simp add: owner_known_def)
next
  case by_set_access
  then show ?thesis using assms(2) set_account_access_gate [OF by_set_access(2)] set_account_access_keeps [OF by_set_access(2)] by (simp add: owner_known_def)
next
  case by_create_account
  then show ?thesis using assms(2) create_account_gate [OF by_create_account(2)] create_account_keeps [OF by_create_account(2)] by (simp add: owner_known_def)
next
  case by_update_account
  then show ?thesis using assms(2) update_account_gate [OF by_update_account(2)] update_account_keeps [OF by_update_account(2)] by (simp add: owner_known_def)
next
  case by_change_password
  then show ?thesis using assms(2) change_own_password_keeps by (simp add: owner_known_def)
next
  case by_sign_out
  then show ?thesis using assms(2) sign_out_keeps [OF by_sign_out(2)] by (simp add: owner_known_def)
next
  case by_revoke_session
  with assms(2) revoke_own_signed_in show ?thesis by (simp add: with_store_def keeps_sessions owner_known_def)
next
  case by_use
  then show ?thesis using assms(2) by (simp add: with_store_def owner_known_def keeps_sessions [OF use_signed_in])
next
  case by_resolve
  then show ?thesis using assms(2) session_actor_keeps session_actor_app(2) by (simp add: owner_known_def)
next
  case by_password
  then show ?thesis using assms(2) sign_in_with_password_keeps by (simp add: owner_known_def)
next
  case by_plex_start
  then show ?thesis using assms(2) door.start by (simp add: owner_known_def)
next
  case by_plex_finish
  then show ?thesis using door.finish [OF by_plex_finish(3) assms(2)] by simp
next
  case by_set_password
  then show ?thesis using assms(2) set_password_keeps [OF by_set_password(2)] by (simp add: owner_known_def)
next
  case by_create_owner
  then show ?thesis using assms(2) create_owner_gate [OF by_create_owner(2)] create_owner_keeps(1) [OF by_create_owner(2,3)] by (simp add: owner_known_def)
qed

interpretation account_run: transition_system "account_moves n" "accounts_inv n" for n
  by unfold_locales (use account_step_keeps in \<open>unfold accounts_inv_def account_moves_def keeps_def, blast\<close>)

text \<open>A link, once there, stays along a run.\<close>

lemma run_linked: "(account_moves n)\<^sup>*\<^sup>* w w' \<Longrightarrow> accounts_inv n w \<Longrightarrow> linked (app w) \<subseteq> linked (app w')"
proof (induction rule: rtranclp_induct)
  case (step u v)
  have "accounts_inv n u" using account_run.steps_inv step by blast
  with step show ?case
    using account_step_keeps [of n _ u v] unfolding accounts_inv_def account_moves_def keeps_def by blast
qed simp

subsection \<open>The seeds\<close>

text \<open>The roles, their rights and the start roles \<open>002_accounts.sql\<close> seeds; no account, no link, no session.\<close>

definition requesting_rights :: "right set" where
  "requesting_rights = {LIBRARY_READ, ACQUISITION_REQUEST, ACQUISITION_FOLLOW, ACQUISITION_TODO_VIEW, ACQUISITION_PILOT_OWN,
     ACQUISITION_PAUSE_OWN}"

definition seeded_role :: "string \<Rightarrow> role_kind \<Rightarrow> role_row" where
  "seeded_role rid k = \<lparr>row_role_id = rid, row_role_name = None, row_role_kind = k, role_created_at = 0, role_updated_at = 0\<rparr>"

definition seeded_store :: app_store where
  "seeded_store = \<lparr>role_rows = seeded_role ''admin'' ADMIN #
       map (\<lambda>rid. seeded_role rid ORDINARY) [''household'', ''plex-guest'', ''requester'', ''local-guest''],
     right_rows = {''household''} \<times> requesting_rights \<union> {''plex-guest''} \<times> {LIBRARY_READ}
       \<union> {''requester''} \<times> requesting_rights \<union> {''local-guest''} \<times> {LIBRARY_READ},
     start_rows = [PlexHome \<mapsto> ''household'', PlexGuest \<mapsto> ''plex-guest''],
     account_rows = [], link_rows = [], pin_rows = [],
     store_sessions = \<lparr>session_rows = [], replaced_values = Map.empty, awaiting = Map.empty\<rparr>\<rparr>"

definition starts_seeded :: "accounts_world \<Rightarrow> bool" where
  "starts_seeded w \<longleftrightarrow> app w = seeded_store \<and> known_owner w = None"

lemma seeded_inv: "starts_seeded w \<Longrightarrow> accounts_inv n w"
  by (auto simp: starts_seeded_def accounts_inv_def owner_known_def accounts_ok_defs seeded_store_def seeded_role_def
      role_kinds_def holders_def signed_in_def SYSTEM_ROLE_ID_def)

lemmas seeded_run_inv = account_run.steps_inv [OF _ seeded_inv]

subsection \<open>What the invariant says of the answers\<close>

lemma account_in_holders:
  assumes "keys_ok st" and "(aid, rid, b) \<in> set (holders st)"
  shows "\<exists>acc. account_by_id aid st = Some acc \<and> account_id acc = aid \<and> account_role acc = rid
    \<and> sign_in_allowed acc = b \<and> account_link acc = plex_link_of aid st"
proof -
  obtain row where row: "row \<in> set (account_rows st)" "account_id row = aid" "account_role row = rid" "sign_in_allowed row = b"
    using assms(2) by (auto simp: in_holders)
  then have "account_by_id aid st = Some (account_of_row st row)" using account_by_id_iff [OF assms(1)] by blast
  with row show ?thesis by (simp add: account_of_row_def account_row.defs)
qed

lemma holder_of_account:
  assumes "account_by_id aid st = Some acc"
  shows "account_id acc = aid" "(aid, account_role acc, sign_in_allowed acc) \<in> set (holders st)"
  using account_by_id_Some [OF assms] by (auto simp: in_holders account_of_row_def account_row.defs)

lemma role_of_holder:
  assumes "keys_ok st" and "(aid, rid, b) \<in> set (holders st)"
  shows "\<exists>role. role_by_id rid st = Some role"
proof -
  have "rid \<in> roles_held st" using assms(2) unfolding roles_held_def image_iff by force
  with assms(1) have "rid \<in> fst ` set (role_kinds st)" by (auto simp: keys_ok_def)
  then show ?thesis using role_exists_iff role_exists_kinds by blast
qed

lemma actor_on_system_role:
  assumes "accounts_ok n st" and "(aid, SYSTEM_ROLE_ID, b) \<in> set (holders st)"
  shows "\<exists>a. actor_in ceil st aid = Some a \<and> actor_role_kind a = ADMIN"
proof -
  note ok = accounts_okD [OF assms(1)]
  obtain acc where acc: "account_by_id aid st = Some acc" "account_role acc = SYSTEM_ROLE_ID"
    using account_in_holders [OF ok(1) assms(2)] by blast
  obtain role where role: "role_by_id SYSTEM_ROLE_ID st = Some role" using role_of_holder [OF ok(1) assms(2)] by blast
  with role_by_id_admin [OF ok(2) role ok(1)] acc show ?thesis by (simp add: actor_in_def is_admin_def)
qed

lemma count_on_admin:
  assumes "accounts_ok n st" and "(aid, SYSTEM_ROLE_ID, b) \<in> set (holders st)"
  shows "count_on_role_kind ADMIN st > 0"
proof -
  obtain row where "row \<in> set (account_rows st)" "account_role row = SYSTEM_ROLE_ID"
    using assms(2) by (auto simp: in_holders)
  moreover have "(SYSTEM_ROLE_ID, ADMIN) \<in> set (role_kinds st)"
    using accounts_okD(2) [OF assms(1)] by (auto simp: system_role_ok_def admin_roles_def)
  ultimately show ?thesis
    unfolding count_on_role_kind_def in_role_kinds by (fastforce simp: filter_empty_conv)
qed

lemma live_account_allowed:
  assumes "accounts_ok n st" and "fst (live_session hash_of token t (store_sessions st)) = Some (row, renewable)"
    and "account_by_id (session_account row) st = Some acc"
  shows "sign_in_allowed acc"
proof (rule ccontr)
  assume cut: "\<not> sign_in_allowed acc"
  note found = live_session_found [OF assms(2)] and h = holder_of_account [OF assms(3)]
  have "session_account row \<in> signed_in st" using found(1,2) by (auto simp: signed_in_def)
  moreover have "session_account row \<in> cut_off st" using h(2) cut by (force simp: cut_off_def)
  ultimately show False using accounts_okD(4) [OF assms(1)] by (auto simp: cut_ok_def)
qed

lemma actor_in_account: "actor_in ceil st aid = Some a \<Longrightarrow> actor_id a = aid \<and> (\<exists>acc. account_by_id aid st = Some acc)"
  using holder_of_account(1) by (fastforce simp: actor_in_def split: option.splits)

subsection \<open>The owner keeps the Admin role\<close>

text \<open>C4: From the seeds, once the Plex identity of the server's owner is linked to an account, that account
  stays linked to it along every further run of operations, whoever calls them; it is on the system role and may
  sign in, its actor is an Admin, and an Admin account always exists.\<close>

theorem owner_keeps_admin:
  assumes "starts_seeded w0" and "(account_moves n)\<^sup>*\<^sup>* w0 w" and "(account_moves n)\<^sup>*\<^sup>* w w'"
    and "plex_link_by_plex_id n (app w) = Some l"
  shows "(\<exists>acc. account_by_id (link_account l) (app w') = Some acc \<and> account_role acc = SYSTEM_ROLE_ID
        \<and> sign_in_allowed acc \<and> sign_in_kind_of (account_link acc) = OWNER_ACCOUNT)
    \<and> (\<exists>a. actor_in ceil (app w') (link_account l) = Some a \<and> actor_role_kind a = ADMIN)
    \<and> count_on_role_kind ADMIN (app w') > 0"
proof -
  have inv: "accounts_inv n w" using seeded_run_inv [OF assms(2,1)] .
  then have ok: "accounts_ok n (app w')" using account_run.steps_inv [OF assms(3)] by (simp add: accounts_inv_def)
  have "(link_account l, n) \<in> linked (app w)"
    using sql_first_SomeD [OF assms(4) [unfolded plex_link_by_plex_id_def]] by (auto simp: linked_def)
  then obtain l' where l': "l' \<in> set (link_rows (app w'))" "link_account l' = link_account l" "plex_id l' = n"
    using run_linked [OF assms(3) inv] by (auto simp: linked_def)
  then have h: "(link_account l, SYSTEM_ROLE_ID, True) \<in> set (holders (app w'))"
    using accounts_okD(3) [OF ok] by (auto simp: owner_ok_def)
  from account_in_holders [OF accounts_okD(1) [OF ok] h] owner_kind [OF ok l'(1,3)] l'(2)
    actor_on_system_role [OF ok h] count_on_admin [OF ok h]
  show ?thesis by auto
qed

subsection \<open>A cut account is out\<close>

text \<open>From the seeds, after any run of operations, a cookie that resolves to an actor, with or without renewing
  the session, is one of an account that may sign in: cutting an account's access ends every session it has, and
  no door opens another while it is cut.\<close>

theorem cut_account_is_out:
  assumes "starts_seeded w0" and "(account_moves n)\<^sup>*\<^sup>* w0 w"
    and "fst (session_actor env token t w) = Some a
      \<or> fst (use_session (hash_token env) (actor_in ceil (app w)) idle token t fresh (store_sessions (app w))) = Some (a, renewed)"
  shows "\<exists>acc. account_by_id (actor_id a) (app w) = Some acc \<and> sign_in_allowed acc"
proof -
  have ok: "accounts_ok n (app w)" using seeded_run_inv [OF assms(2,1)] by (simp add: accounts_inv_def)
  obtain row renewable c where found: "fst (live_session (hash_token env) token t (store_sessions (app w))) = Some (row, renewable)"
      "actor_in c (app w) (session_account row) = Some a"
    using assms(3) by (auto simp: session_actor_def resolve_def use_session_def Let_def split: prod.splits option.splits if_splits)
  obtain acc where "account_by_id (session_account row) (app w) = Some acc" "actor_id a = session_account row"
    using actor_in_account [OF found(2)] by blast
  with live_account_allowed [OF ok found(1)] show ?thesis by simp
qed

subsection \<open>The rights the accounts hold together\<close>

text \<open>
  The accounts off the system role and the start roles hold rights of \<open>R\<close> only; those on the system role
  are of \<open>A\<close> or linked to the server's owner.
\<close>

definition rights_of :: "string \<Rightarrow> app_store \<Rightarrow> right set" where
  "rights_of rid st = {r. (rid, r) \<in> right_rows st}"

definition places :: "app_store \<Rightarrow> (string \<times> string) set" where
  "places st = (\<lambda>acc. (account_id acc, account_role acc)) ` set (account_rows st)"

definition place_ok :: "int \<Rightarrow> right set \<Rightarrow> string set \<Rightarrow> app_store \<Rightarrow> string \<Rightarrow> string \<Rightarrow> bool" where
  "place_ok n R A st aid rid \<longleftrightarrow>
     (if rid = SYSTEM_ROLE_ID then aid \<in> A \<or> (aid, n) \<in> linked st else rights_of rid st \<subseteq> R)"

definition bounded :: "int \<Rightarrow> right set \<Rightarrow> string set \<Rightarrow> app_store \<Rightarrow> bool" where
  "bounded n R A st \<longleftrightarrow> (\<forall>(aid, rid) \<in> places st. place_ok n R A st aid rid)
     \<and> (\<forall>k rid. start_rows st k = Some rid \<longrightarrow>
        rid \<noteq> SYSTEM_ROLE_ID \<and> rid \<in> fst ` set (role_kinds st) \<and> rights_of rid st \<subseteq> R)"

lemma places_map: "map (\<lambda>acc. (account_id acc, account_role acc)) (account_rows st')
    = map (\<lambda>acc. (account_id acc, account_role acc)) (account_rows st) \<Longrightarrow> places st' = places st"
  unfolding places_def by (metis set_map)

lemma bounded_place: "bounded n R A st \<Longrightarrow> (aid, rid) \<in> places st \<Longrightarrow> place_ok n R A st aid rid"
  unfolding bounded_def by blast

lemma bounded_start: "bounded n R A st \<Longrightarrow> start_rows st k = Some rid \<Longrightarrow>
    rid \<noteq> SYSTEM_ROLE_ID \<and> rid \<in> fst ` set (role_kinds st) \<and> rights_of rid st \<subseteq> R"
  unfolding bounded_def by blast

text \<open>Writes that leave the rights and the start roles as they are, and only give \<open>E\<close> new places.\<close>

definition gives :: "(string \<times> string) set \<Rightarrow> app_store \<Rightarrow> app_store \<Rightarrow> bool" where
  "gives E st st' \<longleftrightarrow> right_rows st' = right_rows st \<and> start_rows st' = start_rows st \<and> role_kinds st' = role_kinds st
     \<and> linked st \<subseteq> linked st' \<and> places st' \<subseteq> places st \<union> E"

lemma gives_refl [simp]: "gives E st st"
  by (simp add: gives_def)

lemma gives_trans: "gives E a b \<Longrightarrow> gives E b c \<Longrightarrow> gives E a c"
  unfolding gives_def by auto

lemma gives_mono: "gives E a b \<Longrightarrow> E \<subseteq> F \<Longrightarrow> gives F a b"
  unfolding gives_def by auto

lemma gives_bounded:
  assumes "gives E st st'" and "bounded n R A st" and "\<And>aid rid. (aid, rid) \<in> E \<Longrightarrow> place_ok n R A st' aid rid"
  shows "bounded n R A st'"
proof -
  have r: "rights_of rid st' = rights_of rid st" for rid using assms(1) by (simp add: gives_def rights_of_def)
  have "place_ok n R A st' aid rid" if "(aid, rid) \<in> places st'" for aid rid
  proof (cases "(aid, rid) \<in> E")
    case False
    then have "place_ok n R A st aid rid" using that assms(1,2) by (auto simp: gives_def bounded_def)
    then show ?thesis using assms(1) by (auto simp: place_ok_def r gives_def split: if_splits)
  qed (rule assms(3))
  then show ?thesis using assms(1,2) by (auto simp: bounded_def r gives_def)
qed

text \<open>The statements.\<close>

lemma sessions_give [simp]: "gives E st (st\<lparr>store_sessions := s\<rparr>)" "gives E st (st\<lparr>pin_rows := ps\<rparr>)"
  by (simp_all add: gives_def linked_def places_def role_kinds_def)

lemma account_write_gives:
  assumes "\<And>row. account_id (f row) = account_id row \<and> (account_role (f row) = account_role row \<or> account_role (f row) = rid)"
  shows "gives {(aid, rid)} st (update_account_row aid f st)"
proof -
  have "places (update_account_row aid f st) \<subseteq> places st \<union> {(aid, rid)}"
    using assms by (force simp: places_def update_account_row_def set_sql_update)
  then show ?thesis by (simp add: gives_def update_account_row_def linked_def role_kinds_def)
qed

lemma account_keep_gives:
  assumes "\<And>row. account_id (f row) = account_id row \<and> account_role (f row) = account_role row"
  shows "gives E st (update_account_row aid f st)"
proof -
  have "places (update_account_row aid f st) \<subseteq> places st"
    using assms by (force simp: places_def update_account_row_def set_sql_update)
  then show ?thesis by (auto simp: gives_def update_account_row_def linked_def role_kinds_def)
qed

lemma account_fields_give [simp]:
  "gives E st (set_password_hash aid h t st)" "gives E st (set_language aid lang t st)"
  "gives E st (set_sign_in_allowed aid b t st)" "gives E st (revoke_all aid ex t st)"
  by (simp_all add: set_password_hash_def set_language_def set_sign_in_allowed_def revoke_all_def account_keep_gives)

lemma insert_account_gives:
  "insert_account row st = Inr st' \<Longrightarrow> gives {(account_id row, account_role row)} st st'"
  by (auto simp: insert_account_def gives_def places_def linked_def role_kinds_def split: if_splits)

lemma set_role_gives: "set_role aid rid t d st = Inr st' \<Longrightarrow> gives {(aid, rid)} st st'"
  by (auto simp: set_role_def account_write_gives split: if_splits)

text \<open>A new role is nobody's; an edited one holds rights of \<open>R\<close>.\<close>

lemma role_rights_of: "role_by_id rid st = Some role \<Longrightarrow> role_rights role = rights_of rid st"
  by (auto simp: rights_of_def dest!: role_by_id_Some)

lemma placed_role: "keys_ok st \<Longrightarrow> (aid, rid) \<in> places st \<Longrightarrow> rid \<in> fst ` set (role_kinds st)"
proof -
  assume keys: "keys_ok st" and "(aid, rid) \<in> places st"
  then obtain acc where "acc \<in> set (account_rows st)" "rid = account_role acc" by (auto simp: places_def)
  then have "rid \<in> roles_held st" by (auto simp: roles_held_def holders_def image_image)
  with keys show "rid \<in> fst ` set (role_kinds st)" unfolding keys_ok_def by blast
qed

lemma role_writes_bounded:
  assumes "bounded n R A st" and "keys_ok st"
    and "places st' = places st" and "linked st' = linked st" and "start_rows st' = start_rows st"
    and "\<And>rid. rid \<in> fst ` set (role_kinds st) \<Longrightarrow> (rid \<in> snd ` places st \<or> rid \<in> ran (start_rows st)) \<Longrightarrow>
        rid \<in> fst ` set (role_kinds st') \<and> (rid \<noteq> SYSTEM_ROLE_ID \<longrightarrow> rights_of rid st' \<subseteq> rights_of rid st \<or> rights_of rid st' \<subseteq> R)"
  shows "bounded n R A st'"
proof -
  have "place_ok n R A st' aid rid" if p: "(aid, rid) \<in> places st" for aid rid
  proof -
    have ok: "place_ok n R A st aid rid" using bounded_place [OF assms(1) p] .
    have "rid \<in> snd ` places st" using p by force
    with assms(6) placed_role [OF assms(2) p]
    have "rid \<noteq> SYSTEM_ROLE_ID \<longrightarrow> rights_of rid st' \<subseteq> rights_of rid st \<or> rights_of rid st' \<subseteq> R" by blast
    with ok show ?thesis using assms(4) by (auto simp: place_ok_def split: if_splits)
  qed
  moreover have "rid \<noteq> SYSTEM_ROLE_ID \<and> rid \<in> fst ` set (role_kinds st') \<and> rights_of rid st' \<subseteq> R"
    if s: "start_rows st k = Some rid" for k rid
  proof -
    have "rid \<noteq> SYSTEM_ROLE_ID" "rid \<in> fst ` set (role_kinds st)" "rights_of rid st \<subseteq> R"
      using bounded_start [OF assms(1) s] by simp_all
    moreover have "rid \<in> ran (start_rows st)" using s by (rule ranI)
    ultimately show ?thesis using assms(6) by blast
  qed
  ultimately show ?thesis using assms(3,5) by (auto simp: bounded_def)
qed

lemma insert_role_bounded:
  assumes "bounded n R A st" and "keys_ok st" and "insert_role role t st = Inr st'" and "role_default_for role = {}"
  shows "bounded n R A st'"
proof (rule role_writes_bounded [OF assms(1,2)])
  have new: "role_id role \<notin> fst ` set (role_kinds st)"
    using assms(3) by (force simp: insert_role_def role_kinds_def split: if_splits)
  fix rid assume "rid \<in> fst ` set (role_kinds st)"
  with new have "rid \<noteq> role_id role" by blast
  with \<open>rid \<in> fst ` set (role_kinds st)\<close> assms(3)
  show "rid \<in> fst ` set (role_kinds st') \<and> (rid \<noteq> SYSTEM_ROLE_ID \<longrightarrow> rights_of rid st' \<subseteq> rights_of rid st \<or> rights_of rid st' \<subseteq> R)"
    by (auto simp: insert_role_def rights_of_def role_kinds_def split: if_splits)
qed (use assms(3,4) in \<open>auto simp: insert_role_def places_def linked_def split: if_splits\<close>)

lemma update_role_row_bounded:
  assumes "bounded n R A st" and "keys_ok st" and "\<And>held. rs = Some held \<Longrightarrow> held \<subseteq> R"
  shows "bounded n R A (update_role_row rid nm rs t st)"
proof (rule role_writes_bounded [OF assms(1,2)])
  fix r assume r: "r \<in> fst ` set (role_kinds st)"
  have "rights_of r (update_role_row rid nm rs t st) \<subseteq> rights_of r st \<or> rights_of r (update_role_row rid nm rs t st) \<subseteq> R"
    using assms(3) by (cases "r = rid"; cases rs) (auto simp: update_role_row_def rights_of_def)
  with r show "r \<in> fst ` set (role_kinds (update_role_row rid nm rs t st))
      \<and> (r \<noteq> SYSTEM_ROLE_ID \<longrightarrow> rights_of r (update_role_row rid nm rs t st) \<subseteq> rights_of r st
         \<or> rights_of r (update_role_row rid nm rs t st) \<subseteq> R)" by simp
qed (simp_all add: update_role_row_def places_def linked_def)

lemma delete_role_row_bounded:
  assumes "bounded n R A st" and "keys_ok st" and "delete_role_row rid st = Inr st'"
  shows "bounded n R A st'"
proof (rule role_writes_bounded [OF assms(1,2)])
  fix r assume r: "r \<in> fst ` set (role_kinds st)" and used: "r \<in> snd ` places st \<or> r \<in> ran (start_rows st)"
  have "rid \<notin> snd ` places st \<and> rid \<notin> ran (start_rows st)"
    using assms(3) by (auto simp: delete_role_row_def places_def ran_def split: if_splits)
  with used have "r \<noteq> rid" by blast
  with r assms(3) show "r \<in> fst ` set (role_kinds st')
      \<and> (r \<noteq> SYSTEM_ROLE_ID \<longrightarrow> rights_of r st' \<subseteq> rights_of r st \<or> rights_of r st' \<subseteq> R)"
    by (auto simp: delete_role_row_def rights_of_def role_kinds_def image_iff split: if_splits)
next
  have "account_rows st' = sql_update (\<lambda>acc. demoted_from acc = Some rid) (\<lambda>acc. acc\<lparr>demoted_from := None\<rparr>) (account_rows st)"
    using assms(3) by (auto simp: delete_role_row_def split: if_splits)
  then show "places st' = places st" by (intro places_map) simp
qed (use assms(3) in \<open>auto simp: delete_role_row_def linked_def split: if_splits\<close>)

text \<open>A signed-in actor off the system role holds rights of \<open>R\<close>, and gives rights of \<open>R\<close> only.\<close>

definition insider :: "app_store \<Rightarrow> actor \<Rightarrow> bool" where
  "insider st a \<longleftrightarrow> (\<exists>ceil aid. actor_in ceil st aid = Some a) \<and> actor_role_kind a \<noteq> ADMIN"

lemma insider_rights:
  assumes "accounts_ok n st" and "bounded n R A st" and "insider st a"
  shows "actor_role_rights a \<subseteq> R"
proof -
  note ok = accounts_okD [OF assms(1)]
  obtain ceil aid where "actor_in ceil st aid = Some a" and na: "actor_role_kind a \<noteq> ADMIN"
    using assms(3) by (auto simp: insider_def)
  then obtain acc role where acc: "account_by_id aid st = Some acc" and role: "role_by_id (account_role acc) st = Some role"
    and a: "actor_role_kind a = role_kind role" "actor_role_rights a = role_rights role" "role_kind role \<noteq> ADMIN"
    by (cases "account_by_id aid st") (auto simp: actor_in_def split: option.splits)
  have "account_role acc \<noteq> SYSTEM_ROLE_ID" using role_by_id_admin [OF ok(2) role ok(1)] a(3) by (simp add: is_admin_def)
  moreover have "(aid, account_role acc) \<in> places st"
    using account_by_id_Some [OF acc] by (auto simp: places_def account_of_row_def account_row.defs)
  ultimately have "rights_of (account_role acc) st \<subseteq> R"
    using bounded_place [OF assms(2)] by (fastforce simp: place_ok_def)
  then show ?thesis using role_rights_of [OF role] a(2) by simp
qed

lemma insider_gives:
  assumes "insider st a" and "actor_role_rights a \<subseteq> R"
  shows "within_rights (grantor_in st a) held \<Longrightarrow> held \<subseteq> R"
    and "check_may_give (grantor_in st a) role = Inr () \<Longrightarrow> \<not> is_admin role \<and> role_rights role \<subseteq> R"
  using assms by (auto simp: insider_def within_rights_def check_may_give_def grantor_in_def grantor_of_def refuse_if_Inr)

lemma insider_place:
  assumes "accounts_ok n st" and "role_by_id rid st = Some role" and "\<not> is_admin role" and "role_rights role \<subseteq> R"
    and "gives E st st'"
  shows "place_ok n R A st' aid rid"
proof -
  note ok = accounts_okD [OF assms(1)]
  have "rid \<noteq> SYSTEM_ROLE_ID" using role_by_id_admin [OF ok(2) assms(2) ok(1)] assms(3) by simp
  moreover have "rights_of rid st' = rights_of rid st" using assms(5) by (simp add: gives_def rights_of_def)
  ultimately show ?thesis using assms(4) role_rights_of [OF assms(2)] by (simp add: place_ok_def)
qed

text \<open>The doors: a new place is on the system role for the server's owner, on a start role for anyone else.\<close>

definition with_owner :: "plex_access \<Rightarrow> string \<Rightarrow> string set \<Rightarrow> string set" where
  "with_owner access aid A = (if access = PLEX_OWNER then insert aid A else A)"

lemma first_role_place:
  assumes "first_role st access = Inr role" and "bounded n R A st" and "gives E st st'"
  shows "place_ok n R (with_owner access aid A) st' aid (role_id role)"
proof (cases "access = PLEX_OWNER")
  case True
  then have "role_id role = SYSTEM_ROLE_ID" using assms(1) by (auto simp: first_role_def role_by_id_id)
  with True show ?thesis by (simp add: place_ok_def with_owner_def)
next
  case False
  then obtain k rid where k: "start_rows st k = Some rid" and role: "role_by_id rid st = Some role"
    using assms(1) by (auto simp: first_role_def role_for_start_def bind_eq_Some_conv)
  from bounded_start [OF assms(2) k] role_by_id_id [OF role] assms(3)
  show ?thesis by (simp add: place_ok_def rights_of_def gives_def)
qed

lemma bounded_mono: "bounded n R A st \<Longrightarrow> A \<subseteq> B \<Longrightarrow> bounded n R B st"
  by (fastforce simp: bounded_def place_ok_def split: if_splits)

lemma with_owner_mono: "A \<subseteq> with_owner access aid A"
  by (auto simp: with_owner_def)

lemma link_by_email_gives:
  assumes "link_by_email t acc role owner st = Inr (moved, st')"
  shows "gives {(account_id acc, role_id role)} st st'"
proof -
  let ?E = "{(account_id acc, role_id role)}"
  obtain st1 where "st1 = st \<or> set_role (account_id acc) (role_id role) t (if owner then None else Some (account_role acc)) st = Inr st1"
      and st': "st' = st1 \<or> st' = revoke_all (account_id acc) None t (set_password_hash (account_id acc) None t st1)"
    using assms by (auto simp: link_by_email_def Let_def raising_bind_Inr split: if_splits)
  then have "gives ?E st st1" using set_role_gives by auto
  moreover have "gives ?E st1 st'"
    using st' gives_trans [of ?E st1 "set_password_hash (account_id acc) None t st1"] by auto
  ultimately show ?thesis by (rule gives_trans)
qed

lemma plex_account_for_bounded:
  assumes first: "plex_account_for env t fresh plex access st = Inr (aid, linked_t, moved, st1)" and b: "bounded n R A st"
  shows "bounded n R (with_owner access aid A) st1"
proof -
  note b' = bounded_mono [OF b with_owner_mono]
  show ?thesis
  proof (cases "plex_link_by_plex_id (plex_account_id plex) st")
    case (Some link)
    then show ?thesis using first b' by (auto simp: plex_account_for_def and_then_Inr split: option.splits)
  next
    case None
    show ?thesis
    proof (cases "account_by_email (plex_email plex) st")
      case None': None
      obtain role where role: "first_role st access = Inr role"
        and ins: "insert_account (plex_new_account env t fresh plex role) st = Inr st1"
        and aid: "aid = account_id (plex_new_account env t fresh plex role)"
        using first by (auto simp: plex_account_for_def None None' Let_def raising_bind_Inr)
      have g: "gives {(aid, role_id role)} st st1"
        using insert_account_gives [OF ins] by (simp add: aid) (simp add: plex_new_account_def)
      from gives_bounded [OF g b'] first_role_place [OF role b g] show ?thesis by blast
    next
      case (Some found)
      obtain role moved' where role: "first_role st access = Inr role" "link_by_email t found role (access = PLEX_OWNER) st = Inr (moved', st1)"
        and aid: "aid = account_id found"
        using first by (auto simp: plex_account_for_def None Some and_then_Inr raising_bind_Inr refuse_if_Inr refuse_cut_def)
      have g: "gives {(aid, role_id role)} st st1" using link_by_email_gives [OF role(2)] aid by simp
      from gives_bounded [OF g b'] first_role_place [OF role(1) b g] show ?thesis by blast
    qed
  qed
qed

lemma upsert_gives:
  assumes "upsert_plex_link link st = Inr st'"
    and "\<forall>l \<in> set (link_rows st). link_account l = link_account link \<longrightarrow> plex_id l = plex_id link"
  shows "gives E st st'"
proof -
  have "right_rows st' = right_rows st \<and> start_rows st' = start_rows st \<and> role_kinds st' = role_kinds st
      \<and> account_rows st' = account_rows st"
    using assms(1) by (auto simp: upsert_plex_link_def role_kinds_def split: if_splits)
  with upsert_plex_link_keeps(1) [OF assms] show ?thesis by (auto simp: gives_def places_def)
qed

lemma owner_admitted:
  assumes "bounded n R (with_owner access aid A) st" and "access = PLEX_OWNER \<Longrightarrow> (aid, n) \<in> linked st"
  shows "bounded n R A st"
proof -
  have "place_ok n R A st i rid" if "(i, rid) \<in> places st" for i rid
    using bounded_place [OF assms(1) that] assms(2) by (auto simp: place_ok_def with_owner_def split: if_splits)
  with assms(1) show ?thesis by (auto simp: bounded_def)
qed

lemma plex_admit_bounded:
  assumes admit: "plex_admit env t fresh pin plex access token st = Inr ((aid, moved), st')"
    and owner: "access = PLEX_OWNER \<longleftrightarrow> plex_account_id plex = n"
    and ok: "accounts_ok n st" and b: "bounded n R A st"
  shows "bounded n R A st'"
proof -
  obtain linked_t st1 link where first: "plex_account_for env t fresh plex access st = Inr (aid, linked_t, moved, st1)"
    and ups: "upsert_plex_link link (snd (consume_pin pin t st1)) = Inr st'"
    and link: "link_account link = aid" "plex_id link = plex_account_id plex"
    using plex_admit_cases [OF admit] by blast
  define st2 where "st2 = snd (consume_pin pin t st1)"
  have st2: "st2 = st1\<lparr>pin_rows := pin_rows st2\<rparr>" using consume_pin_store [of pin t st1] st2_def by simp
  have "gives {} st1 st2" by (subst st2) simp
  then have b2: "bounded n R (with_owner access aid A) st2" using gives_bounded plex_account_for_bounded [OF first b] by blast
  have "link_rows st2 = link_rows st1" by (subst st2) simp
  then have only: "\<forall>l \<in> set (link_rows st2). link_account l = link_account link \<longrightarrow> plex_id l = plex_id link"
    using plex_account_for_admits [OF first owner ok] link by (simp add: admits_def)
  note ups' = ups [folded st2_def]
  have "bounded n R (with_owner access aid A) st'" using gives_bounded [OF upsert_gives [OF ups' only, of "{}"] b2] by simp
  then show ?thesis
    by (rule owner_admitted) (use upsert_plex_link_keeps(2) [OF ups' only] link owner in simp)
qed

definition contains :: "int \<Rightarrow> right set \<Rightarrow> string set \<Rightarrow> app_store \<Rightarrow> app_store \<Rightarrow> bool" where
  "contains n R A st st' \<longleftrightarrow> keeps n st st' \<and> (accounts_ok n st \<longrightarrow> bounded n R A st \<longrightarrow> bounded n R A st')"

lemma contains_gives: "keeps n st st' \<Longrightarrow> gives {} st st' \<Longrightarrow> contains n R A st st'"
  using gives_bounded by (fastforce simp: contains_def)

lemma open_proven_session_gives: "gives E (app w) (app (snd (open_proven_session env t fresh aid ua w)))"
  using open_proven_session_cases [of env t fresh aid ua w] by auto

interpretation closed_door: kept_by_doors "contains n R A" n for n R A
proof unfold_locales
  show "contains n R A a b \<Longrightarrow> contains n R A b c \<Longrightarrow> contains n R A a c" for a b c
    using keeps_trans unfolding contains_def keeps_def by blast
  show "contains n R A st (st\<lparr>pin_rows := ps\<rparr>)" for st ps by (simp add: contains_gives keeps_pins)
  show "contains n R A (app w) (app (snd (open_proven_session env t fresh aid ua w)))" for env t fresh aid ua w
    by (simp add: contains_gives open_proven_session_keeps open_proven_session_gives)
  show "contains n R A st st'" if "plex_admit env t fresh pin plex access token st = Inr ((aid, moved), st')"
    "access = PLEX_OWNER \<longleftrightarrow> plex_account_id plex = n" for env t fresh pin plex access token st aid moved st'
    using plex_admit_keeps [OF that] plex_admit_bounded [OF that] by (simp add: contains_def)
qed

lemma create_owner_bounded:
  assumes made: "create_owner env t fresh email nm password plex w = Inr (v, w')" "owner_plex_id plex = n"
    and ok: "accounts_ok n (app w)" and b: "bounded n R A (app w)"
  shows "bounded n R A (app w')"
proof -
  obtain row link st where ins: "insert_account row (app w) = Inr st" and ups: "upsert_plex_link link st = Inr (app w')"
    and row: "account_role row = SYSTEM_ROLE_ID"
    and link: "link_account link = account_id row" "plex_id link = owner_plex_id plex"
    using create_owner_gate [OF made(1)] by blast
  note e = insert_account_effect [OF ins]
  have only: "\<forall>l \<in> set (link_rows st). link_account l = link_account link \<longrightarrow> plex_id l = plex_id link"
    using e(3,5) link(1) link_has_account [OF accounts_okD(1) [OF ok]] by metis
  let ?A = "with_owner PLEX_OWNER (account_id row) A"
  have "bounded n R ?A st"
    by (rule gives_bounded [OF insert_account_gives [OF ins] bounded_mono [OF b with_owner_mono]])
      (simp add: row place_ok_def with_owner_def)
  then have "bounded n R ?A (app w')" using gives_bounded [OF upsert_gives [OF ups only, of "{}"]] by simp
  then show ?thesis
    by (rule owner_admitted) (use upsert_plex_link_keeps(2) [OF ups only] link made(2) in simp)
qed

text \<open>What a signed-in actor off the system role may do.\<close>

lemma insider_roles:
  assumes "accounts_ok n (app w)" and "bounded n R A (app w)" and "insider (app w) a"
  shows "create_role t fresh a nm names w = Inr (v, w') \<Longrightarrow> bounded n R A (app w')"
    and "update_role t a rid new_name held w = Inr (v, w') \<Longrightarrow> bounded n R A (app w')"
    and "delete_role a rid w = Inr (u, w') \<Longrightarrow> bounded n R A (app w')"
proof -
  note keys = accounts_okD(1) [OF assms(1)] and gives = insider_gives [OF assms(3) insider_rights [OF assms]]
  show "bounded n R A (app w')" if call: "create_role t fresh a nm names w = Inr (v, w')"
    using create_role_gate [OF call] insert_role_bounded [OF assms(2) keys] by blast
  show "bounded n R A (app w')" if call: "update_role t a rid new_name held w = Inr (v, w')"
  proof -
    consider "app w' = app w" | nm' rs where "app w' = update_role_row rid nm' rs t (app w)"
        "\<forall>held. rs = Some held \<longrightarrow> within_rights (grantor_in (app w) a) held"
      using update_role_gate [OF call] by blast
    then show ?thesis
      by cases (use assms(2) in \<open>auto intro!: update_role_row_bounded [OF assms(2) keys] dest: gives(1)\<close>)
  qed
  show "bounded n R A (app w')" if call: "delete_role a rid w = Inr (u, w')"
    using delete_role_gate [OF call] delete_role_row_bounded [OF assms(2) keys] by blast
qed

lemma insider_accounts:
  assumes "accounts_ok n (app w)" and "bounded n R A (app w)" and "insider (app w) a"
  shows "create_account env t fresh a nm email rid pw w = Inr (v, w') \<Longrightarrow> bounded n R A (app w')"
    and "update_account t a aid rid w = Inr (v, w') \<Longrightarrow> bounded n R A (app w')"
proof -
  note give = insider_gives [OF assms(3) insider_rights [OF assms]]
  show "bounded n R A (app w')" if call: "create_account env t fresh a nm email rid pw w = Inr (v, w')"
  proof -
    obtain role row where r: "role_by_id rid (app w) = Some role" "check_may_give (grantor_in (app w) a) role = Inr ()"
      and ins: "insert_account row (app w) = Inr (app w')" and row: "account_role row = rid"
      using create_account_gate [OF call] by blast
    note g = insert_account_gives [OF ins, unfolded row]
    have "place_ok n R A (app w') i rid" for i using insider_place [OF assms(1) r(1) _ _ g] give(2) [OF r(2)] by blast
    then show ?thesis using gives_bounded [OF g assms(2)] by blast
  qed
  show "bounded n R A (app w')" if call: "update_account t a aid rid w = Inr (v, w')"
  proof -
    obtain acc :: account and target where r: "role_by_id rid (app w) = Some target" "check_may_give (grantor_in (app w) a) target = Inr ()"
      and st: "app w' = app w \<or> set_role (account_id acc) rid t None (app w) = Inr (app w')"
      using update_account_gate [OF call] by blast
    have g: "gives {(account_id acc, rid)} (app w) (app w')" using st set_role_gives by auto
    have "place_ok n R A (app w') i rid" for i using insider_place [OF assms(1) r(1) _ _ g] give(2) [OF r(2)] by blast
    then show ?thesis using gives_bounded [OF g assms(2)] by blast
  qed
qed

lemma change_own_password_gives: "gives {} (app w) (app (snd (change_own_password env t a token current new w)))"
proof -
  obtain kept s where s: "live_session_id (hash_token env) token t (store_sessions (app w)) = (kept, s)" by fastforce
  have "gives {} (app w) (revoke_all aid kept t (set_password_hash aid h t ((app w)\<lparr>store_sessions := s\<rparr>)))" for aid h
    by (rule gives_trans [OF gives_trans [OF sessions_give(1) account_fields_give(1)] account_fields_give(4)])
  then show ?thesis
    by (auto simp: change_own_password_def Let_def s with_store_def split: sum.splits prod.splits)
qed

lemma sign_in_with_password_gives: "gives {} (app w) (app (snd (sign_in_with_password env t fresh email password key ua w)))"
proof -
  obtain ok rl where rl: "allow key t (sign_in_limiter w) = (ok, rl)" by fastforce
  have "gives {} (app w) (app (snd (open_proven_session env t fresh aid ua (w\<lparr>sign_in_limiter := rl\<rparr>))))" for aid
    using open_proven_session_gives [of "{}" "w\<lparr>sign_in_limiter := rl\<rparr>"] by simp
  then show ?thesis by (auto simp: sign_in_with_password_def Let_def rl split: option.splits)
qed

lemma insider_step_bounded:
  assumes "account_step n who w w'" and "\<And>a. who = Some a \<Longrightarrow> insider (app w) a"
    and "accounts_inv n w" and b: "bounded n R A (app w)"
  shows "bounded n R A (app w')"
proof -
  have ok: "accounts_ok n (app w)" and known: "owner_known n w" using assms(3) by (simp_all add: accounts_inv_def)
  have gives: "bounded n R A (app w')" if "gives {} (app w) (app w')" using gives_bounded [OF that b] by simp
  have door: "bounded n R A (app w')" if "contains n R A (app w) (app w')" using that ok b by (simp add: contains_def)
  from assms(1) show ?thesis
  proof cases
    case by_create_role
    with insider_roles(1) [OF ok b assms(2)] show ?thesis by blast
  next
    case by_update_role
    with insider_roles(2) [OF ok b assms(2)] show ?thesis by blast
  next
    case by_delete_role
    with insider_roles(3) [OF ok b assms(2)] show ?thesis by blast
  next
    case by_set_own_language
    with set_own_language_gate [OF by_set_own_language(2)] gives show ?thesis by auto
  next
    case by_reset_password
    with reset_account_password_gate [OF by_reset_password(2)] assms(2) show ?thesis by (simp add: insider_def)
  next
    case by_set_access
    with set_account_access_gate [OF by_set_access(2)] assms(2) show ?thesis by (simp add: insider_def)
  next
    case by_create_account
    with insider_accounts(1) [OF ok b assms(2)] show ?thesis by blast
  next
    case by_update_account
    with insider_accounts(2) [OF ok b assms(2)] show ?thesis by blast
  next
    case by_change_password
    with gives change_own_password_gives show ?thesis by simp
  next
    case by_sign_out
    then have "gives {} (app w) (app w')" by (auto simp: sign_out_def service_simps)
    then show ?thesis by (rule gives)
  next
    case by_revoke_session
    then show ?thesis using gives by (simp add: with_store_def)
  next
    case by_use
    then show ?thesis using gives by (simp add: with_store_def)
  next
    case by_resolve
    then show ?thesis using gives by (simp add: session_actor_app)
  next
    case by_password
    with gives sign_in_with_password_gives show ?thesis by simp
  next
    case by_plex_start
    with door closed_door.start show ?thesis by simp
  next
    case by_plex_finish
    with door closed_door.finish [OF by_plex_finish(3) known] show ?thesis by simp
  next
    case by_set_password
    then have "gives {} (app w) (app w')" by (auto simp: set_password_def service_simps)
    then show ?thesis by (rule gives)
  next
    case by_create_owner
    with create_owner_bounded [OF _ _ ok b] show ?thesis by blast
  qed
qed

subsection \<open>Nobody but an Admin widens the rights\<close>

text \<open>A move in a run no Admin takes part in: the acting account is one of the store's, off the system role.\<close>

definition insider_moves :: "int \<Rightarrow> accounts_world \<Rightarrow> accounts_world \<Rightarrow> bool" where
  "insider_moves n w w' \<longleftrightarrow> (\<exists>who. account_step n who w w' \<and> (\<forall>a. who = Some a \<longrightarrow> insider (app w) a))"

interpretation insider_run: transition_system "insider_moves n" "\<lambda>w. accounts_inv n w \<and> bounded n R A (app w)" for n R A
proof unfold_locales
  fix w w' assume inv: "accounts_inv n w \<and> bounded n R A (app w)" and "insider_moves n w w'"
  then obtain who where step: "account_step n who w w'" and who: "\<And>a. who = Some a \<Longrightarrow> insider (app w) a"
    by (auto simp: insider_moves_def)
  then have "accounts_inv n w'" using inv account_run.step_inv unfolding account_moves_def by blast
  with insider_step_bounded [OF step who] inv show "accounts_inv n w' \<and> bounded n R A (app w')" by blast
qed

lemma actor_place:
  assumes "accounts_ok n st" and "actor_in ceil st aid = Some a"
  shows "\<exists>rid. (aid, rid) \<in> places st \<and> (actor_role_kind a = ADMIN \<longleftrightarrow> rid = SYSTEM_ROLE_ID) \<and> actor_role_rights a = rights_of rid st"
proof -
  note ok = accounts_okD [OF assms(1)]
  obtain acc role where acc: "account_by_id aid st = Some acc" and role: "role_by_id (account_role acc) st = Some role"
    and a: "actor_role_kind a = role_kind role" "actor_role_rights a = role_rights role"
    using assms(2) by (cases "account_by_id aid st") (auto simp: actor_in_def split: option.splits)
  have "(aid, account_role acc) \<in> places st"
    using account_by_id_Some [OF acc] by (auto simp: places_def account_of_row_def account_row.defs)
  with a role_by_id_admin [OF ok(2) role ok(1)] role_rights_of [OF role] show ?thesis by (auto simp: is_admin_def)
qed

lemma place_actor:
  assumes "accounts_ok n st" and "(aid, rid) \<in> places st"
  shows "\<exists>a. actor_in ceil st aid = Some a \<and> (actor_role_kind a = ADMIN \<longleftrightarrow> rid = SYSTEM_ROLE_ID) \<and> actor_role_rights a = rights_of rid st"
proof -
  note ok = accounts_okD [OF assms(1)]
  obtain b where h: "(aid, rid, b) \<in> set (holders st)" using assms(2) by (auto simp: places_def in_holders)
  obtain acc where acc: "account_by_id aid st = Some acc" "account_role acc = rid" using account_in_holders [OF ok(1) h] by blast
  obtain role where role: "role_by_id rid st = Some role" using role_of_holder [OF ok(1) h] by blast
  from acc role role_by_id_admin [OF ok(2) role ok(1)] role_rights_of [OF role] show ?thesis
    by (simp add: actor_in_def is_admin_def)
qed

lemma linked_by_id: "keys_ok st \<Longrightarrow> (aid, n) \<in> linked st \<longleftrightarrow> (\<exists>l. plex_link_by_plex_id n st = Some l \<and> link_account l = aid)"
  using sql_first_keyed [OF keys_okD(4)] by (fastforce simp: linked_def plex_link_by_plex_id_def)

text \<open>C7: In a world reached from the seeds, let \<open>R\<close> hold every right of the accounts off the system role and of the
  start roles, which are not the system role. After any run no Admin takes part in (its actors hold roles of
  their own, with \<open>accounts.manage\<close> or not, and the doors and the command line run too), no account off the system
  role holds a right outside \<open>R\<close>, and an account newly on the system role is the server's owner's.\<close>

theorem no_escalation:
  assumes "starts_seeded w0" and "(account_moves n)\<^sup>*\<^sup>* w0 w" and "(insider_moves n)\<^sup>*\<^sup>* w w'"
    and "\<And>aid a. actor_in ceil (app w) aid = Some a \<Longrightarrow> actor_role_kind a \<noteq> ADMIN \<Longrightarrow> actor_role_rights a \<subseteq> R"
    and "\<And>k rid. start_rows (app w) k = Some rid \<Longrightarrow>
        \<exists>role. role_by_id rid (app w) = Some role \<and> role_kind role \<noteq> ADMIN \<and> role_rights role \<subseteq> R"
    and "actor_in ceil (app w') aid = Some a"
  shows "if actor_role_kind a = ADMIN
    then (\<exists>b. actor_in ceil (app w) aid = Some b \<and> actor_role_kind b = ADMIN)
      \<or> (\<exists>l. plex_link_by_plex_id n (app w') = Some l \<and> link_account l = aid)
    else actor_role_rights a \<subseteq> R"
proof -
  let ?A = "{aid. \<exists>b. actor_in ceil (app w) aid = Some b \<and> actor_role_kind b = ADMIN}"
  have inv: "accounts_inv n w" using seeded_run_inv [OF assms(2,1)] .
  then have ok: "accounts_ok n (app w)" by (simp add: accounts_inv_def)
  have "place_ok n R ?A (app w) i rid" if "(i, rid) \<in> places (app w)" for i rid
    using place_actor [OF ok that, of ceil] assms(4) [of i] by (auto simp: place_ok_def)
  moreover have "rid \<noteq> SYSTEM_ROLE_ID \<and> rid \<in> fst ` set (role_kinds (app w)) \<and> rights_of rid (app w) \<subseteq> R"
    if k: "start_rows (app w) k = Some rid" for k rid
  proof -
    obtain role where role: "role_by_id rid (app w) = Some role" "role_kind role \<noteq> ADMIN" "role_rights role \<subseteq> R"
      using assms(5) [OF k] by blast
    with role_by_id_admin [OF accounts_okD(2) [OF ok] role(1) accounts_okD(1) [OF ok]] role_rights_of [OF role(1)]
      role_exists_iff role_exists_kinds show ?thesis by (auto simp: is_admin_def)
  qed
  ultimately have "bounded n R ?A (app w)" by (auto simp: bounded_def)
  with inv insider_run.steps_inv [OF assms(3), of R ?A] have inv': "accounts_inv n w'" and b: "bounded n R ?A (app w')" by blast+
  then have ok': "accounts_ok n (app w')" by (simp add: accounts_inv_def)
  obtain rid where rid: "(aid, rid) \<in> places (app w')" "actor_role_kind a = ADMIN \<longleftrightarrow> rid = SYSTEM_ROLE_ID"
      "actor_role_rights a = rights_of rid (app w')"
    using actor_place [OF ok' assms(6)] by blast
  have "place_ok n R ?A (app w') aid rid" using bounded_place [OF b rid(1)] .
  with rid linked_by_id [OF accounts_okD(1) [OF ok']] show ?thesis by (auto simp: place_ok_def)
qed

subsection \<open>Witnesses\<close>

definition sample_env :: service_env where
  "sample_env = \<lparr>hash_token = (\<lambda>s. s), idle_lifetime = 100, ceiling_now = \<lparr>forbidden = {}, read_only = False\<rparr>,
     hash_password = (\<lambda>s. s), verify_password = (\<lambda>p h. p = h), avatar_of = (\<lambda>_ _. None), configured_language = FR,
     vault_seal = None\<rparr>"

definition sample_start :: accounts_world where
  "sample_start = \<lparr>app = seeded_store, sign_in_limiter = fresh_limiter, password_limiter = fresh_limiter,
     start_limiter = fresh_limiter, known_owner = None, account_events = []\<rparr>"

definition sample_owner :: account_row where
  "sample_owner = \<lparr>account_id = ''account-a'', account_name = ''O'', account_email = ''o@x'', account_avatar = [],
     account_role = SYSTEM_ROLE_ID, password_hash = Some ''Password-1234'', account_created_at = 1, account_updated_at = 1,
     sign_in_allowed = True, demoted_from = None, account_language = FR\<rparr>"

definition sample_link :: plex_link where
  "sample_link = \<lparr>link_account = ''account-a'', plex_id = 7, plex_uuid = ''u'', plex_username = ''o'', link_access = OwnerAccess,
     token_ciphertext = None, token_stored_at = None, linked_at = 1, last_sign_in_at = None\<rparr>"

definition sample_owned :: accounts_world where
  "sample_owned = sample_start\<lparr>app := seeded_store\<lparr>account_rows := [sample_owner], link_rows := [sample_link]\<rparr>\<rparr>"

lemmas sample_defs = sample_env_def sample_start_def sample_owner_def sample_link_def sample_owned_def

lemma sample_seeded: "starts_seeded sample_start"
  by (simp add: starts_seeded_def sample_start_def)

lemma sample_create_owner:
  "create_owner sample_env 1 ''a'' ''o@x'' ''O'' ''Password-1234'' \<lparr>owner_plex_id = 7, owner_plex_uuid = ''u'', owner_plex_username = ''o''\<rparr>
     sample_start = Inr (''account-a'', sample_owned)"
  by (simp add: create_owner_def sample_defs seeded_store_def seeded_role_def is_email_def strip_def is_space_def policy_refusal_def
     PASSWORD_MINIMUM_def is_upper_def is_digit_def is_special_def and_then_def refuse_if_def raising_bind_def
     count_on_role_kind_def owner_link_def owner_links_def plex_link_by_plex_id_def sql_first_def account_by_email_def role_by_id_def
     role_of_row_def insert_account_def role_exists_def SYSTEM_ROLE_ID_def upsert_plex_link_def with_store_def Let_def)

definition sample_admin :: actor where
  "sample_admin = \<lparr>actor_id = ''account-a'', actor_name = ''O'', actor_role = ''admin'', actor_role_kind = ADMIN,
     actor_role_rights = {}, actor_ceiling = ceiling_now sample_env\<rparr>"

definition sample_row :: account_row where
  "sample_row = \<lparr>account_id = ''account-b'', account_name = ''M'', account_email = ''m@x'', account_avatar = [],
     account_role = ''household'', password_hash = Some ''Password-1234'', account_created_at = 2, account_updated_at = 2,
     sign_in_allowed = True, demoted_from = None, account_language = FR\<rparr>"

definition sample_joined :: accounts_world where
  "sample_joined = sample_owned\<lparr>app := (app sample_owned)\<lparr>account_rows := [sample_owner, sample_row]\<rparr>\<rparr>"

lemmas sample_eval = create_account_def sample_defs sample_row_def sample_joined_def sample_admin_def seeded_store_def seeded_role_def
  is_email_def strip_def is_space_def policy_refusal_def PASSWORD_MINIMUM_def is_upper_def is_digit_def is_special_def and_then_def
  refuse_if_def raising_bind_def sql_first_def account_by_email_def role_by_id_def role_of_row_def insert_account_def
  role_exists_def SYSTEM_ROLE_ID_def with_store_def found_or_def grantor_in_def grantor_of_def check_may_give_def is_admin_def
  provisional_refusal_def account_of_row_def account_by_id_def actor_in_def plex_link_of_def sign_in_kind_of_def lower_def Let_def
  account_row.defs

lemma create_right: "map_of OPERATION_RIGHTS ''createAccount'' = Some (AnyOf {ACCOUNTS_MANAGE})"
  by (simp add: OPERATION_RIGHTS_def holds_right_def)

lemma sample_create_account:
  "\<exists>s. create_account sample_env 2 ''b'' sample_admin ''M'' ''m@x'' ''household'' (Some ''Password-1234'') sample_owned = Inr (s, sample_joined)"
  by (simp add: sample_eval requires_def create_right authorise_any_of_def holds_any_def holds_def)


lemma sample_joins: "(account_moves 7)\<^sup>*\<^sup>* sample_start sample_owned" "(account_moves 7)\<^sup>*\<^sup>* sample_owned sample_joined"
proof -
  have "account_step 7 None sample_start sample_owned"
    by (rule by_create_owner [OF sample_create_owner]) simp
  then show "(account_moves 7)\<^sup>*\<^sup>* sample_start sample_owned" unfolding account_moves_def by blast
  have "account_step 7 (Some sample_admin) sample_owned sample_joined"
    using sample_create_account by (blast intro: by_create_account)
  then show "(account_moves 7)\<^sup>*\<^sup>* sample_owned sample_joined" unfolding account_moves_def by blast
qed

lemma owner_keeps_admin_witness: "count_on_role_kind ADMIN (app sample_joined) > 0"
proof -
  have "plex_link_by_plex_id 7 (app sample_owned) = Some sample_link"
    by (simp add: plex_link_by_plex_id_def sql_first_def sample_defs)
  from owner_keeps_admin [OF sample_seeded sample_joins this] show ?thesis by blast
qed

definition sample_signed_in :: accounts_world where
  "sample_signed_in = snd (sign_in_with_password sample_env 3 ''cookie'' ''o@x'' ''Password-1234'' ''k'' None sample_owned)"

lemma sample_session:
  "fst (session_actor sample_env ''cookie'' 4 sample_signed_in) = Some sample_admin"
  by (simp add: sample_signed_in_def sign_in_with_password_def sample_eval allow_def prune_def fresh_limiter_def MAX_FAILED_ATTEMPTS_def
     WINDOW_SECONDS_def open_proven_session_def open_session_def insert_session_def session_actor_def resolve_def live_session_def
     session_by_hash_def confirm_def)

lemma cut_account_is_out_witness:
  "\<exists>acc. account_by_id ''account-a'' (app sample_signed_in) = Some acc \<and> sign_in_allowed acc"
proof -
  have "account_moves 7 sample_owned sample_signed_in"
    unfolding account_moves_def sample_signed_in_def by (blast intro: by_password)
  with sample_joins(1) have "(account_moves 7)\<^sup>*\<^sup>* sample_start sample_signed_in" by simp
  from cut_account_is_out [OF sample_seeded this disjI1 [OF sample_session]] show ?thesis by (simp add: sample_admin_def)
qed

lemma sample_actors:
  "actor_in ceil (app sample_joined) aid = Some a \<Longrightarrow>
    aid = ''account-a'' \<and> actor_role_kind a = ADMIN \<or> aid = ''account-b'' \<and> actor_role_rights a = requesting_rights"
  by (auto simp: sample_eval split: if_splits)


definition sample_member :: actor where
  "sample_member = \<lparr>actor_id = ''account-b'', actor_name = ''M'', actor_role = ''household'', actor_role_kind = ORDINARY,
     actor_role_rights = requesting_rights, actor_ceiling = ceiling_now sample_env\<rparr>"

definition sample_spoken :: accounts_world where
  "sample_spoken = sample_joined\<lparr>app := (app sample_joined)\<lparr>account_rows :=
     [sample_owner, sample_row\<lparr>account_language := EN, account_updated_at := 5\<rparr>]\<rparr>\<rparr>"

lemma sample_speaks: "insider_moves 7 sample_joined sample_spoken"
proof -
  have "map_of OPERATION_RIGHTS ''setOwnLanguage'' = Some (SignedIn True)" by (simp add: OPERATION_RIGHTS_def)
  then have "\<exists>v. set_own_language sample_env 5 sample_member EN sample_joined = Inr (v, sample_spoken)"
    by (simp add: set_own_language_def requires_def sample_eval sample_member_def sample_spoken_def account_view_of_def
       set_language_def update_account_row_def sql_update_def)
  then have "account_step 7 (Some sample_member) sample_joined sample_spoken" by (blast intro: by_set_own_language)
  moreover have "actor_in (ceiling_now sample_env) (app sample_joined) ''account-b'' = Some sample_member"
    by (simp add: sample_eval sample_member_def)
  then have "insider (app sample_joined) sample_member"
    unfolding insider_def by (auto simp: sample_member_def)
  ultimately show ?thesis unfolding insider_moves_def by blast
qed

lemma no_escalation_witness:
  "\<exists>a. actor_in (ceiling_now sample_env) (app sample_spoken) ''account-b'' = Some a \<and> actor_role_rights a \<subseteq> requesting_rights"
proof -
  have a: "actor_in (ceiling_now sample_env) (app sample_spoken) ''account-b'' = Some sample_member"
    by (simp add: sample_eval sample_member_def sample_spoken_def)
  have starts: "\<exists>role. role_by_id rid (app sample_joined) = Some role \<and> role_kind role \<noteq> ADMIN \<and> role_rights role \<subseteq> requesting_rights"
    if "start_rows (app sample_joined) k = Some rid" for k rid
    using that by (cases k) (auto simp: sample_eval requesting_rights_def)
  have "(account_moves 7)\<^sup>*\<^sup>* sample_start sample_joined" using sample_joins by (rule rtranclp_trans)
  moreover have "(insider_moves 7)\<^sup>*\<^sup>* sample_joined sample_spoken" using sample_speaks by blast
  ultimately have "actor_role_rights sample_member \<subseteq> requesting_rights"
    using no_escalation [OF sample_seeded _ _ _ starts a] sample_actors by (force simp: sample_member_def)
  with a show ?thesis by blast
qed

end
