(* ===== verification/Account_Errors.thy ===== *)
theory Account_Errors
  imports Account_Safety
begin

text \<open>
  The error paths of the account services: over the stores a run reaches, what a service answers is a result
  or a refusal; and the Plex door signs in through one PIN, once.
\<close>

subsection \<open>Every error is a refusal\<close>

definition refused :: "py_error + 'a \<Rightarrow> bool" where
  "refused x \<longleftrightarrow> (case x of Inr _ \<Rightarrow> True | Inl e \<Rightarrow> \<exists>cls code. e = AppRefusal cls code)"

lemma refused_simps [simp]: "refused (Inr x)" "refused (Inl (AppRefusal cls code))"
  by (simp_all add: refused_def)

lemma refusedD: "refused x \<Longrightarrow> x = Inl e \<Longrightarrow> \<exists>cls code. e = AppRefusal cls code"
  by (simp add: refused_def)

lemma refused_bind: "refused x \<Longrightarrow> (\<And>y. x = Inr y \<Longrightarrow> refused (f y)) \<Longrightarrow> refused (raising_bind x f)"
  by (cases x) (simp_all add: raising_bind_def refused_def)

lemma refused_then: "refused x \<Longrightarrow> (x = Inr () \<Longrightarrow> refused y) \<Longrightarrow> refused (and_then x y)"
  by (cases x) (simp_all add: and_then_def refused_def)

lemma refused_if [simp]: "refused (refuse_if b cls code)"
  by (simp add: refuse_if_def)

lemma refused_found [simp]: "refused (found_or x cls code)"
  by (simp add: found_or_def split: option.splits)

lemma refused_authorise: "refused (authorise a req)"
  by (induction a req rule: authorise.induct) (simp_all add: authorise_any_of_def)

lemma refused_requires:
  "map_of OPERATION_RIGHTS op = Some req \<Longrightarrow> (authorise (Some a) req = Inr () \<Longrightarrow> refused (body ())) \<Longrightarrow> refused (requires op a body)"
  by (simp add: requires_def refused_bind refused_authorise)

lemma refused_checks [simp]:
  "refused (check_mutable role)" "refused (check_deletable k role)" "refused (check_access_cut i acc)"
  "refused (check_leaves_admin r r' k acc)" "refused (check_password_held_here acc)" "refused (check_may_give g role)"
  "refused (check_may_give_rights g rs)" "refused (check_may_rename g role)" "refused (check_may_give_admin g)"
  "refused (check_may_change_role g role)" "refused (check_may_touch g acc r r')" "refused (refuse_name_taken st nm except)"
  "refused (rights_named names)" "refused (policy_refusal pw)" "refused (provisional_refusal pw')"
  by (simp_all add: check_mutable_def check_deletable_def check_access_cut_def check_leaves_admin_def
      check_password_held_here_def check_may_give_def check_may_give_rights_def check_may_rename_def check_may_give_admin_def
      check_may_change_role_def check_may_touch_def refuse_name_taken_def rights_named_def policy_refusal_def
      provisional_refusal_def Let_def refused_then)

lemmas refused_intros = refused_bind refused_then refused_requires

lemma operations_known:
  "map_of OPERATION_RIGHTS ''createRole'' \<noteq> None" "map_of OPERATION_RIGHTS ''updateRole'' \<noteq> None"
  "map_of OPERATION_RIGHTS ''deleteRole'' \<noteq> None" "map_of OPERATION_RIGHTS ''readAccounts'' \<noteq> None"
  "map_of OPERATION_RIGHTS ''createAccount'' \<noteq> None" "map_of OPERATION_RIGHTS ''updateAccount'' \<noteq> None"
  "map_of OPERATION_RIGHTS ''setAccountAccess'' \<noteq> None" "map_of OPERATION_RIGHTS ''resetAccountPassword'' \<noteq> None"
  "map_of OPERATION_RIGHTS ''readAccount'' \<noteq> None" "map_of OPERATION_RIGHTS ''setOwnLanguage'' \<noteq> None"
  by (simp_all add: OPERATION_RIGHTS_def)

lemma account_role_found:
  assumes "accounts_ok n st" and "account_by_id aid st = Some acc"
  shows "\<exists>role. role_by_id (account_role acc) st = Some role"
  using role_of_holder [OF accounts_okD(1) [OF assms(1)] holder_of_account(2) [OF assms(2)]] .

lemma insert_role_fresh:
  "role_kind role = ORDINARY \<Longrightarrow> role_default_for role = {} \<Longrightarrow> \<forall>row \<in> set (role_rows st). row_role_id row \<noteq> role_id role \<Longrightarrow>
    \<exists>st'. insert_role role t st = Inr st'"
  by (auto simp: insert_role_def)

lemma insert_account_fresh:
  assumes "\<forall>r \<in> set (account_rows st). account_id r \<noteq> account_id row" and "account_by_email (account_email row) st = None"
    and "role_by_id (account_role row) st = Some role" and "demoted_from row = None"
  shows "\<exists>st'. insert_account row st = Inr st'"
  using assms role_exists_iff by (auto simp: insert_account_def account_by_email_def sql_first_None)

lemma set_role_found: "role_by_id rid st = Some role \<Longrightarrow> \<exists>st'. set_role aid rid t None st = Inr st'"
  using role_exists_iff by (auto simp: set_role_def)

lemma delete_role_free:
  assumes "accounts_on_role rid st = []" and "role_by_id rid st = Some role" and "role_default_for role = {}"
  shows "\<exists>st'. delete_role_row rid st = Inr st'"
proof -
  have "\<forall>acc \<in> set (account_rows st). account_role acc \<noteq> rid"
    using assms(1) set_sort [of account_created_at "filter (\<lambda>acc. account_role acc = rid) (account_rows st)"]
    unfolding accounts_on_role_def by (auto simp del: set_sort)
  moreover have "start_rows st k \<noteq> Some rid" for k
    using role_by_id_Some [OF assms(2)] assms(3) by (auto simp: role_of_row_def)
  ultimately show ?thesis by (auto simp: delete_role_row_def)
qed


lemma write_role_refused:
  assumes "role_by_id rid (app w) = Some role"
  shows "refused (write_role t role nm held w)"
proof -
  have id: "role_id role = rid" using role_by_id_id [OF assms] .
  define b where "b \<longleftrightarrow> held \<noteq> None \<and> held \<noteq> Some (role_rights role)"
  define c where "c \<longleftrightarrow> nm \<noteq> None \<and> nm \<noteq> role_name role"
  define st where "st = (if b \<or> c
    then update_role_row rid (if c then nm else None) (if b then held else None) t (app w) else app w)"
  have "rid \<in> fst ` set (role_kinds (app w))" using assms role_exists_iff role_exists_kinds by blast
  then have "role_exists rid st" unfolding role_exists_kinds st_def by simp
  then obtain u where "role_by_id rid st = Some u" using role_exists_iff by blast
  then show ?thesis
    unfolding write_role_def Let_def id b_def [symmetric] c_def [symmetric] st_def [symmetric] by simp
qed

lemma roles_are_refused:
  "refused (update_role t a rid nm names w)"
  "accounts_ok n (app w) \<Longrightarrow> refused (delete_role a rid w)"
  "\<forall>row \<in> set (role_rows (app w)). row_role_id row \<noteq> ''role-'' @ fresh \<Longrightarrow> refused (create_role t fresh a name rights w)"
proof -
  note op = operations_known [unfolded not_None_eq]
  show "refused (update_role t a rid nm names w)"
    unfolding update_role_def Let_def using op(2)
    by (auto intro!: refused_intros write_role_refused split: option.splits)
  show "refused (delete_role a rid w)" if ok: "accounts_ok n (app w)"
    unfolding delete_role_def using op(3)
    by (auto intro!: refused_intros simp: check_deletable_def and_then_Inr refuse_if_Inr role_by_id_id dest!: delete_role_free)
  show "refused (create_role t fresh a name rights w)" if "\<forall>row \<in> set (role_rows (app w)). row_role_id row \<noteq> ''role-'' @ fresh"
  proof -
    have "\<exists>st. insert_role \<lparr>role_id = ''role-'' @ fresh, role_name = nm, role_kind = ORDINARY, role_rights = held,
        role_default_for = {}\<rparr> t (app w) = Inr st" for nm held
      using that by (intro insert_role_fresh) simp_all
    then show ?thesis unfolding create_role_def Let_def using op(1) by (auto intro!: refused_intros) (metis refused_simps(1))
  qed
qed


lemma read_roster_refused:
  assumes "accounts_ok n (app w)"
  shows "refused (read_roster a w)"
proof -
  note keys = accounts_okD(1) [OF assms]
  have found: "map_of (map (\<lambda>role. (role_id role, role)) (roles (app w))) (account_role acc) \<noteq> None"
    if listed: "acc \<in> set (accounts (app w))" for acc
  proof -
    obtain row :: account_row where "row \<in> set (account_rows (app w))" "account_role acc = account_role row"
      using listed by (auto simp: accounts_def account_of_row_def account_row.defs)
    then have "account_role acc \<in> roles_held (app w)" by (auto simp: roles_held_def holders_def image_image)
    then have "account_role acc \<in> row_role_id ` set (role_rows (app w))"
      using keys by (auto simp: keys_ok_def role_kinds_def image_image)
    then show ?thesis by (auto simp: map_of_eq_None_iff roles_def image_image)
  qed
  obtain req where "map_of OPERATION_RIGHTS ''readAccounts'' = Some req" using operations_known(4) by blast
  then show ?thesis
    unfolding read_roster_def Let_def by (auto intro!: refused_requires dest: found)
qed

lemma own_account_refused: "refused (read_account env a w)" "refused (set_own_language env t a lang w)"
proof -
  note op = operations_known [unfolded not_None_eq]
  have view: "refused (account_view_of env st acc a)" for st acc
    unfolding account_view_of_def by (auto intro!: refused_bind)
  show "refused (read_account env a w)"
    unfolding read_account_def using op(9) by (auto intro!: refused_intros view)
  show "refused (set_own_language env t a lang w)"
    unfolding set_own_language_def Let_def using op(10) by (auto intro!: refused_intros view)
qed

lemma accounts_are_refused:
  assumes ok: "accounts_ok n (app w)"
  shows "refused (update_account t a aid rid w)" "refused (set_account_access t a aid allowed w)"
    "refused (reset_account_password env t a aid password w)"
    "\<forall>row \<in> set (account_rows (app w)). account_id row \<noteq> ''account-'' @ fresh \<Longrightarrow>
      refused (create_account env t fresh a nm email rid pw w)"
proof -
  note op = operations_known [unfolded not_None_eq]
  have wr: "refused (write_account_role t acc target w)" if "role_by_id rid' (app w) = Some target" for acc :: account and target rid'
    using set_role_found [OF that, of "account_id acc" t] role_by_id_id [OF that]
    by (auto simp: write_account_role_def Let_def intro!: refused_bind)
  show "refused (update_account t a aid rid w)"
    unfolding update_account_def Let_def using op(6) by (auto intro!: refused_intros wr)
  show "refused (set_account_access t a aid allowed w)"
    unfolding set_account_access_def Let_def using op(7)
    by (auto intro!: refused_intros dest!: account_role_found [OF ok] split: option.splits)
  show "refused (reset_account_password env t a aid password w)"
    unfolding reset_account_password_def using op(8) by (auto intro!: refused_intros)
  show "refused (create_account env t fresh a nm email rid pw w)"
    if new: "\<forall>row \<in> set (account_rows (app w)). account_id row \<noteq> ''account-'' @ fresh"
  proof -
    have "refused (insert_account row (app w))" if "account_id row = ''account-'' @ fresh"
      "account_by_email (account_email row) (app w) = None" "role_by_id (account_role row) (app w) = Some role"
      "demoted_from row = None" for row role
      using insert_account_fresh [of "app w" row role] new that by auto
    then show ?thesis
      unfolding create_account_def Let_def using op(5) by (auto intro!: refused_intros simp: refuse_if_Inr role_by_id_id)
  qed
qed


text \<open>C36: In every world reached from the seeds, whatever an actor asks of the roles, of the roster and of its own account there, the answer is a
  result or a refusal the client is told: no constraint of a table breaks, no lookup of a role or an account the
  tables name fails and no assertion does, provided the ids drawn are fresh.\<close>

theorem account_errors_are_refusals:
  assumes "starts_seeded w0" and "(account_moves n)\<^sup>*\<^sup>* w0 w"
    and "\<forall>row \<in> set (role_rows (app w)). row_role_id row \<noteq> ''role-'' @ fresh"
    and "\<forall>row \<in> set (account_rows (app w)). account_id row \<noteq> ''account-'' @ fresh"
    and "read_roster a w = Inl e \<or> create_role t fresh a nm names w = Inl e \<or> update_role t a rid new_name held w = Inl e
      \<or> delete_role a rid w = Inl e \<or> create_account env t fresh a nm email rid pw w = Inl e
      \<or> update_account t a aid rid w = Inl e \<or> set_account_access t a aid allowed w = Inl e
      \<or> reset_account_password env t a aid password w = Inl e \<or> read_account env a w = Inl e \<or> set_own_language env t a lang w = Inl e"
  shows "\<exists>cls code. e = AppRefusal cls code"
proof -
  have ok: "accounts_ok n (app w)" using seeded_run_inv [OF assms(2,1)] by (simp add: accounts_inv_def)
  note all = read_roster_refused [OF ok, of a] roles_are_refused(1) [of t a rid new_name held w]
    roles_are_refused(2) [OF ok, of a rid] roles_are_refused(3) [OF assms(3), of t a nm names] accounts_are_refused(1,2,3) [OF ok]
    accounts_are_refused(4) [OF ok assms(4), of env t a nm email rid pw] own_account_refused
  from assms(5) show ?thesis by (elim disjE) (erule refusedD [rotated], rule all)+
qed

lemma account_errors_are_refusals_witness:
  "delete_role sample_admin ''household'' sample_joined = Inl (AppRefusal Conflict ROLE_DEFAULT)
   \<and> (\<exists>cls code. AppRefusal Conflict ROLE_DEFAULT = AppRefusal cls code)"
proof
  have "PlexHome \<in> {k. start_rows (app sample_joined) k = Some ''household''}" by (simp add: sample_eval)
  then have "role_default_for (role_of_row (app sample_joined) (seeded_role ''household'' ORDINARY)) \<noteq> {}"
    by (auto simp: role_of_row_def seeded_role_def)
  moreover have "role_by_id ''household'' (app sample_joined) = Some (role_of_row (app sample_joined) (seeded_role ''household'' ORDINARY))"
    by (simp add: role_by_id_def sql_first_def sample_joined_def sample_owned_def sample_start_def seeded_store_def seeded_role_def)
  moreover have "\<not> is_admin (role_of_row (app sample_joined) (seeded_role ''household'' ORDINARY))"
    by (simp add: is_admin_def seeded_role_def)
  moreover have "authorise (Some sample_admin) (AnyOf {ACCOUNTS_MANAGE}) = Inr ()"
    by (simp add: authorise_any_of_def holds_any_def holds_def sample_admin_def sample_env_def)
  ultimately show call: "delete_role sample_admin ''household'' sample_joined = Inl (AppRefusal Conflict ROLE_DEFAULT)"
    by (simp add: delete_role_def requires_def OPERATION_RIGHTS_def holds_right_def raising_bind_def found_or_def check_deletable_def
       and_then_def refuse_if_def)
  have "(account_moves 7)\<^sup>*\<^sup>* sample_start sample_joined" using sample_joins by (rule rtranclp_trans)
  from account_errors_are_refusals [OF sample_seeded this, of "''x''" sample_admin "AppRefusal Conflict ROLE_DEFAULT"] call
  show "\<exists>cls code. AppRefusal Conflict ROLE_DEFAULT = AppRefusal cls code"
    by (auto simp: sample_eval)
qed

subsection \<open>The Plex door\<close>

lemma upsert_pins: "upsert_plex_link link st = Inr st' \<Longrightarrow> pin_rows st' = pin_rows st"
  by (auto simp: upsert_plex_link_def split: if_splits)

lemma open_proven_session_pins: "pin_rows (app (snd (open_proven_session env t fresh aid ua w))) = pin_rows (app w)"
  using open_proven_session_cases [of env t fresh aid ua w] by auto

lemma consumed_pin_refused: "live_pin nh i given t (snd (consume_pin i u st)) = Inl (AppRefusal BadRequest PLEX_PIN_UNKNOWN)"
proof (cases "pin_by_id i (snd (consume_pin i u st))")
  case (Some row)
  then have "row \<in> set (pin_rows (snd (consume_pin i u st)))" "pin_id row = i"
    by (auto simp: pin_by_id_def dest: sql_first_SomeD)
  then have "consumed_at row \<noteq> None"
    unfolding consume_pin_def Let_def by (simp add: set_sql_update) (elim disjE imageE conjE, auto)
  with Some show ?thesis by (simp add: live_pin_def)
qed (simp add: live_pin_def)

lemma live_pin_cong: "pin_rows st' = pin_rows st \<Longrightarrow> live_pin nh i given t st' = live_pin nh i given t st"
  by (simp add: live_pin_def pin_by_id_def)

text \<open>C35: The Plex door opens a session only for the browser that started the PIN, while plex.tv has confirmed
  that PIN, it has not expired and nobody has used it; and once it did, it answers \<open>PLEX_PIN_UNKNOWN\<close> to
  whoever presents the PIN again.\<close>

theorem plex_pin_signs_in_once:
  assumes "plex_finish env nh api t fa ft i given ua w = (Inr (PlexSignedIn view v), w')"
  shows "(\<exists>row nonce token. pin_by_id i (app w) = Some row \<and> given = Some nonce \<and> nonce_hash row = nh nonce
      \<and> consumed_at row = None \<and> (\<forall>e. pin_expires_at row = Some e \<longrightarrow> t < e)
      \<and> check_pin api i (pin_code row) = Inr (Some token))
    \<and> fst (plex_finish env' nh api' t' fa' ft' i given' ua' w') = Inl (AppRefusal BadRequest PLEX_PIN_UNKNOWN)"
proof -
  obtain row where row: "live_pin nh i given t (app w) = Inr row"
    using assms by (cases "live_pin nh i given t (app w)") (auto simp: plex_finish_def)
  obtain claimed st where claim: "claim_pin_check i t PIN_CHECK_MIN_INTERVAL_S (app w) = (claimed, st)" by fastforce
  obtain r w2 where ask: "ask_plex api i (pin_code row) (with_store w st) = (r, w2)" by fastforce
  obtain machine where server: "plex_server api = Some machine" using assms row by (cases "plex_server api") (auto simp: plex_finish_def)
  have claimed using assms row claim server by (cases claimed) (auto simp: plex_finish_def)
  have "\<exists>token plex access. r = Inr (Some (token, plex, access))"
  proof (cases r)
    case (Inr found)
    show ?thesis
    proof (cases found)
      case (Some x)
      with Inr show ?thesis by (cases x) auto
    qed (use assms Inr in \<open>simp add: plex_finish_def Let_def row claim server ask \<open>claimed\<close>\<close>)
  qed (use assms in \<open>simp add: plex_finish_def Let_def row claim server ask \<open>claimed\<close>\<close>)
  then obtain token plex access where r: "r = Inr (Some (token, plex, access))" by blast
  have "access \<noteq> PLEX_NONE" using assms by (cases "access = PLEX_NONE") (auto simp: plex_finish_def Let_def row claim server ask \<open>claimed\<close> r)
  have confirmed: "check_pin api i (pin_code row) = Inr (Some token)"
    using ask r by (auto simp: ask_plex_def split: sum.splits option.splits prod.splits)
  show ?thesis
  proof (cases "plex_admit env t fa i plex access token (app w2)")
    case (Inl e)
    then show ?thesis
      using assms by (simp add: plex_finish_def Let_def row claim server ask \<open>claimed\<close> r \<open>access \<noteq> PLEX_NONE\<close>
        split: py_error.splits refusal_class.splits)
  next
    case (Inr y)
    obtain aid moved st3 where y: "y = ((aid, moved), st3)" by (cases y) auto
    define w3 where "w3 = (if moved then publish (AccountRightsChanged [aid] PLEX_LINKED) (with_store w2 st3) else with_store w2 st3)"
    have "app w' = app (snd (open_proven_session env t ft aid ua w3))"
      using assms by (auto simp: plex_finish_def Let_def row claim server ask \<open>claimed\<close> r \<open>access \<noteq> PLEX_NONE\<close> Inr y w3_def [symmetric]
        publish_def split: prod.splits sum.splits)
    then have pins: "pin_rows (app w') = pin_rows st3"
      using open_proven_session_pins [of env t ft aid ua w3] by (simp add: w3_def publish_def with_store_def)
    obtain st1 link where "upsert_plex_link link (snd (consume_pin i t st1)) = Inr st3"
      using plex_admit_cases [OF Inr [unfolded y]] by blast
    then have "pin_rows (app w') = pin_rows (snd (consume_pin i t st1))" using pins upsert_pins by simp
    then have "live_pin nh i given' t' (app w') = Inl (AppRefusal BadRequest PLEX_PIN_UNKNOWN)"
      using live_pin_cong consumed_pin_refused by metis
    then have "fst (plex_finish env' nh api' t' fa' ft' i given' ua' w') = Inl (AppRefusal BadRequest PLEX_PIN_UNKNOWN)"
      by (simp add: plex_finish_def)
    moreover have "\<exists>nonce. pin_by_id i (app w) = Some row \<and> given = Some nonce \<and> nonce_hash row = nh nonce
        \<and> consumed_at row = None \<and> (\<forall>e. pin_expires_at row = Some e \<longrightarrow> t < e)"
      using row by (auto simp: live_pin_def split: option.splits if_splits)
    ultimately show ?thesis using confirmed by blast
  qed
qed

definition sample_plex :: plex_account where
  "sample_plex = \<lparr>plex_account_id = 7, plex_account_uuid = ''u'', plex_account_username = ''o'', plex_title = ''O'', plex_email = ''o@x'',
     plex_confirmed = True\<rparr>"

definition sample_api :: plex_api where
  "sample_api = \<lparr>create_pin = Inr (9, ''code'', None), check_pin = (\<lambda>_ _. Inr (Some ''token'')), account_behind = (\<lambda>_. Inr sample_plex),
     server_access_of = (\<lambda>_ _. Inr PLEX_OWNER), plex_server = Some (Some ''machine''), server_token = ''server''\<rparr>"

definition sample_pinned :: accounts_world where
  "sample_pinned = sample_owned\<lparr>app := (app sample_owned)\<lparr>pin_rows := [\<lparr>pin_id = 9, pin_code = ''code'', nonce_hash = ''nonce'',
     pin_created_at = 2, pin_expires_at = None, last_checked_at = None, consumed_at = None\<rparr>]\<rparr>\<rparr>"

lemma sample_finish:
  "\<exists>view v w'. plex_finish sample_env (\<lambda>s. s) sample_api 3 ''c'' ''cookie'' 9 (Some ''nonce'') None sample_pinned = (Inr (PlexSignedIn view v), w')"
  by (simp add: plex_finish_def live_pin_def pin_by_id_def claim_pin_check_def consume_pin_def sql_update_def sql_count_def
     PIN_CHECK_MIN_INTERVAL_S_def ask_plex_def access_of_def server_owner_def plex_admit_def plex_account_for_def plex_link_by_plex_id_def
     refuse_cut_def upsert_plex_link_def sample_pinned_def sample_api_def sample_plex_def publish_def
     open_proven_session_def open_session_def insert_session_def session_actor_def resolve_def live_session_def
     session_by_hash_def confirm_def account_view_of_def sample_eval)

lemma plex_pin_signs_in_once_witness:
  "\<exists>view v w'. plex_finish sample_env (\<lambda>s. s) sample_api 3 ''c'' ''cookie'' 9 (Some ''nonce'') None sample_pinned = (Inr (PlexSignedIn view v), w')
    \<and> fst (plex_finish sample_env (\<lambda>s. s) sample_api 5 ''d'' ''other'' 9 (Some ''nonce'') None w') = Inl (AppRefusal BadRequest PLEX_PIN_UNKNOWN)"
proof -
  obtain view v w' where signed: "plex_finish sample_env (\<lambda>s. s) sample_api 3 ''c'' ''cookie'' 9 (Some ''nonce'') None sample_pinned
      = (Inr (PlexSignedIn view v), w')"
    using sample_finish by blast
  from signed conjunct2 [OF plex_pin_signs_in_once [OF signed]] show ?thesis by blast
qed

end
