(* ===== verification/Cadence.thy ===== *)
theory Cadence
  imports Prelude
begin

text \<open>
  The search cadence (\<open>acquire/cadence.py\<close>): how often a wanted is searched, by its age, and when the
  search gives up. Ages and delays are integers (seconds).
\<close>

record tier =
  max_age_s :: int
  interval_s :: int

record cadence =
  tiers :: "tier list"
  cutoff_s :: int

text \<open>The two \<open>__post_init__\<close>: what a cadence that exists satisfies.\<close>

fun increasing_tiers :: "tier list \<Rightarrow> bool" where
  "increasing_tiers (t # u # ts) \<longleftrightarrow> max_age_s t < max_age_s u \<and> increasing_tiers (u # ts)"
| "increasing_tiers _ \<longleftrightarrow> True"

definition valid_cadence :: "cadence \<Rightarrow> bool" where
  "valid_cadence c \<longleftrightarrow> tiers c \<noteq> [] \<and> list_all (\<lambda>t. max_age_s t > 0 \<and> interval_s t > 0) (tiers c)
     \<and> increasing_tiers (tiers c) \<and> cutoff_s c \<ge> max_age_s (last (tiers c))"

definition is_past_cutoff :: "cadence \<Rightarrow> int \<Rightarrow> int \<Rightarrow> bool" where
  "is_past_cutoff c t enqueued \<longleftrightarrow> t - enqueued \<ge> cutoff_s c"

definition is_due_by_cadence :: "cadence \<Rightarrow> int \<Rightarrow> int \<Rightarrow> int option \<Rightarrow> bool" where
  "is_due_by_cadence c t enqueued last_search =
     (if is_past_cutoff c t enqueued then False
      else let age = t - enqueued;
               ti = (case List.find (\<lambda>ti. age < max_age_s ti) (tiers c) of None \<Rightarrow> last (tiers c) | Some ti \<Rightarrow> ti)
           in case last_search of None \<Rightarrow> True | Some l \<Rightarrow> t - l \<ge> interval_s ti)"

definition TIER_NAMES :: "string list" where "TIER_NAMES = [''hot'', ''warm'', ''cold'']"

text \<open>The \<open>for i, tier in enumerate(cadence.tiers)\<close> loop, and the last index when it finds none.\<close>

fun tier_index_from :: "int \<Rightarrow> tier list \<Rightarrow> nat \<Rightarrow> nat option" where
  "tier_index_from age [] i = None"
| "tier_index_from age (ti # ts) i = (if age < max_age_s ti then Some i else tier_index_from age ts (Suc i))"

definition tier_index_for_age :: "cadence \<Rightarrow> int \<Rightarrow> nat" where
  "tier_index_for_age c age = (case tier_index_from age (tiers c) 0 of None \<Rightarrow> length (tiers c) - 1 | Some i \<Rightarrow> i)"

definition tier_name :: "cadence \<Rightarrow> int \<Rightarrow> int \<Rightarrow> string" where
  "tier_name c t enqueued =
     (if is_past_cutoff c t enqueued then ''cutoff''
      else TIER_NAMES ! min (tier_index_for_age c (t - enqueued)) (length TIER_NAMES - 1))"

definition next_search_at :: "cadence \<Rightarrow> int \<Rightarrow> int \<Rightarrow> int option \<Rightarrow> int option" where
  "next_search_at c t enqueued last_search =
     (if is_past_cutoff c t enqueued then None
      else case last_search of None \<Rightarrow> Some t
        | Some l \<Rightarrow> Some (l + interval_s (tiers c ! tier_index_for_age c (t - enqueued))))"

subsection \<open>Due and next search agree\<close>

lemma tier_index_from_shift: "tier_index_from age ts i = map_option (\<lambda>j. i + j) (tier_index_from age ts 0)"
proof (induction ts arbitrary: i)
  case (Cons ti ts)
  show ?case
    using Cons [of "Suc i"] Cons [of "Suc 0"] by (auto simp: option.map_comp comp_def)
qed simp

lemma tier_at_index:
  assumes "tiers c \<noteq> []"
  shows "tiers c ! tier_index_for_age c age =
    (case List.find (\<lambda>ti. age < max_age_s ti) (tiers c) of None \<Rightarrow> last (tiers c) | Some ti \<Rightarrow> ti)"
proof -
  have "(case tier_index_from age ts 0 of None \<Rightarrow> List.find (\<lambda>ti. age < max_age_s ti) ts = None
      | Some i \<Rightarrow> i < length ts \<and> List.find (\<lambda>ti. age < max_age_s ti) ts = Some (ts ! i))" for ts
  proof (induction ts)
    case (Cons ti ts)
    then show ?case
      using tier_index_from_shift [of age ts "Suc 0"] by (auto split: option.splits)
  qed simp
  from this [of "tiers c"] assms show ?thesis
    by (auto simp: tier_index_for_age_def last_conv_nth split: option.splits)
qed

text \<open>An item is due exactly when the next search the interface announces for it is not in the future.\<close>

theorem due_iff_next_search:
  assumes "valid_cadence c"
  shows "is_due_by_cadence c t enqueued last_search
    \<longleftrightarrow> (\<exists>u. next_search_at c t enqueued last_search = Some u \<and> u \<le> t)"
  using assms tier_at_index [of c "t - enqueued"]
  by (auto simp: is_due_by_cadence_def next_search_at_def valid_cadence_def Let_def split: option.splits)

definition sample_cadence :: cadence where
  "sample_cadence = \<lparr>tiers = [\<lparr>max_age_s = 100, interval_s = 10\<rparr>, \<lparr>max_age_s = 1000, interval_s = 50\<rparr>], cutoff_s = 2000\<rparr>"

lemma due_iff_next_search_witness:
  "valid_cadence sample_cadence
   \<and> (is_due_by_cadence sample_cadence 500 0 (Some 460) \<longleftrightarrow> (\<exists>u. next_search_at sample_cadence 500 0 (Some 460) = Some u \<and> u \<le> 500))"
proof -
  have "valid_cadence sample_cadence" by (simp add: valid_cadence_def sample_cadence_def)
  with due_iff_next_search show ?thesis by blast
qed

subsection \<open>The searches of an item end\<close>

text \<open>A run of searches: each is due, its predecessor's time being the last search.\<close>

fun searched_at :: "cadence \<Rightarrow> int \<Rightarrow> int option \<Rightarrow> int list \<Rightarrow> bool" where
  "searched_at c enqueued last_search [] \<longleftrightarrow> True"
| "searched_at c enqueued last_search (t # ts) \<longleftrightarrow>
     is_due_by_cadence c t enqueued last_search \<and> searched_at c enqueued (Some t) ts"

definition shortest_interval :: "cadence \<Rightarrow> int" where
  "shortest_interval c = Min (set (map interval_s (tiers c)))"

lemma due_tier:
  assumes "valid_cadence c" and "is_due_by_cadence c t enqueued (Some l)"
  shows "l + shortest_interval c \<le> t" and "t < enqueued + cutoff_s c"
proof -
  let ?ti = "case List.find (\<lambda>ti. t - enqueued < max_age_s ti) (tiers c) of None \<Rightarrow> last (tiers c) | Some ti \<Rightarrow> ti"
  have "?ti \<in> set (tiers c)"
    using assms(1) by (auto simp: valid_cadence_def find_Some_iff split: option.splits)
  then have "shortest_interval c \<le> interval_s ?ti" by (simp add: shortest_interval_def)
  moreover have "interval_s ?ti \<le> t - l" "t < enqueued + cutoff_s c"
    using assms(2) by (auto simp: is_due_by_cadence_def Let_def is_past_cutoff_def split: if_splits)
  ultimately show "l + shortest_interval c \<le> t" "t < enqueued + cutoff_s c" by simp_all
qed

lemma shortest_interval_pos: "valid_cadence c \<Longrightarrow> 0 < shortest_interval c"
  by (auto simp: shortest_interval_def valid_cadence_def list_all_iff)

lemma cutoff_pos:
  assumes "valid_cadence c"
  shows "0 < cutoff_s c"
proof -
  have "last (tiers c) \<in> set (tiers c)" using assms by (simp add: valid_cadence_def)
  then have "0 < max_age_s (last (tiers c))" using assms by (simp add: valid_cadence_def list_all_iff)
  then show ?thesis using assms by (simp add: valid_cadence_def)
qed

lemma searches_spread:
  "valid_cadence c \<Longrightarrow> searched_at c enqueued (Some l) ts \<Longrightarrow> ts \<noteq> [] \<Longrightarrow>
     l + int (length ts) * shortest_interval c < enqueued + cutoff_s c"
proof (induction ts arbitrary: l)
  case (Cons t ts)
  have due: "is_due_by_cadence c t enqueued (Some l)" using Cons.prems by simp
  note t = due_tier [OF Cons.prems(1) due]
  show ?case
  proof (cases "ts = []")
    case False
    then have "t + int (length ts) * shortest_interval c < enqueued + cutoff_s c" using Cons by simp
    with t(1) show ?thesis by (simp add: algebra_simps)
  qed (use t in simp)
qed simp

text \<open>C26: An item that keeps its place is searched a bounded number of times: after the first search, no more often than
  the cutoff holds shortest intervals; the searching then ends, whatever the trackers answer and however often
  the pass runs.\<close>

theorem searches_of_an_item_end:
  assumes "valid_cadence c" and "searched_at c enqueued last_search ts" and "\<forall>t \<in> set ts. enqueued \<le> t"
  shows "int (length ts) \<le> 1 + (cutoff_s c - 1) div shortest_interval c"
proof (cases ts)
  case Nil
  have "0 < cutoff_s c" using cutoff_pos [OF assms(1)] .
  with Nil shortest_interval_pos [OF assms(1)] show ?thesis by (simp add: pos_imp_zdiv_nonneg_iff)
next
  case (Cons t us)
  have pos: "0 < shortest_interval c" using shortest_interval_pos [OF assms(1)] .
  have "0 < cutoff_s c" using cutoff_pos [OF assms(1)] .
  moreover have "int (length us) * shortest_interval c < cutoff_s c" if "us \<noteq> []"
    using searches_spread [OF assms(1) _ that, of enqueued t] assms(2,3) by (simp add: Cons)
  ultimately have "int (length us) * shortest_interval c \<le> cutoff_s c - 1" by (cases "us = []") auto
  then have "int (length us) \<le> (cutoff_s c - 1) div shortest_interval c" 
    using zdiv_mono1 [of "int (length us) * shortest_interval c" "cutoff_s c - 1" "shortest_interval c"] pos by simp
  with Cons show ?thesis by simp
qed

lemma searches_of_an_item_end_witness:
  "searched_at sample_cadence 0 None [0, 10, 20, 150] \<and> (4 :: int) \<le> 1 + (cutoff_s sample_cadence - 1) div shortest_interval sample_cadence"
proof -
  have v: "valid_cadence sample_cadence" by (simp add: valid_cadence_def sample_cadence_def)
  have s: "searched_at sample_cadence 0 None [0, 10, 20, 150]"
    by (simp add: is_due_by_cadence_def is_past_cutoff_def sample_cadence_def)
  from searches_of_an_item_end [OF v s] s show ?thesis by simp
qed

end
