(* ===== verification/Desired.thy ===== *)
theory Desired
  imports Cadence Json
begin

text \<open>
  What a search wants (\<open>acquire/desired.py\<close>): the resolutions, the quality profile of a series, the criteria of an
  item, the profile they give together, and the texts the profile, the criteria and the cadence are stored as.
\<close>

subsection \<open>Resolutions\<close>

text \<open>\<open>Resolution\<close> is an \<open>IntEnum\<close>; \<open>R4K\<close> and \<open>RUHD\<close> are aliases of \<open>R2160P\<close>.\<close>

datatype resolution = UNKNOWN | R480P | R720P | R1080P | R2160P

fun resolution_value :: "resolution \<Rightarrow> int" where
  "resolution_value UNKNOWN = 0"
| "resolution_value R480P = 480"
| "resolution_value R720P = 720"
| "resolution_value R1080P = 1080"
| "resolution_value R2160P = 2160"

instantiation resolution :: linorder
begin

definition less_eq_resolution :: "resolution \<Rightarrow> resolution \<Rightarrow> bool" where
  "less_eq_resolution r r' \<longleftrightarrow> resolution_value r \<le> resolution_value r'"

definition less_resolution :: "resolution \<Rightarrow> resolution \<Rightarrow> bool" where
  "less_resolution r r' \<longleftrightarrow> resolution_value r < resolution_value r'"

instance
proof
  have inj: "resolution_value x = resolution_value y \<Longrightarrow> x = y" for x y by (cases x; cases y) simp_all
  show "x \<le> y \<Longrightarrow> y \<le> x \<Longrightarrow> x = y" for x y :: resolution by (auto simp: less_eq_resolution_def intro: inj)
qed (auto simp: less_eq_resolution_def less_resolution_def)

end

definition resolution_from_token :: "string option \<Rightarrow> resolution" where
  "resolution_from_token s = (case s of None \<Rightarrow> UNKNOWN
     | Some s \<Rightarrow>
         (let token = lower (strip s)
          in if token = ''2160p'' then R2160P
             else if token = ''1080p'' then R1080P
             else if token = ''720p'' then R720P
             else if token = ''480p'' then R480P
             else if token = ''4k'' then R2160P
             else if token = ''uhd'' then R2160P
             else UNKNOWN))"

text \<open>\<open>Resolution(v)\<close> of a decoded value; \<open>False\<close> is \<open>0\<close>, and no other value than the members' is one.\<close>

fun resolution_of_value :: "json \<Rightarrow> py_error + resolution" where
  "resolution_of_value (JInt v) =
     (case List.find (\<lambda>r. resolution_value r = v) [UNKNOWN, R480P, R720P, R1080P, R2160P] of
        None \<Rightarrow> Inl ValueError | Some r \<Rightarrow> Inr r)"
| "resolution_of_value (JBool False) = Inr UNKNOWN"
| "resolution_of_value _ = Inl ValueError"

subsection \<open>Profiles and criteria\<close>

record quality_profile =
  min_resolution :: "resolution option"
  required_audio :: "string set"
  require_known_resolution :: bool
  exclude_3d :: bool

definition default_profile :: quality_profile where
  "default_profile = \<lparr>min_resolution = None, required_audio = {}, require_known_resolution = False, exclude_3d = True\<rparr>"

record source_criteria =
  preferred_resolution :: "resolution option"
  criteria_audio :: "string set"

definition default_criteria :: source_criteria where
  "default_criteria = \<lparr>preferred_resolution = None, criteria_audio = {}\<rparr>"

definition effective_quality :: "quality_profile \<Rightarrow> source_criteria \<Rightarrow> quality_profile" where
  "effective_quality series item = \<lparr>
     min_resolution = (if preferred_resolution item \<noteq> None then preferred_resolution item else min_resolution series),
     required_audio = (if criteria_audio item \<noteq> {} then criteria_audio item else required_audio series),
     require_known_resolution = require_known_resolution series, exclude_3d = exclude_3d series\<rparr>"

subsection \<open>The stored texts\<close>

definition json_of_resolution :: "resolution option \<Rightarrow> json" where
  "json_of_resolution r = (case r of None \<Rightarrow> JNull | Some r \<Rightarrow> JInt (resolution_value r))"

definition json_of_texts :: "string set \<Rightarrow> json" where
  "json_of_texts S = JList (map JStr (sorted_list_of_set S))"

definition quality_profile_to_json :: "quality_profile \<Rightarrow> json_text" where
  "quality_profile_to_json p = Text (JObj
     [(''min_resolution'', json_of_resolution (min_resolution p)),
      (''required_audio'', json_of_texts (required_audio p)),
      (''require_known_resolution'', JBool (require_known_resolution p)),
      (''exclude_3d'', JBool (exclude_3d p))])"

text \<open>Reading: \<open>json.loads\<close>, \<open>data.get\<close> (only an object has one), \<open>bool\<close> and \<open>frozenset\<close> of a decoded value. A list
  holds texts only; another element is a \<open>TypeError\<close> here.\<close>

fun loads_object :: "json_text \<Rightarrow> py_error + json" where
  "loads_object NotJson = Inl JSONDecodeError"
| "loads_object (Text (JObj kvs)) = Inr (JObj kvs)"
| "loads_object (Text _) = Inl AttributeError"

fun truthy :: "json \<Rightarrow> bool" where
  "truthy JNull = False"
| "truthy (JBool b) = b"
| "truthy (JInt i) = (i \<noteq> 0)"
| "truthy (JStr s) = (s \<noteq> [])"
| "truthy (JList xs) = (xs \<noteq> [])"
| "truthy (JObj kvs) = (kvs \<noteq> [])"

fun as_text :: "json \<Rightarrow> py_error + string" where
  "as_text (JStr s) = Inr s"
| "as_text _ = Inl TypeError"

fun texts_of_list :: "json list \<Rightarrow> py_error + string list" where
  "texts_of_list [] = Inr []"
| "texts_of_list (j # js) = raising_bind (as_text j) (\<lambda>s. raising_bind (texts_of_list js) (\<lambda>ss. Inr (s # ss)))"

fun as_text_set :: "json \<Rightarrow> py_error + string set" where
  "as_text_set (JList js) = raising_bind (texts_of_list js) (\<lambda>ss. Inr (set ss))"
| "as_text_set (JStr s) = Inr ((\<lambda>c. [c]) ` set s)"
| "as_text_set (JObj kvs) = Inr (fst ` set kvs)"
| "as_text_set _ = Inl TypeError"

definition get_resolution :: "json \<Rightarrow> string \<Rightarrow> py_error + resolution option" where
  "get_resolution data k = (case json_get data k of
     None \<Rightarrow> Inr None | Some JNull \<Rightarrow> Inr None | Some v \<Rightarrow> raising_bind (resolution_of_value v) (\<lambda>r. Inr (Some r)))"

definition get_truth :: "json \<Rightarrow> string \<Rightarrow> bool \<Rightarrow> bool" where
  "get_truth data k dflt = (case json_get data k of None \<Rightarrow> dflt | Some v \<Rightarrow> truthy v)"

definition quality_profile_from_json :: "json_text option \<Rightarrow> py_error + quality_profile" where
  "quality_profile_from_json blob = (case blob of None \<Rightarrow> Inr default_profile
     | Some text \<Rightarrow> raising_bind (loads_object text) (\<lambda>data.
         raising_bind (get_resolution data ''min_resolution'') (\<lambda>r.
         raising_bind (json_get_or as_text_set {} data ''required_audio'') (\<lambda>audio.
           Inr \<lparr>min_resolution = r, required_audio = audio,
             require_known_resolution = get_truth data ''require_known_resolution'' False,
             exclude_3d = get_truth data ''exclude_3d'' True\<rparr>))))"

definition source_criteria_to_json :: "source_criteria \<Rightarrow> json_text" where
  "source_criteria_to_json c = Text (JObj
     [(''preferred_resolution'', json_of_resolution (preferred_resolution c)), (''required_audio'', json_of_texts (criteria_audio c))])"

definition source_criteria_from_json :: "json_text option \<Rightarrow> py_error + source_criteria" where
  "source_criteria_from_json blob = (case blob of None \<Rightarrow> Inr default_criteria
     | Some text \<Rightarrow> raising_bind (loads_object text) (\<lambda>data.
         raising_bind (get_resolution data ''preferred_resolution'') (\<lambda>r.
         raising_bind (json_get_or as_text_set {} data ''required_audio'') (\<lambda>audio.
           Inr \<lparr>preferred_resolution = r, criteria_audio = audio\<rparr>))))"

definition cadence_to_json :: "cadence \<Rightarrow> json_text" where
  "cadence_to_json c = Text (JObj
     [(''tiers'', JList (map (\<lambda>ti. JObj [(''max_age_s'', JInt (max_age_s ti)), (''interval_s'', JInt (interval_s ti))]) (tiers c))),
      (''cutoff_s'', JInt (cutoff_s c))])"

text \<open>\<open>cadence_from_json\<close>: a missing key, a value of another type and a cadence \<open>__post_init__\<close> refuses all give
  \<open>None\<close>. Of the values that are no integer, those Python compares with one (\<open>bool\<close>, \<open>float\<close>) are not told apart
  from the others.\<close>

fun tier_of_json :: "json \<Rightarrow> tier option" where
  "tier_of_json (JObj kvs) = (case (map_of kvs ''max_age_s'', map_of kvs ''interval_s'') of
     (Some (JInt a), Some (JInt i)) \<Rightarrow> Some \<lparr>max_age_s = a, interval_s = i\<rparr> | _ \<Rightarrow> None)"
| "tier_of_json _ = None"

definition cadence_from_json :: "json_text option \<Rightarrow> cadence option" where
  "cadence_from_json blob = (case blob of Some (Text (JObj kvs)) \<Rightarrow>
       (case (map_of kvs ''tiers'', map_of kvs ''cutoff_s'') of
          (Some (JList js), Some (JInt gone)) \<Rightarrow>
            (if \<forall>j \<in> set js. tier_of_json j \<noteq> None
             then (let c = \<lparr>tiers = map (the \<circ> tier_of_json) js, cutoff_s = gone\<rparr>
                   in if valid_cadence c then Some c else None)
             else None)
        | _ \<Rightarrow> None)
     | _ \<Rightarrow> None)"

text \<open>The configured cadence: per tier \<open>max_age_hours\<close> and \<open>interval_minutes\<close>, and \<open>cutoff_days\<close>.\<close>

definition cadence_from_config :: "(int \<times> int) list \<Rightarrow> int \<Rightarrow> cadence" where
  "cadence_from_config cfg_tiers cutoff_days =
     \<lparr>tiers = map (\<lambda>(hours, minutes). \<lparr>max_age_s = hours * 3600, interval_s = minutes * 60\<rparr>) cfg_tiers,
      cutoff_s = cutoff_days * 24 * 3600\<rparr>"

definition effective_cadence :: "cadence option \<Rightarrow> cadence \<Rightarrow> cadence" where
  "effective_cadence override global = (case override of None \<Rightarrow> global | Some c \<Rightarrow> c)"

subsection \<open>Reading back what was stored\<close>

lemma resolution_round [simp]: "resolution_of_value (JInt (resolution_value r)) = Inr r"
  by (cases r) simp_all

lemma texts_round [simp]: "texts_of_list (map JStr ss) = Inr ss"
  by (induction ss) simp_all

lemma get_resolution_round: "map_of kvs k = Some (json_of_resolution r) \<Longrightarrow> get_resolution (JObj kvs) k = Inr r"
  using resolution_round by (cases r) (simp_all add: get_resolution_def json_of_resolution_def del: resolution_of_value.simps)

lemma text_set_round: "finite S \<Longrightarrow> as_text_set (json_of_texts S) = Inr S"
  by (simp add: json_of_texts_def)

lemma tier_id: "(\<lambda>x. \<lparr>max_age_s = max_age_s x, interval_s = interval_s x\<rparr>) = (\<lambda>x. x :: tier)"
  by (rule ext) simp

text \<open>C27: A stored quality profile, a stored criteria and a stored cadence are read back as they were, and every profile,
  criteria and cadence the code builds can be stored.\<close>

theorem desired_reads_back:
  assumes "finite (required_audio p)" and "finite (criteria_audio c)" and "valid_cadence k"
  shows "quality_profile_from_json (Some (quality_profile_to_json p)) = Inr p
    \<and> source_criteria_from_json (Some (source_criteria_to_json c)) = Inr c
    \<and> cadence_from_json (Some (cadence_to_json k)) = Some k"
proof (intro conjI)
  show "quality_profile_from_json (Some (quality_profile_to_json p)) = Inr p"
    using assms(1) by (simp add: quality_profile_from_json_def quality_profile_to_json_def get_resolution_round json_get_or_def
        text_set_round get_truth_def)
  show "source_criteria_from_json (Some (source_criteria_to_json c)) = Inr c"
    using assms(2) by (simp add: source_criteria_from_json_def source_criteria_to_json_def get_resolution_round json_get_or_def
        text_set_round)
  show "cadence_from_json (Some (cadence_to_json k)) = Some k"
    using assms(3) by (cases k) (simp add: cadence_from_json_def cadence_to_json_def comp_def Let_def tier_id)
qed

lemma desired_reads_back_witness:
  "cadence_from_json (Some (cadence_to_json sample_cadence)) = Some sample_cadence
   \<and> quality_profile_from_json (Some (quality_profile_to_json default_profile)) = Inr default_profile"
proof -
  have "valid_cadence sample_cadence" by (simp add: valid_cadence_def sample_cadence_def)
  with desired_reads_back [of default_profile default_criteria sample_cadence] show ?thesis
    by (simp add: default_profile_def default_criteria_def)
qed

end
