(* ===== verification/Wanted_Store.thy ===== *)
theory Wanted_Store
  imports Json "HOL-Library.Product_Lexorder"
begin

text \<open>
  The wanted items (\<open>acquire/domain.py\<close>) and their table (\<open>acquire/_wanted_store.py\<close>, rows read by
  \<open>_store_rows.py\<close>). One function per method: the rows it leaves and, where the method has one, its answer.
  The JSON columns hold decoded texts (theory \<open>Json\<close>). Texts are ASCII, where SQLite's \<open>lower\<close> is Python's.
\<close>

datatype wanted_kind = MOVIE | EPISODE | SEASON

datatype wanted_status = PENDING | SEARCHING | AVAILABLE | GRABBED | DONE | ABANDONED | ABSORBED | FALLBACK_EPISODES

definition OPEN_WANTED_STATUSES :: "wanted_status set" where
  "OPEN_WANTED_STATUSES = {PENDING, SEARCHING, AVAILABLE, GRABBED}"

record media_ref =
  tvdb_id :: "int option"
  tmdb_id :: "int option"
  imdb_id :: "string option"

record wanted_item =
  media_ref :: media_ref
  wanted_kind :: wanted_kind
  wanted_status :: wanted_status
  enqueued_at :: int
  followed_id :: "int option"
  season :: "int option"
  episode :: "int option"
  criteria_json :: "json_text option"
  last_search_at :: "int option"
  attempts :: int
  wanted_id :: int
  grabbed_hash :: "string option"
  last_search_outcome :: "string option"
  last_search_found :: "int option"
  tried_hashes_json :: "json_text option"
  absorbed_by :: "int option"
  last_search_best :: "json_text option"
  last_grab_reason :: "string option"
  last_grab_at :: "int option"

type_synonym wanted_table = "wanted_item list"

text \<open>A new item, as the callers build it: no search, no grab, no attempt.\<close>

definition fresh_item :: "media_ref \<Rightarrow> wanted_kind \<Rightarrow> int \<Rightarrow> int option \<Rightarrow> int option \<Rightarrow> int option \<Rightarrow> wanted_item" where
  "fresh_item ref k t fid s e = \<lparr>media_ref = ref, wanted_kind = k, wanted_status = PENDING, enqueued_at = t, followed_id = fid,
     season = s, episode = e, criteria_json = None, last_search_at = None, attempts = 0, wanted_id = 0, grabbed_hash = None,
     last_search_outcome = None, last_search_found = None, tried_hashes_json = None, absorbed_by = None,
     last_search_best = None, last_grab_reason = None, last_grab_at = None\<rparr>"

definition is_open :: "wanted_item \<Rightarrow> bool" where
  "is_open r \<longleftrightarrow> wanted_status r \<in> OPEN_WANTED_STATUSES"

subsection \<open>The hashes already tried\<close>

text \<open>\<open>decode_tried_hashes\<close>: lower-cased, without the empty ones, each at its first place.\<close>

fun first_seen :: "string list \<Rightarrow> string list \<Rightarrow> string list" where
  "first_seen seen [] = seen"
| "first_seen seen (h # hs) = first_seen (if h \<in> set seen then seen else seen @ [h]) hs"

fun text_of :: "json \<Rightarrow> string option" where
  "text_of (JStr h) = Some h"
| "text_of _ = None"

fun decode_tried_hashes :: "json_text option \<Rightarrow> string list" where
  "decode_tried_hashes (Some (Text (JList hs))) = first_seen [] (map lower (filter (\<lambda>h. h \<noteq> []) (List.map_filter text_of hs)))"
| "decode_tried_hashes _ = []"

text \<open>\<open>json.dumps([...])\<close> of texts.\<close>

definition dump_texts :: "string list \<Rightarrow> json_text" where
  "dump_texts hs = Text (JList (map JStr hs))"

subsection \<open>Insertion and reading\<close>

definition next_wanted_id :: "wanted_table \<Rightarrow> int" where
  "next_wanted_id rs = Max (insert 0 (set (map wanted_id rs))) + 1"

definition add_wanted :: "wanted_item \<Rightarrow> wanted_table \<Rightarrow> int \<times> wanted_table" where
  "add_wanted item rs =
     (next_wanted_id rs,
      rs @ [item\<lparr>wanted_id := next_wanted_id rs, grabbed_hash := None, tried_hashes_json := None, last_search_best := None,
                 last_grab_reason := None, last_grab_at := None\<rparr>])"

definition get_wanted :: "int \<Rightarrow> wanted_table \<Rightarrow> wanted_item option" where
  "get_wanted i rs = sql_first (\<lambda>r. wanted_id r = i) rs"

definition with_status :: "wanted_status \<Rightarrow> wanted_table \<Rightarrow> wanted_item list" where
  "with_status st rs = filter (\<lambda>r. wanted_status r = st) rs"

definition list_pending :: "wanted_table \<Rightarrow> wanted_item list" where "list_pending = with_status PENDING"

definition list_searching :: "wanted_table \<Rightarrow> wanted_item list" where "list_searching = with_status SEARCHING"

definition list_available :: "wanted_table \<Rightarrow> wanted_item list" where "list_available = with_status AVAILABLE"

text \<open>\<open>ORDER BY last_search_at DESC, id\<close>: \<open>NULL\<close> is the smallest value, so it comes last.\<close>

definition list_grabbed :: "wanted_table \<Rightarrow> wanted_item list" where
  "list_grabbed rs = sort_key (\<lambda>r. case last_search_at r of None \<Rightarrow> (1 :: nat, 0 :: int) | Some t \<Rightarrow> (0, - t)) (with_status GRABBED rs)"

definition list_stale_searching :: "int \<Rightarrow> wanted_table \<Rightarrow> wanted_item list" where
  "list_stale_searching older_than rs =
     filter (\<lambda>r. wanted_status r = SEARCHING \<and> (\<exists>t. last_search_at r = Some t \<and> t < older_than)) rs"

definition list_for_followed :: "int \<Rightarrow> wanted_kind \<Rightarrow> wanted_table \<Rightarrow> wanted_item list" where
  "list_for_followed fid k rs = filter (\<lambda>r. followed_id r = Some fid \<and> wanted_kind r = k) rs"

definition is_target :: "int option \<Rightarrow> wanted_kind \<Rightarrow> int option \<Rightarrow> int option \<Rightarrow> wanted_item \<Rightarrow> bool" where
  "is_target fid k s e r \<longleftrightarrow> followed_id r = fid \<and> wanted_kind r = k \<and> season r = s \<and> episode r = e"

definition find_wanted :: "int option \<Rightarrow> wanted_kind \<Rightarrow> int option \<Rightarrow> int option \<Rightarrow> wanted_status set option \<Rightarrow> wanted_table
    \<Rightarrow> wanted_item option" where
  "find_wanted fid k s e statuses rs =
     sql_first (\<lambda>r. is_target fid k s e r \<and> (case statuses of None \<Rightarrow> True | Some S \<Rightarrow> wanted_status r \<in> S)) rs"

definition hashes_in_flight :: "wanted_table \<Rightarrow> string set" where
  "hashes_in_flight rs = set (map lower (filter (\<lambda>h. h \<noteq> []) (List.map_filter (\<lambda>r. if is_open r then grabbed_hash r else None) rs)))"

definition list_tried_hashes :: "int \<Rightarrow> wanted_table \<Rightarrow> string list" where
  "list_tried_hashes i rs = (case get_wanted i rs of None \<Rightarrow> [] | Some r \<Rightarrow> decode_tried_hashes (tried_hashes_json r))"

subsection \<open>The compare-and-set statements\<close>

text \<open>An \<open>UPDATE\<close> of one row and whether it matched: \<open>cur.rowcount == 1\<close>.\<close>

definition move :: "int \<Rightarrow> (wanted_item \<Rightarrow> bool) \<Rightarrow> (wanted_item \<Rightarrow> wanted_item) \<Rightarrow> wanted_table \<Rightarrow> bool \<times> wanted_table" where
  "move i P f rs = (sql_count (\<lambda>r. wanted_id r = i \<and> P r) rs = 1, sql_update (\<lambda>r. wanted_id r = i \<and> P r) f rs)"

definition set_status :: "int \<Rightarrow> wanted_status \<Rightarrow> wanted_table \<Rightarrow> wanted_table" where
  "set_status i st rs = snd (move i (\<lambda>_. True) (\<lambda>r. r\<lparr>wanted_status := st\<rparr>) rs)"

definition claim_for_search :: "int \<Rightarrow> int \<Rightarrow> wanted_table \<Rightarrow> bool \<times> wanted_table" where
  "claim_for_search i t = move i (\<lambda>r. wanted_status r = PENDING)
     (\<lambda>r. r\<lparr>wanted_status := SEARCHING, attempts := attempts r + 1, last_search_at := Some t\<rparr>)"

definition refund_search_attempt :: "int \<Rightarrow> wanted_table \<Rightarrow> bool \<times> wanted_table" where
  "refund_search_attempt i = move i (\<lambda>_. True) (\<lambda>r. r\<lparr>attempts := max (attempts r - 1) 0\<rparr>)"

definition claim_for_grab :: "int \<Rightarrow> int \<Rightarrow> wanted_table \<Rightarrow> bool \<times> wanted_table" where
  "claim_for_grab i t = move i (\<lambda>r. wanted_status r = AVAILABLE)
     (\<lambda>r. r\<lparr>wanted_status := SEARCHING, attempts := attempts r + 1, last_search_at := Some t,
            last_grab_reason := None, last_grab_at := None\<rparr>)"

definition reclaim_stale_searching :: "int \<Rightarrow> int \<Rightarrow> wanted_table \<Rightarrow> bool \<times> wanted_table" where
  "reclaim_stale_searching i older_than = move i
     (\<lambda>r. wanted_status r = SEARCHING \<and> (\<exists>t. last_search_at r = Some t \<and> t < older_than) \<and> grabbed_hash r = None)
     (\<lambda>r. r\<lparr>wanted_status := PENDING\<rparr>)"

definition record_grab_intent :: "int \<Rightarrow> string \<Rightarrow> wanted_table \<Rightarrow> bool \<times> wanted_table" where
  "record_grab_intent i h = move i (\<lambda>r. wanted_status r = SEARCHING \<and> grabbed_hash r = None) (\<lambda>r. r\<lparr>grabbed_hash := Some h\<rparr>)"

definition confirm_grab_intent :: "int \<Rightarrow> string \<Rightarrow> wanted_table \<Rightarrow> bool \<times> wanted_table" where
  "confirm_grab_intent i h = move i (\<lambda>r. wanted_status r = SEARCHING \<and> grabbed_hash r \<noteq> None)
     (\<lambda>r. r\<lparr>wanted_status := GRABBED, grabbed_hash := Some h\<rparr>)"

definition clear_grab_intent :: "int \<Rightarrow> wanted_table \<Rightarrow> bool \<times> wanted_table" where
  "clear_grab_intent i = move i (\<lambda>r. wanted_status r = SEARCHING \<and> grabbed_hash r \<noteq> None) (\<lambda>r. r\<lparr>grabbed_hash := None\<rparr>)"

definition mark_grabbed :: "int \<Rightarrow> string \<Rightarrow> wanted_table \<Rightarrow> wanted_table" where
  "mark_grabbed i h rs = snd (move i (\<lambda>_. True)
     (\<lambda>r. r\<lparr>wanted_status := GRABBED, grabbed_hash := Some h, last_grab_reason := None, last_grab_at := None\<rparr>) rs)"

definition holds_hash :: "string \<Rightarrow> wanted_item \<Rightarrow> bool" where
  "holds_hash h r \<longleftrightarrow> is_open r \<and> (\<exists>g. grabbed_hash r = Some g \<and> lower g = lower h)"

definition mark_done_by_hash :: "string \<Rightarrow> wanted_table \<Rightarrow> wanted_item list \<times> wanted_table" where
  "mark_done_by_hash h rs = (filter (holds_hash h) rs, sql_update (holds_hash h) (\<lambda>r. r\<lparr>wanted_status := DONE\<rparr>) rs)"

definition mark_done :: "int \<Rightarrow> wanted_table \<Rightarrow> bool \<times> wanted_table" where
  "mark_done i = move i is_open (\<lambda>r. r\<lparr>wanted_status := DONE\<rparr>)"

definition requeue_missing :: "int \<Rightarrow> wanted_table \<Rightarrow> bool \<times> wanted_table" where
  "requeue_missing i = move i (\<lambda>r. is_open r \<and> grabbed_hash r \<noteq> None) (\<lambda>r. r\<lparr>wanted_status := PENDING, grabbed_hash := None\<rparr>)"

definition append_tried_hash :: "int \<Rightarrow> string \<Rightarrow> wanted_table \<Rightarrow> wanted_table" where
  "append_tried_hash i h rs =
     (let n = lower (strip h); existing = list_tried_hashes i rs
      in if n = [] \<or> get_wanted i rs = None \<or> n \<in> set existing then rs
         else snd (move i (\<lambda>_. True) (\<lambda>r. r\<lparr>tried_hashes_json := Some (dump_texts (existing @ [n]))\<rparr>) rs))"

definition requeue_for_reswitch :: "int \<Rightarrow> string \<Rightarrow> int \<Rightarrow> wanted_table \<Rightarrow> bool \<times> wanted_table" where
  "requeue_for_reswitch i failed t rs =
     (let n = lower (strip failed); existing = list_tried_hashes i rs;
          merged = (if n = [] \<or> n \<in> set existing then existing else existing @ [n])
      in if get_wanted i rs = None then (False, rs)
         else move i (\<lambda>r. is_open r \<and> grabbed_hash r \<noteq> None)
           (\<lambda>r. r\<lparr>wanted_status := PENDING, grabbed_hash := None, tried_hashes_json := Some (dump_texts merged), enqueued_at := t,
                  attempts := 0, last_search_at := None, last_search_outcome := None, last_search_found := None\<rparr>) rs)"

definition absorb_episodes :: "int \<Rightarrow> int list \<Rightarrow> wanted_table \<Rightarrow> nat \<times> wanted_table" where
  "absorb_episodes season_id ids rs =
     (if ids = [] then (0, rs)
      else let P = (\<lambda>r. wanted_id r \<in> set ids \<and> wanted_status r \<in> {PENDING, SEARCHING, AVAILABLE})
           in (sql_count P rs, sql_update P (\<lambda>r. r\<lparr>wanted_status := ABSORBED, absorbed_by := Some season_id\<rparr>) rs))"

definition fallback_season :: "int \<Rightarrow> wanted_table \<Rightarrow> bool \<times> wanted_table" where
  "fallback_season i = move i (\<lambda>r. wanted_kind r = SEASON \<and> is_open r) (\<lambda>r. r\<lparr>wanted_status := FALLBACK_EPISODES\<rparr>)"

definition resurrect :: "int \<Rightarrow> int \<Rightarrow> wanted_table \<Rightarrow> bool \<times> wanted_table" where
  "resurrect i t = move i (\<lambda>r. wanted_status r = ABANDONED)
     (\<lambda>r. r\<lparr>wanted_status := PENDING, attempts := 0, enqueued_at := t, last_search_at := None, grabbed_hash := None\<rparr>)"

definition record_search_outcome :: "int \<Rightarrow> string \<Rightarrow> int option \<Rightarrow> json_text option \<Rightarrow> wanted_table \<Rightarrow> wanted_table" where
  "record_search_outcome i outcome found best rs = snd (move i (\<lambda>_. True)
     (\<lambda>r. r\<lparr>last_search_outcome := Some outcome, last_search_found := found, last_search_best := best\<rparr>) rs)"

definition record_grab_failure :: "int \<Rightarrow> string \<Rightarrow> int \<Rightarrow> wanted_table \<Rightarrow> wanted_table" where
  "record_grab_failure i reason t rs = snd (move i (\<lambda>_. True) (\<lambda>r. r\<lparr>last_grab_reason := Some reason, last_grab_at := Some t\<rparr>) rs)"

end
