(* ===== verification/Releases.thy ===== *)
theory Releases
  imports Desired Wanted_Store
begin

text \<open>
  The releases the trackers offer and the choice among them: the query of every tracker
  (\<open>TrackerRegistry.search_candidates\<close>, \<open>api/tracker/_registry.py\<close>), the hard filters (\<open>acquire/_filters.py\<close>), the
  removal of duplicates (\<open>acquire/_dedup.py\<close>) and the ranking (\<open>api/tracker/_ranking.py\<close>). Parameters: what a tracker
  answers, what the regular expressions and \<open>guessit\<close> find in a title, Python's \<open>int(text)\<close> and \<open>str(value)\<close>.
\<close>

subsection \<open>Releases\<close>

record release =
  provider :: string
  tracker_id :: string
  release_title :: string
  size_bytes :: int
  seeders :: int
  leechers :: int
  release_category :: "string option"
  download_url :: "string option"
  info_hash :: "string option"
  source_url :: "string option"
  is_freeleech :: bool
  is_silverleech :: bool
  upload_date :: "time option"
  release_format :: "string option"
  codec :: "string option"
  release_source :: "string option"
  release_resolution :: "string option"
  audio :: "string option"
  release_language :: "string option"
  release_tmdb_id :: "int option"

subsection \<open>The query of the trackers\<close>

datatype tracker_raise = CircuitOpen | TrackerAuth | ApiFailure

record search_outcome =
  results :: "release list"
  trackers_queried :: nat
  trackers_errored :: nat
  errored_names :: "string list"
  queried_names :: "string list"
  tracker_errors :: "string \<rightharpoonup> string"

definition all_errored :: "search_outcome \<Rightarrow> bool" where
  "all_errored out \<longleftrightarrow> trackers_queried out > 0 \<and> trackers_queried out = trackers_errored out"

definition empty_outcome :: search_outcome where
  "empty_outcome = \<lparr>results = [], trackers_queried = 0, trackers_errored = 0, errored_names = [], queried_names = [],
     tracker_errors = Map.empty\<rparr>"

fun taxon :: "tracker_raise \<Rightarrow> string" where
  "taxon CircuitOpen = ''circuit''"
| "taxon TrackerAuth = ''auth''"
| "taxon ApiFailure = ''api''"

text \<open>The loop over the priority list; \<open>ask name\<close> is \<open>None\<close> for a tracker that is not configured.\<close>

fun query_trackers :: "(string \<Rightarrow> (tracker_raise + release list) option) \<Rightarrow> string list \<Rightarrow> search_outcome \<Rightarrow> search_outcome" where
  "query_trackers ask [] out = out"
| "query_trackers ask (nm # nms) out = query_trackers ask nms
     (case ask nm of
        None \<Rightarrow> out
      | Some answer \<Rightarrow>
          (let out = out\<lparr>trackers_queried := Suc (trackers_queried out), queried_names := queried_names out @ [nm]\<rparr>
           in case answer of
                Inr found \<Rightarrow> out\<lparr>results := results out @ found\<rparr>
              | Inl e \<Rightarrow> out\<lparr>trackers_errored := Suc (trackers_errored out), errored_names := errored_names out @ [nm],
                  tracker_errors := (tracker_errors out)(nm \<mapsto> taxon e)\<rparr>))"

definition search_candidates :: "(string \<Rightarrow> (tracker_raise + release list) option) \<Rightarrow> string list \<Rightarrow> search_outcome" where
  "search_candidates ask priority = query_trackers ask priority empty_outcome"

subsection \<open>The hard filters\<close>

text \<open>What \<open>guessit\<close> reads in a title: the values the filters convert, \<open>None\<close> for one that is absent; an episode that is
  no number is \<open>None\<close> in its list.\<close>

record guess =
  guess_title :: "string option"
  guess_year :: "int option"
  guess_season :: "int option"
  guess_episodes :: "int option list option"
  guess_episode_count :: "int option option"
  guess_episode_range :: bool

text \<open>What the module's regular expressions, \<open>guessit\<close> (\<open>None\<close> when it raises) and \<open>rapidfuzz\<close> find in a title.\<close>

record title_reader =
  adult_title :: "string \<Rightarrow> bool"
  stereo_title :: "string \<Rightarrow> bool"
  audio_languages :: "string \<Rightarrow> string set"
  marks_episode :: "int \<Rightarrow> int \<Rightarrow> string \<Rightarrow> bool"
  many_seasons :: "string \<Rightarrow> bool"
  some_episode :: "string \<Rightarrow> bool"
  guessit :: "string \<Rightarrow> guess option"
  token_set_ratio :: "string \<Rightarrow> string \<Rightarrow> real"

definition is_digits :: "string \<Rightarrow> bool" where
  "is_digits s \<longleftrightarrow> s \<noteq> [] \<and> list_all is_digit s"

definition nat_of_digits :: "string \<Rightarrow> nat" where
  "nat_of_digits s = foldl (\<lambda>n c. 10 * n + (of_char c - 48)) 0 s"

definition category_class :: "string option \<Rightarrow> nat option" where
  "category_class raw = (case raw of None \<Rightarrow> None
     | Some s \<Rightarrow> if is_digits (strip s) then Some (nat_of_digits (strip s) div 1000) else None)"

definition passes_video_category :: "release \<Rightarrow> bool" where
  "passes_video_category r = (case category_class (release_category r) of None \<Rightarrow> True | Some k \<Rightarrow> k \<notin> {1, 3, 4, 7})"

definition passes_not_adult :: "title_reader \<Rightarrow> release \<Rightarrow> bool" where
  "passes_not_adult tr r \<longleftrightarrow> category_class (release_category r) \<noteq> Some 6 \<and> \<not> adult_title tr (release_title r)"

definition passes_resolution :: "release \<Rightarrow> quality_profile \<Rightarrow> bool" where
  "passes_resolution r p = (case min_resolution p of
     None \<Rightarrow> True
   | Some least \<Rightarrow>
       (let parsed = resolution_from_token (release_resolution r)
        in if parsed = UNKNOWN then \<not> require_known_resolution p else parsed \<ge> least))"

definition passes_not_3d :: "title_reader \<Rightarrow> release \<Rightarrow> quality_profile \<Rightarrow> bool" where
  "passes_not_3d tr r p \<longleftrightarrow> \<not> exclude_3d p \<or> \<not> stereo_title tr (release_title r)"

definition passes_audio :: "title_reader \<Rightarrow> release \<Rightarrow> quality_profile \<Rightarrow> bool" where
  "passes_audio tr r p \<longleftrightarrow> required_audio p = {} \<or> audio_languages tr (release_title r) \<inter> required_audio p \<noteq> {}"

definition apply_hard_filters :: "title_reader \<Rightarrow> quality_profile \<Rightarrow> media_ref option \<Rightarrow> release list \<Rightarrow> release list" where
  "apply_hard_filters tr p ref rs = filter (\<lambda>r.
     \<not> (\<exists>m i j. ref = Some m \<and> tmdb_id m = Some i \<and> release_tmdb_id r = Some j \<and> i \<noteq> j)
     \<and> passes_video_category r \<and> passes_not_adult tr r \<and> passes_resolution r p \<and> passes_not_3d tr r p \<and> passes_audio tr r p) rs"

lemma apply_hard_filters_code [code]:
  "apply_hard_filters tr p ref rs = filter (\<lambda>r.
     (case Option.bind ref tmdb_id of None \<Rightarrow> True | Some i \<Rightarrow> (case release_tmdb_id r of None \<Rightarrow> True | Some j \<Rightarrow> i = j))
     \<and> passes_video_category r \<and> passes_not_adult tr r \<and> passes_resolution r p \<and> passes_not_3d tr r p \<and> passes_audio tr r p) rs"
  unfolding apply_hard_filters_def by (rule filter_cong) (auto split: option.split simp: bind_eq_Some_conv)

subsection \<open>The filters by identity\<close>

definition TITLE_SIMILARITY_THRESHOLD :: real where "TITLE_SIMILARITY_THRESHOLD = 60"

definition parse_release_identity :: "title_reader \<Rightarrow> string \<Rightarrow> string \<times> int option" where
  "parse_release_identity tr title = (case guessit tr title of
     None \<Rightarrow> (title, None)
   | Some g \<Rightarrow> (case guess_title g of None \<Rightarrow> title | Some t \<Rightarrow> if t = [] then title else t, guess_year g))"

definition known_titles :: "string option list \<Rightarrow> string list" where
  "known_titles titles = filter (\<lambda>t. t \<noteq> []) (List.map_filter (\<lambda>t. t) titles)"

definition foreign_title :: "title_reader \<Rightarrow> string list \<Rightarrow> string \<Rightarrow> bool" where
  "foreign_title tr known parsed \<longleftrightarrow> parsed \<noteq> [] \<and> list_all (\<lambda>t. token_set_ratio tr parsed t < TITLE_SIMILARITY_THRESHOLD) known"

definition filter_to_episode :: "title_reader \<Rightarrow> int \<Rightarrow> int \<Rightarrow> string option list \<Rightarrow> release list \<Rightarrow> release list" where
  "filter_to_episode tr s e titles rs = filter (\<lambda>r. marks_episode tr s e (release_title r)
     \<and> \<not> (known_titles titles \<noteq> [] \<and> foreign_title tr (known_titles titles) (fst (parse_release_identity tr (release_title r))))) rs"

text \<open>\<open>_episode_numbers\<close>: all of them, in order, or none when one is no number.\<close>

definition episode_numbers :: "int option list option \<Rightarrow> int list" where
  "episode_numbers raw = (case raw of None \<Rightarrow> []
     | Some vs \<Rightarrow> if None \<in> set vs then [] else sort (List.map_filter (\<lambda>v. v) vs))"

definition whole_season :: "guess \<Rightarrow> int option \<Rightarrow> bool" where
  "whole_season g expected = (case expected of
     None \<Rightarrow> False
   | Some n \<Rightarrow>
       (let eps = episode_numbers (guess_episodes g)
        in eps \<noteq> [] \<and> hd eps = 1
           \<and> (last eps \<ge> n \<or> (length eps = 1 \<and> (\<exists>c. guess_episode_count g = Some (Some c) \<and> c \<ge> n)))))"

definition is_season_pack :: "title_reader \<Rightarrow> int \<Rightarrow> int option \<Rightarrow> string option list \<Rightarrow> string \<Rightarrow> bool" where
  "is_season_pack tr s expected titles title \<longleftrightarrow> \<not> many_seasons tr title \<and>
     (case guessit tr title of
        None \<Rightarrow> False
      | Some g \<Rightarrow> guess_season g = Some s
          \<and> \<not> (known_titles titles \<noteq> [] \<and> foreign_title tr (known_titles titles) (fst (parse_release_identity tr title)))
          \<and> (\<not> (guess_episodes g \<noteq> None \<or> guess_episode_count g \<noteq> None \<or> guess_episode_range g \<or> some_episode tr (lower title))
             \<or> whole_season g expected))"

definition filter_to_season :: "title_reader \<Rightarrow> int \<Rightarrow> int option \<Rightarrow> string option list \<Rightarrow> release list \<Rightarrow> release list" where
  "filter_to_season tr s expected titles rs = filter (\<lambda>r. is_season_pack tr s expected titles (release_title r)) rs"

definition filter_to_movie :: "title_reader \<Rightarrow> string option list \<Rightarrow> int option \<Rightarrow> release list \<Rightarrow> release list" where
  "filter_to_movie tr titles year rs = filter (\<lambda>r.
     let (parsed, parsed_year) = parse_release_identity tr (release_title r)
     in \<not> foreign_title tr (known_titles titles) parsed
        \<and> \<not> (\<exists>y p. year = Some y \<and> parsed_year = Some p \<and> \<bar>p - y\<bar> > 1)) rs"

subsection \<open>Duplicates\<close>

text \<open>\<open>(is_freeleech, is_silverleech, seeders)\<close>; \<open>max\<close> keeps the first of the greatest.\<close>

definition provenance_key :: "release \<Rightarrow> int \<times> int \<times> int" where
  "provenance_key r = (of_bool (is_freeleech r), of_bool (is_silverleech r), seeders r)"

fun best_provenance :: "release \<Rightarrow> release list \<Rightarrow> release" where
  "best_provenance best [] = best"
| "best_provenance best (r # rs) = best_provenance (if provenance_key r > provenance_key best then r else best) rs"

definition best_of :: "release list \<Rightarrow> release" where
  "best_of rs = best_provenance (hd rs) (tl rs)"

text \<open>Groups in the order their keys are first seen: a dictionary of lists and the list of its keys.\<close>

fun groups :: "('a \<Rightarrow> 'k) \<Rightarrow> 'a list \<Rightarrow> 'a list list" where
  "groups key [] = []"
| "groups key (x # xs) = (x # filter (\<lambda>y. key y = key x) xs) # groups key (filter (\<lambda>y. key y \<noteq> key x) xs)"

definition hash_key :: "release \<Rightarrow> string" where
  "hash_key r = (case info_hash r of None \<Rightarrow> [] | Some h \<Rightarrow> lower (strip h))"

fun cluster_sorted :: "release list \<Rightarrow> release list list \<Rightarrow> release list list" where
  "cluster_sorted [] clusters = clusters"
| "cluster_sorted (r # rs) clusters = cluster_sorted rs
     (if clusters \<noteq> [] \<and> size_bytes (hd (last clusters)) > 0
         \<and> real_of_int (size_bytes r - size_bytes (hd (last clusters))) \<le> real_of_int (size_bytes (hd (last clusters))) * (2 / 100)
      then butlast clusters @ [last clusters @ [r]] else clusters @ [[r]])"

definition cluster_by_size :: "release list \<Rightarrow> release list list" where
  "cluster_by_size rs = cluster_sorted (sort_key size_bytes rs) []"

text \<open>\<open>fuzzy_key\<close> is \<open>_fuzzy_key\<close>: the title's words, its year and its resolution.\<close>

definition dedup :: "(release \<Rightarrow> 'k) \<Rightarrow> release list \<Rightarrow> release list" where
  "dedup fuzzy_key rs =
     (let pass1 = map best_of (groups hash_key (filter (\<lambda>r. hash_key r \<noteq> []) rs));
          pool = pass1 @ filter (\<lambda>r. hash_key r = []) rs
      in map best_of (concat (map cluster_by_size (groups fuzzy_key pool))))"

subsection \<open>Ranking\<close>

record threshold =
  threshold_at :: int
  threshold_score :: int

record criterion =
  field_name :: string
  weight :: real
  values_map :: "(string \<times> int) list option"
  thresholds :: "threshold list option"
  prefer_lower :: bool

record ranking =
  criteria :: "criterion list"
  freeleech_bonus :: int
  silverleech_bonus :: int
  min_seeders :: int
  size_thresholds_by_type :: "(wanted_kind \<rightharpoonup> threshold list) option"

datatype attribute = AText string | AInt int | ASize int | AFlag bool | ADate time

text \<open>\<open>getattr(r, c.field, None)\<close>.\<close>

definition attribute_of :: "string \<Rightarrow> release \<Rightarrow> attribute option" where
  "attribute_of nm r = Option.bind (map_of
     [(''provider'', Some (AText (provider r))), (''tracker_id'', Some (AText (tracker_id r))), (''title'', Some (AText (release_title r))),
      (''size'', Some (ASize (size_bytes r))), (''seeders'', Some (AInt (seeders r))), (''leechers'', Some (AInt (leechers r))),
      (''category'', map_option AText (release_category r)), (''download_url'', map_option AText (download_url r)),
      (''info_hash'', map_option AText (info_hash r)), (''source_url'', map_option AText (source_url r)),
      (''is_freeleech'', Some (AFlag (is_freeleech r))), (''is_silverleech'', Some (AFlag (is_silverleech r))),
      (''upload_date'', map_option ADate (upload_date r)), (''format'', map_option AText (release_format r)),
      (''codec'', map_option AText (codec r)), (''source'', map_option AText (release_source r)),
      (''resolution'', map_option AText (release_resolution r)), (''audio'', map_option AText (audio r)),
      (''language'', map_option AText (release_language r)), (''tmdb_id'', map_option AInt (release_tmdb_id r))] nm) (\<lambda>x. x)"

record conversions =
  str_of :: "attribute \<Rightarrow> string"
  int_of_text :: "string \<Rightarrow> py_error + int"

fun attribute_number :: "conversions \<Rightarrow> attribute \<Rightarrow> py_error + int" where
  "attribute_number cv (AText s) = int_of_text cv s"
| "attribute_number cv (AInt n) = Inr n"
| "attribute_number cv (ASize n) = Inr n"
| "attribute_number cv (AFlag b) = Inr (of_bool b)"
| "attribute_number cv (ADate _) = Inl TypeError"

text \<open>\<open>int(x)\<close> of a float cuts towards zero.\<close>

definition int_trunc :: "real \<Rightarrow> int" where
  "int_trunc x = (if x \<ge> 0 then \<lfloor>x\<rfloor> else \<lceil>x\<rceil>)"

definition best_threshold :: "bool \<Rightarrow> int \<Rightarrow> threshold list \<Rightarrow> int" where
  "best_threshold prefers_lower n ts =
     (let scores = map threshold_score (filter (\<lambda>ti. if prefers_lower then n \<le> threshold_at ti else n \<ge> threshold_at ti) ts)
      in if scores = [] then 0 else Max (set scores))"

definition criterion_points :: "conversions \<Rightarrow> ranking \<Rightarrow> wanted_kind option \<Rightarrow> criterion \<Rightarrow> attribute \<Rightarrow> py_error + int" where
  "criterion_points cv rk k c v =
     (case values_map c of
        Some kvs \<Rightarrow> Inr (case map_of (rev (map (\<lambda>(x, s). (lower x, s)) kvs)) (lower (str_of cv v)) of None \<Rightarrow> 0 | Some s \<Rightarrow> s)
      | None \<Rightarrow>
          (case thresholds c of
             None \<Rightarrow> Inr 0
           | Some [] \<Rightarrow> Inr 0
           | Some ts \<Rightarrow>
               (let by_type = (if field_name c = ''size'' then Option.bind k (\<lambda>k. Option.bind (size_thresholds_by_type rk) (\<lambda>m. m k)) else None);
                    ts = (case by_type of None \<Rightarrow> ts | Some [] \<Rightarrow> ts | Some us \<Rightarrow> us)
                in raising_bind (attribute_number cv v) (\<lambda>n. Inr (best_threshold (prefer_lower c) n ts)))))"

fun criteria_score :: "conversions \<Rightarrow> ranking \<Rightarrow> wanted_kind option \<Rightarrow> release \<Rightarrow> criterion list \<Rightarrow> int \<Rightarrow> py_error + int" where
  "criteria_score cv rk k r [] pts = Inr pts"
| "criteria_score cv rk k r (c # cs) pts =
     (case attribute_of (field_name c) r of
        None \<Rightarrow> criteria_score cv rk k r cs pts
      | Some v \<Rightarrow> raising_bind (criterion_points cv rk k c v) (\<lambda>raw.
          criteria_score cv rk k r cs (pts + int_trunc (real_of_int raw * weight c))))"

definition release_score :: "conversions \<Rightarrow> ranking \<Rightarrow> wanted_kind option \<Rightarrow> release \<Rightarrow> py_error + int" where
  "release_score cv rk k r = raising_bind (criteria_score cv rk k r (criteria rk) 0) (\<lambda>pts.
     Inr (pts + (if is_freeleech r then freeleech_bonus rk else 0) + (if is_silverleech r then silverleech_bonus rk else 0)))"

definition rankable :: "ranking \<Rightarrow> string set \<Rightarrow> release \<Rightarrow> bool" where
  "rankable rk excluded r \<longleftrightarrow> seeders r \<ge> min_seeders rk \<and> (\<forall>h. info_hash r = Some h \<longrightarrow> lower h \<notin> excluded)"

fun score_all :: "conversions \<Rightarrow> ranking \<Rightarrow> string set \<Rightarrow> wanted_kind option \<Rightarrow> release list \<Rightarrow> py_error + (release \<times> int) list" where
  "score_all cv rk excluded k [] = Inr []"
| "score_all cv rk excluded k (r # rs) =
     (if \<not> rankable rk excluded r then score_all cv rk excluded k rs
      else raising_bind (release_score cv rk k r) (\<lambda>pts.
        raising_bind (score_all cv rk excluded k rs) (\<lambda>scored. Inr ((r, pts) # scored))))"

text \<open>\<open>scored.sort(key=..., reverse=True)\<close> keeps the order of equal scores.\<close>

definition rank :: "conversions \<Rightarrow> ranking \<Rightarrow> string set \<Rightarrow> wanted_kind option \<Rightarrow> release list \<Rightarrow> py_error + (release \<times> int) list" where
  "rank cv rk excluded k rs = raising_bind (score_all cv rk excluded k rs) (\<lambda>scored. Inr (sort_key (\<lambda>p. - snd p) scored))"

text \<open>\<open>rank_candidates\<close> of \<open>acquire/orchestrator.py\<close>: the representatives and the ranking.\<close>

definition rank_candidates :: "conversions \<Rightarrow> title_reader \<Rightarrow> (release \<Rightarrow> 'k) \<Rightarrow> ranking \<Rightarrow> string set \<Rightarrow> wanted_kind option
    \<Rightarrow> quality_profile \<Rightarrow> media_ref option \<Rightarrow> release list \<Rightarrow> py_error + (release list \<times> (release \<times> int) list)" where
  "rank_candidates cv tr fuzzy_key rk excluded k p ref rs =
     (let representatives = dedup fuzzy_key (apply_hard_filters tr p ref rs)
      in raising_bind (rank cv rk excluded k representatives) (\<lambda>ranked. Inr (representatives, ranked)))"

end
