(* ===== verification/Decimal.thy ===== *)
theory Decimal
  imports Py_Errors
begin

text \<open>
  Decimal numerals: \<open>str(n)\<close> and the zero-padded formats the code writes, and Python's \<open>int\<close> of an ASCII text or of
  bytes (surrounding white space, a sign, single underscores between digits; anything else is a \<open>ValueError\<close>). Python's
  limit of 4300 digits is not modelled.
\<close>

definition digit_of :: "nat \<Rightarrow> char" where
  "digit_of n = char_of (48 + n)"

definition digit_value :: "char \<Rightarrow> nat" where
  "digit_value c = of_char c - 48"

fun dec :: "nat \<Rightarrow> string" where
  "dec n = (if n < 10 then [digit_of n] else dec (n div 10) @ [digit_of (n mod 10)])"

declare dec.simps [simp del]

definition str_int :: "int \<Rightarrow> string" where
  "str_int i = (if i < 0 then CHR ''-'' # dec (nat (- i)) else dec (nat i))"

text \<open>\<open>f"{i:02d}"\<close>: the sign counts in the width.\<close>

definition two_digits :: "int \<Rightarrow> string" where
  "two_digits i = (if 0 \<le> i \<and> i < 10 then CHR ''0'' # str_int i else str_int i)"

fun digit_run :: "string \<Rightarrow> bool \<Rightarrow> nat \<Rightarrow> nat option" where
  "digit_run [] after_digit n = (if after_digit then Some n else None)"
| "digit_run (c # cs) after_digit n =
     (if is_digit c then digit_run cs True (10 * n + digit_value c)
      else if c = CHR ''_'' \<and> after_digit then digit_run cs False n else None)"

definition is_c_space :: "char \<Rightarrow> bool" where
  "is_c_space c \<longleftrightarrow> c \<in> {CHR '' '', CHR 0x09, CHR 0x0A, CHR 0x0B, CHR 0x0C, CHR 0x0D}"

definition strip_c :: "string \<Rightarrow> string" where
  "strip_c s = rev (dropWhile is_c_space (rev (dropWhile is_c_space s)))"

fun py_int_body :: "string \<Rightarrow> py_error + int" where
  "py_int_body (c # cs) =
     (if c = CHR ''-'' then (case digit_run cs False 0 of None \<Rightarrow> Inl ValueError | Some n \<Rightarrow> Inr (- int n))
      else case digit_run (if c = CHR ''+'' then cs else c # cs) False 0 of None \<Rightarrow> Inl ValueError | Some n \<Rightarrow> Inr (int n))"
| "py_int_body [] = Inl ValueError"

definition py_int :: "string \<Rightarrow> py_error + int" where
  "py_int s = py_int_body (strip_c s)"

subsection \<open>Reading a numeral back\<close>

lemma digit_of_cases: "n < 10 \<Longrightarrow> n \<in> {0, 1, 2, 3, 4, 5, 6, 7, 8, 9}" for n :: nat
  by auto

lemma digit_of_facts:
  assumes "n < 10"
  shows "is_digit (digit_of n)" and "digit_value (digit_of n) = n" and "\<not> is_c_space (digit_of n)"
    and "digit_of n \<notin> {CHR ''-'', CHR ''+'', CHR '':''}"
proof -
  have v: "of_char (digit_of n) = (48 + n :: nat)" using assms by (simp add: digit_of_def)
  have c: "(of_char c :: nat) \<noteq> 48 + n \<Longrightarrow> digit_of n \<noteq> c" for c using v by metis
  show "is_digit (digit_of n)" using v assms by (simp add: is_digit_def less_eq_char_def)
  show "digit_value (digit_of n) = n" using v by (simp add: digit_value_def)
  show "\<not> is_c_space (digit_of n)" unfolding is_c_space_def using assms by (simp add: c)
  show "digit_of n \<notin> {CHR ''-'', CHR ''+'', CHR '':''}" using assms by (simp add: c)
qed

lemma dec_not_empty [simp]: "dec n \<noteq> []"
  by (subst dec.simps) simp

lemma dec_digits: "c \<in> set (dec n) \<Longrightarrow> \<exists>k < 10. c = digit_of k"
proof (induction n rule: dec.induct)
  case (1 n)
  have "n mod 10 < 10" by simp
  then show ?case using 1 by (subst (asm) (2) dec.simps) (fastforce split: if_splits)
qed

lemma digit_run_dec: "digit_run (dec n @ cs) prev m = digit_run cs True (m * 10 ^ length (dec n) + n)"
proof (induction n arbitrary: cs prev m rule: dec.induct)
  case (1 n)
  show ?case
  proof (cases "n < 10")
    case True
    then have "dec n = [digit_of n]" by (subst dec.simps) simp
    then show ?thesis using True by (simp add: digit_of_facts algebra_simps)
  next
    case False
    then have d: "dec n = dec (n div 10) @ [digit_of (n mod 10)]" by (subst dec.simps) simp
    have k: "length (dec n) = Suc (length (dec (n div 10)))" by (simp add: d)
    have "digit_run (dec (n div 10) @ digit_of (n mod 10) # cs) prev m = digit_run cs True (m * 10 ^ length (dec n) + n)"
      by (simp only: 1 [OF False]) (simp add: digit_of_facts k algebra_simps)
    then show ?thesis by (subst d) simp
  qed
qed

lemma strip_c_dec [simp]: "strip_c (dec n) = dec n"
proof -
  have "\<not> is_c_space c" if "c \<in> set (dec n)" for c
    using dec_digits [OF that] digit_of_facts(3) by blast
  then have drop: "dropWhile is_c_space xs = xs" if "set xs \<subseteq> set (dec n)" for xs
    using that by (cases xs) auto
  show ?thesis by (simp add: strip_c_def drop)
qed

lemma py_int_dec [simp]: "py_int (dec n) = Inr (int n)"
proof -
  obtain c cs where d: "dec n = c # cs" by (cases "dec n") auto
  then have "\<exists>k < 10. c = digit_of k" using dec_digits [of c n] by simp
  then have "c \<noteq> CHR ''-''" and "c \<noteq> CHR ''+''" using digit_of_facts(4) by auto
  moreover have "digit_run (dec n) False 0 = Some n" using digit_run_dec [of n "[]" False 0] by simp
  ultimately show ?thesis unfolding py_int_def strip_c_dec using d by simp
qed

end
