(* ===== verification/Bencode.thy ===== *)
theory Bencode
  imports Decimal
begin

text \<open>
  Reading the info hash of a \<open>.torrent\<close> file (\<open>_bencode_str\<close>, \<open>_bencode_end\<close> and \<open>_bencode_info_hash\<close> of
  \<open>api/torrent/_base.py\<close>) against the format's own definition. A byte is a \<open>char\<close>. The recursion of the walker takes
  fuel, \<open>None\<close> being a walk that has not returned; \<open>bencode_fuel\<close> is enough on every input. SHA-1 is a parameter.
\<close>

subsection \<open>The walker\<close>

definition MAX_BENCODE_DEPTH :: nat where "MAX_BENCODE_DEPTH = 100"

text \<open>\<open>data.index(c, pos)\<close> and \<open>data[i:j]\<close>.\<close>

definition byte_index :: "char \<Rightarrow> string \<Rightarrow> nat \<Rightarrow> py_error + nat" where
  "byte_index c bs pos = (case List.find (\<lambda>i. bs ! i = c) [pos..<length bs] of None \<Rightarrow> Inl ValueError | Some i \<Rightarrow> Inr i)"

definition slice :: "string \<Rightarrow> nat \<Rightarrow> nat \<Rightarrow> string" where
  "slice bs i j = take (j - i) (drop i bs)"

text \<open>The bounds of the text of a byte string. Its length starts with a digit, so \<open>int\<close> gives no negative number.\<close>

definition string_bounds :: "string \<Rightarrow> nat \<Rightarrow> py_error + nat \<times> nat" where
  "string_bounds bs pos =
     raising_bind (byte_index CHR '':'' bs pos) (\<lambda>col.
     raising_bind (py_int (slice bs pos col)) (\<lambda>n.
       if col + 1 + nat n > length bs then Inl ValueError else Inr (col + 1, col + 1 + nat n)))"

definition bencode_str :: "string \<Rightarrow> nat \<Rightarrow> py_error + string \<times> nat" where
  "bencode_str bs pos =
     (if pos \<ge> length bs \<or> \<not> is_digit (bs ! pos) then Inl ValueError
      else raising_bind (string_bounds bs pos) (\<lambda>(i, j). Inr (slice bs i j, j)))"

fun bencode_end :: "nat \<Rightarrow> string \<Rightarrow> nat \<Rightarrow> nat \<Rightarrow> (py_error + nat) option"
  and bencode_items :: "nat \<Rightarrow> string \<Rightarrow> nat \<Rightarrow> nat \<Rightarrow> (py_error + nat) option" where
  "bencode_end 0 bs pos d = None"
| "bencode_end (Suc fuel) bs pos d =
     (if d > MAX_BENCODE_DEPTH then Some (Inl ValueError)
      else if pos \<ge> length bs then Some (Inl ValueError)
      else if bs ! pos = CHR ''d'' \<or> bs ! pos = CHR ''l'' then bencode_items fuel bs (Suc pos) d
      else if bs ! pos = CHR ''i'' then Some (raising_bind (byte_index CHR ''e'' bs (Suc pos)) (\<lambda>j. Inr (Suc j)))
      else if is_digit (bs ! pos) then Some (raising_bind (string_bounds bs pos) (\<lambda>(i, j). Inr j))
      else Some (Inl ValueError))"
| "bencode_items 0 bs pos d = None"
| "bencode_items (Suc fuel) bs pos d =
     (if pos \<ge> length bs then Some (Inl ValueError)
      else if bs ! pos = CHR ''e'' then Some (Inr (Suc pos))
      else case bencode_end fuel bs pos (Suc d) of
        None \<Rightarrow> None
      | Some (Inl e) \<Rightarrow> Some (Inl e)
      | Some (Inr p) \<Rightarrow> bencode_items fuel bs p d)"

definition bencode_fuel :: "string \<Rightarrow> nat" where
  "bencode_fuel bs = 2 * length bs + 2"

text \<open>The loop over the keys of the top-level dictionary: the bounds of the value of \<open>info\<close>.\<close>

fun info_bounds :: "nat \<Rightarrow> string \<Rightarrow> nat \<Rightarrow> (py_error + nat \<times> nat) option" where
  "info_bounds 0 bs pos = None"
| "info_bounds (Suc fuel) bs pos =
     (if pos < length bs \<and> bs ! pos \<noteq> CHR ''e'' then
        case bencode_str bs pos of
          Inl e \<Rightarrow> Some (Inl e)
        | Inr (key, p) \<Rightarrow>
            (case bencode_end (bencode_fuel bs) bs p 0 of
               None \<Rightarrow> None
             | Some (Inl e) \<Rightarrow> Some (Inl e)
             | Some (Inr q) \<Rightarrow> if key = ''info'' then Some (Inr (p, q)) else info_bounds fuel bs q)
      else Some (Inl ValueError))"

definition bencode_info_hash :: "(string \<Rightarrow> string) \<Rightarrow> string \<Rightarrow> (py_error + string) option" where
  "bencode_info_hash digest bs =
     (if take 1 bs \<noteq> ''d'' then Some (Inl ValueError)
      else map_option (\<lambda>r. raising_bind r (\<lambda>(i, j). Inr (digest (slice bs i j)))) (info_bounds (bencode_fuel bs) bs 1))"

subsection \<open>The walker returns\<close>

lemma byte_index_bounds: "byte_index c bs pos = Inr i \<Longrightarrow> pos \<le> i \<and> i < length bs \<and> bs ! i = c"
  by (auto simp: byte_index_def find_Some_iff split: option.splits)

lemma string_bounds_bounds: "string_bounds bs pos = Inr (i, j) \<Longrightarrow> pos < i \<and> i \<le> j \<and> j \<le> length bs"
  by (auto simp: string_bounds_def raising_bind_Inr dest!: byte_index_bounds split: if_splits)

lemma bencode_progress:
  "bencode_end fuel bs pos d = Some (Inr p) \<Longrightarrow> pos < p \<and> p \<le> length bs"
  "bencode_items fuel bs pos d = Some (Inr p) \<Longrightarrow> pos < p \<and> p \<le> length bs"
proof (induction fuel bs pos d and fuel bs pos d arbitrary: p and p rule: bencode_end_bencode_items.induct)
  case (2 fuel bs pos d)
  then show ?case
    by (auto simp: raising_bind_Inr dest: byte_index_bounds string_bounds_bounds split: if_splits)
next
  case (4 fuel bs pos d)
  then show ?case by (fastforce split: if_splits option.splits sum.splits)
qed simp_all

lemma bencode_returns:
  "fuel \<ge> 2 * (length bs - pos) + 1 \<Longrightarrow> bencode_end fuel bs pos d \<noteq> None"
  "fuel \<ge> 2 * (length bs - pos) + 2 \<Longrightarrow> bencode_items fuel bs pos d \<noteq> None"
proof (induction fuel bs pos d and fuel bs pos d rule: bencode_end_bencode_items.induct)
  case (4 fuel bs pos d)
  show ?case
  proof (cases "pos < length bs \<and> bs ! pos \<noteq> CHR ''e''")
    case True
    then have "bencode_end fuel bs pos (Suc d) \<noteq> None" using 4 by simp
    moreover have "bencode_items fuel bs p d \<noteq> None" if "bencode_end fuel bs pos (Suc d) = Some (Inr p)" for p
    proof -
      have "2 * (length bs - p) + 2 \<le> fuel" using bencode_progress(1) [OF that] 4(3) by linarith
      then show ?thesis using True 4(2) [OF _ _ that refl] by simp
    qed
    ultimately show ?thesis using True by (auto split: option.split sum.split)
  qed simp
qed simp_all

lemma bencode_str_bounds: "bencode_str bs pos = Inr (key, p) \<Longrightarrow> pos < p \<and> p \<le> length bs"
  by (auto simp: bencode_str_def raising_bind_Inr dest!: string_bounds_bounds split: if_splits)

lemma info_bounds_returns: "fuel \<ge> length bs - pos + 1 \<Longrightarrow> info_bounds fuel bs pos \<noteq> None"
proof (induction fuel bs pos rule: info_bounds.induct)
  case (2 fuel bs pos)
  show ?case
  proof (cases "pos < length bs \<and> bs ! pos \<noteq> CHR ''e''")
    case True
    have "info_bounds fuel bs q \<noteq> None"
      if str: "bencode_str bs pos = Inr (key, p)" and key: "key \<noteq> ''info''"
        and v: "bencode_end (bencode_fuel bs) bs p 0 = Some (Inr q)" for key p q
    proof -
      have "length bs - q + 1 \<le> fuel"
        using bencode_str_bounds [OF str] bencode_progress(1) [OF v] 2(2) by linarith
      then show ?thesis using True str key v by (intro 2(1)) auto
    qed
    moreover have returns: "bencode_end (bencode_fuel bs) bs p 0 \<noteq> None" for p
      by (rule bencode_returns) (simp add: bencode_fuel_def)
    ultimately show ?thesis using True by (simp split: sum.split option.split) (use returns in blast)
  qed auto
qed simp

text \<open>On every file the reader of the info hash returns: with its fuel it gives a hash or raises, also on a file
  that is cut, nested without end or no bencode at all.\<close>

theorem info_hash_returns: "\<exists>answer. bencode_info_hash digest bs = Some answer"
  using info_bounds_returns [of bs 1 "bencode_fuel bs"] by (auto simp: bencode_info_hash_def bencode_fuel_def)

subsection \<open>The format\<close>

datatype bvalue = BInt int | BBytes string | BList "bvalue list" | BDict "(string \<times> bvalue) list"

definition encode_bytes :: "string \<Rightarrow> string" where
  "encode_bytes s = dec (length s) @ CHR '':'' # s"

fun encode :: "bvalue \<Rightarrow> string" where
  "encode (BInt i) = CHR ''i'' # str_int i @ ''e''"
| "encode (BBytes s) = encode_bytes s"
| "encode (BList vs) = CHR ''l'' # concat (map encode vs) @ ''e''"
| "encode (BDict kvs) = CHR ''d'' # concat (map (\<lambda>(k, v). encode_bytes k @ encode v) kvs) @ ''e''"

text \<open>How deep the lists and dictionaries of a value are nested below it.\<close>

fun nesting :: "bvalue \<Rightarrow> nat" where
  "nesting (BInt _) = 0"
| "nesting (BBytes _) = 0"
| "nesting (BList vs) = (if vs = [] then 0 else Suc (Max (set (map nesting vs))))"
| "nesting (BDict kvs) = (if kvs = [] then 0 else Suc (Max (set (map (\<lambda>(k, v). nesting v) kvs))))"

subsection \<open>The walker on an encoded value\<close>

lemma slice_middle [simp]: "slice (pre @ xs @ post) (length pre) (length pre + length xs) = xs"
  by (simp add: slice_def)

lemma byte_index_middle:
  assumes "c \<notin> set xs"
  shows "byte_index c (pre @ xs @ c # post) (length pre) = Inr (length pre + length xs)"
proof -
  let ?bs = "pre @ xs @ c # post"
  have "[length pre..<length ?bs] = [length pre..<length pre + length xs] @ [length pre + length xs..<length ?bs]"
    using upt_add_eq_append [of "length pre" "length pre + length xs" "Suc (length post)"] by (simp add: add.assoc)
  moreover have "List.find (\<lambda>i. ?bs ! i = c) [length pre..<length pre + length xs] = None"
    using assms by (auto simp: find_None_iff nth_append)
  moreover have "[length pre + length xs..<length ?bs] = (length pre + length xs) # [Suc (length pre + length xs)..<length ?bs]"
    by (subst upt_conv_Cons) simp_all
  moreover have "?bs ! (length pre + length xs) = c" by (simp add: nth_append)
  moreover have "List.find P (ys @ zs) = (case List.find P ys of None \<Rightarrow> List.find P zs | Some y \<Rightarrow> Some y)"
    for P and ys zs :: "nat list" by (induction ys) simp_all
  ultimately show ?thesis by (simp add: byte_index_def)
qed

lemma not_in_dec: "\<not> is_digit c \<Longrightarrow> c \<notin> set (dec n)"
  using dec_digits digit_of_facts(1) by blast

lemma hd_dec: "is_digit (hd (dec n))"
  using hd_in_set [OF dec_not_empty] dec_digits digit_of_facts(1) by metis

lemma string_bounds_encoded:
  "string_bounds (pre @ encode_bytes s @ post) (length pre) =
     Inr (length pre + length (dec (length s)) + 1, length pre + length (encode_bytes s))"
proof -
  have "CHR '':'' \<notin> set (dec (length s))" by (rule not_in_dec) (simp add: is_digit_def)
  then have "byte_index CHR '':'' (pre @ dec (length s) @ CHR '':'' # s @ post) (length pre)
      = Inr (length pre + length (dec (length s)))" by (rule byte_index_middle)
  then show ?thesis by (simp add: string_bounds_def encode_bytes_def)
qed

lemma encode_bytes_nth: "is_digit ((pre @ encode_bytes s @ post) ! length pre)"
  using hd_dec [of "length s"] by (cases "dec (length s)") (simp_all add: encode_bytes_def nth_append)

lemma bencode_str_encoded:
  "bencode_str (pre @ encode_bytes s @ post) (length pre) = Inr (s, length pre + length (encode_bytes s))"
proof -
  have "slice (pre @ encode_bytes s @ post) (length pre + length (dec (length s)) + 1) (length pre + length (encode_bytes s)) = s"
    using slice_middle [of "pre @ dec (length s) @ '':''" s post] by (simp add: encode_bytes_def add.assoc)
  then show ?thesis
    using encode_bytes_nth [of pre s post] string_bounds_encoded [of pre s post]
    by (simp add: bencode_str_def) (simp add: encode_bytes_def)
qed

lemma encode_not_empty [simp]: "encode v \<noteq> []"
  by (cases v) (simp_all add: encode_bytes_def)

lemma encode_starts: "hd (encode v) \<noteq> CHR ''e''"
proof (cases v)
  case (BBytes s)
  have "hd (encode v) = hd (dec (length s))" by (simp add: BBytes encode_bytes_def)
  then show ?thesis using hd_dec [of "length s"] by (auto simp: is_digit_def)
qed simp_all

lemma walk_bytes:
  assumes "d \<le> MAX_BENCODE_DEPTH" and "fuel > 0"
  shows "bencode_end fuel (pre @ encode_bytes s @ post) (length pre) d = Some (Inr (length pre + length (encode_bytes s)))"
proof -
  obtain f where f: "fuel = Suc f" using assms(2) by (cases fuel) simp_all
  have "is_digit c \<Longrightarrow> c \<noteq> CHR ''d'' \<and> c \<noteq> CHR ''l'' \<and> c \<noteq> CHR ''i''" for c by (auto simp: is_digit_def)
  from this [OF encode_bytes_nth [of pre s post]] show ?thesis
    using assms(1) encode_bytes_nth [of pre s post] by (simp add: f string_bounds_encoded) (simp add: encode_bytes_def)
qed

lemma walk_int:
  assumes "d \<le> MAX_BENCODE_DEPTH" and "fuel > 0"
  shows "bencode_end fuel (pre @ encode (BInt i) @ post) (length pre) d = Some (Inr (length pre + length (encode (BInt i))))"
proof -
  obtain f where f: "fuel = Suc f" using assms(2) by (cases fuel) simp_all
  have "CHR ''e'' \<notin> set (str_int i)" by (auto simp: str_int_def not_in_dec is_digit_def)
  then have "byte_index CHR ''e'' ((pre @ ''i'') @ str_int i @ CHR ''e'' # post) (length (pre @ ''i'')) = Inr (length (pre @ ''i'') + length (str_int i))"
    by (rule byte_index_middle)
  then show ?thesis using assms(1) by (simp add: f nth_append)
qed

text \<open>The items of a list, each of which the walker passes.\<close>

lemma walk_items:
  assumes "\<And>v d fuel pre post. v \<in> set vs \<Longrightarrow> nesting v + d \<le> MAX_BENCODE_DEPTH \<Longrightarrow> 2 * length (encode v) \<le> fuel
      \<Longrightarrow> bencode_end fuel (pre @ encode v @ post) (length pre) d = Some (Inr (length pre + length (encode v)))"
    and "\<And>v. v \<in> set vs \<Longrightarrow> nesting v + Suc d \<le> MAX_BENCODE_DEPTH"
    and "2 * length (concat (map encode vs)) + 1 \<le> fuel"
  shows "bencode_items fuel (pre @ concat (map encode vs) @ CHR ''e'' # post) (length pre) d
    = Some (Inr (length pre + length (concat (map encode vs)) + 1))"
  using assms
proof (induction vs arbitrary: pre fuel)
  case Nil
  then obtain f where "fuel = Suc f" by (cases fuel) auto
  then show ?case by simp
next
  case (Cons v vs)
  let ?rest = "concat (map encode vs) @ CHR ''e'' # post"
  obtain f where f: "fuel = Suc f" using Cons.prems(3) by (cases fuel) auto
  have len: "length (encode v) > 0" by simp
  have here: "(pre @ encode v @ ?rest) ! length pre \<noteq> CHR ''e''"
    using encode_starts [of v] by (cases "encode v") (simp_all add: nth_append)
  have v: "bencode_end f (pre @ encode v @ ?rest) (length pre) (Suc d) = Some (Inr (length pre + length (encode v)))"
    using Cons.prems(3) len by (intro Cons.prems(1) Cons.prems(2)) (auto simp: f)
  have "bencode_items f ((pre @ encode v) @ ?rest) (length (pre @ encode v)) d
      = Some (Inr (length (pre @ encode v) + length (concat (map encode vs)) + 1))"
  proof (rule Cons.IH)
    have "2 * length (encode v) + 2 * length (concat (map encode vs)) + 1 \<le> Suc f" using Cons.prems(3) by (simp add: f)
    with len show "2 * length (concat (map encode vs)) + 1 \<le> f" by linarith
  qed (use Cons.prems(1,2) in auto)
  then show ?case using here v by (simp add: f add.assoc)
qed

lemma nesting_item:
  "v \<in> set vs \<Longrightarrow> nesting v < nesting (BList vs)"
  "(k, v) \<in> set kvs \<Longrightarrow> nesting v < nesting (BDict kvs)"
  by (force simp: less_Suc_eq_le intro!: Max_ge)+

lemma encode_pairs:
  "concat (map (\<lambda>(k, v). encode_bytes k @ encode v) kvs) = concat (map encode (concat (map (\<lambda>(k, v). [BBytes k, v]) kvs)))"
  by (induction kvs) auto

lemma encode_dict:
  "encode (BDict kvs) = CHR ''d'' # concat (map encode (concat (map (\<lambda>(k, v). [BBytes k, v]) kvs))) @ ''e''"
  by (simp only: encode.simps encode_pairs)

lemma walk_encoded:
  "nesting v + d \<le> MAX_BENCODE_DEPTH \<Longrightarrow> 2 * length (encode v) \<le> fuel \<Longrightarrow>
   bencode_end fuel (pre @ encode v @ post) (length pre) d = Some (Inr (length pre + length (encode v)))"
proof (induction v arbitrary: d fuel pre post)
  case (BInt i)
  then show ?case by (intro walk_int) auto
next
  case (BBytes s)
  have "encode_bytes s \<noteq> []" by (simp add: encode_bytes_def)
  then have "fuel > 0" using BBytes by (cases fuel) auto
  then show ?case using BBytes walk_bytes [of d fuel pre s post] by simp
next
  case (BList vs)
  then obtain f where f: "fuel = Suc f" by (cases fuel) auto
  have "bencode_items f ((pre @ ''l'') @ concat (map encode vs) @ CHR ''e'' # post) (length (pre @ ''l'')) d
      = Some (Inr (length (pre @ ''l'') + length (concat (map encode vs)) + 1))"
  proof (rule walk_items)
    show "nesting v + Suc d \<le> MAX_BENCODE_DEPTH" if "v \<in> set vs" for v
      using nesting_item(1) [OF that] BList.prems(1) by simp
    show "2 * length (concat (map encode vs)) + 1 \<le> f" using BList.prems(2) by (simp add: f)
  qed (use BList.IH in blast)
  then show ?case using BList.prems(1) by (simp add: f nth_append)
next
  case (BDict kvs)
  then obtain f where f: "fuel = Suc f" by (cases fuel) auto
  let ?vs = "concat (map (\<lambda>(k, v). [BBytes k, v]) kvs)"
  have item: "(\<exists>s. v = BBytes s) \<or> (\<exists>k. (k, v) \<in> set kvs)" if "v \<in> set ?vs" for v using that by auto
  have "bencode_items f ((pre @ ''d'') @ concat (map encode ?vs) @ CHR ''e'' # post) (length (pre @ ''d'')) d
      = Some (Inr (length (pre @ ''d'') + length (concat (map encode ?vs)) + 1))"
  proof (rule walk_items)
    show "nesting v + Suc d \<le> MAX_BENCODE_DEPTH" if "v \<in> set ?vs" for v
    proof -
      have "nesting v < nesting (BDict kvs)" using item [OF that] nesting_item(2) that by fastforce
      then show ?thesis using BDict.prems(1) by simp
    qed
    show "2 * length (concat (map encode ?vs)) + 1 \<le> f" using BDict.prems(2) by (simp add: f encode_dict del: encode.simps)
    show "bencode_end g (pre @ encode v @ post) (length pre) e = Some (Inr (length pre + length (encode v)))"
      if v: "v \<in> set ?vs" and e: "nesting v + e \<le> MAX_BENCODE_DEPTH" and g: "2 * length (encode v) \<le> g" for v e g pre post
      using item [OF v]
    proof
      assume "\<exists>s. v = BBytes s"
      then obtain s where s: "v = BBytes s" ..
      have "encode_bytes s \<noteq> []" by (simp add: encode_bytes_def)
      then have "g > 0" using g by (cases g) (auto simp: s)
      then show ?thesis using e walk_bytes [of e g pre s post] by (simp add: s)
    next
      assume "\<exists>k. (k, v) \<in> set kvs"
      then show ?thesis using BDict.IH e g by fastforce
    qed
  qed
  then show ?case using BDict.prems(1) by (simp add: f nth_append encode_dict del: encode.simps)
qed

subsection \<open>The info hash of an encoded dictionary\<close>

lemma info_bounds_encoded:
  assumes "bs = pre @ concat (map (\<lambda>(k, v). encode_bytes k @ encode v) kvs) @ CHR ''e'' # junk"
    and "\<And>v. v \<in> snd ` set kvs \<Longrightarrow> nesting v \<le> MAX_BENCODE_DEPTH" and "length kvs < fuel"
  shows "case map_of kvs ''info'' of
      None \<Rightarrow> info_bounds fuel bs (length pre) = Some (Inl ValueError)
    | Some v \<Rightarrow> \<exists>p q. info_bounds fuel bs (length pre) = Some (Inr (p, q)) \<and> slice bs p q = encode v"
  using assms
proof (induction kvs arbitrary: pre fuel)
  case Nil
  then obtain f where "fuel = Suc f" by (cases fuel) auto
  then show ?case by (simp add: Nil.prems(1))
next
  case (Cons kv kvs)
  obtain k v where kv: "kv = (k, v)" by (cases kv)
  obtain f where f: "fuel = Suc f" using Cons.prems(3) by (cases fuel) auto
  let ?rest = "concat (map (\<lambda>(k, v). encode_bytes k @ encode v) kvs) @ CHR ''e'' # junk"
  have bs: "bs = pre @ encode_bytes k @ encode v @ ?rest" using Cons.prems(1) by (simp add: kv)
  let ?p = "length (pre @ encode_bytes k)" and ?q = "length (pre @ encode_bytes k @ encode v)"
  have here: "length pre < length bs" "bs ! length pre \<noteq> CHR ''e''"
    using encode_bytes_nth [of pre k "encode v @ ?rest"] by (auto simp: bs is_digit_def)
  have key: "bencode_str bs (length pre) = Inr (k, ?p)"
    using bencode_str_encoded [of pre k "encode v @ ?rest"] by (simp add: bs)
  have val: "bencode_end (bencode_fuel bs) bs ?p 0 = Some (Inr ?q)"
  proof -
    have "nesting v + 0 \<le> MAX_BENCODE_DEPTH" using Cons.prems(2) [of v] by (simp add: kv)
    moreover have "2 * length (encode v) \<le> bencode_fuel bs" by (simp add: bencode_fuel_def bs)
    ultimately show ?thesis using walk_encoded [of v 0 "bencode_fuel bs" "pre @ encode_bytes k" ?rest] by (simp add: bs add.assoc)
  qed
  show ?case
  proof (cases "k = ''info''")
    case True
    have "slice bs ?p ?q = encode v" using slice_middle [of "pre @ encode_bytes k" "encode v" ?rest] by (simp add: bs add.assoc)
    then show ?thesis using here key val True by (simp add: f kv del: length_append)
  next
    case False
    have "case map_of kvs ''info'' of
        None \<Rightarrow> info_bounds f bs ?q = Some (Inl ValueError)
      | Some v \<Rightarrow> \<exists>p q. info_bounds f bs ?q = Some (Inr (p, q)) \<and> slice bs p q = encode v"
      by (rule Cons.IH) (use Cons.prems(2,3) in \<open>auto simp: bs f\<close>)
    moreover have "info_bounds fuel bs (length pre) = info_bounds f bs ?q"
      using here key val False by (simp add: f del: length_append)
    ultimately show ?thesis using False by (cases "map_of kvs ''info''") (simp_all add: kv del: length_append)
  qed
qed

text \<open>C21: the hash of a torrent file is the hash of the bytes of its own \<open>info\<close> value: for every bencoded dictionary,
  whatever its other keys and values hold (also the text of a forged \<open>4:info\<close> key inside a value), the reader hashes
  the encoding of the value stored under \<open>info\<close>, and raises when there is none.\<close>

theorem info_hash_is_of_the_info:
  assumes "\<And>v. v \<in> snd ` set kvs \<Longrightarrow> nesting v \<le> MAX_BENCODE_DEPTH"
  shows "bencode_info_hash digest (encode (BDict kvs) @ junk) =
    Some (case map_of kvs ''info'' of None \<Rightarrow> Inl ValueError | Some v \<Rightarrow> Inr (digest (encode v)))"
proof -
  let ?pairs = "concat (map (\<lambda>(k, v). encode_bytes k @ encode v) kvs)"
  let ?bs = "''d'' @ ?pairs @ CHR ''e'' # junk"
  have "length kvs \<le> length ?pairs" by (induction kvs) (auto simp: encode_bytes_def)
  then have "length kvs < bencode_fuel ?bs" by (simp add: bencode_fuel_def)
  note found = info_bounds_encoded [where pre = "''d''", OF refl assms this, where junk = junk]
  show ?thesis using found by (cases "map_of kvs ''info''") (auto simp: bencode_info_hash_def)
qed

definition sample_torrent :: "(string \<times> bvalue) list" where
  "sample_torrent = [(''comment'', BBytes ''4:infoi1e''), (''info'', BDict [(''length'', BInt 12)])]"

lemma info_hash_is_of_the_info_witness:
  "bencode_info_hash (\<lambda>bs. bs) ''d7:comment9:4:infoi1e4:infod6:lengthi12eee'' = Some (Inr ''d6:lengthi12ee'')"
proof -
  have "nesting v \<le> MAX_BENCODE_DEPTH" if "v \<in> snd ` set sample_torrent" for v
    using that by (auto simp: sample_torrent_def MAX_BENCODE_DEPTH_def)
  note info_hash_is_of_the_info [where kvs = sample_torrent, OF this, where digest = "\<lambda>bs. bs" and junk = "[]"]
  moreover have "encode (BDict sample_torrent) @ [] = ''d7:comment9:4:infoi1e4:infod6:lengthi12eee''" by code_simp
  moreover have "map_of sample_torrent ''info'' = Some (BDict [(''length'', BInt 12)])" by (simp add: sample_torrent_def)
  moreover have "encode (BDict [(''length'', BInt 12)]) = ''d6:lengthi12ee''" by code_simp
  ultimately show ?thesis by (simp del: encode.simps)
qed

end
