(* ===== verification/Torrent_Source.thy ===== *)
theory Torrent_Source
  imports Bencode
begin

text \<open>
  What a grab hands to the torrent client: the source of a torrent and its info hash, the scope of an instance in a
  shared client (\<open>api/torrent/_base.py\<close>, \<open>conf/models/api_config.py\<close>). SHA-1 is the parameter \<open>digest\<close>.
\<close>

subsection \<open>Hashes in texts\<close>

definition is_hex :: "char \<Rightarrow> bool" where
  "is_hex c \<longleftrightarrow> is_digit c \<or> (CHR ''a'' \<le> c \<and> c \<le> CHR ''f'') \<or> (CHR ''A'' \<le> c \<and> c \<le> CHR ''F'')"

definition is_base32 :: "char \<Rightarrow> bool" where
  "is_base32 c \<longleftrightarrow> (CHR ''a'' \<le> c \<and> c \<le> CHR ''z'') \<or> is_upper c \<or> (CHR ''2'' \<le> c \<and> c \<le> CHR ''7'')"

text \<open>\<open>base64.b32decode(s.upper()).hex()\<close> of 32 characters: 160 bits as 40 hexadecimal digits.\<close>

definition base32_value :: "char \<Rightarrow> nat" where
  "base32_value c = (if is_digit c then of_char c - of_char CHR ''2'' + 26
     else if is_upper c then of_char c - of_char CHR ''A'' else of_char c - of_char CHR ''a'')"

fun hex_digits :: "nat \<Rightarrow> nat \<Rightarrow> string" where
  "hex_digits 0 n = []"
| "hex_digits (Suc k) n = hex_digits k (n div 16) @ [''0123456789abcdef'' ! (n mod 16)]"

definition base32_hex :: "string \<Rightarrow> string" where
  "base32_hex s = hex_digits 40 (foldl (\<lambda>n c. 32 * n + base32_value c) 0 s)"

definition canonical_info_hash :: "string \<Rightarrow> py_error + string" where
  "canonical_info_hash s =
     (let s = strip s
      in if length s = 40 \<and> list_all is_hex s then Inr (lower s)
         else if length s = 32 \<and> list_all is_base32 s then Inr (base32_hex s)
         else Inl ValueError)"

text \<open>\<open>re.search\<close> of a pattern that starts with \<open>urn:btih:\<close>: the leftmost place where the rest matches.\<close>

fun search_btih :: "(string \<Rightarrow> string option) \<Rightarrow> string \<Rightarrow> string option" where
  "search_btih rest [] = None"
| "search_btih rest (c # cs) =
     (if take 9 (c # cs) = ''urn:btih:'' \<and> rest (drop 9 (c # cs)) \<noteq> None then rest (drop 9 (c # cs)) else search_btih rest cs)"

definition hex_40 :: "string \<Rightarrow> string option" where
  "hex_40 s = (if length s \<ge> 40 \<and> list_all is_hex (take 40 s) then Some (take 40 s) else None)"

definition base32_32 :: "string \<Rightarrow> string option" where
  "base32_32 s =
     (if length s \<ge> 32 \<and> list_all is_base32 (take 32 s) \<and> (drop 32 s = [] \<or> \<not> is_base32 (hd (drop 32 s)))
      then Some (take 32 s) else None)"

definition parse_magnet_hash :: "string \<Rightarrow> py_error + string" where
  "parse_magnet_hash uri =
     (case search_btih hex_40 uri of
        Some h \<Rightarrow> Inr (lower h)
      | None \<Rightarrow> (case search_btih base32_32 uri of Some h \<Rightarrow> Inr (base32_hex h) | None \<Rightarrow> Inl ValueError))"

subsection \<open>Sources\<close>

datatype torrent_source = Magnet string | File_Bytes string

text \<open>The reader of a file always returns (theory \<open>Bencode\<close>); the first case is never taken.\<close>

definition file_info_hash :: "(string \<Rightarrow> string) \<Rightarrow> string \<Rightarrow> py_error + string" where
  "file_info_hash digest bs = (case bencode_info_hash digest bs of None \<Rightarrow> Inl ValueError | Some r \<Rightarrow> r)"

fun source_info_hash :: "(string \<Rightarrow> string) \<Rightarrow> torrent_source \<Rightarrow> py_error + string" where
  "source_info_hash digest (Magnet uri) = parse_magnet_hash uri"
| "source_info_hash digest (File_Bytes bs) = file_info_hash digest bs"

record torrent_limits =
  down_bytes_per_s :: "int option"
  up_bytes_per_s :: "int option"

subsection \<open>The scope of an instance\<close>

record torrent_scope =
  scope_category :: string
  download_root :: string
  instance_tags :: "string list"
  v0_seed_pure :: bool

definition SEED_PURE :: string where "SEED_PURE = ''seed-pure''"
definition SEED_ONLY :: string where "SEED_ONLY = ''seed-only''"

definition v0_tags :: "torrent_scope \<Rightarrow> string list" where
  "v0_tags sc = (if v0_seed_pure sc then [SEED_PURE] else [])"

definition grab_tags :: "torrent_scope \<Rightarrow> string list" where
  "grab_tags sc = instance_tags sc @ v0_tags sc"

definition cross_seed_tags :: "torrent_scope \<Rightarrow> string list" where
  "cross_seed_tags sc = instance_tags sc @ [SEED_ONLY] @ v0_tags sc"

text \<open>The columns of \<open>TorrentItem\<close> the acquisition reads.\<close>

record torrent_item =
  torrent_hash :: string
  torrent_name :: string
  torrent_size :: int
  torrent_category :: "string option"
  torrent_tags :: "string list"
  torrent_ratio :: real
  seeding_time :: "int option"
  progress :: real
  torrent_state :: string
  error_reason :: "string option"
  swarm_seeds :: "int option"
  added_on :: "real option"

definition scoped :: "torrent_item list \<Rightarrow> torrent_scope option \<Rightarrow> torrent_item list" where
  "scoped items sc = (case sc of None \<Rightarrow> items | Some sc \<Rightarrow> filter (\<lambda>x. torrent_category x = Some (scope_category sc)) items)"

text \<open>\<open>lookup_scoped\<close>, of the client's answer: the instance's own torrents, and the hashes of the others.\<close>

definition lookup_scoped :: "torrent_item list \<Rightarrow> torrent_scope option \<Rightarrow> torrent_item list \<times> string set" where
  "lookup_scoped items sc = (case sc of
     None \<Rightarrow> (items, {})
   | Some _ \<Rightarrow> (scoped items sc, set (map (\<lambda>x. lower (torrent_hash x)) (filter (\<lambda>x. x \<notin> set (scoped items sc)) items))))"

definition in_sandbox :: "string option \<Rightarrow> string list \<Rightarrow> bool" where
  "in_sandbox category sandboxes = (case category of
     None \<Rightarrow> False
   | Some c \<Rightarrow> c \<noteq> [] \<and> list_ex (\<lambda>s. c = s \<or> take (length s + 1) c = s @ ''/'') sandboxes)"

definition triage_skip_reason :: "torrent_item \<Rightarrow> torrent_scope option \<Rightarrow> string option" where
  "triage_skip_reason x sc = (case sc of
     None \<Rightarrow> if SEED_PURE \<in> set (torrent_tags x) then Some ''seed_pure'' else None
   | Some sc \<Rightarrow>
       if torrent_category x \<noteq> Some (scope_category sc) \<or> \<not> set (instance_tags sc) \<subseteq> set (torrent_tags x) then Some ''not_own''
       else if SEED_ONLY \<in> set (torrent_tags x) then Some ''seed_only'' else None)"

text \<open>\<open>os.path.normpath\<close>: how many slashes a path starts with, and its normalised components.\<close>

fun split_char :: "char \<Rightarrow> string \<Rightarrow> string list" where
  "split_char c [] = [[]]"
| "split_char c (x # xs) = (if x = c then [] # split_char c xs else (x # hd (split_char c xs)) # tl (split_char c xs))"

definition norm_component :: "bool \<Rightarrow> string list \<Rightarrow> string \<Rightarrow> string list" where
  "norm_component rooted acc c =
     (if c = [] \<or> c = ''.'' then acc
      else if c \<noteq> ''..'' \<or> (\<not> rooted \<and> acc = []) \<or> (acc \<noteq> [] \<and> last acc = ''..'') then acc @ [c]
      else butlast acc)"

definition norm_path :: "string \<Rightarrow> nat \<times> string list" where
  "norm_path p =
     (let slashes = (if take 1 p \<noteq> ''/'' then 0 else if take 2 p = ''//'' \<and> take 3 p \<noteq> ''///'' then 2 else 1)
      in (slashes, foldl (norm_component (slashes > 0)) [] (split_char CHR ''/'' p)))"

definition is_under_download_root :: "string \<Rightarrow> torrent_scope \<Rightarrow> bool" where
  "is_under_download_root p sc \<longleftrightarrow> strip p \<noteq> [] \<and> fst (norm_path p) = fst (norm_path (download_root sc))
     \<and> take (length (snd (norm_path (download_root sc)))) (snd (norm_path p)) = snd (norm_path (download_root sc))"

end
