(* ===== verification/Fetch.thy ===== *)
theory Fetch
  imports Releases Torrent_Source
begin

text \<open>
  From a release to the source of its torrent (\<open>api/tracker/_fetch.py\<close>) and the walk over the best releases
  (\<open>acquire/_resolve_walk.py\<close>). Parameters: SHA-1 (\<open>digest\<close>) and what each tracker's transport downloads.
\<close>

datatype api_raise = CircuitOpenError | TrackerAuthError nat | TorrentFetchError | ApiError nat

datatype get_raise = GetCircuitOpen | GetApiError nat | GetValueError

type_synonym transport = "string \<Rightarrow> get_raise + string"

definition AUTH_HTTP_STATUSES :: "nat set" where "AUTH_HTTP_STATUSES = {401, 403}"

definition is_magnet :: "string \<Rightarrow> bool" where
  "is_magnet url \<longleftrightarrow> take 7 (lower url) = ''magnet:''"

fun download_raise :: "get_raise \<Rightarrow> api_raise" where
  "download_raise GetCircuitOpen = CircuitOpenError"
| "download_raise (GetApiError status) = (if status \<in> AUTH_HTTP_STATUSES then TrackerAuthError status else ApiError status)"
| "download_raise GetValueError = TorrentFetchError"

definition hash_mismatch :: "string option \<Rightarrow> string \<Rightarrow> bool" where
  "hash_mismatch expected h = (case expected of
     None \<Rightarrow> False
   | Some e \<Rightarrow> e \<noteq> [] \<and> (case canonical_info_hash e of Inl _ \<Rightarrow> False | Inr c \<Rightarrow> c \<noteq> h))"

definition fetch_torrent_source :: "(string \<Rightarrow> string) \<Rightarrow> string \<Rightarrow> transport \<Rightarrow> string option \<Rightarrow> api_raise + torrent_source" where
  "fetch_torrent_source digest url get_bytes expected =
     (if is_magnet url then Inr (Magnet url)
      else if url = [] then Inl TorrentFetchError
      else case get_bytes url of
        Inl e \<Rightarrow> Inl (download_raise e)
      | Inr body \<Rightarrow>
          if body = [] then Inl TorrentFetchError
          else case file_info_hash digest body of
            Inl _ \<Rightarrow> Inl TorrentFetchError
          | Inr h \<Rightarrow> if hash_mismatch expected h then Inl TorrentFetchError else Inr (File_Bytes body))"

definition resolve_source :: "(string \<Rightarrow> string) \<Rightarrow> (string \<rightharpoonup> transport) \<Rightarrow> release \<Rightarrow> api_raise + torrent_source" where
  "resolve_source digest transports r = (case download_url r of
     None \<Rightarrow> Inl TorrentFetchError
   | Some url \<Rightarrow>
       if is_magnet url then Inr (Magnet url)
       else if url = [] then Inl TorrentFetchError
       else case transports (provider r) of
         None \<Rightarrow> Inl TorrentFetchError
       | Some get_bytes \<Rightarrow> fetch_torrent_source digest url get_bytes (info_hash r))"

subsection \<open>The walk over the best releases\<close>

definition FETCH_FALLBACK_CANDIDATES :: nat where "FETCH_FALLBACK_CANDIDATES = 3"

datatype resolve_attempt =
    Resolved torrent_source release
  | Unresolved release "api_raise option"

text \<open>The loop keeps the first fetch error unless another error comes later, which it keeps instead, with its release.\<close>

fun resolve_walk :: "(release \<Rightarrow> api_raise + torrent_source) \<Rightarrow> release \<Rightarrow> release list \<Rightarrow> (release \<times> api_raise) option
    \<Rightarrow> resolve_attempt" where
  "resolve_walk resolve best [] kept =
     (case kept of None \<Rightarrow> Unresolved best None | Some (culprit, e) \<Rightarrow> Unresolved culprit (Some e))"
| "resolve_walk resolve best (r # rs) kept =
     (case resolve r of
        Inr source \<Rightarrow> Resolved source r
      | Inl TorrentFetchError \<Rightarrow> resolve_walk resolve best rs (if kept = None then Some (r, TorrentFetchError) else kept)
      | Inl e \<Rightarrow> resolve_walk resolve best rs (Some (r, e)))"

definition resolve_first_available :: "(release \<Rightarrow> api_raise + torrent_source) \<Rightarrow> (release \<times> int) list \<Rightarrow> release \<Rightarrow> resolve_attempt" where
  "resolve_first_available resolve ranked best =
     resolve_walk resolve best (map fst (take FETCH_FALLBACK_CANDIDATES ranked)) None"

lemma resolve_walk_Resolved:
  "resolve_walk resolve best rs kept = Resolved source r \<Longrightarrow> r \<in> set rs \<and> resolve r = Inr source"
  by (induction rs arbitrary: kept) (auto split: sum.splits api_raise.splits option.splits)

lemma resolve_first_available_Resolved:
  assumes "resolve_first_available resolve ranked best = Resolved source r"
  shows "r \<in> fst ` set ranked \<and> resolve r = Inr source"
  using resolve_walk_Resolved [OF assms [unfolded resolve_first_available_def]] set_take_subset [of FETCH_FALLBACK_CANDIDATES ranked]
  by auto

text \<open>A torrent file fetched for a release that names a readable hash has that hash.\<close>

lemma fetched_file_has_the_hash:
  assumes "resolve_source digest transports r = Inr (File_Bytes body)"
    and "info_hash r = Some h" and "canonical_info_hash h = Inr c"
  shows "source_info_hash digest (File_Bytes body) = Inr c"
proof -
  have "h \<noteq> []" using assms(3) by (auto simp: canonical_info_hash_def Let_def strip_def split: if_splits)
  then show ?thesis
    using assms by (auto simp: resolve_source_def fetch_torrent_source_def hash_mismatch_def
        split: option.splits if_splits sum.splits)
qed

end
