(* ===== verification/Download_Marks.thy ===== *)
theory Download_Marks
  imports Prelude
begin

text \<open>
  The marks of the downloads (\<open>acquire/_download_marks.py\<close>): what was already announced of a torrent, kept by its
  lower-cased hash, and claimed by a compare-and-set. The column \<open>updated_at\<close>, which nothing reads, is not modelled.
\<close>

record download_mark =
  mark_hash :: string
  started_emitted :: bool
  last_threshold :: int
  completed_emitted :: bool

type_synonym mark_table = "download_mark list"

definition fresh_mark :: "string \<Rightarrow> download_mark" where
  "fresh_mark h = \<lparr>mark_hash = h, started_emitted = False, last_threshold = 0, completed_emitted = False\<rparr>"

definition get_mark :: "string \<Rightarrow> mark_table \<Rightarrow> download_mark option" where
  "get_mark h ms = sql_first (\<lambda>m. mark_hash m = lower h) ms"

text \<open>\<open>INSERT OR IGNORE\<close>: the hash is the primary key.\<close>

definition with_mark :: "string \<Rightarrow> mark_table \<Rightarrow> mark_table" where
  "with_mark h ms = (if \<exists>m \<in> set ms. mark_hash m = h then ms else ms @ [fresh_mark h])"

definition set_if_given :: "'a option \<Rightarrow> 'a \<Rightarrow> 'a" where
  "set_if_given x y = (case x of None \<Rightarrow> y | Some z \<Rightarrow> z)"

definition upsert_mark :: "string \<Rightarrow> bool option \<Rightarrow> int option \<Rightarrow> bool option \<Rightarrow> mark_table \<Rightarrow> mark_table" where
  "upsert_mark h started threshold completed ms = sql_update (\<lambda>m. mark_hash m = lower h)
     (\<lambda>m. m\<lparr>started_emitted := set_if_given started (started_emitted m), last_threshold := set_if_given threshold (last_threshold m),
            completed_emitted := set_if_given completed (completed_emitted m)\<rparr>) (with_mark (lower h) ms)"

definition claim_mark :: "string \<Rightarrow> (download_mark \<Rightarrow> bool) \<Rightarrow> (download_mark \<Rightarrow> download_mark) \<Rightarrow> mark_table \<Rightarrow> bool \<times> mark_table" where
  "claim_mark h P f ms =
     (let ms = with_mark h ms; Q = (\<lambda>m. mark_hash m = h \<and> P m) in (sql_count Q ms = 1, sql_update Q f ms))"

definition try_mark_started :: "string \<Rightarrow> mark_table \<Rightarrow> bool \<times> mark_table" where
  "try_mark_started h = claim_mark (lower h) (\<lambda>m. \<not> started_emitted m) (\<lambda>m. m\<lparr>started_emitted := True\<rparr>)"

definition try_mark_completed :: "string \<Rightarrow> mark_table \<Rightarrow> bool \<times> mark_table" where
  "try_mark_completed h = claim_mark (lower h) (\<lambda>m. \<not> completed_emitted m) (\<lambda>m. m\<lparr>started_emitted := True, completed_emitted := True\<rparr>)"

definition try_advance_threshold :: "string \<Rightarrow> int \<Rightarrow> mark_table \<Rightarrow> bool \<times> mark_table" where
  "try_advance_threshold h threshold = claim_mark (lower h) (\<lambda>m. last_threshold m < threshold \<and> \<not> completed_emitted m)
     (\<lambda>m. m\<lparr>last_threshold := threshold\<rparr>)"

definition prune_stale :: "string set \<Rightarrow> mark_table \<Rightarrow> nat \<times> mark_table" where
  "prune_stale active ms =
     (sql_count (\<lambda>m. mark_hash m \<notin> lower ` active) ms, filter (\<lambda>m. mark_hash m \<in> lower ` active) ms)"

subsection \<open>What was announced of a hash\<close>

text \<open>The row of a hash, or the one it would be given.\<close>

definition mark_of :: "string \<Rightarrow> mark_table \<Rightarrow> download_mark" where
  "mark_of h ms = (case sql_first (\<lambda>m. mark_hash m = h) ms of None \<Rightarrow> fresh_mark h | Some m \<Rightarrow> m)"

definition marks_ok :: "mark_table \<Rightarrow> bool" where
  "marks_ok ms \<longleftrightarrow> distinct (map mark_hash ms)"

end
