(* ===== verification/Acquire_Store.thy ===== *)
theory Acquire_Store
  imports Wanted_Store Decimal Download_Marks
begin

text \<open>
  The other tables of \<open>acquire.db\<close> (\<open>acquire/store.py\<close>, \<open>_aired_store.py\<close>): the followed titles, the aired episodes
  of a series and the seed obligations; and the whole database, with the log of what the passes emit or write in the
  tables of other components.
\<close>

subsection \<open>Followed titles\<close>

datatype follow_kind = FOLLOW_MOVIE | FOLLOW_SHOW

record followed =
  follow_id :: int
  follow_ref :: media_ref
  follow_title :: string
  added_at :: int
  follow_active :: bool
  quality_profile_text :: "json_text option"
  cadence_text :: "json_text option"
  follow_kind :: follow_kind
  follow_year :: "int option"
  original_title :: "string option"
  replace_owned :: bool
  series_status :: "string option"
  poster_url :: "string option"
  overview :: "string option"

type_synonym follow_table = "followed list"

definition next_follow_id :: "follow_table \<Rightarrow> int" where
  "next_follow_id fs = Max (insert 0 (set (map follow_id fs))) + 1"

text \<open>\<open>COALESCE(a, b)\<close> and \<open>INSERT ... ON CONFLICT(media_ref_json) DO UPDATE ... RETURNING id\<close>.\<close>

definition coalesce :: "'a option \<Rightarrow> 'a option \<Rightarrow> 'a option" where
  "coalesce a b = (case a of None \<Rightarrow> b | Some x \<Rightarrow> Some x)"

definition refollow :: "followed \<Rightarrow> followed \<Rightarrow> followed" where
  "refollow new old = old\<lparr>follow_active := True, follow_title := follow_title new, follow_kind := follow_kind new,
     replace_owned := (replace_owned old \<or> replace_owned new), original_title := coalesce (original_title new) (original_title old)\<rparr>"

definition add_follow :: "followed \<Rightarrow> follow_table \<Rightarrow> int \<times> follow_table" where
  "add_follow f fs =
     (case sql_first (\<lambda>r. follow_ref r = follow_ref f) fs of
        Some r \<Rightarrow> (follow_id r, sql_update (\<lambda>r. follow_ref r = follow_ref f) (refollow f) fs)
      | None \<Rightarrow> (next_follow_id fs,
          fs @ [f\<lparr>follow_id := next_follow_id fs, series_status := None, poster_url := None, overview := None\<rparr>]))"

definition get_follow :: "int \<Rightarrow> follow_table \<Rightarrow> followed option" where
  "get_follow i fs = sql_first (\<lambda>r. follow_id r = i) fs"

definition find_follow :: "media_ref \<Rightarrow> follow_table \<Rightarrow> followed option" where
  "find_follow ref fs =
     (if tvdb_id ref \<noteq> None then sql_first (\<lambda>r. tvdb_id (follow_ref r) = tvdb_id ref) fs
      else if tmdb_id ref \<noteq> None then sql_first (\<lambda>r. tmdb_id (follow_ref r) = tmdb_id ref) fs
      else if imdb_id ref \<noteq> None then sql_first (\<lambda>r. imdb_id (follow_ref r) = imdb_id ref) fs
      else None)"

definition list_active :: "follow_table \<Rightarrow> followed list" where
  "list_active fs = filter follow_active fs"

definition set_follow :: "int \<Rightarrow> (followed \<Rightarrow> followed) \<Rightarrow> follow_table \<Rightarrow> follow_table" where
  "set_follow i f fs = sql_update (\<lambda>r. follow_id r = i) f fs"

definition set_active :: "int \<Rightarrow> bool \<Rightarrow> follow_table \<Rightarrow> follow_table" where
  "set_active i b = set_follow i (\<lambda>r. r\<lparr>follow_active := b\<rparr>)"

definition set_replace_owned :: "int \<Rightarrow> bool \<Rightarrow> follow_table \<Rightarrow> follow_table" where
  "set_replace_owned i b = set_follow i (\<lambda>r. r\<lparr>replace_owned := b\<rparr>)"

definition clear_replace_owned :: "int \<Rightarrow> follow_table \<Rightarrow> follow_table" where
  "clear_replace_owned i = set_follow i (\<lambda>r. r\<lparr>replace_owned := False\<rparr>)"

definition set_series_status :: "int \<Rightarrow> string \<Rightarrow> follow_table \<Rightarrow> follow_table" where
  "set_series_status i st = set_follow i (\<lambda>r. r\<lparr>series_status := Some st\<rparr>)"

definition set_titles :: "int \<Rightarrow> string \<Rightarrow> string \<Rightarrow> follow_table \<Rightarrow> follow_table" where
  "set_titles i title original = set_follow i (\<lambda>r. r\<lparr>follow_title := title, original_title := Some original\<rparr>)"

definition set_kind :: "int \<Rightarrow> follow_kind \<Rightarrow> follow_table \<Rightarrow> follow_table" where
  "set_kind i k = set_follow i (\<lambda>r. r\<lparr>follow_kind := k\<rparr>)"

definition set_cadence :: "int \<Rightarrow> json_text option \<Rightarrow> follow_table \<Rightarrow> follow_table" where
  "set_cadence i c = set_follow i (\<lambda>r. r\<lparr>cadence_text := c\<rparr>)"

text \<open>SQLite's \<open>trim\<close> removes blanks only.\<close>

definition merge_metadata :: "int \<Rightarrow> string option \<Rightarrow> string option \<Rightarrow> int option \<Rightarrow> string option \<Rightarrow> string option
    \<Rightarrow> follow_table \<Rightarrow> follow_table" where
  "merge_metadata i poster text year title original = set_follow i (\<lambda>r. r\<lparr>
     poster_url := coalesce poster (poster_url r), overview := coalesce text (overview r), follow_year := coalesce year (follow_year r),
     follow_title := (if list_all (\<lambda>c. c = CHR '' '') (follow_title r)
       then (case title of None \<Rightarrow> follow_title r | Some t \<Rightarrow> t) else follow_title r),
     original_title := coalesce original (original_title r)\<rparr>)"

subsection \<open>Aired episodes\<close>

record aired_row =
  aired_followed :: int
  aired_season :: int
  aired_episode :: int
  aired_title :: "string option"
  air_date :: string

type_synonym aired_table = "aired_row list"

text \<open>The first of two episodes with one number is kept; reading orders by season, then episode.\<close>

fun first_episodes :: "(int \<times> int \<times> string option \<times> string) list \<Rightarrow> (int \<times> int \<times> string option \<times> string) list" where
  "first_episodes [] = []"
| "first_episodes ((s, e, t, d) # xs) = (s, e, t, d) # filter (\<lambda>(s', e', _). (s', e') \<noteq> (s, e)) (first_episodes xs)"

definition replace_for_followed :: "int \<Rightarrow> (int \<times> int \<times> string option \<times> string) list \<Rightarrow> aired_table \<Rightarrow> nat \<times> aired_table" where
  "replace_for_followed fid episodes rows =
     (length (first_episodes episodes),
      filter (\<lambda>r. aired_followed r \<noteq> fid) rows @
      map (\<lambda>(s, e, t, d). \<lparr>aired_followed = fid, aired_season = s, aired_episode = e, aired_title = t, air_date = d\<rparr>)
        (first_episodes episodes))"

definition aired_of :: "int \<Rightarrow> aired_table \<Rightarrow> aired_row list" where
  "aired_of fid rows = sort_key (\<lambda>r. (aired_season r, aired_episode r)) (filter (\<lambda>r. aired_followed r = fid) rows)"

definition aired_of_season :: "int \<Rightarrow> int \<Rightarrow> aired_table \<Rightarrow> aired_row list" where
  "aired_of_season fid s rows = filter (\<lambda>r. aired_season r = s) (aired_of fid rows)"

subsection \<open>Seed obligations\<close>

record seed_obligation =
  obligation_id :: int
  obligation_hash :: string
  source_tracker :: string
  min_seed_time_s :: int
  min_ratio :: real
  obligation_added_at :: int
  dispatched_path :: "string option"
  satisfied_at :: "int option"
  breached_at :: "int option"
  released_at :: "int option"
  absent_since :: "int option"

type_synonym seed_table = "seed_obligation list"

text \<open>\<open>SeedObligation.__post_init__\<close>.\<close>

definition valid_obligation :: "seed_obligation \<Rightarrow> bool" where
  "valid_obligation o1 \<longleftrightarrow> min_seed_time_s o1 \<ge> 0 \<and> min_ratio o1 \<ge> 0"

definition next_obligation_id :: "seed_table \<Rightarrow> int" where
  "next_obligation_id os = Max (insert 0 (set (map obligation_id os))) + 1"

definition add_obligation :: "seed_obligation \<Rightarrow> seed_table \<Rightarrow> int \<times> seed_table" where
  "add_obligation o1 os = (next_obligation_id os, os @ [o1\<lparr>obligation_id := next_obligation_id os, absent_since := None\<rparr>])"

definition new_obligation :: "string \<Rightarrow> string \<Rightarrow> int \<Rightarrow> real \<Rightarrow> int \<Rightarrow> string option \<Rightarrow> seed_obligation" where
  "new_obligation h tracker seed_time ratio t path = \<lparr>obligation_id = 0, obligation_hash = h, source_tracker = tracker,
     min_seed_time_s = seed_time, min_ratio = ratio, obligation_added_at = t, dispatched_path = path, satisfied_at = None,
     breached_at = None, released_at = None, absent_since = None\<rparr>"

definition unreleased :: "seed_obligation \<Rightarrow> bool" where
  "unreleased o1 \<longleftrightarrow> released_at o1 = None"

definition find_active_by_hash :: "string \<Rightarrow> seed_table \<Rightarrow> seed_obligation option" where
  "find_active_by_hash h os = sql_first (\<lambda>o1. obligation_hash o1 = h \<and> unreleased o1) os"

definition set_dispatched_path :: "string \<Rightarrow> string \<Rightarrow> seed_table \<Rightarrow> nat \<times> seed_table" where
  "set_dispatched_path h p os =
     (sql_count (\<lambda>o1. obligation_hash o1 = h \<and> unreleased o1) os,
      sql_update (\<lambda>o1. obligation_hash o1 = h \<and> unreleased o1) (\<lambda>o1. o1\<lparr>dispatched_path := Some p\<rparr>) os)"

definition find_by_dispatched_path :: "string \<Rightarrow> seed_table \<Rightarrow> seed_obligation option" where
  "find_by_dispatched_path p os = sql_first (\<lambda>o1. dispatched_path o1 = Some p \<and> satisfied_at o1 = None \<and> unreleased o1) os"

text \<open>\<open>dispatched_path = p OR dispatched_path LIKE p || '/%'\<close>, the pattern's own wild cards escaped; SQLite's \<open>LIKE\<close> does
  not see the case of ASCII letters.\<close>

definition at_or_under :: "string \<Rightarrow> seed_obligation \<Rightarrow> bool" where
  "at_or_under p o1 \<longleftrightarrow> (case dispatched_path o1 of None \<Rightarrow> False
     | Some d \<Rightarrow> d = p \<or> lower (take (length p + 1) d) = lower (p @ ''/''))"

definition find_active_under :: "string \<Rightarrow> seed_table \<Rightarrow> seed_obligation list" where
  "find_active_under p os = filter (\<lambda>o1. at_or_under p o1 \<and> unreleased o1) os"

definition list_open :: "seed_table \<Rightarrow> seed_obligation list" where
  "list_open os = filter (\<lambda>o1. satisfied_at o1 = None \<and> unreleased o1) os"

definition list_unreleased :: "seed_table \<Rightarrow> seed_obligation list" where
  "list_unreleased os = filter unreleased os"

definition seed_update :: "(seed_obligation \<Rightarrow> bool) \<Rightarrow> (seed_obligation \<Rightarrow> seed_obligation) \<Rightarrow> seed_table \<Rightarrow> nat \<times> seed_table" where
  "seed_update P f os = (sql_count P os, sql_update P f os)"

definition mark_satisfied :: "int \<Rightarrow> int \<Rightarrow> seed_table \<Rightarrow> nat \<times> seed_table" where
  "mark_satisfied i t = seed_update (\<lambda>o1. obligation_id o1 = i \<and> satisfied_at o1 = None \<and> unreleased o1) (\<lambda>o1. o1\<lparr>satisfied_at := Some t\<rparr>)"

definition mark_absent :: "int \<Rightarrow> int \<Rightarrow> seed_table \<Rightarrow> nat \<times> seed_table" where
  "mark_absent i t = seed_update (\<lambda>o1. obligation_id o1 = i \<and> absent_since o1 = None \<and> unreleased o1) (\<lambda>o1. o1\<lparr>absent_since := Some t\<rparr>)"

definition clear_absent :: "int \<Rightarrow> seed_table \<Rightarrow> nat \<times> seed_table" where
  "clear_absent i = seed_update (\<lambda>o1. obligation_id o1 = i \<and> absent_since o1 \<noteq> None) (\<lambda>o1. o1\<lparr>absent_since := None\<rparr>)"

definition mark_released :: "int \<Rightarrow> int \<Rightarrow> seed_table \<Rightarrow> nat \<times> seed_table" where
  "mark_released i t = seed_update (\<lambda>o1. obligation_id o1 = i \<and> unreleased o1) (\<lambda>o1. o1\<lparr>released_at := Some t\<rparr>)"

definition mark_breached :: "int \<Rightarrow> int \<Rightarrow> seed_table \<Rightarrow> seed_table" where
  "mark_breached i t os = snd (seed_update (\<lambda>o1. obligation_id o1 = i) (\<lambda>o1. o1\<lparr>breached_at := Some t\<rparr>) os)"

definition mark_breached_under :: "string \<Rightarrow> int \<Rightarrow> seed_table \<Rightarrow> nat \<times> seed_table" where
  "mark_breached_under p t = seed_update (\<lambda>o1. at_or_under p o1 \<and> unreleased o1 \<and> breached_at o1 = None) (\<lambda>o1. o1\<lparr>breached_at := Some t\<rparr>)"

subsection \<open>The database and the effects of a pass\<close>

datatype acquire_effect =
    GrabFailed media_ref "string option" string
  | TrackerAuthFailed string nat media_ref
  | WantedAbandoned media_ref string
  | WantedEnqueued media_ref wanted_kind "int option" "int option"
  | GrabSucceeded media_ref string string "string option" "string list"
  | SeasonFellBackToEpisodes int media_ref int nat
  | SeasonAbsorbedEpisodes int media_ref int "int list"
  | SeasonEscalatedAfterEpisodeFailures int media_ref int string "int list"
  | ProvenanceGrab string "int option" media_ref wanted_kind int "int option" "int option" "string option" "string option"
  | GlobalLimits "int option" "int option"
  | SeedObligationSatisfied string string
  | SeedObligationReleased string string
  | ProvenanceDispatch string string int "string option"
  | DownloadStarted string string string wanted_kind
  | DownloadProgressed string string real int
  | DownloadCompleted string string string wanted_kind
  | GrabReswitched media_ref string string
  | TorrentDeleted string bool
  | FilmAcquired media_ref string int

record acquire_db =
  follows :: follow_table
  wanted :: wanted_table
  aired :: aired_table
  seeds :: seed_table
  marks :: mark_table
  effects :: "acquire_effect list"

definition emit :: "acquire_effect \<Rightarrow> acquire_db \<Rightarrow> acquire_db" where
  "emit e s = s\<lparr>effects := effects s @ [e]\<rparr>"

definition on_wanted :: "(wanted_table \<Rightarrow> wanted_table) \<Rightarrow> acquire_db \<Rightarrow> acquire_db" where
  "on_wanted f s = s\<lparr>wanted := f (wanted s)\<rparr>"

text \<open>\<open>_FollowSubStore.delete\<close>: the open rows not yet grabbed go; by the foreign keys the other wanted rows lose their
  follow and the aired episodes of the follow go.\<close>

definition delete_follow :: "int \<Rightarrow> acquire_db \<Rightarrow> acquire_db" where
  "delete_follow i s = s\<lparr>
     follows := filter (\<lambda>r. follow_id r \<noteq> i) (follows s),
     wanted := sql_update (\<lambda>r. followed_id r = Some i \<and> (\<exists>f \<in> set (follows s). follow_id f = i)) (\<lambda>r. r\<lparr>followed_id := None\<rparr>)
       (filter (\<lambda>r. \<not> (followed_id r = Some i \<and> wanted_status r \<in> {PENDING, SEARCHING, AVAILABLE})) (wanted s)),
     aired := (if \<exists>f \<in> set (follows s). follow_id f = i then filter (\<lambda>r. aired_followed r \<noteq> i) (aired s) else aired s)\<rparr>"

end
