(* ===== verification/Acts.thy ===== *)
theory Acts
  imports Py_Errors
begin

text \<open>
  Programs that read and write a store and may raise, an exception of the code (\<open>act\<close>) or another stop: a raise keeps
  what was written before it, as each statement on the store commits by itself. Also what holds after a program, for its values and its raises.
\<close>

type_synonym ('e, 's, 'a) prog = "'s \<Rightarrow> ('e + 'a) \<times> 's"

type_synonym ('s, 'a) act = "(py_error, 's, 'a) prog"

definition done_with :: "'a \<Rightarrow> ('e, 's, 'a) prog" where
  "done_with x s = (Inr x, s)"

definition raising :: "'e + 'a \<Rightarrow> ('e, 's, 'a) prog" where
  "raising r s = (r, s)"

definition reading :: "('s \<Rightarrow> 'a) \<Rightarrow> ('e, 's, 'a) prog" where
  "reading f s = (Inr (f s), s)"

definition writing :: "('s \<Rightarrow> 's) \<Rightarrow> ('e, 's, unit) prog" where
  "writing f s = (Inr (), f s)"

text \<open>A write that answers, as \<open>cursor.rowcount == 1\<close> does.\<close>

definition asking :: "('s \<Rightarrow> 'a \<times> 's) \<Rightarrow> ('e, 's, 'a) prog" where
  "asking h s = (Inr (fst (h s)), snd (h s))"

definition then_with :: "('e, 's, 'a) prog \<Rightarrow> ('a \<Rightarrow> ('e, 's, 'b) prog) \<Rightarrow> ('e, 's, 'b) prog" where
  "then_with m f s = (case m s of (Inl e, s') \<Rightarrow> (Inl e, s') | (Inr x, s') \<Rightarrow> f x s')"

definition then_do :: "('e, 's, unit) prog \<Rightarrow> ('e, 's, 'b) prog \<Rightarrow> ('e, 's, 'b) prog" where
  "then_do m n = then_with m (\<lambda>_. n)"

text \<open>A program that looks at the store before it runs.\<close>

definition looking :: "('s \<Rightarrow> ('e, 's, 'a) prog) \<Rightarrow> ('e, 's, 'a) prog" where
  "looking f s = f s s"

lemma act_simps [simp]:
  "done_with x s = (Inr x, s)"
  "raising r s = (r, s)"
  "reading g s = (Inr (g s), s)"
  "writing w s = (Inr (), w s)"
  "asking h s = (Inr (fst (h s)), snd (h s))"
  "looking f s = f s s"
  by (simp_all add: done_with_def raising_def reading_def writing_def asking_def looking_def)

lemma then_with_simps [simp]:
  "then_with (done_with x) f = f x"
  "then_with (reading g) f s = f (g s) s"
  "then_with (asking h) f s = f (fst (h s)) (snd (h s))"
  "then_do (writing w) n s = n (w s)"
  by (auto simp: then_with_def then_do_def)

lemma then_with_raising: "then_with (raising r) f s = (case r of Inl e \<Rightarrow> (Inl e, s) | Inr x \<Rightarrow> f x s)"
  by (simp add: then_with_def)

lemma then_with_run:
  "m s = (Inl e, s') \<Longrightarrow> then_with m f s = (Inl e, s')"
  "m s = (Inr x, s') \<Longrightarrow> then_with m f s = f x s'"
  by (simp_all add: then_with_def)

lemma then_do_run:
  "m s = (Inl e, s') \<Longrightarrow> then_do m n s = (Inl e, s')"
  "m s = (Inr u, s') \<Longrightarrow> then_do m n s = n s'"
  by (simp_all add: then_do_def then_with_def)

lemma snd_then_with: "snd (then_with m f s) = (case m s of (Inl e, s') \<Rightarrow> s' | (Inr x, s') \<Rightarrow> snd (f x s'))"
  by (simp add: then_with_def split: prod.split sum.split)

subsection \<open>What holds after a program\<close>

text \<open>\<open>triple P m Q E\<close>: from a store with \<open>P\<close>, a value leaves one with \<open>Q\<close>, a raise one with \<open>E\<close>.\<close>

definition triple :: "('s \<Rightarrow> bool) \<Rightarrow> ('e, 's, 'a) prog \<Rightarrow> ('a \<Rightarrow> 's \<Rightarrow> bool) \<Rightarrow> ('e \<Rightarrow> 's \<Rightarrow> bool) \<Rightarrow> bool" where
  "triple P m Q E \<longleftrightarrow> (\<forall>s. P s \<longrightarrow> (case m s of (Inl e, s') \<Rightarrow> E e s' | (Inr x, s') \<Rightarrow> Q x s'))"

named_theorems triples \<open>what holds after each construct of a program\<close>

lemma triple_done [triples]: "(\<And>s. P s \<Longrightarrow> Q x s) \<Longrightarrow> triple P (done_with x) Q E"
  by (simp add: triple_def)

lemma triple_raising [triples]:
  "(\<And>s e. r = Inl e \<Longrightarrow> P s \<Longrightarrow> E e s) \<Longrightarrow> (\<And>s x. r = Inr x \<Longrightarrow> P s \<Longrightarrow> Q x s) \<Longrightarrow> triple P (raising r) Q E"
  by (simp add: triple_def split: sum.split)

lemma triple_reading [triples]: "(\<And>s. P s \<Longrightarrow> Q (f s) s) \<Longrightarrow> triple P (reading f) Q E"
  by (simp add: triple_def)

lemma triple_writing [triples]: "(\<And>s. P s \<Longrightarrow> Q () (w s)) \<Longrightarrow> triple P (writing w) Q E"
  by (simp add: triple_def)

lemma triple_asking [triples]: "(\<And>s. P s \<Longrightarrow> Q (fst (h s)) (snd (h s))) \<Longrightarrow> triple P (asking h) Q E"
  by (simp add: triple_def)

lemma triple_then: "triple P m Q' E \<Longrightarrow> (\<And>x. triple (Q' x) (f x) Q E) \<Longrightarrow> triple P (then_with m f) Q E"
  by (fastforce simp: triple_def then_with_def split: prod.splits sum.splits)

lemma triple_do: "triple P m (\<lambda>_. R) E \<Longrightarrow> triple R n Q E \<Longrightarrow> triple P (then_do m n) Q E"
  unfolding then_do_def by (rule triple_then)

lemma triple_looking: "(\<And>s. P s \<Longrightarrow> triple (\<lambda>s'. s' = s) (f s) Q E) \<Longrightarrow> triple P (looking f) Q E"
  by (simp add: triple_def)

lemma triple_pre: "triple P m Q E \<Longrightarrow> (\<And>s. P' s \<Longrightarrow> P s) \<Longrightarrow> triple P' m Q E"
  by (simp add: triple_def)

lemma triple_post: "triple P m Q E \<Longrightarrow> (\<And>x s. Q x s \<Longrightarrow> Q' x s) \<Longrightarrow> (\<And>e s. E e s \<Longrightarrow> E' e s) \<Longrightarrow> triple P m Q' E'"
  by (fastforce simp: triple_def split: prod.splits sum.splits)

lemma triple_False: "(\<And>s. \<not> P s) \<Longrightarrow> triple P m Q E"
  by (simp add: triple_def)

lemma tripleD: "triple P m Q E \<Longrightarrow> P s \<Longrightarrow> case m s of (Inl e, s') \<Rightarrow> E e s' | (Inr x, s') \<Rightarrow> Q x s'"
  by (simp add: triple_def)

end
