(* ===== verification/Grab_Orchestrator.thy ===== *)
theory Grab_Orchestrator
  imports Fetch Acquire_Store Acts
begin

text \<open>
  The search and the grab of one wanted item (\<open>acquire/orchestrator.py\<close>, \<open>_query.py\<close>): the query of the trackers, the
  verdict of a search, the walk that resolves and hands the best release to the torrent client. The resolvers of
  \<open>acquire/_factory.py\<close> read the follow and the aired episodes. Parameters: the trackers' answers, the titles' readers,
  the transports, SHA-1 and the torrent client.
\<close>

subsection \<open>What a search and a grab depend on\<close>

datatype media_type = TV_TYPE | MOVIE_TYPE

record bandwidth =
  global_down :: "int option"
  global_up :: "int option"
  per_torrent_down :: "int option"
  per_torrent_up :: "int option"

text \<open>The torrent client: the capabilities the code tests with \<open>isinstance\<close> and what each call answers or raises.\<close>

record torrent_client =
  is_lister :: bool
  is_limiter :: bool
  is_global_limiter :: bool
  all_hashes :: "api_raise + string list"
  by_hashes :: "string \<Rightarrow> api_raise + torrent_item list"
  categories :: "(api_raise + (string \<rightharpoonup> string)) option"
  add_torrent :: "torrent_source \<Rightarrow> string option \<Rightarrow> string list \<Rightarrow> torrent_limits option \<Rightarrow> api_raise + string"

record orchestrator =
  tracker_answers :: "string \<Rightarrow> media_type \<Rightarrow> int option \<Rightarrow> string \<Rightarrow> (tracker_raise + release list) option"
  tracker_priority :: "media_type \<Rightarrow> string list"
  titles_read :: title_reader
  fuzzy_key :: "release \<Rightarrow> string set \<times> int option \<times> int"
  conversion :: conversions
  ranking_config :: ranking
  transports :: "string \<rightharpoonup> transport"
  sha1_hex :: "string \<Rightarrow> string"
  client :: "torrent_client option"
  limits :: bandwidth
  scope :: "torrent_scope option"
  sandbox_categories :: "string list"

subsection \<open>The query\<close>

definition follow_of :: "acquire_db \<Rightarrow> wanted_item \<Rightarrow> followed option" where
  "follow_of s item = Option.bind (followed_id item) (\<lambda>i. get_follow i (follows s))"

definition title_resolver :: "acquire_db \<Rightarrow> wanted_item \<Rightarrow> string option" where
  "title_resolver s item = map_option follow_title (follow_of s item)"

definition year_resolver :: "acquire_db \<Rightarrow> wanted_item \<Rightarrow> int option" where
  "year_resolver s item = Option.bind (follow_of s item) follow_year"

definition original_title_resolver :: "acquire_db \<Rightarrow> wanted_item \<Rightarrow> string option" where
  "original_title_resolver s item = Option.bind (follow_of s item) original_title"

text \<open>\<open>len(rows) or None\<close>.\<close>

definition count_or_none :: "nat \<Rightarrow> int option" where
  "count_or_none n = (if n = 0 then None else Some (int n))"

definition episode_count_resolver :: "acquire_db \<Rightarrow> wanted_item \<Rightarrow> int option" where
  "episode_count_resolver s item = (case (followed_id item, season item) of
     (Some i, Some n) \<Rightarrow> count_or_none (length (aired_of_season i n (aired s)))
   | _ \<Rightarrow> None)"

definition build_search_query :: "wanted_item \<Rightarrow> string option \<Rightarrow> int option \<Rightarrow> string" where
  "build_search_query item title year =
     (case title of
        Some (c # cs) \<Rightarrow>
          (case (wanted_kind item, season item, episode item, year) of
             (EPISODE, Some n, Some e, _) \<Rightarrow> (c # cs) @ '' S'' @ two_digits n @ ''E'' @ two_digits e
           | (SEASON, Some n, _, _) \<Rightarrow> (c # cs) @ '' S'' @ two_digits n
           | (_, _, _, Some y) \<Rightarrow> (c # cs) @ '' '' @ str_int y
           | _ \<Rightarrow> c # cs)
      | _ \<Rightarrow>
          (case (tvdb_id (media_ref item), tmdb_id (media_ref item)) of
             (Some i, _) \<Rightarrow> str_int i
           | (None, Some i) \<Rightarrow> str_int i
           | (None, None) \<Rightarrow> (case imdb_id (media_ref item) of None \<Rightarrow> ''None'' | Some i \<Rightarrow> i)))"

text \<open>The exits of the chain, with the names they are stored under.\<close>

datatype exit_path = Available | No_Candidates | No_Matching_Episode | No_Matching_Season | All_Filtered
  | Trackers_Unavailable | Trackers_Degraded | Circuit_Is_Open | Search_Api_Error | No_Seeders | Tracker_Auth_Refused

fun exit_name :: "exit_path \<Rightarrow> string" where
  "exit_name Available = ''available''"
| "exit_name No_Candidates = ''no_candidates''"
| "exit_name No_Matching_Episode = ''no_matching_episode''"
| "exit_name No_Matching_Season = ''no_matching_season''"
| "exit_name All_Filtered = ''all_filtered''"
| "exit_name Trackers_Unavailable = ''trackers_unavailable''"
| "exit_name Trackers_Degraded = ''trackers_degraded''"
| "exit_name Circuit_Is_Open = ''circuit_open''"
| "exit_name Search_Api_Error = ''search_api_error''"
| "exit_name No_Seeders = ''no_seeders''"
| "exit_name Tracker_Auth_Refused = ''tracker_auth''"

definition INCONCLUSIVE_OUTCOMES :: "exit_path set" where
  "INCONCLUSIVE_OUTCOMES = {Trackers_Unavailable, Trackers_Degraded, Circuit_Is_Open, Search_Api_Error, No_Seeders}"

definition all_errored_exit :: "search_outcome \<Rightarrow> exit_path" where
  "all_errored_exit out =
     (let taxa = ran (tracker_errors out)
      in if taxa = {''auth''} then Tracker_Auth_Refused
         else if taxa = {''circuit''} then Circuit_Is_Open
         else Trackers_Unavailable)"

text \<open>\<open>_QueryAttempt\<close>: it stops the chain, it is empty with a verdict of its own, or it has results, perhaps none.\<close>

datatype query_attempt =
    Hard_Stop exit_path
  | Empty_Verdict exit_path "release list option"
  | Results "release list"

fun attempt_results :: "query_attempt \<Rightarrow> release list" where
  "attempt_results (Results rs) = rs"
| "attempt_results _ = []"

text \<open>The filter of the item's kind.\<close>

definition narrow :: "orchestrator \<Rightarrow> acquire_db \<Rightarrow> wanted_item \<Rightarrow> string option list \<Rightarrow> int option \<Rightarrow> release list \<Rightarrow> query_attempt" where
  "narrow oc s item titles year rs =
     (case (wanted_kind item, season item, episode item) of
        (EPISODE, Some n, Some e) \<Rightarrow>
          (let kept = filter_to_episode (titles_read oc) n e titles rs
           in if kept = [] then Empty_Verdict No_Matching_Episode (Some rs) else Results kept)
      | (SEASON, Some n, _) \<Rightarrow>
          (let kept = filter_to_season (titles_read oc) n (episode_count_resolver s item) titles rs
           in if kept = [] then Empty_Verdict No_Matching_Season None else Results kept)
      | (MOVIE, _, _) \<Rightarrow>
          Results (if hd titles \<noteq> None then filter_to_movie (titles_read oc) titles year rs else rs)
      | _ \<Rightarrow> Results rs)"

text \<open>The registry raises nothing itself: it counts every tracker's failure.\<close>

definition registry_search :: "orchestrator \<Rightarrow> string \<Rightarrow> media_type \<Rightarrow> int option \<Rightarrow> api_raise + search_outcome" where
  "registry_search oc query mt year = Inr (search_candidates (tracker_answers oc query mt year) (tracker_priority oc mt))"

definition query_and_narrow :: "orchestrator \<Rightarrow> acquire_db \<Rightarrow> wanted_item \<Rightarrow> string \<Rightarrow> string option \<Rightarrow> string option \<Rightarrow> int option
    \<Rightarrow> query_attempt" where
  "query_and_narrow oc s item query title original year =
     (case registry_search oc query (if wanted_kind item \<in> {EPISODE, SEASON} then TV_TYPE else MOVIE_TYPE) year of
        Inl CircuitOpenError \<Rightarrow> Hard_Stop Circuit_Is_Open
      | Inl (TrackerAuthError _) \<Rightarrow> Hard_Stop Tracker_Auth_Refused
      | Inl _ \<Rightarrow> Hard_Stop Search_Api_Error
      | Inr out \<Rightarrow>
          if all_errored out then Hard_Stop (all_errored_exit out)
          else if results out = [] then
            (if trackers_errored out > 0 then Hard_Stop Trackers_Degraded else Empty_Verdict No_Candidates None)
          else narrow oc s item [title, original] year (results out))"

subsection \<open>The chain\<close>

record chain_result =
  exit_path :: exit_path
  ranked :: "(release \<times> int) list"
  raw_before_filter :: "release list option"

definition chain_exit :: "exit_path \<Rightarrow> release list option \<Rightarrow> chain_result" where
  "chain_exit e raw = \<lparr>exit_path = e, ranked = [], raw_before_filter = raw\<rparr>"

text \<open>The retry under the original title is taken only when it finds something.\<close>

definition chosen_attempt :: "orchestrator \<Rightarrow> acquire_db \<Rightarrow> wanted_item \<Rightarrow> query_attempt" where
  "chosen_attempt oc s item =
     (let title = title_resolver s item; year = year_resolver s item; original = original_title_resolver s item;
          first = query_and_narrow oc s item (build_search_query item title year) title original year
      in if (\<exists>e. first = Hard_Stop e) \<or> attempt_results first \<noteq> [] \<or> original = None \<or> original = Some [] \<or> original = title then first
         else let second = query_and_narrow oc s item (build_search_query item original year) title original year
              in if attempt_results second \<noteq> [] then second else first)"

definition rank_results :: "orchestrator \<Rightarrow> wanted_item \<Rightarrow> quality_profile \<Rightarrow> string set \<Rightarrow> release list \<Rightarrow> py_error + chain_result" where
  "rank_results oc item profile excluded rs =
     raising_bind (rank_candidates (conversion oc) (titles_read oc) (fuzzy_key oc) (ranking_config oc) excluded
       (Some (wanted_kind item)) profile (Some (media_ref item)) rs)
     (\<lambda>(representatives, rkd).
        Inr (if representatives = [] then chain_exit All_Filtered None
             else if rkd = [] then chain_exit No_Seeders None
             else \<lparr>exit_path = Available, ranked = rkd, raw_before_filter = None\<rparr>))"

definition search_chain :: "orchestrator \<Rightarrow> acquire_db \<Rightarrow> wanted_item \<Rightarrow> quality_profile \<Rightarrow> string set \<Rightarrow> py_error + chain_result" where
  "search_chain oc s item profile excluded = (case chosen_attempt oc s item of
     Hard_Stop e \<Rightarrow> Inr (chain_exit e None)
   | Empty_Verdict e raw \<Rightarrow> Inr (chain_exit e raw)
   | Results rs \<Rightarrow> rank_results oc item profile excluded rs)"

subsection \<open>The verdict of a search\<close>

datatype disposition = IS_AVAILABLE | NOT_FOUND | RETRYABLE | TERMINAL | SUCCESS

record search_verdict =
  verdict_disposition :: disposition
  verdict_outcome :: exit_path
  verdict_found :: "nat option"
  verdict_chosen :: "release option"
  verdict_raw :: "release list option"

fun verdict_of :: "exit_path \<Rightarrow> nat \<Rightarrow> disposition \<times> nat option" where
  "verdict_of Circuit_Is_Open n = (RETRYABLE, None)"
| "verdict_of Tracker_Auth_Refused n = (TERMINAL, None)"
| "verdict_of Search_Api_Error n = (RETRYABLE, None)"
| "verdict_of Trackers_Unavailable n = (RETRYABLE, None)"
| "verdict_of Trackers_Degraded n = (RETRYABLE, None)"
| "verdict_of No_Candidates n = (NOT_FOUND, Some 0)"
| "verdict_of No_Matching_Episode n = (NOT_FOUND, Some 0)"
| "verdict_of No_Matching_Season n = (NOT_FOUND, Some 0)"
| "verdict_of All_Filtered n = (NOT_FOUND, Some 0)"
| "verdict_of No_Seeders n = (RETRYABLE, None)"
| "verdict_of Available n = (IS_AVAILABLE, Some n)"

definition top_of :: "chain_result \<Rightarrow> release option" where
  "top_of c = (case ranked c of [] \<Rightarrow> None | (r, _) # _ \<Rightarrow> Some r)"

definition search_item :: "orchestrator \<Rightarrow> wanted_item \<Rightarrow> quality_profile \<Rightarrow> string set \<Rightarrow> acquire_db \<Rightarrow> py_error + search_verdict" where
  "search_item oc item profile excluded s = raising_bind (search_chain oc s item profile excluded) (\<lambda>c.
     let (d, found) = verdict_of (exit_path c) (length (ranked c))
     in Inr \<lparr>verdict_disposition = d, verdict_outcome = exit_path c, verdict_found = found, verdict_chosen = top_of c,
          verdict_raw = raw_before_filter c\<rparr>)"

subsection \<open>The scope and the sandboxes\<close>

definition scope_refusal :: "orchestrator \<Rightarrow> torrent_client \<Rightarrow> torrent_source \<Rightarrow> api_raise + string option" where
  "scope_refusal oc tc source =
     (if \<not> is_lister tc then Inr (Some ''scope_unverifiable'')
      else case source_info_hash (sha1_hex oc) source of
        Inl _ \<Rightarrow> Inr (Some ''hash_underivable'')
      | Inr h \<Rightarrow> raising_bind (all_hashes tc) (\<lambda>hs.
          Inr (if lower h \<in> lower ` set hs then Some ''shared_hash'' else None)))"

definition sandbox_refusal :: "orchestrator \<Rightarrow> torrent_client \<Rightarrow> torrent_source \<Rightarrow> api_raise + string option" where
  "sandbox_refusal oc tc source =
     (if \<not> is_lister tc then Inr (Some ''scope_unverifiable'')
      else case source_info_hash (sha1_hex oc) source of
        Inl _ \<Rightarrow> Inr (Some ''hash_underivable'')
      | Inr h \<Rightarrow> raising_bind (by_hashes tc (lower h)) (\<lambda>items.
          Inr (if list_ex (\<lambda>x. lower (torrent_hash x) = lower h \<and> in_sandbox (torrent_category x) (sandbox_categories oc)) items
               then Some ''sandbox_hash'' else None)))"

text \<open>Unscoped, the constructor keeps the sandbox categories; scoped, it drops them.\<close>

definition source_refusal :: "orchestrator \<Rightarrow> torrent_client \<Rightarrow> torrent_source \<Rightarrow> api_raise + string option" where
  "source_refusal oc tc source =
     (if scope oc \<noteq> None then scope_refusal oc tc source
      else if sandbox_categories oc \<noteq> [] then sandbox_refusal oc tc source
      else Inr None)"

definition category_refusal :: "torrent_client \<Rightarrow> torrent_scope \<Rightarrow> api_raise + string option" where
  "category_refusal tc sc = (case categories tc of
     None \<Rightarrow> Inr None
   | Some answer \<Rightarrow> raising_bind answer (\<lambda>cats. Inr (case cats (scope_category sc) of
       None \<Rightarrow> Some ''category_missing''
     | Some p \<Rightarrow> if is_under_download_root p sc then None else Some ''category_save_path'')))"

text \<open>Only an \<open>ApiError\<close> is caught here; an open circuit leaves the pass.\<close>

definition scope_allows_grab :: "orchestrator \<Rightarrow> api_raise + bool" where
  "scope_allows_grab oc = (case (scope oc, client oc) of
     (Some sc, Some tc) \<Rightarrow> (case category_refusal tc sc of
         Inl CircuitOpenError \<Rightarrow> Inl CircuitOpenError
       | Inl _ \<Rightarrow> Inr False
       | Inr reason \<Rightarrow> Inr (reason = None))
   | _ \<Rightarrow> Inr True)"

text \<open>A failure of the client's own call is swallowed.\<close>

definition apply_global_caps :: "orchestrator \<Rightarrow> acquire_db \<Rightarrow> acquire_db" where
  "apply_global_caps oc s =
     (if (global_down (limits oc) = None \<and> global_up (limits oc) = None) \<or> scope oc \<noteq> None then s
      else case client oc of
        None \<Rightarrow> s
      | Some tc \<Rightarrow> if is_global_limiter tc then emit (GlobalLimits (global_down (limits oc)) (global_up (limits oc))) s else s)"

subsection \<open>The walk of a grab\<close>

text \<open>How the loop ends: with a source to add, with a refusal, with no candidate that resolves, or with an exception of
  the client, whose handler names the best remaining release.\<close>

datatype walk_end =
    Take torrent_source release
  | Refused string release
  | No_Source release "api_raise option"
  | Client_Raises api_raise release

text \<open>\<open>[pair for pair in remaining if pair[0] is not chosen]\<close>: the chosen object is the first equal one.\<close>

fun without_release :: "release \<Rightarrow> (release \<times> int) list \<Rightarrow> (release \<times> int) list" where
  "without_release r [] = []"
| "without_release r (p # ps) = (if fst p = r then ps else p # without_release r ps)"

lemma length_without_release [simp]: "r \<in> fst ` set ps \<Longrightarrow> length (without_release r ps) < length ps"
  by (induction ps) auto

lemma set_without_release: "set (without_release r ps) \<subseteq> set ps"
  by (induction ps) auto

function grab_walk :: "orchestrator \<Rightarrow> torrent_client \<Rightarrow> (release \<times> int) list \<Rightarrow> release \<Rightarrow> walk_end" where
  "grab_walk oc tc remaining best =
     (case resolve_first_available (resolve_source (sha1_hex oc) (transports oc)) remaining best of
        Unresolved culprit e \<Rightarrow> No_Source culprit e
      | Resolved source chosen \<Rightarrow>
          (case source_refusal oc tc source of
             Inl e \<Rightarrow> Client_Raises e best
           | Inr None \<Rightarrow> Take source chosen
           | Inr (Some reason) \<Rightarrow>
               if reason \<noteq> ''shared_hash'' \<and> reason \<noteq> ''sandbox_hash'' then Refused reason chosen
               else if without_release chosen remaining = [] then Refused reason chosen
               else grab_walk oc tc (without_release chosen remaining) (fst (hd (without_release chosen remaining)))))"
  by pat_completeness auto

termination
  by (relation "measure (\<lambda>(oc, tc, remaining, best). length remaining)")
    (auto dest!: resolve_first_available_Resolved intro!: length_without_release)

declare grab_walk.simps [simp del]

subsection \<open>The grab\<close>

record grab_outcome =
  grab_disposition :: disposition
  grab_hash :: "string option"
  grab_reason :: "string option"
  grab_chosen :: "release option"
  grab_category :: "string option"
  grab_tags_added :: "string list"
  grab_found :: "nat option"

definition failed_outcome :: "disposition \<Rightarrow> string \<Rightarrow> release option \<Rightarrow> nat option \<Rightarrow> grab_outcome" where
  "failed_outcome d reason chosen found = \<lparr>grab_disposition = d, grab_hash = None, grab_reason = Some reason,
     grab_chosen = chosen, grab_category = None, grab_tags_added = [], grab_found = found\<rparr>"

definition retryable :: "wanted_item \<Rightarrow> string \<Rightarrow> release option \<Rightarrow> (acquire_db, grab_outcome) act" where
  "retryable item reason chosen = then_do (writing (emit (GrabFailed (media_ref item) (map_option provider chosen) reason)))
     (done_with (failed_outcome RETRYABLE reason chosen None))"

definition not_found :: "wanted_item \<Rightarrow> string \<Rightarrow> (acquire_db, grab_outcome) act" where
  "not_found item reason = then_do (writing (emit (GrabFailed (media_ref item) None reason)))
     (done_with (failed_outcome NOT_FOUND reason None (Some 0)))"

definition terminal :: "wanted_item \<Rightarrow> string \<Rightarrow> release option \<Rightarrow> (acquire_db, grab_outcome) act" where
  "terminal item reason chosen = then_do (writing (emit (WantedAbandoned (media_ref item) reason)))
     (done_with (failed_outcome TERMINAL reason chosen None))"

definition auth_failed :: "wanted_item \<Rightarrow> release \<Rightarrow> nat \<Rightarrow> (acquire_db, grab_outcome) act" where
  "auth_failed item chosen status = then_do (writing (emit (TrackerAuthFailed (provider chosen) status (media_ref item))))
     (terminal item ''tracker_auth'' (Some chosen))"

text \<open>The handlers of the exceptions of the resolve and add block.\<close>

fun grab_raised :: "wanted_item \<Rightarrow> release \<Rightarrow> api_raise \<Rightarrow> (acquire_db, grab_outcome) act" where
  "grab_raised item chosen CircuitOpenError = retryable item ''circuit_open'' (Some chosen)"
| "grab_raised item chosen (TrackerAuthError status) = auth_failed item chosen status"
| "grab_raised item chosen TorrentFetchError = retryable item ''fetch_failed'' (Some chosen)"
| "grab_raised item chosen (ApiError _) = retryable item ''add_failed'' (Some chosen)"

fun unresolved :: "wanted_item \<Rightarrow> release \<Rightarrow> api_raise option \<Rightarrow> (acquire_db, grab_outcome) act" where
  "unresolved item chosen (Some CircuitOpenError) = retryable item ''circuit_open'' (Some chosen)"
| "unresolved item chosen (Some (TrackerAuthError status)) = auth_failed item chosen status"
| "unresolved item chosen _ = retryable item ''fetch_failed'' (Some chosen)"

definition build_limits :: "bandwidth \<Rightarrow> bool \<Rightarrow> torrent_limits option" where
  "build_limits bw limiter =
     (if (per_torrent_down bw = None \<and> per_torrent_up bw = None) \<or> \<not> limiter then None
      else Some \<lparr>down_bytes_per_s = per_torrent_down bw, up_bytes_per_s = per_torrent_up bw\<rparr>)"

definition tags_for :: "orchestrator \<Rightarrow> release \<Rightarrow> string list" where
  "tags_for oc r = provider r # (case scope oc of None \<Rightarrow> [] | Some sc \<Rightarrow> grab_tags sc)"

definition add_in_scope :: "orchestrator \<Rightarrow> torrent_client \<Rightarrow> torrent_source \<Rightarrow> release \<Rightarrow> api_raise + string" where
  "add_in_scope oc tc source r =
     add_torrent tc source (map_option scope_category (scope oc)) (tags_for oc r) (build_limits (limits oc) (is_limiter tc))"

text \<open>\<open>on_intent\<close> is called before the torrent is added, for a release that names a hash.\<close>

definition take_release :: "orchestrator \<Rightarrow> (string \<Rightarrow> acquire_db \<Rightarrow> acquire_db) \<Rightarrow> wanted_item \<Rightarrow> torrent_client \<Rightarrow> nat
    \<Rightarrow> torrent_source \<Rightarrow> release \<Rightarrow> (acquire_db, grab_outcome) act" where
  "take_release oc on_intent item tc found source r =
     then_do (writing (\<lambda>s. case info_hash r of None \<Rightarrow> s | Some h \<Rightarrow> if h = [] then s else on_intent h s))
       (case add_in_scope oc tc source r of
          Inl e \<Rightarrow> grab_raised item r e
        | Inr h \<Rightarrow> done_with \<lparr>grab_disposition = SUCCESS, grab_hash = Some h, grab_reason = None, grab_chosen = Some r,
            grab_category = map_option scope_category (scope oc), grab_tags_added = tags_for oc r, grab_found = Some found\<rparr>)"

definition grab_ranked :: "orchestrator \<Rightarrow> (string \<Rightarrow> acquire_db \<Rightarrow> acquire_db) \<Rightarrow> wanted_item \<Rightarrow> (release \<times> int) list
    \<Rightarrow> release \<Rightarrow> (acquire_db, grab_outcome) act" where
  "grab_ranked oc on_intent item rkd best = (case client oc of
     None \<Rightarrow> retryable item ''no_torrent_client'' (Some best)
   | Some tc \<Rightarrow> (case grab_walk oc tc rkd best of
       Take source r \<Rightarrow> take_release oc on_intent item tc (length rkd) source r
     | Refused reason r \<Rightarrow> retryable item reason (Some r)
     | No_Source culprit e \<Rightarrow> unresolved item culprit e
     | Client_Raises e b \<Rightarrow> grab_raised item b e))"

text \<open>No branch takes \<open>trackers_degraded\<close>: its chain has no best release and the assertion fails.\<close>

definition grab :: "orchestrator \<Rightarrow> (string \<Rightarrow> acquire_db \<Rightarrow> acquire_db) \<Rightarrow> wanted_item \<Rightarrow> quality_profile \<Rightarrow> string set
    \<Rightarrow> (acquire_db, grab_outcome) act" where
  "grab oc on_intent item profile excluded = looking (\<lambda>s. then_with (raising (search_chain oc s item profile excluded)) (\<lambda>c.
     case exit_path c of
       Circuit_Is_Open \<Rightarrow> retryable item ''circuit_open'' None
     | Search_Api_Error \<Rightarrow> retryable item ''search_api_error'' None
     | Tracker_Auth_Refused \<Rightarrow> retryable item ''search_api_error'' None
     | Trackers_Unavailable \<Rightarrow> retryable item ''trackers_unavailable'' None
     | No_Candidates \<Rightarrow> not_found item ''no_candidates''
     | No_Matching_Episode \<Rightarrow> not_found item ''no_matching_episode''
     | No_Matching_Season \<Rightarrow> not_found item ''no_matching_season''
     | All_Filtered \<Rightarrow> not_found item ''all_filtered''
     | No_Seeders \<Rightarrow> retryable item ''no_seeders'' None
     | _ \<Rightarrow> (case top_of c of
         None \<Rightarrow> raising (Inl AssertionError)
       | Some best \<Rightarrow> grab_ranked oc on_intent item (ranked c) best)))"

end
