(* ===== verification/Pass_Gates.thy ===== *)
theory Pass_Gates
  imports Grab_Orchestrator
begin

text \<open>
  What both passes do before an item (\<open>acquire/_pass_gates.py\<close>, \<open>_season_fallback.py\<close>): the cutoff, the fallback of a
  season to its episodes, the cadence, the effective profile. Times are whole seconds.
\<close>

definition STALE_THRESHOLD_S :: int where "STALE_THRESHOLD_S = 3600"

subsection \<open>A season falls back to its episodes\<close>

definition requeue_episode :: "media_ref \<Rightarrow> int \<Rightarrow> int \<Rightarrow> int \<Rightarrow> int \<Rightarrow> wanted_table \<Rightarrow> bool \<times> wanted_table" where
  "requeue_episode ref fid n t e rs =
     (case find_wanted (Some fid) EPISODE (Some n) (Some e) (Some OPEN_WANTED_STATUSES) rs of
        Some _ \<Rightarrow> (False, rs)
      | None \<Rightarrow> (True, snd (add_wanted (fresh_item ref EPISODE t (Some fid) (Some n) (Some e)) rs)))"

fun requeue_episodes :: "media_ref \<Rightarrow> int \<Rightarrow> int \<Rightarrow> int \<Rightarrow> int list \<Rightarrow> wanted_table \<Rightarrow> nat \<times> wanted_table" where
  "requeue_episodes ref fid n t [] rs = (0, rs)"
| "requeue_episodes ref fid n t (e # es) rs =
     (let (added, rs) = requeue_episode ref fid n t e rs; (k, rs) = requeue_episodes ref fid n t es rs
      in (if added then Suc k else k, rs))"

text \<open>\<open>fall_back_to_episodes\<close>: claimed or not, and how many episodes were enqueued. The last argument is the episodes the
  caller names, or \<open>None\<close> for the aired ones.\<close>

definition fall_back_to_episodes :: "wanted_item \<Rightarrow> int \<Rightarrow> int \<Rightarrow> int \<Rightarrow> int list option \<Rightarrow> acquire_db \<Rightarrow> (bool \<times> nat) \<times> acquire_db" where
  "fall_back_to_episodes item fid n t named s =
     (let episodes = (case named of None \<Rightarrow> sort (map aired_episode (aired_of_season fid n (aired s))) | Some es \<Rightarrow> sort (remdups es));
          (k, rs) = requeue_episodes (media_ref item) fid n t episodes (wanted s);
          (claimed, rs') = fallback_season (wanted_id item) rs
      in if \<not> claimed then ((False, k), s\<lparr>wanted := rs\<rparr>)
         else ((True, k), emit (SeasonFellBackToEpisodes (wanted_id item) (media_ref item) n k) (s\<lparr>wanted := rs'\<rparr>)))"

subsection \<open>The gates\<close>

datatype gate = Proceed | Gate_Abandoned | Gate_Skipped

text \<open>A stale claim is taken back before the age is looked at; one that is not stale belongs to another pass.\<close>

definition cutoff_gate :: "wanted_item \<Rightarrow> int \<Rightarrow> cadence \<Rightarrow> acquire_db \<Rightarrow> gate \<times> acquire_db" where
  "cutoff_gate item t cad s =
     (let (reclaimed, rs) = (if wanted_status item = SEARCHING then reclaim_stale_searching (wanted_id item) (t - STALE_THRESHOLD_S) (wanted s)
                             else (True, wanted s));
          s = s\<lparr>wanted := rs\<rparr>
      in if \<not> reclaimed then (Gate_Skipped, s)
         else if is_past_cutoff cad t (enqueued_at item) then
           (case (wanted_kind item, season item, followed_id item) of
              (SEASON, Some n, Some fid) \<Rightarrow> (Gate_Abandoned, snd (fall_back_to_episodes item fid n t None s))
            | _ \<Rightarrow> (Gate_Abandoned, emit (WantedAbandoned (media_ref item) ''cutoff_reached'')
                 (on_wanted (set_status (wanted_id item) ABANDONED) s)))
         else (Proceed, s))"

definition cadence_gates :: "wanted_item \<Rightarrow> int \<Rightarrow> cadence \<Rightarrow> acquire_db \<Rightarrow> gate \<times> acquire_db" where
  "cadence_gates item t cad s =
     (let (g, s) = cutoff_gate item t cad s
      in if g \<noteq> Proceed then (g, s)
         else if \<not> is_due_by_cadence cad t (enqueued_at item) (last_search_at item) then (Gate_Skipped, s)
         else (Proceed, s))"

definition effective_profile :: "acquire_db \<Rightarrow> wanted_item \<Rightarrow> py_error + quality_profile" where
  "effective_profile s item =
     raising_bind (case follow_of s item of
         None \<Rightarrow> Inr default_profile
       | Some f \<Rightarrow> quality_profile_from_json (quality_profile_text f)) (\<lambda>series.
     raising_bind (source_criteria_from_json (criteria_json item)) (\<lambda>own. Inr (effective_quality series own)))"

subsection \<open>The queue of a pass\<close>

fun first_of_each_id :: "int set \<Rightarrow> wanted_item list \<Rightarrow> wanted_item list" where
  "first_of_each_id seen [] = []"
| "first_of_each_id seen (r # rs) =
     (if wanted_id r \<in> seen then first_of_each_id seen rs else r # first_of_each_id (insert (wanted_id r) seen) rs)"

definition build_queue :: "wanted_item list \<Rightarrow> int \<Rightarrow> int option \<Rightarrow> int option \<Rightarrow> wanted_table \<Rightarrow> wanted_item list" where
  "build_queue head t limit fid rs =
     (let queue = first_of_each_id {} (head @ list_stale_searching (t - STALE_THRESHOLD_S) rs);
          queue = (case fid of None \<Rightarrow> queue | Some i \<Rightarrow> filter (\<lambda>r. followed_id r = Some i) queue)
      in case limit of None \<Rightarrow> queue | Some n \<Rightarrow> if n \<ge> 0 then take (nat n) queue else take (length queue - nat (- n)) queue)"

text \<open>\<open>_load_follow_map\<close> and \<open>_cadence_for\<close>: the follows are read once, before the items.\<close>

definition cadence_for :: "follow_table \<Rightarrow> cadence \<Rightarrow> wanted_item \<Rightarrow> cadence" where
  "cadence_for fs global item =
     effective_cadence (Option.bind (Option.bind (followed_id item) (\<lambda>i. get_follow i fs)) (\<lambda>f. cadence_from_json (cadence_text f))) global"

end
