(* ===== verification/Search_Pass.thy ===== *)
theory Search_Pass
  imports Pass_Gates
begin

text \<open>
  The search pass (\<open>acquire/_search_pass.py\<close>, \<open>AcquisitionService.run_search\<close>): each due item is claimed, searched and
  left with the verdict of its search; a starved episode gives way to its season. Parameters: the calendar
  (\<open>date.fromisoformat\<close> and the local day of a time). What the trackers answer and the clock may differ from one item to
  the next: both are functions of the item's id.
\<close>

record calendar =
  parse_date :: "string \<Rightarrow> int option"
  local_day :: "int \<Rightarrow> int"

record search_env =
  search_oc :: orchestrator
  search_clock :: int
  search_calendar :: calendar

fun SEARCH_OUTCOME_STATUS :: "exit_path \<Rightarrow> wanted_status" where
  "SEARCH_OUTCOME_STATUS Available = AVAILABLE"
| "SEARCH_OUTCOME_STATUS Tracker_Auth_Refused = ABANDONED"
| "SEARCH_OUTCOME_STATUS _ = PENDING"

definition STARVATION_OUTCOMES :: "exit_path set" where "STARVATION_OUTCOMES = {No_Candidates, No_Matching_Episode}"
definition STARVATION_THRESHOLD :: int where "STARVATION_THRESHOLD = 2"

datatype search_tag = Tag_Available | Tag_Waiting | Tag_Unverified | Tag_Abandoned | Tag_Skipped

subsection \<open>The verdict\<close>

definition json_of_text_option :: "string option \<Rightarrow> json" where
  "json_of_text_option x = (case x of None \<Rightarrow> JNull | Some t \<Rightarrow> JStr t)"

definition chosen_summary :: "release option \<Rightarrow> json_text option" where
  "chosen_summary chosen = (case chosen of None \<Rightarrow> None | Some r \<Rightarrow> Some (Text (JObj
     [(''title'', JStr (release_title r)), (''resolution'', json_of_text_option (release_resolution r)),
      (''source'', json_of_text_option (release_source r)), (''codec'', json_of_text_option (codec r)),
      (''language'', json_of_text_option (release_language r)), (''seeders'', JInt (seeders r))])))"

text \<open>A terminal verdict abandons only when the search before gave it too.\<close>

definition status_after :: "wanted_item \<Rightarrow> search_verdict \<Rightarrow> wanted_status" where
  "status_after item v =
     (let st = SEARCH_OUTCOME_STATUS (verdict_outcome v)
      in if st = ABANDONED \<and> verdict_outcome v = Tracker_Auth_Refused \<and> last_search_outcome item \<noteq> Some (exit_name (verdict_outcome v))
         then PENDING else st)"

definition found_after :: "search_verdict \<Rightarrow> int option" where
  "found_after v = (if verdict_disposition v = IS_AVAILABLE then map_option int (verdict_found v)
     else if verdict_disposition v = NOT_FOUND then Some 0 else None)"

definition apply_search_verdict :: "wanted_item \<Rightarrow> search_verdict \<Rightarrow> acquire_db \<Rightarrow> search_tag \<times> acquire_db" where
  "apply_search_verdict item v s =
     (let i = wanted_id item; outcome = exit_name (verdict_outcome v); st = status_after item v;
          s = on_wanted (record_search_outcome i outcome (found_after v) (chosen_summary (verdict_chosen v))) s
      in if st = ABANDONED then
           (Tag_Abandoned, emit (WantedAbandoned (media_ref item) outcome) (on_wanted (set_status i ABANDONED) s))
         else if st = AVAILABLE then (Tag_Available, on_wanted (set_status i AVAILABLE) s)
         else
           (if verdict_disposition v = NOT_FOUND then Tag_Waiting else Tag_Unverified,
            (if verdict_outcome v \<in> INCONCLUSIVE_OUTCOMES then on_wanted (\<lambda>rs. snd (refund_search_attempt i rs)) else (\<lambda>s. s))
              (on_wanted (set_status i PENDING) s)))"

subsection \<open>An episode gives way to its season\<close>

definition open_wanted :: "int \<Rightarrow> wanted_kind \<Rightarrow> int \<Rightarrow> int option \<Rightarrow> acquire_db \<Rightarrow> wanted_item option" where
  "open_wanted fid k n e s = find_wanted (Some fid) k (Some n) e (Some OPEN_WANTED_STATUSES) (wanted s)"

text \<open>The season's row: the open one, none when it was settled before, else a new one.\<close>

definition season_row :: "wanted_item \<Rightarrow> int \<Rightarrow> int \<Rightarrow> int \<Rightarrow> acquire_db \<Rightarrow> int option \<times> acquire_db" where
  "season_row item fid n t s =
     (case open_wanted fid SEASON n None s of
        Some r \<Rightarrow> (Some (wanted_id r), s)
      | None \<Rightarrow>
          if find_wanted (Some fid) SEASON (Some n) None None (wanted s) \<noteq> None then (None, s)
          else let (i, rs) = add_wanted (fresh_item (media_ref item) SEASON t (Some fid) (Some n) None) (wanted s)
               in (Some i, emit (WantedEnqueued (media_ref item) SEASON (Some n) None) (s\<lparr>wanted := rs\<rparr>)))"

definition live_episode_ids :: "int \<Rightarrow> int \<Rightarrow> acquire_db \<Rightarrow> int list" where
  "live_episode_ids fid n s = List.map_filter (\<lambda>e. map_option wanted_id
     (find_wanted (Some fid) EPISODE (Some n) (Some e) (Some {PENDING, SEARCHING, AVAILABLE}) (wanted s)))
     (map aired_episode (aired_of_season fid n (aired s)))"

definition enqueue_season_from_conversion :: "wanted_item \<Rightarrow> int \<Rightarrow> int \<Rightarrow> int \<Rightarrow> acquire_db \<Rightarrow> int option \<times> acquire_db" where
  "enqueue_season_from_conversion item fid n t s =
     (case season_row item fid n t s of
        (None, s) \<Rightarrow> (None, s)
      | (Some i, s) \<Rightarrow>
          (let ids = live_episode_ids fid n s;
               ids = (if wanted_id item \<in> set ids then ids else ids @ [wanted_id item])
           in (Some i, emit (SeasonAbsorbedEpisodes i (media_ref item) n ids) (on_wanted (\<lambda>rs. snd (absorb_episodes i ids rs)) s))))"

definition follow_titles :: "acquire_db \<Rightarrow> wanted_item \<Rightarrow> string option list" where
  "follow_titles s item = (case follow_of s item of None \<Rightarrow> [None, None] | Some f \<Rightarrow> [Some (follow_title f), original_title f])"

text \<open>The season packs among the results the episode's own filter dropped.\<close>

definition season_packs :: "search_env \<Rightarrow> acquire_db \<Rightarrow> wanted_item \<Rightarrow> search_verdict \<Rightarrow> release list" where
  "season_packs env s item v = (case (verdict_raw v, season item) of
     (Some raw, Some n) \<Rightarrow>
       if verdict_outcome v = No_Matching_Episode \<and> wanted_kind item = EPISODE
       then filter_to_season (titles_read (search_oc env)) n (episode_count_resolver s item) (follow_titles s item) raw else []
   | _ \<Rightarrow> [])"

definition season_fully_aired :: "calendar \<Rightarrow> int \<Rightarrow> int \<Rightarrow> int \<Rightarrow> acquire_db \<Rightarrow> bool" where
  "season_fully_aired cal fid n today s \<longleftrightarrow> aired_of_season fid n (aired s) \<noteq> []
     \<and> list_all (\<lambda>r. case parse_date cal (air_date r) of None \<Rightarrow> False | Some d \<Rightarrow> d \<le> today) (aired_of_season fid n (aired s))"

definition probe_season_pack :: "search_env \<Rightarrow> wanted_item \<Rightarrow> quality_profile \<Rightarrow> acquire_db \<Rightarrow> py_error + bool" where
  "probe_season_pack env item profile s =
     raising_bind (search_item (search_oc env) (fresh_item (media_ref item) SEASON (enqueued_at item) (followed_id item) (season item) None)
       profile {} s) (\<lambda>v. Inr (verdict_outcome v = Available))"

definition is_starved :: "wanted_item \<Rightarrow> search_verdict \<Rightarrow> bool" where
  "is_starved item v \<longleftrightarrow> verdict_outcome v \<in> STARVATION_OUTCOMES \<and> wanted_kind item = EPISODE \<and> season item \<noteq> None
     \<and> followed_id item \<noteq> None \<and> attempts item \<ge> STARVATION_THRESHOLD"

subsection \<open>One item\<close>

text \<open>The conversion: the outcome is recorded, then the season is enqueued; without a season row the search goes on.\<close>

definition convert_to_season :: "wanted_item \<Rightarrow> search_verdict \<Rightarrow> int \<Rightarrow> int \<Rightarrow> int \<Rightarrow> acquire_db \<Rightarrow> int option \<times> acquire_db" where
  "convert_to_season item v fid n t s = enqueue_season_from_conversion item fid n t
     (on_wanted (record_search_outcome (wanted_id item) (exit_name (verdict_outcome v)) (Some 0) None) s)"

definition escalated :: "wanted_item \<Rightarrow> search_verdict \<Rightarrow> int \<Rightarrow> int \<Rightarrow> acquire_db \<Rightarrow> acquire_db" where
  "escalated item v i n = emit (SeasonEscalatedAfterEpisodeFailures i (media_ref item) n (exit_name (verdict_outcome v)) [wanted_id item])"

type_synonym probed = "(int \<times> int) set"

definition escalate :: "search_env \<Rightarrow> wanted_item \<Rightarrow> search_verdict \<Rightarrow> quality_profile \<Rightarrow> int \<Rightarrow> int \<Rightarrow> int \<Rightarrow> probed
    \<Rightarrow> (acquire_db, search_tag \<times> probed) act" where
  "escalate env item v profile fid n t seen =
     (if (fid, n) \<in> seen then then_with (asking (apply_search_verdict item v)) (\<lambda>tag. done_with (tag, seen))
      else let seen = insert (fid, n) seen in looking (\<lambda>s.
        then_with (raising (if season_fully_aired (search_calendar env) fid n (local_day (search_calendar env) t) s
                            then probe_season_pack env item profile s else Inr False)) (\<lambda>packed.
          if \<not> packed then then_with (asking (apply_search_verdict item v)) (\<lambda>tag. done_with (tag, seen))
          else then_with (asking (convert_to_season item v fid n t)) (\<lambda>i. case i of
            Some i \<Rightarrow> then_do (writing (escalated item v i n)) (done_with (Tag_Waiting, seen))
          | None \<Rightarrow> then_with (asking (apply_search_verdict item v)) (\<lambda>tag. done_with (tag, seen))))))"

definition settle_search :: "search_env \<Rightarrow> wanted_item \<Rightarrow> search_verdict \<Rightarrow> quality_profile \<Rightarrow> int \<Rightarrow> probed
    \<Rightarrow> (acquire_db, search_tag \<times> probed) act" where
  "settle_search env item v profile t seen =
     (if is_starved item v then escalate env item v profile (the (followed_id item)) (the (season item)) t seen
      else then_with (asking (apply_search_verdict item v)) (\<lambda>tag. done_with (tag, seen)))"

text \<open>The conversion asserts that the item has a follow.\<close>

definition after_search :: "search_env \<Rightarrow> wanted_item \<Rightarrow> search_verdict \<Rightarrow> quality_profile \<Rightarrow> int \<Rightarrow> probed
    \<Rightarrow> (acquire_db, search_tag \<times> probed) act" where
  "after_search env item v profile t seen = looking (\<lambda>s.
     if season_packs env s item v = [] then settle_search env item v profile t seen
     else case (followed_id item, season item) of
       (Some fid, Some n) \<Rightarrow> then_with (asking (convert_to_season item v fid n t)) (\<lambda>i.
          if i \<noteq> None then done_with (Tag_Waiting, seen) else settle_search env item v profile t seen)
     | _ \<Rightarrow> then_do (writing (on_wanted (record_search_outcome (wanted_id item) (exit_name (verdict_outcome v)) (Some 0) None)))
          (raising (Inl AssertionError)))"

definition search_claimed :: "search_env \<Rightarrow> wanted_item \<Rightarrow> int \<Rightarrow> probed \<Rightarrow> (acquire_db, search_tag \<times> probed) act" where
  "search_claimed env item t seen = looking (\<lambda>s.
     then_with (raising (effective_profile s item)) (\<lambda>profile.
     then_with (raising (search_item (search_oc env) item profile (set (list_tried_hashes (wanted_id item) (wanted s))) s)) (\<lambda>v.
       after_search env item v profile t seen)))"

definition search_one :: "search_env \<Rightarrow> wanted_item \<Rightarrow> int \<Rightarrow> cadence \<Rightarrow> probed \<Rightarrow> (acquire_db, search_tag \<times> probed) act" where
  "search_one env item t cad seen =
     then_with (asking (cadence_gates item t cad)) (\<lambda>g. case g of
       Gate_Abandoned \<Rightarrow> done_with (Tag_Abandoned, seen)
     | Gate_Skipped \<Rightarrow> done_with (Tag_Skipped, seen)
     | Proceed \<Rightarrow>
         then_with (asking (\<lambda>s. let (won, rs) = claim_for_search (wanted_id item) (search_clock env) (wanted s) in (won, s\<lparr>wanted := rs\<rparr>))) (\<lambda>won.
           if \<not> won then done_with (Tag_Skipped, seen)
           else then_with (reading (\<lambda>s. get_wanted (wanted_id item) (wanted s))) (\<lambda>current. case current of
             None \<Rightarrow> done_with (Tag_Skipped, seen)
           | Some current \<Rightarrow> search_claimed env current t seen)))"

subsection \<open>The pass\<close>

text \<open>An item whose stored JSON cannot be read is abandoned and the pass goes on; another exception leaves the pass.\<close>

definition search_guarded :: "search_env \<Rightarrow> wanted_item \<Rightarrow> int \<Rightarrow> cadence \<Rightarrow> probed \<Rightarrow> (acquire_db, search_tag \<times> probed) act" where
  "search_guarded env item t cad seen s =
     (case search_one env item t cad seen s of
        (Inl JSONDecodeError, s') \<Rightarrow> (Inr (Tag_Abandoned, seen), on_wanted (set_status (wanted_id item) ABANDONED) s')
      | r \<Rightarrow> r)"

fun search_items :: "(int \<Rightarrow> search_env) \<Rightarrow> int \<Rightarrow> follow_table \<Rightarrow> cadence \<Rightarrow> wanted_item list \<Rightarrow> probed \<Rightarrow> (acquire_db, search_tag list) act" where
  "search_items envs t fs global [] seen = done_with []"
| "search_items envs t fs global (r # rs) seen =
     then_with (search_guarded (envs (wanted_id r)) r t (cadence_for fs global r) seen) (\<lambda>(tag, seen).
     then_with (search_items envs t fs global rs seen) (\<lambda>tags. done_with (tag # tags)))"

text \<open>\<open>run_search\<close>; the summary counts the tags.\<close>

definition run_search :: "(int \<Rightarrow> search_env) \<Rightarrow> int \<Rightarrow> cadence \<Rightarrow> int option \<Rightarrow> int option \<Rightarrow> (acquire_db, search_tag list) act" where
  "run_search envs t global limit fid = looking (\<lambda>s.
     search_items envs t (follows s) global (build_queue (list_pending (wanted s)) t limit fid (wanted s)) {})"

end
