(* ===== verification/Grab_Pass.thy ===== *)
theory Grab_Pass
  imports Pass_Gates
begin

text \<open>
  The grab pass (\<open>acquire/_grab_pass.py\<close>, \<open>AcquisitionService.run\<close>): each available item is claimed, handed to the
  orchestrator and left grabbed, or where its failure puts it. What the trackers and the client answer and the clock may
  differ from one item to the next: they are functions of the item's id.
\<close>

record grab_env =
  grab_oc :: orchestrator
  grab_clock :: int
  run_uid :: "string option"
  tracker_economy :: "string \<rightharpoonup> int \<times> real"

datatype grab_tag = Tag_Grabbed | Tag_Retried | Tag_Given_Up | Tag_Passed

text \<open>The intent: written only in a claimed row that carries no hash.\<close>

definition intent_of :: "int \<Rightarrow> string \<Rightarrow> acquire_db \<Rightarrow> acquire_db" where
  "intent_of i h = on_wanted (\<lambda>rs. snd (record_grab_intent i h rs))"

definition release_intent :: "int \<Rightarrow> acquire_db \<Rightarrow> acquire_db" where
  "release_intent i = on_wanted (\<lambda>rs. snd (clear_grab_intent i rs))"

definition record_seed_obligation :: "grab_env \<Rightarrow> string \<Rightarrow> string \<Rightarrow> acquire_db \<Rightarrow> acquire_db" where
  "record_seed_obligation env h tracker s = (case tracker_economy env tracker of
     None \<Rightarrow> s
   | Some (seed_time, ratio) \<Rightarrow>
       if find_active_by_hash h (seeds s) \<noteq> None \<or> \<not> valid_obligation (new_obligation h tracker seed_time ratio (grab_clock env) None) then s
       else s\<lparr>seeds := snd (add_obligation (new_obligation h tracker seed_time ratio (grab_clock env) None) (seeds s))\<rparr>)"

definition persist_success :: "grab_env \<Rightarrow> wanted_item \<Rightarrow> grab_outcome \<Rightarrow> acquire_db \<Rightarrow> grab_tag \<times> acquire_db" where
  "persist_success env item out s =
     (let i = wanted_id item; h = (case grab_hash out of None \<Rightarrow> [] | Some h \<Rightarrow> h);
          tracker = (case grab_chosen out of None \<Rightarrow> [] | Some r \<Rightarrow> provider r);
          s = on_wanted (mark_grabbed i h) (on_wanted (record_search_outcome i ''grabbed'' (map_option int (grab_found out)) None) s);
          s = (if h \<noteq> [] then emit (ProvenanceGrab (lower h) (followed_id item) (media_ref item) (wanted_kind item) (grab_clock env)
                 (season item) (episode item) (run_uid env) (map_option release_title (grab_chosen out))) s else s);
          s = (if h \<noteq> [] \<and> tracker \<noteq> [] then record_seed_obligation env h tracker s else s)
      in (Tag_Grabbed, emit (GrabSucceeded (media_ref item) h tracker (grab_category out) (grab_tags_added out)) s))"

definition reason_or :: "grab_outcome \<Rightarrow> string \<Rightarrow> string" where
  "reason_or out dflt = (case grab_reason out of None \<Rightarrow> dflt | Some r \<Rightarrow> if r = [] then dflt else r)"

definition disposition_name :: "disposition \<Rightarrow> string" where
  "disposition_name d = (case d of TERMINAL \<Rightarrow> ''terminal'' | RETRYABLE \<Rightarrow> ''retryable'' | _ \<Rightarrow> ''not_found'')"

definition record_failure :: "grab_env \<Rightarrow> wanted_item \<Rightarrow> grab_outcome \<Rightarrow> acquire_db \<Rightarrow> acquire_db" where
  "record_failure env item out s =
     (if grab_disposition out = NOT_FOUND then s
      else on_wanted (record_grab_failure (wanted_id item) (reason_or out (disposition_name (grab_disposition out))) (grab_clock env)) s)"

definition persist_failure :: "grab_env \<Rightarrow> wanted_item \<Rightarrow> grab_outcome \<Rightarrow> acquire_db \<Rightarrow> grab_tag \<times> acquire_db" where
  "persist_failure env item out s =
     (let i = wanted_id item; s = record_failure env item out (release_intent i s)
      in if grab_disposition out = TERMINAL then
           (Tag_Given_Up, on_wanted (set_status i ABANDONED) (on_wanted (record_search_outcome i (reason_or out ''terminal'') None None) s))
         else if grab_disposition out = NOT_FOUND then
           (Tag_Retried, on_wanted (set_status i PENDING) (on_wanted (record_search_outcome i (reason_or out ''no_candidates'') (Some 0) None) s))
         else (Tag_Retried, on_wanted (set_status i (if last_search_outcome item = Some ''available'' then AVAILABLE else PENDING)) s))"

definition grab_current :: "grab_env \<Rightarrow> wanted_item \<Rightarrow> (acquire_db, grab_tag) act" where
  "grab_current env item =
     (if wanted_status item = GRABBED \<or> grabbed_hash item \<noteq> None then done_with Tag_Passed
      else looking (\<lambda>s. then_with (raising (effective_profile s item)) (\<lambda>profile.
        then_with (grab (grab_oc env) (intent_of (wanted_id item)) item profile (set (list_tried_hashes (wanted_id item) (wanted s)))) (\<lambda>out.
          asking (if grab_disposition out = SUCCESS then persist_success env item out else persist_failure env item out)))))"

definition claim_item :: "grab_env \<Rightarrow> wanted_item \<Rightarrow> acquire_db \<Rightarrow> bool \<times> acquire_db" where
  "claim_item env item s =
     (let (won, rs) = (if wanted_status item = SEARCHING then claim_for_search (wanted_id item) (grab_clock env) (wanted s)
                       else claim_for_grab (wanted_id item) (grab_clock env) (wanted s))
      in (won, s\<lparr>wanted := rs\<rparr>))"

definition process_item :: "grab_env \<Rightarrow> wanted_item \<Rightarrow> int \<Rightarrow> cadence \<Rightarrow> (acquire_db, grab_tag) act" where
  "process_item env item t cad =
     then_with (asking (cutoff_gate item t cad)) (\<lambda>g. case g of
       Gate_Abandoned \<Rightarrow> done_with Tag_Given_Up
     | Gate_Skipped \<Rightarrow> done_with Tag_Passed
     | Proceed \<Rightarrow>
         then_with (asking (claim_item env item)) (\<lambda>won.
           if \<not> won then done_with Tag_Passed
           else then_with (reading (\<lambda>s. get_wanted (wanted_id item) (wanted s))) (\<lambda>current. case current of
             None \<Rightarrow> done_with Tag_Passed
           | Some current \<Rightarrow> grab_current env current)))"

definition process_guarded :: "grab_env \<Rightarrow> wanted_item \<Rightarrow> int \<Rightarrow> cadence \<Rightarrow> (acquire_db, grab_tag) act" where
  "process_guarded env item t cad s =
     (case process_item env item t cad s of
        (Inl JSONDecodeError, s') \<Rightarrow> (Inr Tag_Given_Up, on_wanted (set_status (wanted_id item) ABANDONED) s')
      | r \<Rightarrow> r)"

fun process_items :: "(int \<Rightarrow> grab_env) \<Rightarrow> int \<Rightarrow> follow_table \<Rightarrow> cadence \<Rightarrow> wanted_item list \<Rightarrow> (acquire_db, grab_tag list) act" where
  "process_items envs t fs global [] = done_with []"
| "process_items envs t fs global (r # rs) =
     then_with (process_guarded (envs (wanted_id r)) r t (cadence_for fs global r)) (\<lambda>tag.
     then_with (process_items envs t fs global rs) (\<lambda>tags. done_with (tag # tags)))"

text \<open>\<open>run\<close>: the caps, the scope's own check, the queue of the available items. An open circuit in the scope's check
  leaves the pass (\<open>UncaughtCircuitOpen\<close>).\<close>

definition run_grab :: "orchestrator \<Rightarrow> (int \<Rightarrow> grab_env) \<Rightarrow> int \<Rightarrow> cadence \<Rightarrow> int option \<Rightarrow> int option \<Rightarrow> (acquire_db, grab_tag list) act" where
  "run_grab oc envs t global limit fid =
     then_do (writing (apply_global_caps oc))
       (case scope_allows_grab oc of
          Inl _ \<Rightarrow> raising (Inl UncaughtCircuitOpen)
        | Inr False \<Rightarrow> done_with []
        | Inr True \<Rightarrow> looking (\<lambda>s. process_items envs t (follows s) global (build_queue (list_available (wanted s)) t limit fid (wanted s))))"

end
