(* ===== verification/Wanted_Facts.thy ===== *)
theory Wanted_Facts
  imports Search_Pass Grab_Pass
begin

text \<open>
  What the statements on the wanted table keep: ids stay unique, no follow has two open wanteds for one target, and no
  row that can be claimed carries a hash. Also the list of tried hashes.
\<close>

subsection \<open>The table\<close>

definition target :: "wanted_item \<Rightarrow> int option \<times> wanted_kind \<times> int option \<times> int option" where
  "target r = (followed_id r, wanted_kind r, season r, episode r)"

definition one_open :: "wanted_table \<Rightarrow> bool" where
  "one_open rs \<longleftrightarrow> (\<forall>r \<in> set rs. \<forall>r' \<in> set rs.
     is_open r \<and> is_open r' \<and> followed_id r \<noteq> None \<and> target r = target r' \<longrightarrow> wanted_id r = wanted_id r')"

definition claimable_rows_clean :: "wanted_table \<Rightarrow> bool" where
  "claimable_rows_clean rs \<longleftrightarrow> (\<forall>r \<in> set rs. wanted_status r \<in> {PENDING, AVAILABLE} \<longrightarrow> grabbed_hash r = None)"

definition wanted_ok :: "wanted_table \<Rightarrow> bool" where
  "wanted_ok rs \<longleftrightarrow> distinct (map wanted_id rs) \<and> one_open rs \<and> claimable_rows_clean rs"

text \<open>What an update may do to a row: keep its id and target, open nothing that was closed, leave no hash in a row that
  can be claimed.\<close>

definition calm :: "wanted_item \<Rightarrow> wanted_item \<Rightarrow> bool" where
  "calm r r' \<longleftrightarrow> wanted_id r' = wanted_id r \<and> target r' = target r \<and> (is_open r' \<longrightarrow> is_open r)
     \<and> (wanted_status r' \<in> {PENDING, AVAILABLE} \<longrightarrow> grabbed_hash r' = None)"

lemma wanted_ok_clean:
  "wanted_ok rs \<Longrightarrow> r \<in> set rs \<Longrightarrow> wanted_status r = PENDING \<Longrightarrow> grabbed_hash r = None"
  "wanted_ok rs \<Longrightarrow> r \<in> set rs \<Longrightarrow> wanted_status r = AVAILABLE \<Longrightarrow> grabbed_hash r = None"
  by (auto simp: wanted_ok_def claimable_rows_clean_def)

lemma wanted_ok_distinct: "wanted_ok rs \<Longrightarrow> distinct (map wanted_id rs)"
  by (simp add: wanted_ok_def)

lemma wanted_ok_update:
  assumes ok: "wanted_ok rs" and calm: "\<And>r. r \<in> set rs \<Longrightarrow> P r \<Longrightarrow> calm r (f r)"
  shows "wanted_ok (sql_update P f rs)"
proof -
  have row: "\<exists>r0 \<in> set rs. wanted_id r = wanted_id r0 \<and> target r = target r0 \<and> (is_open r \<longrightarrow> is_open r0)
      \<and> (wanted_status r \<in> {PENDING, AVAILABLE} \<longrightarrow> grabbed_hash r = None)"
    if "r \<in> set (sql_update P f rs)" for r
  proof -
    obtain r0 where r0: "r0 \<in> set rs" "r = (if P r0 then f r0 else r0)" using \<open>r \<in> set (sql_update P f rs)\<close> by (auto simp: set_sql_update)
    have "wanted_status r0 \<in> {PENDING, AVAILABLE} \<longrightarrow> grabbed_hash r0 = None" using wanted_ok_clean [OF ok r0(1)] by auto
    then show ?thesis using r0 calm [OF r0(1)] by (intro bexI [OF _ r0(1)]) (auto simp: calm_def)
  qed
  have "map wanted_id (sql_update P f rs) = map wanted_id rs"
    using calm by (auto simp: sql_update_def calm_def)
  then have "distinct (map wanted_id (sql_update P f rs))" using ok by (simp add: wanted_ok_def)
  moreover have "one_open (sql_update P f rs)"
    unfolding one_open_def
  proof (intro ballI impI)
    fix r r' assume r: "r \<in> set (sql_update P f rs)" and r': "r' \<in> set (sql_update P f rs)"
      and open_: "is_open r \<and> is_open r' \<and> followed_id r \<noteq> None \<and> target r = target r'"
    obtain r0 r0' where "r0 \<in> set rs" "r0' \<in> set rs" "wanted_id r = wanted_id r0" "target r = target r0" "is_open r0"
        "wanted_id r' = wanted_id r0'" "target r' = target r0'" "is_open r0'"
      using row [OF r] row [OF r'] open_ by blast
    moreover have "followed_id r0 = followed_id r" using calculation(4) by (simp add: target_def)
    ultimately show "wanted_id r = wanted_id r'" using ok open_ unfolding wanted_ok_def one_open_def by metis
  qed
  moreover have "claimable_rows_clean (sql_update P f rs)" using row unfolding claimable_rows_clean_def by blast
  ultimately show ?thesis by (simp add: wanted_ok_def)
qed

lemma wanted_ok_move: "wanted_ok rs \<Longrightarrow> (\<And>r. r \<in> set rs \<Longrightarrow> wanted_id r = i \<Longrightarrow> P r \<Longrightarrow> calm r (f r)) \<Longrightarrow> wanted_ok (snd (move i P f rs))"
  unfolding move_def snd_conv by (rule wanted_ok_update) blast+

lemma next_wanted_id_fresh: "r \<in> set rs \<Longrightarrow> wanted_id r < next_wanted_id rs"
proof -
  assume "r \<in> set rs"
  then have "wanted_id r \<le> Max (insert 0 (set (map wanted_id rs)))" by (intro Max_ge) auto
  then show ?thesis by (simp add: next_wanted_id_def)
qed

lemma wanted_ok_add:
  assumes ok: "wanted_ok rs"
    and none: "find_wanted (Some fid) k n e (Some OPEN_WANTED_STATUSES) rs = None"
  shows "wanted_ok (snd (add_wanted (fresh_item ref k t (Some fid) n e) rs))"
proof -
  let ?new = "(fresh_item ref k t (Some fid) n e)\<lparr>wanted_id := next_wanted_id rs, grabbed_hash := None, tried_hashes_json := None,
    last_search_best := None, last_grab_reason := None, last_grab_at := None\<rparr>"
  define new where "new = ?new"
  have rows: "snd (add_wanted (fresh_item ref k t (Some fid) n e) rs) = rs @ [new]" by (simp add: add_wanted_def new_def)
  have new: "target new = (Some fid, k, n, e)" "wanted_id new = next_wanted_id rs" "grabbed_hash new = None"
    by (simp_all add: target_def fresh_item_def new_def)
  have closed: "\<not> is_open r" if "r \<in> set rs" "target r = target new" for r
    using none that new(1) by (auto simp: find_wanted_def sql_first_None is_target_def is_open_def target_def)
  have "next_wanted_id rs \<notin> wanted_id ` set rs" using next_wanted_id_fresh by (metis imageE less_irrefl)
  then have "distinct (map wanted_id (rs @ [new]))" using wanted_ok_distinct [OF ok] new(2) by simp
  moreover have "one_open (rs @ [new])"
    unfolding one_open_def
  proof (intro ballI impI)
    fix r r' assume r: "r \<in> set (rs @ [new])" "r' \<in> set (rs @ [new])"
      and open_: "is_open r \<and> is_open r' \<and> followed_id r \<noteq> None \<and> target r = target r'"
    consider "r = new" "r' = new" | "r \<in> set rs" "r' = new" | "r = new" "r' \<in> set rs" | "r \<in> set rs" "r' \<in> set rs" using r by auto
    then show "wanted_id r = wanted_id r'"
    proof cases
      case 2
      then show ?thesis using closed [of r] open_ by metis
    next
      case 3
      then show ?thesis using closed [of r'] open_ by metis
    next
      case 4
      then show ?thesis using ok open_ unfolding wanted_ok_def one_open_def by metis
    qed simp
  qed
  moreover have "claimable_rows_clean (rs @ [new])" using ok new(3) unfolding wanted_ok_def claimable_rows_clean_def by auto
  ultimately show ?thesis unfolding rows wanted_ok_def by blast
qed

subsection \<open>The statements\<close>

lemmas calm_simps = calm_def target_def is_open_def OPEN_WANTED_STATUSES_def

lemma wanted_ok_statements [wf_intro]:
  "wanted_ok rs \<Longrightarrow> wanted_ok (snd (claim_for_search i t rs))"
  "wanted_ok rs \<Longrightarrow> wanted_ok (snd (claim_for_grab i t rs))"
  "wanted_ok rs \<Longrightarrow> wanted_ok (snd (refund_search_attempt i rs))"
  "wanted_ok rs \<Longrightarrow> wanted_ok (snd (reclaim_stale_searching i t rs))"
  "wanted_ok rs \<Longrightarrow> wanted_ok (snd (record_grab_intent i h rs))"
  "wanted_ok rs \<Longrightarrow> wanted_ok (snd (confirm_grab_intent i h rs))"
  "wanted_ok rs \<Longrightarrow> wanted_ok (snd (clear_grab_intent i rs))"
  "wanted_ok rs \<Longrightarrow> wanted_ok (snd (mark_done i rs))"
  "wanted_ok rs \<Longrightarrow> wanted_ok (snd (requeue_missing i rs))"
  "wanted_ok rs \<Longrightarrow> wanted_ok (snd (requeue_for_reswitch i h t rs))"
  "wanted_ok rs \<Longrightarrow> wanted_ok (append_tried_hash i h rs)"
  "wanted_ok rs \<Longrightarrow> wanted_ok (snd (fallback_season i rs))"
  "wanted_ok rs \<Longrightarrow> wanted_ok (record_search_outcome i outcome found best rs)"
  "wanted_ok rs \<Longrightarrow> wanted_ok (record_grab_failure i reason t rs)"
  unfolding claim_for_search_def claim_for_grab_def refund_search_attempt_def reclaim_stale_searching_def record_grab_intent_def
    confirm_grab_intent_def clear_grab_intent_def mark_done_def requeue_missing_def requeue_for_reswitch_def append_tried_hash_def
    fallback_season_def record_search_outcome_def record_grab_failure_def Let_def
  by (auto intro!: wanted_ok_move simp: calm_simps dest: wanted_ok_clean)

text \<open>What needs the row's state: putting a row back, marking it grabbed.\<close>

definition working :: "int \<Rightarrow> wanted_table \<Rightarrow> bool" where
  "working i rs \<longleftrightarrow> (\<exists>r \<in> set rs. wanted_id r = i \<and> wanted_status r = SEARCHING)"

definition held :: "int \<Rightarrow> wanted_table \<Rightarrow> bool" where
  "held i rs \<longleftrightarrow> (\<exists>r \<in> set rs. wanted_id r = i \<and> wanted_status r = SEARCHING \<and> grabbed_hash r = None)"

lemma held_row: "wanted_ok rs \<Longrightarrow> held i rs \<Longrightarrow> r \<in> set rs \<Longrightarrow> wanted_id r = i \<Longrightarrow> wanted_status r = SEARCHING \<and> grabbed_hash r = None"
  unfolding held_def using keyed_unique [OF wanted_ok_distinct] by metis

lemma working_row: "wanted_ok rs \<Longrightarrow> working i rs \<Longrightarrow> r \<in> set rs \<Longrightarrow> wanted_id r = i \<Longrightarrow> wanted_status r = SEARCHING"
  unfolding working_def using keyed_unique [OF wanted_ok_distinct] by metis

lemma held_working: "held i rs \<Longrightarrow> working i rs"
  by (auto simp: held_def working_def)

lemma set_status_closed: "wanted_ok rs \<Longrightarrow> st \<notin> OPEN_WANTED_STATUSES \<Longrightarrow> wanted_ok (set_status i st rs)"
  unfolding set_status_def by (rule wanted_ok_move) (auto simp: calm_simps)

lemma set_status_held: "wanted_ok rs \<Longrightarrow> held i rs \<Longrightarrow> wanted_ok (set_status i st rs)"
  unfolding set_status_def by (rule wanted_ok_move) (auto simp: calm_simps dest: held_row)

lemma mark_grabbed_working: "wanted_ok rs \<Longrightarrow> working i rs \<Longrightarrow> wanted_ok (mark_grabbed i h rs)"
  unfolding mark_grabbed_def by (rule wanted_ok_move) (auto simp: calm_simps dest: working_row)

lemma absorb_ok: "wanted_ok rs \<Longrightarrow> wanted_ok (snd (absorb_episodes i ids rs))"
  by (auto simp: absorb_episodes_def Let_def calm_simps intro!: wanted_ok_update)

lemma requeue_episode_ok: "wanted_ok rs \<Longrightarrow> wanted_ok (snd (requeue_episode ref fid n t e rs))"
  by (auto simp: requeue_episode_def intro: wanted_ok_add split: option.split)

lemma requeue_episodes_ok: "wanted_ok rs \<Longrightarrow> wanted_ok (snd (requeue_episodes ref fid n t es rs))"
proof (induction es arbitrary: rs)
  case (Cons e es)
  have "wanted_ok (snd (requeue_episodes ref fid n t es (snd (requeue_episode ref fid n t e rs))))"
    using Cons requeue_episode_ok by blast
  then show ?case by (simp add: Let_def case_prod_beta)
qed simp

lemma fall_back_ok: "wanted_ok (wanted s) \<Longrightarrow> wanted_ok (wanted (snd (fall_back_to_episodes item fid n t named s)))"
  using requeue_episodes_ok wanted_ok_statements(12)
  by (simp add: fall_back_to_episodes_def Let_def case_prod_beta emit_def)

text \<open>A claim that is won gives a working row, clean when the table is.\<close>

lemma move_lost: "distinct (map wanted_id rs) \<Longrightarrow> \<not> fst (move i P f rs) \<Longrightarrow> snd (move i P f rs) = rs \<and> \<not> (\<exists>r \<in> set rs. wanted_id r = i \<and> P r)"
  using sql_count_keyed [of wanted_id rs i P] by (auto simp: move_def intro!: sql_update_none split: if_splits)

lemma move_won: "fst (move i P f rs) \<Longrightarrow> \<exists>r \<in> set rs. wanted_id r = i \<and> P r \<and> f r \<in> set (snd (move i P f rs))"
proof -
  assume "fst (move i P f rs)"
  then have "filter (\<lambda>r. wanted_id r = i \<and> P r) rs \<noteq> []" by (auto simp: move_def sql_count_def)
  then show ?thesis by (auto simp: filter_empty_conv move_def set_sql_update intro!: image_eqI)
qed

lemma move_held:
  assumes "fst (move i P f rs)"
    and "\<And>r. r \<in> set rs \<Longrightarrow> P r \<Longrightarrow> wanted_id (f r) = wanted_id r \<and> wanted_status (f r) = SEARCHING \<and> grabbed_hash (f r) = None"
  shows "held i (snd (move i P f rs))"
proof -
  obtain r where "r \<in> set rs" "wanted_id r = i" "P r" "f r \<in> set (snd (move i P f rs))" using move_won [OF assms(1)] by blast
  then show ?thesis unfolding held_def using assms(2) by (intro bexI [of _ "f r"]) auto
qed

lemma claim_for_search_held:
  "wanted_ok rs \<Longrightarrow> fst (claim_for_search i t rs) \<Longrightarrow> held i (snd (claim_for_search i t rs))"
  unfolding claim_for_search_def by (rule move_held) (auto dest: wanted_ok_clean)

lemma claim_for_grab_held:
  "wanted_ok rs \<Longrightarrow> fst (claim_for_grab i t rs) \<Longrightarrow> held i (snd (claim_for_grab i t rs))"
  unfolding claim_for_grab_def by (rule move_held) (auto dest: wanted_ok_clean)

lemma bex_sql_update: "(\<exists>r \<in> set (sql_update P f rs). Q r) \<longleftrightarrow> (\<exists>r \<in> set rs. Q (if P r then f r else r))"
  by (simp only: set_sql_update bex_simps)

lemma clear_intent_held: "working i rs \<Longrightarrow> held i (snd (clear_grab_intent i rs))"
  unfolding working_def held_def clear_grab_intent_def move_def snd_conv bex_sql_update
  by (elim bexE, rule bexI) auto

lemma record_keeps:
  "held i (record_search_outcome j outcome found best rs) \<longleftrightarrow> held i rs"
  "held i (record_grab_failure j reason t rs) \<longleftrightarrow> held i rs"
  "working i (record_search_outcome j outcome found best rs) \<longleftrightarrow> working i rs"
  "working i (snd (record_grab_intent j h rs)) \<longleftrightarrow> working i rs"
  unfolding held_def working_def record_search_outcome_def record_grab_failure_def record_grab_intent_def move_def snd_conv bex_sql_update
  by (auto intro!: bex_cong)

end
