(* ===== verification/Pass_Facts.thy ===== *)
theory Pass_Facts
  imports Wanted_Facts
begin

text \<open>
  What a pass over the wanted items leaves. Both passes claim an item before they work on it (\<open>searching\<close>); whatever the
  trackers and the client answer, a pass that returns leaves no item claimed.
\<close>

subsection \<open>The claims of an item\<close>

text \<open>No row but the item's own is newly claimed.\<close>

definition claims_of :: "int \<Rightarrow> wanted_table \<Rightarrow> wanted_table \<Rightarrow> bool" where
  "claims_of i rs rs' \<longleftrightarrow> (\<forall>r \<in> set rs'. wanted_status r = SEARCHING \<and> wanted_id r \<noteq> i \<longrightarrow> r \<in> set rs)"

named_theorems claims_intro \<open>statements that claim no row but the item's\<close>

lemma claims_refl [claims_intro]: "claims_of i rs rs"
  by (simp add: claims_of_def)

lemma claims_trans: "claims_of i rs rs' \<Longrightarrow> claims_of i rs' rs'' \<Longrightarrow> claims_of i rs rs''"
  by (auto simp: claims_of_def)

lemma claims_update:
  "(\<And>r. r \<in> set rs \<Longrightarrow> P r \<Longrightarrow> wanted_id (f r) = i \<or> wanted_status (f r) \<noteq> SEARCHING) \<Longrightarrow> claims_of i rs (sql_update P f rs)"
  by (auto simp: claims_of_def set_sql_update)

lemma claims_move: "(\<And>r. wanted_id (f r) = wanted_id r) \<Longrightarrow> claims_of i rs (snd (move i P f rs))"
  by (auto simp: move_def intro: claims_update)

lemma claims_statements [claims_intro]:
  "claims_of i rs (snd (claim_for_search i t rs))"
  "claims_of i rs (snd (claim_for_grab i t rs))"
  "claims_of i rs (snd (refund_search_attempt i rs))"
  "claims_of i rs (snd (reclaim_stale_searching i t rs))"
  "claims_of i rs (snd (record_grab_intent i h rs))"
  "claims_of i rs (snd (clear_grab_intent i rs))"
  "claims_of i rs (set_status i st rs)"
  "claims_of i rs (mark_grabbed i h rs)"
  "claims_of i rs (snd (fallback_season i rs))"
  "claims_of i rs (record_search_outcome i outcome found best rs)"
  "claims_of i rs (record_grab_failure i reason t rs)"
  unfolding claim_for_search_def claim_for_grab_def refund_search_attempt_def reclaim_stale_searching_def record_grab_intent_def
    clear_grab_intent_def set_status_def mark_grabbed_def fallback_season_def record_search_outcome_def record_grab_failure_def
  by (rule claims_move, simp)+

lemma claims_add [claims_intro]: "claims_of i rs (snd (add_wanted (fresh_item ref k t fid n e) rs))"
  by (auto simp: claims_of_def add_wanted_def fresh_item_def)

lemma claims_absorb [claims_intro]: "claims_of i rs (snd (absorb_episodes j ids rs))"
  by (auto simp: absorb_episodes_def Let_def intro: claims_refl claims_update)

lemma claims_requeue: "claims_of i rs (snd (requeue_episodes ref fid n t es rs))"
proof (induction es arbitrary: rs)
  case (Cons e es)
  have "claims_of i rs (snd (requeue_episode ref fid n t e rs))"
    by (auto simp: requeue_episode_def intro: claims_intro split: option.split)
  then show ?case using Cons claims_trans by (fastforce simp: Let_def case_prod_beta)
qed (simp add: claims_refl)

lemma claims_fallback_season: "claims_of i rs (snd (fallback_season j rs))"
  by (auto simp: fallback_season_def move_def intro: claims_update)

lemma claims_fall_back: "claims_of i (wanted s) (wanted (snd (fall_back_to_episodes item fid n t named s)))"
  using claims_requeue claims_fallback_season claims_trans
  by (simp add: fall_back_to_episodes_def Let_def case_prod_beta emit_def) blast

subsection \<open>A claimed item is worked on and left\<close>

text \<open>During the work on item \<open>i\<close>, begun with the rows \<open>rs\<close>: the table is sound, and no other row is newly claimed.\<close>

definition sound :: "int \<Rightarrow> wanted_table \<Rightarrow> acquire_db \<Rightarrow> bool" where
  "sound i rs s \<longleftrightarrow> wanted_ok (wanted s) \<and> claims_of i rs (wanted s)"

definition claimed :: "int \<Rightarrow> wanted_table \<Rightarrow> acquire_db \<Rightarrow> bool" where
  "claimed i rs s \<longleftrightarrow> sound i rs s \<and> held i (wanted s)"

definition settled :: "int \<Rightarrow> wanted_table \<Rightarrow> acquire_db \<Rightarrow> bool" where
  "settled i rs s \<longleftrightarrow> sound i rs s \<and> \<not> working i (wanted s)"

lemma claimed_sound: "claimed i rs s \<Longrightarrow> sound i rs s" and settled_sound: "settled i rs s \<Longrightarrow> sound i rs s"
  by (simp_all add: claimed_def settled_def)

lemma wanted_simps [simp]: "wanted (on_wanted f s) = f (wanted s)" "wanted (emit e s) = wanted s"
  by (simp_all add: on_wanted_def emit_def)

lemma sound_step: "sound i rs s \<Longrightarrow> wanted_ok (wanted s') \<Longrightarrow> claims_of i (wanted s) (wanted s') \<Longrightarrow> sound i rs s'"
  using claims_trans by (auto simp: sound_def)


lemma sound_on: "sound i rs s \<Longrightarrow> wanted_ok (f (wanted s)) \<Longrightarrow> claims_of i (wanted s) (f (wanted s)) \<Longrightarrow> sound i rs (on_wanted f s)"
  by (rule sound_step) simp_all

lemma sound_ok: "sound i rs s \<Longrightarrow> wanted_ok (wanted s)"
  by (simp add: sound_def)

lemma claimed_record_outcome: "claimed i rs s \<Longrightarrow> claimed i rs (on_wanted (record_search_outcome i outcome found best) s)"
  using sound_ok by (auto simp: claimed_def record_keeps intro!: sound_on wanted_ok_statements claims_intro)

lemma claimed_record_failure: "claimed i rs s \<Longrightarrow> claimed i rs (on_wanted (record_grab_failure i reason t) s)"
  using sound_ok by (auto simp: claimed_def record_keeps intro!: sound_on wanted_ok_statements claims_intro)

lemma not_working_after:
  "st \<noteq> SEARCHING \<Longrightarrow> \<not> working i (set_status i st rs)"
  "\<not> working i (mark_grabbed i h rs)"
  "working i (snd (refund_search_attempt i rs)) \<Longrightarrow> working i rs"
  unfolding working_def set_status_def mark_grabbed_def refund_search_attempt_def move_def snd_conv bex_sql_update
  by (auto split: if_splits)

lemma settled_set_status: "claimed i rs s \<Longrightarrow> st \<noteq> SEARCHING \<Longrightarrow> settled i rs (on_wanted (set_status i st) s)"
  unfolding settled_def claimed_def
  by (auto simp: not_working_after dest: sound_ok intro!: sound_on claims_intro set_status_held)

lemma settled_refund: "settled i rs s \<Longrightarrow> settled i rs (on_wanted (\<lambda>rs. snd (refund_search_attempt i rs)) s)"
  unfolding settled_def
  by (auto dest: sound_ok not_working_after(3) intro!: sound_on claims_intro wanted_ok_statements)

lemma sound_emit [simp]: "sound i rs (emit e s) \<longleftrightarrow> sound i rs s"
  by (simp add: sound_def)

lemma settled_emit [simp]: "settled i rs (emit e s) \<longleftrightarrow> settled i rs s"
  by (simp add: settled_def sound_def)

lemma claimed_emit [simp]: "claimed i rs (emit e s) \<longleftrightarrow> claimed i rs s"
  by (simp add: claimed_def sound_def)


lemma not_settled_working: "settled i rs s \<Longrightarrow> \<not> working i (wanted s)"
  by (simp add: settled_def)

subsection \<open>The verdict of a search\<close>

lemma apply_verdict_settles: "claimed (wanted_id item) rs s \<Longrightarrow> settled (wanted_id item) rs (snd (apply_search_verdict item v s))"
  by (auto simp: apply_search_verdict_def Let_def intro: settled_set_status settled_refund claimed_record_outcome)

lemma season_row_claimed:
  assumes "claimed i rs s"
  shows "claimed i rs (snd (season_row item fid n t s))"
proof -
  let ?new = "snd (add_wanted (fresh_item (media_ref item) SEASON t (Some fid) (Some n) None) (wanted s))"
  have "held i ?new" using assms by (auto simp: claimed_def held_def add_wanted_def)
  moreover have "wanted_ok ?new" if "open_wanted fid SEASON n None s = None"
    using assms that by (auto simp: claimed_def open_wanted_def dest: sound_ok intro: wanted_ok_add)
  ultimately have "claimed i rs (s\<lparr>wanted := ?new\<rparr>)" if "open_wanted fid SEASON n None s = None"
    using assms that by (auto simp: claimed_def claims_add intro!: sound_step [of i rs s])
  then show ?thesis using assms by (auto simp: season_row_def Let_def case_prod_beta split: option.split)
qed

lemma absorb_settles:
  assumes "claimed i rs s" and "i \<in> set ids"
  shows "settled i rs (on_wanted (\<lambda>rs. snd (absorb_episodes j ids rs)) s)"
proof -
  have "\<not> working i (snd (absorb_episodes j ids (wanted s)))"
    using assms(2) by (cases "ids = []") (auto simp: working_def absorb_episodes_def Let_def bex_sql_update split: if_splits)
  then show ?thesis using assms(1) unfolding settled_def claimed_def by (auto dest: sound_ok intro!: sound_on claims_intro absorb_ok)
qed

text \<open>A conversion that finds a season settles the episode; one that does not leaves it claimed.\<close>

lemma convert_settles:
  assumes "claimed (wanted_id item) rs s"
  shows "case convert_to_season item v fid n t s of (None, s') \<Rightarrow> claimed (wanted_id item) rs s' | (Some i, s') \<Rightarrow> settled (wanted_id item) rs s'"
proof -
  define s1 where "s1 = on_wanted (record_search_outcome (wanted_id item) (exit_name (verdict_outcome v)) (Some 0) None) s"
  obtain j s2 where row: "season_row item fid n t s1 = (j, s2)" by (cases "season_row item fid n t s1")
  have "claimed (wanted_id item) rs s1" unfolding s1_def using assms by (rule claimed_record_outcome)
  then have "claimed (wanted_id item) rs s2" using season_row_claimed row by (metis snd_conv)
  then show ?thesis
    unfolding convert_to_season_def enqueue_season_from_conversion_def s1_def [symmetric] row
    by (cases j) (auto simp: Let_def intro!: absorb_settles)
qed

lemma convert_triple:
  "triple (claimed (wanted_id item) rs) (asking (convert_to_season item v fid n t))
     (\<lambda>j s. if j = None then claimed (wanted_id item) rs s else settled (wanted_id item) rs s) E"
  by (rule triple_asking, drule convert_settles [of item rs _ v fid n t]) (auto split: prod.splits option.splits)

lemma verdict_triple:
  "triple (claimed (wanted_id item) rs) (then_with (asking (apply_search_verdict item v)) (\<lambda>tag. done_with (tag, seen)))
     (\<lambda>_. settled (wanted_id item) rs) E"
  by (rule triple_then [where Q' = "\<lambda>_. settled (wanted_id item) rs"]) (auto intro!: triples apply_verdict_settles)

text \<open>The work on an item: from a claimed one to a settled one; an exception leaves the table sound.\<close>

abbreviation works :: "int \<Rightarrow> wanted_table \<Rightarrow> (acquire_db, 'a) act \<Rightarrow> bool" where
  "works i rs m \<equiv> triple (claimed i rs) m (\<lambda>_. settled i rs) (\<lambda>_. sound i rs)"

lemma convert_works:
  "works (wanted_id item) rs (then_with (asking (convert_to_season item v fid n t)) (\<lambda>i. case i of
     Some i \<Rightarrow> then_do (writing (escalated item v i n)) (done_with (Tag_Waiting, seen))
   | None \<Rightarrow> then_with (asking (apply_search_verdict item v)) (\<lambda>tag. done_with (tag, seen))))"
proof (rule triple_then [OF convert_triple])
  fix j show "triple (\<lambda>s. if j = None then claimed (wanted_id item) rs s else settled (wanted_id item) rs s)
     (case j of Some i \<Rightarrow> then_do (writing (escalated item v i n)) (done_with (Tag_Waiting, seen))
      | None \<Rightarrow> then_with (asking (apply_search_verdict item v)) (\<lambda>tag. done_with (tag, seen)))
     (\<lambda>_. settled (wanted_id item) rs) (\<lambda>_. sound (wanted_id item) rs)"
    by (cases j) (auto simp: escalated_def verdict_triple intro!: triple_do [where R = "settled (wanted_id item) rs"] triples)
qed

lemma escalate_works: "works (wanted_id item) rs (escalate env item v profile fid n t seen)"
proof (cases "(fid, n) \<in> seen")
  case False
  show ?thesis
    unfolding escalate_def Let_def if_not_P [OF False]
  proof (rule triple_looking)
    fix s assume s: "claimed (wanted_id item) rs s"
    show "triple (\<lambda>s'. s' = s) (then_with (raising (if season_fully_aired (search_calendar env) fid n (local_day (search_calendar env) t) s
                            then probe_season_pack env item profile s else Inr False)) (\<lambda>packed.
          if \<not> packed then then_with (asking (apply_search_verdict item v)) (\<lambda>tag. done_with (tag, insert (fid, n) seen))
          else then_with (asking (convert_to_season item v fid n t)) (\<lambda>i. case i of
            Some i \<Rightarrow> then_do (writing (escalated item v i n)) (done_with (Tag_Waiting, insert (fid, n) seen))
          | None \<Rightarrow> then_with (asking (apply_search_verdict item v)) (\<lambda>tag. done_with (tag, insert (fid, n) seen)))))
       (\<lambda>_. settled (wanted_id item) rs) (\<lambda>_. sound (wanted_id item) rs)"
      by (rule triple_then [where Q' = "\<lambda>_. claimed (wanted_id item) rs"], (auto intro!: triple_raising claimed_sound s)[1])
        (simp add: verdict_triple convert_works)
  qed
qed (simp add: escalate_def verdict_triple)

lemma settle_search_works: "works (wanted_id item) rs (settle_search env item v profile t seen)"
  by (simp add: settle_search_def escalate_works verdict_triple)

lemma after_search_works: "works (wanted_id item) rs (after_search env item v profile t seen)"
proof (unfold after_search_def, rule triple_looking)
  fix s assume s: "claimed (wanted_id item) rs s"
  have settle: "triple (\<lambda>s'. s' = s) (settle_search env item v profile t seen) (\<lambda>_. settled (wanted_id item) rs) (\<lambda>_. sound (wanted_id item) rs)"
    using s by (auto intro: triple_pre [OF settle_search_works])
  have convert: "works (wanted_id item) rs (then_with (asking (convert_to_season item v fid n t)) (\<lambda>i.
          if i \<noteq> None then done_with (Tag_Waiting, seen) else settle_search env item v profile t seen))" for fid n
    by (rule triple_then [OF convert_triple]) (auto intro: settle_search_works triples)
  show "triple (\<lambda>s'. s' = s) (if season_packs env s item v = [] then settle_search env item v profile t seen
     else case (followed_id item, season item) of
       (Some fid, Some n) \<Rightarrow> then_with (asking (convert_to_season item v fid n t)) (\<lambda>i.
          if i \<noteq> None then done_with (Tag_Waiting, seen) else settle_search env item v profile t seen)
     | _ \<Rightarrow> then_do (writing (on_wanted (record_search_outcome (wanted_id item) (exit_name (verdict_outcome v)) (Some 0) None)))
          (raising (Inl AssertionError))) (\<lambda>_. settled (wanted_id item) rs) (\<lambda>_. sound (wanted_id item) rs)"
  proof (cases "season_packs env s item v = []")
    case True
    then show ?thesis using settle by simp
  next
    case False
    have fails: "works (wanted_id item) rs (then_do (writing (on_wanted (record_search_outcome (wanted_id item) (exit_name (verdict_outcome v)) (Some 0) None)))
          (raising (Inl AssertionError :: py_error + search_tag \<times> probed)))"
      by (rule triple_do [where R = "claimed (wanted_id item) rs"]) (auto intro!: triples claimed_record_outcome claimed_sound)
    show ?thesis using False s convert fails
      by (cases "followed_id item"; cases "season item") (auto intro: triple_pre)
  qed
qed

lemma search_claimed_works: "works (wanted_id item) rs (search_claimed env item t seen)"
proof (unfold search_claimed_def, rule triple_looking)
  fix s assume s: "claimed (wanted_id item) rs s"
  show "triple (\<lambda>s'. s' = s) (then_with (raising (effective_profile s item)) (\<lambda>profile.
     then_with (raising (search_item (search_oc env) item profile (set (list_tried_hashes (wanted_id item) (wanted s))) s)) (\<lambda>v.
       after_search env item v profile t seen))) (\<lambda>_. settled (wanted_id item) rs) (\<lambda>_. sound (wanted_id item) rs)"
    by (rule triple_then [where Q' = "\<lambda>_. claimed (wanted_id item) rs"], (auto intro!: triples claimed_sound s)[1],
        rule triple_then [where Q' = "\<lambda>_. claimed (wanted_id item) rs"], (auto intro!: triples claimed_sound)[1], rule after_search_works)
qed


subsection \<open>The gates\<close>

definition recoverable :: "int \<Rightarrow> wanted_item \<Rightarrow> bool" where
  "recoverable older r \<longleftrightarrow> wanted_status r = SEARCHING \<and> (\<exists>t. last_search_at r = Some t \<and> t < older) \<and> grabbed_hash r = None"

text \<open>The item is left unclaimed, or as it was found: claimed by another, and not to be taken back.\<close>

definition left_alone :: "int \<Rightarrow> wanted_item \<Rightarrow> wanted_table \<Rightarrow> acquire_db \<Rightarrow> bool" where
  "left_alone older item rs s \<longleftrightarrow> (\<forall>r \<in> set (wanted s). wanted_status r = SEARCHING \<and> wanted_id r = wanted_id item
     \<longrightarrow> r \<in> set rs \<and> (wanted_status item = SEARCHING \<longrightarrow> \<not> recoverable older r))"

lemma not_working_left: "\<not> working (wanted_id item) (wanted s) \<Longrightarrow> left_alone older item rs s"
  by (auto simp: left_alone_def working_def)

lemma settled_left: "settled (wanted_id item) rs s \<Longrightarrow> left_alone older item rs s"
  by (simp add: not_settled_working not_working_left)

lemma left_alone_emit [simp]: "left_alone older item rs (emit e s) \<longleftrightarrow> left_alone older item rs s"
  by (simp add: left_alone_def)

lemma reclaim_won:
  assumes "wanted_ok rs" and "fst (reclaim_stale_searching i older rs)"
  shows "\<not> working i (snd (reclaim_stale_searching i older rs))"
proof
  assume "working i (snd (reclaim_stale_searching i older rs))"
  then obtain r where r: "r \<in> set rs" "wanted_id r = i" "\<not> recoverable older r"
    unfolding working_def reclaim_stale_searching_def move_def snd_conv bex_sql_update by (auto simp: recoverable_def split: if_splits)
  obtain r' where r': "r' \<in> set rs" "wanted_id r' = i" "recoverable older r'"
    using move_won assms(2) unfolding reclaim_stale_searching_def recoverable_def by blast
  have "r = r'" using keyed_unique [OF wanted_ok_distinct [OF assms(1)]] r r' by metis
  then show False using r(3) r'(3) by simp
qed

lemma reclaim_lost:
  assumes "wanted_ok rs" and "\<not> fst (reclaim_stale_searching i older rs)"
  shows "snd (reclaim_stale_searching i older rs) = rs" and "r \<in> set rs \<Longrightarrow> wanted_id r = i \<Longrightarrow> \<not> recoverable older r"
  using move_lost [OF wanted_ok_distinct [OF assms(1)]] assms(2) unfolding reclaim_stale_searching_def recoverable_def by blast+

lemma cutoff_gate_leaves:
  assumes ok: "wanted_ok (wanted s)"
  shows "sound (wanted_id item) (wanted s) (snd (cutoff_gate item t cad s))
    \<and> left_alone (t - STALE_THRESHOLD_S) item (wanted s) (snd (cutoff_gate item t cad s))"
proof -
  let ?i = "wanted_id item" and ?older = "t - STALE_THRESHOLD_S"
  obtain won rs where won: "(if wanted_status item = SEARCHING then reclaim_stale_searching ?i ?older (wanted s) else (True, wanted s)) = (won, rs)"
    by fastforce
  define s1 where "s1 = s\<lparr>wanted := rs\<rparr>"
  have s1: "wanted s1 = rs" by (simp add: s1_def)
  have rs: "wanted_ok rs" "claims_of ?i (wanted s) rs"
    using won ok by (auto split: if_splits intro: wanted_ok_statements(4) claims_intro) (metis wanted_ok_statements(4) claims_statements(4) snd_conv)+
  have left: "left_alone ?older item (wanted s) s1"
  proof (cases "wanted_status item = SEARCHING")
    case True
    then have reclaim: "reclaim_stale_searching ?i ?older (wanted s) = (won, rs)" using won by simp
    show ?thesis
    proof (cases won)
      case True
      then show ?thesis using reclaim_won [OF ok, of ?i ?older] reclaim s1 by (auto intro!: not_working_left)
    next
      case False
      then show ?thesis using reclaim_lost [OF ok, of ?i ?older] reclaim s1 by (auto simp: left_alone_def)
    qed
  next
    case False
    then show ?thesis using won s1 by (auto simp: left_alone_def)
  qed
  have sound1: "sound ?i (wanted s) s1" using rs s1 by (simp add: sound_def)
  have quiet: "sound ?i (wanted s) s' \<and> left_alone ?older item (wanted s) s'"
    if "wanted_ok (wanted s')" "\<And>j. claims_of j rs (wanted s')" for s'
  proof -
    have "r \<in> set rs" if "r \<in> set (wanted s')" "wanted_status r = SEARCHING" for r
      using \<open>claims_of (wanted_id r + 1) rs (wanted s')\<close> that by (auto simp: claims_of_def)
    then have "left_alone ?older item (wanted s) s'" using left s1 by (auto simp: left_alone_def)
    moreover have "sound ?i (wanted s) s'" using sound_step [OF sound1 that(1)] that(2) s1 by simp
    ultimately show ?thesis by simp
  qed
  have fallen: "sound ?i (wanted s) (snd (fall_back_to_episodes item fid n t None s1))
     \<and> left_alone ?older item (wanted s) (snd (fall_back_to_episodes item fid n t None s1))" for fid n
    using rs(1) s1 claims_fall_back by (intro quiet) (auto intro: fall_back_ok)
  have dropped: "settled ?i (wanted s) (on_wanted (set_status ?i ABANDONED) s1)"
    unfolding settled_def using sound1 rs(1) s1 by (auto simp: not_working_after OPEN_WANTED_STATUSES_def intro!: sound_on set_status_closed claims_intro)
  show ?thesis
    unfolding cutoff_gate_def won Let_def prod.case s1_def [symmetric]
    using sound1 left fallen settled_sound [OF dropped] settled_left [OF dropped]
    by (auto split: wanted_kind.splits option.splits)
qed


text \<open>\<open>leaves older item rs m\<close>: begun with the rows \<open>rs\<close>, the item is left alone, and an exception leaves the table sound.\<close>

abbreviation left_sound :: "int \<Rightarrow> wanted_item \<Rightarrow> wanted_table \<Rightarrow> acquire_db \<Rightarrow> bool" where
  "left_sound older item rs s \<equiv> sound (wanted_id item) rs s \<and> left_alone older item rs s"

definition leaves :: "int \<Rightarrow> wanted_item \<Rightarrow> (acquire_db, 'a) act \<Rightarrow> bool" where
  "leaves older item m \<longleftrightarrow> (\<forall>rs. wanted_ok rs \<longrightarrow>
     triple (\<lambda>s. wanted s = rs) m (\<lambda>_. left_sound older item rs) (\<lambda>_. sound (wanted_id item) rs))"

lemma works_left: "works (wanted_id item) rs m \<Longrightarrow> triple (claimed (wanted_id item) rs) m (\<lambda>_. left_sound older item rs) (\<lambda>_. sound (wanted_id item) rs)"
  by (erule triple_post) (simp_all add: settled_sound settled_left)

lemma claimed_get: "claimed i rs s \<Longrightarrow> \<exists>r. get_wanted i (wanted s) = Some r \<and> wanted_id r = i \<and> wanted_status r = SEARCHING \<and> grabbed_hash r = None"
proof -
  assume c: "claimed i rs s"
  then have ok: "wanted_ok (wanted s)" by (simp add: claimed_def sound_def)
  obtain r where r: "r \<in> set (wanted s)" "wanted_id r = i" "wanted_status r = SEARCHING" "grabbed_hash r = None"
    using c by (auto simp: claimed_def held_def)
  then have "get_wanted i (wanted s) = Some r"
    using sql_first_keyed [OF wanted_ok_distinct [OF ok]] by (simp add: get_wanted_def)
  then show ?thesis using r by blast
qed

text \<open>After the gate: a claim that is lost changes nothing; one that is won is followed by the item's row and the work on it.\<close>

lemma claim_then_work:
  assumes claim: "\<And>rs. \<exists>P f. claim rs = move (wanted_id item) P f rs"
    and held: "\<And>rs. wanted_ok rs \<Longrightarrow> fst (claim rs) \<Longrightarrow> held (wanted_id item) (snd (claim rs))"
    and ok: "\<And>rs. wanted_ok rs \<Longrightarrow> wanted_ok (snd (claim rs))"
    and claims: "\<And>rs. claims_of (wanted_id item) rs (snd (claim rs))"
    and work: "\<And>current. wanted_id current = wanted_id item \<Longrightarrow> wanted_status current = SEARCHING \<Longrightarrow> grabbed_hash current = None \<Longrightarrow> works (wanted_id item) rs0 (work current)"
  shows "triple (left_sound older item rs0)
     (then_with (asking (\<lambda>s. let (won, rs) = claim (wanted s) in (won, s\<lparr>wanted := rs\<rparr>))) (\<lambda>won.
        if \<not> won then done_with x
        else then_with (reading (\<lambda>s. get_wanted (wanted_id item) (wanted s))) (\<lambda>current. case current of
          None \<Rightarrow> done_with x
        | Some current \<Rightarrow> work current)))
     (\<lambda>_. left_sound older item rs0) (\<lambda>_. sound (wanted_id item) rs0)"
proof (rule triple_then [where Q' = "\<lambda>won s. if won then claimed (wanted_id item) rs0 s else left_sound older item rs0 s"], goal_cases)
  case 1
  show ?case
  proof (rule triple_asking)
    fix s assume s: "left_sound older item rs0 s"
    obtain won rs where won: "claim (wanted s) = (won, rs)" by fastforce
    have wok: "wanted_ok (wanted s)" using s by (auto simp: sound_def)
    have sound: "sound (wanted_id item) rs0 (s\<lparr>wanted := rs\<rparr>)"
      using s ok [OF wok] claims [of "wanted s"] won by (auto intro: sound_step)
    have "held (wanted_id item) rs" if won using held [OF wok] won that by simp
    moreover have "rs = wanted s" if "\<not> won"
      using move_lost [OF wanted_ok_distinct [OF wok]] claim [of "wanted s"] won that by (metis fst_conv snd_conv)
    ultimately show "if fst (let (won, rs) = claim (wanted s) in (won, s\<lparr>wanted := rs\<rparr>))
          then claimed (wanted_id item) rs0 (snd (let (won, rs) = claim (wanted s) in (won, s\<lparr>wanted := rs\<rparr>)))
          else left_sound older item rs0 (snd (let (won, rs) = claim (wanted s) in (won, s\<lparr>wanted := rs\<rparr>)))"
      using won sound s by (auto simp: claimed_def)
  qed
next
  case (2 won)
  show ?case
  proof (cases won)
    case True
    have "triple (claimed (wanted_id item) rs0) (then_with (reading (\<lambda>s. get_wanted (wanted_id item) (wanted s))) (\<lambda>current. case current of
          None \<Rightarrow> done_with x
        | Some current \<Rightarrow> work current)) (\<lambda>_. left_sound older item rs0) (\<lambda>_. sound (wanted_id item) rs0)"
    proof (rule triple_then [where Q' = "\<lambda>current s. claimed (wanted_id item) rs0 s \<and> current = get_wanted (wanted_id item) (wanted s)"], goal_cases)
      case (2 current)
      show ?case
      proof (cases current)
        case None
        then show ?thesis using claimed_get by (auto intro!: triple_False) fastforce
      next
        case (Some r)
        show ?thesis
        proof (cases "wanted_id r = wanted_id item \<and> wanted_status r = SEARCHING \<and> grabbed_hash r = None")
          case True
          then show ?thesis unfolding Some option.case by (intro triple_pre [OF works_left [OF work]]) auto
        next
          case False
          then show ?thesis using Some claimed_get by (intro triple_False) fastforce
        qed
      qed
    qed (auto intro!: triples)
    then show ?thesis using True by simp
  qed (auto intro!: triples)
qed

lemma search_one_leaves: "leaves (t - STALE_THRESHOLD_S) item (search_one env item t cad seen)"
  unfolding leaves_def
proof (intro allI impI)
  fix rs :: wanted_table assume ok: "wanted_ok rs"
  let ?left = "left_sound (t - STALE_THRESHOLD_S) item rs"
  have gates: "triple (\<lambda>s. wanted s = rs) (asking (cadence_gates item t cad)) (\<lambda>_. ?left) (\<lambda>_. sound (wanted_id item) rs)"
    using ok cutoff_gate_leaves [of _ item t cad] by (intro triple_asking) (auto simp: cadence_gates_def Let_def case_prod_beta)
  show "triple (\<lambda>s. wanted s = rs) (search_one env item t cad seen) (\<lambda>_. ?left) (\<lambda>_. sound (wanted_id item) rs)"
    unfolding search_one_def
  proof (rule triple_then [OF gates])
    fix g show "triple ?left (case g of Gate_Abandoned \<Rightarrow> done_with (Tag_Abandoned, seen) | Gate_Skipped \<Rightarrow> done_with (Tag_Skipped, seen)
       | Proceed \<Rightarrow>
         then_with (asking (\<lambda>s. let (won, rs) = claim_for_search (wanted_id item) (search_clock env) (wanted s) in (won, s\<lparr>wanted := rs\<rparr>))) (\<lambda>won.
           if \<not> won then done_with (Tag_Skipped, seen)
           else then_with (reading (\<lambda>s. get_wanted (wanted_id item) (wanted s))) (\<lambda>current. case current of
             None \<Rightarrow> done_with (Tag_Skipped, seen)
           | Some current \<Rightarrow> search_claimed env current t seen))) (\<lambda>_. ?left) (\<lambda>_. sound (wanted_id item) rs)"
    proof (cases g)
      case Proceed
      show ?thesis unfolding Proceed gate.case
      proof (rule claim_then_work)
        fix current :: wanted_item assume "wanted_id current = wanted_id item"
        then show "works (wanted_id item) rs (search_claimed env current t seen)" using search_claimed_works [of current] by simp
      qed (auto simp: claim_for_search_def intro: claim_for_search_held [unfolded claim_for_search_def] claims_move
          wanted_ok_statements(1) [unfolded claim_for_search_def])
    qed (auto intro!: triples)
  qed
qed


subsection \<open>The work of the grab pass\<close>

text \<open>During a grab the item stays searching, with an intent or without.\<close>

definition grabbing :: "int \<Rightarrow> wanted_table \<Rightarrow> acquire_db \<Rightarrow> bool" where
  "grabbing i rs s \<longleftrightarrow> sound i rs s \<and> working i (wanted s)"

lemma grabbing_emit [simp]: "grabbing i rs (emit e s) \<longleftrightarrow> grabbing i rs s"
  by (simp add: grabbing_def)

lemma grabbing_sound: "grabbing i rs s \<Longrightarrow> sound i rs s"
  by (simp add: grabbing_def)

lemma claimed_grabbing: "claimed i rs s \<Longrightarrow> grabbing i rs s"
  by (simp add: claimed_def grabbing_def held_working)

lemma grabbing_record: "grabbing i rs s \<Longrightarrow> grabbing i rs (on_wanted (record_search_outcome i outcome found best) s)"
  using sound_ok by (auto simp: grabbing_def record_keeps intro!: sound_on wanted_ok_statements claims_intro)

lemma grabbing_intent: "grabbing i rs s \<Longrightarrow> grabbing i rs (intent_of i h s)"
  using sound_ok by (auto simp: grabbing_def intent_of_def record_keeps intro!: sound_on wanted_ok_statements claims_intro)

lemma release_claims: "grabbing i rs s \<Longrightarrow> claimed i rs (release_intent i s)"
  using sound_ok by (auto simp: grabbing_def claimed_def release_intent_def clear_intent_held intro!: sound_on wanted_ok_statements claims_intro)

lemma mark_grabbed_settles: "grabbing i rs s \<Longrightarrow> settled i rs (on_wanted (mark_grabbed i h) s)"
  unfolding grabbing_def settled_def
  by (auto simp: not_working_after dest: sound_ok intro!: sound_on claims_intro mark_grabbed_working)

lemma settled_obligation [simp]: "settled i rs (record_seed_obligation env h tracker s) \<longleftrightarrow> settled i rs s"
  by (auto simp: record_seed_obligation_def settled_def sound_def split: option.split)

abbreviation keeps_grabbing :: "int \<Rightarrow> wanted_table \<Rightarrow> (acquire_db, 'a) act \<Rightarrow> bool" where
  "keeps_grabbing i rs m \<equiv> triple (grabbing i rs) m (\<lambda>_. grabbing i rs) (\<lambda>_. sound i rs)"

lemma failures_keep_grabbing:
  "keeps_grabbing i rs (retryable item reason chosen)"
  "keeps_grabbing i rs (not_found item reason)"
  "keeps_grabbing i rs (terminal item reason chosen)"
  unfolding retryable_def not_found_def terminal_def
  by (rule triple_do [where R = "grabbing i rs"]; auto intro!: triples)+

lemma auth_failed_keeps_grabbing: "keeps_grabbing i rs (auth_failed item r status)"
  unfolding auth_failed_def by (rule triple_do [where R = "grabbing i rs"]) (auto intro!: triples failures_keep_grabbing)

lemma handlers_keep_grabbing:
  "keeps_grabbing i rs (grab_raised item r e)"
  "keeps_grabbing i rs (unresolved item r e')"
  by (cases e; simp add: failures_keep_grabbing auth_failed_keeps_grabbing)
    (cases "(item, r, e')" rule: unresolved.cases; simp add: failures_keep_grabbing auth_failed_keeps_grabbing)

lemma take_release_keeps_grabbing: "keeps_grabbing (wanted_id item) rs (take_release oc (intent_of (wanted_id item)) item tc n source r)"
  unfolding take_release_def
  by (rule triple_do [where R = "grabbing (wanted_id item) rs"])
    (auto intro!: triples grabbing_intent handlers_keep_grabbing split: option.split sum.split)

lemma grab_ranked_keeps_grabbing: "keeps_grabbing (wanted_id item) rs (grab_ranked oc (intent_of (wanted_id item)) item rkd best)"
  by (auto simp: grab_ranked_def intro!: failures_keep_grabbing take_release_keeps_grabbing handlers_keep_grabbing split: option.split walk_end.split)

lemma grab_keeps_grabbing: "keeps_grabbing (wanted_id item) rs (grab oc (intent_of (wanted_id item)) item profile excluded)"
proof (unfold grab_def, rule triple_looking)
  fix s assume s: "grabbing (wanted_id item) rs s"
  show "triple (\<lambda>s'. s' = s) (then_with (raising (search_chain oc s item profile excluded)) (\<lambda>c.
     case exit_path c of
       Circuit_Is_Open \<Rightarrow> retryable item ''circuit_open'' None
     | Search_Api_Error \<Rightarrow> retryable item ''search_api_error'' None
     | Tracker_Auth_Refused \<Rightarrow> retryable item ''search_api_error'' None
     | Trackers_Unavailable \<Rightarrow> retryable item ''trackers_unavailable'' None
     | No_Candidates \<Rightarrow> not_found item ''no_candidates''
     | No_Matching_Episode \<Rightarrow> not_found item ''no_matching_episode''
     | No_Matching_Season \<Rightarrow> not_found item ''no_matching_season''
     | All_Filtered \<Rightarrow> not_found item ''all_filtered''
     | No_Seeders \<Rightarrow> retryable item ''no_seeders'' None
     | _ \<Rightarrow> (case top_of c of
         None \<Rightarrow> raising (Inl AssertionError)
       | Some best \<Rightarrow> grab_ranked oc (intent_of (wanted_id item)) item (ranked c) best)))
     (\<lambda>_. grabbing (wanted_id item) rs) (\<lambda>_. sound (wanted_id item) rs)"
    by (rule triple_then [where Q' = "\<lambda>_. grabbing (wanted_id item) rs"], (auto intro!: triple_raising grabbing_sound s)[1])
      (auto intro!: failures_keep_grabbing grab_ranked_keeps_grabbing triple_raising grabbing_sound split: exit_path.split option.split)
qed

lemma persist_success_settles: "grabbing (wanted_id item) rs s \<Longrightarrow> settled (wanted_id item) rs (snd (persist_success env item out s))"
  by (simp add: persist_success_def Let_def mark_grabbed_settles grabbing_record)

lemma persist_failure_settles:
  assumes "grabbing (wanted_id item) rs s"
  shows "settled (wanted_id item) rs (snd (persist_failure env item out s))"
proof -
  have "claimed (wanted_id item) rs (record_failure env item out (release_intent (wanted_id item) s))"
    using release_claims [OF assms] by (simp add: record_failure_def claimed_record_failure)
  then show ?thesis by (simp add: persist_failure_def Let_def settled_set_status claimed_record_outcome)
qed

lemma grab_current_works:
  assumes "wanted_status item = SEARCHING" and "grabbed_hash item = None"
  shows "works (wanted_id item) rs (grab_current env item)"
proof -
  have "works (wanted_id item) rs (looking (\<lambda>s. then_with (raising (effective_profile s item)) (\<lambda>profile.
        then_with (grab (grab_oc env) (intent_of (wanted_id item)) item profile (set (list_tried_hashes (wanted_id item) (wanted s)))) (\<lambda>out.
          asking (if grab_disposition out = SUCCESS then persist_success env item out else persist_failure env item out)))))"
  proof (rule triple_looking, rule triple_then [where Q' = "\<lambda>_. grabbing (wanted_id item) rs"], goal_cases)
    case (1 s)
    then show ?case by (auto intro!: triple_raising claimed_sound claimed_grabbing)
  next
    case (2 s profile)
    show ?case
      by (rule triple_then [OF grab_keeps_grabbing]) (auto intro!: triple_asking persist_success_settles persist_failure_settles)
  qed
  then show ?thesis using assms by (simp add: grab_current_def)
qed

lemma process_item_leaves: "leaves (t - STALE_THRESHOLD_S) item (process_item env item t cad)"
  unfolding leaves_def
proof (intro allI impI)
  fix rs :: wanted_table assume ok: "wanted_ok rs"
  let ?left = "left_sound (t - STALE_THRESHOLD_S) item rs"
  let ?claim = "\<lambda>rs. if wanted_status item = SEARCHING then claim_for_search (wanted_id item) (grab_clock env) rs
    else claim_for_grab (wanted_id item) (grab_clock env) rs"
  have claim: "claim_item env item = (\<lambda>s. let (won, rs) = ?claim (wanted s) in (won, s\<lparr>wanted := rs\<rparr>))"
    by (auto simp: claim_item_def Let_def fun_eq_iff)
  have gate: "triple (\<lambda>s. wanted s = rs) (asking (cutoff_gate item t cad)) (\<lambda>_. ?left) (\<lambda>_. sound (wanted_id item) rs)"
    using ok cutoff_gate_leaves [of _ item t cad] by (intro triple_asking) auto
  show "triple (\<lambda>s. wanted s = rs) (process_item env item t cad) (\<lambda>_. ?left) (\<lambda>_. sound (wanted_id item) rs)"
    unfolding process_item_def claim
  proof (rule triple_then [OF gate])
    fix g show "triple ?left (case g of Gate_Abandoned \<Rightarrow> done_with Tag_Given_Up | Gate_Skipped \<Rightarrow> done_with Tag_Passed
       | Proceed \<Rightarrow>
         then_with (asking (\<lambda>s. let (won, rs) = ?claim (wanted s) in (won, s\<lparr>wanted := rs\<rparr>))) (\<lambda>won.
           if \<not> won then done_with Tag_Passed
           else then_with (reading (\<lambda>s. get_wanted (wanted_id item) (wanted s))) (\<lambda>current. case current of
             None \<Rightarrow> done_with Tag_Passed
           | Some current \<Rightarrow> grab_current env current))) (\<lambda>_. ?left) (\<lambda>_. sound (wanted_id item) rs)"
    proof (cases g)
      case Proceed
      show ?thesis unfolding Proceed gate.case
      proof (rule claim_then_work)
        fix rs' show "\<exists>P f. ?claim rs' = move (wanted_id item) P f rs'"
          by (auto simp: claim_for_search_def claim_for_grab_def)
      next
        fix current :: wanted_item
        assume "wanted_id current = wanted_id item" "wanted_status current = SEARCHING" "grabbed_hash current = None"
        then show "works (wanted_id item) rs (grab_current env current)" using grab_current_works [of current] by simp
      qed (auto intro: claim_for_search_held claim_for_grab_held wanted_ok_statements claims_intro split: if_splits)
    qed (auto intro!: triples)
  qed
qed


subsection \<open>A pass over the items\<close>

text \<open>Unreadable JSON abandons the item, whichever pass reads it.\<close>

lemma guarded_leaves:
  assumes leaves: "leaves older item m"
    and guarded: "\<And>s :: acquire_db. m' s = (case m s of (Inl JSONDecodeError, s') \<Rightarrow> (Inr x, on_wanted (set_status (wanted_id item) ABANDONED) s') | r \<Rightarrow> r)"
  shows "leaves older item m'"
  unfolding leaves_def triple_def
proof (intro allI impI)
  fix rs :: wanted_table and s :: acquire_db assume ok: "wanted_ok rs" and s: "wanted s = rs"
  have m: "case m s of (Inl e, s') \<Rightarrow> sound (wanted_id item) rs s' | (Inr y, s') \<Rightarrow> left_sound older item rs s'"
    using leaves ok s by (simp add: leaves_def triple_def)
  have "settled (wanted_id item) rs (on_wanted (set_status (wanted_id item) ABANDONED) s')" if "sound (wanted_id item) rs s'" for s'
    using that unfolding settled_def
    by (auto simp: not_working_after OPEN_WANTED_STATUSES_def dest: sound_ok intro!: sound_on set_status_closed claims_intro)
  then show "case m' s of (Inl e, s') \<Rightarrow> sound (wanted_id item) rs s' | (Inr y, s') \<Rightarrow> left_sound older item rs s'"
    using m settled_sound settled_left unfolding guarded by (auto split: prod.splits sum.splits py_error.splits)
qed

lemma search_guarded_leaves: "leaves (t - STALE_THRESHOLD_S) item (search_guarded env item t cad seen)"
  by (rule guarded_leaves [OF search_one_leaves]) (rule search_guarded_def)

lemma process_guarded_leaves: "leaves (t - STALE_THRESHOLD_S) item (process_guarded env item t cad)"
  by (rule guarded_leaves [OF process_item_leaves]) (rule process_guarded_def)

text \<open>A pass: each item in turn, with what the pass remembers from one to the next.\<close>

locale pass_over =
  fixes body :: "'k \<Rightarrow> wanted_item \<Rightarrow> (acquire_db, 'tag \<times> 'k) act"
    and run :: "'k \<Rightarrow> wanted_item list \<Rightarrow> (acquire_db, 'tag list) act"
    and older :: int
  assumes run_Nil: "run k [] = done_with []"
    and run_Cons: "run k (r # rs) = then_with (body k r) (\<lambda>(tag, k). then_with (run k rs) (\<lambda>tags. done_with (tag # tags)))"
    and body_leaves: "leaves older r (body k r)"
begin

definition passed_over :: "wanted_item list \<Rightarrow> wanted_table \<Rightarrow> acquire_db \<Rightarrow> bool" where
  "passed_over items rs s \<longleftrightarrow> wanted_ok (wanted s) \<and> (\<forall>r \<in> set (wanted s). wanted_status r = SEARCHING \<longrightarrow>
     r \<in> set rs \<and> (\<forall>item \<in> set items. wanted_id item = wanted_id r \<and> wanted_status item = SEARCHING \<longrightarrow> \<not> recoverable older r))"

lemma passed_step: "left_sound older item rs s1 \<Longrightarrow> passed_over items (wanted s1) s \<Longrightarrow> passed_over (item # items) rs s"
  unfolding passed_over_def left_alone_def sound_def claims_of_def by (metis set_ConsD)

lemma passed_one: "left_sound older item rs s1 \<Longrightarrow> sound i (wanted s1) s \<Longrightarrow> sound i rs s"
  unfolding left_alone_def sound_def claims_of_def by metis

lemma run_leaves:
  "wanted_ok (wanted s) \<Longrightarrow> case run k items s of
     (Inl e, s') \<Rightarrow> \<exists>i. sound i (wanted s) s'
   | (Inr tags, s') \<Rightarrow> length tags = length items \<and> passed_over items (wanted s) s'"
proof (induction items arbitrary: k s)
  case Nil
  then show ?case by (simp add: run_Nil passed_over_def)
next
  case (Cons r items)
  have body: "case body k r s of (Inl e, s') \<Rightarrow> sound (wanted_id r) (wanted s) s' | (Inr y, s') \<Rightarrow> left_sound older r (wanted s) s'"
    using body_leaves [of r k] Cons.prems by (simp add: leaves_def triple_def)
  show ?case
  proof (cases "body k r s")
    case (Pair res s1)
    show ?thesis
    proof (cases res)
      case (Inl e)
      then show ?thesis using body Pair by (auto simp: run_Cons then_with_def)
    next
      case (Inr y)
      obtain tag k1 where y: "y = (tag, k1)" by (cases y)
      have left: "left_sound older r (wanted s) s1" using body Pair Inr by simp
      then have IH: "case run k1 items s1 of (Inl e, s') \<Rightarrow> \<exists>i. sound i (wanted s1) s'
          | (Inr tags, s') \<Rightarrow> length tags = length items \<and> passed_over items (wanted s1) s'"
        by (intro Cons.IH) (simp add: sound_def)
      then show ?thesis using IH passed_step [OF left] passed_one [OF left] Pair Inr y
        by (fastforce simp: run_Cons then_with_def split: prod.splits sum.splits)
    qed
  qed
qed

end


interpretation search_run: pass_over
  "\<lambda>seen r. search_guarded (envs (wanted_id r)) r t (cadence_for fs global r) seen"
  "\<lambda>seen rs. search_items envs t fs global rs seen" "t - STALE_THRESHOLD_S" for envs t fs global
  by unfold_locales (simp_all add: search_guarded_leaves)

lemma leaves_then_done: "leaves older item m \<Longrightarrow> leaves older item (then_with m (\<lambda>x. done_with (f x)))"
  unfolding leaves_def by (blast intro: triple_then triple_done)

lemma then_done_then [simp]: "then_with (then_with m (\<lambda>x. done_with (f x))) g = then_with m (\<lambda>x. g (f x))"
  by (auto simp: then_with_def fun_eq_iff split: prod.split sum.split)

interpretation grab_run: pass_over
  "\<lambda>_ r. then_with (process_guarded (envs (wanted_id r)) r t (cadence_for fs global r)) (\<lambda>tag. done_with (tag, ()))"
  "\<lambda>_ rs. process_items envs t fs global rs" "t - STALE_THRESHOLD_S" for envs t fs global
  by unfold_locales (simp_all add: process_guarded_leaves leaves_then_done)

end
