(* ===== verification/Release_Facts.thy ===== *)
theory Release_Facts
  imports Releases "HOL-Library.Multiset"
begin

text \<open>
  What the choice among the releases guarantees: the ranking is the rankable releases with their scores, best first,
  ties in the order they came; the removal of duplicates keeps releases that were found, one of each hash.
\<close>

subsection \<open>The ranking\<close>

lemma score_all_Inr:
  "score_all cv rk excluded k rs = Inr scored \<Longrightarrow>
   map fst scored = filter (rankable rk excluded) rs
   \<and> map (\<lambda>p. release_score cv rk k (fst p)) scored = map (\<lambda>p. Inr (snd p)) scored"
  by (induction rs arbitrary: scored) (auto simp: raising_bind_Inr simp del: map_eq_conv split: if_splits)

lemma rank_names:
  assumes "rank cv rk excluded k rs = Inr out"
  shows "mset (map fst out) = mset (filter (rankable rk excluded) rs)"
proof -
  obtain scored where scored: "score_all cv rk excluded k rs = Inr scored" and out: "out = sort_key (\<lambda>p. - snd p) scored"
    using assms by (auto simp: rank_def raising_bind_Inr)
  note score_all_Inr [OF scored, THEN conjunct1]
  then show ?thesis by (metis out mset_map mset_sort)
qed

lemma filter_insort_key:
  "sorted (map f ps) \<Longrightarrow> filter (\<lambda>p. f p = x) (insort_key f a ps) = filter (\<lambda>p. f p = x) (a # ps)"
  by (induction ps) auto

lemma filter_sort_key: "filter (\<lambda>p. f p = x) (sort_key f ps) = filter (\<lambda>p. f p = x) ps"
proof (induction ps)
  case (Cons p ps)
  have "filter (\<lambda>p. f p = x) (sort_key f (p # ps)) = filter (\<lambda>p. f p = x) (p # sort_key f ps)"
    by (simp only: sort_key_simps filter_insort_key [OF sorted_sort_key])
  then show ?case using Cons by simp
qed simp

text \<open>The ranking is what it says: it holds exactly the releases with enough seeders and an untried hash, each with
  its score, best score first, and releases of one score in the order the trackers gave them.\<close>

theorem ranking_is_best_first:
  assumes "rank cv rk excluded k rs = Inr out"
  shows "mset (map fst out) = mset (filter (rankable rk excluded) rs)
    \<and> (\<forall>(r, score) \<in> set out. release_score cv rk k r = Inr score)
    \<and> sorted_wrt (\<lambda>p q. snd p \<ge> snd q) out
    \<and> (\<forall>x. map fst (filter (\<lambda>p. snd p = x) out) = filter (\<lambda>r. rankable rk excluded r \<and> release_score cv rk k r = Inr x) rs)"
proof -
  obtain scored where scored: "score_all cv rk excluded k rs = Inr scored" and out: "out = sort_key (\<lambda>p. - snd p) scored"
    using assms by (auto simp: rank_def raising_bind_Inr)
  note names = score_all_Inr [OF scored, THEN conjunct1]
  have scores: "release_score cv rk k (fst p) = Inr (snd p)" if "p \<in> set scored" for p
    using score_all_Inr [OF scored] that by (metis (mono_tags, lifting) map_eq_conv)
  note rank_names [OF assms]
  moreover have "\<forall>(r, score) \<in> set out. release_score cv rk k r = Inr score" using scores by (force simp: out)
  moreover have "sorted (map (\<lambda>p. - snd p) out)" by (simp add: out)
  then have "sorted_wrt (\<lambda>p q. snd p \<ge> snd q) out" by (simp add: sorted_map)
  moreover have "map fst (filter (\<lambda>p. snd p = x) out) = filter (\<lambda>r. rankable rk excluded r \<and> release_score cv rk k r = Inr x) rs" for x
  proof -
    have "filter (\<lambda>p. snd p = x) out = filter (\<lambda>p. snd p = x) scored"
      using filter_sort_key [of "\<lambda>p. - snd p" "- x" scored] by (simp add: out)
    also have "filter (\<lambda>p. snd p = x) scored = filter (\<lambda>p. release_score cv rk k (fst p) = Inr x) scored"
      using scores by (intro filter_cong) auto
    also have "map fst \<dots> = filter (\<lambda>r. release_score cv rk k r = Inr x) (map fst scored)" by (simp add: filter_map comp_def)
    finally show ?thesis by (simp add: names conj_commute)
  qed
  ultimately show ?thesis by blast
qed

definition sample_release :: "string \<Rightarrow> int \<Rightarrow> string \<Rightarrow> release" where
  "sample_release title n h = \<lparr>provider = ''lacale'', tracker_id = ''1'', release_title = title, size_bytes = 1000, seeders = n, leechers = 0,
     release_category = None, download_url = Some ''magnet:?x'', info_hash = Some h, source_url = None, is_freeleech = False,
     is_silverleech = False, upload_date = None, release_format = None, codec = None, release_source = None,
     release_resolution = Some ''1080p'', audio = None, release_language = None, release_tmdb_id = None\<rparr>"

definition sample_ranking :: ranking where
  "sample_ranking = \<lparr>criteria = [\<lparr>field_name = ''seeders'', weight = 2, values_map = None,
       thresholds = Some [\<lparr>threshold_at = 5, threshold_score = 10\<rparr>, \<lparr>threshold_at = 1, threshold_score = 3\<rparr>], prefer_lower = False\<rparr>],
     freeleech_bonus = 5, silverleech_bonus = 2, min_seeders = 1, size_thresholds_by_type = None\<rparr>"

definition sample_conversions :: conversions where
  "sample_conversions = \<lparr>str_of = (\<lambda>_. []), int_of_text = (\<lambda>_. Inl ValueError)\<rparr>"

lemma ranking_is_best_first_witness:
  "let rs = [sample_release ''a'' 2 ''aa'', sample_release ''b'' 9 ''bb'', sample_release ''c'' 0 ''cc'', sample_release ''d'' 9 ''dd''];
       out = [(sample_release ''b'' 9 ''bb'', 20), (sample_release ''a'' 2 ''aa'', 6)]
   in rank sample_conversions sample_ranking {''dd''} None rs = Inr out \<and> sorted_wrt (\<lambda>p q. snd p \<ge> snd q) out"
proof -
  let ?rs = "[sample_release ''a'' 2 ''aa'', sample_release ''b'' 9 ''bb'', sample_release ''c'' 0 ''cc'', sample_release ''d'' 9 ''dd'']"
  let ?out = "[(sample_release ''b'' 9 ''bb'', 20), (sample_release ''a'' 2 ''aa'', 6)] :: (release \<times> int) list"
  have score: "release_score sample_conversions sample_ranking None (sample_release title n h) = Inr (if n \<ge> 5 then 20 else if n \<ge> 1 then 6 else 0)"
    for title n h
    by (simp add: release_score_def sample_ranking_def sample_release_def attribute_of_def criterion_points_def best_threshold_def int_trunc_def)
  have ok: "rankable sample_ranking {''dd''} (sample_release title n h) \<longleftrightarrow> n \<ge> 1 \<and> lower h \<noteq> ''dd''" for title n h
    by (simp add: rankable_def sample_ranking_def sample_release_def)
  have "rank sample_conversions sample_ranking {''dd''} None ?rs = Inr ?out"
    by (simp add: rank_def score ok lower_def is_upper_def)
  with ranking_is_best_first [OF this] show ?thesis by simp
qed

subsection \<open>Duplicates\<close>

lemma best_provenance_in: "best_provenance b rs \<in> insert b (set rs)"
proof (induction rs arbitrary: b)
  case (Cons r rs)
  have "best_provenance b (r # rs) \<in> insert (if provenance_key r > provenance_key b then r else b) (set rs)"
    using Cons by simp
  then show ?case by (auto split: if_splits)
qed simp

lemma best_of_in: "rs \<noteq> [] \<Longrightarrow> best_of rs \<in> set rs"
  using best_provenance_in [of "hd rs" "tl rs"] by (cases rs) (auto simp: best_of_def)

lemma groups_facts: "mset (concat (groups key xs)) = mset xs \<and> [] \<notin> set (groups key xs)"
proof (induction key xs rule: groups.induct)
  case (2 key x xs)
  have "mset (filter (\<lambda>y. key y = key x) xs) + mset (filter (\<lambda>y. key y \<noteq> key x) xs) = mset xs"
    using multiset_partition [of "mset xs" "\<lambda>y. key y = key x"] by simp
  then show ?case using 2 by simp
qed simp

lemma in_groups: "g \<in> set (groups key xs) \<Longrightarrow> x \<in> set g \<Longrightarrow> x \<in> set xs"
  using groups_facts [of key xs] by (metis UN_I set_concat set_mset_mset)

lemma groups_key: "g \<in> set (groups key xs) \<Longrightarrow> x \<in> set g \<Longrightarrow> key x = key (hd g)"
proof (induction key xs rule: groups.induct)
  case (2 key y xs)
  show ?case
  proof (cases "g = y # filter (\<lambda>z. key z = key y) xs")
    case True
    then show ?thesis using 2(3) by fastforce
  next
    case False
    then show ?thesis using 2 by simp
  qed
qed simp

lemma groups_distinct: "distinct (map (\<lambda>g. key (hd g)) (groups key xs))"
proof (induction key xs rule: groups.induct)
  case (2 key x xs)
  have "key x \<noteq> key (hd g)" if g: "g \<in> set (groups key (filter (\<lambda>y. key y \<noteq> key x) xs))" for g
  proof -
    have "g \<noteq> []" using groups_facts [of key "filter (\<lambda>y. key y \<noteq> key x) xs"] g by auto
    then have "hd g \<in> set (filter (\<lambda>y. key y \<noteq> key x) xs)" using in_groups [OF g] by simp
    then have "key (hd g) \<noteq> key x" unfolding set_filter by blast
    then show ?thesis by (rule not_sym)
  qed
  then show ?case using 2 by (simp add: image_iff)
qed simp

lemma cluster_sorted_facts:
  "[] \<notin> set cs \<Longrightarrow> mset (concat (cluster_sorted rs cs)) = mset (concat cs) + mset rs \<and> [] \<notin> set (cluster_sorted rs cs)"
proof (induction rs cs rule: cluster_sorted.induct)
  case (2 r rs cs)
  define cs' where "cs' = (if cs \<noteq> [] \<and> size_bytes (hd (last cs)) > 0
         \<and> real_of_int (size_bytes r - size_bytes (hd (last cs))) \<le> real_of_int (size_bytes (hd (last cs))) * (2 / 100)
      then butlast cs @ [last cs @ [r]] else cs @ [[r]])"
  have "concat cs = concat (butlast cs) @ last cs" if "cs \<noteq> []"
    using that by (metis append_butlast_last_id concat.simps concat_append append_Nil2)
  then have "mset (concat cs') = mset (concat cs) + {#r#}" by (auto simp: cs'_def)
  moreover have "[] \<notin> set cs'" using 2(2) by (auto simp: cs'_def dest: in_set_butlastD)
  ultimately show ?case using 2(1) [folded cs'_def] unfolding cluster_sorted.simps(2) cs'_def [symmetric] by simp
qed simp

lemma cluster_by_size_facts: "mset (concat (cluster_by_size rs)) = mset rs \<and> [] \<notin> set (cluster_by_size rs)"
  using cluster_sorted_facts [of "[]" "sort_key size_bytes rs"] by (simp add: cluster_by_size_def)

lemma mset_best_of: "[] \<notin> set gs \<Longrightarrow> mset (map best_of gs) \<subseteq># mset (concat gs)"
proof (induction gs)
  case (Cons g gs)
  then have "g \<noteq> []" by auto
  then have "{#best_of g#} \<subseteq># mset g" using best_of_in by (simp add: mset_subset_eq_single)
  moreover have "mset (map best_of gs) \<subseteq># mset (concat gs)" using Cons by simp
  ultimately have "{#best_of g#} + mset (map best_of gs) \<subseteq># mset g + mset (concat gs)" by (rule subset_mset.add_mono)
  then show ?case by simp
qed simp

lemma clusters_facts:
  "mset (concat (concat (map cluster_by_size gs))) = mset (concat gs) \<and> [] \<notin> set (concat (map cluster_by_size gs))"
  using cluster_by_size_facts by (induction gs) auto

text \<open>The pool of the second pass: one release of each hash, and every release without one.\<close>

definition hash_pool :: "release list \<Rightarrow> release list" where
  "hash_pool rs = map best_of (groups hash_key (filter (\<lambda>r. hash_key r \<noteq> []) rs)) @ filter (\<lambda>r. hash_key r = []) rs"

lemma hash_pool_mset: "mset (hash_pool rs) \<subseteq># mset rs"
proof -
  have "mset (map best_of (groups hash_key (filter (\<lambda>r. hash_key r \<noteq> []) rs))) \<subseteq># mset (filter (\<lambda>r. hash_key r \<noteq> []) rs)"
    using groups_facts [of hash_key "filter (\<lambda>r. hash_key r \<noteq> []) rs"] mset_best_of by metis
  moreover have "mset (filter (\<lambda>r. hash_key r \<noteq> []) rs) + mset (filter (\<lambda>r. hash_key r = []) rs) = mset rs"
    using multiset_partition [of "mset rs" "\<lambda>r. hash_key r \<noteq> []"] by simp
  ultimately show ?thesis unfolding hash_pool_def by (metis mset_append subset_mset.add_right_mono)
qed

lemma hash_pool_distinct: "distinct (filter (\<lambda>h. h \<noteq> []) (map hash_key (hash_pool rs)))"
proof -
  let ?gs = "groups hash_key (filter (\<lambda>r. hash_key r \<noteq> []) rs)"
  have "hash_key (best_of g) = hash_key (hd g)" if "g \<in> set ?gs" for g
  proof -
    have "g \<noteq> []" using groups_facts [of hash_key "filter (\<lambda>r. hash_key r \<noteq> []) rs"] that by auto
    then show ?thesis using groups_key [OF that best_of_in] by simp
  qed
  then have keys: "map (\<lambda>g. hash_key (best_of g)) ?gs = map (\<lambda>g. hash_key (hd g)) ?gs" by simp
  have "distinct (map hash_key (map best_of ?gs))" unfolding map_map comp_def keys by (rule groups_distinct)
  moreover have "filter (\<lambda>h. h \<noteq> []) (map hash_key (filter (\<lambda>r. hash_key r = []) rs)) = []"
    by (auto simp: filter_empty_conv)
  ultimately show ?thesis unfolding hash_pool_def map_append filter_append by (simp add: distinct_filter)
qed

lemma dedup_pool: "dedup fk rs = map best_of (concat (map cluster_by_size (groups fk (hash_pool rs))))"
  by (simp add: dedup_def hash_pool_def Let_def)

lemma dedup_mset_pool: "mset (dedup fk rs) \<subseteq># mset (hash_pool rs)"
  unfolding dedup_pool
  using mset_best_of [of "concat (map cluster_by_size (groups fk (hash_pool rs)))"] clusters_facts [of "groups fk (hash_pool rs)"]
    groups_facts [of fk "hash_pool rs"] by metis

lemma dedup_mset: "mset (dedup fk rs) \<subseteq># mset rs"
  using dedup_mset_pool hash_pool_mset by (rule subset_mset.order_trans)

lemma dedup_subset: "set (dedup fk rs) \<subseteq> set rs"
  using dedup_mset set_mset_mono by fastforce

lemma distinct_submset:
  assumes "mset ys \<subseteq># mset xs" and "distinct xs"
  shows "distinct ys"
  unfolding distinct_count_atmost_1
proof
  fix a
  have "count (mset ys) a \<le> count (mset xs) a" using assms(1) by (simp add: mset_subset_eq_count)
  also have "\<dots> \<le> 1" using assms(2) by (auto simp: distinct_count_atmost_1)
  finally show "count (mset ys) a = (if a \<in> set ys then 1 else 0)"
    using count_mset_0_iff [of ys a] by (cases "count (mset ys) a") auto
qed

text \<open>Removing duplicates keeps only releases that were found, each at most as often as it was found, never two
  with the same hash, and at least one whenever any was found.\<close>

theorem dedup_keeps_one_of_each_hash:
  "mset (dedup fk rs) \<subseteq># mset rs \<and> distinct (filter (\<lambda>h. h \<noteq> []) (map hash_key (dedup fk rs))) \<and> (dedup fk rs = [] \<longleftrightarrow> rs = [])"
proof -
  have hashes: "mset (filter (\<lambda>h. h \<noteq> []) (map hash_key (dedup fk rs))) \<subseteq># mset (filter (\<lambda>h. h \<noteq> []) (map hash_key (hash_pool rs)))"
    unfolding mset_filter mset_map using dedup_mset_pool by (intro multiset_filter_mono image_mset_subseteq_mono)
  have "distinct (filter (\<lambda>h. h \<noteq> []) (map hash_key (dedup fk rs)))"
    using hashes hash_pool_distinct by (rule distinct_submset)
  moreover note dedup_mset [of fk rs]
  moreover have "rs = []" if "dedup fk rs = []"
  proof -
    have "concat (concat (map cluster_by_size (groups fk (hash_pool rs)))) = []" using that by (simp add: dedup_pool)
    then have "hash_pool rs = []" using clusters_facts [of "groups fk (hash_pool rs)"] groups_facts [of fk "hash_pool rs"]
      by (metis mset_zero_iff)
    then have "groups hash_key (filter (\<lambda>r. hash_key r \<noteq> []) rs) = []" and no: "filter (\<lambda>r. hash_key r = []) rs = []"
      by (auto simp: hash_pool_def)
    then have "filter (\<lambda>r. hash_key r \<noteq> []) rs = []"
      using groups_facts [of hash_key "filter (\<lambda>r. hash_key r \<noteq> []) rs"] by (metis concat.simps(1) mset_zero_iff mset.simps(1))
    with no show ?thesis by (auto simp: filter_empty_conv)
  qed
  moreover have "dedup fk [] = []" by (simp add: dedup_def Let_def)
  ultimately show ?thesis by blast
qed

end
