(* ===== verification/Grab_Facts.thy ===== *)
theory Grab_Facts
  imports Grab_Pass Release_Facts
begin

text \<open>
  What a grab adds to the torrent client, and when it raises.
\<close>

subsection \<open>The exits of the chain\<close>

lemma narrow_exits: "narrow oc s item titles year rs \<noteq> Hard_Stop e"
  "narrow oc s item titles year rs = Empty_Verdict e raw \<Longrightarrow> e \<in> {No_Matching_Episode, No_Matching_Season}"
  by (auto simp: narrow_def Let_def split: wanted_kind.splits option.splits if_splits)

lemma query_hard_stop:
  assumes "query_and_narrow oc s item query title original year = Hard_Stop e"
  shows "e \<notin> {Available, No_Candidates, All_Filtered, No_Seeders}"
proof -
  have "e = Trackers_Degraded \<or> (\<exists>out. e = all_errored_exit out)"
    using assms narrow_exits(1) by (auto simp: query_and_narrow_def registry_search_def split: if_splits)
  moreover have "all_errored_exit out \<notin> {Available, No_Candidates, All_Filtered, No_Seeders}" for out
    by (simp add: all_errored_exit_def Let_def)
  ultimately show ?thesis by auto
qed

lemma query_empty_verdict:
  "query_and_narrow oc s item query title original year = Empty_Verdict e raw \<Longrightarrow> e \<in> {No_Candidates, No_Matching_Episode, No_Matching_Season}"
  by (auto simp: query_and_narrow_def registry_search_def split: if_splits dest!: narrow_exits(2))

lemma chosen_attempt_cases:
  "\<exists>query. chosen_attempt oc s item = query_and_narrow oc s item query (title_resolver s item) (original_title_resolver s item) (year_resolver s item)"
  by (auto simp: chosen_attempt_def Let_def)

lemma search_chain_exits:
  assumes "search_chain oc s item profile excluded = Inr c"
  shows "(exit_path c = Available \<longleftrightarrow> ranked c \<noteq> [])
    \<and> (\<forall>p \<in> set (ranked c). rankable (ranking_config oc) excluded (fst p)
        \<and> (\<exists>rs. fst p \<in> set (apply_hard_filters (titles_read oc) profile (Some (media_ref item)) rs)))"
proof (cases "chosen_attempt oc s item")
  case (Hard_Stop e)
  then have "e \<noteq> Available" using chosen_attempt_cases query_hard_stop by (metis insertCI)
  then show ?thesis using assms Hard_Stop by (auto simp: search_chain_def chain_exit_def)
next
  case (Empty_Verdict e raw)
  then have "e \<noteq> Available" using chosen_attempt_cases query_empty_verdict by (metis empty_iff exit_path.distinct insert_iff)
  then show ?thesis using assms Empty_Verdict by (auto simp: search_chain_def chain_exit_def)
next
  case (Results rs)
  let ?kept = "apply_hard_filters (titles_read oc) profile (Some (media_ref item)) rs"
  obtain representatives rkd where
    rank: "rank (conversion oc) (ranking_config oc) excluded (Some (wanted_kind item)) (dedup (fuzzy_key oc) ?kept) = Inr rkd"
    and c: "c = (if dedup (fuzzy_key oc) ?kept = [] then chain_exit All_Filtered None
             else if rkd = [] then chain_exit No_Seeders None
             else \<lparr>exit_path = Available, ranked = rkd, raw_before_filter = None\<rparr>)"
    using assms Results by (auto simp: search_chain_def rank_results_def rank_candidates_def raising_bind_Inr Let_def)
  have "rankable (ranking_config oc) excluded (fst p) \<and> fst p \<in> set ?kept" if "p \<in> set rkd" for p
  proof -
    have "mset (map fst rkd) = mset (filter (rankable (ranking_config oc) excluded) (dedup (fuzzy_key oc) ?kept))"
      using rank_names [OF rank] .
    then have "fst ` set rkd = set (filter (rankable (ranking_config oc) excluded) (dedup (fuzzy_key oc) ?kept))"
      by (metis set_map set_mset_mset)
    then show ?thesis using that dedup_subset by fastforce
  qed
  then show ?thesis using c by (auto simp: chain_exit_def)
qed

subsection \<open>The walk\<close>

lemma grab_walk_Take:
  "grab_walk oc tc remaining best = Take source r \<Longrightarrow>
   r \<in> fst ` set remaining \<and> resolve_source (sha1_hex oc) (transports oc) r = Inr source \<and> source_refusal oc tc source = Inr None"
proof (induction oc tc remaining best rule: grab_walk.induct)
  case (1 oc tc remaining best)
  let ?resolve = "resolve_source (sha1_hex oc) (transports oc)"
  obtain source' chosen where found: "resolve_first_available ?resolve remaining best = Resolved source' chosen"
    using 1(2) by (subst (asm) grab_walk.simps) (auto split: resolve_attempt.splits)
  then have chosen: "chosen \<in> fst ` set remaining \<and> ?resolve chosen = Inr source'" by (rule resolve_first_available_Resolved)
  obtain refusal where refusal: "source_refusal oc tc source' = Inr refusal"
    using 1(2) found by (subst (asm) grab_walk.simps) (auto split: sum.splits)
  show ?case
  proof (cases refusal)
    case None
    then have "source = source' \<and> r = chosen" using 1(2) found refusal by (subst (asm) grab_walk.simps) simp
    then show ?thesis using chosen refusal None by simp
  next
    case (Some reason)
    then have next_: "\<not> (reason \<noteq> ''shared_hash'' \<and> reason \<noteq> ''sandbox_hash'') \<and> without_release chosen remaining \<noteq> []
        \<and> grab_walk oc tc (without_release chosen remaining) (fst (hd (without_release chosen remaining))) = Take source r"
      using 1(2) found refusal by (subst (asm) grab_walk.simps) (auto split: if_splits)
    then have "r \<in> fst ` set (without_release chosen remaining) \<and> ?resolve r = Inr source \<and> source_refusal oc tc source = Inr None"
      using 1(1) [OF found refusal Some] by blast
    then show ?thesis using set_without_release by blast
  qed
qed

subsection \<open>How a grab ends\<close>

lemma failures_end [simp]:
  "fst (retryable item reason chosen s) = Inr (failed_outcome RETRYABLE reason chosen None)"
  "fst (not_found item reason s) = Inr (failed_outcome NOT_FOUND reason None (Some 0))"
  "fst (terminal item reason chosen s) = Inr (failed_outcome TERMINAL reason chosen None)"
  "fst (auth_failed item r status s) = Inr (failed_outcome TERMINAL ''tracker_auth'' (Some r) None)"
  by (simp_all add: retryable_def not_found_def terminal_def auth_failed_def)

lemma failed_disposition [simp]: "grab_disposition (failed_outcome d reason chosen found) = d"
  by (simp add: failed_outcome_def)

lemma grab_raised_ends: "\<exists>out. fst (grab_raised item r e s) = Inr out \<and> grab_disposition out \<noteq> SUCCESS"
  by (cases e) simp_all

lemma unresolved_ends: "\<exists>out. fst (unresolved item r e s) = Inr out \<and> grab_disposition out \<noteq> SUCCESS"
  by (cases "(item, r, e)" rule: unresolved.cases) simp_all

lemma take_release_ends:
  "\<exists>out. fst (take_release oc on_intent item tc n source r s) = Inr out \<and>
     (grab_disposition out = SUCCESS \<longrightarrow> (\<exists>h. add_in_scope oc tc source r = Inr h \<and> grab_hash out = Some h \<and> grab_chosen out = Some r))"
  using grab_raised_ends by (auto simp: take_release_def split: sum.split)

lemma grab_ranked_ends:
  "\<exists>out. fst (grab_ranked oc on_intent item rkd best s) = Inr out \<and>
     (grab_disposition out = SUCCESS \<longrightarrow> (\<exists>tc source r h. client oc = Some tc \<and> grab_walk oc tc rkd best = Take source r
        \<and> add_in_scope oc tc source r = Inr h \<and> grab_hash out = Some h \<and> grab_chosen out = Some r))"
proof (cases "client oc")
  case (Some tc)
  show ?thesis
  proof (cases "grab_walk oc tc rkd best")
    case (Take source r)
    then show ?thesis using take_release_ends [of oc on_intent item tc "length rkd" source r s] Some by (auto simp: grab_ranked_def)
  next
    case (No_Source culprit e)
    then show ?thesis using unresolved_ends [of item culprit e s] Some by (auto simp: grab_ranked_def)
  next
    case (Client_Raises e b)
    then show ?thesis using grab_raised_ends [of item b e s] Some by (auto simp: grab_ranked_def)
  qed (simp add: grab_ranked_def Some)
qed (simp add: grab_ranked_def)

lemma raised_only_when_degraded:
  assumes chain: "search_chain oc s item profile excluded = Inr c"
  shows "fst (grab oc on_intent item profile excluded s) = Inl e \<longleftrightarrow> e = AssertionError \<and> exit_path c = Trackers_Degraded"
proof (cases "ranked c")
  case Nil
  then have "exit_path c \<noteq> Available" using search_chain_exits [OF chain] by simp
  then show ?thesis using Nil chain
    by (cases "exit_path c") (auto simp: grab_def then_with_def top_of_def split: sum.split prod.split)
next
  case (Cons p ps)
  obtain r x where p: "p = (r, x)" by (cases p)
  have "exit_path c = Available" using search_chain_exits [OF chain] Cons by simp
  then show ?thesis using Cons chain p grab_ranked_ends [of oc on_intent item "ranked c" r s]
    by (auto simp: grab_def then_with_def top_of_def)
qed

text \<open>C28: a grab raises exactly when its search chain does, and also whenever only some of the trackers failed and none
  gave a result: the search of the same item answers that it is to be tried again, the grab fails an assertion.\<close>

theorem grab_raises_when_degraded:
  "fst (grab oc on_intent item profile excluded s) = Inl e \<longleftrightarrow>
     search_chain oc s item profile excluded = Inl e
     \<or> (e = AssertionError \<and> (\<exists>c. search_chain oc s item profile excluded = Inr c \<and> exit_path c = Trackers_Degraded
          \<and> (\<exists>v. search_item oc item profile excluded s = Inr v \<and> verdict_disposition v = RETRYABLE)))"
proof (cases "search_chain oc s item profile excluded")
  case (Inl e')
  then show ?thesis by (auto simp: grab_def then_with_def)
next
  case (Inr c)
  then show ?thesis using raised_only_when_degraded [OF Inr, of on_intent e] by (auto simp: search_item_def)
qed

text \<open>The steps of a grab that succeeds.\<close>

lemma grab_success_steps:
  assumes "fst (grab oc on_intent item profile excluded s) = Inr out" and "grab_disposition out = SUCCESS"
  obtains tc source r h rs where "client oc = Some tc" "grab_hash out = Some h" "grab_chosen out = Some r"
    "add_in_scope oc tc source r = Inr h" "resolve_source (sha1_hex oc) (transports oc) r = Inr source" "source_refusal oc tc source = Inr None"
    "rankable (ranking_config oc) excluded r" "r \<in> set (apply_hard_filters (titles_read oc) profile (Some (media_ref item)) rs)"
proof -
  obtain c where chain: "search_chain oc s item profile excluded = Inr c"
    using assms(1) by (auto simp: grab_def then_with_def split: sum.splits)
  obtain p ps where p: "ranked c = p # ps"
  proof (cases "ranked c")
    case Nil
    then have "exit_path c \<noteq> Available" using search_chain_exits [OF chain] by simp
    then have False using Nil chain assms
      by (cases "exit_path c") (auto simp: grab_def then_with_def top_of_def)
    then show ?thesis ..
  qed
  have "exit_path c = Available" using search_chain_exits [OF chain] p by simp
  then have "fst (grab_ranked oc on_intent item (ranked c) (fst p) s) = Inr out"
    using assms(1) chain p by (cases p) (simp add: grab_def then_with_def top_of_def)
  then obtain tc source r h where tc: "client oc = Some tc" and walk: "grab_walk oc tc (ranked c) (fst p) = Take source r"
    and add: "add_in_scope oc tc source r = Inr h" and out: "grab_hash out = Some h" "grab_chosen out = Some r"
    using grab_ranked_ends [of oc on_intent item "ranked c" "fst p" s] assms(2) by auto
  from grab_walk_Take [OF walk] have r: "r \<in> fst ` set (ranked c)"
    and source: "resolve_source (sha1_hex oc) (transports oc) r = Inr source" and refusal: "source_refusal oc tc source = Inr None" by auto
  from search_chain_exits [OF chain] r obtain rs where rankable: "rankable (ranking_config oc) excluded r"
    and filters: "r \<in> set (apply_hard_filters (titles_read oc) profile (Some (media_ref item)) rs)" by force
  show ?thesis by (rule that [OF tc out add source refusal rankable filters])
qed

text \<open>C10: what a successful grab handed to the client: a release that passed the hard filters (it does not carry another film's or
  show's TMDB id than the item's, it is a video and not adult, and the profile takes its resolution, its 3D and its audio), has
  enough seeders and names no hash tried before; where it was fetched as a torrent file, the file has the hash the release
  names, while a magnet link is handed over as it is and its hash is not compared; in a scoped client it is no torrent the
  client already has; and it is added with the scope's category and tags.\<close>

theorem grab_takes_an_untried_release:
  assumes "fst (grab oc on_intent item profile excluded s) = Inr out" and "grab_disposition out = SUCCESS"
  shows "\<exists>tc source r h. client oc = Some tc \<and> grab_hash out = Some h \<and> grab_chosen out = Some r
    \<and> add_torrent tc source (map_option scope_category (scope oc)) (tags_for oc r) (build_limits (limits oc) (is_limiter tc)) = Inr h
    \<and> resolve_source (sha1_hex oc) (transports oc) r = Inr source
    \<and> seeders r \<ge> min_seeders (ranking_config oc)
    \<and> (\<forall>x. info_hash r = Some x \<longrightarrow> lower x \<notin> excluded)
    \<and> (\<forall>x c body. info_hash r = Some x \<and> canonical_info_hash x = Inr c \<and> source = File_Bytes body
        \<longrightarrow> source_info_hash (sha1_hex oc) source = Inr c)
    \<and> (\<forall>i j. tmdb_id (media_ref item) = Some i \<and> release_tmdb_id r = Some j \<longrightarrow> i = j)
    \<and> passes_video_category r \<and> passes_not_adult (titles_read oc) r \<and> passes_resolution r profile
    \<and> passes_not_3d (titles_read oc) r profile \<and> passes_audio (titles_read oc) r profile
    \<and> (scope oc \<noteq> None \<longrightarrow> (\<exists>own hs. source_info_hash (sha1_hex oc) source = Inr own \<and> all_hashes tc = Inr hs
        \<and> lower own \<notin> lower ` set hs))"
proof -
  obtain tc source r h rs where tc: "client oc = Some tc" and out: "grab_hash out = Some h" "grab_chosen out = Some r"
    and add: "add_in_scope oc tc source r = Inr h" and source: "resolve_source (sha1_hex oc) (transports oc) r = Inr source"
    and refusal: "source_refusal oc tc source = Inr None" and rankable: "rankable (ranking_config oc) excluded r"
    and filters: "r \<in> set (apply_hard_filters (titles_read oc) profile (Some (media_ref item)) rs)"
    using assms by (rule grab_success_steps)
  have scoped: "\<exists>own hs. source_info_hash (sha1_hex oc) source = Inr own \<and> all_hashes tc = Inr hs \<and> lower own \<notin> lower ` set hs"
    if "scope oc \<noteq> None"
    using refusal that by (auto simp: source_refusal_def scope_refusal_def raising_bind_Inr split: if_splits sum.splits)
  show ?thesis
    using tc add out source rankable filters scoped fetched_file_has_the_hash
    by (intro exI [of _ tc] exI [of _ source] exI [of _ r] exI [of _ h])
      (auto simp: add_in_scope_def rankable_def apply_hard_filters_def)
qed

subsection \<open>A concrete grab\<close>

definition sample_titles :: title_reader where
  "sample_titles = \<lparr>adult_title = (\<lambda>_. False), stereo_title = (\<lambda>_. False), audio_languages = (\<lambda>_. {}), marks_episode = (\<lambda>_ _ _. True),
     many_seasons = (\<lambda>_. False), some_episode = (\<lambda>_. False), guessit = (\<lambda>_. None), token_set_ratio = (\<lambda>_ _. 100)\<rparr>"

definition sample_client :: torrent_client where
  "sample_client = \<lparr>is_lister = True, is_limiter = False, is_global_limiter = False, all_hashes = Inr [], by_hashes = (\<lambda>_. Inr []),
     categories = None, add_torrent = (\<lambda>_ _ _ _. Inr ''aa'')\<rparr>"

definition sample_orchestrator :: "(tracker_raise + release list) option \<Rightarrow> orchestrator" where
  "sample_orchestrator answer = \<lparr>tracker_answers = (\<lambda>_ _ _ _. answer), tracker_priority = (\<lambda>_. [''lacale'']), titles_read = sample_titles,
     fuzzy_key = (\<lambda>_. ({}, None, 0)), conversion = sample_conversions, ranking_config = sample_ranking, transports = Map.empty,
     sha1_hex = (\<lambda>x. x), client = Some sample_client,
     limits = \<lparr>global_down = None, global_up = None, per_torrent_down = None, per_torrent_up = None\<rparr>, scope = None, sandbox_categories = []\<rparr>"

definition sample_item :: wanted_item where
  "sample_item = (fresh_item \<lparr>tvdb_id = Some 7, tmdb_id = None, imdb_id = None\<rparr> MOVIE 0 None None None)\<lparr>wanted_id := 1\<rparr>"

definition sample_db :: acquire_db where
  "sample_db = \<lparr>follows = [], wanted = [sample_item], aired = [], seeds = [], marks = [], effects = []\<rparr>"

lemma sample_chain:
  assumes "''aa'' \<notin> X"
  shows "search_chain (sample_orchestrator (Some (Inr [sample_release ''a'' 2 ''aa'']))) sample_db sample_item default_profile X =
     Inr \<lparr>exit_path = Available, ranked = [(sample_release ''a'' 2 ''aa'', 6)], raw_before_filter = None\<rparr>"
proof -
  have "chosen_attempt (sample_orchestrator (Some (Inr [sample_release ''a'' 2 ''aa'']))) sample_db sample_item = Results [sample_release ''a'' 2 ''aa'']"
    by (simp add: chosen_attempt_def query_and_narrow_def registry_search_def search_candidates_def empty_outcome_def all_errored_def
        narrow_def sample_orchestrator_def sample_item_def fresh_item_def title_resolver_def original_title_resolver_def follow_of_def)
  moreover have "apply_hard_filters sample_titles default_profile (Some (media_ref sample_item)) [sample_release ''a'' 2 ''aa''] = [sample_release ''a'' 2 ''aa'']"
    by (simp add: apply_hard_filters_def sample_item_def fresh_item_def sample_titles_def default_profile_def sample_release_def
        passes_video_category_def passes_not_adult_def passes_resolution_def passes_not_3d_def passes_audio_def category_class_def)
  moreover have "dedup k [sample_release ''a'' 2 ''aa''] = [sample_release ''a'' 2 ''aa'']" for k :: "release \<Rightarrow> string set \<times> int option \<times> int"
    by (simp add: dedup_def hash_key_def sample_release_def best_of_def cluster_by_size_def strip_def lower_def is_space_def)
  moreover have "rank sample_conversions sample_ranking X k [sample_release ''a'' 2 ''aa''] = Inr [(sample_release ''a'' 2 ''aa'', 6)]" for k
    using assms by (simp add: rank_def rankable_def release_score_def sample_ranking_def sample_release_def attribute_of_def criterion_points_def
        best_threshold_def int_trunc_def lower_def is_upper_def)
  ultimately show ?thesis by (simp add: search_chain_def rank_results_def rank_candidates_def sample_orchestrator_def)
qed

lemma sample_grab:
  assumes "''aa'' \<notin> X"
  shows "\<exists>out. fst (grab (sample_orchestrator (Some (Inr [sample_release ''a'' 2 ''aa'']))) (\<lambda>_ s. s) sample_item default_profile X sample_db) = Inr out
    \<and> grab_disposition out = SUCCESS \<and> grab_hash out = Some ''aa'' \<and> grab_chosen out = Some (sample_release ''a'' 2 ''aa'')"
proof -
  let ?oc = "sample_orchestrator (Some (Inr [sample_release ''a'' 2 ''aa'']))"
  let ?r = "sample_release ''a'' 2 ''aa''"
  have "resolve_first_available (resolve_source (sha1_hex ?oc) (transports ?oc)) [(?r, 6)] ?r = Resolved (Magnet ''magnet:?x'') ?r"
    by (simp add: resolve_first_available_def FETCH_FALLBACK_CANDIDATES_def resolve_source_def sample_release_def is_magnet_def lower_def is_upper_def)
  then have "grab_walk ?oc sample_client [(?r, 6)] ?r = Take (Magnet ''magnet:?x'') ?r"
    by (subst grab_walk.simps) (simp add: source_refusal_def sample_orchestrator_def)
  moreover have "add_in_scope ?oc sample_client source r = Inr ''aa''" for source r by (simp add: add_in_scope_def sample_client_def)
  moreover have "client ?oc = Some sample_client" by (simp add: sample_orchestrator_def)
  ultimately show ?thesis
    using assms by (simp add: grab_def then_with_def sample_chain top_of_def grab_ranked_def take_release_def)
qed

lemma grab_takes_an_untried_release_witness:
  "let oc = sample_orchestrator (Some (Inr [sample_release ''a'' 2 ''aa'']))
   in \<exists>out. fst (grab oc (\<lambda>_ s. s) sample_item default_profile {} sample_db) = Inr out \<and> grab_hash out = Some ''aa''
        \<and> (\<exists>r. grab_chosen out = Some r \<and> seeders r \<ge> 1)"
proof -
  obtain out where out: "fst (grab (sample_orchestrator (Some (Inr [sample_release ''a'' 2 ''aa'']))) (\<lambda>_ s. s) sample_item default_profile {} sample_db) = Inr out"
      "grab_disposition out = SUCCESS" "grab_hash out = Some ''aa''" using sample_grab [of "{}"] by auto
  from grab_takes_an_untried_release [OF out(1,2)] out show ?thesis
    by (auto simp: sample_orchestrator_def sample_ranking_def)
qed

end
