(* ===== verification/Pass_Settles.thy ===== *)
theory Pass_Settles
  imports Pass_Facts Grab_Facts
begin

text \<open>
  What the search pass and the grab pass leave of the wanted table: every claim they make they settle, and the table stays
  sound.
\<close>

subsection \<open>The queue\<close>

lemma set_first_of_each_id: "set (first_of_each_id seen rs) \<subseteq> set rs"
  by (induction seen rs rule: first_of_each_id.induct) auto

lemma first_of_each_id_has: "r \<in> set rs \<Longrightarrow> wanted_id r \<notin> seen \<Longrightarrow> wanted_id r \<in> wanted_id ` set (first_of_each_id seen rs)"
  by (induction seen rs rule: first_of_each_id.induct) auto

lemma stale_is_queued:
  assumes ok: "wanted_ok rs" and head: "set head \<subseteq> set rs" and r: "r \<in> set rs" "recoverable (t - STALE_THRESHOLD_S) r"
  shows "r \<in> set (build_queue head t None None rs)"
proof -
  let ?all = "head @ list_stale_searching (t - STALE_THRESHOLD_S) rs"
  have "r \<in> set ?all" using r by (auto simp: list_stale_searching_def recoverable_def)
  then obtain r' where r': "r' \<in> set (first_of_each_id {} ?all)" "wanted_id r' = wanted_id r"
    using first_of_each_id_has [of r ?all "{}"] by auto
  have "r' \<in> set rs" using r'(1) set_first_of_each_id [of "{}" ?all] head by (auto simp: list_stale_searching_def)
  then have "r' = r" using keyed_unique [OF wanted_ok_distinct [OF ok]] r r' by metis
  then show ?thesis using r' by (simp add: build_queue_def)
qed


lemma searching_queue_passed:
  assumes ok: "wanted_ok rs" and head: "set head \<subseteq> set rs" and r: "r \<in> set rs" "wanted_status r = SEARCHING"
    and all: "\<forall>item \<in> set (build_queue head t limit fid rs). wanted_id item = wanted_id r \<and> wanted_status item = SEARCHING
      \<longrightarrow> \<not> recoverable (t - STALE_THRESHOLD_S) r"
  shows "limit = None \<and> fid = None \<longrightarrow> \<not> recoverable (t - STALE_THRESHOLD_S) r"
  using stale_is_queued [OF ok head r(1)] all r(2) by blast

lemma with_status_rows: "set (list_pending rs) \<subseteq> set rs" "set (list_available rs) \<subseteq> set rs"
  by (auto simp: list_pending_def list_available_def with_status_def)

subsection \<open>The passes\<close>

text \<open>C3: a search pass that returns, whatever the trackers answered, has tagged every item of its queue and left no claim:
  a row in \<open>searching\<close> is one that was there before, untouched; over the whole queue it is also none the pass had to take
  back, its claim being younger than an hour or carrying a grab's hash.\<close>

theorem search_pass_settles:
  assumes "wanted_ok (wanted s)" and "run_search envs t global limit fid s = (Inr tags, s')"
  shows "length tags = length (build_queue (list_pending (wanted s)) t limit fid (wanted s))
    \<and> (\<forall>r \<in> set (wanted s'). wanted_status r = SEARCHING \<longrightarrow>
         r \<in> set (wanted s) \<and> (limit = None \<and> fid = None \<longrightarrow> \<not> recoverable (t - STALE_THRESHOLD_S) r))"
proof -
  let ?queue = "build_queue (list_pending (wanted s)) t limit fid (wanted s)"
  have "case search_items envs t (follows s) global ?queue {} s of
     (Inl e, s') \<Rightarrow> \<exists>i. sound i (wanted s) s'
   | (Inr tags, s') \<Rightarrow> length tags = length ?queue \<and> search_run.passed_over t ?queue (wanted s) s'"
    using search_run.run_leaves [OF assms(1)] .
  then have "length tags = length ?queue \<and> search_run.passed_over t ?queue (wanted s) s'"
    using assms(2) by (simp add: run_search_def)
  then show ?thesis
    using searching_queue_passed [OF assms(1) with_status_rows(1)] unfolding search_run.passed_over_def by blast
qed

text \<open>C9: a grab pass that the scope lets run and that returns, which is one in which none of its items raised, has tagged every item
  of its queue and left no claim: a row in \<open>searching\<close> is one that was there before, untouched; over the whole queue it is also
  none the pass had to take back. A pass that a raise of one item leaves (C28) is not covered: it leaves that item claimed.\<close>

theorem grab_pass_settles:
  assumes "wanted_ok (wanted s)" and "scope_allows_grab oc = Inr True" and "run_grab oc envs t global limit fid s = (Inr tags, s')"
  shows "length tags = length (build_queue (list_available (wanted s)) t limit fid (wanted s))
    \<and> (\<forall>r \<in> set (wanted s'). wanted_status r = SEARCHING \<longrightarrow>
         r \<in> set (wanted s) \<and> (limit = None \<and> fid = None \<longrightarrow> \<not> recoverable (t - STALE_THRESHOLD_S) r))"
proof -
  let ?s = "apply_global_caps oc s"
  let ?queue = "build_queue (list_available (wanted s)) t limit fid (wanted s)"
  have caps: "wanted ?s = wanted s" by (auto simp: apply_global_caps_def split: option.split)
  have "case process_items envs t (follows ?s) global ?queue ?s of
     (Inl e, s') \<Rightarrow> \<exists>i. sound i (wanted ?s) s'
   | (Inr tags, s') \<Rightarrow> length tags = length ?queue \<and> grab_run.passed_over t ?queue (wanted ?s) s'"
    using assms(1) caps by (intro grab_run.run_leaves) simp
  then have "length tags = length ?queue \<and> grab_run.passed_over t ?queue (wanted s) s'"
    using assms(2,3) caps by (simp add: run_grab_def)
  then show ?thesis
    using searching_queue_passed [OF assms(1) with_status_rows(2)] unfolding grab_run.passed_over_def by blast
qed

text \<open>C8: both passes keep the wanted table sound, also when an exception leaves them: ids stay unique, no follow has two
  open wanteds for one target, no row that can be claimed carries a hash; and at most one item is left claimed.\<close>

theorem passes_keep_the_table:
  assumes "wanted_ok (wanted s)" and "s' \<in> {snd (run_search envs t global limit fid s), snd (run_grab oc genvs t global limit fid s)}"
  shows "wanted_ok (wanted s')
    \<and> (\<exists>i. \<forall>r \<in> set (wanted s'). wanted_status r = SEARCHING \<and> wanted_id r \<noteq> i \<longrightarrow> r \<in> set (wanted s))"
proof -
  have passed: "\<exists>i. sound i (wanted s) s1" if "case m of (Inl e, s1) \<Rightarrow> \<exists>i. sound i (wanted s) s1
      | (Inr tags, s1) \<Rightarrow> length tags = n \<and> wanted_ok (wanted s1) \<and> (\<forall>r \<in> set (wanted s1). wanted_status r = SEARCHING \<longrightarrow> r \<in> set (wanted s) \<and> P r)"
      and "s1 = snd m" for m :: "(py_error + 'a list) \<times> acquire_db" and s1 n P
    using that by (auto simp: sound_def claims_of_def split: prod.splits sum.splits)
  have caps: "wanted (apply_global_caps oc s) = wanted s" by (auto simp: apply_global_caps_def split: option.split)
  have "\<exists>i. sound i (wanted s) (snd (run_search envs t global limit fid s))"
    unfolding run_search_def act_simps
    by (rule passed [OF search_run.run_leaves [OF assms(1), unfolded search_run.passed_over_def]]) (rule refl)
  moreover have "\<exists>i. sound i (wanted s) (snd (run_grab oc genvs t global limit fid s))"
  proof (cases "scope_allows_grab oc = Inr True")
    case True
    have "wanted_ok (wanted (apply_global_caps oc s))" using assms(1) caps by simp
    from grab_run.run_leaves [OF this, unfolded grab_run.passed_over_def caps]
    have "\<exists>i. sound i (wanted s) (snd (process_items genvs t (follows (apply_global_caps oc s)) global
        (build_queue (list_available (wanted s)) t limit fid (wanted s)) (apply_global_caps oc s)))"
      by (rule passed) (rule refl)
    then show ?thesis using True caps by (simp add: run_grab_def)
  next
    case False
    then have "wanted (snd (run_grab oc genvs t global limit fid s)) = wanted s"
      using caps by (auto simp: run_grab_def split: sum.split bool.split)
    then show ?thesis using assms(1) by (simp add: sound_def claims_refl)
  qed
  ultimately show ?thesis using assms(2) by (auto simp: sound_def claims_of_def)
qed

subsection \<open>A concrete pass\<close>

text \<open>One tracker, which fails: the item is searched, and waits again with its attempt refunded.\<close>

definition sample_env :: search_env where
  "sample_env = \<lparr>search_oc = sample_orchestrator (Some (Inl ApiFailure)), search_clock = 100,
     search_calendar = \<lparr>parse_date = (\<lambda>_. None), local_day = (\<lambda>_. 0)\<rparr>\<rparr>"


lemma sample_ok: "wanted_ok (wanted sample_db)"
  by (simp add: wanted_ok_def sample_db_def sample_item_def fresh_item_def one_open_def claimable_rows_clean_def)

lemma sample_verdict:
  "search_item (search_oc sample_env) item profile excluded s =
     Inr \<lparr>verdict_disposition = RETRYABLE, verdict_outcome = Trackers_Unavailable, verdict_found = None, verdict_chosen = None, verdict_raw = None\<rparr>"
proof -
  have "query_and_narrow (search_oc sample_env) s item query title original year = Hard_Stop Trackers_Unavailable" for query title original year
    by (simp add: query_and_narrow_def registry_search_def search_candidates_def empty_outcome_def all_errored_def
        all_errored_exit_def sample_env_def sample_orchestrator_def)
  then show ?thesis
    by (simp add: search_item_def search_chain_def chosen_attempt_def chain_exit_def top_of_def Let_def)
qed

definition sample_searched :: acquire_db where
  "sample_searched = sample_db\<lparr>wanted := [sample_item\<lparr>last_search_at := Some 100, last_search_outcome := Some ''trackers_unavailable''\<rparr>]\<rparr>"

lemma sample_search_pass: "run_search (\<lambda>_. sample_env) 100 sample_cadence None None sample_db = (Inr [Tag_Unverified], sample_searched)"
proof -
  let ?current = "sample_item\<lparr>wanted_status := SEARCHING, attempts := 1, last_search_at := Some 100\<rparr>"
  have queue: "build_queue (list_pending (wanted sample_db)) 100 None None (wanted sample_db) = [sample_item]"
    by (simp add: build_queue_def list_pending_def with_status_def list_stale_searching_def sample_db_def sample_item_def fresh_item_def)
  have cadence: "cadence_for (follows sample_db) sample_cadence sample_item = sample_cadence"
    by (simp add: cadence_for_def effective_cadence_def sample_item_def fresh_item_def)
  have gates: "cadence_gates sample_item 100 sample_cadence sample_db = (Proceed, sample_db)"
    by (simp add: cadence_gates_def cutoff_gate_def sample_item_def fresh_item_def is_past_cutoff_def sample_cadence_def is_due_by_cadence_def)
  have claim: "claim_for_search 1 100 (wanted sample_db) = (True, [?current])" "wanted_id sample_item = 1"
    by (simp_all add: claim_for_search_def move_def sql_count_def sql_update_def sample_db_def sample_item_def fresh_item_def)
  have clock: "search_clock sample_env = 100" by (simp add: sample_env_def)
  let ?s = "sample_db\<lparr>wanted := [?current]\<rparr>"
  let ?v = "\<lparr>verdict_disposition = RETRYABLE, verdict_outcome = Trackers_Unavailable, verdict_found = None, verdict_chosen = None, verdict_raw = None\<rparr>"
  have item: "followed_id sample_item = None" "criteria_json sample_item = None" "attempts sample_item = 0" by (simp_all add: sample_item_def fresh_item_def)
  obtain profile where profile: "effective_profile ?s ?current = Inr profile"
    using item by (auto simp: effective_profile_def follow_of_def source_criteria_from_json_def)
  have "apply_search_verdict ?current ?v ?s = (Tag_Unverified, sample_searched)"
    by (simp add: apply_search_verdict_def Let_def status_after_def found_after_def chosen_summary_def INCONCLUSIVE_OUTCOMES_def on_wanted_def
        record_search_outcome_def set_status_def refund_search_attempt_def move_def sql_update_def sample_searched_def sample_db_def
        sample_item_def fresh_item_def)
  then have after: "search_claimed sample_env ?current 100 {} ?s = (Inr (Tag_Unverified, {}), sample_searched)"
    by (simp add: search_claimed_def then_with_raising profile sample_verdict after_search_def season_packs_def settle_search_def
        is_starved_def STARVATION_OUTCOMES_def)
  have "search_guarded sample_env sample_item 100 sample_cadence {} sample_db = (Inr (Tag_Unverified, {}), sample_searched)"
    by (simp add: search_guarded_def search_one_def then_with_def gates clock claim after get_wanted_def)
  then show ?thesis by (simp add: run_search_def queue cadence then_with_def)
qed


text \<open>The grab of an available item from the same tracker: it waits again.\<close>

definition sample_grab_env :: grab_env where
  "sample_grab_env = \<lparr>grab_oc = sample_orchestrator (Some (Inl ApiFailure)), grab_clock = 100, run_uid = None, tracker_economy = Map.empty\<rparr>"

definition sample_available_db :: acquire_db where
  "sample_available_db = sample_db\<lparr>wanted := [sample_item\<lparr>wanted_status := AVAILABLE\<rparr>]\<rparr>"

lemma sample_available_ok: "wanted_ok (wanted sample_available_db)"
  by (simp add: wanted_ok_def sample_available_db_def sample_item_def fresh_item_def one_open_def claimable_rows_clean_def)

lemma sample_grab_pass:
  "\<exists>s'. run_grab (grab_oc sample_grab_env) (\<lambda>_. sample_grab_env) 100 sample_cadence None None sample_available_db = (Inr [Tag_Retried], s')"
proof -
  let ?item = "sample_item\<lparr>wanted_status := AVAILABLE\<rparr>"
  let ?current = "sample_item\<lparr>wanted_status := SEARCHING, attempts := 1, last_search_at := Some 100\<rparr>"
  let ?s = "sample_available_db\<lparr>wanted := [?current]\<rparr>"
  have queue: "build_queue (list_available (wanted sample_available_db)) 100 None None (wanted sample_available_db) = [?item]"
    by (simp add: build_queue_def list_available_def with_status_def list_stale_searching_def sample_available_db_def)
  have cadence: "cadence_for (follows sample_available_db) sample_cadence ?item = sample_cadence"
    by (simp add: cadence_for_def effective_cadence_def sample_item_def fresh_item_def)
  have gate: "cutoff_gate ?item 100 sample_cadence sample_available_db = (Proceed, sample_available_db)"
    by (simp add: cutoff_gate_def sample_item_def fresh_item_def is_past_cutoff_def sample_cadence_def)
  have claim: "claim_item sample_grab_env ?item sample_available_db = (True, ?s)" "wanted_id sample_item = 1"
    by (simp_all add: claim_item_def claim_for_grab_def move_def sql_count_def sql_update_def sample_available_db_def sample_grab_env_def
        sample_item_def fresh_item_def)
  have item: "followed_id sample_item = None" "criteria_json sample_item = None" "grabbed_hash sample_item = None"
    by (simp_all add: sample_item_def fresh_item_def)
  obtain profile where profile: "effective_profile ?s ?current = Inr profile"
    using item by (auto simp: effective_profile_def follow_of_def source_criteria_from_json_def)
  have "query_and_narrow (grab_oc sample_grab_env) ?s ?current query title original year = Hard_Stop Trackers_Unavailable" for query title original year
    by (simp add: query_and_narrow_def registry_search_def search_candidates_def empty_outcome_def all_errored_def
        all_errored_exit_def sample_grab_env_def sample_orchestrator_def)
  then have chain: "search_chain (grab_oc sample_grab_env) ?s ?current profile excluded = Inr (chain_exit Trackers_Unavailable None)" for excluded
    by (simp add: search_chain_def chosen_attempt_def Let_def)
  have "\<exists>s1. grab_current sample_grab_env ?current ?s = (Inr Tag_Retried, s1)"
    by (simp add: grab_current_def item profile then_with_def grab_def chain chain_exit_def retryable_def then_do_def
        persist_failure_def failed_outcome_def Let_def)
  then have "\<exists>s1. process_guarded sample_grab_env ?item 100 sample_cadence sample_available_db = (Inr Tag_Retried, s1)"
    by (auto simp: process_guarded_def process_item_def then_with_def gate claim get_wanted_def)
  then have "\<exists>s1. process_items (\<lambda>_. sample_grab_env) 100 (follows sample_available_db) sample_cadence [?item] sample_available_db = (Inr [Tag_Retried], s1)"
    using cadence by (auto simp: then_with_def)
  moreover have "apply_global_caps (grab_oc sample_grab_env) sample_available_db = sample_available_db" "scope_allows_grab (grab_oc sample_grab_env) = Inr True"
    by (simp_all add: apply_global_caps_def scope_allows_grab_def sample_grab_env_def sample_orchestrator_def)
  ultimately show ?thesis using queue by (simp add: run_grab_def)
qed

lemma grab_pass_settles_witness:
  "\<exists>s'. run_grab (grab_oc sample_grab_env) (\<lambda>_. sample_grab_env) 100 sample_cadence None None sample_available_db = (Inr [Tag_Retried], s')
     \<and> list_searching (wanted s') = []"
proof -
  have scope: "scope_allows_grab (grab_oc sample_grab_env) = Inr True" by (simp add: scope_allows_grab_def sample_grab_env_def sample_orchestrator_def)
  obtain s' where run: "run_grab (grab_oc sample_grab_env) (\<lambda>_. sample_grab_env) 100 sample_cadence None None sample_available_db = (Inr [Tag_Retried], s')"
    using sample_grab_pass by blast
  have "wanted_status r \<noteq> SEARCHING" if "r \<in> set (wanted sample_available_db)" for r
    using that by (auto simp: sample_available_db_def sample_db_def)
  then have "list_searching (wanted s') = []"
    using grab_pass_settles [OF sample_available_ok scope run] by (auto simp: list_searching_def with_status_def filter_empty_conv)
  with run show ?thesis by blast
qed

lemma search_pass_settles_witness:
  "run_search (\<lambda>_. sample_env) 100 sample_cadence None None sample_db = (Inr [Tag_Unverified], sample_searched)
   \<and> list_searching (wanted sample_searched) = []"
proof -
  have "wanted_status r \<noteq> SEARCHING" if "r \<in> set (wanted sample_db)" for r
    using that by (auto simp: sample_db_def sample_item_def fresh_item_def)
  then have "list_searching (wanted sample_searched) = []"
    using search_pass_settles [OF sample_ok sample_search_pass] by (auto simp: list_searching_def with_status_def filter_empty_conv)
  with sample_search_pass show ?thesis by blast
qed

lemma passes_keep_the_table_witness:
  "wanted_ok (wanted (snd (run_search (\<lambda>_. sample_env) 100 sample_cadence None None sample_db))) \<and> wanted_ok (wanted sample_searched)"
  using passes_keep_the_table [OF sample_ok, of sample_searched "\<lambda>_. sample_env" 100 sample_cadence None None
      "sample_orchestrator None" "\<lambda>_. sample_grab_env"] sample_search_pass by simp

end
