(* ===== verification/Folder_Tree.thy ===== *)
theory Folder_Tree
  imports Py_Errors "HOL-Library.Sublist"
begin

text \<open>
  A file system as a tree of named entries, and its removals: \<open>_scandir_rmtree\<close> (\<open>indexer/deletion.py\<close>), which skips the
  entries that are listed but cannot be reached, and \<open>remove_empty_parents\<close> (\<open>app/library/deletion.py\<close>). A path is the list
  of its names. What the operating system refuses is a parameter.
\<close>

subsection \<open>The tree\<close>

text \<open>A file or a link is a leaf: the code unlinks either and follows none.\<close>

datatype node = Leaf | Folder "(string \<times> node) list"

type_synonym path = "string list"

fun entry_at :: "path \<Rightarrow> node \<Rightarrow> node option" where
  "entry_at [] n = Some n"
| "entry_at (c # cs) Leaf = None"
| "entry_at (c # cs) (Folder es) = Option.bind (map_of es c) (entry_at cs)"

text \<open>A subtree replaced or removed; the root itself stays.\<close>

fun put_at :: "path \<Rightarrow> node option \<Rightarrow> node \<Rightarrow> node" where
  "put_at [] v n = (case v of None \<Rightarrow> n | Some m \<Rightarrow> m)"
| "put_at (c # cs) v Leaf = Leaf"
| "put_at (c # cs) v (Folder es) =
     (if cs = [] \<and> v = None then Folder (filter (\<lambda>(d, m). d \<noteq> c) es)
      else Folder (map (\<lambda>(d, m). (d, if d = c then put_at cs v m else m)) es))"

text \<open>No two entries of a folder have one name.\<close>

fun tree_ok :: "node \<Rightarrow> bool" where
  "tree_ok Leaf = True"
| "tree_ok (Folder es) = (distinct (map fst es) \<and> (\<forall>(c, n) \<in> set es. tree_ok n))"

lemma tree_ok_Folder: "tree_ok (Folder es) \<longleftrightarrow> distinct (map fst es) \<and> (\<forall>x \<in> set es. tree_ok (snd x))"
  by auto

subsection \<open>The removal of a folder\<close>

text \<open>Why a call fails: the entry is listed but not found (a ghost, or one that went in the meantime: both
  \<open>FileNotFoundError\<close>), or another \<open>OSError\<close>.\<close>

datatype os_failure = Ghost | Vanished | Os_Error

record os_faults =
  stat_fault :: "path \<Rightarrow> bool"
  scan_fault :: "path \<Rightarrow> os_failure option"
  unlink_fault :: "path \<Rightarrow> os_failure option"
  rmdir_fault :: "path \<Rightarrow> os_failure option"

text \<open>What is left of the entry, why the walk stopped, the ghosts it met.\<close>

fun rmtree :: "os_faults \<Rightarrow> path \<Rightarrow> node \<Rightarrow> node option \<times> os_failure option \<times> path list"
  and rm_entries :: "os_faults \<Rightarrow> path \<Rightarrow> (string \<times> node) list \<Rightarrow> (string \<times> node) list \<times> os_failure option \<times> path list" where
  "rmtree ft p Leaf = (case unlink_fault ft p of
     None \<Rightarrow> (None, None, [])
   | Some Vanished \<Rightarrow> (None, Some Vanished, [])
   | Some e \<Rightarrow> (Some Leaf, Some e, []))"
| "rmtree ft p (Folder es) = (case scan_fault ft p of
     Some Vanished \<Rightarrow> (None, Some Vanished, [])
   | Some e \<Rightarrow> (Some (Folder es), Some e, [])
   | None \<Rightarrow>
       (let (rest, e, ghosts) = rm_entries ft p es
        in if e \<noteq> None then (Some (Folder rest), e, ghosts)
           else if rest \<noteq> [] then (Some (Folder rest), Some Os_Error, ghosts)
           else case rmdir_fault ft p of
             None \<Rightarrow> (None, None, ghosts)
           | Some Vanished \<Rightarrow> (None, Some Vanished, ghosts)
           | Some e \<Rightarrow> (Some (Folder []), Some e, ghosts)))"
| "rm_entries ft p [] = ([], None, [])"
| "rm_entries ft p (x # es) =
     (let c = fst x; q = p @ [c] in
      if stat_fault ft q then (let (rest, e, ghosts) = rm_entries ft p es in (x # rest, e, q # ghosts))
      else let (left, e, ghosts) = rmtree ft q (snd x); kept = (case left of None \<Rightarrow> [] | Some n \<Rightarrow> [(c, n)])
        in if e = Some Os_Error then (kept @ es, Some Os_Error, ghosts)
           else let (rest, e', ghosts') = rm_entries ft p es
             in (kept @ rest, e', ghosts @ (if e = None then [] else [q]) @ ghosts'))"

text \<open>The removal in the whole tree: failed or not, and the ghosts.\<close>

definition remove_folder :: "os_faults \<Rightarrow> path \<Rightarrow> node \<Rightarrow> (bool \<times> path list) \<times> node" where
  "remove_folder ft p tree = (case entry_at p tree of
     None \<Rightarrow> ((False, []), tree)
   | Some n \<Rightarrow> (let (left, e, ghosts) = rmtree ft p n in ((e = None, ghosts), put_at p left tree)))"

definition remove_dir :: "os_faults \<Rightarrow> path \<Rightarrow> node \<Rightarrow> node option" where
  "remove_dir ft p tree =
     (if p \<noteq> [] \<and> entry_at p tree = Some (Folder []) \<and> rmdir_fault ft p = None then Some (put_at p None tree) else None)"

text \<open>The parents left empty, from the nearest up, never the root; the parent's names are reversed.\<close>

fun climb :: "os_faults \<Rightarrow> path \<Rightarrow> string list \<Rightarrow> node \<Rightarrow> path list \<times> node" where
  "climb ft disk [] tree = ([], tree)"
| "climb ft disk (c # up) tree =
     (let p = rev (c # up)
      in if p \<noteq> disk \<and> prefix disk p then
           (case remove_dir ft p tree of
              None \<Rightarrow> ([], tree)
            | Some tree \<Rightarrow> (let (ps, tree) = climb ft disk up tree in (p # ps, tree)))
         else ([], tree))"

definition remove_empty_parents :: "os_faults \<Rightarrow> path \<Rightarrow> path \<Rightarrow> node \<Rightarrow> path list \<times> node" where
  "remove_empty_parents ft folder disk = climb ft disk (rev (butlast folder))"

subsection \<open>Reading a tree after a removal\<close>

lemma map_of_update_entry:
  "map_of (map (\<lambda>(d, m). (d, if d = c then f m else m)) es) d = (if d = c then map_option f (map_of es d) else map_of es d)"
  by (induction es) auto

lemma map_of_drop_entry: "map_of (filter (\<lambda>(d, m). d \<noteq> c) es) d = (if d = c then None else map_of es d)"
  by (induction es) auto

lemma at_put_elsewhere: "\<not> prefix p q \<Longrightarrow> \<not> prefix q p \<Longrightarrow> entry_at q (put_at p v n) = entry_at q n"
proof (induction p v n arbitrary: q rule: put_at.induct)
  case (3 c cs v es)
  then obtain d ds where q: "q = d # ds" by (cases q) auto
  show ?case
  proof (cases "map_of es d")
    case None
    then show ?thesis using q by (auto simp: map_of_update_entry map_of_drop_entry)
  next
    case (Some m)
    then show ?thesis using 3 q map_of_SomeD [OF Some] by (auto simp: map_of_update_entry map_of_drop_entry)
  qed
qed auto

lemma at_put_above: "prefix q p \<Longrightarrow> q \<noteq> p \<Longrightarrow> entry_at q (put_at p v n) = None \<longleftrightarrow> entry_at q n = None"
proof (induction p v n arbitrary: q rule: put_at.induct)
  case (3 c cs v es)
  show ?case
  proof (cases q)
    case (Cons d ds)
    show ?thesis
    proof (cases "map_of es d")
      case None
      then show ?thesis using Cons by (auto simp: map_of_update_entry map_of_drop_entry)
    next
      case (Some m)
      then show ?thesis using 3 Cons map_of_SomeD [OF Some] by (auto simp: map_of_update_entry map_of_drop_entry)
    qed
  qed simp
qed auto

lemma at_put_here: "p \<noteq> [] \<Longrightarrow> entry_at p n \<noteq> None \<Longrightarrow> entry_at (p @ q) (put_at p v n) = (case v of None \<Rightarrow> None | Some m \<Rightarrow> entry_at q m)"
proof (induction p v n rule: put_at.induct)
  case (3 c cs v es)
  show ?case
  proof (cases "cs = [] \<and> v = None")
    case True
    then show ?thesis by (simp add: map_of_drop_entry)
  next
    case False
    obtain m where m: "map_of es c = Some m" using 3(3) by (cases "map_of es c") auto
    show ?thesis using 3 False m map_of_SomeD [OF m] by (cases "cs = []") (auto simp: map_of_update_entry split: option.splits)
  qed
qed auto

lemma at_append: "entry_at (p @ q) n = Option.bind (entry_at p n) (entry_at q)"
proof (induction p n rule: entry_at.induct)
  case (3 c cs es)
  then show ?case by (cases "map_of es c") auto
qed auto

subsection \<open>What a removal does\<close>

lemma rmtree_done: "rmtree ft p n = (left, None, ghosts) \<Longrightarrow> left = None"
  by (cases n) (auto simp: Let_def split: option.splits os_failure.splits prod.splits if_splits)

text \<open>A removal never adds: what is left of a folder was there.\<close>

lemma rm_entries_names:
  "set (map fst (fst (rm_entries ft p es))) \<subseteq> set (map fst es)"
  by (induction es) (auto simp: Let_def case_prod_beta split: option.split if_splits)

lemma rm_entries_map_of:
  assumes sub: "\<And>x q left. x \<in> set es \<Longrightarrow> fst (rmtree ft (p @ [fst x]) (snd x)) = Some left \<Longrightarrow> entry_at q left \<noteq> None \<Longrightarrow> entry_at q (snd x) \<noteq> None"
    and "distinct (map fst es)" and "map_of (fst (rm_entries ft p es)) c = Some m" and "entry_at q m \<noteq> None"
  shows "\<exists>n. map_of es c = Some n \<and> entry_at q n \<noteq> None"
  using assms
proof (induction es)
  case (Cons x es)
  have notin: "fst x \<notin> set (map fst (fst (rm_entries ft p es)))" using Cons.prems(2) rm_entries_names [of ft p es] by auto
  have IH: "map_of (fst (rm_entries ft p es)) c = Some m \<Longrightarrow> \<exists>n. map_of es c = Some n \<and> entry_at q n \<noteq> None"
    using Cons.IH Cons.prems by simp
  show ?case
  proof (cases "fst x = c")
    case True
    have none: "map_of (fst (rm_entries ft p es)) c = None" "map_of es c = None" using notin True Cons.prems(2) by (auto simp: map_of_eq_None_iff)
    have kept: "map_of es c = None \<Longrightarrow> map_of (es' @ es) c = Some m \<Longrightarrow> map_of es' c = Some m" for es' by (auto simp: map_add_Some_iff)
    consider "m = snd x" | "fst (rmtree ft (p @ [fst x]) (snd x)) = Some m"
      using Cons.prems(3) none True by (auto simp: Let_def case_prod_beta split: option.splits if_splits)
    then have "entry_at q (snd x) \<noteq> None" using Cons.prems(1) [of x m q] Cons.prems(4) by cases auto
    then show ?thesis using True by (cases x) auto
  next
    case False
    then have "map_of (fst (rm_entries ft p es)) c = Some m \<or> map_of es c = Some m"
      using Cons.prems(3) by (auto simp: Let_def case_prod_beta split: option.splits if_splits)
    then show ?thesis using IH False Cons.prems(4) by (cases x) auto
  qed
qed simp

lemma rmtree_shrinks: "tree_ok n \<Longrightarrow> fst (rmtree ft p n) = Some left \<Longrightarrow> entry_at q left \<noteq> None \<Longrightarrow> entry_at q n \<noteq> None"
proof (induction n arbitrary: p left q)
  case Leaf
  then show ?case by (auto split: option.splits os_failure.splits)
next
  case (Folder es)
  show ?case
  proof (cases q)
    case (Cons c cs)
    have left: "left = Folder es \<or> left = Folder (fst (rm_entries ft p es)) \<or> left = Folder []"
      using Folder.prems(2) by (auto simp: Let_def case_prod_beta split: option.splits os_failure.splits if_splits)
    show ?thesis
    proof (cases "left = Folder (fst (rm_entries ft p es))")
      case True
      then obtain m where m: "map_of (fst (rm_entries ft p es)) c = Some m" "entry_at cs m \<noteq> None"
        using Folder.prems(3) Cons by (cases "map_of (fst (rm_entries ft p es)) c") auto
      have "\<exists>n. map_of es c = Some n \<and> entry_at cs n \<noteq> None"
      proof (rule rm_entries_map_of [OF _ _ m])
        fix x q' left' assume x: "x \<in> set es" "fst (rmtree ft (p @ [fst x]) (snd x)) = Some left'" "entry_at q' left' \<noteq> None"
        then have "tree_ok (snd x)" using Folder.prems(1) by (cases x) auto
        then show "entry_at q' (snd x) \<noteq> None" using Folder.IH [of x "snd x"] x by (cases x) auto
      next
        show "distinct (map fst es)" using Folder.prems(1) by simp
      qed
      then show ?thesis using Cons by auto
    next
      case False
      then show ?thesis using left Folder.prems(3) Cons by auto
    qed
  qed simp
qed


lemma rm_entries_ok:
  assumes "\<And>x q left. x \<in> set es \<Longrightarrow> fst (rmtree ft (p @ [fst x]) (snd x)) = Some left \<Longrightarrow> tree_ok left"
    and "distinct (map fst es)" and "\<forall>x \<in> set es. tree_ok (snd x)"
  shows "distinct (map fst (fst (rm_entries ft p es))) \<and> (\<forall>x \<in> set (fst (rm_entries ft p es)). tree_ok (snd x))"
  using assms
proof (induction es)
  case (Cons x es)
  have notin: "fst x \<notin> set (map fst (fst (rm_entries ft p es)))" using Cons.prems(2) rm_entries_names [of ft p es] by auto
  have "distinct (map fst (fst (rm_entries ft p es))) \<and> (\<forall>x \<in> set (fst (rm_entries ft p es)). tree_ok (snd x))"
    by (rule Cons.IH) (use Cons.prems in auto)
  moreover have "tree_ok left" if "fst (rmtree ft (p @ [fst x]) (snd x)) = Some left" for left
    using Cons.prems(1) [of x] that by simp
  ultimately show ?case using notin Cons.prems(2,3) by (auto simp: Let_def case_prod_beta split: option.split)
qed simp

lemma rmtree_ok: "tree_ok n \<Longrightarrow> fst (rmtree ft p n) = Some left \<Longrightarrow> tree_ok left"
proof (induction n arbitrary: p left)
  case Leaf
  then show ?case by (auto split: option.splits os_failure.splits)
next
  case (Folder es)
  have "distinct (map fst (fst (rm_entries ft p es))) \<and> (\<forall>x \<in> set (fst (rm_entries ft p es)). tree_ok (snd x))"
  proof (rule rm_entries_ok)
    fix x left' assume x: "x \<in> set es" "fst (rmtree ft (p @ [fst x]) (snd x)) = Some left'"
    then have "tree_ok (snd x)" using Folder.prems(1) by (cases x) auto
    then show "tree_ok left'" using Folder.IH [of x "snd x"] x by (cases x) auto
  qed (use Folder.prems(1) in auto)
  moreover have "left = Folder es \<or> left = Folder (fst (rm_entries ft p es)) \<or> left = Folder []"
    using Folder.prems(2) by (auto simp: Let_def case_prod_beta split: option.splits os_failure.splits if_splits)
  ultimately show ?case using Folder.prems(1) by fastforce
qed

lemma put_at_ok: "tree_ok n \<Longrightarrow> (\<And>m. v = Some m \<Longrightarrow> tree_ok m) \<Longrightarrow> tree_ok (put_at p v n)"
proof (induction p v n rule: put_at.induct)
  case (3 c cs v es)
  have names: "map fst (map (\<lambda>(d, m). (d, if d = c then put_at cs v m else m)) es) = map fst es" by auto
  show ?case
  proof (cases "cs = [] \<and> v = None")
    case True
    then show ?thesis using 3(2) by (auto simp: distinct_map_filter tree_ok_Folder)
  next
    case False
    have "tree_ok (snd x)" if "x \<in> set (map (\<lambda>(d, m). (d, if d = c then put_at cs v m else m)) es)" for x
    proof -
      have "x \<in> (\<lambda>(d, m). (d, if d = c then put_at cs v m else m)) ` set es" using that by simp
      then obtain y where y: "y \<in> set es" "x = (\<lambda>(d, m). (d, if d = c then put_at cs v m else m)) y" by (rule imageE)
      obtain d m where dm: "y = (d, m)" by (cases y)
      have x: "(d, m) \<in> set es" "snd x = (if d = c then put_at cs v m else m)" using y dm by simp_all
      have "tree_ok m" using 3(2) x(1) by (auto simp: tree_ok_Folder)
      then show ?thesis using 3(1) [OF False x(1) refl] 3(3) x(2) by (cases "d = c") auto
    qed
    then show ?thesis using False 3(2) names by (simp only: put_at.simps if_False tree_ok_Folder) blast
  qed
qed (auto split: option.split)

lemma at_ok: "tree_ok n \<Longrightarrow> entry_at p n = Some m \<Longrightarrow> tree_ok m"
proof (induction p n rule: entry_at.induct)
  case (3 c cs es)
  then obtain n where n: "map_of es c = Some n" "entry_at cs n = Some m" by (cases "map_of es c") auto
  then have "tree_ok n" using 3(2) map_of_SomeD [OF n(1)] by (auto simp: tree_ok_Folder)
  then show ?case using 3(1) n by blast
qed auto

definition present :: "path \<Rightarrow> node \<Rightarrow> bool" where
  "present p tree \<longleftrightarrow> entry_at p tree \<noteq> None"

text \<open>\<open>removes P t t'\<close>: what goes from the tree satisfies \<open>P\<close>, and nothing appears.\<close>

definition removes :: "(path \<Rightarrow> bool) \<Rightarrow> node \<Rightarrow> node \<Rightarrow> bool" where
  "removes P t t' \<longleftrightarrow> tree_ok t' \<and> (\<forall>q. present q t' \<longrightarrow> present q t) \<and> (\<forall>q. present q t \<and> \<not> present q t' \<longrightarrow> P q)"

lemma removes_refl: "tree_ok t \<Longrightarrow> removes P t t"
  by (simp add: removes_def)

lemma removes_trans: "removes P t t' \<Longrightarrow> removes Q t' t'' \<Longrightarrow> removes (\<lambda>q. P q \<or> Q q) t t''"
  unfolding removes_def by blast

lemma removes_mono: "removes P t t' \<Longrightarrow> (\<And>q. P q \<Longrightarrow> Q q) \<Longrightarrow> removes Q t t'"
  unfolding removes_def by blast

lemma remove_folder_removes:
  assumes ok: "tree_ok tree" and p: "p \<noteq> []" and res: "remove_folder ft p tree = ((gone, ghosts), tree')"
  shows "removes (prefix p) tree tree'" and "gone \<Longrightarrow> \<not> present p tree'"
proof -
  have "removes (prefix p) tree tree' \<and> (gone \<longrightarrow> \<not> present p tree')"
  proof (cases "entry_at p tree")
    case None
    then show ?thesis using res ok by (auto simp: remove_folder_def removes_refl)
  next
    case (Some n)
    obtain left e gs where rm: "rmtree ft p n = (left, e, gs)" by (cases "rmtree ft p n") auto
    have tree': "tree' = put_at p left tree" "gone = (e = None)" using res Some rm by (auto simp: remove_folder_def)
    have n: "tree_ok n" using at_ok [OF ok Some] .
    have here: "entry_at (p @ q) tree' = (case left of None \<Rightarrow> None | Some m \<Rightarrow> entry_at q m)" for q
      using at_put_here [OF p] Some tree' by simp
    have shrinks: "present (p @ q) tree" if "present (p @ q) tree'" for q
      using that rmtree_shrinks [OF n, of ft p _ q] rm Some here by (auto simp: present_def at_append split: option.splits)
    have elsewhere: "present q tree' \<longleftrightarrow> present q tree" if "\<not> prefix p q" for q
      using that at_put_elsewhere [OF that] at_put_above tree' by (cases "prefix q p") (auto simp: present_def)
    have "tree_ok tree'" using put_at_ok [OF ok] rmtree_ok [OF n] rm tree' by (metis fst_conv)
    moreover have "present q tree" if "present q tree'" for q
      using that shrinks elsewhere by (cases "prefix p q") (auto elim!: prefixE)
    moreover have "\<not> present p tree'" if gone
    proof -
      have "left = None" using rmtree_done rm that tree'(2) by blast
      then show ?thesis using here [of "[]"] by (simp add: present_def)
    qed
    ultimately show ?thesis using elsewhere unfolding removes_def by blast
  qed
  then show "removes (prefix p) tree tree'" and "gone \<Longrightarrow> \<not> present p tree'" by simp_all
qed

lemma remove_dir_removes:
  assumes ok: "tree_ok tree" and res: "remove_dir ft p tree = Some tree'"
  shows "removes (\<lambda>q. q = p) tree tree'"
proof -
  have p: "p \<noteq> []" "entry_at p tree = Some (Folder [])" "tree' = put_at p None tree" using res by (auto simp: remove_dir_def split: if_splits)
  have here: "\<not> present (p @ q) tree'" for q using at_put_here [OF p(1)] p by (simp add: present_def)
  have under: "q = []" if "present (p @ q) tree" for q using that p by (cases q) (auto simp: present_def at_append)
  have elsewhere: "present q tree' \<longleftrightarrow> present q tree" if "\<not> prefix p q" for q
    using that at_put_elsewhere [OF that] at_put_above p(3) by (cases "prefix q p") (auto simp: present_def)
  have "present q tree" if "present q tree'" for q
    using that here elsewhere by (cases "prefix p q") (auto elim!: prefixE)
  moreover have "q = p" if "present q tree" "\<not> present q tree'" for q
    using that under elsewhere by (cases "prefix p q") (auto elim!: prefixE)
  moreover have "tree_ok tree'" using put_at_ok [OF ok, of None p] p(3) by simp
  ultimately show ?thesis unfolding removes_def by blast
qed

lemma climb_removes:
  "tree_ok tree \<Longrightarrow> climb ft disk up tree = (ps, tree') \<Longrightarrow>
   removes (\<lambda>q. q \<in> set ps) tree tree' \<and> (\<forall>q \<in> set ps. strict_prefix disk q \<and> prefix q (rev up))"
proof (induction up arbitrary: tree ps tree')
  case (Cons c up)
  let ?p = "rev (c # up)"
  show ?case
  proof (cases "?p \<noteq> disk \<and> prefix disk ?p")
    case inside: True
    show ?thesis
    proof (cases "remove_dir ft ?p tree")
      case (Some tree1)
      obtain ps1 where ps: "climb ft disk up tree1 = (ps1, tree')" "ps = ?p # ps1"
        using Cons.prems(2) inside Some by (auto simp: Let_def split: prod.splits)
      have one: "removes (\<lambda>q. q = ?p) tree tree1" using remove_dir_removes [OF Cons.prems(1) Some] .
      then have "tree_ok tree1" by (simp add: removes_def)
      from Cons.IH [OF this ps(1)] have rest: "removes (\<lambda>q. q \<in> set ps1) tree1 tree'" "\<forall>q \<in> set ps1. strict_prefix disk q \<and> prefix q (rev up)" by auto
      have "removes (\<lambda>q. q \<in> set ps) tree tree'" using removes_mono [OF removes_trans [OF one rest(1)]] ps(2) by auto
      moreover have "strict_prefix disk q \<and> prefix q ?p" if "q \<in> set ps" for q
        using that ps(2) rest(2) inside by (auto simp: strict_prefix_def intro: prefix_order.trans)
      ultimately show ?thesis by blast
    qed (use Cons.prems inside in \<open>auto simp: removes_refl\<close>)
  qed (use Cons.prems in \<open>auto simp: removes_refl Let_def split: if_splits\<close>)
qed (auto simp: removes_refl)

end
