(* ===== verification/Obligations.thy ===== *)
theory Obligations
  imports Acquire_Store Fetch
begin

text \<open>
  The sweep of the seed obligations (\<open>acquire/obligations.py\<close>): what is met is stamped, what stays absent from the torrent
  client is released. The client's answer to the one question of a sweep is a parameter.
\<close>

record seed_rule =
  count_ratio :: bool
  grace_s :: int
  ratio_margin :: real

definition DEFAULT_SEED_RULE :: seed_rule where
  "DEFAULT_SEED_RULE = \<lparr>count_ratio = True, grace_s = 0, ratio_margin = 1 / 10\<rparr>"

definition CONFIRM_ABSENT_AFTER_S :: int where "CONFIRM_ABSENT_AFTER_S = 1800"

definition is_met :: "seed_obligation \<Rightarrow> torrent_item \<Rightarrow> seed_rule \<Rightarrow> bool" where
  "is_met o1 x rule =
     ((case seeding_time x of None \<Rightarrow> False | Some t \<Rightarrow> t \<ge> min_seed_time_s o1 + grace_s rule)
      \<or> (count_ratio rule \<and> torrent_ratio x \<ge> min_ratio o1 + ratio_margin rule))"

record sweep_report =
  open_count :: nat
  satisfied_count :: nat
  absent_count :: nat
  released_count :: nat
  client_error :: bool

definition empty_report :: "nat \<Rightarrow> bool \<Rightarrow> sweep_report" where
  "empty_report n failed = \<lparr>open_count = n, satisfied_count = 0, absent_count = 0, released_count = 0, client_error = failed\<rparr>"

definition on_seeds :: "(seed_table \<Rightarrow> nat \<times> seed_table) \<Rightarrow> acquire_db \<Rightarrow> nat \<times> acquire_db" where
  "on_seeds f s = (let (n, os) = f (seeds s) in (n, s\<lparr>seeds := os\<rparr>))"

definition stamp_if_met :: "int \<Rightarrow> seed_rule \<Rightarrow> torrent_item \<Rightarrow> seed_obligation \<Rightarrow> sweep_report \<Rightarrow> acquire_db \<Rightarrow> sweep_report \<times> acquire_db" where
  "stamp_if_met t rule x o1 rep s =
     (if satisfied_at o1 = None \<and> is_met o1 x rule then
        (let (n, s) = on_seeds (mark_satisfied (obligation_id o1) t) s
         in if n = 0 then (rep, s)
            else (rep\<lparr>satisfied_count := satisfied_count rep + 1\<rparr>,
                  emit (SeedObligationSatisfied (obligation_hash o1) (source_tracker o1)) s))
      else (rep, s))"

text \<open>One obligation: \<open>by_hash\<close> holds the instance's own torrents, \<open>foreign\<close> the hashes of the others.\<close>

definition sweep_one :: "int \<Rightarrow> seed_rule \<Rightarrow> int \<Rightarrow> (string \<rightharpoonup> torrent_item) \<Rightarrow> string set \<Rightarrow> seed_obligation
    \<Rightarrow> sweep_report \<times> acquire_db \<Rightarrow> sweep_report \<times> acquire_db" where
  "sweep_one t rule delay by_hash foreign o1 = (\<lambda>(rep, s).
     let h = lower (obligation_hash o1); i = obligation_id o1 in
     if h \<in> foreign then (rep, s)
     else case by_hash h of
       Some x \<Rightarrow> stamp_if_met t rule x o1 rep (if absent_since o1 \<noteq> None then snd (on_seeds (clear_absent i) s) else s)
     | None \<Rightarrow> (case absent_since o1 of
         None \<Rightarrow> (let (n, s) = on_seeds (mark_absent i t) s in (rep\<lparr>absent_count := absent_count rep + n\<rparr>, s))
       | Some a \<Rightarrow>
           if t - a \<ge> delay then
             (let (n, s) = on_seeds (mark_released i t) s
              in if n = 0 then (rep, s)
                 else (rep\<lparr>released_count := released_count rep + 1\<rparr>,
                       emit (SeedObligationReleased (obligation_hash o1) (source_tracker o1)) s))
           else (rep, s)))"

text \<open>\<open>{i.hash.lower(): i for i in items}\<close>: of two items with one hash the last counts.\<close>

definition by_hash_of :: "torrent_item list \<Rightarrow> string \<rightharpoonup> torrent_item" where
  "by_hash_of items = map_of (rev (map (\<lambda>x. (lower (torrent_hash x), x)) items))"

definition sweep_obligations :: "int \<Rightarrow> seed_rule \<Rightarrow> int \<Rightarrow> torrent_scope option \<Rightarrow> (string set \<Rightarrow> api_raise + torrent_item list)
    \<Rightarrow> acquire_db \<Rightarrow> sweep_report \<times> acquire_db" where
  "sweep_obligations t rule delay sc get_by_hashes s =
     (let open_rows = list_unreleased (seeds s)
      in if open_rows = [] then (empty_report 0 False, s)
         else case get_by_hashes (set (map (\<lambda>o1. lower (obligation_hash o1)) open_rows)) of
           Inl _ \<Rightarrow> (empty_report (length open_rows) True, s)
         | Inr items \<Rightarrow>
             (let (own, foreign) = lookup_scoped items sc
              in fold (sweep_one t rule delay (by_hash_of own) foreign) open_rows (empty_report (length open_rows) False, s)))"

subsection \<open>A sweep, row by row\<close>

text \<open>What a sweep makes of one row, by what the client answered.\<close>

definition swept :: "int \<Rightarrow> seed_rule \<Rightarrow> int \<Rightarrow> (string \<rightharpoonup> torrent_item) \<Rightarrow> string set \<Rightarrow> seed_obligation \<Rightarrow> seed_obligation" where
  "swept t rule delay by_hash foreign o1 =
     (if \<not> unreleased o1 \<or> lower (obligation_hash o1) \<in> foreign then o1
      else case by_hash (lower (obligation_hash o1)) of
        Some x \<Rightarrow> o1\<lparr>absent_since := None, satisfied_at := (if satisfied_at o1 = None \<and> is_met o1 x rule then Some t else satisfied_at o1)\<rparr>
      | None \<Rightarrow> (case absent_since o1 of
          None \<Rightarrow> o1\<lparr>absent_since := Some t\<rparr>
        | Some a \<Rightarrow> if t - a \<ge> delay then o1\<lparr>released_at := Some t\<rparr> else o1))"

definition seeds_ok :: "seed_table \<Rightarrow> bool" where
  "seeds_ok os \<longleftrightarrow> distinct (map obligation_id os)"

lemma seeds_emit [simp]: "seeds (emit e s) = seeds s"
  by (simp add: emit_def)

lemma swept_id [simp]: "obligation_id (swept t rule delay by_hash foreign o1) = obligation_id o1"
  by (simp add: swept_def split: option.split)

text \<open>One row replaced by a row of the same id.\<close>

definition put_row :: "seed_obligation \<Rightarrow> seed_table \<Rightarrow> seed_table" where
  "put_row r os = map (\<lambda>o2. if obligation_id o2 = obligation_id r then r else o2) os"

lemma put_row_simps:
  "obligation_id r = obligation_id r' \<Longrightarrow> put_row r (put_row r' os) = put_row r os"
  "map obligation_id (put_row r os) = map obligation_id os"
  "r' \<in> set os \<Longrightarrow> obligation_id r' = obligation_id r \<Longrightarrow> r \<in> set (put_row r os)"
  by (auto simp: put_row_def image_iff)

lemma same_row: "seeds_ok os \<Longrightarrow> r \<in> set os \<Longrightarrow> r' \<in> set os \<Longrightarrow> obligation_id r' = obligation_id r \<Longrightarrow> r' = r"
  by (rule keyed_unique [of obligation_id]) (simp_all add: seeds_ok_def)

lemma put_same_row: "seeds_ok os \<Longrightarrow> r \<in> set os \<Longrightarrow> put_row r os = os"
  unfolding put_row_def by (rule map_idI) (auto dest: same_row)

lemma seed_update_puts:
  assumes ok: "seeds_ok os" and o1: "o1 \<in> set os" and f: "obligation_id (f o1) = obligation_id o1"
  shows "seed_update (\<lambda>o2. obligation_id o2 = obligation_id o1 \<and> Q o2) f os =
    (if Q o1 then 1 else 0, put_row (if Q o1 then f o1 else o1) os)"
proof -
  have only: "o2 = o1" if "o2 \<in> set os" "obligation_id o2 = obligation_id o1" for o2
    using same_row [OF ok o1 that] .
  have "(\<exists>o2 \<in> set os. obligation_id o2 = obligation_id o1 \<and> Q o2) \<longleftrightarrow> Q o1" using only o1 by blast
  then have "sql_count (\<lambda>o2. obligation_id o2 = obligation_id o1 \<and> Q o2) os = (if Q o1 then 1 else 0)"
    using sql_count_keyed [of obligation_id os "obligation_id o1" Q] ok by (simp add: seeds_ok_def)
  moreover have "sql_update (\<lambda>o2. obligation_id o2 = obligation_id o1 \<and> Q o2) f os = put_row (if Q o1 then f o1 else o1) os"
    unfolding sql_update_def put_row_def
  proof (rule map_cong [OF refl])
    fix o2 assume "o2 \<in> set os"
    then show "(if obligation_id o2 = obligation_id o1 \<and> Q o2 then f o2 else o2)
        = (if obligation_id o2 = obligation_id (if Q o1 then f o1 else o1) then if Q o1 then f o1 else o1 else o2)"
      using only [of o2] f by (cases "obligation_id o2 = obligation_id o1") (simp_all split: if_splits)
  qed
  ultimately show ?thesis by (simp add: seed_update_def)
qed

lemma seed_statements_put:
  assumes "seeds_ok os" and "o1 \<in> set os" and "i = obligation_id o1"
  shows "mark_satisfied i t os = (if satisfied_at o1 = None \<and> unreleased o1 then (1, put_row (o1\<lparr>satisfied_at := Some t\<rparr>) os) else (0, os))"
    and "mark_absent i t os = (if absent_since o1 = None \<and> unreleased o1 then (1, put_row (o1\<lparr>absent_since := Some t\<rparr>) os) else (0, os))"
    and "clear_absent i os = (if absent_since o1 \<noteq> None then (1, put_row (o1\<lparr>absent_since := None\<rparr>) os) else (0, os))"
    and "mark_released i t os = (if unreleased o1 then (1, put_row (o1\<lparr>released_at := Some t\<rparr>) os) else (0, os))"
  unfolding mark_satisfied_def mark_absent_def clear_absent_def mark_released_def assms(3)
  by (simp_all add: seed_update_puts [OF assms(1,2)] put_same_row [OF assms(1,2)])

lemma sweep_one_puts:
  assumes ok: "seeds_ok (seeds s)" and o1: "o1 \<in> set (seeds s)" "unreleased o1"
  shows "seeds (snd (sweep_one t rule delay by_hash foreign o1 (rep, s))) = put_row (swept t rule delay by_hash foreign o1) (seeds s)"
proof (cases "lower (obligation_hash o1) \<in> foreign")
  case True
  then show ?thesis using put_same_row [OF ok o1(1)] by (simp add: sweep_one_def swept_def)
next
  case False
  note stm = seed_statements_put [OF ok o1(1) refl]
  show ?thesis
  proof (cases "by_hash (lower (obligation_hash o1))")
    case None
    then show ?thesis using False o1(2) put_same_row [OF ok o1(1)]
      by (auto simp: sweep_one_def swept_def on_seeds_def stm Let_def split: option.split)
  next
    case (Some x)
    let ?cleared = "o1\<lparr>absent_since := None\<rparr>"
    define s1 where "s1 = (if absent_since o1 \<noteq> None then snd (on_seeds (clear_absent (obligation_id o1)) s) else s)"
    have s1: "seeds s1 = put_row ?cleared (seeds s)"
    proof (cases "absent_since o1")
      case None
      then have "?cleared = o1" by simp
      then have "put_row ?cleared (seeds s) = seeds s" using put_same_row [OF ok o1(1)] by (simp only:)
      then show ?thesis using None by (simp add: s1_def)
    next
      case (Some a)
      then show ?thesis by (simp add: s1_def on_seeds_def stm Let_def)
    qed
    have ok1: "seeds_ok (seeds s1)" "?cleared \<in> set (seeds s1)"
      using ok o1(1) put_row_simps(3) [of o1 "seeds s" ?cleared] by (simp_all add: s1 seeds_ok_def put_row_simps(2))
    note stm1 = seed_statements_put [OF ok1, of "obligation_id o1", unfolded s1]
    have "sweep_one t rule delay by_hash foreign o1 (rep, s) = stamp_if_met t rule x o1 rep s1"
      using False Some by (simp only: sweep_one_def Let_def prod.case if_False option.case s1_def)
    moreover have "seeds (snd (stamp_if_met t rule x o1 rep s1)) = put_row (swept t rule delay by_hash foreign o1) (seeds s)"
      using False Some o1(2) by (simp add: stamp_if_met_def swept_def on_seeds_def stm1 s1 put_row_simps unreleased_def)
    ultimately show ?thesis by simp
  qed
qed

lemma sweep_walks:
  assumes "seeds_ok (seeds s)" and "distinct (map obligation_id os)" and "set os \<subseteq> set (seeds s)" and "\<forall>o1 \<in> set os. unreleased o1"
  shows "seeds (snd (fold (sweep_one t rule delay by_hash foreign) os (rep, s))) =
    map (\<lambda>o2. if o2 \<in> set os then swept t rule delay by_hash foreign o2 else o2) (seeds s)"
  using assms
proof (induction os arbitrary: rep s)
  case (Cons o1 os)
  obtain rep' s' where step: "sweep_one t rule delay by_hash foreign o1 (rep, s) = (rep', s')" by fastforce
  let ?new = "swept t rule delay by_hash foreign o1"
  have s': "seeds s' = put_row ?new (seeds s)"
    using sweep_one_puts [of s o1 t rule delay by_hash foreign rep] step Cons.prems by simp
  have same: "o2 = o1" if "o2 \<in> set (seeds s)" "obligation_id o2 = obligation_id o1" for o2
    using same_row [OF Cons.prems(1) _ that] Cons.prems(3) by simp
  have other: "obligation_id o2 \<noteq> obligation_id o1" if "o2 \<in> set os" for o2 using Cons.prems(2) that by (auto simp: image_iff)
  have "set os \<subseteq> set (seeds s')" using other Cons.prems(3) unfolding s' put_row_def by (auto simp: image_iff)
  then have "seeds (snd (fold (sweep_one t rule delay by_hash foreign) os (rep', s'))) =
      map (\<lambda>o2. if o2 \<in> set os then swept t rule delay by_hash foreign o2 else o2) (seeds s')"
    using Cons s' by (intro Cons.IH) (auto simp: seeds_ok_def put_row_simps)
  also have "\<dots> = map (\<lambda>o2. if o2 \<in> set (o1 # os) then swept t rule delay by_hash foreign o2 else o2) (seeds s)"
  proof -
    have "?new \<notin> set os" using other by force
    then show ?thesis using same other unfolding s' put_row_def by (auto intro!: map_cong)
  qed
  finally show ?case using step by simp
qed simp

lemma sweep_is_row:
  assumes "seeds_ok (seeds s)"
  shows "seeds (snd (sweep_obligations t rule delay sc ask s)) =
    (case ask (set (map (\<lambda>o1. lower (obligation_hash o1)) (list_unreleased (seeds s)))) of
       Inl _ \<Rightarrow> seeds s
     | Inr items \<Rightarrow> map (swept t rule delay (by_hash_of (fst (lookup_scoped items sc))) (snd (lookup_scoped items sc))) (seeds s))"
proof -
  let ?rows = "list_unreleased (seeds s)"
  have row: "(if o2 \<in> set ?rows then swept t rule delay bh fo o2 else o2) = swept t rule delay bh fo o2" if "o2 \<in> set (seeds s)" for o2 bh fo
    using that by (simp add: list_unreleased_def swept_def)
  have walk: "seeds (snd (fold (sweep_one t rule delay bh fo) ?rows (rep, s))) = map (swept t rule delay bh fo) (seeds s)" for bh fo rep
  proof -
    have "distinct (map obligation_id ?rows)" using assms by (simp add: seeds_ok_def list_unreleased_def distinct_map_filter)
    then have "seeds (snd (fold (sweep_one t rule delay bh fo) ?rows (rep, s))) =
        map (\<lambda>o2. if o2 \<in> set ?rows then swept t rule delay bh fo o2 else o2) (seeds s)"
      using assms by (intro sweep_walks) (auto simp: list_unreleased_def)
    also have "\<dots> = map (swept t rule delay bh fo) (seeds s)" using row by (rule map_cong [OF refl])
    finally show ?thesis .
  qed
  have "map (swept t rule delay bh fo) (seeds s) = seeds s" if "?rows = []" for bh fo
    using that by (intro map_idI) (auto simp: list_unreleased_def filter_empty_conv swept_def)
  then show ?thesis
    using walk by (auto simp: sweep_obligations_def Let_def case_prod_beta split: sum.split)
qed


text \<open>A sweep is its table, row by row: when the client answers, every unreleased row becomes what \<open>swept\<close> says, whatever
  the order and the number of the rows; when it does not, nothing is written.\<close>

theorem sweep_is_row_by_row:
  assumes "seeds_ok (seeds s)"
  shows "seeds (snd (sweep_obligations t rule delay sc ask s)) =
    (case ask (set (map (\<lambda>o1. lower (obligation_hash o1)) (list_unreleased (seeds s)))) of
       Inl _ \<Rightarrow> seeds s
     | Inr items \<Rightarrow> map (swept t rule delay (by_hash_of (fst (lookup_scoped items sc))) (snd (lookup_scoped items sc))) (seeds s))"
  by (rule sweep_is_row [OF assms])

definition sample_obligation :: seed_obligation where
  "sample_obligation = (new_obligation ''AA'' ''lacale'' 100 1 0 None)\<lparr>obligation_id := 1\<rparr>"

definition sample_seeds :: acquire_db where
  "sample_seeds = \<lparr>follows = [], wanted = [], aired = [], seeds = [sample_obligation], marks = [], effects = []\<rparr>"

lemma sample_seeds_ok: "seeds_ok (seeds sample_seeds)"
  by (simp add: seeds_ok_def sample_seeds_def)

lemma sweep_is_row_by_row_witness:
  "seeds (snd (sweep_obligations 50 DEFAULT_SEED_RULE 1800 None (\<lambda>_. Inr []) sample_seeds)) = [sample_obligation\<lparr>absent_since := Some 50\<rparr>]"
  using sweep_is_row_by_row [OF sample_seeds_ok, of 50 DEFAULT_SEED_RULE 1800 None "\<lambda>_. Inr []"]
  by (simp add: sample_seeds_def swept_def by_hash_of_def lookup_scoped_def sample_obligation_def new_obligation_def unreleased_def)

subsection \<open>What a release needs\<close>

text \<open>A history: for each sweep its time and what the client answered.\<close>

type_synonym sweep_history = "(int \<times> (api_raise + torrent_item list)) list"

definition sweeps :: "seed_rule \<Rightarrow> int \<Rightarrow> torrent_scope option \<Rightarrow> sweep_history \<Rightarrow> acquire_db \<Rightarrow> acquire_db" where
  "sweeps rule delay sc hist s = fold (\<lambda>(t, answer) s. snd (sweep_obligations t rule delay sc (\<lambda>_. answer) s)) hist s"

text \<open>The client answered, and the instance holds the torrent; or it answered, and nobody holds it.\<close>

definition seen_held :: "torrent_scope option \<Rightarrow> string \<Rightarrow> api_raise + torrent_item list \<Rightarrow> bool" where
  "seen_held sc h answer \<longleftrightarrow> (case answer of Inl _ \<Rightarrow> False
     | Inr items \<Rightarrow> lower h \<notin> snd (lookup_scoped items sc) \<and> by_hash_of (fst (lookup_scoped items sc)) (lower h) \<noteq> None)"

definition seen_missing :: "torrent_scope option \<Rightarrow> string \<Rightarrow> api_raise + torrent_item list \<Rightarrow> bool" where
  "seen_missing sc h answer \<longleftrightarrow> (case answer of Inl _ \<Rightarrow> False
     | Inr items \<Rightarrow> lower h \<notin> snd (lookup_scoped items sc) \<and> by_hash_of (fst (lookup_scoped items sc)) (lower h) = None)"

definition row_sweep :: "seed_rule \<Rightarrow> int \<Rightarrow> torrent_scope option \<Rightarrow> int \<times> (api_raise + torrent_item list) \<Rightarrow> seed_obligation \<Rightarrow> seed_obligation" where
  "row_sweep rule delay sc = (\<lambda>(t, answer) o1. case answer of
     Inl _ \<Rightarrow> o1
   | Inr items \<Rightarrow> swept t rule delay (by_hash_of (fst (lookup_scoped items sc))) (snd (lookup_scoped items sc)) o1)"

lemma row_sweep_id [simp]: "obligation_id (row_sweep rule delay sc x o1) = obligation_id o1"
  by (simp add: row_sweep_def split: prod.split sum.split)

lemma row_sweep_hash [simp]: "obligation_hash (row_sweep rule delay sc x o1) = obligation_hash o1"
  by (simp add: row_sweep_def swept_def split: prod.split sum.split option.split)

lemma sweeps_rows: "seeds_ok (seeds s) \<Longrightarrow> seeds (sweeps rule delay sc hist s) = map (fold (row_sweep rule delay sc) hist) (seeds s)"
proof (induction hist arbitrary: s)
  case (Cons x hist)
  obtain t answer where x: "x = (t, answer)" by (cases x)
  let ?s = "snd (sweep_obligations t rule delay sc (\<lambda>_. answer) s)"
  have s: "seeds ?s = map (row_sweep rule delay sc x) (seeds s)"
    using sweep_is_row [OF Cons.prems, of t rule delay sc "\<lambda>_. answer"] x by (simp add: row_sweep_def split: sum.split)
  then have "seeds_ok (seeds ?s)" using Cons.prems by (simp add: seeds_ok_def comp_def)
  then have "seeds (sweeps rule delay sc hist ?s) = map (fold (row_sweep rule delay sc) hist) (seeds ?s)" by (rule Cons.IH)
  then show ?case using s x by (simp add: sweeps_def comp_def)
qed (simp add: sweeps_def)

lemma row_sweep_cases:
  assumes "unreleased o1"
  shows "released_at (row_sweep rule delay sc (t, answer) o1) = Some u \<Longrightarrow> u = t \<and> seen_missing sc (obligation_hash o1) answer \<and> (\<exists>a. absent_since o1 = Some a \<and> t - a \<ge> delay)"
    and "absent_since (row_sweep rule delay sc (t, answer) o1) = Some a \<Longrightarrow>
      (a = t \<and> seen_missing sc (obligation_hash o1) answer) \<or> (absent_since o1 = Some a \<and> \<not> seen_held sc (obligation_hash o1) answer)"
  using assms by (auto simp: row_sweep_def swept_def seen_missing_def seen_held_def unreleased_def split: sum.splits option.splits if_splits)

text \<open>The row was marked absent at an answer without its torrent, and no answer since held it.\<close>

definition absent_stretch :: "torrent_scope option \<Rightarrow> string \<Rightarrow> sweep_history \<Rightarrow> int \<Rightarrow> bool" where
  "absent_stretch sc h hist t0 \<longleftrightarrow> (\<exists>pre a0 mid. hist = pre @ (t0, a0) # mid \<and> seen_missing sc h a0 \<and> (\<forall>x \<in> set mid. \<not> seen_held sc h (snd x)))"

lemma row_history:
  fixes rule :: seed_rule and delay :: int and sc :: "torrent_scope option"
  assumes "unreleased o1" and "absent_since o1 = None"
  defines "row \<equiv> \<lambda>hist. fold (row_sweep rule delay sc) hist o1"
  shows "(unreleased (row hist) \<longrightarrow> (\<forall>a. absent_since (row hist) = Some a \<longrightarrow> absent_stretch sc (obligation_hash o1) hist a))
    \<and> (\<forall>t. released_at (row hist) = Some t \<longrightarrow> (\<exists>pre answer post t0. hist = pre @ (t, answer) # post \<and> seen_missing sc (obligation_hash o1) answer
         \<and> absent_stretch sc (obligation_hash o1) pre t0 \<and> t - t0 \<ge> delay))"
proof (induction hist rule: rev_induct)
  case Nil
  then show ?case using assms by (simp add: unreleased_def)
next
  case (snoc x hist)
  obtain t answer where x: "x = (t, answer)" by (cases x)
  let ?h = "obligation_hash o1"
  have row: "row (hist @ [x]) = row_sweep rule delay sc (t, answer) (row hist)" by (simp add: row_def x)
  have h: "obligation_hash (row hist) = ?h" for hist unfolding row_def by (induction hist rule: rev_induct) simp_all
  show ?case
  proof (cases "unreleased (row hist)")
    case False
    then have "row (hist @ [x]) = row hist" by (simp add: row row_sweep_def swept_def split: sum.split)
    moreover have "\<exists>pre answer post t0. hist @ [x] = pre @ (u, answer) # post \<and> seen_missing sc ?h answer \<and> absent_stretch sc ?h pre t0 \<and> u - t0 \<ge> delay"
      if rel: "released_at (row hist) = Some u" for u
    proof -
      obtain pre answer post t0 where "hist = pre @ (u, answer) # post" "seen_missing sc ?h answer" "absent_stretch sc ?h pre t0" "u - t0 \<ge> delay"
        using snoc rel by blast
      then show ?thesis by (intro exI [of _ pre] exI [of _ answer] exI [of _ "post @ [x]"] exI [of _ t0]) simp
    qed
    ultimately show ?thesis using False by simp
  next
    case True
    note cases = row_sweep_cases [OF True, of rule delay sc t answer, unfolded h row [symmetric]]
    have stretch: "absent_stretch sc ?h (hist @ [x]) a" if "absent_since (row (hist @ [x])) = Some a" for a
      using cases(2) [OF that]
    proof
      assume "a = t \<and> seen_missing sc ?h answer"
      then show ?thesis unfolding absent_stretch_def x by (intro exI [of _ hist] exI [of _ answer] exI [of _ "[]"]) simp
    next
      assume *: "absent_since (row hist) = Some a \<and> \<not> seen_held sc ?h answer"
      then obtain pre a0 mid where "hist = pre @ (a, a0) # mid" "seen_missing sc ?h a0" "\<forall>x \<in> set mid. \<not> seen_held sc ?h (snd x)"
        using snoc True unfolding absent_stretch_def by blast
      then show ?thesis unfolding absent_stretch_def x using * by (intro exI [of _ pre] exI [of _ a0] exI [of _ "mid @ [(t, answer)]"]) auto
    qed
    moreover have "\<exists>pre answer post t0. hist @ [x] = pre @ (u, answer) # post \<and> seen_missing sc ?h answer \<and> absent_stretch sc ?h pre t0 \<and> u - t0 \<ge> delay"
      if rel: "released_at (row (hist @ [x])) = Some u" for u
    proof -
      obtain a where a: "u = t" "seen_missing sc ?h answer" "absent_since (row hist) = Some a" "t - a \<ge> delay" using cases(1) [OF rel] by blast
      then have "absent_stretch sc ?h hist a" using snoc True by blast
      then show ?thesis using a x by (intro exI [of _ hist] exI [of _ answer] exI [of _ "[]"] exI [of _ a]) simp
    qed
    ultimately show ?thesis by blast
  qed
qed

text \<open>C20: no obligation is released on a doubt. A release takes two answers of the client without the torrent, at least the
  confirmation delay apart, the second at the time of the release, and between them no answer in which the instance holds it:
  a client that fails, or that holds the torrent in another instance's category, releases nothing.\<close>

theorem release_needs_lasting_absence:
  assumes "seeds_ok (seeds s)" and "o1 \<in> set (seeds s)" and "unreleased o1" and "absent_since o1 = None"
    and "o2 \<in> set (seeds (sweeps rule delay sc hist s))" and "obligation_id o2 = obligation_id o1" and "released_at o2 = Some t"
  shows "\<exists>pre t0 first mid last post. hist = pre @ (t0, first) # mid @ (t, last) # post \<and> t - t0 \<ge> delay
    \<and> seen_missing sc (obligation_hash o1) first \<and> seen_missing sc (obligation_hash o1) last
    \<and> (\<forall>x \<in> set mid. \<not> seen_held sc (obligation_hash o1) (snd x))"
proof -
  have ids: "obligation_id (fold (row_sweep rule delay sc) hist o3) = obligation_id o3" for o3
    by (induction hist rule: rev_induct) simp_all
  obtain o3 where o3: "o3 \<in> set (seeds s)" "o2 = fold (row_sweep rule delay sc) hist o3"
    using assms(5) by (auto simp: sweeps_rows [OF assms(1)])
  have "o3 = o1" using same_row [OF assms(1,2) o3(1)] o3(2) assms(6) ids by simp
  then obtain pre answer post t0 where "hist = pre @ (t, answer) # post" "seen_missing sc (obligation_hash o1) answer"
      "absent_stretch sc (obligation_hash o1) pre t0" "t - t0 \<ge> delay"
    using row_history [OF assms(3,4), of rule delay sc hist] assms(7) o3(2) by blast
  then show ?thesis unfolding absent_stretch_def by (metis append.assoc append_Cons)
qed

lemma release_needs_lasting_absence_witness:
  "\<exists>pre t0 first mid last post. [(50 :: int, Inr []), (100, Inl (ApiError 500)), (1900, Inr [])] = pre @ (t0, first) # mid @ (1900, last) # post
    \<and> (1900 :: int) - t0 \<ge> 1800 \<and> seen_missing None (obligation_hash sample_obligation) first
    \<and> seen_missing None (obligation_hash sample_obligation) last
    \<and> (\<forall>x \<in> set mid. \<not> seen_held None (obligation_hash sample_obligation) (snd x))"
proof -
  let ?hist = "[(50 :: int, Inr []), (100, Inl (ApiError 500)), (1900, Inr [])]"
  let ?row = "sample_obligation\<lparr>absent_since := Some 50, released_at := Some 1900\<rparr>"
  have "seeds (sweeps DEFAULT_SEED_RULE 1800 None ?hist sample_seeds) = [?row]"
    by (simp add: sweeps_rows [OF sample_seeds_ok]) (simp add: sample_seeds_def row_sweep_def swept_def by_hash_of_def lookup_scoped_def
        sample_obligation_def new_obligation_def unreleased_def)
  then show ?thesis
    by (intro release_needs_lasting_absence [OF sample_seeds_ok, of sample_obligation ?row DEFAULT_SEED_RULE])
      (simp_all add: sample_seeds_def sample_obligation_def new_obligation_def unreleased_def)
qed

end
