(* ===== verification/Delete_Authority.thy ===== *)
theory Delete_Authority
  imports Obligations
begin

text \<open>
  What may be deleted (\<open>acquire/delete_authority.py\<close>, \<open>core/delete_permit.py\<close>): the veto of an unmet seed obligation, the
  permit of the pipeline that allows what it cannot read and the one of the interface that refuses it; and the writer of the
  obligations at a dispatch. Parameters: the file system, the torrent client.
\<close>

subsection \<open>The decision\<close>

datatype permit = Allow | Veto string "int option"

text \<open>\<open>Path.exists\<close>: \<open>None\<close> when it raises (a name too long, a parent that cannot be read).\<close>

type_synonym existence = "string \<Rightarrow> bool option"

fun unmet_of :: "int \<Rightarrow> existence \<Rightarrow> seed_obligation list \<Rightarrow> seed_obligation list option" where
  "unmet_of t ex [] = Some []"
| "unmet_of t ex (o1 # os) =
     (case (case dispatched_path o1 of None \<Rightarrow> Some True | Some d \<Rightarrow> ex d) of
        None \<Rightarrow> None
      | Some there \<Rightarrow> map_option (\<lambda>rest. if there \<and> t - obligation_added_at o1 < min_seed_time_s o1 then o1 # rest else rest)
          (unmet_of t ex os))"

definition owed_until_of :: "seed_obligation \<Rightarrow> int" where
  "owed_until_of o1 = obligation_added_at o1 + min_seed_time_s o1"

definition veto_reason :: "int \<Rightarrow> seed_obligation \<Rightarrow> string" where
  "veto_reason t o1 = ''seeding obligation not met: tracker='' @ source_tracker o1 @ '' info_hash='' @ take 8 (obligation_hash o1)
     @ ''... elapsed='' @ str_int (t - obligation_added_at o1) @ ''s < required='' @ str_int (min_seed_time_s o1) @ ''s''"

text \<open>\<open>_decide\<close>; \<open>None\<close> when the lookup raises.\<close>

definition decide :: "int \<Rightarrow> existence \<Rightarrow> string \<Rightarrow> seed_table \<Rightarrow> permit option" where
  "decide t ex p os =
     (let active = find_active_under p os
      in if active = [] then Some Allow
         else case unmet_of t ex active of
           None \<Rightarrow> None
         | Some [] \<Rightarrow> Some Allow
         | Some (first # rest) \<Rightarrow>
             Some (Veto (veto_reason t first) (Some (Max (set (map owed_until_of (first # rest)))))))"

datatype store_view = No_Store | Unreadable | Readable seed_table

text \<open>\<open>DeleteAuthority.may_delete\<close>, which fails open.\<close>

definition may_delete :: "store_view \<Rightarrow> int \<Rightarrow> existence \<Rightarrow> string \<Rightarrow> permit" where
  "may_delete view t ex p = (case view of
     No_Store \<Rightarrow> Allow
   | Unreadable \<Rightarrow> Allow
   | Readable os \<Rightarrow> (case decide t ex p os of None \<Rightarrow> Allow | Some d \<Rightarrow> d))"

text \<open>\<open>StrictDeletePermit.may_delete\<close>, which refuses to answer.\<close>

definition strict_may_delete :: "store_view \<Rightarrow> int \<Rightarrow> existence \<Rightarrow> string \<Rightarrow> py_error + permit" where
  "strict_may_delete view t ex p = (case view of
     No_Store \<Rightarrow> Inl ObligationsUnreadable
   | Unreadable \<Rightarrow> Inl ObligationsUnreadable
   | Readable os \<Rightarrow> (case decide t ex p os of None \<Rightarrow> Inl ObligationsUnreadable | Some d \<Rightarrow> Inr d))"

definition has_active_obligation :: "store_view \<Rightarrow> string \<Rightarrow> bool" where
  "has_active_obligation view h = (case view of
     No_Store \<Rightarrow> False
   | Unreadable \<Rightarrow> False
   | Readable os \<Rightarrow> find_active_by_hash h os \<noteq> None)"

definition mark_breach :: "string \<Rightarrow> int \<Rightarrow> acquire_db \<Rightarrow> acquire_db" where
  "mark_breach p t s = s\<lparr>seeds := snd (mark_breached_under p t (seeds s))\<rparr>"

subsection \<open>The writer at a dispatch\<close>

record seed_client =
  get_completed :: "api_raise + torrent_item list"
  is_seeding :: "torrent_item \<Rightarrow> api_raise + bool"
  get_by_hashes :: "string set \<Rightarrow> api_raise + torrent_item list"

type_synonym economy = "string \<rightharpoonup> int \<times> real"

fun resolve_tracker :: "economy \<Rightarrow> string list \<Rightarrow> (string \<times> int \<times> real) option" where
  "resolve_tracker eco [] = None"
| "resolve_tracker eco (tag # tags) = (case eco tag of None \<Rightarrow> resolve_tracker eco tags | Some (m, r) \<Rightarrow> Some (tag, m, r))"

text \<open>The one completed torrent of that name and size, seeding, of a known tracker.\<close>

definition correlated :: "seed_client \<Rightarrow> economy \<Rightarrow> torrent_item list \<Rightarrow> string \<Rightarrow> int \<Rightarrow> (torrent_item \<times> string \<times> int \<times> real) option" where
  "correlated tc eco completed basename bytes =
     (case filter (\<lambda>x. torrent_name x = basename \<and> torrent_size x = bytes) completed of
        [x] \<Rightarrow> (case is_seeding tc x of
            Inr True \<Rightarrow> map_option (\<lambda>found. (x, found)) (resolve_tracker eco (torrent_tags x))
          | _ \<Rightarrow> None)
      | _ \<Rightarrow> None)"

definition write_dispatched :: "string \<Rightarrow> string \<Rightarrow> int \<Rightarrow> real \<Rightarrow> int \<Rightarrow> string \<Rightarrow> acquire_db \<Rightarrow> acquire_db" where
  "write_dispatched h tracker seed_time ratio t dest s =
     (if find_active_by_hash h (seeds s) \<noteq> None then s\<lparr>seeds := snd (set_dispatched_path h dest (seeds s))\<rparr>
      else let new = new_obligation h tracker seed_time ratio t (Some dest)
           in if valid_obligation new then s\<lparr>seeds := snd (add_obligation new (seeds s))\<rparr> else s)"

definition path_name :: "string \<Rightarrow> string" where
  "path_name p = last (split_char CHR ''/'' p)"

text \<open>\<open>record_dispatch\<close> with a store; \<open>size_of\<close> is \<open>_staging_size\<close>, \<open>None\<close> when it raises \<open>OSError\<close>.\<close>

definition record_dispatch :: "seed_client option \<Rightarrow> economy \<Rightarrow> torrent_scope option \<Rightarrow> (string \<Rightarrow> int option) \<Rightarrow> string option \<Rightarrow> int
    \<Rightarrow> string \<Rightarrow> string \<Rightarrow> acquire_db \<Rightarrow> acquire_db" where
  "record_dispatch client eco sc size_of run t source dest s =
     (let s = emit (ProvenanceDispatch source dest t run) s
      in case client of
        None \<Rightarrow> s
      | Some tc \<Rightarrow> (case get_completed tc of
          Inl _ \<Rightarrow> s
        | Inr items \<Rightarrow> (case size_of source of
            None \<Rightarrow> s
          | Some bytes \<Rightarrow> (case correlated tc eco (scoped items sc) (path_name source) bytes of
              None \<Rightarrow> s
            | Some (x, tracker, seed_time, ratio) \<Rightarrow> write_dispatched (torrent_hash x) tracker seed_time ratio t dest s))))"

text \<open>\<open>record_grab_obligation\<close>: written or not.\<close>

definition record_grab_obligation :: "seed_client option \<Rightarrow> economy \<Rightarrow> torrent_scope option \<Rightarrow> int \<Rightarrow> string \<Rightarrow> acquire_db \<Rightarrow> bool \<times> acquire_db" where
  "record_grab_obligation client eco sc t h s = (case client of
     None \<Rightarrow> (False, s)
   | Some tc \<Rightarrow>
       if h = [] \<or> find_active_by_hash h (seeds s) \<noteq> None then (False, s)
       else (case get_by_hashes tc {lower h} of
          Inl _ \<Rightarrow> (False, s)
        | Inr items \<Rightarrow> (case List.find (\<lambda>x. lower (torrent_hash x) = lower h) (fst (lookup_scoped items sc)) of
            None \<Rightarrow> (False, s)
          | Some x \<Rightarrow> (case resolve_tracker eco (torrent_tags x) of
              None \<Rightarrow> (False, s)
            | Some (tracker, seed_time, ratio) \<Rightarrow>
                (let new = new_obligation (torrent_hash x) tracker seed_time ratio t None
                 in if valid_obligation new then (True, s\<lparr>seeds := snd (add_obligation new (seeds s))\<rparr>) else (False, s))))))"


subsection \<open>The veto\<close>

definition path_known :: "existence \<Rightarrow> seed_obligation \<Rightarrow> bool" where
  "path_known ex o1 \<longleftrightarrow> (case dispatched_path o1 of None \<Rightarrow> True | Some d \<Rightarrow> ex d \<noteq> None)"

definition path_present :: "existence \<Rightarrow> seed_obligation \<Rightarrow> bool" where
  "path_present ex o1 \<longleftrightarrow> (case dispatched_path o1 of None \<Rightarrow> True | Some d \<Rightarrow> ex d = Some True)"

definition owing :: "int \<Rightarrow> existence \<Rightarrow> seed_obligation \<Rightarrow> bool" where
  "owing t ex o1 \<longleftrightarrow> path_present ex o1 \<and> t < owed_until_of o1"

lemma unmet_of_owing:
  "unmet_of t ex os = (if list_all (path_known ex) os then Some (filter (owing t ex) os) else None)"
proof (induction os)
  case (Cons o1 os)
  define there where "there = (case dispatched_path o1 of None \<Rightarrow> Some True | Some d \<Rightarrow> ex d)"
  have "path_known ex o1 \<longleftrightarrow> there \<noteq> None" "path_present ex o1 \<longleftrightarrow> there = Some True"
    by (auto simp: path_known_def path_present_def there_def split: option.split)
  moreover have "owing t ex o1 \<longleftrightarrow> path_present ex o1 \<and> t - obligation_added_at o1 < min_seed_time_s o1"
    by (auto simp: owing_def owed_until_of_def)
  ultimately show ?case using Cons by (cases there) (simp_all add: there_def [symmetric])
qed simp

lemma decide_owing:
  "decide t ex p os =
     (if \<not> list_all (path_known ex) (find_active_under p os) then None
      else case filter (owing t ex) (find_active_under p os) of
        [] \<Rightarrow> Some Allow
      | first # rest \<Rightarrow> Some (Veto (veto_reason t first) (Some (Max (set (map owed_until_of (first # rest)))))))"
  by (auto simp: decide_def Let_def unmet_of_owing split: list.split)

lemma decide_Allow:
  "decide t ex p os = Some Allow \<longleftrightarrow> list_all (path_known ex) (find_active_under p os) \<and> filter (owing t ex) (find_active_under p os) = []"
  by (auto simp: decide_owing split: list.split)

text \<open>The pipeline's permit refuses a deletion exactly when it could look at every path of an active obligation at or
  under the deleted one, and one of these still exists and is owed seeding time. That an obligation was met before its time,
  by its ratio, does not count.\<close>

theorem veto_is_exact:
  "may_delete (Readable os) t ex p \<noteq> Allow \<longleftrightarrow>
     list_all (path_known ex) (find_active_under p os)
     \<and> (\<exists>o1 \<in> set os. at_or_under p o1 \<and> released_at o1 = None \<and> path_present ex o1 \<and> t < obligation_added_at o1 + min_seed_time_s o1)"
proof -
  have "may_delete (Readable os) t ex p \<noteq> Allow \<longleftrightarrow>
      list_all (path_known ex) (find_active_under p os) \<and> filter (owing t ex) (find_active_under p os) \<noteq> []"
    by (auto simp: may_delete_def decide_owing split: list.split)
  then show ?thesis by (auto simp: filter_empty_conv find_active_under_def owing_def owed_until_of_def unreleased_def)
qed

text \<open>A refusal says when it ends: asked again over the same obligations and files, the permit refuses, with the same
  date, until that moment, the last one an obligation under the path is owed, and allows from then on.\<close>

theorem veto_lasts_until_owed:
  assumes "may_delete (Readable os) t ex p = Veto reason owed"
  shows "\<exists>u. owed = Some u \<and> t < u \<and> (\<exists>o1 \<in> set os. at_or_under p o1 \<and> unreleased o1 \<and> owed_until_of o1 = u)
    \<and> (\<forall>t'. t \<le> t' \<longrightarrow> (if t' < u then \<exists>r. may_delete (Readable os) t' ex p = Veto r (Some u) else may_delete (Readable os) t' ex p = Allow))"
proof -
  let ?owing = "\<lambda>t. filter (owing t ex) (find_active_under p os)"
  have known: "list_all (path_known ex) (find_active_under p os)"
    using assms by (auto simp: may_delete_def decide_owing split: if_splits)
  obtain first rest where now_: "?owing t = first # rest"
    using assms known by (cases "?owing t") (auto simp: may_delete_def decide_owing)
  define u where "u = Max (owed_until_of ` set (?owing t))"
  have owed: "owed = Some u" using assms known now_ by (simp add: may_delete_def decide_owing u_def)
  have "u \<in> owed_until_of ` set (?owing t)" unfolding u_def using now_ by (intro Max_in) auto
  then obtain o1 where o1: "o1 \<in> set (?owing t)" "owed_until_of o1 = u" by blast
  have late: "owed_until_of o2 \<le> u" if "o2 \<in> set (?owing t)" for o2
    unfolding u_def by (rule Max_ge) (use that in auto)
  have later: "if t' < u then \<exists>r. may_delete (Readable os) t' ex p = Veto r (Some u) else may_delete (Readable os) t' ex p = Allow"
    if "t \<le> t'" for t'
  proof -
    have sub: "o2 \<in> set (?owing t)" if "o2 \<in> set (?owing t')" for o2 using that \<open>t \<le> t'\<close> by (auto simp: owing_def)
    show ?thesis
    proof (cases "t' < u")
      case True
      then have mem: "o1 \<in> set (?owing t')" using o1 by (auto simp: owing_def)
      then obtain a as where then_: "?owing t' = a # as" by (cases "?owing t'") auto
      have "Max (owed_until_of ` set (?owing t')) = u"
        using mem o1(2) sub late by (intro Max_eqI) auto
      then show ?thesis using True known then_ by (auto simp: may_delete_def decide_owing)
    next
      case False
      have "?owing t' = []" using sub late False by (fastforce simp: filter_empty_conv owing_def)
      then show ?thesis using False known by (simp add: may_delete_def decide_owing)
    qed
  qed
  have "t < u" using o1 by (auto simp: owing_def)
  then show ?thesis using owed o1 later by (intro exI [of _ u]) (auto simp: find_active_under_def)
qed

lemma sample_veto:
  "\<exists>r. may_delete (Readable [sample_obligation\<lparr>dispatched_path := Some ''/m/a/x.mkv''\<rparr>]) 50 (\<lambda>_. Some True) ''/m/a'' = Veto r (Some 100)"
  by (simp add: may_delete_def decide_owing find_active_under_def at_or_under_def unreleased_def path_known_def owing_def path_present_def
      owed_until_of_def sample_obligation_def new_obligation_def lower_def is_upper_def)

lemma veto_lasts_until_owed_witness:
  "may_delete (Readable [sample_obligation\<lparr>dispatched_path := Some ''/m/a/x.mkv''\<rparr>]) 100 (\<lambda>_. Some True) ''/m/a'' = Allow"
proof -
  obtain r where "may_delete (Readable [sample_obligation\<lparr>dispatched_path := Some ''/m/a/x.mkv''\<rparr>]) 50 (\<lambda>_. Some True) ''/m/a'' = Veto r (Some 100)"
    using sample_veto by blast
  from veto_lasts_until_owed [OF this] obtain u where "Some 100 = Some u"
    and "\<forall>t'. 50 \<le> t' \<longrightarrow> (if t' < u then \<exists>r. may_delete (Readable [sample_obligation\<lparr>dispatched_path := Some ''/m/a/x.mkv''\<rparr>]) t' (\<lambda>_. Some True) ''/m/a'' = Veto r (Some u)
        else may_delete (Readable [sample_obligation\<lparr>dispatched_path := Some ''/m/a/x.mkv''\<rparr>]) t' (\<lambda>_. Some True) ''/m/a'' = Allow)"
    by blast
  then show ?thesis by auto
qed

lemma veto_is_exact_witness:
  "list_all (path_known (\<lambda>_. Some True)) (find_active_under ''/m/a'' [sample_obligation\<lparr>dispatched_path := Some ''/m/a/x.mkv''\<rparr>])"
  using veto_is_exact [of "[sample_obligation\<lparr>dispatched_path := Some ''/m/a/x.mkv''\<rparr>]" 50 "\<lambda>_. Some True" "''/m/a''"] sample_veto by auto

text \<open>Where the store can be read the two permits agree; where it cannot, one allows and the other refuses to say.\<close>

lemma permits_differ_on_the_unreadable:
  "strict_may_delete view t ex p = (if view = No_Store \<or> view = Unreadable \<or> (\<exists>os. view = Readable os \<and> decide t ex p os = None)
     then Inl ObligationsUnreadable else Inr (may_delete view t ex p))"
  "strict_may_delete view t ex p = Inl e \<Longrightarrow> may_delete view t ex p = Allow"
  by (auto simp: strict_may_delete_def may_delete_def split: store_view.splits option.splits)

subsection \<open>What was dispatched stays\<close>

text \<open>An obligation with the torrent's hash, at the destination, is there after the write.\<close>

lemma write_dispatched_row:
  assumes "m \<ge> 0" "r \<ge> 0"
  shows "\<exists>o1 \<in> set (seeds (write_dispatched h tracker m r t dest s)). obligation_hash o1 = h \<and> unreleased o1 \<and> dispatched_path o1 = Some dest
    \<and> (owed_until_of o1 = t + m \<or> (\<exists>o0 \<in> set (seeds s). obligation_hash o0 = h \<and> unreleased o0 \<and> owed_until_of o1 = owed_until_of o0))"
proof (cases "find_active_by_hash h (seeds s)")
  case None
  then show ?thesis using assms
    by (auto simp: write_dispatched_def valid_obligation_def new_obligation_def add_obligation_def Let_def unreleased_def owed_until_of_def)
next
  case (Some o0)
  then have o0: "o0 \<in> set (seeds s)" "obligation_hash o0 = h" "unreleased o0" using sql_first_SomeD by (fastforce simp: find_active_by_hash_def)+
  then have "o0\<lparr>dispatched_path := Some dest\<rparr> \<in> set (seeds (write_dispatched h tracker m r t dest s))"
    using Some by (auto simp: write_dispatched_def set_dispatched_path_def set_sql_update intro!: image_eqI [of _ _ o0])
  then show ?thesis using o0 by (intro bexI) (auto simp: unreleased_def owed_until_of_def)
qed


text \<open>C25: a torrent dispatched while it seeds cannot be deleted before it has seeded long enough: after the dispatch is
  recorded, the permit refuses the destination and every folder above it until the tracker's time from now, or the time of the
  obligations the torrent already had.\<close>

theorem dispatched_stays_protected:
  assumes client: "get_completed tc = Inr items" "size_of source = Some n"
      "correlated tc eco (scoped items sc) (path_name source) n = Some (x, tracker, m, r)" "m \<ge> 0" "r \<ge> 0"
    and path: "p = dest \<or> (\<exists>rest. dest = p @ ''/'' @ rest)" and files: "\<And>d. ex d \<noteq> None" "ex dest = Some True"
    and time: "u < t + m" "\<forall>o1 \<in> set (seeds s). obligation_hash o1 = torrent_hash x \<and> unreleased o1 \<longrightarrow> u < owed_until_of o1"
  shows "may_delete (Readable (seeds (record_dispatch (Some tc) eco sc size_of run t source dest s))) u ex p \<noteq> Allow"
proof -
  let ?s = "emit (ProvenanceDispatch source dest t run) s"
  have s': "record_dispatch (Some tc) eco sc size_of run t source dest s = write_dispatched (torrent_hash x) tracker m r t dest ?s"
    using client by (simp add: record_dispatch_def Let_def)
  obtain o1 where o1: "o1 \<in> set (seeds (write_dispatched (torrent_hash x) tracker m r t dest ?s))" "unreleased o1" "dispatched_path o1 = Some dest"
      "u < owed_until_of o1"
    using write_dispatched_row [OF client(4,5), of "torrent_hash x" tracker t dest ?s] time by auto
  have "at_or_under p o1" using path o1(3) by (auto simp: at_or_under_def)
  moreover have "path_known ex o2" for o2 using files(1) by (auto simp: path_known_def split: option.split)
  ultimately have "o1 \<in> set (filter (owing u ex) (find_active_under p (seeds (write_dispatched (torrent_hash x) tracker m r t dest ?s))))"
    using o1 files(2) by (simp add: find_active_under_def owing_def path_present_def)
  then have "decide u ex p (seeds (write_dispatched (torrent_hash x) tracker m r t dest ?s)) \<noteq> Some Allow"
    unfolding decide_Allow by (metis empty_iff empty_set)
  moreover have "decide u ex p (seeds (write_dispatched (torrent_hash x) tracker m r t dest ?s)) \<noteq> None"
    using \<open>\<And>o2. path_known ex o2\<close> by (simp add: decide_owing list_all_iff split: list.split)
  ultimately show ?thesis unfolding s' by (auto simp: may_delete_def)
qed

definition sample_torrent :: torrent_item where
  "sample_torrent = \<lparr>torrent_hash = ''aa'', torrent_name = ''film'', torrent_size = 7, torrent_category = None, torrent_tags = [''lacale''],
     torrent_ratio = 0, seeding_time = None, progress = 1, torrent_state = ''uploading'', error_reason = None, swarm_seeds = None,
     added_on = None\<rparr>"

definition sample_seed_client :: seed_client where
  "sample_seed_client = \<lparr>get_completed = Inr [sample_torrent], is_seeding = (\<lambda>_. Inr True), get_by_hashes = (\<lambda>_. Inr [sample_torrent])\<rparr>"

lemma dispatched_stays_protected_witness:
  "may_delete (Readable (seeds (record_dispatch (Some sample_seed_client) [''lacale'' \<mapsto> (100, 1)] None (\<lambda>_. Some 7) None 0
     ''/staging/film'' ''/m/film'' (sample_seeds\<lparr>seeds := []\<rparr>)))) 50 (\<lambda>_. Some True) ''/m'' \<noteq> Allow"
proof (rule dispatched_stays_protected [where tc = sample_seed_client and items = "[sample_torrent]" and n = 7 and x = sample_torrent
      and tracker = "''lacale''" and m = 100 and r = 1])
  show "correlated sample_seed_client [''lacale'' \<mapsto> (100, 1)] (scoped [sample_torrent] None) (path_name ''/staging/film'') 7
      = Some (sample_torrent, ''lacale'', 100, 1)"
    by (simp add: correlated_def sample_seed_client_def sample_torrent_def scoped_def path_name_def)
qed (simp_all add: sample_seed_client_def)

end
