(* ===== verification/Library_Deletion.thy ===== *)
theory Library_Deletion
  imports Folder_Tree Delete_Authority Rights Acts
begin

text \<open>
  The deletion of media from the interface (\<open>app/library/deleting.py\<close>, \<open>app/library/deletion.py\<close>,
  \<open>indexer/deletion.py\<close>): every reference validated and every permit read, then the folders removed, their emptied parents,
  the rows of the index, and Plex told. Parameters: the reads of the index, what the operating system answers, Plex.
\<close>

subsection \<open>The world\<close>

type_synonym media_key = "string \<times> string"

text \<open>The reads of the index (\<open>indexer/library_view.py\<close>) and of the file system the plans are made from.\<close>

record index_reader =
  holders :: "media_key \<Rightarrow> int list"
  live_folders :: "int \<Rightarrow> string set"
  folder_holders :: "string set \<Rightarrow> int set list"
  mounted_media_folders :: "int \<Rightarrow> (path \<times> path) list"

record folder_view =
  is_symlink :: "path \<Rightarrow> bool"
  resolve_strict :: "path \<Rightarrow> path option"
  is_dir :: "path \<Rightarrow> bool"
  is_mount :: "path \<Rightarrow> bool"
  stat_identity :: "path \<Rightarrow> (int \<times> int) option"

record deletion_world =
  view :: folder_view
  faults :: os_faults
  dir_size :: "path \<Rightarrow> nat"
  sandboxed :: bool
  sandbox_roots :: "path list option"
  real_path :: "path \<Rightarrow> path"
  sandbox_root_ok :: "path \<Rightarrow> bool"
  on_a_known_disk :: "path \<Rightarrow> bool"
  rows_writable :: bool

datatype library_effect =
    DestroyedFolder path string string
  | PublishedDeleted path string
  | TombstonedRow int string
  | DestroyedRow int string
  | PlexRefresh path
  | PlexEmptyTrash string
  | PlexCleanBundles

record library =
  tree :: node
  item_rows :: "int set"
  pipeline_lock :: bool
  library_log :: "library_effect list"

definition log_effect :: "library_effect \<Rightarrow> library \<Rightarrow> library" where
  "log_effect e s = s\<lparr>library_log := library_log s @ [e]\<rparr>"

subsection \<open>The deletion of one folder\<close>

text \<open>\<open>assert_within_sandbox\<close>: the first root that holds the path decides.\<close>

definition within_sandbox :: "deletion_world \<Rightarrow> path \<Rightarrow> bool" where
  "within_sandbox w p = (case sandbox_roots w of
     None \<Rightarrow> False
   | Some roots \<Rightarrow> (case List.find (\<lambda>r. prefix r (real_path w p)) (map (real_path w) roots) of
       None \<Rightarrow> False
     | Some r \<Rightarrow> sandbox_root_ok w r))"

datatype delete_outcome = DELETED | VETOED | FAILED

record delete_result =
  outcome :: delete_outcome
  size_bytes :: nat
  deleted_count :: nat
  ghost_paths :: "path list"

definition delete_media_folder :: "deletion_world \<Rightarrow> string \<Rightarrow> string \<Rightarrow> (path \<Rightarrow> py_error + permit) \<Rightarrow> bool \<Rightarrow> path
    \<Rightarrow> (library, delete_result) act" where
  "delete_media_folder w who label permit dry_run p = (\<lambda>s.
     if sandboxed w \<and> \<not> within_sandbox w p then (Inl SandboxGuardError, s)
     else if (case permit p of Inl _ \<Rightarrow> Allow | Inr d \<Rightarrow> d) \<noteq> Allow
       then (Inr \<lparr>outcome = VETOED, size_bytes = 0, deleted_count = 0, ghost_paths = []\<rparr>, s)
     else if dry_run then (Inr \<lparr>outcome = DELETED, size_bytes = dir_size w p, deleted_count = 1, ghost_paths = []\<rparr>, s)
     else (let ((removed, ghosts), t) = remove_folder (faults w) p (tree s); s = s\<lparr>tree := t\<rparr>
       in if \<not> removed then (Inr \<lparr>outcome = FAILED, size_bytes = dir_size w p, deleted_count = 0, ghost_paths = ghosts\<rparr>, s)
          else (Inr \<lparr>outcome = DELETED, size_bytes = dir_size w p, deleted_count = 1, ghost_paths = []\<rparr>,
                (if on_a_known_disk w p then log_effect (PublishedDeleted p label) else id) (log_effect (DestroyedFolder p who label) s))))"

text \<open>\<open>remove_items\<close>: one transaction; \<open>None\<close> when SQLite fails, and it is rolled back.\<close>

fun remove_rows :: "int list \<Rightarrow> string \<Rightarrow> string \<Rightarrow> library \<Rightarrow> int list \<times> library" where
  "remove_rows [] who reason s = ([], s)"
| "remove_rows (i # is) who reason s =
     (if i \<notin> item_rows s then remove_rows is who reason s
      else let (removed, s) = remove_rows is who reason (log_effect (TombstonedRow i reason) (s\<lparr>item_rows := item_rows s - {i}\<rparr>))
           in (i # removed, s))"

fun dedup_first :: "'a list \<Rightarrow> 'a list" where
  "dedup_first [] = []"
| "dedup_first (x # xs) = x # filter (\<lambda>y. y \<noteq> x) (dedup_first xs)"

definition remove_items :: "deletion_world \<Rightarrow> int list \<Rightarrow> string \<Rightarrow> string \<Rightarrow> library \<Rightarrow> nat option \<times> library" where
  "remove_items w ids who reason s =
     (if ids = [] then (Some 0, s)
      else if \<not> rows_writable w then (None, s)
      else let (removed, s) = remove_rows (dedup_first ids) who reason s
           in (Some (length removed), fold (\<lambda>i. log_effect (DestroyedRow i who)) removed s))"

subsection \<open>The plans\<close>

definition MEDIA_FOLDER_DEPTH :: nat where "MEDIA_FOLDER_DEPTH = 2"

definition resolve_media_folder :: "folder_view \<Rightarrow> path \<Rightarrow> path \<Rightarrow> (path \<times> path) option" where
  "resolve_media_folder fv mount folder = (case resolve_strict fv mount of
     None \<Rightarrow> None
   | Some disk \<Rightarrow> (case resolve_strict fv (disk @ folder) of
       None \<Rightarrow> None
     | Some d \<Rightarrow> if \<not> prefix disk d \<or> \<not> is_dir fv d \<or> length d \<noteq> length disk + MEDIA_FOLDER_DEPTH then None else Some (disk, d)))"

definition on_a_mounted_volume :: "folder_view \<Rightarrow> path \<Rightarrow> bool" where
  "on_a_mounted_volume fv disk = (case List.find (is_mount fv) (rev (prefixes disk)) of None \<Rightarrow> False | Some c \<Rightarrow> c \<noteq> [])"

definition deletable_folder :: "folder_view \<Rightarrow> path \<times> path \<Rightarrow> (path \<times> path) option" where
  "deletable_folder fv mounted =
     (let literal = fst mounted @ snd mounted in
      if is_symlink fv literal \<or> is_symlink fv (butlast literal) then None
      else case resolve_media_folder fv (fst mounted) (snd mounted) of
        None \<Rightarrow> None
      | Some (disk, d) \<Rightarrow> if on_a_mounted_volume fv disk then Some (disk, d) else None)"

record deletion_plan =
  plan_key :: media_key
  plan_item :: int
  targets :: "(path \<times> path) list"
  unresolved :: nat
  unreachable :: nat

text \<open>One target per distinct directory; a folder that cannot be resolved is counted.\<close>

fun plan_targets :: "folder_view \<Rightarrow> (path \<times> path) list \<Rightarrow> (int \<times> int) set \<Rightarrow> (path \<times> path) list \<times> nat" where
  "plan_targets fv [] seen = ([], 0)"
| "plan_targets fv (m # ms) seen =
     (case deletable_folder fv m of
        None \<Rightarrow> (let (ts, n) = plan_targets fv ms seen in (ts, Suc n))
      | Some (disk, d) \<Rightarrow> (case stat_identity fv d of
          None \<Rightarrow> (let (ts, n) = plan_targets fv ms seen in (ts, Suc n))
        | Some identity \<Rightarrow>
            if identity \<in> seen then plan_targets fv ms seen
            else let (ts, n) = plan_targets fv ms (insert identity seen) in ((disk, d) # ts, n)))"

definition plan_of :: "index_reader \<Rightarrow> folder_view \<Rightarrow> media_key \<Rightarrow> int \<Rightarrow> deletion_plan" where
  "plan_of rd fv key i =
     (let mounted = mounted_media_folders rd i; (ts, n) = plan_targets fv mounted {}
      in \<lparr>plan_key = key, plan_item = i, targets = ts, unresolved = n, unreachable = card (live_folders rd i) - length mounted\<rparr>)"

fun deletion_plans :: "index_reader \<Rightarrow> folder_view \<Rightarrow> media_key set \<Rightarrow> int set \<Rightarrow> media_key list \<Rightarrow> py_error + deletion_plan list" where
  "deletion_plans rd fv seen planned [] = Inr []"
| "deletion_plans rd fv seen planned (key # keys) =
     (if key \<in> seen then deletion_plans rd fv seen planned keys
      else case holders rd key of
        [] \<Rightarrow> Inl (AppRefusal NotFound MEDIA_NOT_FOUND)
      | i # is \<Rightarrow>
          if sum_list (map (\<lambda>i. max 1 (card (live_folders rd i))) (i # is)) > 1 then Inl (AppRefusal Conflict MEDIA_AMBIGUOUS)
          else if i \<in> planned then deletion_plans rd fv (insert key seen) planned keys
          else if list_ex (\<lambda>hs. hs - {i} \<noteq> {}) (folder_holders rd (live_folders rd i)) then Inl (AppRefusal Conflict MEDIA_AMBIGUOUS)
          else raising_bind (deletion_plans rd fv (insert key seen) (insert i planned) keys) (\<lambda>ps. Inr (plan_of rd fv key i # ps)))"

subsection \<open>The decisions, read before anything goes\<close>

fun read_decisions :: "(path \<Rightarrow> py_error + permit) \<Rightarrow> path list \<Rightarrow> py_error + (path \<rightharpoonup> permit)" where
  "read_decisions permit [] = Inr Map.empty"
| "read_decisions permit (p # ps) = (case permit p of
     Inl _ \<Rightarrow> Inl (AppRefusal Unavailable LIBRARY_OBLIGATIONS_UNREADABLE)
   | Inr d \<Rightarrow> raising_bind (read_decisions permit ps) (\<lambda>ds. Inr (ds(p \<mapsto> d))))"

definition decided :: "(path \<rightharpoonup> permit) \<Rightarrow> path \<Rightarrow> py_error + permit" where
  "decided ds p = (case ds p of None \<Rightarrow> Inl KeyError | Some d \<Rightarrow> Inr d)"

fun owed_of :: "permit option \<Rightarrow> int option" where
  "owed_of (Some (Veto _ owed)) = owed"
| "owed_of _ = None"

subsection \<open>One medium\<close>

record tally =
  gone :: "path list"
  emptied :: "path list"
  vetoed_count :: nat
  failed_count :: nat
  owed_dates :: "int option list"

fun delete_targets :: "deletion_world \<Rightarrow> string \<Rightarrow> string \<Rightarrow> (path \<rightharpoonup> permit) \<Rightarrow> (path \<times> path) list \<Rightarrow> tally \<Rightarrow> library \<Rightarrow> tally \<times> library" where
  "delete_targets w who label ds [] ta s = (ta, s)"
| "delete_targets w who label ds ((disk, d) # ts) ta s =
     (case delete_media_folder w who label (decided ds) False d s of
        (Inl _, s) \<Rightarrow> delete_targets w who label ds ts (ta\<lparr>failed_count := Suc (failed_count ta)\<rparr>) s
      | (Inr res, s) \<Rightarrow> (case outcome res of
          VETOED \<Rightarrow> delete_targets w who label ds ts
            (ta\<lparr>vetoed_count := Suc (vetoed_count ta), owed_dates := owed_dates ta @ [owed_of (ds d)]\<rparr>) s
        | FAILED \<Rightarrow> delete_targets w who label ds ts (ta\<lparr>failed_count := Suc (failed_count ta)\<rparr>) s
        | DELETED \<Rightarrow>
            (let (parents, t) = remove_empty_parents (faults w) d disk (tree s)
             in delete_targets w who label ds ts (ta\<lparr>gone := gone ta @ [d], emptied := emptied ta @ parents\<rparr>) (s\<lparr>tree := t\<rparr>))))"

datatype plex_outcome = REFRESHED | PLEX_FAILED | NOT_CONFIGURED | NOT_NEEDED | TRASH_KEPT | SKIPPED_SANDBOX

record medium_deletion =
  medium_key :: media_key
  medium_item :: int
  folders_deleted :: "path list"
  parents_removed :: "path list"
  folders_vetoed :: nat
  folders_failed :: nat
  folders_unreachable :: nat
  rows_removed :: nat
  plex_told :: plex_outcome
  owed_until :: "int option"

definition is_deleted :: "medium_deletion \<Rightarrow> bool" where
  "is_deleted m \<longleftrightarrow> folders_vetoed m + folders_failed m + folders_unreachable m = 0 \<and> rows_removed m > 0"

datatype kept_reason = SEED_OWED | DISK_UNREACHABLE | KEPT_FAILED

definition kept_reason_of :: "medium_deletion \<Rightarrow> kept_reason option" where
  "kept_reason_of m =
     (if is_deleted m then None
      else if folders_vetoed m > 0 then Some SEED_OWED
      else if folders_unreachable m > 0 then Some DISK_UNREACHABLE
      else Some KEPT_FAILED)"

definition TOMBSTONE_REASON :: string where "TOMBSTONE_REASON = ''media_deleted''"

text \<open>The date of the report: known only when every veto's is.\<close>

definition latest_owed :: "int option list \<Rightarrow> int option" where
  "latest_owed owed = (if owed \<noteq> [] \<and> list_all (\<lambda>u. u \<noteq> None) owed then Some (Max (the ` set owed)) else None)"

definition medium_label :: "media_key \<Rightarrow> string" where
  "medium_label key = ''media '' @ fst key @ ''/'' @ snd key"

definition fresh_tally :: "nat \<Rightarrow> tally" where
  "fresh_tally n = \<lparr>gone = [], emptied = [], vetoed_count = 0, failed_count = n, owed_dates = []\<rparr>"

text \<open>The rows go only when nothing of the medium was kept; a failed write is reported as no row removed.\<close>

definition settle_rows :: "deletion_world \<Rightarrow> string \<Rightarrow> deletion_plan \<Rightarrow> tally \<Rightarrow> library \<Rightarrow> nat \<times> library" where
  "settle_rows w who plan ta s =
     (if vetoed_count ta + failed_count ta + unreachable plan = 0 then
        (case remove_items w [plan_item plan] who TOMBSTONE_REASON s of (None, s) \<Rightarrow> (0, s) | (Some n, s) \<Rightarrow> (n, s))
      else (0, s))"

definition delete_one :: "deletion_world \<Rightarrow> string \<Rightarrow> (path \<rightharpoonup> permit) \<Rightarrow> deletion_plan \<Rightarrow> library \<Rightarrow> medium_deletion \<times> library" where
  "delete_one w who ds plan s =
     (let (ta, s) = delete_targets w who (medium_label (plan_key plan)) ds (targets plan) (fresh_tally (unresolved plan)) s;
          (n, s) = settle_rows w who plan ta s
      in (\<lparr>medium_key = plan_key plan, medium_item = plan_item plan, folders_deleted = gone ta, parents_removed = emptied ta,
           folders_vetoed = vetoed_count ta, folders_failed = failed_count ta, folders_unreachable = unreachable plan, rows_removed = n,
           plex_told = NOT_NEEDED, owed_until = latest_owed (owed_dates ta)\<rparr>, s))"

fun delete_each :: "deletion_world \<Rightarrow> string \<Rightarrow> (path \<rightharpoonup> permit) \<Rightarrow> deletion_plan list \<Rightarrow> library \<Rightarrow> medium_deletion list \<times> library" where
  "delete_each w who ds [] s = ([], s)"
| "delete_each w who ds (p # ps) s =
     (let (m, s) = delete_one w who ds p s; (ms, s) = delete_each w who ds ps s in (m # ms, s))"


subsection \<open>Plex, told last\<close>

record plex_section =
  section_key :: string
  locations :: "path list"

text \<open>What Plex answers; \<open>scan_ends\<close> is \<open>_wait_for_scan\<close>, a poll of at most 30 s.\<close>

record plex_client =
  section_for :: "path \<Rightarrow> plex_section option"
  refresh_ok :: "path \<Rightarrow> bool"
  scan_ends :: "string \<Rightarrow> bool"
  empty_trash_ok :: "string \<Rightarrow> bool"
  clean_bundles_ok :: bool

datatype trash_kept = LOCATION_MISSING | DISK_UNMOUNTED

record plex_steps =
  steps_section :: "string option"
  refreshed :: bool
  scan_ended :: bool
  trash_emptied :: bool
  bundles_cleaned :: bool
  steps_trash_kept :: "trash_kept option"

definition steps_outcome :: "plex_steps \<Rightarrow> plex_outcome" where
  "steps_outcome st =
     (let asked = refreshed st \<and> scan_ended st \<and> bundles_cleaned st
      in if asked \<and> steps_trash_kept st \<noteq> None then TRASH_KEPT
         else if asked \<and> trash_emptied st then REFRESHED else PLEX_FAILED)"

definition is_folder :: "node \<Rightarrow> path \<Rightarrow> bool" where
  "is_folder t p = (case entry_at p t of Some (Folder _) \<Rightarrow> True | _ \<Rightarrow> False)"

text \<open>The longest location, as text, that holds the folder.\<close>

definition text_length :: "path \<Rightarrow> nat" where
  "text_length p = sum_list (map (\<lambda>c. Suc (length c)) p)"

fun longest :: "path list \<Rightarrow> path" where
  "longest [] = []"
| "longest [p] = p"
| "longest (p # q # ps) = (let r = longest (q # ps) in if text_length r > text_length p then r else p)"

definition location_of :: "plex_section \<Rightarrow> path \<Rightarrow> path" where
  "location_of sec folder = longest (filter (\<lambda>l. l \<noteq> [] \<and> prefix l folder) (locations sec))"

text \<open>The nearest existing ancestor inside the location; the ancestor's names are reversed.\<close>

fun refresh_from :: "node \<Rightarrow> path \<Rightarrow> string list \<Rightarrow> path" where
  "refresh_from t location [] = (if prefix location [] \<and> is_folder t [] then [] else location)"
| "refresh_from t location (c # up) =
     (let p = rev (c # up)
      in if \<not> prefix location p then location else if is_folder t p then p else refresh_from t location up)"

definition refresh_path :: "node \<Rightarrow> path \<Rightarrow> path \<Rightarrow> path" where
  "refresh_path t folder location = refresh_from t location (rev (butlast folder))"

definition trash_kept_of :: "node \<Rightarrow> plex_section \<Rightarrow> path set \<Rightarrow> bool \<Rightarrow> trash_kept option" where
  "trash_kept_of t sec removed disk_unmounted =
     (if disk_unmounted then Some DISK_UNMOUNTED
      else if list_ex (\<lambda>l. \<not> is_folder t l \<and> l \<notin> removed) (locations sec) then Some LOCATION_MISSING
      else None)"

definition tell_section :: "plex_client \<Rightarrow> path set \<Rightarrow> bool \<Rightarrow> plex_section option \<Rightarrow> path list \<Rightarrow> library \<Rightarrow> (bool \<times> bool \<times> bool \<times> trash_kept option) \<times> library" where
  "tell_section px removed disk_unmounted sec folders s = (case sec of
     None \<Rightarrow> ((False, False, False, None), s)
   | Some sec \<Rightarrow>
       (let paths = dedup_first (map (\<lambda>f. refresh_path (tree s) f (location_of sec f)) folders);
            s1 = fold (\<lambda>p. log_effect (PlexRefresh p)) paths s;
            kept = trash_kept_of (tree s) sec removed disk_unmounted
        in ((list_all (refresh_ok px) paths, scan_ends px (section_key sec), kept = None \<and> empty_trash_ok px (section_key sec), kept),
            if kept = None then log_effect (PlexEmptyTrash (section_key sec)) s1 else s1)))"

fun tell_sections :: "plex_client \<Rightarrow> path set \<Rightarrow> bool \<Rightarrow> path list \<Rightarrow> string option list \<Rightarrow> library
    \<Rightarrow> (string option \<rightharpoonup> bool \<times> bool \<times> bool \<times> trash_kept option) \<times> library" where
  "tell_sections px removed un folders [] s = (Map.empty, s)"
| "tell_sections px removed un folders (k # ks) s =
     (let mine = filter (\<lambda>f. map_option section_key (section_for px f) = k) folders;
          (r, s) = tell_section px removed un (section_for px (last mine)) mine s;
          (m, s) = tell_sections px removed un folders ks s
      in (m(k \<mapsto> r), s))"

definition follow_up_plex :: "plex_client \<Rightarrow> path list \<Rightarrow> path set \<Rightarrow> bool \<Rightarrow> library \<Rightarrow> (path \<rightharpoonup> plex_steps) \<times> library" where
  "follow_up_plex px deleted removed disk_unmounted s =
     (let folders = dedup_first deleted;
          keys = dedup_first (map (\<lambda>f. map_option section_key (section_for px f)) folders);
          (results, s) = tell_sections px removed disk_unmounted folders keys s;
          asked = list_ex (\<lambda>k. k \<noteq> None) keys;
          s = (if asked then log_effect PlexCleanBundles s else s);
          cleaned = asked \<and> clean_bundles_ok px
      in (\<lambda>f. if f \<in> set folders then
                (let k = map_option section_key (section_for px f)
                 in map_option (\<lambda>(r, e, te, kept). \<lparr>steps_section = k, refreshed = r, scan_ended = e, trash_emptied = te,
                      bundles_cleaned = cleaned \<and> k \<noteq> None, steps_trash_kept = kept\<rparr>) (results k))
              else None, s))"

text \<open>\<open>min\<close> over the folders by severity: failed, then trash kept, then refreshed.\<close>

definition worst_outcome :: "plex_outcome list \<Rightarrow> plex_outcome" where
  "worst_outcome os = (if PLEX_FAILED \<in> set os then PLEX_FAILED else if TRASH_KEPT \<in> set os then TRASH_KEPT else REFRESHED)"

definition told_outcome :: "bool \<Rightarrow> plex_client option \<Rightarrow> (path \<rightharpoonup> plex_steps) \<Rightarrow> medium_deletion \<Rightarrow> medium_deletion" where
  "told_outcome sandbox px steps m =
     (if folders_deleted m = [] then m
      else m\<lparr>plex_told :=
        (if sandbox then SKIPPED_SANDBOX
         else if px = None then NOT_CONFIGURED
         else worst_outcome (map (\<lambda>f. case steps f of None \<Rightarrow> PLEX_FAILED | Some st \<Rightarrow> steps_outcome st) (folders_deleted m)))\<rparr>)"

definition told_plex :: "deletion_world \<Rightarrow> plex_client option \<Rightarrow> bool \<Rightarrow> medium_deletion list \<Rightarrow> library \<Rightarrow> medium_deletion list \<times> library" where
  "told_plex w px disk_unmounted ms s =
     (let deleted = concat (map folders_deleted ms); removed = set (concat (map parents_removed ms));
          (steps, s) = (case px of
             Some px \<Rightarrow> if deleted \<noteq> [] \<and> \<not> sandboxed w then follow_up_plex px deleted removed disk_unmounted s else (Map.empty, s)
           | None \<Rightarrow> (Map.empty, s))
      in (map (told_outcome (sandboxed w) px steps) ms, s))"

subsection \<open>The operation\<close>

text \<open>\<open>None\<close> for the reader is an index that cannot be opened. The lock is released whatever happened.\<close>

definition delete_media :: "deletion_world \<Rightarrow> index_reader option \<Rightarrow> (path \<Rightarrow> py_error + permit) option \<Rightarrow> plex_client option \<Rightarrow> bool
    \<Rightarrow> string \<Rightarrow> media_key list \<Rightarrow> (library, medium_deletion list) act" where
  "delete_media w rd permit px disk_unmounted account keys = (\<lambda>s. case permit of
     None \<Rightarrow> (Inl (AppRefusal InternalError INTERNAL), s)
   | Some permit \<Rightarrow>
       if pipeline_lock s then (Inl (AppRefusal Conflict LIBRARY_LOCKED), s)
       else (case raising_bind (case rd of None \<Rightarrow> Inl (AppRefusal Unavailable LIBRARY_UNAVAILABLE) | Some rd \<Rightarrow> deletion_plans rd (view w) {} {} keys)
               (\<lambda>plans. raising_bind (read_decisions permit (map snd (concat (map targets plans)))) (\<lambda>ds. Inr (plans, ds))) of
          Inl e \<Rightarrow> (Inl e, s)
        | Inr (plans, ds) \<Rightarrow>
            (let s1 = s\<lparr>pipeline_lock := True\<rparr>;
                 (ms, s2) = delete_each w (''web:'' @ account) ds plans s1;
                 (ms, s3) = told_plex w px disk_unmounted ms s2
             in (Inr ms, s3\<lparr>pipeline_lock := False\<rparr>))))"

definition delete_library_items :: "actor \<Rightarrow> deletion_world \<Rightarrow> index_reader option \<Rightarrow> (path \<Rightarrow> py_error + permit) option \<Rightarrow> plex_client option \<Rightarrow> bool
    \<Rightarrow> string \<Rightarrow> media_key list \<Rightarrow> (library, medium_deletion list) act" where
  "delete_library_items a w rd permit px disk_unmounted account keys =
     then_with (raising (requires ''deleteLibraryItems'' a (\<lambda>_. Inr ()))) (\<lambda>_. delete_media w rd permit px disk_unmounted account keys)"

end
