(* ===== verification/Deletion_Facts.thy ===== *)
theory Deletion_Facts
  imports Library_Deletion
begin

text \<open>
  What a deletion from the interface may remove: the folders every permit allowed, their emptied parents, and the rows of the
  media whose folders are all gone; and what it may never: a file that is owed seeding.
\<close>

subsection \<open>One folder\<close>

definition allowed :: "deletion_world \<Rightarrow> (path \<rightharpoonup> permit) \<Rightarrow> path \<Rightarrow> bool" where
  "allowed w ds d \<longleftrightarrow> ds d = Some Allow \<and> (sandboxed w \<longrightarrow> within_sandbox w d)"

definition same_but_tree :: "library \<Rightarrow> library \<Rightarrow> bool" where
  "same_but_tree s s' \<longleftrightarrow> item_rows s' = item_rows s \<and> pipeline_lock s' = pipeline_lock s"

lemma log_effect_simps [simp]:
  "tree (log_effect e s) = tree s" "item_rows (log_effect e s) = item_rows s" "pipeline_lock (log_effect e s) = pipeline_lock s"
  by (simp_all add: log_effect_def)

lemma removes_none: "removes P t t' \<Longrightarrow> \<not> present p t \<Longrightarrow> \<not> present p t'"
  by (auto simp: removes_def)

lemma delete_folder_removes:
  assumes ok: "tree_ok (tree s)" and d: "d \<noteq> []" "ds d \<noteq> None"
    and res: "delete_media_folder w who label (decided ds) False d s = (r, s')"
  shows "removes (\<lambda>q. allowed w ds d \<and> prefix d q) (tree s) (tree s') \<and> same_but_tree s s'
    \<and> (\<forall>x. r = Inr x \<and> outcome x = DELETED \<longrightarrow> allowed w ds d \<and> present d (tree s) \<and> \<not> present d (tree s'))"
proof (cases "allowed w ds d")
  case False
  then have "tree s' = tree s \<and> same_but_tree s s' \<and> (\<forall>x. r = Inr x \<longrightarrow> outcome x = VETOED)"
    using res d(2) by (auto simp: delete_media_folder_def allowed_def decided_def same_but_tree_def split: if_splits option.splits)
  then show ?thesis using ok by (auto simp: removes_refl)
next
  case True
  obtain removed ghosts t where rm: "remove_folder (faults w) d (tree s) = ((removed, ghosts), t)"
    by (cases "remove_folder (faults w) d (tree s)") auto
  have "removes (prefix d) (tree s) t" "removed \<Longrightarrow> \<not> present d t" using remove_folder_removes [OF ok d(1) rm] by auto
  moreover have "present d (tree s)" if removed using rm that by (auto simp: remove_folder_def present_def split: option.splits)
  moreover have "tree s' = t \<and> same_but_tree s s' \<and> (\<forall>x. r = Inr x \<and> outcome x = DELETED \<longrightarrow> removed) \<and> (\<forall>e. r \<noteq> Inl e)"
    using res True rm by (auto simp: delete_media_folder_def allowed_def decided_def same_but_tree_def Let_def split: if_splits)
  ultimately show ?thesis using True by auto
qed

subsection \<open>The folders of a medium\<close>

text \<open>What the targets let go: what is under an allowed one, and the parents between one that was there and its disk.\<close>

definition within_targets :: "deletion_world \<Rightarrow> (path \<rightharpoonup> permit) \<Rightarrow> node \<Rightarrow> (path \<times> path) list \<Rightarrow> path \<Rightarrow> bool" where
  "within_targets w ds t ts q \<longleftrightarrow>
     (\<exists>(disk, d) \<in> set ts. allowed w ds d \<and> (prefix d q \<or> present d t \<and> strict_prefix disk q \<and> strict_prefix q d))"

lemma within_targets_mono:
  "removes P t t' \<Longrightarrow> within_targets w ds t' ts q \<Longrightarrow> within_targets w ds t ts q"
  unfolding within_targets_def using removes_none by fastforce

definition targets_ok :: "(path \<rightharpoonup> permit) \<Rightarrow> (path \<times> path) list \<Rightarrow> bool" where
  "targets_ok ds ts \<longleftrightarrow> (\<forall>(disk, d) \<in> set ts. d \<noteq> [] \<and> ds d \<noteq> None)"

lemma delete_targets_removes:
  assumes "tree_ok (tree s)" and "targets_ok ds ts" and "delete_targets w who label ds ts ta s = (ta', s')"
  shows "removes (within_targets w ds (tree s) ts) (tree s) (tree s') \<and> same_but_tree s s'
    \<and> (vetoed_count ta' + failed_count ta' = 0 \<longrightarrow> vetoed_count ta + failed_count ta = 0 \<and> (\<forall>(disk, d) \<in> set ts. \<not> present d (tree s')))"
  using assms
proof (induction ts arbitrary: ta s)
  case Nil
  then show ?case by (auto simp: removes_refl same_but_tree_def)
next
  case (Cons x ts)
  obtain disk d where x: "x = (disk, d)" by (cases x)
  obtain r s1 where one: "delete_media_folder w who label (decided ds) False d s = (r, s1)" by fastforce
  have d: "d \<noteq> []" "ds d \<noteq> None" "targets_ok ds ts" using Cons.prems(2) x by (auto simp: targets_ok_def)
  note folder = delete_folder_removes [OF Cons.prems(1) d(1,2) one]
  have weaken: "removes (within_targets w ds (tree s) (x # ts)) t t'" if "removes P t t'" "\<And>q. P q \<Longrightarrow> within_targets w ds (tree s) (x # ts) q" for P t t'
    using removes_mono that by blast
  have join: "removes (within_targets w ds (tree s) (x # ts)) (tree s) t''"
    if first: "removes (within_targets w ds (tree s) (x # ts)) (tree s) t'" and "removes (within_targets w ds t' ts) t' t''" for t' t''
    using removes_trans [OF that] by (rule removes_mono) (use first in \<open>auto simp: within_targets_def removes_def\<close>)
  have under: "removes (within_targets w ds (tree s) (x # ts)) (tree s) (tree s1)"
    by (rule weaken [OF conjunct1 [OF folder]]) (auto simp: within_targets_def x)
  have ok1: "tree_ok (tree s1)" using folder by (simp add: removes_def)
  have step: ?case
    if go: "delete_targets w who label ds ts ta1 s2 = (ta', s')" and s2: "removes (within_targets w ds (tree s) (x # ts)) (tree s) (tree s2)"
      and same: "same_but_tree s s2" and bad: "vetoed_count ta1 + failed_count ta1 = 0 \<Longrightarrow> vetoed_count ta + failed_count ta = 0 \<and> \<not> present d (tree s2)"
    for ta1 s2
  proof -
    have "tree_ok (tree s2)" using s2 by (simp add: removes_def)
    from Cons.IH [OF this d(3) go] show ?thesis using join [OF s2] same bad removes_none x by (auto simp: same_but_tree_def)
  qed
  show ?case
  proof (cases r)
    case (Inl e)
    then have "delete_targets w who label ds ts (ta\<lparr>failed_count := Suc (failed_count ta)\<rparr>) s1 = (ta', s')" using Cons.prems(3) one x by simp
    then show ?thesis by (rule step [OF _ under]) (use folder in auto)
  next
    case (Inr res)
    show ?thesis
    proof (cases "outcome res")
      case DELETED
      obtain ps t where climb: "remove_empty_parents (faults w) d disk (tree s1) = (ps, t)" by fastforce
      have parents: "removes (\<lambda>q. q \<in> set ps) (tree s1) t" "\<forall>q \<in> set ps. strict_prefix disk q \<and> prefix q (butlast d)"
        using climb_removes [OF ok1 climb [unfolded remove_empty_parents_def]] by simp_all
      have "strict_prefix q d" if "prefix q (butlast d)" for q
        using that d(1) by (metis append_butlast_last_id prefix_order.le_less_trans prefix_snoc strict_prefixI' strict_prefix_def same_append_eq append_self_conv not_Cons_self2 prefixI)
      then have parted: "removes (within_targets w ds (tree s) (x # ts)) (tree s) t"
        using removes_trans [OF under parents(1)] parents(2) folder Inr DELETED x
        by (elim removes_mono) (auto simp: within_targets_def)
      have absent: "\<not> present d t" using folder Inr DELETED parents(1) removes_none by blast
      have go: "delete_targets w who label ds ts (ta\<lparr>gone := gone ta @ [d], emptied := emptied ta @ ps\<rparr>) (s1\<lparr>tree := t\<rparr>) = (ta', s')"
        using Cons.prems(3) one x Inr DELETED climb by simp
      show ?thesis by (rule step [OF go]) (use folder parted absent in \<open>auto simp: same_but_tree_def\<close>)
    next
      case VETOED
      then have "delete_targets w who label ds ts (ta\<lparr>vetoed_count := Suc (vetoed_count ta), owed_dates := owed_dates ta @ [owed_of (ds d)]\<rparr>) s1 = (ta', s')"
        using Cons.prems(3) one x Inr by simp
      then show ?thesis by (rule step [OF _ under]) (use folder in auto)
    next
      case FAILED
      then have "delete_targets w who label ds ts (ta\<lparr>failed_count := Suc (failed_count ta)\<rparr>) s1 = (ta', s')" using Cons.prems(3) one x Inr by simp
      then show ?thesis by (rule step [OF _ under]) (use folder in auto)
    qed
  qed
qed


subsection \<open>A medium and a request\<close>

lemma remove_rows_rows:
  "remove_rows is who reason s = (removed, s') \<Longrightarrow>
   tree s' = tree s \<and> pipeline_lock s' = pipeline_lock s \<and> item_rows s' = item_rows s - set is \<and> set removed = set is \<inter> item_rows s"
  by (induction "is" arbitrary: s removed s') (auto split: if_splits prod.splits)

lemma fold_log [simp]:
  "tree (fold (\<lambda>x. log_effect (f x)) xs s) = tree s"
  "item_rows (fold (\<lambda>x. log_effect (f x)) xs s) = item_rows s"
  "pipeline_lock (fold (\<lambda>x. log_effect (f x)) xs s) = pipeline_lock s"
  by (induction xs arbitrary: s) simp_all

lemma remove_one_row:
  "remove_items w [i] who reason s = (n, s') \<Longrightarrow>
   tree s' = tree s \<and> pipeline_lock s' = pipeline_lock s \<and> (case n of None \<Rightarrow> s' = s
     | Some n \<Rightarrow> item_rows s' = item_rows s - {i} \<and> (n > 0 \<longrightarrow> i \<in> item_rows s))"
  by (auto simp: remove_items_def split: prod.splits if_splits dest!: remove_rows_rows)

text \<open>A plan is carried through when nothing of it is kept.\<close>

definition all_gone :: "deletion_plan \<Rightarrow> node \<Rightarrow> bool" where
  "all_gone plan t \<longleftrightarrow> unresolved plan = 0 \<and> unreachable plan = 0 \<and> (\<forall>(disk, d) \<in> set (targets plan). \<not> present d t)"

lemma all_gone_removes: "removes P t t' \<Longrightarrow> all_gone plan t \<Longrightarrow> all_gone plan t'"
  unfolding all_gone_def using removes_none by fast

lemma delete_one_removes:
  assumes ok: "tree_ok (tree s)" and targets: "targets_ok ds (targets plan)" and res: "delete_one w who ds plan s = (m, s')"
  shows "removes (within_targets w ds (tree s) (targets plan)) (tree s) (tree s') \<and> pipeline_lock s' = pipeline_lock s \<and> medium_item m = plan_item plan
    \<and> (item_rows s' = item_rows s \<and> \<not> is_deleted m \<or> item_rows s' = item_rows s - {plan_item plan} \<and> all_gone plan (tree s'))"
proof -
  obtain ta s1 where ta: "delete_targets w who (medium_label (plan_key plan)) ds (targets plan) (fresh_tally (unresolved plan)) s = (ta, s1)" by fastforce
  note folders = delete_targets_removes [OF ok targets ta]
  obtain n s2 where n: "settle_rows w who plan ta s1 = (n, s2)" by fastforce
  have s2: "s' = s2" and m: "medium_item m = plan_item plan" "rows_removed m = n"
    using res ta n by (auto simp: delete_one_def)
  have rows: "tree s2 = tree s1 \<and> pipeline_lock s2 = pipeline_lock s1
      \<and> (n = 0 \<and> item_rows s2 = item_rows s1 \<or> item_rows s2 = item_rows s1 - {plan_item plan} \<and> vetoed_count ta + failed_count ta + unreachable plan = 0)"
    using n remove_one_row by (fastforce simp: settle_rows_def split: if_splits prod.splits option.splits)
  have "all_gone plan (tree s2)" if "vetoed_count ta + failed_count ta + unreachable plan = 0"
    using that folders rows by (auto simp: all_gone_def fresh_tally_def)
  moreover have "\<not> is_deleted m" if "n = 0" using that m by (simp add: is_deleted_def)
  ultimately show ?thesis using folders rows s2 m by (auto simp: same_but_tree_def)
qed

lemma delete_each_removes:
  assumes "tree_ok (tree s)" and "\<forall>plan \<in> set plans. targets_ok ds (targets plan)" and "delete_each w who ds plans s = (ms, s')"
  shows "removes (\<lambda>q. \<exists>plan \<in> set plans. within_targets w ds (tree s) (targets plan) q) (tree s) (tree s') \<and> pipeline_lock s' = pipeline_lock s
    \<and> item_rows s' \<subseteq> item_rows s \<and> (\<forall>i \<in> item_rows s - item_rows s'. \<exists>plan \<in> set plans. plan_item plan = i \<and> all_gone plan (tree s'))
    \<and> (\<forall>m \<in> set ms. is_deleted m \<longrightarrow> medium_item m \<notin> item_rows s' \<and> (\<exists>plan \<in> set plans. plan_item plan = medium_item m \<and> all_gone plan (tree s')))"
  using assms
proof (induction plans arbitrary: s ms)
  case Nil
  then show ?case by (auto simp: removes_refl)
next
  case (Cons plan plans)
  obtain m s1 ms1 where one: "delete_one w who ds plan s = (m, s1)" and rest: "delete_each w who ds plans s1 = (ms1, s')" "ms = m # ms1"
    using Cons.prems(3) by (auto split: prod.splits)
  have first: "removes (within_targets w ds (tree s) (targets plan)) (tree s) (tree s1)" "pipeline_lock s1 = pipeline_lock s" "medium_item m = plan_item plan"
      "item_rows s1 = item_rows s \<and> \<not> is_deleted m \<or> item_rows s1 = item_rows s - {plan_item plan} \<and> all_gone plan (tree s1)"
    using delete_one_removes [OF Cons.prems(1) _ one] Cons.prems(2) by simp_all
  have "tree_ok (tree s1)" using first(1) by (simp add: removes_def)
  from Cons.IH [OF this _ rest(1)] Cons.prems(2)
  have IH: "removes (\<lambda>q. \<exists>plan \<in> set plans. within_targets w ds (tree s1) (targets plan) q) (tree s1) (tree s')" "pipeline_lock s' = pipeline_lock s1"
      "item_rows s' \<subseteq> item_rows s1" "\<forall>i \<in> item_rows s1 - item_rows s'. \<exists>plan \<in> set plans. plan_item plan = i \<and> all_gone plan (tree s')"
      "\<forall>m \<in> set ms1. is_deleted m \<longrightarrow> medium_item m \<notin> item_rows s' \<and> (\<exists>plan \<in> set plans. plan_item plan = medium_item m \<and> all_gone plan (tree s'))"
    by auto
  have "all_gone plan (tree s1) \<Longrightarrow> all_gone plan (tree s')" using all_gone_removes [OF IH(1)] .
  moreover have "removes (\<lambda>q. \<exists>plan \<in> set (plan # plans). within_targets w ds (tree s) (targets plan) q) (tree s) (tree s')"
    by (rule removes_mono [OF removes_trans [OF first(1) IH(1)]]) (use within_targets_mono [OF first(1)] in \<open>simp, blast\<close>)
  ultimately show ?case using first IH rest(2) by (intro conjI) auto
qed


lemma plan_targets_below: "(disk, d) \<in> set (fst (plan_targets fv ms seen)) \<Longrightarrow> d \<noteq> []"
proof (induction ms arbitrary: seen)
  case (Cons m ms)
  have "d' \<noteq> []" if "deletable_folder fv m = Some (disk', d')" for disk' d'
    using that by (auto simp: deletable_folder_def resolve_media_folder_def MEDIA_FOLDER_DEPTH_def Let_def split: option.splits if_splits)
  then show ?case using Cons by (auto simp: Let_def case_prod_beta split: option.splits if_splits)
qed simp

lemma deletion_plans_below:
  "deletion_plans rd fv seen planned keys = Inr plans \<Longrightarrow> plan \<in> set plans \<Longrightarrow> (disk, d) \<in> set (targets plan) \<Longrightarrow> d \<noteq> []"
proof (induction rd fv seen planned keys arbitrary: plans rule: deletion_plans.induct)
  case (2 rd fv seen planned key keys)
  show ?case
  proof (cases "key \<in> seen")
    case False
    then obtain i "is" where "holders rd key = i # is" using 2(4) by (cases "holders rd key") auto
    then show ?thesis using False 2 plan_targets_below
      by (auto simp: raising_bind_Inr plan_of_def Let_def case_prod_beta split: if_splits) blast+
  qed (use 2 in auto)
qed simp

lemma read_decisions_Inr:
  "read_decisions permit ps = Inr ds \<Longrightarrow> (\<forall>p \<in> set ps. ds p \<noteq> None) \<and> (\<forall>p d. ds p = Some d \<longrightarrow> permit p = Inr d)"
proof (induction ps arbitrary: ds)
  case (Cons p ps)
  then obtain d ds1 where "permit p = Inr d" "read_decisions permit ps = Inr ds1" "ds = ds1(p \<mapsto> d)"
    by (auto simp: raising_bind_Inr split: sum.splits)
  then show ?case using Cons.IH by auto
qed simp

lemma tell_sections_keeps: "tell_sections px removed un folders ks s = (m, s') \<Longrightarrow> tree s' = tree s \<and> item_rows s' = item_rows s \<and> pipeline_lock s' = pipeline_lock s"
proof (induction ks arbitrary: s m)
  case (Cons k ks)
  obtain r s1 where one: "tell_section px removed un (section_for px (last (filter (\<lambda>f. map_option section_key (section_for px f) = k) folders)))
      (filter (\<lambda>f. map_option section_key (section_for px f) = k) folders) s = (r, s1)" by fastforce
  then have "tree s1 = tree s \<and> item_rows s1 = item_rows s \<and> pipeline_lock s1 = pipeline_lock s"
    by (auto simp: tell_section_def Let_def split: option.splits if_splits)
  then show ?case using Cons one by (auto split: prod.splits)
qed simp

definition same_library :: "library \<Rightarrow> library \<Rightarrow> bool" where
  "same_library s s' \<longleftrightarrow> tree s' = tree s \<and> item_rows s' = item_rows s \<and> pipeline_lock s' = pipeline_lock s"

lemma follow_up_keeps: "same_library s (snd (follow_up_plex px deleted removed un s))"
proof -
  define folders where "folders = dedup_first deleted"
  define keys where "keys = dedup_first (map (\<lambda>f. map_option section_key (section_for px f)) folders)"
  obtain results s1 where told: "tell_sections px removed un folders keys s = (results, s1)" by fastforce
  have "snd (follow_up_plex px deleted removed un s) = (if list_ex (\<lambda>k. k \<noteq> None) keys then log_effect PlexCleanBundles s1 else s1)"
    unfolding follow_up_plex_def Let_def folders_def [symmetric] keys_def [symmetric] told by simp
  then show ?thesis using tell_sections_keeps [OF told] by (simp add: same_library_def)
qed

lemma told_plex_keeps: "told_plex w px un ms s = (ms', s') \<Longrightarrow> same_library s s'"
proof -
  assume told: "told_plex w px un ms s = (ms', s')"
  have "s' = s \<or> (\<exists>px deleted removed. s' = snd (follow_up_plex px deleted removed un s))"
    using told by (auto simp: told_plex_def Let_def split: option.splits if_splits prod.splits) (metis snd_conv)+
  then show ?thesis using follow_up_keeps by (auto simp: same_library_def)
qed

lemma told_outcome_keeps: "medium_item (told_outcome b px steps m) = medium_item m" "is_deleted (told_outcome b px steps m) = is_deleted m"
  by (simp_all add: told_outcome_def is_deleted_def)

lemma told_plex_deleted:
  assumes "told_plex w px un ms s = (ms', s')" and "m' \<in> set ms'"
  shows "\<exists>m \<in> set ms. medium_item m' = medium_item m \<and> is_deleted m' = is_deleted m"
proof -
  obtain steps where "ms' = map (told_outcome (sandboxed w) px steps) ms" using assms(1) by (auto simp: told_plex_def Let_def split: prod.splits)
  then show ?thesis using assms(2) told_outcome_keeps by fastforce
qed

text \<open>A deletion that is carried out, and one that is refused.\<close>

lemma delete_library_items_cases:
  assumes ok: "tree_ok (tree s)"
  shows "(\<exists>e. delete_library_items a w rd permit px un account keys s = (Inl e, s))
    \<or> (\<exists>reader ask plans ds ms s'. rd = Some reader \<and> permit = Some ask \<and> deletion_plans reader (view w) {} {} keys = Inr plans
        \<and> (\<forall>p d. ds p = Some d \<longrightarrow> ask p = Inr d) \<and> delete_library_items a w rd permit px un account keys s = (Inr ms, s') \<and> \<not> pipeline_lock s
        \<and> \<not> pipeline_lock s' \<and> removes (\<lambda>q. \<exists>plan \<in> set plans. within_targets w ds (tree s) (targets plan) q) (tree s) (tree s')
        \<and> item_rows s' \<subseteq> item_rows s \<and> (\<forall>i \<in> item_rows s - item_rows s'. \<exists>plan \<in> set plans. plan_item plan = i \<and> all_gone plan (tree s'))
        \<and> (\<forall>m \<in> set ms. is_deleted m \<longrightarrow> medium_item m \<notin> item_rows s' \<and> (\<exists>plan \<in> set plans. plan_item plan = medium_item m \<and> all_gone plan (tree s'))))"
proof (cases "requires ''deleteLibraryItems'' a (\<lambda>_. Inr ())")
  case (Inl e)
  then show ?thesis by (auto simp: delete_library_items_def then_with_def)
next
  case (Inr u)
  then have media: "delete_library_items a w rd permit px un account keys s = delete_media w rd permit px un account keys s"
    by (simp add: delete_library_items_def then_with_def)
  show ?thesis
  proof (cases "\<exists>e. delete_media w rd permit px un account keys s = (Inl e, s)")
    case False
    then obtain ask where ask: "permit = Some ask" "\<not> pipeline_lock s" by (cases permit) (auto simp: delete_media_def split: if_splits)
    obtain reader where rd: "rd = Some reader" using False ask by (cases rd) (auto simp: delete_media_def)
    obtain plans where plans: "deletion_plans reader (view w) {} {} keys = Inr plans"
      using False ask rd by (cases "deletion_plans reader (view w) {} {} keys") (auto simp: delete_media_def)
    obtain ds where ds: "read_decisions ask (map snd (concat (map targets plans))) = Inr ds"
      using False ask rd plans by (cases "read_decisions ask (map snd (concat (map targets plans)))") (auto simp: delete_media_def)
    define s1 where "s1 = s\<lparr>pipeline_lock := True\<rparr>"
    obtain ms s2 where each: "delete_each w (''web:'' @ account) ds plans s1 = (ms, s2)" by fastforce
    obtain ms' s3 where told: "told_plex w px un ms s2 = (ms', s3)" by fastforce
    have res: "delete_media w rd permit px un account keys s = (Inr ms', s3\<lparr>pipeline_lock := False\<rparr>)"
      using ask rd plans ds each told by (simp add: delete_media_def Let_def s1_def [symmetric])
    have targets: "\<forall>plan \<in> set plans. targets_ok ds (targets plan)"
      using deletion_plans_below [OF plans] read_decisions_Inr [OF ds] by (fastforce simp: targets_ok_def)
    have ok1: "tree_ok (tree s1)" using ok by (simp add: s1_def)
    from delete_each_removes [OF ok1 targets each]
    have "removes (\<lambda>q. \<exists>plan \<in> set plans. within_targets w ds (tree s) (targets plan) q) (tree s) (tree s2)"
      "item_rows s2 \<subseteq> item_rows s" "\<forall>i \<in> item_rows s - item_rows s2. \<exists>plan \<in> set plans. plan_item plan = i \<and> all_gone plan (tree s2)"
      "\<forall>m \<in> set ms. is_deleted m \<longrightarrow> medium_item m \<notin> item_rows s2 \<and> (\<exists>plan \<in> set plans. plan_item plan = medium_item m \<and> all_gone plan (tree s2))"
      by (simp_all add: s1_def)
    moreover have "\<forall>m' \<in> set ms'. is_deleted m' \<longrightarrow> medium_item m' \<notin> item_rows s2 \<and> (\<exists>plan \<in> set plans. plan_item plan = medium_item m' \<and> all_gone plan (tree s2))"
      using calculation(4) told_plex_deleted [OF told] by metis
    ultimately show ?thesis
      using told_plex_keeps [OF told, unfolded same_library_def] res media rd ask plans read_decisions_Inr [OF ds]
      by (intro disjI2 exI [of _ reader] exI [of _ ask] exI [of _ plans] exI [of _ ds] exI [of _ ms'] exI [of _ "s3\<lparr>pipeline_lock := False\<rparr>"]) auto
  qed (use media in auto)
qed


subsection \<open>A sample\<close>

definition sample_faults :: os_faults where
  "sample_faults = \<lparr>stat_fault = (\<lambda>_. False), scan_fault = (\<lambda>_. None), unlink_fault = (\<lambda>_. None), rmdir_fault = (\<lambda>_. None)\<rparr>"

definition sample_view :: folder_view where
  "sample_view = \<lparr>is_symlink = (\<lambda>_. False), resolve_strict = Some, is_dir = (\<lambda>_. True), is_mount = (\<lambda>p. p = [''m'']), stat_identity = (\<lambda>_. Some (1, 2))\<rparr>"

definition sample_world :: deletion_world where
  "sample_world = \<lparr>view = sample_view, faults = sample_faults, dir_size = (\<lambda>_. 0), sandboxed = False, sandbox_roots = None, real_path = id,
     sandbox_root_ok = (\<lambda>_. True), on_a_known_disk = (\<lambda>_. True), rows_writable = True\<rparr>"

definition sample_reader :: index_reader where
  "sample_reader = \<lparr>holders = (\<lambda>_. [7]), live_folders = (\<lambda>_. {''f''}), folder_holders = (\<lambda>_. [{7}]),
     mounted_media_folders = (\<lambda>_. [([''m''], [''c'', ''f''])])\<rparr>"

definition sample_library :: library where
  "sample_library = \<lparr>tree = Folder [(''m'', Folder [(''c'', Folder [(''f'', Folder [(''v'', Leaf)])])])], item_rows = {7, 8},
     pipeline_lock = False, library_log = []\<rparr>"

definition sample_key :: media_key where "sample_key = (''tmdb'', ''1'')"

definition sample_admin :: actor where "sample_admin = demo_actor ADMIN {} \<lparr>forbidden = {}, read_only = False\<rparr>"

abbreviation sample_deletion where
  "sample_deletion permit \<equiv> delete_library_items sample_admin sample_world (Some sample_reader) (Some permit) None False ''ana'' [sample_key] sample_library"

lemma sample_admitted: "requires ''deleteLibraryItems'' sample_admin (\<lambda>_. Inr ()) = Inr ()"
  by (simp add: requires_def OPERATION_RIGHTS_def holds_right_def authorise_any_of_def holds_any_def holds_def role_grants_def
      demo_actor_def sample_admin_def)

lemma sample_plans: "deletion_plans sample_reader sample_view {} {} [sample_key]
    = Inr [\<lparr>plan_key = sample_key, plan_item = 7, targets = [([''m''], [''m'', ''c'', ''f''])], unresolved = 0, unreachable = 0\<rparr>]"
  by (simp add: sample_reader_def sample_view_def plan_of_def deletable_folder_def resolve_media_folder_def on_a_mounted_volume_def
      MEDIA_FOLDER_DEPTH_def Let_def)

lemma sample_tree_ok: "tree_ok (tree sample_library)"
  by (simp add: sample_library_def)

lemma sample_is_carried_out:
  "\<exists>m. sample_deletion (\<lambda>_. Inr Allow) = (Inr [m], \<lparr>tree = Folder [(''m'', Folder [])], item_rows = {8}, pipeline_lock = False,
      library_log = [DestroyedFolder [''m'', ''c'', ''f''] ''web:ana'' ''media tmdb/1'', PublishedDeleted [''m'', ''c'', ''f''] ''media tmdb/1'',
        TombstonedRow 7 TOMBSTONE_REASON, DestroyedRow 7 ''web:ana'']\<rparr>) \<and> is_deleted m \<and> medium_item m = 7"
proof -
  have plans: "deletion_plans sample_reader (view sample_world) {} {} [sample_key]
      = Inr [\<lparr>plan_key = sample_key, plan_item = 7, targets = [([''m''], [''m'', ''c'', ''f''])], unresolved = 0, unreachable = 0\<rparr>]"
    using sample_plans by (simp add: sample_world_def)
  have rows: "{7, 8} - {7::int} = {8}" by auto
  have admitted: "requires ''deleteLibraryItems'' sample_admin Inr = Inr ()" using sample_admitted by simp
  show ?thesis
    by (simp add: delete_library_items_def then_with_def raising_def admitted delete_media_def plans del: deletion_plans.simps)
      (simp add: sample_library_def sample_world_def sample_faults_def sample_key_def delete_one_def settle_rows_def
        delete_media_folder_def decided_def remove_folder_def remove_empty_parents_def remove_dir_def remove_items_def told_plex_def told_outcome_def
        is_deleted_def fresh_tally_def medium_label_def log_effect_def Let_def rows)
qed

subsection \<open>What a request may remove\<close>

lemma delete_library_items_ends:
  assumes "tree_ok (tree s)" and "delete_library_items a w rd permit px un account keys s = (r, s')"
  obtains (refused) e where "r = Inl e" "s' = s"
    | (carried_out) reader ask plans ds ms where "rd = Some reader" "permit = Some ask" "deletion_plans reader (view w) {} {} keys = Inr plans"
        "\<forall>p d. ds p = Some d \<longrightarrow> ask p = Inr d" "r = Inr ms" "\<not> pipeline_lock s" "\<not> pipeline_lock s'"
        "removes (\<lambda>q. \<exists>plan \<in> set plans. within_targets w ds (tree s) (targets plan) q) (tree s) (tree s')"
  using delete_library_items_cases [OF assms(1), of a w rd permit px un account keys] assms(2) by auto

lemma lost_was_allowed:
  assumes "tree_ok (tree s)" and "delete_library_items a w rd permit px un account keys s = (r, s')"
    and lost: "present q (tree s)" "\<not> present q (tree s')"
  shows "\<exists>reader ask plans plan disk d. rd = Some reader \<and> permit = Some ask \<and> deletion_plans reader (view w) {} {} keys = Inr plans
    \<and> plan \<in> set plans \<and> (disk, d) \<in> set (targets plan) \<and> ask d = Inr Allow \<and> (sandboxed w \<longrightarrow> within_sandbox w d)
    \<and> (prefix d q \<or> present d (tree s) \<and> strict_prefix disk q \<and> strict_prefix q d)"
  using assms(1,2)
proof (cases rule: delete_library_items_ends)
  case (carried_out reader ask plans ds ms)
  obtain plan where "plan \<in> set plans" "within_targets w ds (tree s) (targets plan) q"
    using lost carried_out(8) unfolding removes_def by blast
  then show ?thesis using carried_out(1-4) unfolding within_targets_def allowed_def by blast
qed (use lost in simp)

text \<open>C5: a deletion asked from the interface creates nothing; what goes from the disks is a folder of a medium that was
  asked, that the deletion authority allowed and, in a sandbox, inside the sandbox's roots, with all it holds, or an emptied
  parent between it and its disk, never the disk; a request that is refused leaves folders, rows, lock and journal as they
  were; and the pipeline's lock is always given back.\<close>

theorem delete_removes_only_the_allowed:
  assumes "tree_ok (tree s)" and "delete_library_items a w rd permit px un account keys s = (r, s')"
  shows "(\<forall>q. present q (tree s') \<longrightarrow> present q (tree s)) \<and> (\<forall>e. r = Inl e \<longrightarrow> s' = s) \<and> pipeline_lock s' = pipeline_lock s
    \<and> (\<forall>q. present q (tree s) \<and> \<not> present q (tree s') \<longrightarrow>
         (\<exists>reader ask plans plan disk d. rd = Some reader \<and> permit = Some ask \<and> deletion_plans reader (view w) {} {} keys = Inr plans
            \<and> plan \<in> set plans \<and> (disk, d) \<in> set (targets plan) \<and> ask d = Inr Allow \<and> (sandboxed w \<longrightarrow> within_sandbox w d)
            \<and> (prefix d q \<or> present d (tree s) \<and> strict_prefix disk q \<and> strict_prefix q d)))"
proof (intro conjI)
  show "\<forall>q. present q (tree s') \<longrightarrow> present q (tree s)" "\<forall>e. r = Inl e \<longrightarrow> s' = s" "pipeline_lock s' = pipeline_lock s"
    using assms by (cases rule: delete_library_items_ends; simp add: removes_def)+
qed (use lost_was_allowed [OF assms] in simp)

lemma delete_removes_only_the_allowed_witness:
  "\<not> present [''m'', ''c''] (tree (snd (sample_deletion (\<lambda>_. Inr Allow)))) \<and> present [''m''] (tree (snd (sample_deletion (\<lambda>_. Inr Allow))))
    \<and> present [''m'', ''c''] (tree sample_library) \<and> strict_prefix [''m''] [''m'', ''c'']"
proof -
  obtain m s' where run: "sample_deletion (\<lambda>_. Inr Allow) = (Inr [m], s')" and tree: "tree s' = Folder [(''m'', Folder [])]"
    using sample_is_carried_out by auto
  have there: "present [''m'', ''c''] (tree sample_library)" "\<not> present [''m'', ''c''] (tree s')" "present [''m''] (tree s')"
    by (simp_all add: tree sample_library_def present_def)
  from delete_removes_only_the_allowed [OF sample_tree_ok run] there(1,2)
  obtain disk d where "deletion_plans sample_reader (view sample_world) {} {} [sample_key] = Inr [\<lparr>plan_key = sample_key, plan_item = 7, targets = [(disk, d)], unresolved = 0, unreachable = 0\<rparr>]"
    "prefix d [''m'', ''c''] \<or> strict_prefix disk [''m'', ''c'']"
    using sample_plans by (auto simp: sample_world_def)
  then have "strict_prefix [''m''] [''m'', ''c'']" using sample_plans by (auto simp: sample_world_def)
  then show ?thesis using run there by simp
qed

text \<open>C24: the index forgets a medium only with its folders: a row that goes had every folder found, on a mounted disk, and
  removed; a medium reported deleted has lost its row and all its folders.\<close>

theorem rows_go_with_their_folders:
  assumes "tree_ok (tree s)" and "delete_library_items a w (Some reader) permit px un account keys s = (Inr ms, s')"
    and "deletion_plans reader (view w) {} {} keys = Inr plans"
  shows "item_rows s' \<subseteq> item_rows s
    \<and> (\<forall>i \<in> item_rows s - item_rows s'. \<exists>plan \<in> set plans. plan_item plan = i \<and> all_gone plan (tree s'))
    \<and> (\<forall>m \<in> set ms. is_deleted m \<longrightarrow> medium_item m \<notin> item_rows s'
         \<and> (\<exists>plan \<in> set plans. plan_item plan = medium_item m \<and> all_gone plan (tree s')))"
  using delete_library_items_cases [OF assms(1), of a w "Some reader" permit px un account keys] assms(2,3) by auto

lemma rows_go_with_their_folders_witness:
  "7 \<notin> item_rows (snd (sample_deletion (\<lambda>_. Inr Allow))) \<and> \<not> present [''m'', ''c'', ''f''] (tree (snd (sample_deletion (\<lambda>_. Inr Allow))))"
proof -
  obtain m s' where run: "sample_deletion (\<lambda>_. Inr Allow) = (Inr [m], s')" and "is_deleted m" "medium_item m = 7"
    using sample_is_carried_out by auto
  moreover have "deletion_plans sample_reader (view sample_world) {} {} [sample_key]
      = Inr [\<lparr>plan_key = sample_key, plan_item = 7, targets = [([''m''], [''m'', ''c'', ''f''])], unresolved = 0, unreachable = 0\<rparr>]"
    using sample_plans by (simp add: sample_world_def)
  ultimately show ?thesis using rows_go_with_their_folders [OF sample_tree_ok run] by (auto simp: all_gone_def)
qed

subsection \<open>The trash of Plex\<close>

text \<open>Nothing but a section whose locations are all accounted for has its trash emptied.\<close>

definition accounted :: "node \<Rightarrow> path set \<Rightarrow> plex_section \<Rightarrow> bool" where
  "accounted t removed sec \<longleftrightarrow> (\<forall>l \<in> set (locations sec). is_folder t l \<or> l \<in> removed)"

definition emptied_only :: "(string \<Rightarrow> bool) \<Rightarrow> library \<Rightarrow> library \<Rightarrow> bool" where
  "emptied_only P s s' \<longleftrightarrow> (\<forall>k. PlexEmptyTrash k \<in> set (library_log s') \<longrightarrow> PlexEmptyTrash k \<in> set (library_log s) \<or> P k)"

lemma emptied_only_refl: "emptied_only P s s"
  by (simp add: emptied_only_def)

lemma emptied_only_trans: "emptied_only P s s1 \<Longrightarrow> emptied_only P s1 s2 \<Longrightarrow> emptied_only P s s2"
  unfolding emptied_only_def by blast

lemma emptied_only_log: "(\<And>k. e = PlexEmptyTrash k \<Longrightarrow> P k) \<Longrightarrow> emptied_only P s (log_effect e s)"
  by (auto simp: emptied_only_def log_effect_def)

lemma emptied_only_fold: "(\<And>x k. f x \<noteq> PlexEmptyTrash k) \<Longrightarrow> emptied_only P s (fold (\<lambda>x. log_effect (f x)) xs s)"
  by (induction xs arbitrary: s) (auto intro: emptied_only_trans [OF emptied_only_log] simp: emptied_only_refl)

definition sure :: "plex_client \<Rightarrow> node \<Rightarrow> path set \<Rightarrow> bool \<Rightarrow> path list \<Rightarrow> string \<Rightarrow> bool" where
  "sure px t removed un folders k \<longleftrightarrow> \<not> un \<and> (\<exists>f \<in> set folders. \<exists>sec. section_for px f = Some sec \<and> section_key sec = k \<and> accounted t removed sec)"

lemma tell_section_empties:
  assumes "tell_section px removed un (section_for px f) mine s = (r, s')" and "f \<in> set folders"
  shows "emptied_only (sure px (tree s) removed un folders) s s'"
proof (cases "section_for px f")
  case (Some sec)
  define s1 where "s1 = fold (\<lambda>p. log_effect (PlexRefresh p)) (dedup_first (map (\<lambda>f. refresh_path (tree s) f (location_of sec f)) mine)) s"
  have first: "emptied_only P s s1" for P unfolding s1_def by (rule emptied_only_fold) simp
  show ?thesis
  proof (cases "trash_kept_of (tree s) sec removed un")
    case None
    then have "sure px (tree s) removed un folders (section_key sec)"
      using assms(2) Some by (auto simp: sure_def trash_kept_of_def accounted_def list_ex_iff split: if_splits)
    moreover have "s' = log_effect (PlexEmptyTrash (section_key sec)) s1"
      using assms(1) Some None by (simp add: tell_section_def Let_def s1_def)
    ultimately show ?thesis using emptied_only_trans [OF first emptied_only_log] by auto
  next
    case (Some k)
    then have "s' = s1" using assms(1) \<open>section_for px f = Some sec\<close> by (simp add: tell_section_def Let_def s1_def)
    then show ?thesis using first by simp
  qed
qed (use assms in \<open>auto simp: tell_section_def emptied_only_refl\<close>)

lemma tell_sections_empties:
  assumes "tell_sections px removed un folders ks s = (m, s')" and "\<forall>k \<in> set ks. \<exists>f \<in> set folders. map_option section_key (section_for px f) = k"
  shows "emptied_only (sure px (tree s) removed un folders) s s'"
  using assms
proof (induction ks arbitrary: s m)
  case (Cons k ks)
  let ?mine = "filter (\<lambda>f. map_option section_key (section_for px f) = k) folders"
  obtain r s1 where one: "tell_section px removed un (section_for px (last ?mine)) ?mine s = (r, s1)" by fastforce
  obtain m1 where rest: "tell_sections px removed un folders ks s1 = (m1, s')" using Cons.prems(1) one by (auto split: prod.splits)
  have "?mine \<noteq> []" using Cons.prems(2) by (auto simp: filter_empty_conv)
  then have "last ?mine \<in> set folders" using last_in_set [of ?mine] by simp
  then have "emptied_only (sure px (tree s) removed un folders) s s1" by (rule tell_section_empties [OF one])
  moreover have "tree s1 = tree s" using tell_sections_keeps [of px removed un folders "[k]" s] one by (auto split: prod.splits)
  ultimately show ?case using Cons.IH [OF rest] Cons.prems(2) emptied_only_trans by auto
qed (simp add: emptied_only_refl)

lemma set_dedup_first [simp]: "set (dedup_first xs) = set xs"
  by (induction xs) auto

lemma follow_up_empties: "emptied_only (sure px (tree s) removed un deleted) s (snd (follow_up_plex px deleted removed un s))"
proof -
  define folders where "folders = dedup_first deleted"
  define keys where "keys = dedup_first (map (\<lambda>f. map_option section_key (section_for px f)) folders)"
  obtain results s1 where told: "tell_sections px removed un folders keys s = (results, s1)" by fastforce
  have end_of: "snd (follow_up_plex px deleted removed un s) = (if list_ex (\<lambda>k. k \<noteq> None) keys then log_effect PlexCleanBundles s1 else s1)"
    unfolding follow_up_plex_def Let_def folders_def [symmetric] keys_def [symmetric] told by simp
  have "emptied_only (sure px (tree s) removed un folders) s s1" by (rule tell_sections_empties [OF told]) (auto simp: keys_def)
  moreover have "sure px (tree s) removed un folders = sure px (tree s) removed un deleted" by (rule ext) (simp add: sure_def folders_def)
  moreover have "emptied_only P s1 (log_effect PlexCleanBundles s1)" for P by (rule emptied_only_log) simp
  ultimately show ?thesis using end_of emptied_only_trans by fastforce
qed

fun is_trash :: "library_effect \<Rightarrow> bool" where
  "is_trash (PlexEmptyTrash k) = True"
| "is_trash _ = False"

lemma emptied_only_trash_free [intro]: "filter is_trash (library_log s') = filter is_trash (library_log s) \<Longrightarrow> emptied_only P s s'"
  unfolding emptied_only_def by (metis (no_types, lifting) filter_set mem_Collect_eq set_filter is_trash.simps(1))

lemma delete_folder_trash: "filter is_trash (library_log (snd (delete_media_folder w who label permit dry p s))) = filter is_trash (library_log s)"
  by (simp add: delete_media_folder_def Let_def log_effect_def case_prod_beta)

lemma remove_rows_trash: "filter is_trash (library_log (snd (remove_rows is who reason s))) = filter is_trash (library_log s)"
  by (induction "is" arbitrary: s) (simp_all add: Let_def case_prod_beta log_effect_def)

lemma fold_log_trash: "(\<And>x. \<not> is_trash (f x)) \<Longrightarrow> filter is_trash (library_log (fold (\<lambda>x. log_effect (f x)) xs s)) = filter is_trash (library_log s)"
  by (induction xs arbitrary: s) (simp_all add: log_effect_def)

lemma delete_targets_trash: "filter is_trash (library_log (snd (delete_targets w who label ds ts ta s))) = filter is_trash (library_log s)"
proof (induction ts arbitrary: ta s)
  case (Cons x ts)
  obtain disk d where x: "x = (disk, d)" by (cases x)
  obtain r s1 where one: "delete_media_folder w who label (decided ds) False d s = (r, s1)" by fastforce
  then have "filter is_trash (library_log s1) = filter is_trash (library_log s)" using delete_folder_trash by (metis snd_conv)
  then show ?case using Cons.IH x one by (simp add: Let_def case_prod_beta split: sum.split delete_outcome.split)
qed simp

lemma remove_items_trash: "filter is_trash (library_log (snd (remove_items w ids who reason s))) = filter is_trash (library_log s)"
  by (simp add: remove_items_def Let_def case_prod_beta remove_rows_trash fold_log_trash del: remove_rows.simps)

lemma settle_rows_trash: "filter is_trash (library_log (snd (settle_rows w who plan ta s))) = filter is_trash (library_log s)"
  using remove_items_trash [of w "[plan_item plan]" who TOMBSTONE_REASON s]
  by (cases "remove_items w [plan_item plan] who TOMBSTONE_REASON s") (simp add: settle_rows_def split: option.split)

lemma delete_one_trash: "filter is_trash (library_log (snd (delete_one w who ds plan s))) = filter is_trash (library_log s)"
  by (simp add: delete_one_def Let_def case_prod_beta delete_targets_trash settle_rows_trash)

lemma delete_each_trash: "filter is_trash (library_log (snd (delete_each w who ds plans s))) = filter is_trash (library_log s)"
  by (induction plans arbitrary: s) (simp_all add: Let_def case_prod_beta delete_one_trash)

lemma carried_out_run:
  assumes "delete_library_items a w rd permit px un account keys s = (Inr ms, s')"
  shows "\<exists>ds plans s3. told_plex w px un (fst (delete_each w (''web:'' @ account) ds plans (s\<lparr>pipeline_lock := True\<rparr>)))
      (snd (delete_each w (''web:'' @ account) ds plans (s\<lparr>pipeline_lock := True\<rparr>))) = (ms, s3) \<and> s' = s3\<lparr>pipeline_lock := False\<rparr>"
proof -
  have media: "delete_media w rd permit px un account keys s = (Inr ms, s')"
    using assms by (auto simp: delete_library_items_def then_with_def raising_def split: sum.splits)
  obtain ask where ask: "permit = Some ask" "\<not> pipeline_lock s" using media by (cases permit) (auto simp: delete_media_def split: if_splits)
  let ?read = "raising_bind (case rd of None \<Rightarrow> Inl (AppRefusal Unavailable LIBRARY_UNAVAILABLE) | Some rd \<Rightarrow> deletion_plans rd (view w) {} {} keys)
               (\<lambda>plans. raising_bind (read_decisions ask (map snd (concat (map targets plans)))) (\<lambda>ds. Inr (plans, ds)))"
  obtain plans ds where "?read = Inr (plans, ds)" using media ask by (cases ?read) (auto simp: delete_media_def)
  then show ?thesis using media ask by (auto simp: delete_media_def Let_def case_prod_beta intro!: exI [of _ ds] exI [of _ plans] prod_eqI)
qed

lemma told_outcome_folders: "folders_deleted (told_outcome b px steps m) = folders_deleted m"
    "parents_removed (told_outcome b px steps m) = parents_removed m"
  by (simp_all add: told_outcome_def)

text \<open>Plex's trash is emptied by a deletion only for a section that holds a folder it deleted, outside a sandbox, while no
  disk is unmounted, and when every location of the section is a folder of the disks or a parent the deletion removed itself: an
  unplugged disk never has its media forgotten.\<close>

theorem trash_is_emptied_only_when_sure:
  assumes "delete_library_items a w rd permit px un account keys s = (Inr ms, s')"
    and "PlexEmptyTrash k \<in> set (library_log s')" "PlexEmptyTrash k \<notin> set (library_log s)"
  shows "\<not> un \<and> \<not> sandboxed w \<and> (\<exists>client sec m f. px = Some client \<and> m \<in> set ms \<and> f \<in> set (folders_deleted m)
    \<and> section_for client f = Some sec \<and> section_key sec = k
    \<and> (\<forall>l \<in> set (locations sec). is_folder (tree s') l \<or> (\<exists>m \<in> set ms. l \<in> set (parents_removed m))))"
proof -
  obtain ms1 s2 s3 where told: "told_plex w px un ms1 s2 = (ms, s3)" and s': "s' = s3\<lparr>pipeline_lock := False\<rparr>"
    and quiet: "filter is_trash (library_log s2) = filter is_trash (library_log s)"
    using carried_out_run [OF assms(1)] delete_each_trash by fastforce
  let ?deleted = "concat (map folders_deleted ms1)" and ?removed = "set (concat (map parents_removed ms1))"
  have new: "PlexEmptyTrash k \<in> set (library_log s3)" "PlexEmptyTrash k \<notin> set (library_log s2)"
    using assms(2,3) s' emptied_only_trash_free [OF quiet, of "\<lambda>_. False"] by (auto simp: emptied_only_def)
  then have "s3 \<noteq> s2" by auto
  then obtain client where client: "px = Some client" "\<not> sandboxed w" "s3 = snd (follow_up_plex client ?deleted ?removed un s2)"
    using told by (auto simp: told_plex_def Let_def split: option.splits if_splits prod.splits)
  have "sure client (tree s2) ?removed un ?deleted k" using new follow_up_empties client(3) unfolding emptied_only_def by blast
  moreover have "tree s3 = tree s2" using told_plex_keeps [OF told] by (simp add: same_library_def)
  moreover obtain steps where "ms = map (told_outcome (sandboxed w) px steps) ms1" using told by (auto simp: told_plex_def Let_def split: prod.splits)
  ultimately show ?thesis using client s' by (force simp: sure_def accounted_def told_outcome_folders)
qed

definition sample_plex :: plex_client where
  "sample_plex = \<lparr>section_for = (\<lambda>_. Some \<lparr>section_key = ''1'', locations = [[''m'']]\<rparr>), refresh_ok = (\<lambda>_. True), scan_ends = (\<lambda>_. True),
     empty_trash_ok = (\<lambda>_. True), clean_bundles_ok = True\<rparr>"

abbreviation sample_told_deletion where
  "sample_told_deletion \<equiv> delete_library_items sample_admin sample_world (Some sample_reader) (Some (\<lambda>_. Inr Allow)) (Some sample_plex) False
     ''ana'' [sample_key] sample_library"

lemma sample_told_plex:
  "\<exists>ms s'. sample_told_deletion = (Inr ms, s') \<and> PlexEmptyTrash ''1'' \<in> set (library_log s')"
proof -
  have plans: "deletion_plans sample_reader (view sample_world) {} {} [sample_key]
      = Inr [\<lparr>plan_key = sample_key, plan_item = 7, targets = [([''m''], [''m'', ''c'', ''f''])], unresolved = 0, unreachable = 0\<rparr>]"
    using sample_plans by (simp add: sample_world_def)
  have admitted: "requires ''deleteLibraryItems'' sample_admin Inr = Inr ()" using sample_admitted by simp
  show ?thesis
    by (simp add: delete_library_items_def then_with_def raising_def admitted delete_media_def plans del: deletion_plans.simps)
      (simp add: sample_library_def sample_world_def sample_faults_def sample_key_def delete_one_def settle_rows_def sample_plex_def
        delete_media_folder_def decided_def remove_folder_def remove_empty_parents_def remove_dir_def remove_items_def told_plex_def told_outcome_def
        fresh_tally_def medium_label_def log_effect_def Let_def follow_up_plex_def tell_section_def trash_kept_of_def is_folder_def)
qed

lemma trash_is_emptied_only_when_sure_witness:
  "\<not> sandboxed sample_world \<and> PlexEmptyTrash ''1'' \<in> set (library_log (snd sample_told_deletion))"
proof -
  obtain ms s' where run: "sample_told_deletion = (Inr ms, s')" and log: "PlexEmptyTrash ''1'' \<in> set (library_log s')"
    using sample_told_plex by blast
  have "PlexEmptyTrash ''1'' \<notin> set (library_log sample_library)" by (simp add: sample_library_def)
  from trash_is_emptied_only_when_sure [OF run log this] run log show ?thesis by simp
qed

subsection \<open>A file that is owed\<close>

text \<open>A path as text, and an obligation on a file below a folder.\<close>

definition path_text :: "path \<Rightarrow> string" where
  "path_text p = concat (map (\<lambda>c. CHR ''/'' # c) p)"

lemma at_or_under_text: "dispatched_path o1 = Some (path_text q) \<Longrightarrow> prefix d q \<Longrightarrow> at_or_under (path_text d) o1"
proof (elim prefixE)
  fix rest assume "dispatched_path o1 = Some (path_text q)" "q = d @ rest"
  then show ?thesis by (cases rest) (simp_all add: at_or_under_def path_text_def)
qed

lemma leaf_has_nothing_below: "entry_at q t = Some Leaf \<Longrightarrow> strict_prefix q d \<Longrightarrow> \<not> present d t"
  by (auto simp: strict_prefix_def prefix_def present_def at_append neq_Nil_conv elim: entry_at.elims)

text \<open>C2: a file that is owed seeding time survives any deletion asked from the interface, by whoever and with whatever media,
  sandboxed or not, while the obligation on it stands: the permit reads the obligations or refuses the whole request.\<close>

theorem owed_file_survives:
  assumes ok: "tree_ok (tree s)" and leaf: "entry_at q (tree s) = Some Leaf"
    and o1: "o1 \<in> set os" "released_at o1 = None" "dispatched_path o1 = Some (path_text q)" "t < obligation_added_at o1 + min_seed_time_s o1"
    and there: "ex (path_text q) = Some True"
  shows "present q (tree (snd (delete_library_items a w rd (Some (\<lambda>d. strict_may_delete (Readable os) t ex (path_text d))) px un account keys s)))"
proof (rule ccontr)
  let ?ask = "\<lambda>d. strict_may_delete (Readable os) t ex (path_text d)"
  assume lost: "\<not> ?thesis"
  have "present q (tree s)" using leaf by (simp add: present_def)
  from lost_was_allowed [OF ok prod.collapse [symmetric] this lost]
  obtain d where ask: "?ask d = Inr Allow" and "prefix d q \<or> present d (tree s) \<and> strict_prefix q d" by auto
  then have d: "prefix d q" using leaf_has_nothing_below [OF leaf] by blast
  have "o1 \<in> set (filter (owing t ex) (find_active_under (path_text d) os))"
    using o1 there at_or_under_text [OF o1(3) d] by (auto simp: find_active_under_def unreleased_def owing_def path_present_def owed_until_of_def)
  then have "decide t ex (path_text d) os \<noteq> Some Allow" unfolding decide_Allow by (metis empty_iff empty_set)
  then show False using ask by (auto simp: strict_may_delete_def split: option.splits)
qed

lemma owed_file_survives_witness:
  "present [''m'', ''c'', ''f'', ''v''] (tree (snd (sample_deletion
     (\<lambda>d. strict_may_delete (Readable [sample_obligation\<lparr>dispatched_path := Some ''/m/c/f/v''\<rparr>]) 50 (\<lambda>_. Some True) (path_text d)))))"
  by (rule owed_file_survives [where ?o1.0 = "sample_obligation\<lparr>dispatched_path := Some ''/m/c/f/v''\<rparr>" and os = "[sample_obligation\<lparr>dispatched_path := Some ''/m/c/f/v''\<rparr>]" and t = 50
        and ex = "\<lambda>_. Some True" and q = "[''m'', ''c'', ''f'', ''v'']", OF sample_tree_ok])
    (simp_all add: sample_library_def sample_obligation_def new_obligation_def path_text_def)

end
