(* ===== verification/Reconcile.thy ===== *)
theory Reconcile
  imports Pass_Gates Delete_Authority
begin

text \<open>
  What happens to a wanted item after its grab (\<open>acquire/reconcile.py\<close>, \<open>_reswitch.py\<close>, \<open>_stall.py\<close>): the sweep that
  compares every open row with the library and the torrent client, the announcements of the downloads, the switch to another
  release. Parameters: the library's answers (\<open>core/ownership.py\<close>), the provenance journeys, the torrent client.
\<close>

subsection \<open>The library\<close>

text \<open>\<open>OwnershipChecker.owns\<close>: \<open>None\<close> when it raises.\<close>

type_synonym ownership = "media_ref \<Rightarrow> wanted_kind \<Rightarrow> int option \<Rightarrow> int option \<Rightarrow> bool option"

record season_ownership =
  season_aired :: nat
  season_missing :: "int list option"

fun missing_of :: "ownership \<Rightarrow> wanted_item \<Rightarrow> int list \<Rightarrow> int list option" where
  "missing_of owns row [] = Some []"
| "missing_of owns row (e # es) = (case owns (media_ref row) EPISODE (season row) (Some e) of
     None \<Rightarrow> None
   | Some owned \<Rightarrow> map_option (\<lambda>rest. if owned then rest else e # rest) (missing_of owns row es))"

definition season_ownership_of :: "ownership \<Rightarrow> aired_table \<Rightarrow> wanted_item \<Rightarrow> season_ownership" where
  "season_ownership_of owns as row = (case (followed_id row, season row) of
     (Some fid, Some n) \<Rightarrow>
       (let episodes = sort (remdups (map aired_episode (aired_of_season fid n as)))
        in if episodes = [] then \<lparr>season_aired = 0, season_missing = None\<rparr>
           else \<lparr>season_aired = length episodes, season_missing = missing_of owns row episodes\<rparr>)
   | _ \<Rightarrow> \<lparr>season_aired = 0, season_missing = None\<rparr>)"

definition in_library :: "ownership \<Rightarrow> aired_table \<Rightarrow> wanted_item \<Rightarrow> bool" where
  "in_library owns as row \<longleftrightarrow>
     (if wanted_kind row = SEASON then season_missing (season_ownership_of owns as row) = Some []
      else owns (media_ref row) (wanted_kind row) (season row) (episode row) = Some True)"

subsection \<open>The sweep\<close>

definition LANDED_JOURNEY_STATUSES :: "string set" where
  "LANDED_JOURNEY_STATUSES = {''dispatched'', ''reconciled''}"

text \<open>\<open>DeleteAuthority.record_grab_obligation\<close>, with the authority's client, economy and scope and its own clock.\<close>

record grab_recorder =
  recorder_client :: "seed_client option"
  recorder_economy :: economy
  recorder_scope :: "torrent_scope option"
  recorder_clock :: int

text \<open>The callers' arguments; \<open>journey\<close> is \<open>None\<close> when there is none or its read raises.\<close>

record sweep_env =
  library_owns :: ownership
  journey :: "string \<Rightarrow> string option"
  client_items :: "(string \<rightharpoonup> torrent_item) option"
  foreign :: "string set"
  recorder :: "grab_recorder option"

record reconcile_summary =
  checked :: nat
  closed_owned :: nat
  requeued_missing :: nat
  confirmed_grabbed :: nat
  still_in_flight :: nat
  fell_back :: nat
  closed_movies :: "int list"

definition list_open_rows :: "wanted_table \<Rightarrow> wanted_item list" where
  "list_open_rows rs = list_grabbed rs @ list_searching rs @ list_available rs @ list_pending rs"

definition row_hash :: "wanted_item \<Rightarrow> string" where
  "row_hash row = lower (case grabbed_hash row of None \<Rightarrow> [] | Some h \<Rightarrow> h)"

text \<open>A season pack that reached the library and left some of its aired episodes missing.\<close>

definition landed_incomplete :: "sweep_env \<Rightarrow> aired_table \<Rightarrow> wanted_item \<Rightarrow> bool" where
  "landed_incomplete env as row \<longleftrightarrow>
     (let so = season_ownership_of (library_owns env) as row
      in wanted_kind row = SEASON \<and> wanted_status row \<noteq> SEARCHING
         \<and> (\<exists>ms. season_missing so = Some ms \<and> ms \<noteq> [] \<and> length ms < season_aired so)
         \<and> (\<exists>st. journey env (row_hash row) = Some st \<and> st \<in> LANDED_JOURNEY_STATUSES))"

definition close_owned :: "wanted_item \<Rightarrow> reconcile_summary \<times> acquire_db \<Rightarrow> reconcile_summary \<times> acquire_db" where
  "close_owned row = (\<lambda>(rep, s).
     let (won, rs) = mark_done (wanted_id row) (wanted s); s = s\<lparr>wanted := rs\<rparr>
     in if \<not> won then (rep, s)
        else (rep\<lparr>closed_owned := Suc (closed_owned rep),
                closed_movies := closed_movies rep @ (case (wanted_kind row, followed_id row) of (MOVIE, Some i) \<Rightarrow> [i] | _ \<Rightarrow> [])\<rparr>, s))"

definition confirm_found :: "sweep_env \<Rightarrow> wanted_item \<Rightarrow> reconcile_summary \<times> acquire_db \<Rightarrow> reconcile_summary \<times> acquire_db" where
  "confirm_found env row = (\<lambda>(rep, s).
     let (won, rs) = confirm_grab_intent (wanted_id row) (row_hash row) (wanted s); s = s\<lparr>wanted := rs\<rparr>
     in if \<not> won then (rep, s)
        else (rep\<lparr>confirmed_grabbed := Suc (confirmed_grabbed rep)\<rparr>,
              case recorder env of None \<Rightarrow> s
              | Some g \<Rightarrow> snd (record_grab_obligation (recorder_client g) (recorder_economy g) (recorder_scope g) (recorder_clock g) (row_hash row) s)))"

definition requeue_vanished :: "wanted_item \<Rightarrow> reconcile_summary \<times> acquire_db \<Rightarrow> reconcile_summary \<times> acquire_db" where
  "requeue_vanished row = (\<lambda>(rep, s).
     let (won, rs) = requeue_missing (wanted_id row) (wanted s); s = s\<lparr>wanted := rs\<rparr>
     in (if won then rep\<lparr>requeued_missing := Suc (requeued_missing rep)\<rparr> else rep, s))"

definition fall_back_landed :: "sweep_env \<Rightarrow> int \<Rightarrow> wanted_item \<Rightarrow> reconcile_summary \<times> acquire_db \<Rightarrow> reconcile_summary \<times> acquire_db" where
  "fall_back_landed env t row = (\<lambda>(rep, s).
     let ((claimed, k), s') = fall_back_to_episodes row (the (followed_id row)) (the (season row)) t
           (season_missing (season_ownership_of (library_owns env) (aired s) row)) s
     in (if claimed then rep\<lparr>fell_back := Suc (fell_back rep)\<rparr> else rep, s'))"

definition in_flight :: "reconcile_summary \<times> acquire_db \<Rightarrow> reconcile_summary \<times> acquire_db" where
  "in_flight = (\<lambda>(rep, s). (rep\<lparr>still_in_flight := Suc (still_in_flight rep)\<rparr>, s))"

text \<open>One row, read when the sweep began.\<close>

definition reconcile_row :: "sweep_env \<Rightarrow> int \<Rightarrow> wanted_item \<Rightarrow> reconcile_summary \<times> acquire_db \<Rightarrow> reconcile_summary \<times> acquire_db" where
  "reconcile_row env t row = (\<lambda>(rep, s).
     let acc = (rep\<lparr>checked := Suc (checked rep)\<rparr>, s); h = row_hash row in
     if in_library (library_owns env) (aired s) row then close_owned row acc
     else if h = [] then acc
     else if landed_incomplete env (aired s) row then fall_back_landed env t row acc
     else case client_items env of
       None \<Rightarrow> in_flight acc
     | Some items \<Rightarrow>
         if h \<in> foreign env then in_flight acc
         else if items h = None then requeue_vanished row acc
         else if wanted_status row = SEARCHING then confirm_found env row acc
         else in_flight acc)"

subsection \<open>The announcements\<close>

definition PROGRESS_THRESHOLDS :: "int list" where "PROGRESS_THRESHOLDS = [75, 50, 25]"

definition provider_of :: "string \<Rightarrow> acquire_db \<Rightarrow> string" where
  "provider_of h s = (case find_active_by_hash h (seeds s) of None \<Rightarrow> ''unknown'' | Some o1 \<Rightarrow> source_tracker o1)"

text \<open>\<open>title_by_id.get(row.followed_id, "")\<close>, or the name the client shows.\<close>

definition download_title :: "follow_table \<Rightarrow> wanted_item \<Rightarrow> torrent_item \<Rightarrow> string" where
  "download_title fs row x = (case Option.bind (followed_id row) (\<lambda>i. get_follow i fs) of
     None \<Rightarrow> torrent_name x
   | Some f \<Rightarrow> if follow_title f = [] then torrent_name x else follow_title f)"

definition on_marks :: "(mark_table \<Rightarrow> bool \<times> mark_table) \<Rightarrow> acquire_db \<Rightarrow> bool \<times> acquire_db" where
  "on_marks f s = (let (won, ms) = f (marks s) in (won, s\<lparr>marks := ms\<rparr>))"

definition announce_if :: "bool \<times> acquire_db \<Rightarrow> acquire_effect \<Rightarrow> acquire_db" where
  "announce_if ws e = (if fst ws then emit e (snd ws) else snd ws)"

definition emit_started :: "string \<Rightarrow> string \<Rightarrow> string \<Rightarrow> wanted_kind \<Rightarrow> download_mark \<Rightarrow> acquire_db \<Rightarrow> acquire_db" where
  "emit_started h title prov k m s =
     (if started_emitted m then s else announce_if (on_marks (try_mark_started h) s) (DownloadStarted h title prov k))"

definition emit_progress :: "string \<Rightarrow> string \<Rightarrow> real \<Rightarrow> download_mark \<Rightarrow> acquire_db \<Rightarrow> acquire_db" where
  "emit_progress h title p m s =
     (case List.find (\<lambda>k. p * 100 \<ge> of_int k \<and> k > last_threshold m) PROGRESS_THRESHOLDS of
        None \<Rightarrow> s
      | Some k \<Rightarrow> announce_if (on_marks (try_advance_threshold h k) s) (DownloadProgressed h title p k))"

definition emit_for_row :: "follow_table \<Rightarrow> (string \<rightharpoonup> torrent_item) \<Rightarrow> wanted_item \<Rightarrow> acquire_db \<Rightarrow> acquire_db" where
  "emit_for_row fs items row s = (case items (row_hash row) of
     None \<Rightarrow> s
   | Some x \<Rightarrow>
       (let h = row_hash row; title = download_title fs row x; prov = provider_of h s;
            m = (case get_mark h (marks s) of None \<Rightarrow> fresh_mark h | Some m \<Rightarrow> m)
        in if progress x \<ge> 1 then
             (if completed_emitted m then s
              else announce_if (on_marks (try_mark_completed h) s) (DownloadCompleted h title prov (wanted_kind row)))
           else if completed_emitted m then s
           else emit_progress h title (progress x) m (emit_started h title prov (wanted_kind row) m s)))"

definition emit_download_events :: "(string \<rightharpoonup> torrent_item) \<Rightarrow> acquire_db \<Rightarrow> acquire_db" where
  "emit_download_events items s =
     fold (emit_for_row (follows s) items) (filter (\<lambda>r. row_hash r \<noteq> [] \<and> items (row_hash r) \<noteq> None) (list_open_rows (wanted s))) s"

definition prune_marks :: "acquire_db \<Rightarrow> acquire_db" where
  "prune_marks s = s\<lparr>marks := snd (prune_stale (hashes_in_flight (wanted s)) (marks s))\<rparr>"

definition empty_summary :: reconcile_summary where
  "empty_summary = \<lparr>checked = 0, closed_owned = 0, requeued_missing = 0, confirmed_grabbed = 0, still_in_flight = 0,
     fell_back = 0, closed_movies = []\<rparr>"

definition reconcile_wanted :: "sweep_env \<Rightarrow> int \<Rightarrow> acquire_db \<Rightarrow> reconcile_summary \<times> acquire_db" where
  "reconcile_wanted env t s =
     (let (rep, s) = fold (reconcile_row env t) (list_open_rows (wanted s)) (empty_summary, s);
          s = (case client_items env of None \<Rightarrow> s | Some items \<Rightarrow> emit_download_events items s)
      in (rep, prune_marks s))"

subsection \<open>Stalled downloads\<close>

datatype stall_verdict = HEALTHY | STALLED_RECOVERABLE | STALLED_DEAD

definition STALLED_STATES :: "string set" where "STALLED_STATES = {''stalleddl'', ''metadl''}"

definition DEFAULT_DEAD_AFTER_S :: real where "DEFAULT_DEAD_AFTER_S = 7200"

definition classify_stall :: "torrent_item \<Rightarrow> real \<Rightarrow> real \<Rightarrow> stall_verdict" where
  "classify_stall x age dead_after =
     (if error_reason x \<noteq> None \<and> progress x < 1 then STALLED_DEAD
      else if lower (strip (torrent_state x)) \<notin> STALLED_STATES then HEALTHY
      else if age > dead_after then STALLED_DEAD
      else if progress x = 0 \<and> swarm_seeds x = Some 0 then STALLED_DEAD
      else STALLED_RECOVERABLE)"

definition dead_reason :: "torrent_item \<Rightarrow> string" where
  "dead_reason x = (if error_reason x \<noteq> None then ''broken''
     else if progress x = 0 \<and> swarm_seeds x = Some 0 then ''dead_swarm'' else ''deadline'')"

text \<open>\<open>fallback_ts\<close> is the row's \<open>last_search_at or enqueued_at\<close>: a time 0 counts as none.\<close>

definition grabbed_age :: "torrent_item \<Rightarrow> wanted_item \<Rightarrow> real \<Rightarrow> real" where
  "grabbed_age x row t =
     (let fallback = (case last_search_at row of None \<Rightarrow> enqueued_at row | Some u \<Rightarrow> if u = 0 then enqueued_at row else u);
          added = (case added_on x of None \<Rightarrow> of_int fallback | Some a \<Rightarrow> a)
      in max 0 (t - added))"

text \<open>A failure of the client's own deletion is swallowed: the requeue has happened.\<close>

definition reswitch_row :: "(string \<rightharpoonup> torrent_item) \<Rightarrow> real \<Rightarrow> real \<Rightarrow> wanted_item \<Rightarrow> (nat \<times> nat) \<times> acquire_db \<Rightarrow> (nat \<times> nat) \<times> acquire_db" where
  "reswitch_row by_hash t dead_after row = (\<lambda>((n, k), s). case grabbed_hash row of
     None \<Rightarrow> ((n, k), s)
   | Some h \<Rightarrow> (case by_hash (lower h) of
       None \<Rightarrow> ((n, k), s)
     | Some x \<Rightarrow>
         if classify_stall x (grabbed_age x row t) dead_after \<noteq> STALLED_DEAD then ((Suc n, k), s)
         else (let (won, rs) = requeue_for_reswitch (wanted_id row) h \<lfloor>t\<rfloor> (wanted s); s = s\<lparr>wanted := rs\<rparr>
               in if \<not> won then ((Suc n, k), s)
                  else ((Suc n, Suc k), emit (GrabReswitched (media_ref row) h (dead_reason x)) (emit (TorrentDeleted h True) s)))))"

definition reswitch_stalled :: "(string set \<Rightarrow> api_raise + torrent_item list) \<Rightarrow> torrent_scope option \<Rightarrow> real \<Rightarrow> real \<Rightarrow> acquire_db
    \<Rightarrow> (nat \<times> nat) \<times> acquire_db" where
  "reswitch_stalled ask sc t dead_after s =
     (let grabbed = list_grabbed (wanted s);
          hashes = set (map lower (filter (\<lambda>h. h \<noteq> []) (List.map_filter grabbed_hash grabbed)))
      in if hashes = {} then ((0, 0), s)
         else case ask hashes of
           Inl _ \<Rightarrow> ((0, 0), s)
         | Inr items \<Rightarrow> fold (reswitch_row (by_hash_of (fst (lookup_scoped items sc))) t dead_after) grabbed ((0, 0), s))"

end
