(* ===== verification/Reconcile_Facts.thy ===== *)
theory Reconcile_Facts
  imports Reconcile Wanted_Facts Grab_Facts
begin

text \<open>
  What a reconciliation makes of the wanted table, row by row, and that no row is left waiting for a torrent that is gone.
\<close>

subsection \<open>One row\<close>

text \<open>What a sweep makes of one row, by what it was when the sweep began.\<close>

definition settled_row :: "sweep_env \<Rightarrow> aired_table \<Rightarrow> wanted_item \<Rightarrow> wanted_item" where
  "settled_row env as r =
     (if \<not> is_open r then r
      else if in_library (library_owns env) as r then r\<lparr>wanted_status := DONE\<rparr>
      else if row_hash r = [] then r
      else if landed_incomplete env as r then r\<lparr>wanted_status := FALLBACK_EPISODES\<rparr>
      else case client_items env of
        None \<Rightarrow> r
      | Some items \<Rightarrow>
          if row_hash r \<in> foreign env then r
          else if items (row_hash r) = None then r\<lparr>wanted_status := PENDING, grabbed_hash := None\<rparr>
          else if wanted_status r = SEARCHING then r\<lparr>wanted_status := GRABBED, grabbed_hash := Some (row_hash r)\<rparr>
          else r)"

definition requeued_episode :: "int \<Rightarrow> wanted_item \<Rightarrow> bool" where
  "requeued_episode t r \<longleftrightarrow> wanted_kind r = EPISODE \<and> wanted_status r = PENDING \<and> grabbed_hash r = None \<and> enqueued_at r = t"

text \<open>An episode that comes of a season pack which landed with holes: one of those its season misses.\<close>

definition fallback_of :: "sweep_env \<Rightarrow> aired_table \<Rightarrow> int \<Rightarrow> wanted_item \<Rightarrow> wanted_item \<Rightarrow> bool" where
  "fallback_of env as t row r \<longleftrightarrow> is_open row \<and> landed_incomplete env as row \<and> requeued_episode t r
     \<and> followed_id r = followed_id row \<and> season r = season row
     \<and> (\<exists>ms e. season_missing (season_ownership_of (library_owns env) as row) = Some ms \<and> episode r = Some e \<and> e \<in> set ms)"

lemma fallback_requeued: "fallback_of env as t row r \<Longrightarrow> requeued_episode t r"
  by (simp add: fallback_of_def)

lemma missing_of_absent: "missing_of owns row es = Some ms \<Longrightarrow> e \<in> set ms \<Longrightarrow> e \<in> set es \<and> owns (media_ref row) EPISODE (season row) (Some e) = Some False"
  by (induction es arbitrary: ms) (auto split: option.splits if_splits)

text \<open>What a season misses is listed as an episode of it, and the library says it does not have it.\<close>

lemma season_misses:
  assumes "season_missing (season_ownership_of owns as row) = Some ms" and "e \<in> set ms"
  shows "\<exists>fid n. followed_id row = Some fid \<and> season row = Some n \<and> e \<in> aired_episode ` set (aired_of_season fid n as)
    \<and> owns (media_ref row) EPISODE (Some n) (Some e) = Some False"
proof -
  obtain fid n where row: "followed_id row = Some fid" "season row = Some n"
    using assms(1) by (cases "followed_id row"; cases "season row") (simp_all add: season_ownership_of_def)
  have "missing_of owns row (sort (remdups (map aired_episode (aired_of_season fid n as)))) = Some ms"
    using assms(1) row by (simp add: season_ownership_of_def Let_def split: if_splits)
  from missing_of_absent [OF this assms(2)] show ?thesis using row by auto
qed

lemma settled_id [simp]: "wanted_id (settled_row env as r) = wanted_id r"
  by (simp add: settled_row_def split: option.split)

text \<open>A table in which one row is replaced.\<close>

definition put_item :: "wanted_item \<Rightarrow> wanted_table \<Rightarrow> wanted_table" where
  "put_item r rs = map (\<lambda>x. if wanted_id x = wanted_id r then r else x) rs"

lemma move_puts:
  assumes ok: "distinct (map wanted_id rs)" and r: "r \<in> set rs" "wanted_id r = i" and f: "wanted_id (f r) = i"
  shows "snd (move i P f rs) = (if P r then put_item (f r) rs else rs)"
proof -
  have "x = r" if "x \<in> set rs" "wanted_id x = i" for x using keyed_unique [OF ok that(1) r(1)] that(2) r(2) by simp
  note only = this
  show ?thesis
  proof (cases "P r")
    case True
    then show ?thesis using only f by (auto simp: move_def sql_update_def put_item_def intro!: map_cong)
  next
    case False
    then have "\<not> (wanted_id x = i \<and> P x)" if "x \<in> set rs" for x using only [OF that] by blast
    then show ?thesis using False by (simp add: move_def sql_update_none)
  qed
qed

lemma put_item_ids [simp]: "map wanted_id (put_item r rs) = map wanted_id rs"
  by (simp add: put_item_def)

lemma put_item_same: "distinct (map wanted_id rs) \<Longrightarrow> r \<in> set rs \<Longrightarrow> put_item r rs = rs"
  unfolding put_item_def by (rule map_idI) (auto dest: keyed_unique)

lemma put_item_append: "wanted_id r \<notin> wanted_id ` set new \<Longrightarrow> put_item r (rs @ new) = put_item r rs @ new"
  unfolding put_item_def map_append by (rule arg_cong, rule map_idI) (auto simp: image_iff)

lemma list_open_rows: "set (list_open_rows rs) = {r \<in> set rs. is_open r}"
  by (auto simp: list_open_rows_def list_grabbed_def list_searching_def list_available_def list_pending_def with_status_def
      is_open_def OPEN_WANTED_STATUSES_def)

lemma list_open_rows_distinct: "distinct (map wanted_id rs) \<Longrightarrow> distinct (map wanted_id (list_open_rows rs))"
proof -
  assume ok: "distinct (map wanted_id rs)"
  then have "distinct rs" "inj_on wanted_id (set rs)" by (simp_all add: distinct_map)
  moreover have "distinct (list_open_rows rs)"
    using calculation(1) by (auto simp: list_open_rows_def list_grabbed_def list_searching_def list_available_def list_pending_def with_status_def)
  ultimately show ?thesis unfolding distinct_map using inj_on_subset list_open_rows by (metis (no_types, lifting) mem_Collect_eq subsetI)
qed

text \<open>The rows a fallback adds.\<close>

definition added_episode :: "int \<Rightarrow> int \<Rightarrow> int \<Rightarrow> int list \<Rightarrow> wanted_item \<Rightarrow> bool" where
  "added_episode fid n t es r \<longleftrightarrow> requeued_episode t r \<and> followed_id r = Some fid \<and> season r = Some n \<and> (\<exists>e \<in> set es. episode r = Some e)"

lemma requeue_episode_adds: "\<exists>new. snd (requeue_episode ref fid n t e rs) = rs @ new \<and> (\<forall>r \<in> set new. added_episode fid n t [e] r)"
  by (cases "find_wanted (Some fid) EPISODE (Some n) (Some e) (Some OPEN_WANTED_STATUSES) rs")
    (auto simp: requeue_episode_def add_wanted_def added_episode_def requeued_episode_def fresh_item_def)

lemma requeue_episodes_adds:
  "\<exists>new. snd (requeue_episodes ref fid n t es rs) = rs @ new \<and> (\<forall>r \<in> set new. added_episode fid n t es r)"
proof (induction es arbitrary: rs)
  case (Cons e es)
  obtain new1 where one: "snd (requeue_episode ref fid n t e rs) = rs @ new1" "\<forall>r \<in> set new1. added_episode fid n t [e] r"
    using requeue_episode_adds by blast
  obtain new where "snd (requeue_episodes ref fid n t es (rs @ new1)) = (rs @ new1) @ new" "\<forall>r \<in> set new. added_episode fid n t es r"
    using Cons by blast
  then show ?case using one by (intro exI [of _ "new1 @ new"]) (auto simp: Let_def case_prod_beta added_episode_def)
qed simp

lemma fall_back_rows:
  assumes "wanted_ok (wanted s)" and "row \<in> set (wanted s)" "wanted_kind row = SEASON" "is_open row"
  shows "\<exists>new. wanted (snd (fall_back_to_episodes row fid n t (Some es) s)) = put_item (row\<lparr>wanted_status := FALLBACK_EPISODES\<rparr>) (wanted s) @ new
    \<and> (\<forall>r \<in> set new. added_episode fid n t es r) \<and> aired (snd (fall_back_to_episodes row fid n t (Some es) s)) = aired s"
proof -
  let ?rs = "snd (requeue_episodes (media_ref row) fid n t (sort (remdups es)) (wanted s))"
  obtain new where new: "?rs = wanted s @ new" "\<forall>r \<in> set new. added_episode fid n t (sort (remdups es)) r" using requeue_episodes_adds by blast
  have ok: "distinct (map wanted_id ?rs)" using requeue_episodes_ok [OF assms(1)] wanted_ok_distinct by blast
  have won: "fst (fallback_season (wanted_id row) ?rs)"
    using ok assms(2-4) new(1) by (auto simp: fallback_season_def move_def sql_count_keyed)
  have "snd (fallback_season (wanted_id row) ?rs) = put_item (row\<lparr>wanted_status := FALLBACK_EPISODES\<rparr>) ?rs"
    unfolding fallback_season_def using move_puts [OF ok, of row "wanted_id row" "\<lambda>r. r\<lparr>wanted_status := FALLBACK_EPISODES\<rparr>"] assms(2-4) new(1)
    by auto
  also have "\<dots> = put_item (row\<lparr>wanted_status := FALLBACK_EPISODES\<rparr>) (wanted s) @ new"
  proof -
    have "wanted_id row \<notin> wanted_id ` set new" using ok new(1) assms(2) by auto
    then show ?thesis unfolding new(1) by (simp add: put_item_append)
  qed
  finally have rows: "snd (fallback_season (wanted_id row) ?rs) = put_item (row\<lparr>wanted_status := FALLBACK_EPISODES\<rparr>) (wanted s) @ new" .
  have "\<forall>r \<in> set new. added_episode fid n t es r" using new(2) by (auto simp: added_episode_def)
  then show ?thesis using rows won by (auto simp: fall_back_to_episodes_def Let_def case_prod_beta emit_def)
qed

lemma record_grab_obligation_keeps:
  "wanted (snd (record_grab_obligation c eco sc t h s)) = wanted s" "aired (snd (record_grab_obligation c eco sc t h s)) = aired s"
  "marks (snd (record_grab_obligation c eco sc t h s)) = marks s" "effects (snd (record_grab_obligation c eco sc t h s)) = effects s"
  by (auto simp: record_grab_obligation_def Let_def split: option.split sum.split)

text \<open>One step: the row takes its settled form, and episodes may be added.\<close>

definition row_settled :: "sweep_env \<Rightarrow> int \<Rightarrow> wanted_item \<Rightarrow> acquire_db \<Rightarrow> acquire_db \<Rightarrow> bool" where
  "row_settled env t r s s' \<longleftrightarrow> aired s' = aired s \<and> wanted_ok (wanted s')
     \<and> (\<exists>new. wanted s' = put_item (settled_row env (aired s) r) (wanted s) @ new \<and> (\<forall>x \<in> set new. fallback_of env (aired s) t r x))"

lemma row_settled_move:
  assumes "wanted_ok (wanted s)" and "r \<in> set (wanted s)" and "wanted_id (f r) = wanted_id r"
    and "P r" and "settled_row env (aired s) r = f r" and "wanted_ok (snd (move (wanted_id r) P f (wanted s)))"
    and "wanted s' = snd (move (wanted_id r) P f (wanted s))" "aired s' = aired s"
  shows "row_settled env t r s s'"
  using assms move_puts [OF wanted_ok_distinct [OF assms(1)] assms(2) refl, of f P]
  by (auto simp: row_settled_def intro!: exI [of _ "[]"])

lemma row_settled_same:
  assumes "wanted_ok (wanted s)" "r \<in> set (wanted s)" "settled_row env (aired s) r = r" "wanted s' = wanted s" "aired s' = aired s"
  shows "row_settled env t r s s'"
  using assms put_item_same [OF wanted_ok_distinct] by (auto simp: row_settled_def intro!: exI [of _ "[]"])

lemma reconcile_row_settles:
  assumes ok: "wanted_ok (wanted s)" and r: "r \<in> set (wanted s)" "is_open r"
  shows "row_settled env t r s (snd (reconcile_row env t r (rep, s)))"
proof -
  consider (owned) "in_library (library_owns env) (aired s) r"
    | (bare) "\<not> in_library (library_owns env) (aired s) r" "row_hash r = []"
    | (landed) "\<not> in_library (library_owns env) (aired s) r" "row_hash r \<noteq> []" "landed_incomplete env (aired s) r"
    | (flying) "\<not> in_library (library_owns env) (aired s) r" "row_hash r \<noteq> []" "\<not> landed_incomplete env (aired s) r"
    by blast
  then show ?thesis
  proof cases
    case owned
    show ?thesis
    proof (rule row_settled_move [OF ok r(1), where P = is_open and f = "\<lambda>r. r\<lparr>wanted_status := DONE\<rparr>"])
      show "wanted_ok (snd (move (wanted_id r) is_open (\<lambda>r. r\<lparr>wanted_status := DONE\<rparr>) (wanted s)))"
        using wanted_ok_statements(8) [OF ok] by (simp add: mark_done_def)
    qed (use owned r in \<open>auto simp: settled_row_def reconcile_row_def close_owned_def mark_done_def Let_def case_prod_beta\<close>)
  next
    case bare
    then show ?thesis using ok r by (intro row_settled_same) (auto simp: settled_row_def reconcile_row_def)
  next
    case landed
    have kind: "wanted_kind r = SEASON" using landed(3) by (simp add: landed_incomplete_def Let_def)
    obtain ms where ms: "season_missing (season_ownership_of (library_owns env) (aired s) r) = Some ms" "ms \<noteq> []"
      using landed(3) by (auto simp: landed_incomplete_def Let_def)
    obtain fid n where row: "followed_id r = Some fid" "season r = Some n"
      using season_misses [OF ms(1), of "hd ms"] ms(2) by auto
    define s' where "s' = snd (fall_back_to_episodes r (the (followed_id r)) (the (season r)) t
        (season_missing (season_ownership_of (library_owns env) (aired s) r)) s)"
    have "wanted_ok (wanted s')" unfolding s'_def by (rule fall_back_ok [OF ok])
    moreover obtain new where "wanted s' = put_item (r\<lparr>wanted_status := FALLBACK_EPISODES\<rparr>) (wanted s) @ new"
        "\<forall>x \<in> set new. added_episode fid n t ms x" "aired s' = aired s"
      using fall_back_rows [OF ok r(1) kind r(2)] unfolding s'_def ms(1) row option.sel by blast
    moreover have "fallback_of env (aired s) t r x" if "added_episode fid n t ms x" for x
      using that ms(1) row landed(3) r(2) by (auto simp: fallback_of_def added_episode_def)
    moreover have "snd (reconcile_row env t r (rep, s)) = s'"
      using landed by (simp add: reconcile_row_def fall_back_landed_def Let_def case_prod_beta s'_def)
    moreover have "settled_row env (aired s) r = r\<lparr>wanted_status := FALLBACK_EPISODES\<rparr>" using landed r by (simp add: settled_row_def)
    ultimately show ?thesis by (auto simp: row_settled_def)
  next
    case flying
    have hash: "grabbed_hash r \<noteq> None" using flying(2) by (auto simp: row_hash_def split: option.splits)
    show ?thesis
    proof (cases "client_items env")
      case None
      then show ?thesis using ok r flying by (intro row_settled_same) (auto simp: settled_row_def reconcile_row_def in_flight_def Let_def)
    next
      case (Some items)
      consider (foreign) "row_hash r \<in> foreign env" | (vanished) "row_hash r \<notin> foreign env" "items (row_hash r) = None"
        | (found) "row_hash r \<notin> foreign env" "items (row_hash r) \<noteq> None" "wanted_status r = SEARCHING"
        | (kept) "row_hash r \<notin> foreign env" "items (row_hash r) \<noteq> None" "wanted_status r \<noteq> SEARCHING" by blast
      then show ?thesis
      proof cases
        case vanished
        show ?thesis
        proof (rule row_settled_move [OF ok r(1), where P = "\<lambda>r. is_open r \<and> grabbed_hash r \<noteq> None" and f = "\<lambda>r. r\<lparr>wanted_status := PENDING, grabbed_hash := None\<rparr>"])
          show "wanted_ok (snd (move (wanted_id r) (\<lambda>r. is_open r \<and> grabbed_hash r \<noteq> None)
              (\<lambda>r. r\<lparr>wanted_status := PENDING, grabbed_hash := None\<rparr>) (wanted s)))"
            using wanted_ok_statements(9) [OF ok] by (simp add: requeue_missing_def)
        qed (use vanished flying Some r hash in \<open>auto simp: settled_row_def reconcile_row_def requeue_vanished_def requeue_missing_def Let_def case_prod_beta\<close>)
      next
        case found
        show ?thesis
        proof (rule row_settled_move [OF ok r(1), where P = "\<lambda>r. wanted_status r = SEARCHING \<and> grabbed_hash r \<noteq> None" and f = "\<lambda>x. x\<lparr>wanted_status := GRABBED, grabbed_hash := Some (row_hash r)\<rparr>"])
          show "wanted_ok (snd (move (wanted_id r) (\<lambda>r. wanted_status r = SEARCHING \<and> grabbed_hash r \<noteq> None)
              (\<lambda>x. x\<lparr>wanted_status := GRABBED, grabbed_hash := Some (row_hash r)\<rparr>) (wanted s)))"
            using wanted_ok_statements(6) [OF ok] by (simp add: confirm_grab_intent_def)
        qed (use found flying Some r hash in \<open>auto simp: settled_row_def reconcile_row_def confirm_found_def confirm_grab_intent_def Let_def case_prod_beta
              record_grab_obligation_keeps split: option.split\<close>)
      qed (use Some ok r flying in \<open>(intro row_settled_same; auto simp: settled_row_def reconcile_row_def in_flight_def Let_def)+\<close>)
    qed
  qed
qed

subsection \<open>A whole sweep\<close>

lemma reconcile_rows:
  assumes "wanted_ok (wanted s)" and "distinct (map wanted_id xs)" and "\<forall>r \<in> set xs. r \<in> set (wanted s) \<and> is_open r"
  shows "aired (snd (fold (reconcile_row env t) xs (rep, s))) = aired s \<and> wanted_ok (wanted (snd (fold (reconcile_row env t) xs (rep, s))))
    \<and> (\<exists>new. wanted (snd (fold (reconcile_row env t) xs (rep, s))) =
        map (\<lambda>r. if r \<in> set xs then settled_row env (aired s) r else r) (wanted s) @ new
        \<and> (\<forall>x \<in> set new. \<exists>r \<in> set xs. fallback_of env (aired s) t r x))"
  using assms
proof (induction xs arbitrary: rep s)
  case Nil
  then show ?case by simp
next
  case (Cons x xs)
  obtain rep1 s1 where one: "reconcile_row env t x (rep, s) = (rep1, s1)" by fastforce
  have ids: "distinct (map wanted_id (wanted s))" using wanted_ok_distinct [OF Cons.prems(1)] .
  obtain new1 where s1: "aired s1 = aired s" "wanted_ok (wanted s1)" "wanted s1 = put_item (settled_row env (aired s) x) (wanted s) @ new1"
      "\<forall>r \<in> set new1. fallback_of env (aired s) t x r"
    using reconcile_row_settles [OF Cons.prems(1), of x env t rep] Cons.prems(3) one by (auto simp: row_settled_def)
  have other: "wanted_id r \<noteq> wanted_id x" if "r \<in> set xs" for r using Cons.prems(2) that by (auto simp: image_iff)
  have "r \<in> set (wanted s1)" if "r \<in> set xs" for r
    using other [OF that] Cons.prems(3) that by (auto simp: s1(3) put_item_def intro!: image_eqI [of _ _ r])
  then have rows: "\<forall>r \<in> set xs. r \<in> set (wanted s1) \<and> is_open r" using Cons.prems(3) by auto
  from Cons.IH [OF s1(2) _ rows, of rep1] Cons.prems(2)
  obtain new where IH: "aired (snd (fold (reconcile_row env t) xs (rep1, s1))) = aired s1"
      "wanted_ok (wanted (snd (fold (reconcile_row env t) xs (rep1, s1))))"
      "wanted (snd (fold (reconcile_row env t) xs (rep1, s1))) = map (\<lambda>r. if r \<in> set xs then settled_row env (aired s1) r else r) (wanted s1) @ new"
      "\<forall>y \<in> set new. \<exists>r \<in> set xs. fallback_of env (aired s1) t r y" by auto
  have fresh: "r \<notin> set xs" if "r \<in> set new1" for r
  proof
    assume "r \<in> set xs"
    then have "r \<in> set (wanted s)" using Cons.prems(3) by auto
    then have "wanted_id r \<in> set (map wanted_id (put_item (settled_row env (aired s) x) (wanted s)))" by simp
    then show False using wanted_ok_distinct [OF s1(2)] that by (auto simp: s1(3))
  qed
  have step: "(if r' \<in> set xs then settled_row env (aired s) r' else r') = (if r \<in> set (x # xs) then settled_row env (aired s) r else r)"
    if "r \<in> set (wanted s)" "r' = (if wanted_id r = wanted_id (settled_row env (aired s) x) then settled_row env (aired s) x else r)" for r r'
  proof (cases "r = x")
    case True
    then have "r' \<notin> set xs" using that(2) other by (metis settled_id)
    then show ?thesis using True that(2) by simp
  next
    case False
    then have "wanted_id r \<noteq> wanted_id x" using keyed_unique [OF ids that(1)] Cons.prems(3) by auto
    then show ?thesis using that(2) False by simp
  qed
  have "map (\<lambda>r. if r \<in> set xs then settled_row env (aired s1) r else r) (wanted s1)
      = map (\<lambda>r. if r \<in> set (x # xs) then settled_row env (aired s) r else r) (wanted s) @ new1"
    unfolding s1(1,3) map_append put_item_def map_map
    by (intro arg_cong2 [where f = append] map_cong map_idI refl) (use step fresh in \<open>auto simp: comp_def simp del: settled_id\<close>)
  then show ?case using IH s1(1,4) one by auto
qed

lemma announce_keeps:
  "wanted (announce_if ws e) = wanted (snd ws)" "aired (announce_if ws e) = aired (snd ws)" "seeds (announce_if ws e) = seeds (snd ws)"
  "wanted (snd (on_marks f s)) = wanted s" "aired (snd (on_marks f s)) = aired s" "seeds (snd (on_marks f s)) = seeds s"
  by (simp_all add: announce_if_def emit_def on_marks_def case_prod_beta)

lemma emit_for_row_keeps:
  "wanted (emit_for_row fs items row s) = wanted s \<and> aired (emit_for_row fs items row s) = aired s \<and> seeds (emit_for_row fs items row s) = seeds s"
  by (simp add: emit_for_row_def emit_started_def emit_progress_def Let_def announce_keeps split: option.split)

lemma emit_events_keep:
  "wanted (emit_download_events items s) = wanted s \<and> aired (emit_download_events items s) = aired s \<and> seeds (emit_download_events items s) = seeds s"
proof -
  have "wanted (fold (emit_for_row fs items) rows s) = wanted s \<and> aired (fold (emit_for_row fs items) rows s) = aired s
      \<and> seeds (fold (emit_for_row fs items) rows s) = seeds s" for fs rows
    by (induction rows arbitrary: s) (simp_all add: emit_for_row_keeps)
  then show ?thesis by (simp add: emit_download_events_def)
qed

lemma reconcile_wanted_rows:
  assumes "wanted_ok (wanted s)"
  shows "aired (snd (reconcile_wanted env t s)) = aired s \<and> wanted_ok (wanted (snd (reconcile_wanted env t s)))
    \<and> (\<exists>new. wanted (snd (reconcile_wanted env t s)) = map (settled_row env (aired s)) (wanted s) @ new
        \<and> (\<forall>x \<in> set new. \<exists>r \<in> set (wanted s). fallback_of env (aired s) t r x))"
proof -
  let ?xs = "list_open_rows (wanted s)"
  obtain rep s1 where fold: "fold (reconcile_row env t) ?xs (empty_summary, s) = (rep, s1)" by fastforce
  have end_state: "wanted (snd (reconcile_wanted env t s)) = wanted s1" "aired (snd (reconcile_wanted env t s)) = aired s1"
    by (simp_all add: reconcile_wanted_def fold prune_marks_def emit_events_keep Let_def split: option.split)
  have "distinct (map wanted_id ?xs)" "\<forall>r \<in> set ?xs. r \<in> set (wanted s) \<and> is_open r"
    using list_open_rows_distinct [OF wanted_ok_distinct [OF assms]] by (auto simp: list_open_rows)
  from reconcile_rows [OF assms this, of env t empty_summary]
  obtain new where "aired s1 = aired s" "wanted_ok (wanted s1)" "\<forall>x \<in> set new. \<exists>r \<in> set ?xs. fallback_of env (aired s) t r x"
      "wanted s1 = map (\<lambda>r. if r \<in> set ?xs then settled_row env (aired s) r else r) (wanted s) @ new"
    by (auto simp: fold)
  moreover have "map (\<lambda>r. if r \<in> set ?xs then settled_row env (aired s) r else r) (wanted s) = map (settled_row env (aired s)) (wanted s)"
    by (rule map_cong) (auto simp: list_open_rows settled_row_def)
  moreover have "r \<in> set ?xs \<Longrightarrow> r \<in> set (wanted s)" for r by (simp add: list_open_rows)
  ultimately show ?thesis unfolding end_state by (intro conjI exI [of _ new]) (simp_all, blast)
qed

text \<open>C29: a reconciliation settles each open row by itself, whatever the others: an item the library holds is done, a season
  pack that reached the library with holes gives way to its missing episodes, an item whose torrent is gone from the client
  is wanted again, an intent whose torrent the client has is a grab, and every other row is untouched.\<close>

theorem reconcile_is_row_by_row:
  assumes "wanted_ok (wanted s)"
  shows "\<exists>new. wanted (snd (reconcile_wanted env t s)) = map (settled_row env (aired s)) (wanted s) @ new
    \<and> (\<forall>r \<in> set new. requeued_episode t r) \<and> wanted_ok (wanted (snd (reconcile_wanted env t s)))"
  using reconcile_wanted_rows [OF assms, of env t] fallback_requeued by blast

lemma settled_open:
  assumes "is_open (settled_row env as r)" and "row_hash (settled_row env as r) \<noteq> []"
  shows "settled_row env as r = r \<and> (\<forall>items. client_items env = Some items \<longrightarrow> row_hash r \<in> foreign env
        \<or> items (row_hash r) \<noteq> None \<and> wanted_status r \<noteq> SEARCHING)
    \<or> settled_row env as r = r\<lparr>wanted_status := GRABBED, grabbed_hash := Some (row_hash r)\<rparr>
      \<and> (\<exists>items. client_items env = Some items \<and> items (row_hash r) \<noteq> None)"
proof -
  have closed: "is_open r" "\<not> in_library (library_owns env) as r" "row_hash r \<noteq> []" "\<not> landed_incomplete env as r"
    using assms by (auto simp: settled_row_def is_open_def OPEN_WANTED_STATUSES_def split: if_splits)
  have bare: "row_hash (r\<lparr>wanted_status := PENDING, grabbed_hash := None\<rparr>) = []" by (simp add: row_hash_def)
  show ?thesis
  proof (cases "client_items env")
    case None
    then show ?thesis using closed by (simp add: settled_row_def)
  next
    case (Some items)
    then show ?thesis using closed assms(2) bare by (simp add: settled_row_def split: if_splits)
  qed
qed

text \<open>What the library alone can make of a row: it is as it was, or done since the library holds it, or it gives way to its episodes
  since it landed with holes.\<close>

definition settled_by_library :: "sweep_env \<Rightarrow> aired_table \<Rightarrow> wanted_item \<Rightarrow> wanted_item \<Rightarrow> bool" where
  "settled_by_library env as r0 r \<longleftrightarrow> r = r0
     \<or> is_open r0 \<and> in_library (library_owns env) as r0 \<and> r = r0\<lparr>wanted_status := DONE\<rparr>
     \<or> is_open r0 \<and> landed_incomplete env as r0 \<and> r = r0\<lparr>wanted_status := FALLBACK_EPISODES\<rparr>"

text \<open>C13: after a reconciliation that could ask the client, no item waits for a torrent that is not there: an open row with
  a hash is a grab whose torrent the client has, or its torrent belongs to another instance; in particular a claim that
  carries the hash of an interrupted grab is settled. Without the client nothing is wanted again and nothing confirmed: every
  row of the table before keeps its state and its hash, but that it is done where the library holds it and gives way to its
  episodes where a season pack landed with holes; and the only rows that are new are those episodes.\<close>

theorem no_row_waits_for_a_lost_torrent:
  assumes "wanted_ok (wanted s)" and after: "after = set (wanted (snd (reconcile_wanted env t s)))"
  shows "(\<forall>items r. client_items env = Some items \<and> r \<in> after \<and> is_open r \<and> row_hash r \<noteq> [] \<longrightarrow>
      row_hash r \<in> foreign env \<or> (items (row_hash r) \<noteq> None \<and> wanted_status r = GRABBED))
    \<and> (client_items env = None \<longrightarrow>
        (\<forall>r0 \<in> set (wanted s). \<exists>r \<in> after. settled_by_library env (aired s) r0 r)
      \<and> (\<forall>r \<in> after. (\<exists>r0 \<in> set (wanted s). settled_by_library env (aired s) r0 r)
          \<or> wanted_id r \<notin> wanted_id ` set (wanted s) \<and> (\<exists>r0 \<in> set (wanted s). fallback_of env (aired s) t r0 r)))"
proof -
  from reconcile_wanted_rows [OF assms(1), of env t] obtain new where
    ok: "wanted_ok (wanted (snd (reconcile_wanted env t s)))" and
    rows: "wanted (snd (reconcile_wanted env t s)) = map (settled_row env (aired s)) (wanted s) @ new" and new: "\<forall>x \<in> set new. \<exists>r0 \<in> set (wanted s). fallback_of env (aired s) t r0 x" by blast
  have settled: "after = settled_row env (aired s) ` set (wanted s) \<union> set new" unfolding after rows by simp
  have "row_hash r \<in> foreign env \<or> (items (row_hash r) \<noteq> None \<and> wanted_status r = GRABBED)"
    if r: "client_items env = Some items" "r \<in> after" "is_open r" "row_hash r \<noteq> []" for items r
  proof -
    have "\<not> requeued_episode t r" using r(4) by (auto simp: requeued_episode_def row_hash_def)
    then obtain r0 where r0: "r0 \<in> set (wanted s)" "r = settled_row env (aired s) r0" using settled new fallback_requeued r(2) by blast
    have "wanted_status r0 \<in> {SEARCHING, GRABBED}" if "is_open r0" "row_hash r0 \<noteq> []"
      using that wanted_ok_clean [OF assms(1) r0(1)] by (auto simp: is_open_def OPEN_WANTED_STATUSES_def row_hash_def)
    moreover have "row_hash (r0\<lparr>wanted_status := GRABBED, grabbed_hash := Some (row_hash r0)\<rparr>) = row_hash r0"
        "row_hash (r0\<lparr>wanted_status := PENDING, grabbed_hash := None\<rparr>) = []"
      by (simp_all add: row_hash_def)
    ultimately show ?thesis using settled_open [of env "aired s" r0] r0 r by auto
  qed
  moreover have kept: "settled_by_library env (aired s) r0 (settled_row env (aired s) r0)" if "client_items env = None" for r0
    using that by (auto simp: settled_by_library_def settled_row_def)
  moreover have "wanted_id r \<notin> wanted_id ` set (wanted s)" if "r \<in> set new" for r
    using wanted_ok_distinct [OF ok] that unfolding rows by (auto simp: image_iff)
  ultimately show ?thesis unfolding settled using new by blast
qed

subsection \<open>A concrete sweep\<close>

definition sample_download :: torrent_item where
  "sample_download = \<lparr>torrent_hash = ''aa'', torrent_name = ''film'', torrent_size = 7, torrent_category = None, torrent_tags = [],
     torrent_ratio = 0, seeding_time = None, progress = 3 / 10, torrent_state = ''downloading'', error_reason = None, swarm_seeds = Some 3, added_on = Some 0\<rparr>"

definition sample_sweep :: sweep_env where
  "sample_sweep = \<lparr>library_owns = (\<lambda>_ _ _ _. Some False), journey = (\<lambda>_. None), client_items = Some [''aa'' \<mapsto> sample_download], foreign = {}, recorder = None\<rparr>"

definition sample_intent :: wanted_item where
  "sample_intent = sample_item\<lparr>wanted_status := SEARCHING, grabbed_hash := Some ''aa''\<rparr>"

definition sample_intent_db :: acquire_db where
  "sample_intent_db = sample_db\<lparr>wanted := [sample_intent]\<rparr>"

lemma sample_intent_ok: "wanted_ok (wanted sample_intent_db)"
  by (simp add: sample_intent_db_def wanted_ok_def one_open_def claimable_rows_clean_def sample_intent_def sample_item_def fresh_item_def)

lemma sample_aa [simp]: "lower ''aa'' = ''aa''"
  by (simp add: lower_def is_upper_def)

lemma sample_settled: "settled_row sample_sweep [] sample_intent = sample_intent\<lparr>wanted_status := GRABBED\<rparr>"
  by (simp add: settled_row_def sample_intent_def sample_item_def fresh_item_def sample_sweep_def is_open_def OPEN_WANTED_STATUSES_def in_library_def
      row_hash_def landed_incomplete_def Let_def)

lemma reconcile_is_row_by_row_witness:
  "\<exists>new. wanted (snd (reconcile_wanted sample_sweep 5 sample_intent_db)) = sample_intent\<lparr>wanted_status := GRABBED\<rparr> # new"
proof -
  have "map (settled_row sample_sweep (aired sample_intent_db)) (wanted sample_intent_db) = [sample_intent\<lparr>wanted_status := GRABBED\<rparr>]"
    by (simp add: sample_intent_db_def sample_db_def sample_settled)
  then show ?thesis using reconcile_is_row_by_row [OF sample_intent_ok, of sample_sweep 5] by auto
qed

lemma no_row_waits_for_a_lost_torrent_witness:
  "sample_intent\<lparr>wanted_status := GRABBED\<rparr> \<in> set (wanted (snd (reconcile_wanted sample_sweep 5 sample_intent_db)))
    \<and> [''aa'' \<mapsto> sample_download] (row_hash (sample_intent\<lparr>wanted_status := GRABBED\<rparr>)) \<noteq> None"
proof -
  let ?r = "sample_intent\<lparr>wanted_status := GRABBED\<rparr>"
  have there: "?r \<in> set (wanted (snd (reconcile_wanted sample_sweep 5 sample_intent_db)))"
    using reconcile_wanted_rows [OF sample_intent_ok, of sample_sweep 5] sample_settled by (auto simp: sample_intent_db_def sample_db_def)
  have "is_open ?r" "row_hash ?r \<noteq> []" "client_items sample_sweep = Some [''aa'' \<mapsto> sample_download]" "foreign sample_sweep = {}"
    by (simp_all add: is_open_def OPEN_WANTED_STATUSES_def row_hash_def sample_intent_def sample_sweep_def)
  then show ?thesis
    using conjunct1 [OF no_row_waits_for_a_lost_torrent [OF sample_intent_ok refl, of sample_sweep 5], rule_format, of "[''aa'' \<mapsto> sample_download]" ?r] there
    by (metis empty_iff)
qed

end
