(* ===== verification/Reswitch_Facts.thy ===== *)
theory Reswitch_Facts
  imports Reconcile_Facts Grab_Facts
begin

text \<open>
  What a switch to another release leaves: a row whose download is dead is wanted again, with the hash of the dead release
  among those never taken again.
\<close>

subsection \<open>The list of tried hashes\<close>

lemma set_first_seen: "set (first_seen seen hs) = set seen \<union> set hs"
  by (induction hs arbitrary: seen) auto

lemma distinct_first_seen: "distinct seen \<Longrightarrow> distinct (first_seen seen hs)"
  by (induction hs arbitrary: seen) auto

text \<open>C31: what is read of the tried hashes, whatever the column holds, is a list of lower-case texts, none empty, each once.\<close>

theorem tried_hashes_are_clean:
  "distinct (list_tried_hashes i rs) \<and> list_all (\<lambda>h. h \<noteq> [] \<and> lower h = h) (list_tried_hashes i rs)"
proof -
  have "distinct (decode_tried_hashes js) \<and> list_all (\<lambda>h. h \<noteq> [] \<and> lower h = h) (decode_tried_hashes js)" for js
    by (cases js rule: decode_tried_hashes.cases) (auto simp: distinct_first_seen list_all_iff set_first_seen)
  then show ?thesis by (simp add: list_tried_hashes_def split: option.split)
qed

lemma tried_texts: "List.map_filter text_of (map JStr hs) = hs"
  by (induction hs) (auto simp: map_filter_simps)

lemma set_decode_dump: "set (decode_tried_hashes (Some (dump_texts hs))) = lower ` {h \<in> set hs. h \<noteq> []}"
  by (auto simp: dump_texts_def tried_texts set_first_seen)

subsection \<open>The switch\<close>

definition switched_row :: "string \<Rightarrow> wanted_item \<Rightarrow> wanted_item \<Rightarrow> bool" where
  "switched_row h r r' \<longleftrightarrow> wanted_status r' = PENDING \<and> grabbed_hash r' = None
     \<and> insert (lower (strip h)) (set (decode_tried_hashes (tried_hashes_json r))) - {[]} \<subseteq> set (decode_tried_hashes (tried_hashes_json r'))"

lemma requeue_for_reswitch_row:
  assumes ok: "wanted_ok rs" and r: "r \<in> set rs" "is_open r" "grabbed_hash r = Some h"
  shows "\<exists>r'. wanted_id r' = wanted_id r \<and> switched_row h r r' \<and> snd (requeue_for_reswitch (wanted_id r) h t rs) = put_item r' rs"
proof -
  define old where "old = decode_tried_hashes (tried_hashes_json r)"
  define merged where "merged = (if lower (strip h) = [] \<or> lower (strip h) \<in> set old then old else old @ [lower (strip h)])"
  define f where "f = (\<lambda>r :: wanted_item. r\<lparr>wanted_status := PENDING, grabbed_hash := None, tried_hashes_json := Some (dump_texts merged),
    enqueued_at := t, attempts := 0, last_search_at := None, last_search_outcome := None, last_search_found := None\<rparr>)"
  have get: "get_wanted (wanted_id r) rs = Some r"
    unfolding get_wanted_def using sql_first_keyed [OF wanted_ok_distinct [OF ok]] r(1) by blast
  have tried: "list_tried_hashes (wanted_id r) rs = old" by (simp only: list_tried_hashes_def get option.simps old_def)
  have "requeue_for_reswitch (wanted_id r) h t rs = move (wanted_id r) (\<lambda>r. is_open r \<and> grabbed_hash r \<noteq> None) f rs"
    unfolding requeue_for_reswitch_def Let_def tried merged_def [symmetric] f_def by (simp only: get option.simps if_False)
  then have put: "snd (requeue_for_reswitch (wanted_id r) h t rs) = put_item (f r) rs"
    using move_puts [OF wanted_ok_distinct [OF ok] r(1) refl, of f "\<lambda>r. is_open r \<and> grabbed_hash r \<noteq> None"] r(2,3) by (simp add: f_def)
  have clean: "lower h' = h'" if "h' \<in> set old" for h'
    using that unfolding old_def by (cases "tried_hashes_json r" rule: decode_tried_hashes.cases) (auto simp: set_first_seen)
  have "x \<in> set (decode_tried_hashes (Some (dump_texts merged)))" if "x \<in> insert (lower (strip h)) (set old) - {[]}" for x
  proof -
    have "x \<in> set merged" "x \<noteq> []" using that by (auto simp: merged_def)
    moreover have "lower x = x" using that clean by auto
    ultimately show ?thesis unfolding set_decode_dump by (metis (mono_tags, lifting) image_eqI mem_Collect_eq)
  qed
  then have "switched_row h r (f r)" unfolding switched_row_def old_def [symmetric] by (auto simp: f_def simp del: decode_tried_hashes.simps)
  then show ?thesis using put by (intro exI [of _ "f r"]) (simp add: f_def)
qed

text \<open>The rows of a table after a switch: each as it was, or switched because its download was dead.\<close>

definition reswitched :: "(string \<rightharpoonup> torrent_item) \<Rightarrow> real \<Rightarrow> real \<Rightarrow> wanted_table \<Rightarrow> wanted_table \<Rightarrow> bool" where
  "reswitched by_hash t dead_after rs rs' \<longleftrightarrow> map wanted_id rs' = map wanted_id rs \<and>
     (\<forall>r' \<in> set rs'. r' \<in> set rs \<or> (\<exists>r \<in> set rs. \<exists>h x. wanted_id r' = wanted_id r \<and> wanted_status r = GRABBED \<and> grabbed_hash r = Some h
        \<and> by_hash (lower h) = Some x \<and> classify_stall x (grabbed_age x r t) dead_after = STALLED_DEAD \<and> switched_row h r r'))"

lemma reswitched_trans:
  assumes "reswitched by_hash t dead_after rs rs'" and "reswitched by_hash t dead_after rs' rs''"
  shows "reswitched by_hash t dead_after rs rs''"
proof -
  have "r \<in> set rs" if "r \<in> set rs'" "wanted_status r = GRABBED" for r
    using assms(1) that by (auto simp: reswitched_def switched_row_def)
  then show ?thesis using assms unfolding reswitched_def by metis
qed

lemma reswitch_rows:
  assumes "wanted_ok (wanted s)" and "distinct (map wanted_id xs)" and "\<forall>r \<in> set xs. r \<in> set (wanted s) \<and> wanted_status r = GRABBED"
  shows "wanted_ok (wanted (snd (fold (reswitch_row by_hash t dead_after) xs (n, s))))
    \<and> reswitched by_hash t dead_after (wanted s) (wanted (snd (fold (reswitch_row by_hash t dead_after) xs (n, s))))"
  using assms
proof (induction xs arbitrary: n s)
  case Nil
  then show ?case by (simp add: reswitched_def)
next
  case (Cons r xs)
  obtain n1 s1 where one: "reswitch_row by_hash t dead_after r (n, s) = (n1, s1)" by fastforce
  have open_: "is_open r" "r \<in> set (wanted s)" "wanted_status r = GRABBED" using Cons.prems(3) by (auto simp: is_open_def OPEN_WANTED_STATUSES_def)
  have ids: "wanted_id x \<noteq> wanted_id r" if "x \<in> set xs" for x using Cons.prems(2) that by (auto simp: image_iff)
  have step: "wanted s1 = wanted s \<or> (\<exists>r' h x. wanted_id r' = wanted_id r \<and> wanted s1 = put_item r' (wanted s) \<and> wanted_ok (wanted s1) \<and> grabbed_hash r = Some h
      \<and> by_hash (lower h) = Some x \<and> classify_stall x (grabbed_age x r t) dead_after = STALLED_DEAD \<and> switched_row h r r')"
  proof (cases "\<exists>h x. grabbed_hash r = Some h \<and> by_hash (lower h) = Some x \<and> classify_stall x (grabbed_age x r t) dead_after = STALLED_DEAD")
    case True
    then obtain h x where dead: "grabbed_hash r = Some h" "by_hash (lower h) = Some x" "classify_stall x (grabbed_age x r t) dead_after = STALLED_DEAD" by blast
    have "wanted s1 = snd (requeue_for_reswitch (wanted_id r) h \<lfloor>t\<rfloor> (wanted s))"
      using one dead by (auto simp: reswitch_row_def Let_def case_prod_beta emit_def split: prod.splits if_splits)
    then show ?thesis using requeue_for_reswitch_row [OF Cons.prems(1) open_(2,1) dead(1)] wanted_ok_statements(10) [OF Cons.prems(1)] dead by metis
  next
    case False
    then show ?thesis using one by (auto simp: reswitch_row_def split: option.splits prod.splits if_splits)
  qed
  then have ok1: "wanted_ok (wanted s1)" using Cons.prems(1) by auto
  have kept: "x \<in> set (wanted s1)" if "x \<in> set xs" for x
    using step ids [OF that] Cons.prems(3) that by (auto simp: put_item_def intro!: image_eqI [of _ _ x])
  from Cons.IH [OF ok1] Cons.prems(2,3) kept
  have IH: "wanted_ok (wanted (snd (fold (reswitch_row by_hash t dead_after) xs (n1, s1))))"
      "reswitched by_hash t dead_after (wanted s1) (wanted (snd (fold (reswitch_row by_hash t dead_after) xs (n1, s1))))" by auto
  have first: "reswitched by_hash t dead_after (wanted s) (wanted s1)"
    using step open_ by (auto simp: reswitched_def put_item_def)
  have "reswitched by_hash t dead_after (wanted s) (wanted (snd (fold (reswitch_row by_hash t dead_after) xs (n1, s1))))"
    using reswitched_trans first IH(2) .
  then show ?case using IH one by simp
qed

lemma list_grabbed_rows: "set (list_grabbed rs) = {r \<in> set rs. wanted_status r = GRABBED}"
  by (auto simp: list_grabbed_def with_status_def)

lemma list_grabbed_distinct: "distinct (map wanted_id rs) \<Longrightarrow> distinct (map wanted_id (list_grabbed rs))"
  using list_open_rows_distinct [of rs] by (simp add: list_open_rows_def)

text \<open>The hashes the client is asked for, and the torrent it answered for one.\<close>

definition asked_hashes :: "wanted_table \<Rightarrow> string set" where
  "asked_hashes rs = {lower h | r h. r \<in> set rs \<and> wanted_status r = GRABBED \<and> grabbed_hash r = Some h \<and> h \<noteq> []}"

lemma asked_hashes: "set (map lower (filter (\<lambda>h. h \<noteq> []) (List.map_filter grabbed_hash (list_grabbed rs)))) = asked_hashes rs"
proof -
  have "set (List.map_filter grabbed_hash xs) = {h. \<exists>r \<in> set xs. grabbed_hash r = Some h}" for xs :: wanted_table
    by (induction xs) (auto simp: map_filter_simps split: option.split)
  then show ?thesis by (auto simp: asked_hashes_def list_grabbed_rows)
qed

definition answered :: "(string set \<Rightarrow> api_raise + torrent_item list) \<Rightarrow> torrent_scope option \<Rightarrow> wanted_table \<Rightarrow> string \<Rightarrow> torrent_item \<Rightarrow> bool" where
  "answered ask sc rs h x \<longleftrightarrow> (\<exists>items. ask (asked_hashes rs) = Inr items \<and> by_hash_of (fst (lookup_scoped items sc)) (lower h) = Some x)"

lemma reswitch_stalled_rows:
  assumes "wanted_ok (wanted s)"
  shows "wanted_ok (wanted (snd (reswitch_stalled ask sc t dead_after s)))
    \<and> (\<exists>by_hash. (\<forall>h x. by_hash (lower h) = Some x \<longrightarrow> answered ask sc (wanted s) h x)
        \<and> reswitched by_hash t dead_after (wanted s) (wanted (snd (reswitch_stalled ask sc t dead_after s))))"
proof (cases "snd (reswitch_stalled ask sc t dead_after s) = s")
  case True
  then show ?thesis using assms by (auto simp: reswitched_def intro!: exI [of _ Map.empty])
next
  case False
  then obtain items where items: "ask (asked_hashes (wanted s)) = Inr items"
    and s': "snd (reswitch_stalled ask sc t dead_after s)
      = snd (fold (reswitch_row (by_hash_of (fst (lookup_scoped items sc))) t dead_after) (list_grabbed (wanted s)) ((0, 0), s))"
    unfolding reswitch_stalled_def Let_def asked_hashes by (auto split: if_splits sum.splits)
  let ?by_hash = "by_hash_of (fst (lookup_scoped items sc))"
  have "\<forall>h x. ?by_hash (lower h) = Some x \<longrightarrow> answered ask sc (wanted s) h x" using items by (auto simp: answered_def)
  moreover have "wanted_ok (wanted (snd (fold (reswitch_row ?by_hash t dead_after) (list_grabbed (wanted s)) ((0, 0), s))))
      \<and> reswitched ?by_hash t dead_after (wanted s) (wanted (snd (fold (reswitch_row ?by_hash t dead_after) (list_grabbed (wanted s)) ((0, 0), s))))"
    using reswitch_rows [OF assms list_grabbed_distinct [OF wanted_ok_distinct [OF assms]], of ?by_hash t dead_after "(0, 0)"]
    by (auto simp: list_grabbed_rows)
  ultimately show ?thesis unfolding s' by blast
qed

text \<open>C30: a release whose download is given up is never taken again for that item: the row a switch changed was a grab, and the torrent
  the client answered for its hash is dead by its state, its swarm and the age of the grab; it is wanted again with the hash
  among its tried ones, and no grab that excludes them chooses a release that names this hash.\<close>

theorem switched_release_is_not_taken_again:
  assumes "wanted_ok (wanted s)" and "s' = snd (reswitch_stalled ask sc t dead_after s)"
    and "r \<in> set (wanted s)" and "grabbed_hash r = Some h" "strip h = h" "h \<noteq> []"
    and "r' \<in> set (wanted s')" "wanted_id r' = wanted_id r" "r' \<noteq> r"
    and "fst (grab oc on_intent item profile (set (list_tried_hashes (wanted_id r) (wanted s'))) s'') = Inr out" "grab_disposition out = SUCCESS"
  shows "wanted_status r = GRABBED \<and> wanted_status r' = PENDING
    \<and> (\<exists>x. answered ask sc (wanted s) h x \<and> classify_stall x (grabbed_age x r t) dead_after = STALLED_DEAD)
    \<and> (\<forall>c x. grab_chosen out = Some c \<and> info_hash c = Some x \<longrightarrow> lower x \<noteq> lower h)"
proof -
  obtain by_hash where ok: "wanted_ok (wanted s')" and rows: "reswitched by_hash t dead_after (wanted s) (wanted s')"
    and there: "\<And>h x. by_hash (lower h) = Some x \<Longrightarrow> answered ask sc (wanted s) h x"
    using reswitch_stalled_rows [OF assms(1)] assms(2) by blast
  have "r' \<notin> set (wanted s)" using keyed_unique [OF wanted_ok_distinct [OF assms(1)] _ assms(3)] assms(8,9) by blast
  then obtain r0 h0 x where r0: "r0 \<in> set (wanted s)" "wanted_id r' = wanted_id r0" "grabbed_hash r0 = Some h0"
      "wanted_status r0 = GRABBED" "by_hash (lower h0) = Some x" "classify_stall x (grabbed_age x r0 t) dead_after = STALLED_DEAD" "switched_row h0 r0 r'"
    using rows assms(7) unfolding reswitched_def by blast
  have "r0 = r" using keyed_unique [OF wanted_ok_distinct [OF assms(1)] r0(1) assms(3)] r0(2) assms(8) by simp
  then have switched: "switched_row h r r'" and grab: "wanted_status r = GRABBED"
    and dead: "answered ask sc (wanted s) h x \<and> classify_stall x (grabbed_age x r t) dead_after = STALLED_DEAD"
    using r0 assms(4) there by auto
  have "get_wanted (wanted_id r) (wanted s') = Some r'"
    unfolding get_wanted_def using sql_first_keyed [OF wanted_ok_distinct [OF ok]] assms(7,8) by blast
  then have "lower h \<in> set (list_tried_hashes (wanted_id r) (wanted s'))"
    using switched assms(5,6) by (auto simp: list_tried_hashes_def switched_row_def simp del: decode_tried_hashes.simps)
  moreover obtain c where "grab_chosen out = Some c" "rankable (ranking_config oc) (set (list_tried_hashes (wanted_id r) (wanted s'))) c"
    using assms(10,11) by (rule grab_success_steps)
  ultimately show ?thesis using switched dead grab by (auto simp: switched_row_def rankable_def)
qed

subsection \<open>A sample\<close>

definition sample_dead_torrent :: torrent_item where
  "sample_dead_torrent = \<lparr>torrent_hash = ''dd'', torrent_name = ''film'', torrent_size = 7, torrent_category = None, torrent_tags = [],
     torrent_ratio = 0, seeding_time = None, progress = 0, torrent_state = ''stalleddl'', error_reason = None, swarm_seeds = Some 0, added_on = Some 0\<rparr>"

definition sample_grabbed :: wanted_item where
  "sample_grabbed = sample_item\<lparr>wanted_status := GRABBED, grabbed_hash := Some ''dd''\<rparr>"

definition sample_grabbed_db :: acquire_db where
  "sample_grabbed_db = sample_db\<lparr>wanted := [sample_grabbed]\<rparr>"

definition sample_switched :: wanted_item where
  "sample_switched = sample_grabbed\<lparr>wanted_status := PENDING, grabbed_hash := None, tried_hashes_json := Some (dump_texts [''dd'']), enqueued_at := 50\<rparr>"

lemma sample_grabbed_ok: "wanted_ok (wanted sample_grabbed_db)"
  by (simp add: sample_grabbed_db_def wanted_ok_def one_open_def claimable_rows_clean_def sample_grabbed_def)

lemma sample_reswitch: "wanted (snd (reswitch_stalled (\<lambda>_. Inr [sample_dead_torrent]) None 50 7200 sample_grabbed_db)) = [sample_switched]"
proof -
  have dd: "lower ''dd'' = ''dd''" "strip ''dd'' = ''dd''" "lower (strip ''stalleddl'') = ''stalleddl''"
    by (simp_all add: lower_def is_upper_def strip_def is_space_def)
  show ?thesis
    by (simp add: reswitch_stalled_def sample_grabbed_db_def sample_db_def sample_grabbed_def sample_item_def fresh_item_def list_grabbed_def with_status_def
        map_filter_simps lookup_scoped_def by_hash_of_def sample_dead_torrent_def reswitch_row_def classify_stall_def STALLED_STATES_def grabbed_age_def dd
        requeue_for_reswitch_def get_wanted_def list_tried_hashes_def move_def sql_count_def sql_update_def is_open_def OPEN_WANTED_STATUSES_def Let_def
        emit_def sample_switched_def)
qed

lemma switched_release_is_not_taken_again_witness:
  "\<exists>out c. fst (grab (sample_orchestrator (Some (Inr [sample_release ''a'' 2 ''aa'']))) (\<lambda>_ s. s) sample_item default_profile
       (set (list_tried_hashes 1 (wanted (snd (reswitch_stalled (\<lambda>_. Inr [sample_dead_torrent]) None 50 7200 sample_grabbed_db))))) sample_db) = Inr out
     \<and> grab_chosen out = Some c \<and> info_hash c = Some ''aa'' \<and> lower ''aa'' \<noteq> lower ''dd''"
proof -
  let ?s = "snd (reswitch_stalled (\<lambda>_. Inr [sample_dead_torrent]) None 50 7200 sample_grabbed_db)"
  have dd: "lower ''dd'' = ''dd''" by (simp add: lower_def is_upper_def)
  have "list_tried_hashes 1 (wanted ?s) = [''dd'']"
    unfolding sample_reswitch
    by (simp add: list_tried_hashes_def get_wanted_def sample_switched_def sample_grabbed_def sample_item_def dump_texts_def tried_texts dd map_filter_simps)
  then have "''aa'' \<notin> set (list_tried_hashes 1 (wanted ?s))" by simp
  then obtain out where out: "fst (grab (sample_orchestrator (Some (Inr [sample_release ''a'' 2 ''aa'']))) (\<lambda>_ s. s) sample_item default_profile
       (set (list_tried_hashes 1 (wanted ?s))) sample_db) = Inr out" "grab_disposition out = SUCCESS" "grab_chosen out = Some (sample_release ''a'' 2 ''aa'')"
    using sample_grab by blast
  have ids: "wanted_id sample_grabbed = 1" "wanted_id sample_switched = 1" by (simp_all add: sample_grabbed_def sample_switched_def sample_item_def)
  have "wanted_status sample_switched \<noteq> wanted_status sample_grabbed" by (simp add: sample_switched_def sample_grabbed_def)
  then have "sample_switched \<noteq> sample_grabbed" by metis
  then have rows: "sample_grabbed \<in> set (wanted sample_grabbed_db)" "grabbed_hash sample_grabbed = Some ''dd''" "strip ''dd'' = ''dd''" "''dd'' \<noteq> []"
      "sample_switched \<in> set (wanted ?s)" "wanted_id sample_switched = wanted_id sample_grabbed" "sample_switched \<noteq> sample_grabbed"
    unfolding sample_reswitch
    by (simp_all add: ids sample_grabbed_db_def) (simp_all add: sample_grabbed_def strip_def is_space_def)
  have "info_hash (sample_release ''a'' 2 ''aa'') = Some ''aa''" by (simp add: sample_release_def)
  with switched_release_is_not_taken_again [OF sample_grabbed_ok refl rows out(1) [folded ids(1)] out(2)] out show ?thesis by blast
qed

end
