(* ===== verification/Download_Facts.thy ===== *)
theory Download_Facts
  imports Reconcile_Facts
begin

text \<open>
  A download is announced once: while its torrent stays in flight, any number of sweeps announces its start and its end at
  most once each, its thresholds in increasing order, and nothing after its end.
\<close>

subsection \<open>The marks, hash by hash\<close>

lemma with_mark_ok: "marks_ok ms \<Longrightarrow> marks_ok (with_mark h ms)"
  by (auto simp: marks_ok_def with_mark_def fresh_mark_def)

lemma mark_of_hash [simp]: "mark_hash (mark_of h ms) = h"
  by (auto simp: mark_of_def fresh_mark_def split: option.split dest: sql_first_SomeD)

lemma mark_of_with_mark [simp]: "mark_of h' (with_mark h ms) = mark_of h' ms"
proof (cases "sql_first (\<lambda>m. mark_hash m = h') ms")
  case None
  then show ?thesis by (auto simp: mark_of_def with_mark_def sql_first_append fresh_mark_def)
next
  case (Some m)
  then show ?thesis by (simp add: mark_of_def with_mark_def sql_first_append)
qed

lemma mark_of_in: "mark_of h ms \<in> set (with_mark h ms)"
proof (cases "sql_first (\<lambda>m. mark_hash m = h) (with_mark h ms)")
  case None
  moreover have "\<exists>m \<in> set (with_mark h ms). mark_hash m = h" by (auto simp: with_mark_def fresh_mark_def)
  ultimately show ?thesis unfolding sql_first_None by blast
next
  case (Some m)
  then have "mark_of h (with_mark h ms) = m" "m \<in> set (with_mark h ms)" by (simp_all add: mark_of_def sql_first_SomeD)
  then show ?thesis by simp
qed

lemma mark_of_row: "marks_ok ms \<Longrightarrow> m \<in> set ms \<Longrightarrow> mark_of (mark_hash m) ms = m"
  using sql_first_keyed [of mark_hash ms "mark_hash m" m] by (simp add: marks_ok_def mark_of_def)

lemma get_mark_of: "(case get_mark h ms of None \<Rightarrow> fresh_mark (lower h) | Some m \<Rightarrow> m) = mark_of (lower h) ms"
  by (simp add: get_mark_def mark_of_def)

lemma claim_mark_of:
  assumes ok: "marks_ok ms" and f: "\<And>m. mark_hash (f m) = mark_hash m"
  shows "fst (claim_mark h P f ms) = P (mark_of h ms)" "marks_ok (snd (claim_mark h P f ms))"
    "mark_of h' (snd (claim_mark h P f ms)) = (if h' = h \<and> P (mark_of h ms) then f (mark_of h ms) else mark_of h' ms)"
proof -
  let ?ms = "with_mark h ms"
  have ok1: "distinct (map mark_hash ?ms)" using with_mark_ok [OF ok] by (simp add: marks_ok_def)
  have only: "m = mark_of h ms" if "m \<in> set ?ms" "mark_hash m = h" for m
    using keyed_unique [OF ok1 that(1) mark_of_in] that(2) by simp
  show "fst (claim_mark h P f ms) = P (mark_of h ms)"
  proof -
    have "(\<exists>m \<in> set ?ms. mark_hash m = h \<and> P m) \<longleftrightarrow> P (mark_of h ms)" using only mark_of_in [of h ms] by (metis mark_of_hash)
    then show ?thesis using sql_count_keyed [OF ok1, of h P] by (simp add: claim_mark_def Let_def)
  qed
  show "marks_ok (snd (claim_mark h P f ms))"
    using ok1 f by (simp add: claim_mark_def Let_def marks_ok_def distinct_sql_update)
  have "sql_first (\<lambda>m. mark_hash m = h') (sql_update (\<lambda>m. mark_hash m = h \<and> P m) f ?ms)
      = map_option (\<lambda>m. if mark_hash m = h \<and> P m then f m else m) (sql_first (\<lambda>m. mark_hash m = h') ?ms)"
    by (rule sql_first_update) (rule f)
  moreover have "sql_first (\<lambda>m. mark_hash m = h') (snd (claim_mark h P f ms)) = sql_first (\<lambda>m. mark_hash m = h') (sql_update (\<lambda>m. mark_hash m = h \<and> P m) f ?ms)"
    by (simp add: claim_mark_def Let_def)
  ultimately have look: "mark_of h' (snd (claim_mark h P f ms)) = (case sql_first (\<lambda>m. mark_hash m = h') ?ms of None \<Rightarrow> fresh_mark h'
      | Some m \<Rightarrow> if mark_hash m = h \<and> P m then f m else m)"
    by (simp add: mark_of_def split: option.split)
  show "mark_of h' (snd (claim_mark h P f ms)) = (if h' = h \<and> P (mark_of h ms) then f (mark_of h ms) else mark_of h' ms)"
  proof (cases "sql_first (\<lambda>m. mark_hash m = h') ?ms")
    case None
    then have "h' \<noteq> h" using mark_of_in [of h ms] mark_of_hash [of h ms] unfolding sql_first_None by metis
    moreover have "mark_of h' ms = fresh_mark h'" using None mark_of_with_mark [of h' h ms] by (simp add: mark_of_def)
    ultimately show ?thesis using None look by simp
  next
    case (Some m)
    then have "mark_hash m = h'" "mark_of h' ms = m"
      using mark_of_with_mark [of h' h ms] by (auto simp: mark_of_def dest: sql_first_SomeD)
    then show ?thesis using Some look by auto
  qed
qed

lemma mark_of_prune: "h \<in> lower ` active \<Longrightarrow> mark_of h (snd (prune_stale active ms)) = mark_of h ms"
proof -
  assume "h \<in> lower ` active"
  then have "sql_first (\<lambda>m. mark_hash m = h) (filter (\<lambda>m. mark_hash m \<in> lower ` active) ms) = sql_first (\<lambda>m. mark_hash m = h) ms"
    by (induction ms) auto
  then show ?thesis by (simp add: prune_stale_def mark_of_def)
qed

lemma prune_ok: "marks_ok ms \<Longrightarrow> marks_ok (snd (prune_stale active ms))"
  by (simp add: marks_ok_def prune_stale_def distinct_map_filter)

subsection \<open>What a mark allows to be said\<close>

fun after_event :: "string \<Rightarrow> download_mark \<Rightarrow> acquire_effect \<Rightarrow> download_mark option" where
  "after_event h m (DownloadStarted h' title prov k) = (if started_emitted m \<or> completed_emitted m then None else Some (m\<lparr>started_emitted := True\<rparr>))"
| "after_event h m (DownloadProgressed h' title p k) = 
    (if started_emitted m \<and> last_threshold m < k \<and> k \<in> set PROGRESS_THRESHOLDS \<and> \<not> completed_emitted m then Some (m\<lparr>last_threshold := k\<rparr>) else None)"
| "after_event h m (DownloadCompleted h' title prov k) = (if completed_emitted m then None else Some (m\<lparr>started_emitted := True, completed_emitted := True\<rparr>))"
| "after_event h m _ = None"

fun after_events :: "string \<Rightarrow> download_mark \<Rightarrow> acquire_effect list \<Rightarrow> download_mark option" where
  "after_events h m [] = Some m"
| "after_events h m (e # es) = Option.bind (after_event h m e) (\<lambda>m. after_events h m es)"

fun download_of :: "string \<Rightarrow> acquire_effect \<Rightarrow> bool" where
  "download_of h (DownloadStarted h' title prov k) = (h' = h)"
| "download_of h (DownloadProgressed h' title p k) = (h' = h)"
| "download_of h (DownloadCompleted h' title prov k) = (h' = h)"
| "download_of h _ = False"

definition download_events :: "string \<Rightarrow> acquire_db \<Rightarrow> acquire_effect list" where
  "download_events h s = filter (download_of h) (effects s)"

lemma after_events_append: "after_events h m (xs @ ys) = Option.bind (after_events h m xs) (\<lambda>m. after_events h m ys)"
  by (induction xs arbitrary: m) (auto split: Option.bind_split)

text \<open>From one state to the next, what is said of a hash is what its mark allowed.\<close>

definition tells :: "string \<Rightarrow> acquire_db \<Rightarrow> acquire_db \<Rightarrow> bool" where
  "tells h s s' \<longleftrightarrow> (marks_ok (marks s) \<longrightarrow> marks_ok (marks s')
     \<and> (\<exists>es. download_events h s' = download_events h s @ es \<and> after_events h (mark_of h (marks s)) es = Some (mark_of h (marks s'))))"

lemma tells_refl: "marks s' = marks s \<Longrightarrow> download_events h s' = download_events h s \<Longrightarrow> tells h s s'"
  by (simp add: tells_def)

lemma tells_trans: "tells h s s1 \<Longrightarrow> (marks_ok (marks s) \<Longrightarrow> tells h s1 s2) \<Longrightarrow> tells h s s2"
  unfolding tells_def by (force simp: after_events_append)

lemma tells_fold: "(\<And>x s. x \<in> set xs \<Longrightarrow> tells h s (f x s)) \<Longrightarrow> tells h s (fold f xs s)"
  by (induction xs arbitrary: s) (auto intro: tells_refl tells_trans)

text \<open>One claim and its announcement.\<close>

lemma announce_tells:
  assumes f: "\<And>m. mark_hash (f m) = mark_hash m"
    and e: "download_of h e \<Longrightarrow> h = h1 \<and> (P (mark_of h (marks s)) \<longrightarrow> after_event h (mark_of h (marks s)) e = Some (f (mark_of h (marks s))))"
    and same: "h = h1 \<Longrightarrow> download_of h e"
  shows "tells h s (announce_if (on_marks (claim_mark h1 P f) s) e)"
  unfolding tells_def
proof (intro impI conjI)
  assume ok: "marks_ok (marks s)"
  note claim = claim_mark_of [OF ok, where f = f and h = h1 and P = P, OF f]
  let ?s = "announce_if (on_marks (claim_mark h1 P f) s) e"
  have marks: "marks ?s = snd (claim_mark h1 P f (marks s))"
    by (simp add: announce_if_def on_marks_def emit_def case_prod_beta)
  show "marks_ok (marks ?s)" using claim(2) marks by simp
  have events: "download_events h ?s = download_events h s @ (if P (mark_of h1 (marks s)) \<and> download_of h e then [e] else [])"
    using claim(1) by (simp add: announce_if_def on_marks_def emit_def case_prod_beta download_events_def)
  show "\<exists>es. download_events h ?s = download_events h s @ es \<and> after_events h (mark_of h (marks s)) es = Some (mark_of h (marks ?s))"
  proof (cases "P (mark_of h1 (marks s)) \<and> download_of h e")
    case True
    then have "h = h1" "after_event h (mark_of h (marks s)) e = Some (f (mark_of h (marks s)))" using e by auto
    then have "after_events h (mark_of h (marks s)) [e] = Some (mark_of h (marks ?s))" using claim(3) [of h] marks True by simp
    then show ?thesis using events True by (intro exI [of _ "[e]"]) simp
  next
    case False
    then have "mark_of h (marks ?s) = mark_of h (marks s)" using claim(3) [of h] marks same by auto
    then show ?thesis using events False by (intro exI [of _ "[]"]) simp
  qed
qed

lemma emit_for_row_tells: "tells h s (emit_for_row fs items row s)"
proof (cases "items (row_hash row)")
  case None
  then show ?thesis by (simp add: emit_for_row_def tells_refl)
next
  case (Some x)
  let ?h = "row_hash row"
  have low: "lower ?h = ?h" by (simp add: row_hash_def)
  define m where "m = mark_of ?h (marks s)"
  have m: "(case get_mark ?h (marks s) of None \<Rightarrow> fresh_mark ?h | Some m \<Rightarrow> m) = m"
    by (simp add: get_mark_def mark_of_def m_def low)
  have completed: "tells h s (announce_if (on_marks (try_mark_completed ?h) s) (DownloadCompleted ?h title prov k))" for title prov k
    unfolding try_mark_completed_def low by (rule announce_tells) auto
  have started: "tells h s (emit_started ?h title prov k m s)" if "\<not> completed_emitted m" for title prov k
  proof (cases "started_emitted m")
    case True
    then show ?thesis by (simp add: emit_started_def tells_refl)
  next
    case False
    then have "emit_started ?h title prov k m s = announce_if (on_marks (claim_mark ?h (\<lambda>m. \<not> started_emitted m) (\<lambda>m. m\<lparr>started_emitted := True\<rparr>)) s) (DownloadStarted ?h title prov k)"
      by (simp add: emit_started_def try_mark_started_def low)
    moreover have "tells h s \<dots>" by (rule announce_tells) (use that in \<open>auto simp: m_def\<close>)
    ultimately show ?thesis by simp
  qed
  have now_started: "started_emitted (mark_of ?h (marks (emit_started ?h title prov k m s)))" if "marks_ok (marks s)" for title prov k
  proof (cases "started_emitted m")
    case True
    then show ?thesis by (simp add: emit_started_def m_def)
  next
    case False
    have "mark_of ?h (snd (claim_mark ?h (\<lambda>m. \<not> started_emitted m) (\<lambda>m. m\<lparr>started_emitted := True\<rparr>) (marks s))) = m\<lparr>started_emitted := True\<rparr>"
      using claim_mark_of(3) [OF that, where f = "\<lambda>m. m\<lparr>started_emitted := True\<rparr>" and h = ?h and P = "\<lambda>m. \<not> started_emitted m"] False
      by (simp add: m_def)
    then show ?thesis using False
      by (simp add: emit_started_def try_mark_started_def low announce_if_def on_marks_def emit_def case_prod_beta)
  qed
  have progressed: "tells h s1 (emit_progress ?h title p m1 s1)" if "started_emitted (mark_of ?h (marks s1))" for s1 title p m1
  proof (cases "List.find (\<lambda>k. p * 100 \<ge> of_int k \<and> k > last_threshold m1) PROGRESS_THRESHOLDS")
    case None
    then show ?thesis by (simp add: emit_progress_def tells_refl)
  next
    case (Some k)
    then have "emit_progress ?h title p m1 s1 = announce_if (on_marks (claim_mark ?h (\<lambda>m. last_threshold m < k \<and> \<not> completed_emitted m)
        (\<lambda>m. m\<lparr>last_threshold := k\<rparr>)) s1) (DownloadProgressed ?h title p k)"
      by (simp add: emit_progress_def try_advance_threshold_def low)
    moreover have "k \<in> set PROGRESS_THRESHOLDS" using Some by (auto simp: find_Some_iff)
    then have "tells h s1 (announce_if (on_marks (claim_mark ?h (\<lambda>m. last_threshold m < k \<and> \<not> completed_emitted m)
        (\<lambda>m. m\<lparr>last_threshold := k\<rparr>)) s1) (DownloadProgressed ?h title p k))"
      by (intro announce_tells) (use that in auto)
    ultimately show ?thesis by simp
  qed
  show ?thesis
  proof (cases "completed_emitted m")
    case True
    then have "emit_for_row fs items row s = s" using Some by (simp add: emit_for_row_def Let_def m)
    then show ?thesis by (simp add: tells_refl)
  next
    case False
    consider (over) "progress x \<ge> 1" "emit_for_row fs items row s = announce_if (on_marks (try_mark_completed ?h) s)
        (DownloadCompleted ?h (download_title fs row x) (provider_of ?h s) (wanted_kind row))"
      | (under) "emit_for_row fs items row s = emit_progress ?h (download_title fs row x) (progress x) m
        (emit_started ?h (download_title fs row x) (provider_of ?h s) (wanted_kind row) m s)"
      using Some False by (cases "progress x \<ge> 1") (simp_all add: emit_for_row_def Let_def m)
    then show ?thesis
    proof cases
      case over
      then show ?thesis using completed by simp
    next
      case under
      then show ?thesis using tells_trans [OF started [OF False] progressed [OF now_started]] by simp
    qed
  qed
qed

lemma emit_events_tell: "tells h s (emit_download_events items s)"
  unfolding emit_download_events_def by (intro tells_fold emit_for_row_tells)

subsection \<open>A sweep\<close>

text \<open>Settling the rows says nothing of a download.\<close>

definition untold :: "string \<Rightarrow> acquire_db \<Rightarrow> acquire_db \<Rightarrow> bool" where
  "untold h s s' \<longleftrightarrow> marks s' = marks s \<and> download_events h s' = download_events h s"

lemma reconcile_row_untold: "untold h s (snd (reconcile_row env t row (rep, s)))"
proof -
  have "untold h s (snd (fall_back_to_episodes row fid n t named s))" for fid n named
    by (simp add: untold_def fall_back_to_episodes_def Let_def case_prod_beta emit_def download_events_def)
  moreover have "untold h s s" "untold h s (s\<lparr>wanted := rs\<rparr>)" "untold h s (snd (record_grab_obligation c eco sc u x (s\<lparr>wanted := rs\<rparr>)))" for rs c eco sc u x
    by (simp_all add: untold_def download_events_def record_grab_obligation_keeps)
  ultimately show ?thesis
    by (simp add: reconcile_row_def close_owned_def requeue_vanished_def fall_back_landed_def confirm_found_def in_flight_def Let_def case_prod_beta
        split: option.split)
qed

lemma reconcile_fold_untold: "untold h s (snd (fold (reconcile_row env t) rows (rep, s)))"
proof (induction rows arbitrary: rep s)
  case (Cons row rows)
  obtain rep1 s1 where "reconcile_row env t row (rep, s) = (rep1, s1)" by fastforce
  then show ?case using reconcile_row_untold [of h s env t row rep] Cons [of s1 rep1] by (simp add: untold_def)
qed (simp add: untold_def)

lemma reconcile_tells:
  assumes "h \<in> hashes_in_flight (wanted (snd (reconcile_wanted env t s)))" "lower h = h"
  shows "tells h s (snd (reconcile_wanted env t s))"
proof -
  obtain rep s1 where rows: "fold (reconcile_row env t) (list_open_rows (wanted s)) (empty_summary, s) = (rep, s1)" by fastforce
  define s2 where "s2 = (case client_items env of None \<Rightarrow> s1 | Some items \<Rightarrow> emit_download_events items s1)"
  have "tells h s s1"
    using reconcile_fold_untold [of h s env t "list_open_rows (wanted s)" empty_summary] rows by (simp add: untold_def tells_refl)
  moreover have "tells h s1 s2" by (simp add: s2_def emit_events_tell tells_refl split: option.split)
  moreover have out: "snd (reconcile_wanted env t s) = prune_marks s2" by (simp add: reconcile_wanted_def rows s2_def)
  moreover have "tells h s2 (prune_marks s2)"
  proof -
    have "h \<in> hashes_in_flight (wanted s2)" using assms(1) unfolding out by (simp add: prune_marks_def)
    then have "h \<in> lower ` hashes_in_flight (wanted s2)" using assms(2) by (metis imageI)
    then show ?thesis
      by (simp add: tells_def prune_marks_def prune_ok mark_of_prune download_events_def)
  qed
  ultimately show ?thesis using tells_trans by metis
qed

subsection \<open>Any number of sweeps\<close>

text \<open>The torrent stays in flight: after each sweep an open row carries its hash. Between the sweeps anything may happen that
  says nothing of downloads.\<close>

inductive download_run :: "string \<Rightarrow> acquire_db \<Rightarrow> acquire_db \<Rightarrow> bool" for h where
  begins: "download_run h s s"
| sweep: "download_run h s s1 \<Longrightarrow> h \<in> hashes_in_flight (wanted (snd (reconcile_wanted env t s1))) \<Longrightarrow> download_run h s (snd (reconcile_wanted env t s1))"
| reswitch: "download_run h s s1 \<Longrightarrow> download_run h s (snd (reswitch_stalled ask sc t dead_after s1))"
| elsewhere: "download_run h s s1 \<Longrightarrow> untold h s1 s2 \<Longrightarrow> download_run h s s2"

lemma reswitch_untold: "untold h s (snd (reswitch_stalled ask sc t dead_after s))"
proof -
  have one: "untold h s (snd (reswitch_row by_hash t dead_after row (n, s)))" for by_hash row n s
    by (cases n) (simp add: reswitch_row_def untold_def download_events_def emit_def Let_def case_prod_beta split: option.split)
  have "untold h s (snd (fold (reswitch_row by_hash t dead_after) rows (n, s)))" for by_hash rows n
  proof (induction rows arbitrary: n s)
    case (Cons row rows)
    obtain n1 s1 where "reswitch_row by_hash t dead_after row (n, s) = (n1, s1)" by fastforce
    then show ?case using one [of s by_hash row n] Cons [of s1 n1] by (simp add: untold_def)
  qed (simp add: untold_def)
  then show ?thesis by (simp add: reswitch_stalled_def Let_def untold_def split: sum.split)
qed

lemma run_tells: "download_run h s s' \<Longrightarrow> lower h = h \<Longrightarrow> tells h s s'"
proof (induction rule: download_run.induct)
  case begins
  then show ?case by (simp add: tells_refl)
next
  case (sweep s s1 env t)
  then show ?case using tells_trans reconcile_tells by metis
next
  case (reswitch s s1 ask sc t dead_after)
  then show ?case using tells_trans reswitch_untold [of h s1 ask sc t dead_after] unfolding untold_def by (metis tells_refl)
next
  case (elsewhere s s1 s2)
  then show ?case using tells_trans unfolding untold_def by (metis tells_refl)
qed

subsection \<open>The shape of what is said\<close>

datatype told = Told_Start | Told_At int | Told_End

fun told_of :: "acquire_effect \<Rightarrow> told option" where
  "told_of (DownloadStarted h title prov k) = Some Told_Start"
| "told_of (DownloadProgressed h title p k) = Some (Told_At k)"
| "told_of (DownloadCompleted h title prov k) = Some Told_End"
| "told_of _ = None"

definition told_in_full :: "told list \<Rightarrow> int list \<Rightarrow> bool \<Rightarrow> bool" where
  "told_in_full ts ks ended \<longleftrightarrow> ts = map Told_At ks @ (if ended then [Told_End] else []) \<and> sorted_wrt (<) ks \<and> set ks \<subseteq> set PROGRESS_THRESHOLDS"

lemma nothing_after_the_end: "completed_emitted m \<Longrightarrow> after_events h m es = Some m' \<Longrightarrow> es = []"
proof (cases es)
  case (Cons e es')
  assume "completed_emitted m" "after_events h m es = Some m'"
  then show ?thesis using Cons by (cases e) auto
qed simp

lemma told_once_started:
  "started_emitted m \<Longrightarrow> \<not> completed_emitted m \<Longrightarrow> after_events h m es = Some m'
    \<Longrightarrow> \<exists>ks ended. told_in_full (List.map_filter told_of es) ks ended \<and> (\<forall>k \<in> set ks. last_threshold m < k)"
proof (induction es arbitrary: m)
  case Nil
  then show ?case by (intro exI [of _ "[]"] exI [of _ False]) (simp add: told_in_full_def map_filter_simps)
next
  case (Cons e es)
  then obtain m1 where m1: "after_event h m e = Some m1" "after_events h m1 es = Some m'" by (auto split: Option.bind_splits)
  consider (progress) title p k h' where "e = DownloadProgressed h' title p k" "last_threshold m < k" "k \<in> set PROGRESS_THRESHOLDS"
      "m1 = m\<lparr>last_threshold := k\<rparr>"
    | (ended) h' title prov k where "e = DownloadCompleted h' title prov k" "m1 = m\<lparr>started_emitted := True, completed_emitted := True\<rparr>"
    using m1(1) Cons.prems(1) by (cases e) (auto split: if_splits)
  then show ?case
  proof cases
    case progress
    from Cons.IH [of m1] Cons.prems(1,2) m1(2) progress(4) obtain ks ended where
      "told_in_full (List.map_filter told_of es) ks ended" "\<forall>k' \<in> set ks. k < k'" by auto
    then show ?thesis using progress by (intro exI [of _ "k # ks"] exI [of _ ended]) (auto simp: told_in_full_def map_filter_simps)
  next
    case ended
    then have "completed_emitted m1" by simp
    then have "es = []" using nothing_after_the_end m1(2) by blast
    then show ?thesis using ended by (intro exI [of _ "[]"] exI [of _ True]) (simp add: told_in_full_def map_filter_simps)
  qed
qed

lemma told_from_the_start:
  assumes "\<not> started_emitted m" "\<not> completed_emitted m" "after_events h m es = Some m'" "es \<noteq> []"
  shows "\<exists>ks ended. List.map_filter told_of es = [Told_End] \<or>
    (\<exists>ts. List.map_filter told_of es = Told_Start # ts \<and> told_in_full ts ks ended)"
proof -
  obtain e es' where es: "es = e # es'" using assms(4) by (cases es) auto
  then obtain m1 where m1: "after_event h m e = Some m1" "after_events h m1 es' = Some m'" using assms(3) by (auto split: Option.bind_splits)
  consider (started) h' title prov k where "e = DownloadStarted h' title prov k" "m1 = m\<lparr>started_emitted := True\<rparr>"
    | (ended) h' title prov k where "e = DownloadCompleted h' title prov k" "completed_emitted m1"
    using m1(1) assms(1,2) by (cases e) (auto split: if_splits)
  then show ?thesis
  proof cases
    case started
    then obtain ks ended where "told_in_full (List.map_filter told_of es') ks ended" using told_once_started [of m1 h es' m'] assms(2) m1(2) by auto
    then show ?thesis using es started by (auto simp: map_filter_simps)
  next
    case ended
    then have "es' = []" using nothing_after_the_end m1(2) by blast
    then show ?thesis using es ended by (simp add: map_filter_simps)
  qed
qed

text \<open>C18: while a torrent stays in flight, what is announced of its download, over any number of sweeps, is nothing, or its
  end alone when the first sweep finds it complete, or its start once, then a strictly increasing run of the thresholds 25,
  50 and 75, then at most its end: nothing is said twice, nothing out of order, and nothing after the end.\<close>

theorem download_is_announced_once:
  assumes "marks_ok (marks s)" and "lower h = h" and "get_mark h (marks s) = None" and "download_run h s s'"
  shows "\<exists>es ks ended ts. download_events h s' = download_events h s @ es
    \<and> List.map_filter told_of es \<in> {[], [Told_End], Told_Start # ts} \<and> told_in_full ts ks ended"
proof -
  have fresh: "mark_of h (marks s) = fresh_mark h" using assms(2,3) by (simp add: get_mark_def mark_of_def)
  obtain es m' where es: "download_events h s' = download_events h s @ es" "after_events h (fresh_mark h) es = Some m'"
    using run_tells [OF assms(4,2)] assms(1) fresh by (auto simp: tells_def)
  show ?thesis
  proof (cases "es = []")
    case True
    then show ?thesis using es by (intro exI [of _ "[]"] exI [of _ False]) (simp add: told_in_full_def map_filter_simps)
  next
    case False
    have "told_in_full [] [] False" by (simp add: told_in_full_def)
    moreover obtain ks ended where "List.map_filter told_of es = [Told_End] \<or> (\<exists>ts. List.map_filter told_of es = Told_Start # ts \<and> told_in_full ts ks ended)"
      using told_from_the_start [OF _ _ es(2) False] by (auto simp: fresh_mark_def)
    ultimately show ?thesis using es(1) by blast
  qed
qed

subsection \<open>A concrete run\<close>

text \<open>A first sweep confirms the grab of \<open>sample_intent\<close> and finds its download at 30 per cent.\<close>

lemma sample_in_flight: "''aa'' \<in> hashes_in_flight (wanted (snd (reconcile_wanted sample_sweep 5 sample_intent_db)))"
proof -
  have "sample_intent\<lparr>wanted_status := GRABBED\<rparr> \<in> set (wanted (snd (reconcile_wanted sample_sweep 5 sample_intent_db)))"
    using reconcile_wanted_rows [OF sample_intent_ok, of sample_sweep 5] sample_settled by (auto simp: sample_intent_db_def sample_db_def)
  moreover have "(if is_open (sample_intent\<lparr>wanted_status := GRABBED\<rparr>) then grabbed_hash (sample_intent\<lparr>wanted_status := GRABBED\<rparr>) else None) = Some ''aa''"
    by (simp add: is_open_def OPEN_WANTED_STATUSES_def sample_intent_def)
  ultimately have "''aa'' \<in> set (List.map_filter (\<lambda>r. if is_open r then grabbed_hash r else None) (wanted (snd (reconcile_wanted sample_sweep 5 sample_intent_db))))"
    by (rule in_map_filter)
  then show ?thesis by (auto simp: hashes_in_flight_def intro!: image_eqI [of _ _ "''aa''"])
qed

lemma download_is_announced_once_witness:
  "\<exists>es ks ended ts. download_events ''aa'' (snd (reconcile_wanted sample_sweep 5 sample_intent_db)) = download_events ''aa'' sample_intent_db @ es
    \<and> List.map_filter told_of es \<in> {[], [Told_End], Told_Start # ts} \<and> told_in_full ts ks ended"
proof -
  have "download_run ''aa'' sample_intent_db (snd (reconcile_wanted sample_sweep 5 sample_intent_db))"
    using download_run.sweep [OF download_run.begins sample_in_flight] .
  then show ?thesis
    by (intro download_is_announced_once) (simp_all add: sample_intent_db_def sample_db_def marks_ok_def get_mark_def sql_first_def)
qed

end
