(* ===== verification/Folder_Transfer.thy ===== *)
theory Folder_Transfer
  imports Acts Decimal
begin

text \<open>
  The transfers of a media folder from the staging area to a disk (\<open>dispatch/_transfer.py\<close>, \<open>_movie.py\<close>, \<open>_tv.py\<close>,
  \<open>Dispatcher._move_new\<close>) and the sweep of what an interrupted one leaves (\<open>dispatch/crash_recovery.py\<close>). Every call to the
  operating system may be refused (\<open>OSError\<close>), and the process may be killed in any of them; a removal or a copy that is
  refused or killed may have been done in part. The command \<open>rsync\<close> is a parameter, run on the arguments the code gives it.
\<close>

subsection \<open>What a file system takes\<close>

text \<open>The fields of \<open>FilesystemCapability\<close> the dispatch reads; the others are the scanner's. The pattern is the names it matches.\<close>

record fs_capability =
  fs_type :: string
  rsync_flags :: "string list"
  illegal_name_regex :: "(string \<Rightarrow> bool) option"

definition NTFS_ILLEGAL :: "string \<Rightarrow> bool" where
  "NTFS_ILLEGAL name \<longleftrightarrow> list_ex (\<lambda>c. c \<in> {CHR ''<'', CHR ''>'', CHR '':'', CHR 0x22, CHR ''/'', CHR 0x5C, CHR ''|'', CHR ''?'', CHR ''*''}) name"

definition NTFS_RSYNC_FLAGS :: "string list" where
  "NTFS_RSYNC_FLAGS = [''-a'', ''--no-perms'', ''--no-owner'', ''--no-group'', ''--no-times'', ''--omit-dir-times'', ''--inplace'', ''--partial'',
     ''--exclude=.DS_Store'', ''--exclude=._*'']"

definition POSIX_RSYNC_FLAGS :: "string list" where
  "POSIX_RSYNC_FLAGS = [''-a'', ''--inplace'', ''--partial'']"

definition EXFAT_RSYNC_FLAGS :: "string list" where
  "EXFAT_RSYNC_FLAGS = [''-a'', ''--inplace'', ''--partial'', ''--exclude=.DS_Store'', ''--exclude=._*'']"

definition NTFS_MACFUSE :: fs_capability where
  "NTFS_MACFUSE = \<lparr>fs_type = ''ntfs_macfuse'', rsync_flags = NTFS_RSYNC_FLAGS, illegal_name_regex = Some NTFS_ILLEGAL\<rparr>"

definition UNKNOWN_FS :: fs_capability where
  "UNKNOWN_FS = \<lparr>fs_type = ''unknown'', rsync_flags = NTFS_RSYNC_FLAGS, illegal_name_regex = Some NTFS_ILLEGAL\<rparr>"

definition APFS :: fs_capability where
  "APFS = \<lparr>fs_type = ''apfs'', rsync_flags = POSIX_RSYNC_FLAGS, illegal_name_regex = None\<rparr>"

definition HFSPLUS :: fs_capability where
  "HFSPLUS = \<lparr>fs_type = ''hfsplus'', rsync_flags = POSIX_RSYNC_FLAGS, illegal_name_regex = None\<rparr>"

definition EXFAT :: fs_capability where
  "EXFAT = \<lparr>fs_type = ''exfat'', rsync_flags = EXFAT_RSYNC_FLAGS, illegal_name_regex = None\<rparr>"

definition EXT4 :: fs_capability where
  "EXT4 = \<lparr>fs_type = ''ext4'', rsync_flags = POSIX_RSYNC_FLAGS, illegal_name_regex = None\<rparr>"

definition CAPABILITY_TABLE :: "fs_capability list" where
  "CAPABILITY_TABLE = [NTFS_MACFUSE, UNKNOWN_FS, APFS, HFSPLUS, EXFAT, EXT4]"

definition capability_for :: "string \<Rightarrow> fs_capability" where
  "capability_for t = (case List.find (\<lambda>cap. fs_type cap = t) CAPABILITY_TABLE of None \<Rightarrow> UNKNOWN_FS | Some cap \<Rightarrow> cap)"

text \<open>\<open>probed\<close> is the file system \<open>probe_mount\<close> finds at the disk's path, if it is mounted.\<close>

definition resolve_capability :: "string option \<Rightarrow> string option \<Rightarrow> fs_capability" where
  "resolve_capability probed override = (case override of
     Some t \<Rightarrow> capability_for t
   | None \<Rightarrow> capability_for (case probed of None \<Rightarrow> ''unknown'' | Some t \<Rightarrow> t))"

subsection \<open>The volumes\<close>

text \<open>A place is the path of a media folder, a folder its files with their bytes, by their path in it; empty directories are
  not kept. Beside the folders, the files that keep a client locked out, with the time they were written.\<close>

type_synonym place = "string list"

type_synonym rel = "string list"

type_synonym folder = "(rel \<times> string) list"

record volume =
  media :: "(place \<times> folder) list"
  lockouts :: "(place \<times> real) list"
  calls :: nat

definition folder_at :: "place \<Rightarrow> volume \<Rightarrow> folder option" where
  "folder_at p w = map_of (media w) p"

definition files_of :: "place \<Rightarrow> volume \<Rightarrow> folder" where
  "files_of p w = (case folder_at p w of None \<Rightarrow> [] | Some f \<Rightarrow> f)"

definition put_folder :: "place \<Rightarrow> folder option \<Rightarrow> volume \<Rightarrow> volume" where
  "put_folder p v w = w\<lparr>media := (case v of None \<Rightarrow> [] | Some f \<Rightarrow> [(p, f)]) @ filter (\<lambda>(q, f). q \<noteq> p) (media w)\<rparr>"

lemma map_of_without: "map_of (filter (\<lambda>(q, f). q \<noteq> p) xs) q = (if q = p then None else map_of xs q)"
  by (induction xs) auto

lemma folder_at_put [simp]: "folder_at q (put_folder p v w) = (if q = p then v else folder_at q w)"
  by (simp add: folder_at_def put_folder_def map_of_without split: option.split)

lemma calls_put [simp]: "calls (put_folder p v w) = calls w"
  by (simp add: put_folder_def)

lemma folder_at_calls [simp]: "folder_at q (w\<lparr>calls := n\<rparr>) = folder_at q w"
  by (simp add: folder_at_def)

subsection \<open>The operating system\<close>

text \<open>
  By the number of the call: whether it is refused, whether the process is killed in it, the files a removal leaves, what a
  copy that fails leaves of its target (\<open>None\<close>: it was not touched), the entries that cannot be read. \<open>rsync\<close>, by its
  arguments, gives whether it returned 0 in its time, and what it leaves of the target.
\<close>

record os =
  refuses :: "nat \<Rightarrow> bool"
  kills :: "nat \<Rightarrow> bool"
  undeleted :: "nat \<Rightarrow> rel \<Rightarrow> bool"
  torn :: "nat \<Rightarrow> string option"
  unreadable :: "nat \<Rightarrow> rel \<Rightarrow> bool"
  rsync_run :: "nat \<Rightarrow> string list \<Rightarrow> folder option \<Rightarrow> folder option \<Rightarrow> bool \<times> folder option"

datatype os_stop = Refused | Killed

type_synonym 'a fs_act = "(os_stop, volume, 'a) prog"

definition call :: "(nat \<Rightarrow> 'a fs_act) \<Rightarrow> 'a fs_act" where
  "call f w = f (calls w) (w\<lparr>calls := Suc (calls w)\<rparr>)"

text \<open>\<open>except OSError: pass\<close>, and whether a block ended without one.\<close>

definition attempt :: "unit fs_act \<Rightarrow> bool fs_act" where
  "attempt m w = (case m w of (Inr _, w) \<Rightarrow> (Inr True, w) | (Inl Refused, w) \<Rightarrow> (Inr False, w) | (Inl Killed, w) \<Rightarrow> (Inl Killed, w))"

definition quietly :: "unit fs_act \<Rightarrow> unit fs_act" where
  "quietly m = then_with (attempt m) (\<lambda>_. done_with ())"

definition on_refusal :: "'a fs_act \<Rightarrow> 'a fs_act \<Rightarrow> 'a fs_act" where
  "on_refusal m h w = (case m w of (Inl Refused, w) \<Rightarrow> h w | r \<Rightarrow> r)"

fun each :: "('x \<Rightarrow> unit fs_act) \<Rightarrow> 'x list \<Rightarrow> unit fs_act" where
  "each f [] = done_with ()"
| "each f (x # xs) = then_do (f x) (each f xs)"

definition nothing_but_call :: "os \<Rightarrow> unit fs_act" where
  "nothing_but_call os = call (\<lambda>n w. if kills os n then (Inl Killed, w) else if refuses os n then (Inl Refused, w) else (Inr (), w))"

definition fs_rename :: "os \<Rightarrow> place \<Rightarrow> place \<Rightarrow> unit fs_act" where
  "fs_rename os a b = call (\<lambda>n w.
     if kills os n then (Inl Killed, w)
     else case folder_at a w of
       None \<Rightarrow> (Inl Refused, w)
     | Some f \<Rightarrow> if refuses os n \<or> files_of b w \<noteq> [] then (Inl Refused, w)
         else (Inr (), put_folder b (Some f) (put_folder a None w)))"

definition force_rmtree :: "os \<Rightarrow> place \<Rightarrow> unit fs_act" where
  "force_rmtree os p = call (\<lambda>n w. case folder_at p w of
     None \<Rightarrow> if kills os n then (Inl Killed, w) else (Inr (), w)
   | Some f \<Rightarrow>
       (let left = filter (\<lambda>(r, x). undeleted os n r) f in
        if kills os n then (Inl Killed, put_folder p (Some left) w)
        else if left \<noteq> [] \<or> refuses os n then (Inl Refused, put_folder p (Some left) w)
        else (Inr (), put_folder p None w)))"

definition rm_if_there :: "os \<Rightarrow> place \<Rightarrow> unit fs_act" where
  "rm_if_there os p = looking (\<lambda>w. if folder_at p w \<noteq> None then force_rmtree os p else done_with ())"

text \<open>\<open>str(path)\<close> of a path from the root.\<close>

definition path_text :: "place \<Rightarrow> string" where
  "path_text p = concat (map (\<lambda>c. CHR ''/'' # c) p)"

definition build_rsync_cmd :: "place \<Rightarrow> place \<Rightarrow> fs_capability \<Rightarrow> bool \<Rightarrow> place option \<Rightarrow> string list" where
  "build_rsync_cmd source dest cap delete backup_dir =
     [''rsync''] @ rsync_flags cap @ (if delete then [''--delete''] else [])
     @ (case backup_dir of None \<Rightarrow> [] | Some b \<Rightarrow> [''--backup'', ''--backup-dir='' @ path_text b])
     @ [path_text source @ ''/'', path_text dest]"

definition run_rsync :: "os \<Rightarrow> string list \<Rightarrow> place \<Rightarrow> place \<Rightarrow> bool fs_act" where
  "run_rsync os argv source dest = call (\<lambda>n w.
     if refuses os n then (Inl Refused, w)
     else let (ok, f) = rsync_run os n argv (folder_at source w) (folder_at dest w); w = put_folder dest f w
       in if kills os n then (Inl Killed, w) else (Inr ok, w))"

definition rsync :: "os \<Rightarrow> bool \<Rightarrow> fs_capability \<Rightarrow> place \<Rightarrow> place \<Rightarrow> bool fs_act" where
  "rsync os delete cap source dest = run_rsync os (build_rsync_cmd source dest cap delete None) source dest"

definition rsync_merge :: "os \<Rightarrow> fs_capability \<Rightarrow> place \<Rightarrow> place \<Rightarrow> place \<Rightarrow> bool fs_act" where
  "rsync_merge os cap source dest backup_dir = run_rsync os (build_rsync_cmd source dest cap False (Some backup_dir)) source dest"

text \<open>A source entry that cannot be read is skipped, a target that cannot be read fails.\<close>

definition verify_transfer :: "os \<Rightarrow> place \<Rightarrow> place \<Rightarrow> bool fs_act" where
  "verify_transfer os source dest = call (\<lambda>n w.
     if kills os n then (Inl Killed, w)
     else (Inr (list_all (\<lambda>(r, x). unreadable os n r \<or>
       (case map_of (files_of dest w) r of None \<Rightarrow> False | Some y \<Rightarrow> length x = length y \<and> \<not> refuses os n))
       (files_of source w)), w))"

subsection \<open>A film replaced\<close>

definition beside :: "string \<Rightarrow> string \<Rightarrow> place \<Rightarrow> place" where
  "beside pre suf p = butlast p @ [pre @ last p @ suf]"

definition swap :: "os \<Rightarrow> place \<Rightarrow> place \<Rightarrow> place \<Rightarrow> unit fs_act" where
  "swap os dest tmp_new tmp_old =
     then_do (looking (\<lambda>w. if folder_at dest w \<noteq> None then fs_rename os dest tmp_old else done_with ())) (fs_rename os tmp_new dest)"

definition restore_old :: "os \<Rightarrow> place \<Rightarrow> place \<Rightarrow> unit fs_act" where
  "restore_old os dest tmp_old =
     looking (\<lambda>w. if folder_at tmp_old w \<noteq> None \<and> folder_at dest w = None then fs_rename os tmp_old dest else done_with ())"

definition replace :: "os \<Rightarrow> fs_capability \<Rightarrow> place \<Rightarrow> place \<Rightarrow> bool fs_act" where
  "replace os cap source dest =
     (let tmp_new = beside [] ''.new.tmp'' dest; tmp_old = beside [] ''.old.tmp'' dest in
      then_with (rsync os False cap source tmp_new) (\<lambda>ok.
        if \<not> ok then then_do (quietly (rm_if_there os tmp_new)) (done_with False)
        else then_with (attempt (swap os dest tmp_new tmp_old)) (\<lambda>swapped.
          if swapped then
            then_do (quietly (rm_if_there os tmp_old)) (then_do (quietly (force_rmtree os source)) (done_with True))
          else
            then_do (quietly (restore_old os dest tmp_old)) (then_do (quietly (rm_if_there os tmp_new)) (done_with False)))))"

subsection \<open>A new folder\<close>

definition DISPATCH_TMP_PREFIX :: string where "DISPATCH_TMP_PREFIX = ''_tmp_dispatch_''"

definition move_new :: "os \<Rightarrow> fs_capability \<Rightarrow> place \<Rightarrow> place \<Rightarrow> bool fs_act" where
  "move_new os cap source dest =
     (let tmp = beside DISPATCH_TMP_PREFIX [] dest in
      on_refusal
        (then_do (nothing_but_call os)
        (then_do (rm_if_there os tmp)
        (then_with (rsync os False cap source tmp) (\<lambda>ok.
          if \<not> ok then then_do (rm_if_there os tmp) (done_with False)
          else then_do (fs_rename os tmp dest)
            (then_with (verify_transfer os source dest) (\<lambda>ok.
              if ok then then_do (force_rmtree os source) (done_with True)
              else then_do (quietly (rm_if_there os dest)) (done_with False)))))))
        (then_do (quietly (rm_if_there os tmp)) (then_do (quietly (rm_if_there os dest)) (done_with False))))"

subsection \<open>A show merged\<close>

definition MERGE_BACKUP_NAME :: string where "MERGE_BACKUP_NAME = ''.merge_backup''"

text \<open>\<open>_extract_season_episode\<close>: the leftmost match of \<open>[Ss](\d{1,2})[Ee](\d{1,3})\<close>, or else of \<open>(\d{1,2})x(\d{1,3})\<close>, on
  ASCII digits. What follows a group is no digit, so its greedy match is the only one.\<close>

fun digits_upto :: "nat \<Rightarrow> string \<Rightarrow> string \<times> string" where
  "digits_upto (Suc n) (c # s) = (if is_digit c then (let (d, r) = digits_upto n s in (c # d, r)) else ([], c # s))"
| "digits_upto n s = ([], s)"

definition number_of_digits :: "string \<Rightarrow> nat" where
  "number_of_digits s = foldl (\<lambda>n c. 10 * n + digit_value c) 0 s"

text \<open>Two numbers with one of the given letters between them, at the head of a text.\<close>

definition number_pair :: "char set \<Rightarrow> string \<Rightarrow> (nat \<times> nat) option" where
  "number_pair between s =
     (let (a, r) = digits_upto 2 s in
      if a = [] then None
      else case r of
        [] \<Rightarrow> None
      | c # r \<Rightarrow> (let (b, r) = digits_upto 3 r in
          if c \<in> between \<and> b \<noteq> [] then Some (number_of_digits a, number_of_digits b) else None))"

definition se_at :: "string \<Rightarrow> (nat \<times> nat) option" where
  "se_at s = (case s of [] \<Rightarrow> None | c # r \<Rightarrow> if c \<in> {CHR ''S'', CHR ''s''} then number_pair {CHR ''E'', CHR ''e''} r else None)"

fun leftmost :: "(string \<Rightarrow> 'a option) \<Rightarrow> string \<Rightarrow> 'a option" where
  "leftmost m [] = m []"
| "leftmost m (c # s) = (case m (c # s) of None \<Rightarrow> leftmost m s | Some x \<Rightarrow> Some x)"

definition extract_season_episode :: "string \<Rightarrow> (nat \<times> nat) option" where
  "extract_season_episode name = (case leftmost se_at name of None \<Rightarrow> leftmost (number_pair {CHR ''x''}) name | Some k \<Rightarrow> Some k)"

text \<open>The files right in a season's directory, and those of a folder.\<close>

definition season_files :: "string \<Rightarrow> folder \<Rightarrow> string list" where
  "season_files d f = List.map_filter (\<lambda>(r, x). case r of [e, n] \<Rightarrow> if e = d then Some n else None | _ \<Rightarrow> None) f"

definition season_dirs :: "folder \<Rightarrow> string list" where
  "season_dirs f = remdups (List.map_filter (\<lambda>(r, x). case r of [e, n] \<Rightarrow> Some e | _ \<Rightarrow> None) f)"

text \<open>The target's files of an episode of the source under another name; the code walks the seasons in an order of a set.\<close>

definition season_conflicts :: "folder \<Rightarrow> folder \<Rightarrow> string \<Rightarrow> rel list" where
  "season_conflicts src dst d =
     (let names = season_files d src; keys = List.map_filter extract_season_episode names in
      map (\<lambda>n. [d, n]) (filter (\<lambda>n. case extract_season_episode n of
        None \<Rightarrow> False
      | Some k \<Rightarrow> k \<in> set keys \<and> n \<notin> set (filter (\<lambda>m. extract_season_episode m = Some k) names)) (season_files d dst)))"

definition episode_conflicts :: "folder \<Rightarrow> folder \<Rightarrow> rel list" where
  "episode_conflicts src dst = concat (map (season_conflicts src dst) (season_dirs src))"

definition backup_of :: "rel \<Rightarrow> rel" where
  "backup_of r = MERGE_BACKUP_NAME # r"

definition in_backup :: "rel \<Rightarrow> bool" where
  "in_backup r \<longleftrightarrow> r \<noteq> [] \<and> hd r = MERGE_BACKUP_NAME"

definition file_rename :: "os \<Rightarrow> place \<Rightarrow> rel \<Rightarrow> rel \<Rightarrow> unit fs_act" where
  "file_rename os p r r' = call (\<lambda>n w.
     if kills os n then (Inl Killed, w)
     else case map_of (files_of p w) r of
       None \<Rightarrow> (Inl Refused, w)
     | Some x \<Rightarrow> if refuses os n then (Inl Refused, w)
         else (Inr (), put_folder p (Some ((r', x) # filter (\<lambda>(q, y). q \<noteq> r \<and> q \<noteq> r') (files_of p w))) w))"

definition purge_episode_conflicts :: "os \<Rightarrow> place \<Rightarrow> place \<Rightarrow> unit fs_act" where
  "purge_episode_conflicts os source dest = looking (\<lambda>w. case folder_at dest w of
     None \<Rightarrow> done_with ()
   | Some dst \<Rightarrow> (case folder_at source w of
       None \<Rightarrow> raising (Inl Refused)
     | Some src \<Rightarrow> then_do (nothing_but_call os) (each (\<lambda>r. file_rename os dest r (backup_of r)) (episode_conflicts src dst))))"

definition has_backup :: "place \<Rightarrow> volume \<Rightarrow> bool" where
  "has_backup p w \<longleftrightarrow> list_ex (\<lambda>(r, x). in_backup r) (files_of p w)"

text \<open>\<open>force_rmtree(backup_dir)\<close>, of a backup that is there.\<close>

definition rm_backup :: "os \<Rightarrow> place \<Rightarrow> unit fs_act" where
  "rm_backup os p = call (\<lambda>n w.
     let left = filter (\<lambda>(r, x). in_backup r \<longrightarrow> undeleted os n r) (files_of p w); w' = put_folder p (Some left) w in
     if kills os n then (Inl Killed, w')
     else if list_ex (\<lambda>(r, x). in_backup r) left \<or> refuses os n then (Inl Refused, w') else (Inr (), w'))"

definition write_file :: "place \<Rightarrow> rel \<Rightarrow> string \<Rightarrow> volume \<Rightarrow> volume" where
  "write_file p r x w = put_folder p (Some ((r, x) # filter (\<lambda>(q, y). q \<noteq> r) (files_of p w))) w"

text \<open>\<open>shutil.copy2\<close> of one file of the backup to its place: copied, or not and perhaps torn.\<close>

definition restore_file :: "os \<Rightarrow> place \<Rightarrow> rel \<times> string \<Rightarrow> bool fs_act" where
  "restore_file os p = (\<lambda>(r, x). call (\<lambda>n w.
     let cut = (case torn os n of None \<Rightarrow> w | Some y \<Rightarrow> write_file p r y w) in
     if kills os n then (Inl Killed, cut) else if refuses os n then (Inr False, cut) else (Inr True, write_file p r x w)))"

fun restore_files :: "os \<Rightarrow> place \<Rightarrow> (rel \<times> string) list \<Rightarrow> (nat \<times> nat) fs_act" where
  "restore_files os p [] = done_with (0, 0)"
| "restore_files os p (x # xs) = then_with (restore_file os p x) (\<lambda>ok. then_with (restore_files os p xs) (\<lambda>(restored, failed).
     done_with (if ok then (Suc restored, failed) else (restored, Suc failed))))"

definition backup_files :: "folder \<Rightarrow> (rel \<times> string) list" where
  "backup_files f = List.map_filter (\<lambda>r. if in_backup r then map_option (\<lambda>x. (tl r, x)) (map_of f r) else None) (remdups (map fst f))"

definition restore_merge_backup :: "os \<Rightarrow> place \<Rightarrow> nat fs_act" where
  "restore_merge_backup os dest = looking (\<lambda>w.
     if \<not> has_backup dest w then done_with 0
     else then_with (restore_files os dest (backup_files (files_of dest w))) (\<lambda>(restored, failed).
       if failed \<noteq> 0 then done_with restored else then_do (quietly (rm_backup os dest)) (done_with restored)))"

definition merge :: "os \<Rightarrow> fs_capability \<Rightarrow> place \<Rightarrow> place \<Rightarrow> bool fs_act" where
  "merge os cap source dest =
     (let undo = then_with (restore_merge_backup os dest) (\<lambda>_. done_with False) in
      on_refusal
        (then_do (purge_episode_conflicts os source dest)
        (then_with (rsync_merge os cap source dest (dest @ [MERGE_BACKUP_NAME])) (\<lambda>ok.
          if \<not> ok then undo
          else then_with (verify_transfer os source dest) (\<lambda>ok.
            if ok then
              then_do (looking (\<lambda>w. if has_backup dest w then rm_backup os dest else done_with ()))
              (then_do (force_rmtree os source) (done_with True))
            else undo))))
        undo)"

subsection \<open>What an interrupted transfer leaves\<close>

datatype dry_run_policy = SKIP | REPORT

definition remove_orphan :: "unit fs_act \<Rightarrow> dry_run_policy \<Rightarrow> bool \<Rightarrow> nat fs_act" where
  "remove_orphan rm policy dry_run =
     (if dry_run then done_with (if policy = SKIP then 0 else 1)
      else then_with (attempt rm) (\<lambda>ok. done_with (if ok then 1 else 0)))"

definition has_prefix :: "string \<Rightarrow> string \<Rightarrow> bool" where
  "has_prefix p s \<longleftrightarrow> take (length p) s = p"

definition sweep_media :: "os \<Rightarrow> dry_run_policy \<Rightarrow> bool \<Rightarrow> place \<Rightarrow> nat fs_act" where
  "sweep_media os policy dry_run p =
     then_with (looking (\<lambda>w. if has_prefix DISPATCH_TMP_PREFIX (last p) then remove_orphan (force_rmtree os p) policy dry_run else done_with 0)) (\<lambda>m.
     then_with (looking (\<lambda>w. if has_backup p w then remove_orphan (rm_backup os p) policy dry_run else done_with 0)) (\<lambda>n.
     done_with (m + n)))"

fun sweep_each :: "(place \<Rightarrow> nat fs_act) \<Rightarrow> place list \<Rightarrow> nat fs_act" where
  "sweep_each f [] = done_with 0"
| "sweep_each f (p # ps) = then_with (f p) (\<lambda>m. then_with (sweep_each f ps) (\<lambda>n. done_with (m + n)))"

text \<open>What a directory holds, in the order it is listed, and the media folders right in it; a call that reads may be refused, and
  then what it was for is skipped.\<close>

definition entries_of :: "place \<Rightarrow> volume \<Rightarrow> string list" where
  "entries_of base w = remdups (map (\<lambda>p. p ! length base) (filter (\<lambda>p. length p > length base \<and> take (length base) p = base) (map fst (media w))))"

definition folders_in :: "place \<Rightarrow> volume \<Rightarrow> place list" where
  "folders_in base w = filter (\<lambda>p. folder_at p w \<noteq> None) (map (\<lambda>n. base @ [n]) (entries_of base w))"

definition listing :: "os \<Rightarrow> (volume \<Rightarrow> nat fs_act) \<Rightarrow> nat fs_act" where
  "listing os m = then_with (attempt (nothing_but_call os)) (\<lambda>ok. if ok then looking m else done_with 0)"

definition sweep_category :: "os \<Rightarrow> dry_run_policy \<Rightarrow> bool \<Rightarrow> place \<Rightarrow> nat fs_act" where
  "sweep_category os policy dry_run category = listing os (\<lambda>w. sweep_each (sweep_media os policy dry_run) (folders_in category w))"

definition sweep_media_tree :: "os \<Rightarrow> dry_run_policy \<Rightarrow> bool \<Rightarrow> place \<Rightarrow> nat fs_act" where
  "sweep_media_tree os policy dry_run base = listing os (\<lambda>w.
     sweep_each (sweep_category os policy dry_run) (map (\<lambda>n. base @ [n]) (entries_of base w)))"

definition INGEST_TMP_PREFIX :: string where "INGEST_TMP_PREFIX = ''.ingest_tmp_''"

definition sweep_ingest_dir :: "os \<Rightarrow> dry_run_policy \<Rightarrow> bool \<Rightarrow> place \<Rightarrow> nat fs_act" where
  "sweep_ingest_dir os policy dry_run base = listing os (\<lambda>w.
     sweep_each (\<lambda>p. if has_prefix INGEST_TMP_PREFIX (last p) then remove_orphan (force_rmtree os p) policy dry_run else done_with 0)
       (folders_in base w))"

definition LOCKOUT_STALE_AGE_S :: real where "LOCKOUT_STALE_AGE_S = 3600"

definition unlink_lockout :: "os \<Rightarrow> place \<Rightarrow> unit fs_act" where
  "unlink_lockout os p = call (\<lambda>n w.
     if kills os n then (Inl Killed, w) else if refuses os n then (Inl Refused, w)
     else (Inr (), w\<lparr>lockouts := filter (\<lambda>(q, t). q \<noteq> p) (lockouts w)\<rparr>))"

definition sweep_lockout_file :: "os \<Rightarrow> real \<Rightarrow> dry_run_policy \<Rightarrow> bool \<Rightarrow> place \<Rightarrow> nat fs_act" where
  "sweep_lockout_file os time policy dry_run p = looking (\<lambda>w. case map_of (lockouts w) p of
     None \<Rightarrow> done_with 0
   | Some mtime \<Rightarrow> listing os (\<lambda>_.
       if time - mtime \<le> LOCKOUT_STALE_AGE_S then done_with 0 else remove_orphan (unlink_lockout os p) policy dry_run))"

datatype root_kind = MEDIA_TREE | INGEST_DIR | LOCKOUT_FILE

datatype sweep_error = Sandbox_Guard_Error

text \<open>\<open>config\<close> is \<open>assert_within_sandbox\<close> with the caller's configuration, if it gave one.\<close>

definition sweep_root :: "os \<Rightarrow> real \<Rightarrow> (place \<Rightarrow> bool) option \<Rightarrow> bool \<Rightarrow> place \<times> root_kind \<times> dry_run_policy \<Rightarrow> nat fs_act" where
  "sweep_root os time config dry_run = (\<lambda>(p, kind, policy).
     if kind \<noteq> LOCKOUT_FILE \<and> (case config of None \<Rightarrow> False | Some inside \<Rightarrow> \<not> inside p) then done_with 0
     else case kind of
       MEDIA_TREE \<Rightarrow> sweep_media_tree os policy dry_run p
     | INGEST_DIR \<Rightarrow> sweep_ingest_dir os policy dry_run p
     | LOCKOUT_FILE \<Rightarrow> sweep_lockout_file os time policy dry_run p)"

fun sweep_roots :: "os \<Rightarrow> real \<Rightarrow> (place \<Rightarrow> bool) option \<Rightarrow> bool \<Rightarrow> (place \<times> root_kind \<times> dry_run_policy) list \<Rightarrow> nat fs_act" where
  "sweep_roots os time config dry_run [] = done_with 0"
| "sweep_roots os time config dry_run (r # rs) =
     then_with (sweep_root os time config dry_run r) (\<lambda>m. then_with (sweep_roots os time config dry_run rs) (\<lambda>n. done_with (m + n)))"

definition sweep_orphans :: "os \<Rightarrow> real \<Rightarrow> bool \<Rightarrow> (place \<Rightarrow> bool) option \<Rightarrow> (place \<times> root_kind \<times> dry_run_policy) list \<Rightarrow> bool
    \<Rightarrow> (sweep_error + nat) fs_act" where
  "sweep_orphans os time sandboxed config roots dry_run =
     (if sandboxed \<and> config = None then done_with (Inl Sandbox_Guard_Error)
      else then_with (sweep_roots os time config dry_run roots) (\<lambda>n. done_with (Inr n)))"

end
