(* ===== verification/Dispatch.thy ===== *)
theory Dispatch
  imports Folder_Transfer Delete_Authority
begin

text \<open>
  The dispatch of one verified medium (\<open>dispatch/_item.py\<close>, \<open>dispatcher.py\<close>, \<open>_identity.py\<close>, \<open>conf/resolver.py\<close>): the
  folder it belongs to, the guards, the seed obligation of what it overwrites, the transfer, the journal, the index and the
  events. Parameters: the index's lookup, the ids of the descriptions, the mounts and the file systems found on them.
\<close>

subsection \<open>The configuration and the state\<close>

datatype media_kind = Film | Show

datatype dispatch_action = MOVED | REPLACED | MERGED | SKIPPED | ERROR

record index_entry =
  entry_name :: string
  entry_disk :: string
  entry_category :: string
  entry_path :: place
  entry_kind :: media_kind

record disk_config =
  disk_id :: string
  disk_path :: place
  disk_fs_type :: "string option"
  disk_categories :: "string list"

record dispatcher =
  disk_configs :: "disk_config list"
  is_mounted :: "place \<Rightarrow> bool"
  listable :: "place \<Rightarrow> bool"
  free_gb :: "place \<Rightarrow> real option"
  index_find :: "string \<Rightarrow> media_kind \<Rightarrow> place \<Rightarrow> index_entry option"
  inside_sandbox :: "place \<Rightarrow> bool"
  probe_mount :: "place \<Rightarrow> string option"
  nfo_ids :: "media_kind \<Rightarrow> place \<Rightarrow> (string \<rightharpoonup> string) option"
  min_free_gb :: real
  category_folder :: "string \<Rightarrow> string"
  on_known_disk :: "place \<Rightarrow> bool"
  dry_run :: bool
  has_store :: bool
  path_exists :: existence
  dispatch_clock :: int
  seeding_client :: "seed_client option"
  dispatch_economy :: economy
  dispatch_scope :: "torrent_scope option"
  run_uid :: "string option"

datatype dispatch_effect =
    ItemStarted string
  | Journaled string place
  | IndexAdded index_entry
  | PublishedMove place
  | ItemDispatched string string dispatch_action place

record dispatch_state =
  volumes :: volume
  obligations_db :: acquire_db
  dispatch_log :: "dispatch_effect list"

record dispatch_result =
  source_of :: place
  destination :: "place option"
  result_disk :: "string option"
  action :: dispatch_action

text \<open>A refusal no handler catches leaves the step; a kill ends the process.\<close>

type_synonym 'a dispatch_act = "(os_stop, dispatch_state, 'a) prog"

definition on_volumes :: "'a fs_act \<Rightarrow> 'a dispatch_act" where
  "on_volumes m s = (case m (volumes s) of (r, v) \<Rightarrow> (r, s\<lparr>volumes := v\<rparr>))"

definition log_dispatch :: "dispatch_effect \<Rightarrow> unit dispatch_act" where
  "log_dispatch e = writing (\<lambda>s. s\<lparr>dispatch_log := dispatch_log s @ [e]\<rparr>)"

subsection \<open>The disks\<close>

text \<open>\<open>get_disk_status\<close>: \<open>free_gb\<close> is \<open>None\<close> where the disk is not mounted, has no sandbox marker, or cannot be asked. The
  last disk of an id counts.\<close>

definition free_space :: "dispatcher \<Rightarrow> string \<Rightarrow> real" where
  "free_space dp i = (case List.find (\<lambda>d. disk_id d = i) (rev (disk_configs dp)) of
     None \<Rightarrow> 0
   | Some d \<Rightarrow> (case free_gb dp (disk_path d) of None \<Rightarrow> 0 | Some g \<Rightarrow> g))"

definition dir_size_gb :: "folder \<Rightarrow> real" where
  "dir_size_gb f = real (sum_list (map (\<lambda>(r, x). length x) f)) / 1024 ^ 3"

definition space_threshold :: "dispatcher \<Rightarrow> real \<Rightarrow> real" where
  "space_threshold dp size_gb = max (min_free_gb dp) (size_gb * (3 / 2))"

text \<open>Python's \<open>max\<close> with a key: the first of the greatest.\<close>

fun first_max :: "('a \<Rightarrow> real) \<Rightarrow> 'a \<Rightarrow> 'a list \<Rightarrow> 'a" where
  "first_max f x [] = x"
| "first_max f x (y # ys) = first_max f (if f y > f x then y else x) ys"

definition disks_accepting :: "dispatcher \<Rightarrow> string \<Rightarrow> disk_config list" where
  "disks_accepting dp category = filter (\<lambda>d. category \<in> set (disk_categories d)) (disk_configs dp)"

definition pick_disk_for :: "dispatcher \<Rightarrow> string \<Rightarrow> real \<Rightarrow> disk_config option" where
  "pick_disk_for dp category size_gb =
     (case filter (\<lambda>d. free_space dp (disk_id d) \<ge> space_threshold dp size_gb) (disks_accepting dp category) of
        [] \<Rightarrow> None
      | d # ds \<Rightarrow> Some (first_max (\<lambda>d. free_space dp (disk_id d)) d ds))"

definition folder_for :: "dispatcher \<Rightarrow> disk_config \<Rightarrow> string \<Rightarrow> place" where
  "folder_for dp d category = disk_path d @ [category_folder dp category]"

subsection \<open>The folder a medium already has\<close>

definition resolve_existing :: "dispatcher \<Rightarrow> volume \<Rightarrow> string \<Rightarrow> media_kind \<Rightarrow> place \<Rightarrow> index_entry option" where
  "resolve_existing dp v name kind media_dir =
     (let entry = index_find dp name kind media_dir;
          known = (case entry of None \<Rightarrow> False | Some e \<Rightarrow> folder_at (entry_path e) v \<noteq> None);
          names = name # (case entry of None \<Rightarrow> []
            | Some e \<Rightarrow> if last (entry_path e) \<noteq> [] \<and> last (entry_path e) \<noteq> name then [last (entry_path e)] else []);
          candidates = concat (map (\<lambda>d. if \<not> is_mounted dp (disk_path d) \<or> \<not> listable dp (disk_path d) then []
            else concat (map (\<lambda>c. map (\<lambda>n. (d, c, n)) names) (entries_of (disk_path d) v))) (disk_configs dp))
      in if known then entry
         else map_option (\<lambda>(d, c, n). \<lparr>entry_name = n, entry_disk = disk_id d,
             entry_category = (case entry of None \<Rightarrow> c | Some e \<Rightarrow> entry_category e), entry_path = disk_path d @ [c, n], entry_kind = kind\<rparr>)
           (List.find (\<lambda>(d, c, n). folder_at (disk_path d @ [c, n]) v \<noteq> None) candidates))"

subsection \<open>The guards\<close>

definition PROVIDERS :: "string list" where "PROVIDERS = [''tvdb_id'', ''tmdb_id'', ''imdb_id'']"

text \<open>An id that is empty counts as none.\<close>

definition ids_conflict :: "(string \<rightharpoonup> string) \<Rightarrow> (string \<rightharpoonup> string) \<Rightarrow> bool" where
  "ids_conflict a b \<longleftrightarrow> list_ex (\<lambda>p. case (a p, b p) of (Some x, Some y) \<Rightarrow> x \<noteq> [] \<and> y \<noteq> [] \<and> x \<noteq> y | _ \<Rightarrow> False) PROVIDERS"

definition identity_conflict :: "dispatcher \<Rightarrow> media_kind \<Rightarrow> place \<Rightarrow> place \<Rightarrow> bool" where
  "identity_conflict dp kind staging target = (case (nfo_ids dp kind staging, nfo_ids dp kind target) of
     (Some a, Some b) \<Rightarrow> ids_conflict a b
   | _ \<Rightarrow> False)"

text \<open>\<open>_disk_capabilities.get(id, NTFS_MACFUSE)\<close>, of a table filled from every disk: the last disk of an id counts.\<close>

definition capability_of :: "dispatcher \<Rightarrow> string \<Rightarrow> fs_capability" where
  "capability_of dp i = (case List.find (\<lambda>d. disk_id d = i) (rev (disk_configs dp)) of
     None \<Rightarrow> NTFS_MACFUSE
   | Some d \<Rightarrow> resolve_capability (probe_mount dp (disk_path d)) (disk_fs_type d))"

definition has_illegal_names :: "fs_capability \<Rightarrow> folder \<Rightarrow> bool" where
  "has_illegal_names cap f \<longleftrightarrow> (case illegal_name_regex cap of None \<Rightarrow> False | Some bad \<Rightarrow> list_ex (\<lambda>(r, x). bad (last r)) f)"

subsection \<open>What a merge destroys\<close>

definition VIDEO_EXTENSIONS :: "string list" where
  "VIDEO_EXTENSIONS = [''avi'', ''mkv'', ''mp4'', ''mpg'', ''mpeg'', ''mov'', ''wmv'', ''flv'', ''webm'', ''m4v'', ''ts'', ''m2ts'', ''mts'', ''3gp'', ''vob'', ''ogv'', ''rmvb'']"

text \<open>\<open>PurePath.suffix\<close> without its dot: none for a name that begins or ends with its last dot.\<close>

definition suffix_of :: "string \<Rightarrow> string" where
  "suffix_of name =
     (let ext = rev (takeWhile (\<lambda>c. c \<noteq> CHR ''.'') (rev name))
      in if CHR ''.'' \<in> set name \<and> length name > length ext + 1 \<and> ext \<noteq> [] then ext else [])"

definition is_library_content :: "rel \<Rightarrow> bool" where
  "is_library_content r \<longleftrightarrow> lower (suffix_of (last r)) \<in> set VIDEO_EXTENSIONS \<and> list_all (\<lambda>part. lower part \<noteq> ''trailers'') r"

datatype merge_impact = Overwrite | Metadata_Refresh | Add_Only

definition overwrites :: "folder \<Rightarrow> rel \<Rightarrow> bool" where
  "overwrites dst r \<longleftrightarrow> is_library_content r \<and>
     (map_of dst r \<noteq> None
      \<or> (case extract_season_episode (last r) of
           None \<Rightarrow> False
         | Some k \<Rightarrow> list_ex (\<lambda>(q, y). butlast q = butlast r \<and> is_library_content q \<and> extract_season_episode (last q) = Some k) dst))"

definition classify_merge_impact :: "folder \<Rightarrow> folder option \<Rightarrow> merge_impact" where
  "classify_merge_impact src dst = (case dst of
     None \<Rightarrow> Add_Only
   | Some dst \<Rightarrow>
       if list_ex (\<lambda>(r, x). overwrites dst r) src then Overwrite
       else if list_ex (\<lambda>(r, x). map_of dst r \<noteq> None) src then Metadata_Refresh else Add_Only)"

subsection \<open>One medium\<close>

definition existing_action :: "media_kind \<Rightarrow> dispatch_action" where
  "existing_action kind = (case kind of Film \<Rightarrow> REPLACED | Show \<Rightarrow> MERGED)"

text \<open>\<open>TransferOutcome\<close>: done, and what the journal says of it.\<close>

definition transfer_existing :: "os \<Rightarrow> fs_capability \<Rightarrow> media_kind \<Rightarrow> place \<Rightarrow> place \<Rightarrow> (bool \<times> string option) dispatch_act" where
  "transfer_existing os cap kind src dest = (case kind of
     Film \<Rightarrow> then_with (on_volumes (replace os cap src dest)) (\<lambda>ok. done_with (ok, if ok then Some ''overwrite'' else None))
   | Show \<Rightarrow> looking (\<lambda>s. let impact = classify_merge_impact (files_of src (volumes s)) (folder_at dest (volumes s)) in
       then_with (on_volumes (merge os cap src dest)) (\<lambda>ok. done_with (ok,
         if \<not> ok then None else case impact of Overwrite \<Rightarrow> Some ''overwrite'' | Metadata_Refresh \<Rightarrow> Some ''metadata-refresh'' | Add_Only \<Rightarrow> None))))"

text \<open>The permit's answer is read and a refusal marked as a breach: the overwrite goes on.\<close>

definition mark_if_owed :: "dispatcher \<Rightarrow> place \<Rightarrow> acquire_db \<Rightarrow> acquire_db" where
  "mark_if_owed dp dest a =
     (if has_store dp \<and> may_delete (Readable (seeds a)) (dispatch_clock dp) (path_exists dp) (path_text dest) \<noteq> Allow
      then mark_breach (path_text dest) (dispatch_clock dp) a else a)"

definition record_dispatched :: "dispatcher \<Rightarrow> place \<Rightarrow> place \<Rightarrow> folder \<Rightarrow> acquire_db \<Rightarrow> acquire_db" where
  "record_dispatched dp src dest f a =
     (if has_store dp then record_dispatch (seeding_client dp) (dispatch_economy dp) (dispatch_scope dp)
        (\<lambda>_. Some (int (sum_list (map (\<lambda>(r, x). length x) f)))) (run_uid dp) (dispatch_clock dp) (path_text src) (path_text dest) a
      else a)"

definition on_obligations :: "(acquire_db \<Rightarrow> acquire_db) \<Rightarrow> unit dispatch_act" where
  "on_obligations f = writing (\<lambda>s. s\<lparr>obligations_db := f (obligations_db s)\<rparr>)"

text \<open>After a transfer that was done.\<close>

definition register :: "dispatcher \<Rightarrow> media_kind \<Rightarrow> string \<Rightarrow> place \<Rightarrow> place \<Rightarrow> string \<Rightarrow> dispatch_action \<Rightarrow> unit dispatch_act" where
  "register dp kind category src dest disk act =
     then_do (log_dispatch (IndexAdded \<lparr>entry_name = (if act = MOVED then last src else last dest), entry_disk = disk, entry_category = category,
       entry_path = dest, entry_kind = kind\<rparr>))
     (then_do (if on_known_disk dp dest then log_dispatch (PublishedMove dest) else done_with ())
       (log_dispatch (ItemDispatched (last src) category act dest)))"

definition dispatch_existing :: "dispatcher \<Rightarrow> os \<Rightarrow> media_kind \<Rightarrow> place \<Rightarrow> string \<Rightarrow> index_entry \<Rightarrow> dispatch_result dispatch_act" where
  "dispatch_existing dp os kind src category e = looking (\<lambda>s.
     let dest = entry_path e; f = files_of src (volumes s); cap = capability_of dp (entry_disk e);
         result = (\<lambda>a. \<lparr>source_of = src, destination = Some dest, result_disk = Some (entry_disk e), action = a\<rparr>)
     in if \<not> (inside_sandbox dp dest \<and> inside_sandbox dp src) then done_with (result ERROR)
        else if free_space dp (entry_disk e) < space_threshold dp (dir_size_gb f) then done_with (result SKIPPED)
        else if has_illegal_names cap f then done_with (result SKIPPED)
        else if identity_conflict dp kind src dest then done_with (result SKIPPED)
        else if dry_run dp then done_with (result (existing_action kind))
        else then_do (on_obligations (mark_if_owed dp dest))
          (then_do (on_obligations (record_dispatched dp src dest f))
          (then_with (transfer_existing os cap kind src dest) (\<lambda>(ok, journal).
            if \<not> ok then done_with (result ERROR)
            else then_do (case journal of None \<Rightarrow> done_with () | Some op \<Rightarrow> log_dispatch (Journaled op dest))
              (then_do (register dp kind category src dest (entry_disk e) (existing_action kind))
                (done_with (result (existing_action kind))))))))"

definition dispatch_new :: "dispatcher \<Rightarrow> os \<Rightarrow> media_kind \<Rightarrow> place \<Rightarrow> string \<Rightarrow> dispatch_result dispatch_act" where
  "dispatch_new dp os kind src category = looking (\<lambda>s. let f = files_of src (volumes s) in
     case pick_disk_for dp category (dir_size_gb f) of
       None \<Rightarrow> done_with \<lparr>source_of = src, destination = None, result_disk = None, action = SKIPPED\<rparr>
     | Some d \<Rightarrow>
         (let dest = folder_for dp d category @ [last src]; cap = capability_of dp (disk_id d);
              result = (\<lambda>a. \<lparr>source_of = src, destination = Some dest, result_disk = Some (disk_id d), action = a\<rparr>)
          in if \<not> (inside_sandbox dp dest \<and> inside_sandbox dp src) then done_with (result ERROR)
             else if has_illegal_names cap f then done_with (result SKIPPED)
             else if dry_run dp then done_with (result MOVED)
             else then_do (on_obligations (record_dispatched dp src dest f))
               (then_with (on_volumes (move_new os cap src dest)) (\<lambda>ok.
                 if \<not> ok then done_with (result ERROR)
                 else then_do (register dp kind category src dest (disk_id d) MOVED) (done_with (result MOVED))))))"

definition dispatch_item :: "dispatcher \<Rightarrow> os \<Rightarrow> media_kind \<Rightarrow> place \<Rightarrow> string \<Rightarrow> dispatch_result dispatch_act" where
  "dispatch_item dp os kind src category = looking (\<lambda>s.
     case resolve_existing dp (volumes s) (last src) kind src of
       Some e \<Rightarrow> dispatch_existing dp os kind src category e
     | None \<Rightarrow> dispatch_new dp os kind src category)"

fun process_verified :: "dispatcher \<Rightarrow> os \<Rightarrow> (place \<times> media_kind \<times> string option) list \<Rightarrow> dispatch_result list dispatch_act" where
  "process_verified dp os [] = done_with []"
| "process_verified dp os ((src, kind, category) # vs) = then_do (log_dispatch (ItemStarted (last src)))
     (then_with (case category of
         None \<Rightarrow> done_with \<lparr>source_of = src, destination = None, result_disk = None, action = SKIPPED\<rparr>
       | Some c \<Rightarrow> if c = [] then done_with \<lparr>source_of = src, destination = None, result_disk = None, action = SKIPPED\<rparr>
           else dispatch_item dp os kind src c) (\<lambda>r.
       then_with (process_verified dp os vs) (\<lambda>rs. done_with (r # rs))))"

end
