(* ===== verification/Transfer_Facts.thy ===== *)
theory Transfer_Facts
  imports Folder_Transfer
begin

text \<open>
  What the transfers guarantee whatever the operating system refuses and wherever the process is killed: a film replaced, a
  folder moved, a show merged; and what the sweep of the leftovers may remove.
\<close>

subsection \<open>What holds of the volumes after a call\<close>

definition folders_of :: "volume \<Rightarrow> place \<Rightarrow> folder option" where
  "folders_of w p = folder_at p w"

lemma folders_of_simps: "folder_at p w = folders_of w p" "folders_of (put_folder p v w) = (folders_of w)(p := v)"
    "folders_of (w\<lparr>calls := n\<rparr>) = folders_of w" "folders_of (w\<lparr>lockouts := ls\<rparr>) = folders_of w"
proof -
  show "folders_of (w\<lparr>lockouts := ls\<rparr>) = folders_of w" by (simp add: folders_of_def folder_at_def fun_eq_iff)
qed (auto simp: folders_of_def fun_eq_iff)

definition held :: "((place \<Rightarrow> folder option) \<Rightarrow> bool) \<Rightarrow> volume \<Rightarrow> bool" where
  "held P w \<longleftrightarrow> P (folders_of w)"

text \<open>\<open>holds P m Q E\<close>: from \<open>P\<close>, a value leaves \<open>Q\<close>; a refusal or a kill leaves \<open>E\<close>.\<close>

definition holds :: "((place \<Rightarrow> folder option) \<Rightarrow> bool) \<Rightarrow> 'a fs_act \<Rightarrow> ('a \<Rightarrow> (place \<Rightarrow> folder option) \<Rightarrow> bool)
    \<Rightarrow> (os_stop \<Rightarrow> (place \<Rightarrow> folder option) \<Rightarrow> bool) \<Rightarrow> bool" where
  "holds P m Q E \<longleftrightarrow> triple (held P) m (\<lambda>x. held (Q x)) (\<lambda>e. held (E e))"

lemma holdsI: "(\<And>w. held P w \<Longrightarrow> case m w of (Inl e, w') \<Rightarrow> held (E e) w' | (Inr x, w') \<Rightarrow> held (Q x) w') \<Longrightarrow> holds P m Q E"
  by (simp add: holds_def triple_def)

lemma holdsD: "holds P m Q E \<Longrightarrow> held P w \<Longrightarrow> case m w of (Inl e, w') \<Rightarrow> held (E e) w' | (Inr x, w') \<Rightarrow> held (Q x) w'"
  by (simp add: holds_def triple_def)

lemma holds_call: "(\<And>n. holds P (f n) Q E) \<Longrightarrow> holds P (call f) Q E"
proof (rule holdsI)
  fix w
  assume "\<And>n. holds P (f n) Q E" and P: "held P w"
  then have "holds P (f (calls w)) Q E" by blast
  moreover have "held P (w\<lparr>calls := Suc (calls w)\<rparr>)" using P by (simp add: held_def folders_of_simps)
  ultimately show "case call f w of (Inl e, w') \<Rightarrow> held (E e) w' | (Inr x, w') \<Rightarrow> held (Q x) w'"
    unfolding call_def by (rule holdsD)
qed

lemma holds_then: "holds P m R E \<Longrightarrow> (\<And>x. holds (R x) (f x) Q E) \<Longrightarrow> holds P (then_with m f) Q E"
  unfolding holds_def by (rule triple_then)

lemma holds_do: "holds P m (\<lambda>_. R) E \<Longrightarrow> holds R n Q E \<Longrightarrow> holds P (then_do m n) Q E"
  unfolding holds_def by (rule triple_do)

lemma holds_done: "(\<And>v. P v \<Longrightarrow> Q x v) \<Longrightarrow> holds P (done_with x) Q E"
  by (rule holdsI) (simp add: held_def)

lemma holds_looking: "(\<And>w. held P w \<Longrightarrow> holds (\<lambda>v. P v \<and> v = folders_of w) (f w) Q E) \<Longrightarrow> holds P (looking f) Q E"
proof (rule holdsI)
  fix w
  assume "\<And>w. held P w \<Longrightarrow> holds (\<lambda>v. P v \<and> v = folders_of w) (f w) Q E" and P: "held P w"
  then have "holds (\<lambda>v. P v \<and> v = folders_of w) (f w) Q E" by blast
  moreover have "held (\<lambda>v. P v \<and> v = folders_of w) w" using P by (simp add: held_def)
  ultimately show "case looking f w of (Inl e, w') \<Rightarrow> held (E e) w' | (Inr x, w') \<Rightarrow> held (Q x) w'"
    unfolding act_simps by (rule holdsD)
qed

lemma holds_pre: "holds P m Q E \<Longrightarrow> (\<And>v. P' v \<Longrightarrow> P v) \<Longrightarrow> holds P' m Q E"
  unfolding holds_def by (erule triple_pre) (simp add: held_def)

lemma holds_post: "holds P m Q E \<Longrightarrow> (\<And>x v. Q x v \<Longrightarrow> Q' x v) \<Longrightarrow> (\<And>e v. E e v \<Longrightarrow> E' e v) \<Longrightarrow> holds P m Q' E'"
  unfolding holds_def by (erule triple_post) (simp_all add: held_def)

lemma run_cases:
  obtains (returned) x w' where "m w = (Inr x, w')" | (refused) w' where "m w = (Inl Refused, w')" | (killed) w' where "m w = (Inl Killed, w')"
proof -
  obtain r w' where r: "m w = (r, w')" by fastforce
  show ?thesis
  proof (cases r)
    case (Inl e)
    then show ?thesis using r refused killed by (cases e) auto
  qed (use r returned in auto)
qed

lemma holds_attempt: "holds P m (\<lambda>_. Q) E \<Longrightarrow> holds P (attempt m) (\<lambda>ok. if ok then Q else E Refused) E"
proof (rule holdsI)
  fix w
  assume "holds P m (\<lambda>_. Q) E" "held P w"
  then have "case m w of (Inl e, w') \<Rightarrow> held (E e) w' | (Inr x, w') \<Rightarrow> held Q w'" by (rule holdsD)
  then show "case attempt m w of (Inl e, w') \<Rightarrow> held (E e) w' | (Inr ok, w') \<Rightarrow> held (if ok then Q else E Refused) w'"
    by (cases m w rule: run_cases) (simp_all add: attempt_def)
qed

lemma holds_quietly: "holds P m (\<lambda>_. Q) E \<Longrightarrow> (\<And>v. E Refused v \<Longrightarrow> Q v) \<Longrightarrow> holds P (quietly m) (\<lambda>_. Q) E"
  unfolding quietly_def by (rule holds_then [OF holds_attempt]) (auto intro!: holds_done split: if_splits)

lemma holds_on_refusal:
  assumes "holds P m Q E" and "holds (E Refused) h Q E'" and "\<And>v. E Killed v \<Longrightarrow> E' Killed v"
  shows "holds P (on_refusal m h) Q E'"
proof (rule holdsI)
  fix w
  assume "held P w"
  with assms(1) have body: "case m w of (Inl e, w') \<Rightarrow> held (E e) w' | (Inr x, w') \<Rightarrow> held (Q x) w'" by (rule holdsD)
  show "case on_refusal m h w of (Inl e, w') \<Rightarrow> held (E' e) w' | (Inr x, w') \<Rightarrow> held (Q x) w'"
  proof (cases m w rule: run_cases)
    case (returned x w')
    then show ?thesis using body by (simp add: on_refusal_def)
  next
    case (refused w')
    then have "held (E Refused) w'" using body by simp
    then show ?thesis using holdsD [OF assms(2)] refused by (simp add: on_refusal_def)
  next
    case (killed w')
    then show ?thesis using body assms(3) by (simp add: on_refusal_def held_def)
  qed
qed

lemma holds_nothing_but_call: "(\<And>v. P v \<Longrightarrow> Q v) \<Longrightarrow> (\<And>v e. P v \<Longrightarrow> E e v) \<Longrightarrow> holds P (nothing_but_call os) (\<lambda>_. Q) E"
  unfolding nothing_but_call_def by (rule holds_call, rule holdsI) (simp add: held_def)

lemma holds_rename:
  assumes "\<And>v e. P v \<Longrightarrow> E e v"
    and "\<And>v f. P v \<Longrightarrow> v a = Some f \<Longrightarrow> v b = None \<or> v b = Some [] \<Longrightarrow> Q (v(a := None, b := Some f))"
  shows "holds P (fs_rename os a b) (\<lambda>_. Q) E"
  unfolding fs_rename_def
proof (rule holds_call, rule holdsI)
  fix n w
  assume P: "held P w"
  have free: "folders_of w b = None \<or> folders_of w b = Some []" if "files_of b w = []"
    using that by (cases "folder_at b w") (simp_all add: files_of_def folders_of_def)
  show "case (if kills os n then (Inl Killed, w)
       else case folder_at a w of None \<Rightarrow> (Inl Refused, w)
         | Some f \<Rightarrow> if refuses os n \<or> files_of b w \<noteq> [] then (Inl Refused, w)
             else (Inr (), put_folder b (Some f) (put_folder a None w))) of
      (Inl e, w') \<Rightarrow> held (E e) w' | (Inr x, w') \<Rightarrow> held Q w'"
    using assms(1) [of "folders_of w"] assms(2) [of "folders_of w"] P free by (simp add: held_def folders_of_simps split: option.split)
qed

definition left_of :: "os \<Rightarrow> nat \<Rightarrow> folder \<Rightarrow> folder" where
  "left_of os n f = filter (\<lambda>(r, x). undeleted os n r) f"

lemma holds_rmtree:
  assumes "\<And>v e. P v \<Longrightarrow> v p = None \<Longrightarrow> E e v"
    and "\<And>v f n e. P v \<Longrightarrow> v p = Some f \<Longrightarrow> e = Refused \<Longrightarrow> refuses os n \<or> left_of os n f \<noteq> [] \<Longrightarrow> E e (v(p := Some (left_of os n f)))"
    and "\<And>v f n e. P v \<Longrightarrow> v p = Some f \<Longrightarrow> e = Killed \<Longrightarrow> E e (v(p := Some (left_of os n f)))"
    and "\<And>v. P v \<Longrightarrow> Q (v(p := None))"
  shows "holds P (force_rmtree os p) (\<lambda>_. Q) E"
  unfolding force_rmtree_def
proof (rule holds_call, rule holdsI)
  fix n w
  assume P: "held P w"
  have gone: "Q (folders_of w)" if "folders_of w p = None"
    using assms(4) [of "folders_of w"] P that by (simp add: held_def fun_upd_idem)
  have left: "refuses os n \<or> left_of os n f \<noteq> [] \<Longrightarrow> E Refused ((folders_of w)(p := Some (left_of os n f)))"
      "E Killed ((folders_of w)(p := Some (left_of os n f)))" if "folders_of w p = Some f" for f
    using assms(2) [of "folders_of w" f Refused n] assms(3) [of "folders_of w" f Killed n] P that by (simp_all add: held_def)
  show "case (case folder_at p w of None \<Rightarrow> if kills os n then (Inl Killed, w) else (Inr (), w)
       | Some f \<Rightarrow> let left = filter (\<lambda>(r, x). undeleted os n r) f in
           if kills os n then (Inl Killed, put_folder p (Some left) w)
           else if left \<noteq> [] \<or> refuses os n then (Inl Refused, put_folder p (Some left) w)
           else (Inr (), put_folder p None w)) of
      (Inl e, w') \<Rightarrow> held (E e) w' | (Inr x, w') \<Rightarrow> held Q w'"
    using gone left assms(1) [of "folders_of w"] assms(4) [of "folders_of w"] P
    by (auto simp: held_def folders_of_simps Let_def left_of_def [symmetric] split: option.split)
qed

lemma holds_rm_if_there:
  assumes "\<And>v e. P v \<Longrightarrow> v p = None \<Longrightarrow> E e v"
    and "\<And>v f n e. P v \<Longrightarrow> v p = Some f \<Longrightarrow> e = Refused \<Longrightarrow> refuses os n \<or> left_of os n f \<noteq> [] \<Longrightarrow> E e (v(p := Some (left_of os n f)))"
    and "\<And>v f n e. P v \<Longrightarrow> v p = Some f \<Longrightarrow> e = Killed \<Longrightarrow> E e (v(p := Some (left_of os n f)))"
    and "\<And>v. P v \<Longrightarrow> Q (v(p := None))"
  shows "holds P (rm_if_there os p) (\<lambda>_. Q) E"
  unfolding rm_if_there_def
proof (rule holds_looking)
  fix w
  have rm: "holds P (force_rmtree os p) (\<lambda>_. Q) E" by (rule holds_rmtree) (fact assms)+
  show "holds (\<lambda>v. P v \<and> v = folders_of w) (if folder_at p w \<noteq> None then force_rmtree os p else done_with ()) (\<lambda>_. Q) E"
  proof (cases "folders_of w p")
    case None
    have "Q v" if "P v" "v p = None" for v using assms(4) [OF that(1)] that(2) by (simp add: fun_upd_idem)
    then show ?thesis using None by (auto intro!: holds_done simp: folders_of_simps)
  next
    case (Some f)
    then have "(if folder_at p w \<noteq> None then force_rmtree os p else done_with ()) = force_rmtree os p" by (simp add: folders_of_simps)
    moreover have "holds (\<lambda>v. P v \<and> v = folders_of w) (force_rmtree os p) (\<lambda>_. Q) E" by (rule holds_pre [OF rm]) simp
    ultimately show ?thesis by simp
  qed
qed

lemma holds_rsync:
  assumes "\<And>v e. P v \<Longrightarrow> E e v" and "\<And>v n e. P v \<Longrightarrow> E e (v(dest := snd (rsync_run os n argv (v source) (v dest))))"
    and "\<And>v n. P v \<Longrightarrow> Q (fst (rsync_run os n argv (v source) (v dest))) (v(dest := snd (rsync_run os n argv (v source) (v dest))))"
  shows "holds P (run_rsync os argv source dest) Q E"
  unfolding run_rsync_def
  by (rule holds_call, rule holdsI) (use assms in \<open>simp add: Let_def case_prod_beta held_def folders_of_simps\<close>)

lemma holds_verify: "(\<And>v e. P v \<Longrightarrow> E e v) \<Longrightarrow> (\<And>v ok. P v \<Longrightarrow> Q ok v) \<Longrightarrow> holds P (verify_transfer os source dest) Q E"
  unfolding verify_transfer_def by (rule holds_call, rule holdsI) (simp add: held_def)

subsection \<open>The files of a folder\<close>

definition file_in :: "folder option \<Rightarrow> rel \<Rightarrow> string option" where
  "file_in v r = Option.bind v (\<lambda>f. map_of f r)"

lemma map_of_filter_keys: "map_of (filter (\<lambda>(r, x). P r) f) q = (if P q then map_of f q else None)"
  by (induction f) auto

lemma file_in_simps [simp]:
  "file_in (Some (filter (\<lambda>(r, x). P r) f)) q = (if P q then file_in (Some f) q else None)"
  "file_in (Some ((r, x) # f)) q = (if q = r then Some x else file_in (Some f) q)"
  "file_in None q = None"
  by (simp_all add: file_in_def map_of_filter_keys)

lemma file_in_files_of: "file_in (Some (files_of p w)) r = file_in (folders_of w p) r"
  by (cases "folder_at p w") (simp_all add: files_of_def file_in_def folders_of_def)

subsection \<open>What rsync promises\<close>

text \<open>What the arguments leave out: \<open>--exclude=.DS_Store\<close> and \<open>--exclude=._*\<close> hold for every component of a path.\<close>

definition excluded :: "string list \<Rightarrow> rel \<Rightarrow> bool" where
  "excluded argv r \<longleftrightarrow> list_ex (\<lambda>c. ''--exclude=.DS_Store'' \<in> set argv \<and> c = ''.DS_Store'' \<or> ''--exclude=._*'' \<in> set argv \<and> has_prefix ''._'' c) r"

text \<open>The source has a file or a directory of this name, and it is not left out.\<close>

definition names :: "string list \<Rightarrow> folder \<Rightarrow> rel \<Rightarrow> bool" where
  "names argv S r \<longleftrightarrow> \<not> excluded argv r \<and> list_ex (\<lambda>(q, x). take (length r) q = r) S"

text \<open>A file of the backup that this run may write: of a name of the source that the target had.\<close>

definition set_aside :: "string list \<Rightarrow> folder \<Rightarrow> folder option \<Rightarrow> rel \<Rightarrow> bool" where
  "set_aside argv S dst r \<longleftrightarrow> ''--backup'' \<in> set argv \<and> in_backup r \<and> names argv S (tl r) \<and> file_in dst (tl r) \<noteq> None"

text \<open>
  What the manual says of a run without \<open>--delete\<close> and with \<open>--inplace\<close>. Whatever becomes of it, it touches no file of the target
  but those the source names, and those of its own backup; nothing is said of the bytes of either. If it returns 0 every
  file of the source that is not left out is in the target, but where the target had a file of its size the quick check
  (there is no \<open>--checksum\<close>) may have let that one stand; and what is new there is of the source. The backup directory of
  every command of the code is the target's own.
\<close>

definition landed_by :: "string list \<Rightarrow> folder \<Rightarrow> (rel \<Rightarrow> string option) \<Rightarrow> (rel \<Rightarrow> string option) \<Rightarrow> bool" where
  "landed_by argv S old f \<longleftrightarrow> (\<forall>r x. map_of S r = Some x \<and> \<not> excluded argv r \<longrightarrow>
     f r = Some x \<or> (\<exists>y. old r = Some y \<and> length y = length x \<and> f r = Some y))"

definition rsync_documented :: "os \<Rightarrow> bool" where
  "rsync_documented os \<longleftrightarrow> (\<forall>n argv S dst. ''--delete'' \<notin> set argv \<and> ''--inplace'' \<in> set argv \<longrightarrow>
     (let (ok, g) = rsync_run os n argv (Some S) dst; old = file_in dst; new = file_in g in
        (\<forall>r. new r = old r \<or> names argv S r \<or> set_aside argv S dst r)
      \<and> (ok \<longrightarrow> g \<noteq> None \<and> landed_by argv S old new
          \<and> (\<forall>r y. new r = Some y \<longrightarrow> old r = Some y \<or> map_of S r = Some y \<and> \<not> excluded argv r \<or> set_aside argv S dst r))))"

text \<open>The arguments of the code's commands.\<close>

lemma flag_of_cmd:
  assumes "flag \<in> {''--delete'', ''--inplace'', ''--backup'', ''--exclude=.DS_Store'', ''--exclude=._*''}"
  shows "flag \<in> set (build_rsync_cmd source dest cap delete b) \<longleftrightarrow>
    flag \<in> set (rsync_flags cap) \<or> flag = ''--delete'' \<and> delete \<or> flag = ''--backup'' \<and> b \<noteq> None"
proof -
  have flag: "flag \<noteq> []" "hd flag = CHR ''-''" "flag \<noteq> ''rsync''" "flag \<noteq> ''--backup-dir='' @ x" for x using assms by auto
  have "p = [] \<or> hd (path_text p) = CHR ''/''" for p by (cases p) (simp_all add: path_text_def)
  then have "flag \<noteq> path_text p" "flag \<noteq> path_text p @ ''/''" for p
    using flag(1,2) by (cases p; auto simp: path_text_def)+
  then show ?thesis using assms flag(3,4) by (cases b) (auto simp: build_rsync_cmd_def)
qed

lemma capabilities: "cap \<in> set CAPABILITY_TABLE \<Longrightarrow> ''--inplace'' \<in> set (rsync_flags cap) \<and> ''--delete'' \<notin> set (rsync_flags cap) \<and> ''--backup'' \<notin> set (rsync_flags cap)"
  by (auto simp: CAPABILITY_TABLE_def NTFS_MACFUSE_def UNKNOWN_FS_def APFS_def HFSPLUS_def EXFAT_def EXT4_def NTFS_RSYNC_FLAGS_def POSIX_RSYNC_FLAGS_def
      EXFAT_RSYNC_FLAGS_def)

lemma capability_in_table: "capability_for t \<in> set CAPABILITY_TABLE" "resolve_capability probed override \<in> set CAPABILITY_TABLE"
proof -
  show known: "capability_for t \<in> set CAPABILITY_TABLE" for t
  proof (cases "List.find (\<lambda>cap. fs_type cap = t) CAPABILITY_TABLE")
    case None
    then show ?thesis by (simp add: capability_for_def CAPABILITY_TABLE_def)
  next
    case (Some cap)
    then have "cap \<in> set CAPABILITY_TABLE" by (auto simp: find_Some_iff)
    then show ?thesis using Some by (simp add: capability_for_def)
  qed
  show "resolve_capability probed override \<in> set CAPABILITY_TABLE" by (simp add: resolve_capability_def known split: option.split)
qed

lemma excluded_by_cmd: "excluded (build_rsync_cmd source dest cap delete b) = excluded (rsync_flags cap)"
  by (simp add: excluded_def flag_of_cmd fun_eq_iff)

lemma by_cmd: "names (build_rsync_cmd source dest cap delete b) = names (rsync_flags cap)"
    "landed_by (build_rsync_cmd source dest cap delete b) = landed_by (rsync_flags cap)"
  by (simp_all add: names_def landed_by_def excluded_by_cmd fun_eq_iff)

lemma rsync_run_facts:
  assumes "rsync_documented os" "cap \<in> set CAPABILITY_TABLE"
    and run: "rsync_run os n (build_rsync_cmd source dest cap False b) (Some S) dst = (ok, g)"
  defines "flags \<equiv> rsync_flags cap"
  shows "file_in g r = file_in dst r \<or> names flags S r \<or> b \<noteq> None \<and> in_backup r \<and> names flags S (tl r) \<and> file_in dst (tl r) \<noteq> None"
    and "ok \<Longrightarrow> g \<noteq> None" and "ok \<Longrightarrow> landed_by flags S (file_in dst) (file_in g)"
    and "ok \<Longrightarrow> b = None \<Longrightarrow> file_in g r = Some y \<Longrightarrow> file_in dst r = Some y \<or> map_of S r = Some y \<and> \<not> excluded flags r"
proof -
  let ?argv = "build_rsync_cmd source dest cap False b"
  have flags: "''--delete'' \<notin> set ?argv" "''--inplace'' \<in> set ?argv" "''--backup'' \<in> set ?argv \<longleftrightarrow> b \<noteq> None"
    using capabilities [OF assms(2)] by (simp_all add: flag_of_cmd)
  have aside: "set_aside ?argv S dst r \<longleftrightarrow> b \<noteq> None \<and> in_backup r \<and> names flags S (tl r) \<and> file_in dst (tl r) \<noteq> None" for r
    by (simp add: set_aside_def flags(3) by_cmd flags_def)
  have "(\<forall>r. file_in g r = file_in dst r \<or> names ?argv S r \<or> set_aside ?argv S dst r)
      \<and> (ok \<longrightarrow> g \<noteq> None \<and> landed_by ?argv S (file_in dst) (file_in g)
          \<and> (\<forall>r y. file_in g r = Some y \<longrightarrow> file_in dst r = Some y \<or> map_of S r = Some y \<and> \<not> excluded ?argv r \<or> set_aside ?argv S dst r))"
    using assms(1) [unfolded rsync_documented_def, rule_format, OF conjI [OF flags(1,2)], of n S dst] run by (simp add: Let_def)
  then show "file_in g r = file_in dst r \<or> names flags S r \<or> b \<noteq> None \<and> in_backup r \<and> names flags S (tl r) \<and> file_in dst (tl r) \<noteq> None"
    "ok \<Longrightarrow> g \<noteq> None" "ok \<Longrightarrow> landed_by flags S (file_in dst) (file_in g)"
    "ok \<Longrightarrow> b = None \<Longrightarrow> file_in g r = Some y \<Longrightarrow> file_in dst r = Some y \<or> map_of S r = Some y \<and> \<not> excluded flags r"
    unfolding aside unfolding by_cmd excluded_by_cmd flags_def by blast+
qed

subsection \<open>A film replaced\<close>

text \<open>The folder has the files of the source that are not left out, with their bytes, and no other.\<close>

definition whole :: "fs_capability \<Rightarrow> folder \<Rightarrow> folder option \<Rightarrow> bool" where
  "whole cap S v \<longleftrightarrow> (\<exists>N. v = Some N \<and> (\<forall>r. map_of N r = (if excluded (rsync_flags cap) r then None else map_of S r)))"

lemma rsync_copies_new:
  assumes "rsync_documented os" "cap \<in> set CAPABILITY_TABLE"
    and ok: "fst (rsync_run os n (build_rsync_cmd source dest cap False None) (Some S) None)"
  shows "whole cap S (snd (rsync_run os n (build_rsync_cmd source dest cap False None) (Some S) None))"
proof -
  obtain g where run: "rsync_run os n (build_rsync_cmd source dest cap False None) (Some S) None = (True, g)"
    using ok by (metis (full_types) prod.collapse)
  note facts = rsync_run_facts [OF assms(1,2) run]
  obtain N where N: "g = Some N" using facts(2) by blast
  have in_N: "file_in g r = map_of N r" for r by (simp add: N file_in_def)
  have "map_of N r = (if excluded (rsync_flags cap) r then None else map_of S r)" for r
  proof (cases "map_of N r")
    case None
    then show ?thesis using facts(3) by (cases "map_of S r"; cases "excluded (rsync_flags cap) r") (auto simp: landed_by_def in_N)
  next
    case (Some y)
    then show ?thesis using facts(4) [of r y] by (simp add: in_N)
  qed
  then show ?thesis by (simp add: run N whole_def)
qed

lemma beside_neq: "dest \<noteq> [] \<Longrightarrow> pre @ suf \<noteq> [] \<Longrightarrow> beside pre suf dest \<noteq> dest"
proof
  assume d: "dest \<noteq> []" and "pre @ suf \<noteq> []" and eq: "beside pre suf dest = dest"
  have "last (beside pre suf dest) = pre @ last dest @ suf" by (simp add: beside_def)
  then have "length (last dest) = length (pre @ last dest @ suf)" using eq by simp
  then show False using \<open>pre @ suf \<noteq> []\<close> by simp
qed

text \<open>After a replacement that failed: the source is whole, and the old film is at its place, or beside it with the place free.\<close>

definition unreplaced :: "place \<Rightarrow> place \<Rightarrow> folder \<Rightarrow> folder option \<Rightarrow> (place \<Rightarrow> folder option) \<Rightarrow> bool" where
  "unreplaced source dest S old v \<longleftrightarrow> v source = Some S \<and>
     (let tmp_old = beside [] ''.old.tmp'' dest in v dest = old \<and> v tmp_old = None \<or> v dest = None \<and> v tmp_old = old)"

lemma replace_state:
  assumes law: "rsync_documented os" "cap \<in> set CAPABILITY_TABLE" and places: "dest \<noteq> []" "source \<notin> {dest, beside [] ''.new.tmp'' dest, beside [] ''.old.tmp'' dest}"
    and start: "folder_at source w = Some S" "folder_at dest w = old"
      "folder_at (beside [] ''.new.tmp'' dest) w = None" "folder_at (beside [] ''.old.tmp'' dest) w = None"
  shows "case replace os cap source dest w of
      (Inr True, w') \<Rightarrow> whole cap S (folder_at dest w')
    | (Inr False, w') \<Rightarrow> unreplaced source dest S old (folders_of w')
    | (Inl _, w') \<Rightarrow> whole cap S (folder_at dest w') \<or> unreplaced source dest S old (folders_of w')"
proof -
  define new where "new = beside [] ''.new.tmp'' dest"
  define bak where "bak = beside [] ''.old.tmp'' dest"
  have "new \<noteq> dest" "bak \<noteq> dest" unfolding new_def bak_def by (rule beside_neq, fact, simp)+
  moreover have "new \<noteq> bak" by (simp add: new_def bak_def beside_def)
  ultimately have names: "new \<noteq> dest" "bak \<noteq> dest" "new \<noteq> bak" "source \<noteq> dest" "source \<noteq> new" "source \<noteq> bak"
    using places by (auto simp: new_def bak_def)
  define U where "U = unreplaced source dest S old"
  have U: "U v \<longleftrightarrow> v source = Some S \<and> (v dest = old \<and> v bak = None \<or> v dest = None \<and> v bak = old)" for v
    unfolding U_def unreplaced_def bak_def Let_def ..
  define W where "W = (\<lambda>v :: place \<Rightarrow> folder option. whole cap S (v dest))"
  define E where "E = (\<lambda>e :: os_stop. \<lambda>v. W v \<or> U v)"
  define start where "start = (\<lambda>v :: place \<Rightarrow> folder option. v source = Some S \<and> v dest = old \<and> v bak = None \<and> v new = None)"
  define ready where "ready = (\<lambda>v :: place \<Rightarrow> folder option. v source = Some S \<and> v dest = old \<and> v bak = None \<and> whole cap S (v new))"
  have copy: "holds start (rsync os False cap source new) (\<lambda>ok. if ok then ready else U) E"
    unfolding rsync_def
  proof (rule holds_rsync)
    fix v n
    assume v: "start v"
    let ?run = "rsync_run os n (build_rsync_cmd source new cap False None)"
    show "(if fst (?run (v source) (v new)) then ready else U) (v(new := snd (?run (v source) (v new))))"
      using v names rsync_copies_new [OF law, of n source new S] by (simp add: start_def ready_def U)
  qed (use names in \<open>auto simp: start_def U E_def\<close>)
  have swap: "holds ready (swap os dest new bak) (\<lambda>_. W) (\<lambda>e. if e = Refused then U else E e)"
    unfolding swap_def
  proof (rule holds_do)
    show "holds ready (looking (\<lambda>w. if folder_at dest w \<noteq> None then fs_rename os dest bak else done_with ()))
        (\<lambda>_ v. U v \<and> v dest = None \<and> whole cap S (v new)) (\<lambda>e. if e = Refused then U else E e)"
    proof (rule holds_looking)
      fix w
      show "holds (\<lambda>v. ready v \<and> v = folders_of w) (if folder_at dest w \<noteq> None then fs_rename os dest bak else done_with ())
          (\<lambda>_ v. U v \<and> v dest = None \<and> whole cap S (v new)) (\<lambda>e. if e = Refused then U else E e)"
        by (cases "folders_of w dest") (use names in \<open>auto intro!: holds_done holds_rename simp: ready_def U E_def folders_of_simps\<close>)
    qed
    show "holds (\<lambda>v. U v \<and> v dest = None \<and> whole cap S (v new)) (fs_rename os new dest) (\<lambda>_. W) (\<lambda>e. if e = Refused then U else E e)"
      by (rule holds_rename) (use names in \<open>auto simp: E_def W_def whole_def\<close>)
  qed
  have restore: "holds U (restore_old os dest bak) (\<lambda>_. U) (\<lambda>_. U)"
    unfolding restore_old_def
  proof (rule holds_looking)
    fix w
    show "holds (\<lambda>v. U v \<and> v = folders_of w) (if folder_at bak w \<noteq> None \<and> folder_at dest w = None then fs_rename os bak dest else done_with ())
        (\<lambda>_. U) (\<lambda>_. U)"
      using names by (auto intro!: holds_done holds_rename simp: U)
  qed
  have rm_new: "holds U (rm_if_there os new) (\<lambda>_. U) (\<lambda>_. U)" by (rule holds_rm_if_there) (use names in \<open>auto simp: U\<close>)
  have keep_new: "holds W (rm_if_there os bak) (\<lambda>_. W) (\<lambda>_. W)" by (rule holds_rm_if_there) (use names in \<open>auto simp: W_def\<close>)
  have rm_source: "holds W (force_rmtree os source) (\<lambda>_. W) (\<lambda>_. W)" by (rule holds_rmtree) (use names in \<open>auto simp: W_def\<close>)
  define Q where "Q = (\<lambda>ok. if ok then W else U)"
  have quiet: "holds P (quietly m) (\<lambda>_. P) E" if "holds P m (\<lambda>_. P) (\<lambda>_. P)" "P = W \<or> P = U" for P m
    by (rule holds_post [OF holds_quietly [OF that(1)]]) (use that(2) in \<open>auto simp: E_def\<close>)
  have "holds start (replace os cap source dest) Q E"
    unfolding replace_def Let_def new_def [symmetric] bak_def [symmetric]
  proof (rule holds_then [OF copy])
    fix ok
    show "holds (if ok then ready else U)
        (if \<not> ok then then_do (quietly (rm_if_there os new)) (done_with False)
         else then_with (attempt (swap os dest new bak)) (\<lambda>swapped.
           if swapped then then_do (quietly (rm_if_there os bak)) (then_do (quietly (force_rmtree os source)) (done_with True))
           else then_do (quietly (restore_old os dest bak)) (then_do (quietly (rm_if_there os new)) (done_with False)))) Q E"
    proof (cases ok)
      case True
      have "holds ready (attempt (swap os dest new bak)) (\<lambda>swapped. if swapped then W else U) E"
        by (rule holds_post [OF holds_attempt [OF swap]]) (auto simp: E_def split: if_splits)
      then have "holds ready (then_with (attempt (swap os dest new bak)) (\<lambda>swapped.
           if swapped then then_do (quietly (rm_if_there os bak)) (then_do (quietly (force_rmtree os source)) (done_with True))
           else then_do (quietly (restore_old os dest bak)) (then_do (quietly (rm_if_there os new)) (done_with False)))) Q E"
        by (rule holds_then) (auto simp: Q_def intro!: holds_do [OF quiet [OF keep_new]] holds_do [OF quiet [OF rm_source]]
            holds_do [OF quiet [OF restore]] holds_do [OF quiet [OF rm_new]] holds_done)
      then show ?thesis using True by simp
    next
      case False
      have "holds U (then_do (quietly (rm_if_there os new)) (done_with False)) Q E"
        by (rule holds_do [OF quiet [OF rm_new]]) (auto intro!: holds_done simp: Q_def)
      then show ?thesis using False by simp
    qed
  qed
  moreover have "held start w" using start by (simp add: held_def start_def new_def bak_def folders_of_simps)
  ultimately have "case replace os cap source dest w of (Inl e, w') \<Rightarrow> held (E e) w' | (Inr x, w') \<Rightarrow> held (Q x) w'" by (rule holdsD)
  then show ?thesis by (auto simp: held_def Q_def E_def W_def U_def folders_of_simps split: prod.splits sum.splits if_splits bool.splits)
qed

text \<open>C16: a replacement never loses a film, whatever the system refuses and wherever the process or \<open>rsync\<close> is killed: when it answers
  that it is done the new film is at its place, every file of it but those rsync is told to leave out (\<open>.DS_Store\<close>, \<open>._*\<close>,
  where the file system of the disk has them left out), byte for byte, and nothing else; when it answers that it failed, the
  source is whole and the old film is at its place, or under its backup name if putting it back was refused too; killed,
  one or the other. That no \<open>.new.tmp\<close> and no \<open>.old.tmp\<close> of an earlier replacement is beside the film is assumed.\<close>

theorem replace_never_loses_a_film:
  assumes law: "rsync_documented os" "cap \<in> set CAPABILITY_TABLE" and places: "dest \<noteq> []" "source \<notin> {dest, beside [] ''.new.tmp'' dest, beside [] ''.old.tmp'' dest}"
    and start: "folder_at source w = Some S" "folder_at dest w = old"
      "folder_at (beside [] ''.new.tmp'' dest) w = None" "folder_at (beside [] ''.old.tmp'' dest) w = None"
  shows "case replace os cap source dest w of
      (Inr True, w') \<Rightarrow> whole cap S (folder_at dest w')
    | (Inr False, w') \<Rightarrow> unreplaced source dest S old (folders_of w')
    | (Inl _, w') \<Rightarrow> whole cap S (folder_at dest w') \<or> unreplaced source dest S old (folders_of w')"
  by (rule replace_state [OF assms])

subsection \<open>A folder moved\<close>

text \<open>A removal that is refused removed nothing.\<close>

definition removals_whole :: "os \<Rightarrow> bool" where
  "removals_whole os \<longleftrightarrow> (\<forall>n. (\<forall>r. undeleted os n r) \<or> \<not> refuses os n \<and> (\<forall>r. \<not> undeleted os n r))"

lemma left_of_whole: "removals_whole os \<Longrightarrow> refuses os n \<or> left_of os n f \<noteq> [] \<Longrightarrow> left_of os n f = f"
  unfolding removals_whole_def left_of_def by (cases "\<forall>r. undeleted os n r") (auto simp: filter_empty_conv intro!: filter_True)

lemma move_state:
  assumes law: "rsync_documented os" "cap \<in> set CAPABILITY_TABLE" "removals_whole os" and places: "dest \<noteq> []" "source \<notin> {dest, beside DISPATCH_TMP_PREFIX [] dest}"
    and start: "folder_at source w = Some S" "folder_at dest w = None"
  shows "case move_new os cap source dest w of
      (Inr True, w') \<Rightarrow> whole cap S (folder_at dest w')
    | (Inr False, w') \<Rightarrow> folder_at source w' = Some S
    | (Inl _, w') \<Rightarrow> whole cap S (folder_at dest w') \<or> folder_at source w' = Some S"
proof -
  define tmp where "tmp = beside DISPATCH_TMP_PREFIX [] dest"
  have "tmp \<noteq> dest" unfolding tmp_def by (rule beside_neq, fact) (simp add: DISPATCH_TMP_PREFIX_def)
  then have names: "tmp \<noteq> dest" "source \<noteq> dest" "source \<noteq> tmp" using places by (auto simp: tmp_def)
  define K where "K = (\<lambda>v :: place \<Rightarrow> folder option. v source = Some S)"
  define W where "W = (\<lambda>v :: place \<Rightarrow> folder option. whole cap S (v dest))"
  define E where "E = (\<lambda>e :: os_stop. \<lambda>v. K v \<or> W v \<and> e = Killed)"
  define Q where "Q = (\<lambda>ok. if ok then W else K)"
  define P where "P = (\<lambda>v :: place \<Rightarrow> folder option. K v \<and> v dest = None)"
  have quiet: "holds K (quietly (rm_if_there os p)) (\<lambda>_. K) E" if "p \<noteq> source" for p
    by (rule holds_quietly, rule holds_rm_if_there) (use that in \<open>auto simp: K_def E_def\<close>)
  have rm_tmp: "holds (\<lambda>v. P v) (rm_if_there os tmp) (\<lambda>_ v. P v \<and> v tmp = None) E"
    by (rule holds_rm_if_there) (use names in \<open>auto simp: P_def K_def E_def\<close>)
  have "holds (\<lambda>v. P v \<and> v tmp = None) (rsync os False cap source tmp) (\<lambda>ok v. if ok then P v \<and> whole cap S (v tmp) else P v) E"
    unfolding rsync_def
    by (rule holds_rsync) (use names rsync_copies_new [OF law(1,2)] in \<open>auto simp: P_def K_def E_def\<close>)
  moreover have "holds (\<lambda>v. P v \<and> whole cap S (v tmp)) (fs_rename os tmp dest) (\<lambda>_ v. K v \<and> W v) E"
    by (rule holds_rename) (use names in \<open>auto simp: P_def K_def W_def E_def\<close>)
  moreover have "holds (\<lambda>v. K v \<and> W v) (verify_transfer os source dest) (\<lambda>_ v. K v \<and> W v) E"
    by (rule holds_verify) (auto simp: E_def)
  moreover have "holds (\<lambda>v. K v \<and> W v) (force_rmtree os source) (\<lambda>_. W) E"
    by (rule holds_rmtree) (use names left_of_whole [OF law(3)] in \<open>auto simp: K_def W_def E_def\<close>)
  moreover have "holds (\<lambda>v. K v \<and> W v) (then_do (quietly (rm_if_there os dest)) (done_with False)) Q E"
    by (rule holds_do [OF holds_pre [OF quiet]]) (use names in \<open>auto intro!: holds_done simp: Q_def\<close>)
  moreover have "holds P (then_do (rm_if_there os tmp) (done_with False)) Q E"
    by (rule holds_do [OF rm_tmp]) (auto intro!: holds_done simp: Q_def P_def)
  moreover have "holds W (done_with True) Q E" by (rule holds_done) (simp add: Q_def)
  ultimately have body: "holds (\<lambda>v. P v \<and> v tmp = None) (then_with (rsync os False cap source tmp) (\<lambda>ok.
      if \<not> ok then then_do (rm_if_there os tmp) (done_with False)
      else then_do (fs_rename os tmp dest) (then_with (verify_transfer os source dest) (\<lambda>ok.
        if ok then then_do (force_rmtree os source) (done_with True) else then_do (quietly (rm_if_there os dest)) (done_with False))))) Q E"
    by (intro holds_then [where R = "\<lambda>ok v. if ok then P v \<and> whole cap S (v tmp) else P v"]) (auto intro!: holds_do holds_then)
  have "holds (E Refused) (then_do (quietly (rm_if_there os tmp)) (then_do (quietly (rm_if_there os dest)) (done_with False))) Q E"
    by (rule holds_pre [of K], rule holds_do [OF quiet], use names in simp, rule holds_do [OF quiet], use names in simp)
      (auto intro!: holds_done simp: Q_def E_def)
  moreover have "holds P (nothing_but_call os) (\<lambda>_. P) E" by (rule holds_nothing_but_call) (auto simp: P_def E_def)
  ultimately have "holds P (move_new os cap source dest) Q E"
    unfolding move_new_def Let_def tmp_def [symmetric]
    by (intro holds_on_refusal [where E = E, OF holds_do [OF _ holds_do [OF rm_tmp body]]]) (auto simp: E_def)
  moreover have "held P w" using start by (simp add: held_def P_def K_def folders_of_simps)
  ultimately have "case move_new os cap source dest w of (Inl e, w') \<Rightarrow> held (E e) w' | (Inr x, w') \<Rightarrow> held (Q x) w'" by (rule holdsD)
  then show ?thesis by (auto simp: held_def Q_def E_def W_def K_def folders_of_simps split: prod.splits sum.splits if_splits bool.splits)
qed

text \<open>A folder moved to a new place is there, but for what rsync is told to leave out, or still whole at its source, whatever the
  system refuses and wherever the process is killed, as long as a removal that is refused removed nothing: done, it is at its
  place; failed, the source is as it was.\<close>

theorem move_keeps_the_media:
  assumes law: "rsync_documented os" "cap \<in> set CAPABILITY_TABLE" "removals_whole os" and places: "dest \<noteq> []" "source \<notin> {dest, beside DISPATCH_TMP_PREFIX [] dest}"
    and start: "folder_at source w = Some S" "folder_at dest w = None"
  shows "case move_new os cap source dest w of
      (Inr True, w') \<Rightarrow> whole cap S (folder_at dest w')
    | (Inr False, w') \<Rightarrow> folder_at source w' = Some S
    | (Inl _, w') \<Rightarrow> whole cap S (folder_at dest w') \<or> folder_at source w' = Some S"
  by (rule move_state [OF assms])

text \<open>C32: when the removal of the source is refused after it removed some of its files, the move answers that it failed and
  removes the copy it had verified: those files are left nowhere.\<close>

theorem refused_cleanup_destroys_the_copy:
  assumes quiet: "\<And>n. \<not> kills os n \<and> \<not> refuses os n" "\<And>n r. \<not> unreadable os n r"
    and copied: "\<And>n. rsync_run os n (build_rsync_cmd source (beside DISPATCH_TMP_PREFIX [] dest) cap False None) (Some S) None = (True, Some S)" and "distinct (map fst S)"
    and places: "dest \<noteq> []" "source \<notin> {dest, beside DISPATCH_TMP_PREFIX [] dest}"
    and start: "folder_at source w = Some S" "folder_at dest w = None" "folder_at (beside DISPATCH_TMP_PREFIX [] dest) w = None"
    and stuck: "undeleted os (calls w + 4) r" "(r, x) \<in> set S" and gone: "\<And>r. \<not> undeleted os (calls w + 5) r"
  shows "\<exists>w'. move_new os cap source dest w = (Inr False, w') \<and> folder_at dest w' = None \<and> folder_at (beside DISPATCH_TMP_PREFIX [] dest) w' = None
    \<and> folder_at source w' = Some (filter (\<lambda>(r, x). undeleted os (calls w + 4) r) S)"
proof -
  define tmp where "tmp = beside DISPATCH_TMP_PREFIX [] dest"
  have "tmp \<noteq> dest" unfolding tmp_def by (rule beside_neq, fact) (simp add: DISPATCH_TMP_PREFIX_def)
  then have names: "tmp \<noteq> dest" "source \<noteq> dest" "source \<noteq> tmp" using places by (auto simp: tmp_def)
  have verified: "list_all (\<lambda>(r, x). case map_of S r of None \<Rightarrow> False | Some y \<Rightarrow> length x = length y) S"
    using assms(4) by (auto simp: list_all_iff)
  have left: "filter (\<lambda>(r, x). undeleted os (calls w + 4) r) S \<noteq> []" using stuck by (auto simp: filter_empty_conv)
  have calm: "refuses os n = False" "kills os n = False" for n using quiet by auto
  have steps: "calls w + 4 = Suc (Suc (Suc (Suc (calls w))))" "calls w + 5 = Suc (Suc (Suc (Suc (Suc (calls w)))))" by simp_all
  show ?thesis
    unfolding move_new_def Let_def tmp_def [symmetric]
    using names calm quiet(2) copied [folded tmp_def] start [folded tmp_def] verified left gone unfolding steps
    by (simp cong: option.case_cong add: on_refusal_def then_do_def then_with_def nothing_but_call_def call_def rm_if_there_def rsync_def run_rsync_def fs_rename_def
        verify_transfer_def files_of_def force_rmtree_def quietly_def attempt_def Let_def)
qed

text \<open>A move onto a folder that is there removes it: the name is taken, so the rename is refused, and the handler clears the
  target.\<close>

lemma move_removes_an_existing_folder:
  assumes quiet: "\<And>n. \<not> kills os n \<and> \<not> refuses os n" "\<And>n r. \<not> undeleted os n r"
    and copied: "\<And>n. rsync_run os n (build_rsync_cmd source (beside DISPATCH_TMP_PREFIX [] dest) cap False None) (Some S) None = (True, Some S)"
    and places: "dest \<noteq> []" "source \<notin> {dest, beside DISPATCH_TMP_PREFIX [] dest}"
    and start: "folder_at source w = Some S" "folder_at dest w = Some D" "D \<noteq> []" "folder_at (beside DISPATCH_TMP_PREFIX [] dest) w = None"
  shows "\<exists>w'. move_new os cap source dest w = (Inr False, w') \<and> folder_at dest w' = None \<and> folder_at source w' = Some S"
proof -
  define tmp where "tmp = beside DISPATCH_TMP_PREFIX [] dest"
  have "tmp \<noteq> dest" unfolding tmp_def by (rule beside_neq, fact) (simp add: DISPATCH_TMP_PREFIX_def)
  then have names: "tmp \<noteq> dest" "source \<noteq> dest" "source \<noteq> tmp" using places by (auto simp: tmp_def)
  have calm: "refuses os n = False" "kills os n = False" for n using quiet by auto
  show ?thesis
    unfolding move_new_def Let_def tmp_def [symmetric]
    using names calm quiet(2) copied [folded tmp_def] start [folded tmp_def]
    by (simp cong: option.case_cong add: on_refusal_def then_do_def then_with_def nothing_but_call_def call_def rm_if_there_def rsync_def run_rsync_def
        fs_rename_def verify_transfer_def files_of_def force_rmtree_def quietly_def attempt_def Let_def)
qed

subsection \<open>The files of a backup\<close>

lemma backup_of_simps [simp]: "in_backup (backup_of r)" "backup_of r = backup_of q \<longleftrightarrow> r = q"
  by (simp_all add: backup_of_def in_backup_def)

lemma in_backup_of: "in_backup r \<Longrightarrow> backup_of (tl r) = r"
  by (cases r) (auto simp: backup_of_def in_backup_def)

lemma backup_files: "(r, x) \<in> set (backup_files f) \<longleftrightarrow> file_in (Some f) (backup_of r) = Some x"
proof -
  have "set (List.map_filter h xs) = {y. \<exists>x \<in> set xs. h x = Some y}" for h :: "rel \<Rightarrow> (rel \<times> string) option" and xs
    by (induction xs) (auto split: option.split)
  then have "(r, x) \<in> set (backup_files f) \<longleftrightarrow> (\<exists>q \<in> set (map fst f). in_backup q \<and> map_of f q = Some x \<and> r = tl q)"
    by (auto simp: backup_files_def)
  also have "\<dots> \<longleftrightarrow> map_of f (backup_of r) = Some x"
  proof
    assume "\<exists>q \<in> set (map fst f). in_backup q \<and> map_of f q = Some x \<and> r = tl q"
    then show "map_of f (backup_of r) = Some x" using in_backup_of by auto
  next
    assume x: "map_of f (backup_of r) = Some x"
    then have "backup_of r \<in> set (map fst f)" by (metis domI dom_map_of_conv_image_fst list.set_map)
    then show "\<exists>q \<in> set (map fst f). in_backup q \<and> map_of f q = Some x \<and> r = tl q"
      using x by (intro bexI [of _ "backup_of r"]) (auto simp: backup_of_def in_backup_def)
  qed
  finally show ?thesis by (simp add: file_in_def)
qed

lemma has_backup_iff: "has_backup p w \<longleftrightarrow> (\<exists>r. file_in (folders_of w p) (backup_of r) \<noteq> None)"
proof -
  have "list_ex (\<lambda>(r, x). in_backup r) f \<longleftrightarrow> (\<exists>r. map_of f (backup_of r) \<noteq> None)" for f :: folder
  proof -
    have "list_ex (\<lambda>(r, x). in_backup r) f \<longleftrightarrow> (\<exists>q \<in> fst ` set f. in_backup q)" by (induction f) auto
    also have "\<dots> \<longleftrightarrow> (\<exists>r. backup_of r \<in> fst ` set f)" using in_backup_of backup_of_simps(1) by metis
    finally show ?thesis by (auto simp: map_of_eq_None_iff)
  qed
  moreover have "map_of (files_of p w) r = file_in (folders_of w p) r" for r using file_in_files_of [of p w r] by (simp add: file_in_def)
  ultimately show ?thesis by (simp only: has_backup_def)
qed

subsection \<open>The calls of a merge\<close>

lemma holds_each: "(\<And>x. x \<in> set xs \<Longrightarrow> holds J (f x) (\<lambda>_. J) E) \<Longrightarrow> holds J (each f xs) (\<lambda>_. J) E"
  by (induction xs) (auto intro!: holds_done holds_do)

text \<open>The target after a file of it was moved, the backup removed in part, a file written.\<close>

lemma holds_file_rename:
  assumes "\<And>v e. P v \<Longrightarrow> E e v"
    and "\<And>v x g. P v \<Longrightarrow> file_in (v p) r = Some x \<Longrightarrow> file_in g = (file_in (v p))(r := None, r' := Some x) \<Longrightarrow> Q (v(p := g))"
  shows "holds P (file_rename os p r r') (\<lambda>_. Q) E"
  unfolding file_rename_def
proof (rule holds_call, rule holdsI)
  fix n w
  assume P: "held P w"
  define g where "g x = Some ((r', x) # filter (\<lambda>(q, y). q \<noteq> r \<and> q \<noteq> r') (files_of p w))" for x
  have "file_in (g x) = (file_in (folders_of w p))(r := None, r' := Some x)" for x
    unfolding g_def by (auto simp: fun_eq_iff file_in_files_of)
  then have moved: "held Q (put_folder p (g x) w)" if "map_of (files_of p w) r = Some x" for x
    using assms(2) [of "folders_of w" x "g x"] P that file_in_files_of [of p w r] by (simp add: held_def folders_of_simps file_in_def)
  show "case (if kills os n then (Inl Killed, w)
      else case map_of (files_of p w) r of None \<Rightarrow> (Inl Refused, w)
        | Some x \<Rightarrow> if refuses os n then (Inl Refused, w)
            else (Inr (), put_folder p (Some ((r', x) # filter (\<lambda>(q, y). q \<noteq> r \<and> q \<noteq> r') (files_of p w))) w)) of
      (Inl e, w') \<Rightarrow> held (E e) w' | (Inr x, w') \<Rightarrow> held Q w'"
    using moved assms(1) [of "folders_of w"] P unfolding g_def by (auto simp: held_def split: option.split)
qed

lemma holds_rm_backup:
  assumes "\<And>v g e. P v \<Longrightarrow> (\<And>r. file_in g r = file_in (v p) r \<or> in_backup r \<and> file_in g r = None)
      \<Longrightarrow> (e = Refused \<Longrightarrow> removals_whole os \<Longrightarrow> file_in g = file_in (v p)) \<Longrightarrow> E e (v(p := g))"
    and "\<And>v g. P v \<Longrightarrow> file_in g = (\<lambda>r. if in_backup r then None else file_in (v p) r) \<Longrightarrow> Q (v(p := g))"
  shows "holds P (rm_backup os p) (\<lambda>_. Q) E"
  unfolding rm_backup_def
proof (rule holds_call, rule holdsI)
  fix n w
  assume P: "held P w"
  define left where "left = filter (\<lambda>(r, x). in_backup r \<longrightarrow> undeleted os n r) (files_of p w)"
  have now: "file_in (Some left) r = (if in_backup r \<and> \<not> undeleted os n r then None else file_in (folders_of w p) r)" for r
    unfolding left_def file_in_simps by (auto simp: file_in_files_of)
  have killed: "held (E Killed) (put_folder p (Some left) w)"
    using assms(1) [of "folders_of w" "Some left" Killed] P now by (simp add: held_def folders_of_simps)
  have refused: "held (E Refused) (put_folder p (Some left) w)" if "list_ex (\<lambda>(r, x). in_backup r) left \<or> refuses os n"
  proof -
    have "undeleted os n r" if "removals_whole os" for r
    proof (rule ccontr)
      assume "\<not> undeleted os n r"
      then have "\<not> refuses os n" "\<And>r. \<not> undeleted os n r" using that unfolding removals_whole_def by blast+
      then show False using \<open>list_ex _ left \<or> refuses os n\<close> by (auto simp: left_def list_ex_iff)
    qed
    then have "file_in (Some left) = file_in (folders_of w p)" if "removals_whole os" using now that by (auto simp: fun_eq_iff)
    then show ?thesis using assms(1) [of "folders_of w" "Some left" Refused] P now by (simp add: held_def folders_of_simps)
  qed
  have "held Q (put_folder p (Some left) w)" if "\<not> list_ex (\<lambda>(r, x). in_backup r) left"
  proof -
    have "file_in (Some left) r = None" if "in_backup r" for r
      using \<open>\<not> list_ex _ left\<close> that by (induction left) (auto simp: file_in_def)
    then have "file_in (Some left) = (\<lambda>r. if in_backup r then None else file_in (folders_of w p) r)" using now by (auto simp: fun_eq_iff)
    then show ?thesis using assms(2) [of "folders_of w" "Some left"] P by (simp add: held_def folders_of_simps)
  qed
  then show "case (let left = filter (\<lambda>(r, x). in_backup r \<longrightarrow> undeleted os n r) (files_of p w); w' = put_folder p (Some left) w in
      if kills os n then (Inl Killed, w')
      else if list_ex (\<lambda>(r, x). in_backup r) left \<or> refuses os n then (Inl Refused, w') else (Inr (), w')) of
      (Inl e, w') \<Rightarrow> held (E e) w' | (Inr x, w') \<Rightarrow> held Q w'"
    using killed refused by (simp add: Let_def left_def [symmetric])
qed

lemma file_in_write: "folders_of (write_file p r x w) = (folders_of w)(p := Some ((r, x) # filter (\<lambda>(q, y). q \<noteq> r) (files_of p w)))"
  by (simp add: write_file_def folders_of_simps)

lemma holds_restore_file:
  assumes "\<And>v e. P v \<Longrightarrow> E e v \<and> Q False v"
    and "\<And>v g y e. P v \<Longrightarrow> file_in g = (file_in (v p))(r := Some y) \<Longrightarrow> E e (v(p := g)) \<and> Q False (v(p := g))"
    and "\<And>v g. P v \<Longrightarrow> file_in g = (file_in (v p))(r := Some x) \<Longrightarrow> Q True (v(p := g))"
  shows "holds P (restore_file os p (r, x)) Q E"
  unfolding restore_file_def prod.case
proof (rule holds_call, rule holdsI)
  fix n w
  assume P: "held P w"
  have now: "file_in (Some ((r, y) # filter (\<lambda>(q, z). q \<noteq> r) (files_of p w))) = (file_in (folders_of w p))(r := Some y)" for y
    by (auto simp: fun_eq_iff file_in_files_of)
  have "held (E e) (write_file p r y w)" "held (Q False) (write_file p r y w)" "held (Q True) (write_file p r x w)" "held (E e) w" "held (Q False) w" for y e
    using assms(1) [of "folders_of w"] assms(2) [of "folders_of w", OF _ now] assms(3) [of "folders_of w", OF _ now] P
    by (simp_all add: held_def file_in_write)
  then show "case (let cut = (case torn os n of None \<Rightarrow> w | Some y \<Rightarrow> write_file p r y w) in
      if kills os n then (Inl Killed, cut) else if refuses os n then (Inr False, cut) else (Inr True, write_file p r x w)) of
      (Inl e, w') \<Rightarrow> held (E e) w' | (Inr x, w') \<Rightarrow> held (Q x) w'"
    by (simp add: Let_def split: option.split)
qed

end
