(* ===== verification/Merge_Facts.thy ===== *)
theory Merge_Facts
  imports Transfer_Facts
begin

text \<open>
  What a merge guarantees: no file of the target that the source does not supersede is touched, and the source is whole where it
  was or has landed; as long as no copy of the backup is cut and no removal is done by half, what it supersedes stays in the
  target or in its backup until the source has landed.
\<close>

subsection \<open>What a merge keeps\<close>

definition superseded :: "fs_capability \<Rightarrow> folder \<Rightarrow> folder \<Rightarrow> rel \<Rightarrow> bool" where
  "superseded cap S D r \<longleftrightarrow> names (rsync_flags cap) S r \<or> r \<in> set (episode_conflicts S D)"

definition kept :: "fs_capability \<Rightarrow> folder \<Rightarrow> folder \<Rightarrow> (rel \<Rightarrow> string option) \<Rightarrow> bool" where
  "kept cap S D f \<longleftrightarrow> (\<forall>r x. map_of D r = Some x \<longrightarrow> superseded cap S D r \<or> f r = Some x)"

definition landed :: "fs_capability \<Rightarrow> folder \<Rightarrow> folder \<Rightarrow> (rel \<Rightarrow> string option) \<Rightarrow> bool" where
  "landed cap S D f \<longleftrightarrow> landed_by (rsync_flags cap) S (map_of D) f"

definition old_there :: "folder \<Rightarrow> (rel \<Rightarrow> string option) \<Rightarrow> bool" where
  "old_there D f \<longleftrightarrow> (\<forall>r x. map_of D r = Some x \<longrightarrow> f r = Some x \<or> f (backup_of r) = Some x)"

text \<open>What is in the backup was superseded; if the copies are exact (\<open>full\<close>), with the bytes it had.\<close>

definition backups_true :: "fs_capability \<Rightarrow> folder \<Rightarrow> folder \<Rightarrow> bool \<Rightarrow> (rel \<Rightarrow> string option) \<Rightarrow> bool" where
  "backups_true cap S D full f \<longleftrightarrow> (\<forall>r x. f (backup_of r) = Some x \<longrightarrow>
     superseded cap S D r \<and> map_of D r \<noteq> None \<and> (full \<longrightarrow> map_of D r = Some x))"

text \<open>Before the source has landed.\<close>

definition behind :: "fs_capability \<Rightarrow> folder \<Rightarrow> folder \<Rightarrow> bool \<Rightarrow> (rel \<Rightarrow> string option) \<Rightarrow> bool" where
  "behind cap S D full f \<longleftrightarrow> kept cap S D f \<and> backups_true cap S D full f \<and> (full \<longrightarrow> old_there D f)"

definition no_backup :: "(rel \<Rightarrow> string option) \<Rightarrow> bool" where
  "no_backup f \<longleftrightarrow> (\<forall>r. in_backup r \<longrightarrow> f r = None)"

definition clean :: "folder \<Rightarrow> bool" where
  "clean f \<longleftrightarrow> no_backup (map_of f)"

lemma cleanD: "clean f \<Longrightarrow> map_of f r = Some x \<Longrightarrow> \<not> in_backup r"
  by (auto simp: clean_def no_backup_def)

subsection \<open>A backup put back\<close>

text \<open>A file of the backup is written over a superseded one; its copy in the backup is still there.\<close>

lemma write_back:
  assumes "clean D" and "behind cap S D full f" and "f (backup_of r) = Some x"
  shows "\<not> in_backup r" and "behind cap S D full (f(r := Some y))"
proof -
  have r: "superseded cap S D r" "map_of D r \<noteq> None" "full \<Longrightarrow> map_of D r = Some x"
    using assms(2,3) by (auto simp: behind_def backups_true_def)
  then show out: "\<not> in_backup r" using cleanD [OF assms(1)] by blast
  then have other: "backup_of q \<noteq> r" for q by auto
  have "kept cap S D (f(r := Some y))" using assms(2) r(1) by (auto simp: behind_def kept_def)
  moreover have "backups_true cap S D full (f(r := Some y))" using assms(2) other by (simp add: behind_def backups_true_def)
  moreover have "old_there D (f(r := Some y))" if full
    using assms(2,3) r(3) other that by (auto simp: behind_def old_there_def)
  ultimately show "behind cap S D full (f(r := Some y))" by (simp add: behind_def)
qed

definition undoing :: "fs_capability \<Rightarrow> place \<Rightarrow> place \<Rightarrow> folder \<Rightarrow> folder \<Rightarrow> bool \<Rightarrow> (place \<Rightarrow> folder option) \<Rightarrow> bool" where
  "undoing cap source dest S D full v \<longleftrightarrow> v source = Some S \<and> behind cap S D full (file_in (v dest))"

text \<open>\<open>xs\<close> are the backup's files, \<open>ys\<close> those copied back.\<close>

definition put_back :: "(rel \<times> string) list \<Rightarrow> place \<Rightarrow> (rel \<times> string) set \<Rightarrow> (place \<Rightarrow> folder option) \<Rightarrow> bool" where
  "put_back xs dest ys v \<longleftrightarrow> (\<forall>r x. (r, x) \<in> set xs \<longleftrightarrow> file_in (v dest) (backup_of r) = Some x) \<and> (\<forall>(r, x) \<in> ys. file_in (v dest) r = Some x)"

lemma holds_restore_files:
  assumes "clean D" and "source \<noteq> dest" and "set zs \<subseteq> set xs" and "ys \<subseteq> set xs"
  shows "holds (\<lambda>v. undoing cap source dest S D full v \<and> put_back xs dest ys v) (restore_files os dest zs)
    (\<lambda>(restored, failed) v. undoing cap source dest S D full v \<and> put_back xs dest (if failed = 0 then ys \<union> set zs else {}) v)
    (\<lambda>_. undoing cap source dest S D full)"
  using assms(3,4)
proof (induction zs arbitrary: ys)
  case Nil
  show ?case unfolding restore_files.simps by (rule holds_done) auto
next
  case (Cons z zs)
  obtain r x where z: "z = (r, x)" by fastforce
  let ?U = "undoing cap source dest S D full"
  have in_xs: "(r, x) \<in> set xs" using Cons.prems(1) z by auto
  have written: "undoing cap source dest S D full (v(dest := g)) \<and> put_back xs dest {} (v(dest := g))
      \<and> (y = x \<longrightarrow> put_back xs dest (insert (r, x) ys) (v(dest := g)))"
    if v: "undoing cap source dest S D full v" "put_back xs dest ys v" and g: "file_in g = (file_in (v dest))(r := Some y)" for v g y
  proof -
    have true: "behind cap S D full (file_in (v dest))" "file_in (v dest) (backup_of r) = Some x"
      using v in_xs by (auto simp: undoing_def put_back_def)
    note wb = write_back [OF assms(1) true]
    have same: "file_in (v dest) (backup_of q) = Some u \<longleftrightarrow> file_in g (backup_of q) = Some u" for q u
      using wb(1) by (auto simp: g)
    have only: "u = x" if "(r, u) \<in> ys" for u
    proof -
      have "(r, u) \<in> set xs" using that Cons.prems(2) by blast
      then have "file_in (v dest) (backup_of r) = Some u" using v(2) by (auto simp: put_back_def)
      then show ?thesis using true(2) by simp
    qed
    have at_dest: "(v(dest := g)) dest = g" "(v(dest := g)) source = v source" using assms(2) by simp_all
    have "undoing cap source dest S D full (v(dest := g))"
      unfolding undoing_def at_dest g using v(1) wb(2) by (simp add: undoing_def)
    moreover have "put_back xs dest {} (v(dest := g))"
      unfolding put_back_def at_dest using v(2) same by (simp add: put_back_def)
    moreover have "file_in g q = Some u" if "(q, u) \<in> insert (r, x) ys" "y = x" for q u
      using that v(2) only by (cases "q = r") (auto simp: g put_back_def)
    ultimately show ?thesis by (auto simp: put_back_def)
  qed
  have "holds (\<lambda>v. ?U v \<and> put_back xs dest ys v) (restore_file os dest (r, x))
      (\<lambda>ok v. ?U v \<and> put_back xs dest (if ok then insert (r, x) ys else {}) v) (\<lambda>_. ?U)"
  proof (rule holds_restore_file)
    fix v e
    assume "?U v \<and> put_back xs dest ys v"
    then show "?U v \<and> ?U v \<and> put_back xs dest (if False then insert (r, x) ys else {}) v" by (simp add: put_back_def)
  next
    fix v g y e
    assume "?U v \<and> put_back xs dest ys v" "file_in g = (file_in (v dest))(r := Some y)"
    then show "?U (v(dest := g)) \<and> ?U (v(dest := g)) \<and> put_back xs dest (if False then insert (r, x) ys else {}) (v(dest := g))"
      unfolding if_False using written by blast
  next
    fix v g
    assume "?U v \<and> put_back xs dest ys v" "file_in g = (file_in (v dest))(r := Some x)"
    then show "?U (v(dest := g)) \<and> put_back xs dest (if True then insert (r, x) ys else {}) (v(dest := g))"
      unfolding if_True using written by blast
  qed
  moreover have "holds (\<lambda>v. ?U v \<and> put_back xs dest (if ok then insert (r, x) ys else {}) v)
      (then_with (restore_files os dest zs) (\<lambda>(restored, failed). done_with (if ok then (Suc restored, failed) else (restored, Suc failed))))
      (\<lambda>(restored, failed) v. ?U v \<and> put_back xs dest (if failed = 0 then ys \<union> set (z # zs) else {}) v) (\<lambda>_. ?U)" for ok
  proof (rule holds_then [OF Cons.IH])
    show "set zs \<subseteq> set xs" "(if ok then insert (r, x) ys else {}) \<subseteq> set xs" using Cons.prems in_xs by auto
    fix k
    show "holds (case k of (restored, failed) \<Rightarrow> \<lambda>v. ?U v \<and> put_back xs dest (if failed = 0 then (if ok then insert (r, x) ys else {}) \<union> set zs else {}) v)
        (case k of (restored, failed) \<Rightarrow> done_with (if ok then (Suc restored, failed) else (restored, Suc failed)))
        (\<lambda>(restored, failed) v. ?U v \<and> put_back xs dest (if failed = 0 then ys \<union> set (z # zs) else {}) v) (\<lambda>_. ?U)"
    proof -
      obtain restored failed where k: "k = (restored, failed)" by fastforce
      have "holds (\<lambda>v. ?U v \<and> put_back xs dest (if failed = 0 then (if ok then insert (r, x) ys else {}) \<union> set zs else {}) v)
        (done_with (if ok then (Suc restored, failed) else (restored, Suc failed)))
        (\<lambda>(restored, failed) v. ?U v \<and> put_back xs dest (if failed = 0 then ys \<union> set (z # zs) else {}) v) (\<lambda>_. ?U)"
        by (rule holds_done) (auto simp: z put_back_def)
      then show ?thesis by (simp only: k prod.case)
    qed
  qed
  ultimately show ?case unfolding z restore_files.simps by (rule holds_then)
qed

lemma holds_restore:
  assumes "clean D" and "source \<noteq> dest"
  shows "holds (undoing cap source dest S D full) (restore_merge_backup os dest) (\<lambda>_. undoing cap source dest S D full) (\<lambda>_. undoing cap source dest S D full)"
  unfolding restore_merge_backup_def
proof (rule holds_looking)
  fix w
  let ?U = "undoing cap source dest S D full"
  define xs where "xs = backup_files (files_of dest w)"
  have xs: "(r, x) \<in> set xs \<longleftrightarrow> file_in (folders_of w dest) (backup_of r) = Some x" for r x
    by (simp add: xs_def backup_files file_in_files_of)
  have "holds (\<lambda>v. ?U v \<and> put_back xs dest {} v) (restore_files os dest xs)
      (\<lambda>(restored, failed) v. ?U v \<and> put_back xs dest (if failed = 0 then set xs else {}) v) (\<lambda>_. ?U)"
    using holds_restore_files [OF assms subset_refl empty_subsetI, where xs = xs and S = S and full = full and os = os and cap = cap] by (simp only: Un_empty_left)
  then have files: "holds (\<lambda>v. ?U v \<and> v = folders_of w) (restore_files os dest xs)
      (\<lambda>(restored, failed) v. ?U v \<and> put_back xs dest (if failed = 0 then set xs else {}) v) (\<lambda>_. ?U)"
    by (rule holds_pre) (auto simp: put_back_def xs)
  have rm: "holds (\<lambda>v. ?U v \<and> put_back xs dest (set xs) v) (quietly (rm_backup os dest)) (\<lambda>_. ?U) (\<lambda>_. ?U)"
  proof -
    have part: "?U (v(dest := g))" if v: "?U v" "put_back xs dest (set xs) v"
      and g: "\<And>r. file_in g r = file_in (v dest) r \<or> in_backup r \<and> file_in g r = None" for v g
    proof -
      have same: "file_in g r = file_in (v dest) r" if "\<not> in_backup r" for r using g that by blast
      have "file_in g r = Some x" if "map_of D r = Some x" "file_in (v dest) (backup_of r) = Some x" for r x
      proof -
        have "file_in (v dest) r = Some x" using v(2) that(2) by (auto simp: put_back_def)
        then show ?thesis using same cleanD [OF assms(1) that(1)] by simp
      qed
      moreover have "file_in g r = Some x" if "map_of D r = Some x" "file_in (v dest) r = Some x" for r x
        using same cleanD [OF assms(1) that(1)] that(2) by simp
      moreover have "file_in (v dest) (backup_of r) = Some x" if "file_in g (backup_of r) = Some x" for r x
        using g [of "backup_of r"] that by auto
      ultimately have "kept cap S D (file_in g)" "backups_true cap S D full (file_in g)" "full \<Longrightarrow> old_there D (file_in g)"
        using v(1) unfolding undoing_def behind_def kept_def backups_true_def old_there_def by metis+
      then show ?thesis using v(1) assms(2) by (simp add: undoing_def behind_def)
    qed
    show ?thesis
    proof (rule holds_quietly, rule holds_rm_backup)
      fix v g
      assume "?U v \<and> put_back xs dest (set xs) v" "file_in g = (\<lambda>r. if in_backup r then None else file_in (v dest) r)"
      then show "?U (v(dest := g))" by (intro part) auto
    qed (use part in auto)
  qed
  show "holds (\<lambda>v. ?U v \<and> v = folders_of w)
      (if \<not> has_backup dest w then done_with 0
       else then_with (restore_files os dest (backup_files (files_of dest w))) (\<lambda>(restored, failed).
         if failed \<noteq> 0 then done_with restored else then_do (quietly (rm_backup os dest)) (done_with restored))) (\<lambda>_. ?U) (\<lambda>_. ?U)"
  proof (cases "has_backup dest w")
    case True
    have "holds (\<lambda>v. ?U v \<and> put_back xs dest (if failed = 0 then set xs else {}) v)
        (if failed \<noteq> 0 then done_with restored else then_do (quietly (rm_backup os dest)) (done_with restored)) (\<lambda>_. ?U) (\<lambda>_. ?U)" for restored failed :: nat
    proof (cases "failed = 0")
      case True
      then have "holds (\<lambda>v. ?U v \<and> put_back xs dest (if failed = 0 then set xs else {}) v) (then_do (quietly (rm_backup os dest)) (done_with restored)) (\<lambda>_. ?U) (\<lambda>_. ?U)"
        using rm by (auto intro!: holds_do [OF rm] holds_done)
      then show ?thesis using True by simp
    next
      case False
      have "holds (\<lambda>v. ?U v \<and> put_back xs dest {} v) (done_with restored) (\<lambda>_. ?U) (\<lambda>_. ?U)" by (rule holds_done) simp
      then show ?thesis using False by simp
    qed
    then have "holds (\<lambda>v. ?U v \<and> v = folders_of w) (then_with (restore_files os dest xs) (\<lambda>(restored, failed).
         if failed \<noteq> 0 then done_with restored else then_do (quietly (rm_backup os dest)) (done_with restored))) (\<lambda>_. ?U) (\<lambda>_. ?U)"
      by (intro holds_then [OF files]) auto
    then show ?thesis using True by (simp add: xs_def)
  next
    case False
    have "holds (\<lambda>v. ?U v \<and> v = folders_of w) (done_with 0) (\<lambda>_. ?U) (\<lambda>_. ?U)" by (rule holds_done) simp
    then show ?thesis using False by simp
  qed
qed

text \<open>Without a backup nothing is put back.\<close>

lemma holds_restore_nothing:
  assumes "\<And>v. P v \<Longrightarrow> no_backup (file_in (v dest))"
  shows "holds P (restore_merge_backup os dest) (\<lambda>_. P) E"
  unfolding restore_merge_backup_def
proof (rule holds_looking)
  fix w
  assume "held P w"
  then have "\<not> has_backup dest w" using assms by (auto simp: held_def has_backup_iff no_backup_def)
  moreover have "holds (\<lambda>v. P v \<and> v = folders_of w) (done_with 0) (\<lambda>_. P) E" by (rule holds_done) simp
  ultimately show "holds (\<lambda>v. P v \<and> v = folders_of w)
      (if \<not> has_backup dest w then done_with 0
       else then_with (restore_files os dest (backup_files (files_of dest w))) (\<lambda>(restored, failed).
         if failed \<noteq> 0 then done_with restored else then_do (quietly (rm_backup os dest)) (done_with restored))) (\<lambda>_. P) E"
    by simp
qed

subsection \<open>A merge\<close>

text \<open>
  No copy of a backup is cut: whatever becomes of a run with \<open>--backup\<close>, a file of the target is as it was or its copy is in the
  backup. The manual does not promise it of a run that is stopped while it copies, so what rests on it is said to.
\<close>

definition backups_exact :: "os \<Rightarrow> bool" where
  "backups_exact os \<longleftrightarrow> (\<forall>n argv S D. ''--delete'' \<notin> set argv \<and> ''--inplace'' \<in> set argv \<and> ''--backup'' \<in> set argv \<and> clean S \<longrightarrow>
     (let f = file_in (snd (rsync_run os n argv (Some S) (Some D))) in
        (\<forall>r x. map_of D r = Some x \<and> \<not> in_backup r \<longrightarrow> f r = Some x \<or> f (backup_of r) = Some x)
      \<and> (\<forall>r x. f (backup_of r) = Some x \<longrightarrow> map_of D (backup_of r) = Some x \<or> map_of D r = Some x)))"

lemma names_clean: "clean S \<Longrightarrow> names flags S r \<Longrightarrow> \<not> in_backup r"
proof
  assume S: "clean S" "names flags S r" and r: "in_backup r"
  obtain q x where q: "(q, x) \<in> set S" "take (length r) q = r" using S(2) by (auto simp: names_def list_ex_iff)
  have "hd q = hd r" "q \<noteq> []" using q(2) r by (cases q; cases r; auto simp: in_backup_def)+
  then have "in_backup q" using r by (simp add: in_backup_def)
  moreover have "map_of S q \<noteq> None" using weak_map_of_SomeI [OF q(1)] by auto
  ultimately show False using cleanD [OF S(1)] by blast
qed

lemma rsync_merge_keeps:
  assumes law: "rsync_documented os" "cap \<in> set CAPABILITY_TABLE" and exact: "full \<Longrightarrow> backups_exact os" and clean: "clean S" "clean D"
    and old: "behind cap S D full (file_in v)" and free: "\<And>r. file_in v (backup_of r) \<noteq> None \<Longrightarrow> file_in v r = None"
    and within: "\<And>r x. file_in v r = Some x \<Longrightarrow> \<not> in_backup r \<Longrightarrow> map_of D r = Some x" and v: "v \<noteq> None"
    and run: "rsync_run os n (build_rsync_cmd source dest cap False (Some b)) (Some S) v = (ok, g)"
  shows "behind cap S D full (file_in g)" and "ok \<Longrightarrow> landed cap S D (file_in g)"
proof -
  let ?flags = "rsync_flags cap"
  note facts = rsync_run_facts [OF law run]
  have aside: "file_in g (backup_of r) = file_in v (backup_of r) \<or> names ?flags S r \<and> \<not> in_backup r \<and> file_in v r \<noteq> None" for r
  proof -
    have "tl (backup_of r) = r" "\<not> names ?flags S (backup_of r)"
      using names_clean [OF clean(1), of ?flags "backup_of r"] by (auto simp: backup_of_def in_backup_def)
    then show ?thesis using facts(1) [of "backup_of r"] names_clean [OF clean(1), of ?flags r] by auto
  qed
  have "kept cap S D (file_in g)"
    unfolding kept_def
  proof (intro allI impI)
    fix r x
    assume r: "map_of D r = Some x"
    have "superseded cap S D r \<or> file_in v r = Some x" using old r by (auto simp: behind_def kept_def)
    then show "superseded cap S D r \<or> file_in g r = Some x"
      using facts(1) [of r] cleanD [OF clean(2) r] by (auto simp: superseded_def)
  qed
  moreover have exactly: "(file_in v r = Some x \<and> \<not> in_backup r \<longrightarrow> file_in g r = Some x \<or> file_in g (backup_of r) = Some x)
      \<and> (file_in g (backup_of r) = Some x \<longrightarrow> file_in v (backup_of r) = Some x \<or> file_in v r = Some x)" if full for r x
  proof -
    obtain D1 where D1: "v = Some D1" using v by auto
    let ?argv = "build_rsync_cmd source dest cap False (Some b)"
    have "''--delete'' \<notin> set ?argv \<and> ''--inplace'' \<in> set ?argv \<and> ''--backup'' \<in> set ?argv \<and> clean S"
      using capabilities [OF law(2)] clean(1) by (simp add: flag_of_cmd)
    from exact [OF that, unfolded backups_exact_def Let_def, rule_format, OF this, of D1 n]
    have facts: "(\<forall>r x. map_of D1 r = Some x \<and> \<not> in_backup r \<longrightarrow> file_in g r = Some x \<or> file_in g (backup_of r) = Some x)
      \<and> (\<forall>r x. file_in g (backup_of r) = Some x \<longrightarrow> map_of D1 (backup_of r) = Some x \<or> map_of D1 r = Some x)"
      using run unfolding D1 by simp
    have "file_in v = map_of D1" by (simp add: D1 file_in_def fun_eq_iff)
    then show ?thesis using facts by simp
  qed
  moreover have content: "map_of D r = Some x" if "file_in g (backup_of r) = Some x" full for r x
  proof -
    have "file_in v (backup_of r) = Some x \<or> file_in v r = Some x" using exactly that by blast
    moreover have "file_in v (backup_of r) = Some x \<Longrightarrow> map_of D r = Some x" using old that(2) by (auto simp: behind_def backups_true_def)
    ultimately show ?thesis using aside [of r] within [of r x] that(1) by auto
  qed
  moreover have "superseded cap S D r \<and> map_of D r \<noteq> None" if "file_in g (backup_of r) = Some x" for r x
  proof (cases "file_in g (backup_of r) = file_in v (backup_of r)")
    case True
    then have "file_in v (backup_of r) = Some x" using that by simp
    then show ?thesis using old unfolding behind_def backups_true_def by blast
  next
    case False
    then have "names ?flags S r" "\<not> in_backup r" "file_in v r \<noteq> None" using aside by blast+
    then show ?thesis using within by (auto simp: superseded_def)
  qed
  moreover have "old_there D (file_in g)" if full
    unfolding old_there_def
  proof (intro allI impI)
    fix r x
    assume r: "map_of D r = Some x"
    have "old_there D (file_in v)" using old that by (simp add: behind_def)
    then have "file_in v r = Some x \<or> file_in v (backup_of r) = Some x" using r by (simp add: old_there_def)
    then consider "file_in v r = Some x" | "file_in v (backup_of r) = Some x" by blast
    then show "file_in g r = Some x \<or> file_in g (backup_of r) = Some x"
    proof cases
      case 1
      then show ?thesis using exactly [OF that] cleanD [OF clean(2) r] by blast
    next
      case 2
      then show ?thesis using aside [of r] free [of r] by auto
    qed
  qed
  ultimately show "behind cap S D full (file_in g)" by (auto simp: behind_def backups_true_def)
  show "ok \<Longrightarrow> landed cap S D (file_in g)"
    using facts(3) within cleanD [OF clean(1)] unfolding landed_def landed_by_def by metis
qed

lemma conflict_in_target:
  assumes "r \<in> set (episode_conflicts S D)"
  shows "map_of D r \<noteq> None"
proof -
  have "[d, n] \<in> fst ` set f" if "n \<in> set (season_files d f)" for d n and f :: folder
    using that by (induction f) (auto simp: season_files_def split: list.splits if_splits)
  then show ?thesis
    using assms by (auto simp: episode_conflicts_def season_conflicts_def Let_def map_of_eq_None_iff)
qed

text \<open>The target while the conflicts are moved to the backup.\<close>

definition purging :: "fs_capability \<Rightarrow> folder \<Rightarrow> folder \<Rightarrow> bool \<Rightarrow> (rel \<Rightarrow> string option) \<Rightarrow> bool" where
  "purging cap S D full f \<longleftrightarrow> behind cap S D full f \<and> (\<forall>r. f (backup_of r) \<noteq> None \<longrightarrow> f r = None)
     \<and> (\<forall>r x. f r = Some x \<longrightarrow> in_backup r \<or> map_of D r = Some x)"

lemma purge_one:
  assumes "clean D" "purging cap S D full f" "r \<in> set (episode_conflicts S D)" "f r = Some x"
  shows "purging cap S D full (f(r := None, backup_of r := Some x))"
proof -
  let ?g = "f(r := None, backup_of r := Some x)"
  obtain y where "map_of D r = Some y" using conflict_in_target [OF assms(3)] by blast
  then have r: "\<not> in_backup r" using cleanD [OF assms(1)] by blast
  then have D: "map_of D r = Some x" using assms(2,4) by (auto simp: purging_def)
  have other: "backup_of q \<noteq> r" for q using r by auto
  have outside: "\<not> in_backup q" if "f (backup_of q) \<noteq> None" for q
    using assms(2) cleanD [OF assms(1)] that by (fastforce simp: purging_def behind_def backups_true_def)
  have old: "kept cap S D f" "backups_true cap S D full f" "full \<Longrightarrow> old_there D f" using assms(2) by (simp_all add: purging_def behind_def)
  have sup: "superseded cap S D r" using assms(3) by (simp add: superseded_def)
  have "kept cap S D ?g"
    unfolding kept_def
  proof (intro allI impI)
    fix q z
    assume q: "map_of D q = Some z"
    then have "q \<noteq> backup_of r" using cleanD [OF assms(1)] by fastforce
    then show "superseded cap S D q \<or> ?g q = Some z" using old(1) sup q by (auto simp: kept_def)
  qed
  moreover have "backups_true cap S D full ?g" using old(2) sup D other by (auto simp: backups_true_def)
  moreover have "old_there D ?g" if full
    unfolding old_there_def
  proof (intro allI impI)
    fix q z
    assume q: "map_of D q = Some z"
    then have "\<not> in_backup q" using cleanD [OF assms(1)] by blast
    then have "q \<noteq> backup_of r" by auto
    moreover have "f q = Some z \<or> f (backup_of q) = Some z" using old(3) [OF that] q by (simp add: old_there_def)
    ultimately show "?g q = Some z \<or> ?g (backup_of q) = Some z" using q D other by (cases "q = r") auto
  qed
  moreover have "?g q = None" if "?g (backup_of q) \<noteq> None" for q
  proof (cases "q = r")
    case False
    then have "f (backup_of q) \<noteq> None" using that other by (auto split: if_splits)
    moreover from outside [OF this] have "q \<noteq> backup_of r" by auto
    ultimately show ?thesis using assms(2) False by (simp add: purging_def)
  next
    case True
    then show ?thesis using other [of r] by (metis fun_upd_apply)
  qed
  moreover have "in_backup q \<or> map_of D q = Some z" if "?g q = Some z" for q z
    using assms(2) that by (auto simp: purging_def split: if_splits)
  ultimately show ?thesis by (auto simp: purging_def behind_def)
qed

lemma holds_disj: "holds P m Q E \<Longrightarrow> holds P' m Q E \<Longrightarrow> holds (\<lambda>v. P v \<or> P' v) m Q E"
  by (rule holdsI) (auto simp: held_def dest: holdsD [of P] holdsD [of P'])

lemma holds_purge:
  assumes "clean D" "source \<noteq> dest" and E: "\<And>v e. v source = Some S \<Longrightarrow> purging cap S D full (file_in (v dest)) \<Longrightarrow> E e v"
  shows "holds (\<lambda>v. v source = Some S \<and> v dest = Some D) (purge_episode_conflicts os source dest)
    (\<lambda>_ v. v source = Some S \<and> v dest \<noteq> None \<and> purging cap S D full (file_in (v dest))) E"
  unfolding purge_episode_conflicts_def
proof (rule holds_looking)
  fix w
  let ?J = "\<lambda>v. v source = Some S \<and> v dest \<noteq> None \<and> purging cap S D full (file_in (v dest))"
  assume w: "held (\<lambda>v. v source = Some S \<and> v dest = Some D) w"
  have here: "folder_at source w = Some S" "folder_at dest w = Some D" using w by (simp_all add: held_def folders_of_def)
  have move: "holds ?J (file_rename os dest r (backup_of r)) (\<lambda>_. ?J) E" if r: "r \<in> set (episode_conflicts S D)" for r
  proof (rule holds_file_rename)
    fix v x g
    assume v: "?J v" "file_in (v dest) r = Some x" and g: "file_in g = (file_in (v dest))(r := None, backup_of r := Some x)"
    have "file_in g (backup_of r) = Some x" by (simp add: g)
    then have "g \<noteq> None" by (cases g) auto
    then show "?J (v(dest := g))" using v(1) purge_one [where f = "file_in (v dest)" and cap = cap and full = full, OF assms(1) _ r v(2)] assms(2) by (simp add: g)
  qed (use E in auto)
  have each: "holds ?J (each (\<lambda>r. file_rename os dest r (backup_of r)) (episode_conflicts S D)) (\<lambda>_. ?J) E"
    by (rule holds_each) (rule move)
  have none: "map_of D (backup_of r) = None" for r using cleanD [OF assms(1), of "backup_of r"] by (cases "map_of D (backup_of r)") auto
  then have "behind cap S D full (map_of D)" by (simp add: behind_def kept_def old_there_def backups_true_def)
  moreover have "file_in (Some D) = map_of D" by (simp add: file_in_def fun_eq_iff)
  ultimately have "purging cap S D full (file_in (Some D))" using none by (simp add: purging_def)
  then show "holds (\<lambda>v. (v source = Some S \<and> v dest = Some D) \<and> v = folders_of w)
      (case folder_at dest w of None \<Rightarrow> done_with ()
       | Some dst \<Rightarrow> (case folder_at source w of None \<Rightarrow> raising (Inl Refused)
         | Some src \<Rightarrow> then_do (nothing_but_call os) (each (\<lambda>r. file_rename os dest r (backup_of r)) (episode_conflicts src dst)))) (\<lambda>_. ?J) E"
    unfolding here option.simps by (intro holds_do [OF holds_nothing_but_call each]) (auto intro: E)
qed

text \<open>The states of a merge: before the source has landed, once it has (with what is kept), once the backup is gone too, and what
  holds wherever it stops.\<close>

definition landing :: "fs_capability \<Rightarrow> place \<Rightarrow> folder \<Rightarrow> folder \<Rightarrow> (place \<Rightarrow> folder option) \<Rightarrow> bool" where
  "landing cap dest S D v \<longleftrightarrow> landed cap S D (file_in (v dest)) \<and> kept cap S D (file_in (v dest))"

definition tidy :: "fs_capability \<Rightarrow> place \<Rightarrow> folder \<Rightarrow> folder \<Rightarrow> (place \<Rightarrow> folder option) \<Rightarrow> bool" where
  "tidy cap dest S D v \<longleftrightarrow> landing cap dest S D v \<and> no_backup (file_in (v dest))"

definition merge_safe :: "fs_capability \<Rightarrow> place \<Rightarrow> place \<Rightarrow> folder \<Rightarrow> folder \<Rightarrow> bool \<Rightarrow> (place \<Rightarrow> folder option) \<Rightarrow> bool" where
  "merge_safe cap source dest S D full v \<longleftrightarrow> landing cap dest S D v
     \<or> v source = Some S \<and> kept cap S D (file_in (v dest)) \<and> (full \<longrightarrow> old_there D (file_in (v dest)))"

text \<open>A refusal is handled, so it leaves a state the handler undoes; a kill leaves what it leaves.\<close>

definition merge_stop :: "fs_capability \<Rightarrow> place \<Rightarrow> place \<Rightarrow> folder \<Rightarrow> folder \<Rightarrow> bool \<Rightarrow> os_stop \<Rightarrow> (place \<Rightarrow> folder option) \<Rightarrow> bool" where
  "merge_stop cap source dest S D full e v \<longleftrightarrow>
     (if e = Refused then undoing cap source dest S D full v \<or> tidy cap dest S D v else merge_safe cap source dest S D full v)"

definition merge_answer :: "fs_capability \<Rightarrow> place \<Rightarrow> place \<Rightarrow> folder \<Rightarrow> folder \<Rightarrow> bool \<Rightarrow> bool \<Rightarrow> (place \<Rightarrow> folder option) \<Rightarrow> bool" where
  "merge_answer cap source dest S D full ok v \<longleftrightarrow> (if ok then landing cap dest S D v else merge_safe cap source dest S D full v)"

lemma undoing_landing: "undoing cap source dest S D full v \<Longrightarrow> landed cap S D (file_in (v dest)) \<Longrightarrow> landing cap dest S D v"
  by (simp add: undoing_def behind_def landing_def)

lemma undoing_safe: "undoing cap source dest S D full v \<Longrightarrow> merge_safe cap source dest S D full v"
  by (simp add: undoing_def behind_def merge_safe_def)

lemma tidy_safe: "tidy cap dest S D v \<Longrightarrow> merge_safe cap source dest S D full v"
  by (simp add: tidy_def merge_safe_def)

lemma undoing_stop: "undoing cap source dest S D full v \<Longrightarrow> merge_stop cap source dest S D full e v"
  by (simp add: merge_stop_def undoing_safe)

lemma holds_undo:
  assumes "clean D" "source \<noteq> dest" and E: "\<And>e v. undoing cap source dest S D full v \<Longrightarrow> E e v" "\<And>e v. tidy cap dest S D v \<Longrightarrow> E e v"
  shows "holds (\<lambda>v. undoing cap source dest S D full v \<or> tidy cap dest S D v) (then_with (restore_merge_backup os dest) (\<lambda>_. done_with False))
    (merge_answer cap source dest S D full) E"
proof (rule holds_disj)
  have "holds (undoing cap source dest S D full) (restore_merge_backup os dest) (\<lambda>_. undoing cap source dest S D full) E"
    by (rule holds_post [OF holds_restore [OF assms(1,2)]]) (auto intro: E)
  then show "holds (undoing cap source dest S D full) (then_with (restore_merge_backup os dest) (\<lambda>_. done_with False)) (merge_answer cap source dest S D full) E"
    by (rule holds_then) (rule holds_done, simp add: merge_answer_def undoing_safe)
  have "holds (tidy cap dest S D) (restore_merge_backup os dest) (\<lambda>_. tidy cap dest S D) E"
    by (rule holds_restore_nothing) (simp add: tidy_def)
  then show "holds (tidy cap dest S D) (then_with (restore_merge_backup os dest) (\<lambda>_. done_with False)) (merge_answer cap source dest S D full) E"
    by (rule holds_then) (rule holds_done, simp add: merge_answer_def tidy_safe)
qed

lemma holds_copy:
  assumes law: "rsync_documented os" "cap \<in> set CAPABILITY_TABLE" and exact: "full \<Longrightarrow> backups_exact os"
    and clean: "clean S" "clean D" and places: "source \<noteq> dest"
  shows "holds (\<lambda>v. v source = Some S \<and> v dest \<noteq> None \<and> purging cap S D full (file_in (v dest))) (rsync_merge os cap source dest b)
    (\<lambda>ok v. undoing cap source dest S D full v \<and> (ok \<longrightarrow> landed cap S D (file_in (v dest)))) (merge_stop cap source dest S D full)"
  unfolding rsync_merge_def
proof (rule holds_rsync)
  fix v n
  let ?run = "rsync_run os n (build_rsync_cmd source dest cap False (Some b))"
  let ?v = "v(dest := snd (?run (v source) (v dest)))"
  assume v: "v source = Some S \<and> v dest \<noteq> None \<and> purging cap S D full (file_in (v dest))"
  have "behind cap S D full (file_in (v dest))" "\<And>r. file_in (v dest) (backup_of r) \<noteq> None \<Longrightarrow> file_in (v dest) r = None"
      "\<And>r x. file_in (v dest) r = Some x \<Longrightarrow> \<not> in_backup r \<Longrightarrow> map_of D r = Some x"
    using v by (auto simp: purging_def)
  from rsync_merge_keeps [OF law exact clean this]
  have step: "behind cap S D full (file_in (snd (?run (Some S) (v dest))))"
      "fst (?run (Some S) (v dest)) \<Longrightarrow> landed cap S D (file_in (snd (?run (Some S) (v dest))))"
    using v by (metis prod.collapse)+
  show "undoing cap source dest S D full ?v \<and> (fst (?run (v source) (v dest)) \<longrightarrow> landed cap S D (file_in (?v dest)))"
    using v step places by (simp add: undoing_def)
  show "merge_stop cap source dest S D full e ?v" for e
    using v step places by (intro undoing_stop) (simp add: undoing_def)
next
  fix v e
  assume "v source = Some S \<and> v dest \<noteq> None \<and> purging cap S D full (file_in (v dest))"
  then show "merge_stop cap source dest S D full e v" by (intro undoing_stop) (simp add: undoing_def purging_def)
qed

text \<open>A part of the backup removed changes no other file.\<close>

lemma less_backup:
  assumes "clean S" "clean D" and g: "\<And>r. g r = f r \<or> in_backup r \<and> g r = None"
  shows "landed cap S D f \<Longrightarrow> landed cap S D g" and "kept cap S D f \<Longrightarrow> kept cap S D g" and "backups_true cap S D full f \<Longrightarrow> backups_true cap S D full g"
proof -
  have same: "g r = f r" if "\<not> in_backup r" for r using g that by blast
  show "landed cap S D f \<Longrightarrow> landed cap S D g" using same cleanD [OF assms(1)] by (simp add: landed_def landed_by_def)
  show "kept cap S D f \<Longrightarrow> kept cap S D g" using same cleanD [OF assms(2)] by (auto simp: kept_def)
  have "f (backup_of r) = Some x" if "g (backup_of r) = Some x" for r x using g [of "backup_of r"] that by auto
  then show "backups_true cap S D full f \<Longrightarrow> backups_true cap S D full g" unfolding backups_true_def by blast
qed

lemma holds_cleanup:
  assumes clean: "clean S" "clean D" and places: "source \<noteq> dest" and whole: "full \<Longrightarrow> removals_whole os"
  shows "holds (\<lambda>v. undoing cap source dest S D full v \<and> landed cap S D (file_in (v dest)))
    (looking (\<lambda>w. if has_backup dest w then rm_backup os dest else done_with ()))
    (\<lambda>_ v. tidy cap dest S D v \<and> v source = Some S) (merge_stop cap source dest S D full)"
proof (rule holds_looking)
  fix w
  let ?P = "\<lambda>v. undoing cap source dest S D full v \<and> landed cap S D (file_in (v dest))"
  have rm: "holds ?P (rm_backup os dest) (\<lambda>_ v. tidy cap dest S D v \<and> v source = Some S) (merge_stop cap source dest S D full)"
  proof (rule holds_rm_backup)
    fix v g e
    assume v: "?P v" and g: "\<And>r. file_in g r = file_in (v dest) r \<or> in_backup r \<and> file_in g r = None"
      and same: "e = Refused \<Longrightarrow> removals_whole os \<Longrightarrow> file_in g = file_in (v dest)"
    have "landing cap dest S D v" using v undoing_landing by blast
    then have g: "landed cap S D (file_in g)" "kept cap S D (file_in g)" "backups_true cap S D full (file_in g)"
      using less_backup [where f = "file_in (v dest)" and g = "file_in g", OF clean g] v by (auto simp: landing_def undoing_def behind_def)
    show "merge_stop cap source dest S D full e (v(dest := g))"
    proof (cases "e = Refused")
      case True
      have "full \<Longrightarrow> old_there D (file_in g)" using same [OF True whole] v by (simp add: undoing_def behind_def)
      then show ?thesis using True g v places by (simp add: merge_stop_def undoing_def behind_def)
    next
      case False
      then show ?thesis using g by (simp add: merge_stop_def merge_safe_def landing_def)
    qed
  next
    fix v g
    assume v: "?P v" and g: "file_in g = (\<lambda>r. if in_backup r then None else file_in (v dest) r)"
    have "landing cap dest S D v" using v undoing_landing by blast
    then have "landed cap S D (file_in g)" "kept cap S D (file_in g)"
      using less_backup [where f = "file_in (v dest)" and g = "file_in g", OF clean] g by (auto simp: landing_def)
    then show "tidy cap dest S D (v(dest := g)) \<and> (v(dest := g)) source = Some S"
      using v g places by (simp add: tidy_def landing_def no_backup_def undoing_def)
  qed
  show "holds (\<lambda>v. ?P v \<and> v = folders_of w) (if has_backup dest w then rm_backup os dest else done_with ())
      (\<lambda>_ v. tidy cap dest S D v \<and> v source = Some S) (merge_stop cap source dest S D full)"
  proof (cases "has_backup dest w")
    case True
    moreover have "holds (\<lambda>v. ?P v \<and> v = folders_of w) (rm_backup os dest) (\<lambda>_ v. tidy cap dest S D v \<and> v source = Some S)
        (merge_stop cap source dest S D full)" by (rule holds_pre [OF rm]) simp
    ultimately show ?thesis by simp
  next
    case False
    then have "no_backup (file_in (folders_of w dest))"
      unfolding has_backup_iff no_backup_def by (metis in_backup_of)
    then have "holds (\<lambda>v. ?P v \<and> v = folders_of w) (done_with ())
        (\<lambda>_ v. tidy cap dest S D v \<and> v source = Some S) (merge_stop cap source dest S D full)"
      by (intro holds_done) (auto simp: tidy_def undoing_landing, simp add: undoing_def)
    then show ?thesis using False by simp
  qed
qed

text \<open>\<open>full\<close> asks that the copies of the backup are exact and a removal that is refused removed nothing.\<close>

lemma merge_state:
  assumes law: "rsync_documented os" "cap \<in> set CAPABILITY_TABLE" and full: "full \<Longrightarrow> backups_exact os \<and> removals_whole os"
    and clean: "clean S" "clean D" and places: "source \<noteq> dest"
    and start: "folder_at source w = Some S" "folder_at dest w = Some D"
  shows "case merge os cap source dest w of (answer, w') \<Rightarrow>
      kept cap S D (file_in (folder_at dest w'))
    \<and> (landed cap S D (file_in (folder_at dest w')) \<or> answer \<noteq> Inr True \<and> folder_at source w' = Some S
        \<and> (full \<longrightarrow> old_there D (file_in (folder_at dest w'))))"
proof -
  let ?Q = "merge_answer cap source dest S D full" and ?E = "merge_stop cap source dest S D full" and ?R = "merge_safe cap source dest S D full"
  let ?U = "undoing cap source dest S D full" and ?T = "tidy cap dest S D"
  let ?undo = "then_with (restore_merge_backup os dest) (\<lambda>_. done_with False)"
  let ?P = "\<lambda>v. ?U v \<and> landed cap S D (file_in (v dest))"
  have stop: "?U v \<Longrightarrow> ?E e v" "?T v \<Longrightarrow> ?E e v" for e v
    by (simp_all add: merge_stop_def undoing_safe tidy_safe)
  have undo: "holds (\<lambda>v. ?U v \<or> ?T v) ?undo ?Q ?E"
    by (rule holds_undo [OF clean(2) places stop])
  have purge: "holds (\<lambda>v. v source = Some S \<and> v dest = Some D) (purge_episode_conflicts os source dest)
      (\<lambda>_ v. v source = Some S \<and> v dest \<noteq> None \<and> purging cap S D full (file_in (v dest))) ?E"
    by (rule holds_purge [OF clean(2) places]) (rule undoing_stop, simp add: undoing_def purging_def)
  have verify: "holds ?P (verify_transfer os source dest) (\<lambda>_. ?P) ?E"
    by (rule holds_verify) (auto intro: undoing_stop)
  have rm_source: "holds (\<lambda>v. ?T v \<and> v source = Some S) (force_rmtree os source) (\<lambda>_. landing cap dest S D) ?E"
    by (rule holds_rmtree) (use places in \<open>auto simp: tidy_def landing_def merge_stop_def merge_safe_def\<close>)
  have "holds (landing cap dest S D) (done_with True) ?Q ?E" by (rule holds_done) (simp add: merge_answer_def)
  then have finish: "holds ?P (then_do (looking (\<lambda>w. if has_backup dest w then rm_backup os dest else done_with ()))
      (then_do (force_rmtree os source) (done_with True))) ?Q ?E"
    by (intro holds_do [OF holds_cleanup [OF clean places]] holds_do [OF rm_source]) (use full in blast)
  have undone: "holds ?U ?undo ?Q ?E" "holds ?P ?undo ?Q ?E"
    by (rule holds_pre [OF undo], simp)+
  have "holds (\<lambda>v. ?U v \<and> (ok \<longrightarrow> landed cap S D (file_in (v dest))))
      (if \<not> ok then ?undo
       else then_with (verify_transfer os source dest) (\<lambda>ok.
         if ok then then_do (looking (\<lambda>w. if has_backup dest w then rm_backup os dest else done_with ()))
           (then_do (force_rmtree os source) (done_with True))
         else ?undo)) ?Q ?E" for ok
    by (cases ok) (use finish undone in \<open>auto intro!: holds_then [OF verify]\<close>)
  moreover have "holds (?E Refused) ?undo ?Q (\<lambda>_. ?R)"
    by (rule holds_pre [OF holds_undo [OF clean(2) places, where E = "\<lambda>_. ?R" and os = os and cap = cap]]) (simp_all add: merge_stop_def undoing_safe tidy_safe)
  moreover have "full \<Longrightarrow> backups_exact os" using full by blast
  ultimately have "holds (\<lambda>v. v source = Some S \<and> v dest = Some D) (merge os cap source dest) ?Q (\<lambda>_. ?R)"
    unfolding merge_def Let_def
    by (intro holds_on_refusal [where E = ?E, OF holds_do [OF purge holds_then [OF holds_copy [OF law _ clean places]]]])
      (simp_all add: merge_stop_def)
  moreover have "held (\<lambda>v. v source = Some S \<and> v dest = Some D) w" using start by (simp add: held_def folders_of_def)
  ultimately have "case merge os cap source dest w of (Inl e, w') \<Rightarrow> held ?R w' | (Inr x, w') \<Rightarrow> held (?Q x) w'" by (rule holdsD)
  then show ?thesis
    by (auto simp: held_def merge_answer_def merge_safe_def landing_def folders_of_simps split: prod.splits sum.splits if_splits)
qed


subsection \<open>A sweep of the leftovers\<close>

definition leftover :: "place \<Rightarrow> rel \<Rightarrow> bool" where
  "leftover p r \<longleftrightarrow> has_prefix DISPATCH_TMP_PREFIX (last p) \<or> has_prefix INGEST_TMP_PREFIX (last p) \<or> in_backup r"

definition swept :: "(place \<Rightarrow> folder option) \<Rightarrow> (place \<Rightarrow> folder option) \<Rightarrow> bool" where
  "swept v0 v \<longleftrightarrow> (\<forall>p r. file_in (v p) r = file_in (v0 p) r \<or> leftover p r \<and> file_in (v p) r = None)"

lemma swept_change:
  assumes "swept v0 v" and "\<And>r. file_in g r = file_in (v p) r \<or> leftover p r \<and> file_in g r = None"
  shows "swept v0 (v(p := g))"
  using assms unfolding swept_def by (metis fun_upd_apply)

lemma holds_swept_rmtree: "has_prefix DISPATCH_TMP_PREFIX (last p) \<or> has_prefix INGEST_TMP_PREFIX (last p)
    \<Longrightarrow> holds (swept v0) (force_rmtree os p) (\<lambda>_. swept v0) (\<lambda>_. swept v0)"
proof (rule holds_rmtree)
  fix v f n
  assume p: "has_prefix DISPATCH_TMP_PREFIX (last p) \<or> has_prefix INGEST_TMP_PREFIX (last p)" and v: "swept v0 v" "v p = Some f"
  show "swept v0 (v(p := Some (left_of os n f)))"
    by (rule swept_change [OF v(1)]) (use p v(2) in \<open>auto simp: left_of_def leftover_def\<close>)
  show "swept v0 (v(p := Some (left_of os n f)))"
    by (rule swept_change [OF v(1)]) (use p v(2) in \<open>auto simp: left_of_def leftover_def\<close>)
next
  fix v
  assume "has_prefix DISPATCH_TMP_PREFIX (last p) \<or> has_prefix INGEST_TMP_PREFIX (last p)" "swept v0 v"
  then show "swept v0 (v(p := None))" by (intro swept_change) (auto simp: leftover_def)
qed

lemma holds_swept_backup: "holds (swept v0) (rm_backup os p) (\<lambda>_. swept v0) (\<lambda>_. swept v0)"
proof (rule holds_rm_backup)
  fix v g e
  assume "swept v0 v" "\<And>r. file_in g r = file_in (v p) r \<or> in_backup r \<and> file_in g r = None"
  then show "swept v0 (v(p := g))" by (intro swept_change) (auto simp: leftover_def)
next
  fix v g
  assume "swept v0 v" "file_in g = (\<lambda>r. if in_backup r then None else file_in (v p) r)"
  then show "swept v0 (v(p := g))" by (intro swept_change) (auto simp: leftover_def)
qed

lemma holds_remove_orphan: "holds P rm (\<lambda>_. P) (\<lambda>_. P) \<Longrightarrow> holds P (remove_orphan rm policy dry_run) (\<lambda>_. P) (\<lambda>_. P)"
  unfolding remove_orphan_def by (auto intro!: holds_done holds_then [OF holds_attempt])

lemma holds_looking_if:
  assumes "\<And>w. c w \<Longrightarrow> holds P m (\<lambda>_. P) (\<lambda>_. P)"
  shows "holds P (looking (\<lambda>w. if c w then m else done_with k)) (\<lambda>_. P) (\<lambda>_. P)"
proof (rule holds_looking)
  fix w
  have "holds (\<lambda>v. P v \<and> v = folders_of w) (done_with k) (\<lambda>_. P) (\<lambda>_. P)" by (rule holds_done) simp
  moreover have "c w \<Longrightarrow> holds (\<lambda>v. P v \<and> v = folders_of w) m (\<lambda>_. P) (\<lambda>_. P)" by (rule holds_pre [OF assms]) auto
  ultimately show "holds (\<lambda>v. P v \<and> v = folders_of w) (if c w then m else done_with k) (\<lambda>_. P) (\<lambda>_. P)" by simp
qed

lemma holds_sweep_each: "(\<And>p. p \<in> set ps \<Longrightarrow> holds P (f p) (\<lambda>_. P) (\<lambda>_. P)) \<Longrightarrow> holds P (sweep_each f ps) (\<lambda>_. P) (\<lambda>_. P)"
  by (induction ps) (auto simp del: act_simps intro!: holds_done holds_then)

lemma holds_listing:
  assumes "\<And>w. holds P (m w) (\<lambda>_. P) (\<lambda>_. P)"
  shows "holds P (listing os m) (\<lambda>_. P) (\<lambda>_. P)"
proof -
  have "holds P (nothing_but_call os) (\<lambda>_. P) (\<lambda>_. P)" by (rule holds_nothing_but_call)
  moreover have "holds P (looking m) (\<lambda>_. P) (\<lambda>_. P)"
    by (rule holds_looking) (rule holds_pre [OF assms], simp)
  moreover have "holds P (done_with 0) (\<lambda>_. P) (\<lambda>_. P)" by (rule holds_done)
  ultimately show ?thesis unfolding listing_def by (intro holds_then [OF holds_attempt]) auto
qed

lemma holds_sweep_root: "holds (swept v0) (sweep_root os time config dry_run r) (\<lambda>_. swept v0) (\<lambda>_. swept v0)"
proof -
  have media: "holds (swept v0) (sweep_media os policy dry_run p) (\<lambda>_. swept v0) (\<lambda>_. swept v0)" for policy p
  proof -
    have "holds (swept v0) (looking (\<lambda>w. if has_prefix DISPATCH_TMP_PREFIX (last p) then remove_orphan (force_rmtree os p) policy dry_run else done_with 0))
        (\<lambda>_. swept v0) (\<lambda>_. swept v0)"
      by (rule holds_looking_if) (intro holds_remove_orphan holds_swept_rmtree disjI1)
    moreover have "holds (swept v0) (looking (\<lambda>w. if has_backup p w then remove_orphan (rm_backup os p) policy dry_run else done_with 0))
        (\<lambda>_. swept v0) (\<lambda>_. swept v0)"
      by (rule holds_looking_if) (intro holds_remove_orphan holds_swept_backup)
    moreover have "holds (swept v0) (done_with k) (\<lambda>_. swept v0) (\<lambda>_. swept v0)" for k :: nat by (rule holds_done)
    ultimately show ?thesis unfolding sweep_media_def by (intro holds_then)
  qed
  have tree: "holds (swept v0) (sweep_media_tree os policy dry_run b) (\<lambda>_. swept v0) (\<lambda>_. swept v0)" for policy b
    unfolding sweep_media_tree_def sweep_category_def by (intro holds_listing holds_sweep_each media)
  have ingest: "holds (swept v0) (sweep_ingest_dir os policy dry_run b) (\<lambda>_. swept v0) (\<lambda>_. swept v0)" for policy b
    unfolding sweep_ingest_dir_def
    by (intro holds_listing holds_sweep_each) (auto simp del: act_simps intro!: holds_remove_orphan holds_swept_rmtree holds_done)
  have unlink: "holds (swept v0) (unlink_lockout os p) (\<lambda>_. swept v0) (\<lambda>_. swept v0)" for p
    unfolding unlink_lockout_def by (rule holds_call, rule holdsI) (simp add: held_def folders_of_simps)
  have lockout: "holds (swept v0) (sweep_lockout_file os time policy dry_run p) (\<lambda>_. swept v0) (\<lambda>_. swept v0)" for policy p
    unfolding sweep_lockout_file_def
  proof (rule holds_looking)
    fix w
    show "holds (\<lambda>v. swept v0 v \<and> v = folders_of w) (case map_of (lockouts w) p of None \<Rightarrow> done_with 0
       | Some mtime \<Rightarrow> listing os (\<lambda>_. if time - mtime \<le> LOCKOUT_STALE_AGE_S then done_with 0 else remove_orphan (unlink_lockout os p) policy dry_run))
      (\<lambda>_. swept v0) (\<lambda>_. swept v0)"
    proof (cases "map_of (lockouts w) p")
      case None
      have "holds (\<lambda>v. swept v0 v \<and> v = folders_of w) (done_with 0) (\<lambda>_. swept v0) (\<lambda>_. swept v0)" by (rule holds_done) simp
      then show ?thesis by (simp only: None option.case)
    next
      case (Some mtime)
      have "holds (swept v0) (if time - mtime \<le> LOCKOUT_STALE_AGE_S then done_with 0 else remove_orphan (unlink_lockout os p) policy dry_run)
          (\<lambda>_. swept v0) (\<lambda>_. swept v0)"
        using holds_remove_orphan [OF unlink] holds_done [of "swept v0" "\<lambda>_. swept v0"] by (cases "time - mtime \<le> LOCKOUT_STALE_AGE_S") auto
      then show ?thesis unfolding Some option.case by (intro holds_pre [OF holds_listing]) auto
    qed
  qed
  obtain p kind policy where r: "r = (p, kind, policy)" by (cases r)
  have skip: "holds (swept v0) (done_with 0) (\<lambda>_. swept v0) (\<lambda>_. swept v0)" by (rule holds_done)
  show ?thesis unfolding r sweep_root_def prod.case by (cases kind) (use skip tree ingest lockout in \<open>auto simp del: act_simps\<close>)
qed

lemma holds_sweep_orphans: "holds (swept v0) (sweep_orphans os time sandboxed config roots dry_run) (\<lambda>_. swept v0) (\<lambda>_. swept v0)"
proof -
  have none: "holds (swept v0) (done_with x) (\<lambda>_. swept v0) (\<lambda>_. swept v0)" for x by (rule holds_done)
  have "holds (swept v0) (sweep_roots os time config dry_run roots) (\<lambda>_. swept v0) (\<lambda>_. swept v0)"
  proof (induction roots)
    case Nil
    show ?case unfolding sweep_roots.simps by (rule none)
  next
    case (Cons r rs)
    show ?case unfolding sweep_roots.simps by (intro holds_then [OF holds_sweep_root] holds_then [OF Cons] none)
  qed
  then have "holds (swept v0) (then_with (sweep_roots os time config dry_run roots) (\<lambda>n. done_with (Inr n))) (\<lambda>_. swept v0) (\<lambda>_. swept v0)"
    by (rule holds_then) (rule none)
  then show ?thesis
    unfolding sweep_orphans_def using none [of "Inl Sandbox_Guard_Error"] by (simp only: split: if_split) blast
qed

text \<open>The folder still has every file of the source.\<close>

definition staged :: "folder \<Rightarrow> (rel \<Rightarrow> string option) \<Rightarrow> bool" where
  "staged S f \<longleftrightarrow> (\<forall>r x. map_of S r = Some x \<longrightarrow> f r = Some x)"

text \<open>C17: after a merge the process was killed in, wherever and with what its \<open>rsync\<close> had written and whatever it had copied to the
  backup, the sweep of the next start still leaves every file the source does not supersede as it was, and the source: every
  file of it where it was, or landed (but for what rsync is told to leave out, and where the quick check let a file of the same
  size stand); and wherever it sweeps it removes only temporary folders and backups. The folders of the merge are no
  temporary ones by their names, and neither holds a backup before it.\<close>

theorem sweep_after_a_killed_merge:
  assumes law: "rsync_documented os" "cap \<in> set CAPABILITY_TABLE" and clean: "clean S" "clean D" and places: "source \<noteq> dest"
    and start: "folder_at source w = Some S" "folder_at dest w = Some D"
    and plain: "\<not> leftover source []" "\<not> leftover dest []"
    and runs: "merge os cap source dest w = (answer, w1)" "sweep_orphans os' time sandboxed config roots dry_run w1 = (n, w2)"
  shows "kept cap S D (file_in (folder_at dest w2))
    \<and> (landed cap S D (file_in (folder_at dest w2)) \<or> staged S (file_in (folder_at source w2)))
    \<and> (\<forall>p r. file_in (folder_at p w2) r = file_in (folder_at p w1) r \<or> leftover p r)"
proof -
  have merged: "kept cap S D (file_in (folder_at dest w1))" "landed cap S D (file_in (folder_at dest w1)) \<or> folder_at source w1 = Some S"
    using merge_state [OF law _ clean places start, of False] runs(1) by auto
  have "held (swept (folders_of w1)) w1" by (simp add: held_def swept_def)
  then have "case sweep_orphans os' time sandboxed config roots dry_run w1 of (Inl e, w') \<Rightarrow> held (swept (folders_of w1)) w' | (Inr k, w') \<Rightarrow> held (swept (folders_of w1)) w'"
    by (rule holdsD [OF holds_sweep_orphans])
  then have swept: "swept (folders_of w1) (folders_of w2)" using runs(2) by (auto simp: held_def split: sum.splits)
  then have same: "file_in (folder_at p w2) r = file_in (folder_at p w1) r" if "\<not> leftover p r" for p r
    using that by (auto simp: swept_def folders_of_simps)
  have out: "\<not> leftover dest r" "\<not> leftover source r" if "\<not> in_backup r" for r using plain that by (auto simp: leftover_def)
  have "kept cap S D (file_in (folder_at dest w2))"
    using merged(1) same out cleanD [OF clean(2)] by (auto simp: kept_def)
  moreover have "landed cap S D (file_in (folder_at dest w2)) \<or> staged S (file_in (folder_at source w2))"
    using merged(2)
  proof
    assume "landed cap S D (file_in (folder_at dest w1))"
    then have "landed cap S D (file_in (folder_at dest w2))"
      using same out cleanD [OF clean(1)] by (simp add: landed_def landed_by_def)
    then show ?thesis ..
  next
    assume "folder_at source w1 = Some S"
    then have "staged S (file_in (folder_at source w2))"
      using same out cleanD [OF clean(1)] by (simp add: staged_def file_in_def)
    then show ?thesis ..
  qed
  ultimately show ?thesis using same by blast
qed

subsection \<open>Concrete transfers\<close>

text \<open>An \<open>rsync\<close> that copies what it is not told to leave out, and with \<open>--backup\<close> sets aside what it overwrites.\<close>

definition overlay :: "folder \<Rightarrow> folder \<Rightarrow> folder" where
  "overlay S D = S @ filter (\<lambda>(r, x). map_of S r = None) D"

definition overwritten :: "folder \<Rightarrow> folder \<Rightarrow> folder" where
  "overwritten S D = map (\<lambda>(r, x). (backup_of r, x)) (filter (\<lambda>(r, x). map_of S r \<noteq> None) D)"

definition sample_rsync :: "string list \<Rightarrow> folder option \<Rightarrow> folder option \<Rightarrow> bool \<times> folder option" where
  "sample_rsync argv src dst = (case src of None \<Rightarrow> (False, dst) | Some S \<Rightarrow>
     (let V = filter (\<lambda>(r, x). \<not> excluded argv r) S; D = (case dst of None \<Rightarrow> [] | Some D \<Rightarrow> D) in
      (True, Some (overlay V (if ''--backup'' \<in> set argv then overwritten V D @ D else D)))))"

definition sample_os :: os where
  "sample_os = \<lparr>refuses = (\<lambda>_. False), kills = (\<lambda>_. False), undeleted = (\<lambda>_ _. False), torn = (\<lambda>_. None), unreadable = (\<lambda>_ _. False),
     rsync_run = (\<lambda>_. sample_rsync)\<rparr>"

lemma map_of_overlay: "map_of (overlay S D) r = (case map_of S r of Some x \<Rightarrow> Some x | None \<Rightarrow> map_of D r)"
  by (simp add: overlay_def map_add_def map_of_filter_keys split: option.split)

lemma map_of_overwritten: "map_of (overwritten S D) q = (if in_backup q \<and> map_of S (tl q) \<noteq> None then map_of D (tl q) else None)"
proof (cases "in_backup q")
  case True
  then obtain r where q: "q = backup_of r" using in_backup_of by metis
  have "tl (backup_of r) = r" by (simp add: backup_of_def)
  then show ?thesis unfolding q overwritten_def by (induction D) auto
next
  case False
  then show ?thesis unfolding overwritten_def by (induction D) auto
qed

text \<open>The target after the run: a file of the source, a copy of what that overwrote, or what was there.\<close>

lemma sample_rsync_files:
  assumes "sample_rsync argv (Some S) dst = (ok, g)"
  defines "V \<equiv> \<lambda>r. if excluded argv r then None else map_of S r"
  shows "ok \<and> g \<noteq> None" and "file_in g r = (case V r of Some x \<Rightarrow> Some x | None \<Rightarrow>
    (case (if ''--backup'' \<in> set argv \<and> in_backup r \<and> V (tl r) \<noteq> None then file_in dst (tl r) else None) of Some x \<Rightarrow> Some x | None \<Rightarrow> file_in dst r))"
proof -
  let ?V = "filter (\<lambda>(r, x). \<not> excluded argv r) S" and ?D = "case dst of None \<Rightarrow> [] | Some D \<Rightarrow> D"
  have run: "ok" "g = Some (overlay ?V (if ''--backup'' \<in> set argv then overwritten ?V ?D @ ?D else ?D))"
    using assms(1) by (auto simp: sample_rsync_def Let_def)
  then show "ok \<and> g \<noteq> None" by simp
  have V: "map_of ?V r = V r" for r by (simp add: map_of_filter_keys V_def)
  have D: "map_of ?D r = file_in dst r" for r by (cases dst) (simp_all add: file_in_def)
  show "file_in g r = (case V r of Some x \<Rightarrow> Some x | None \<Rightarrow>
      (case (if ''--backup'' \<in> set argv \<and> in_backup r \<and> V (tl r) \<noteq> None then file_in dst (tl r) else None) of Some x \<Rightarrow> Some x | None \<Rightarrow> file_in dst r))"
    unfolding run(2) file_in_def [of "Some _"] bind.simps map_of_overlay V
    by (cases "V r"; cases "''--backup'' \<in> set argv"; cases "in_backup r"; cases "V (tl r)"; cases "file_in dst (tl r)")
      (simp_all add: map_add_def map_of_overwritten V D)
qed

lemma sample_names: "map_of S r = Some x \<Longrightarrow> \<not> excluded argv r \<Longrightarrow> names argv S r"
  by (force simp: names_def list_ex_iff dest: map_of_SomeD)

lemma sample_documented: "rsync_documented sample_os"
  unfolding rsync_documented_def
proof (intro allI impI)
  fix n argv S dst
  obtain ok g where run: "rsync_run sample_os n argv (Some S) dst = (ok, g)" by fastforce
  then have s: "sample_rsync argv (Some S) dst = (ok, g)" by (simp add: sample_os_def)
  note f = sample_rsync_files [OF s]
  have "file_in g r = file_in dst r \<or> names argv S r \<or> set_aside argv S dst r" for r
    unfolding f(2) set_aside_def
    using sample_names [of S r _ argv] sample_names [of S "tl r" _ argv]
    by (cases "map_of S r"; cases "map_of S (tl r)"; cases "excluded argv r"; cases "excluded argv (tl r)") (auto split: option.split)
  moreover have "landed_by argv S (file_in dst) (file_in g)" unfolding landed_by_def f(2) by simp
  moreover have "file_in dst r = Some y \<or> map_of S r = Some y \<and> \<not> excluded argv r \<or> set_aside argv S dst r" if "file_in g r = Some y" for r y
    using that sample_names [of S "tl r" _ argv] unfolding f(2) set_aside_def
    by (cases "map_of S r"; cases "map_of S (tl r)"; cases "excluded argv r"; cases "excluded argv (tl r)") (auto split: option.splits if_splits)
  ultimately show "let (ok, g) = rsync_run sample_os n argv (Some S) dst; old = file_in dst; new = file_in g in
      (\<forall>r. new r = old r \<or> names argv S r \<or> set_aside argv S dst r)
      \<and> (ok \<longrightarrow> g \<noteq> None \<and> landed_by argv S old new
          \<and> (\<forall>r y. new r = Some y \<longrightarrow> old r = Some y \<or> map_of S r = Some y \<and> \<not> excluded argv r \<or> set_aside argv S dst r))"
    using f(1) by (simp add: run)
qed

lemma sample_exact: "backups_exact sample_os"
  unfolding backups_exact_def Let_def
proof (intro allI impI)
  fix n argv S D
  assume argv: "''--delete'' \<notin> set argv \<and> ''--inplace'' \<in> set argv \<and> ''--backup'' \<in> set argv \<and> clean S"
  obtain ok g where run: "rsync_run sample_os n argv (Some S) (Some D) = (ok, g)" by fastforce
  then have s: "sample_rsync argv (Some S) (Some D) = (ok, g)" by (simp add: sample_os_def)
  note f = sample_rsync_files [OF s]
  have b: "tl (backup_of r) = r" for r by (simp add: backup_of_def)
  have S: "map_of S (backup_of r) = None" for r using argv cleanD [of S "backup_of r"] by (cases "map_of S (backup_of r)") auto
  have "(\<forall>r x. map_of D r = Some x \<and> \<not> in_backup r \<longrightarrow> file_in g r = Some x \<or> file_in g (backup_of r) = Some x)"
    unfolding f(2) using argv by (auto simp: b S file_in_def split: option.split)
  moreover have "\<forall>r x. file_in g (backup_of r) = Some x \<longrightarrow> map_of D (backup_of r) = Some x \<or> map_of D r = Some x"
    unfolding f(2) using argv by (auto simp: b S file_in_def split: option.splits if_splits)
  ultimately show "(\<forall>r x. map_of D r = Some x \<and> \<not> in_backup r \<longrightarrow> file_in (snd (rsync_run sample_os n argv (Some S) (Some D))) r = Some x
        \<or> file_in (snd (rsync_run sample_os n argv (Some S) (Some D))) (backup_of r) = Some x)
      \<and> (\<forall>r x. file_in (snd (rsync_run sample_os n argv (Some S) (Some D))) (backup_of r) = Some x \<longrightarrow>
          map_of D (backup_of r) = Some x \<or> map_of D r = Some x)"
    by (simp add: run)
qed

lemma sample_whole: "removals_whole sample_os"
  by (simp add: removals_whole_def sample_os_def)

lemma sample_capability: "NTFS_MACFUSE \<in> set CAPABILITY_TABLE"
  by (simp add: CAPABILITY_TABLE_def)

definition sample_show :: folder where
  "sample_show = [([''Saison 01'', ''S01E01.mkv''], ''new''), ([''Saison 01'', ''S01E02.mkv''], ''two'')]"

definition sample_library :: folder where
  "sample_library = [([''Saison 01'', ''S01E01 - Pilot.mkv''], ''old''), ([''tvshow.nfo''], ''nfo'')]"

definition sample_volume :: "folder \<Rightarrow> folder \<Rightarrow> volume" where
  "sample_volume src dst = \<lparr>media = [([''staging'', ''show''], src), ([''disk'', ''series'', ''show''], dst)], lockouts = [], calls = 0\<rparr>"

lemma sample_keys: "extract_season_episode ''S01E01.mkv'' = Some (1, 1)" "extract_season_episode ''S01E02.mkv'' = Some (1, 2)"
    "extract_season_episode ''S01E01 - Pilot.mkv'' = Some (1, 1)" "extract_season_episode ''S01E01.srt'' = Some (1, 1)"
  by code_simp+

lemma sample_clean: "clean sample_show" "clean sample_library"
  by (auto simp: clean_def no_backup_def in_backup_def sample_show_def sample_library_def MERGE_BACKUP_NAME_def)


text \<open>A new subtitle whose name carries an episode's numbers drives the episode itself out of the library.\<close>

lemma a_subtitle_purges_the_episode:
  "media (snd (merge sample_os NTFS_MACFUSE [''staging'', ''show''] [''disk'', ''series'', ''show'']
      (sample_volume [([''Saison 01'', ''S01E01.srt''], ''sub'')] [([''Saison 01'', ''S01E01 - Pilot.mkv''], ''old'')])))
    = [([''disk'', ''series'', ''show''], [([''Saison 01'', ''S01E01.srt''], ''sub'')])]"
  by code_simp

definition sample_films :: "folder \<Rightarrow> folder option \<Rightarrow> folder option \<Rightarrow> volume" where
  "sample_films src dst tmp = \<lparr>media = (case dst of None \<Rightarrow> [] | Some f \<Rightarrow> [([''disk'', ''film''], f)])
     @ (case tmp of None \<Rightarrow> [] | Some f \<Rightarrow> [([''disk'', ''film.new.tmp''], f)]) @ [([''staging'', ''film''], src)], lockouts = [], calls = 0\<rparr>"

definition sample_film :: folder where
  "sample_film = [([''a.mkv''], ''new''), ([''a.nfo''], ''n'')]"

lemma replace_never_loses_a_film_witness:
  "\<exists>w'. replace sample_os NTFS_MACFUSE [''staging'', ''film''] [''disk'', ''film''] (sample_films sample_film (Some [([''b.mkv''], ''old'')]) None) = (Inr True, w')
    \<and> whole NTFS_MACFUSE sample_film (folder_at [''disk'', ''film''] w')"
proof -
  let ?w = "sample_films sample_film (Some [([''b.mkv''], ''old'')]) None"
  have names: "beside [] ''.new.tmp'' [''disk'', ''film''] = [''disk'', ''film.new.tmp'']" "beside [] ''.old.tmp'' [''disk'', ''film''] = [''disk'', ''film.old.tmp'']"
    by (simp_all add: beside_def)
  have start: "folder_at [''staging'', ''film''] ?w = Some sample_film" "folder_at [''disk'', ''film''] ?w = Some [([''b.mkv''], ''old'')]"
      "folder_at (beside [] ''.new.tmp'' [''disk'', ''film'']) ?w = None" "folder_at (beside [] ''.old.tmp'' [''disk'', ''film'']) ?w = None"
    by (simp_all add: names folder_at_def sample_films_def)
  have places: "[''disk'', ''film''] \<noteq> []"
      "[''staging'', ''film''] \<notin> {[''disk'', ''film''], beside [] ''.new.tmp'' [''disk'', ''film''], beside [] ''.old.tmp'' [''disk'', ''film'']}"
    by (simp_all add: names)
  have "fst (replace sample_os NTFS_MACFUSE [''staging'', ''film''] [''disk'', ''film''] ?w) = Inr True" by code_simp
  then obtain w' where "replace sample_os NTFS_MACFUSE [''staging'', ''film''] [''disk'', ''film''] ?w = (Inr True, w')" by (metis prod.collapse)
  then show ?thesis using replace_never_loses_a_film [OF sample_documented sample_capability places start] by auto
qed

lemma move_keeps_the_media_witness:
  "\<exists>w'. move_new sample_os NTFS_MACFUSE [''staging'', ''film''] [''disk'', ''film''] (sample_films sample_film None None) = (Inr True, w')
    \<and> whole NTFS_MACFUSE sample_film (folder_at [''disk'', ''film''] w')"
proof -
  let ?w = "sample_films sample_film None None"
  have names: "beside DISPATCH_TMP_PREFIX [] [''disk'', ''film''] = [''disk'', ''_tmp_dispatch_film'']" by (simp add: beside_def DISPATCH_TMP_PREFIX_def)
  have start: "folder_at [''staging'', ''film''] ?w = Some sample_film" "folder_at [''disk'', ''film''] ?w = None"
    by (simp_all add: folder_at_def sample_films_def)
  have places: "[''disk'', ''film''] \<noteq> []" "[''staging'', ''film''] \<notin> {[''disk'', ''film''], beside DISPATCH_TMP_PREFIX [] [''disk'', ''film'']}"
    by (simp_all add: names)
  have "fst (move_new sample_os NTFS_MACFUSE [''staging'', ''film''] [''disk'', ''film''] ?w) = Inr True" by code_simp
  then obtain w' where "move_new sample_os NTFS_MACFUSE [''staging'', ''film''] [''disk'', ''film''] ?w = (Inr True, w')" by (metis prod.collapse)
  then show ?thesis using move_keeps_the_media [OF sample_documented sample_capability sample_whole places start] by auto
qed

lemma sample_film_kept: "filter (\<lambda>(r, x). \<not> excluded (build_rsync_cmd source dest NTFS_MACFUSE False None) r) sample_film = sample_film"
  by (simp add: sample_film_def excluded_def flag_of_cmd has_prefix_def)

lemma sample_copied:
  "rsync_run (sample_os\<lparr>undeleted := u\<rparr>) n (build_rsync_cmd source dest NTFS_MACFUSE False None) (Some sample_film) None = (True, Some sample_film)"
  using capabilities [OF sample_capability] by (simp add: sample_os_def sample_rsync_def sample_film_kept flag_of_cmd overlay_def)

lemma refused_cleanup_destroys_the_copy_witness:
  "\<exists>w'. move_new (sample_os\<lparr>undeleted := (\<lambda>n r. n = 4 \<and> r = [''a.nfo''])\<rparr>) NTFS_MACFUSE [''staging'', ''film''] [''disk'', ''film''] (sample_films sample_film None None)
      = (Inr False, w') \<and> folder_at [''disk'', ''film''] w' = None \<and> folder_at [''staging'', ''film''] w' = Some [([''a.nfo''], ''n'')]"
proof -
  let ?w = "sample_films sample_film None None" and ?os = "sample_os\<lparr>undeleted := (\<lambda>n r. n = 4 \<and> r = [''a.nfo''])\<rparr>"
  have names: "beside DISPATCH_TMP_PREFIX [] [''disk'', ''film''] = [''disk'', ''_tmp_dispatch_film'']" by (simp add: beside_def DISPATCH_TMP_PREFIX_def)
  have "\<exists>w'. move_new ?os NTFS_MACFUSE [''staging'', ''film''] [''disk'', ''film''] ?w = (Inr False, w') \<and> folder_at [''disk'', ''film''] w' = None
      \<and> folder_at (beside DISPATCH_TMP_PREFIX [] [''disk'', ''film'']) w' = None
      \<and> folder_at [''staging'', ''film''] w' = Some (filter (\<lambda>(r, x). undeleted ?os (calls ?w + 4) r) sample_film)"
    by (rule refused_cleanup_destroys_the_copy [where r = "[''a.nfo'']" and x = "''n''"])
      (rule sample_copied | simp add: names sample_os_def sample_films_def sample_film_def folder_at_def)+
  then show ?thesis by (simp add: sample_film_def sample_films_def) blast
qed

text \<open>A file that rsync is told to leave out fails the transfer of everything: it is looked for in the target and not found.\<close>

definition sample_junk :: folder where
  "sample_junk = sample_film @ [([''.DS_Store''], ''x'')]"

lemma an_excluded_file_fails_the_move:
  "fst (move_new sample_os NTFS_MACFUSE [''staging'', ''film''] [''disk'', ''film''] (sample_films sample_junk None None)) = Inr False"
  "fst (move_new sample_os APFS [''staging'', ''film''] [''disk'', ''film''] (sample_films sample_junk None None)) = Inr True"
  by code_simp+

lemma an_excluded_file_fails_the_merge:
  "fst (merge sample_os NTFS_MACFUSE [''staging'', ''show''] [''disk'', ''series'', ''show''] (sample_volume (sample_show @ [([''._S01E01.mkv''], ''x'')]) sample_library))
    = Inr False"
  by code_simp

text \<open>A run stopped while it copies an episode to the backup: the cut copy is written over the episode, which was whole, and is
  deleted then.\<close>

lemma a_cut_backup_is_put_back:
  "media (snd (merge (sample_os\<lparr>rsync_run := (\<lambda>n argv src dst. (False, map_option (\<lambda>f. (backup_of [''Saison 01'', ''S01E01.mkv''], ''wh'') # f) dst))\<rparr>)
      NTFS_MACFUSE [''staging'', ''show''] [''disk'', ''series'', ''show'']
      (sample_volume [([''Saison 01'', ''S01E01.mkv''], ''new'')] [([''Saison 01'', ''S01E01.mkv''], ''whole'')])))
    = [([''disk'', ''series'', ''show''], [([''Saison 01'', ''S01E01.mkv''], ''wh'')]),
       ([''staging'', ''show''], [([''Saison 01'', ''S01E01.mkv''], ''new'')])]"
  by code_simp

text \<open>A backup removed by half: the merge answers that it failed, and what was removed of the backup is not put back.\<close>

lemma a_backup_removed_by_half_is_lost:
  "(case merge (sample_os\<lparr>undeleted := (\<lambda>n r. n = 5 \<and> r = backup_of [''Saison 01'', ''S01E02 - Two.mkv''])\<rparr>)
      NTFS_MACFUSE [''staging'', ''show''] [''disk'', ''series'', ''show'']
      (sample_volume sample_show [([''Saison 01'', ''S01E01 - Pilot.mkv''], ''old''), ([''Saison 01'', ''S01E02 - Two.mkv''], ''ep'')]) of
     (answer, w) \<Rightarrow> answer = Inr False \<and> list_all (\<lambda>(p, f). list_all (\<lambda>(r, x). x \<noteq> ''old'') f) (media w)
       \<and> list_ex (\<lambda>(p, f). list_ex (\<lambda>(r, x). x = ''ep'') f) (media w))"
  by code_simp

text \<open>What a killed replacement left under the temporary name is part of the next one: no leftover of this kind is swept.\<close>

lemma leftovers_enter_the_next_film:
  "folder_at [''disk'', ''film''] (snd (replace sample_os NTFS_MACFUSE [''staging'', ''film''] [''disk'', ''film'']
      (sample_films sample_film (Some [([''b.mkv''], ''old'')]) (Some [([''c.mkv''], ''to'')]))))
    = Some (overlay sample_film [([''c.mkv''], ''to'')])"
  by code_simp

lemma sweep_after_a_killed_merge_witness:
  "\<exists>w2. snd (sweep_orphans sample_os 0 False (Some (\<lambda>_. True)) [([''disk''], MEDIA_TREE, REPORT)] False
      (snd (merge (sample_os\<lparr>kills := (\<lambda>n. n = 2)\<rparr>) NTFS_MACFUSE [''staging'', ''show''] [''disk'', ''series'', ''show''] (sample_volume sample_show sample_library)))) = w2
    \<and> file_in (folder_at [''disk'', ''series'', ''show''] w2) [''tvshow.nfo''] = Some ''nfo''"
proof -
  let ?os = "sample_os\<lparr>kills := (\<lambda>n. n = 2)\<rparr>" and ?w = "sample_volume sample_show sample_library"
  have start: "folder_at [''staging'', ''show''] ?w = Some sample_show"
      "folder_at [''disk'', ''series'', ''show''] ?w = Some sample_library" "[''staging'', ''show''] \<noteq> [''disk'', ''series'', ''show'']"
    by (simp_all add: folder_at_def sample_volume_def)
  have law: "rsync_documented ?os" using sample_documented by (simp add: rsync_documented_def)
  have plain: "\<not> leftover [''staging'', ''show''] []" "\<not> leftover [''disk'', ''series'', ''show''] []"
    by (simp_all add: leftover_def has_prefix_def DISPATCH_TMP_PREFIX_def INGEST_TMP_PREFIX_def in_backup_def)
  have "episode_conflicts sample_show sample_library = [[''Saison 01'', ''S01E01 - Pilot.mkv'']]" by code_simp
  then have "\<not> superseded NTFS_MACFUSE sample_show sample_library [''tvshow.nfo'']" by (simp add: superseded_def names_def sample_show_def)
  moreover have "map_of sample_library [''tvshow.nfo''] = Some ''nfo''" by (simp add: sample_library_def)
  moreover obtain answer w1 where run: "merge ?os NTFS_MACFUSE [''staging'', ''show''] [''disk'', ''series'', ''show''] ?w = (answer, w1)" by fastforce
  moreover obtain n w2 where sweep: "sweep_orphans sample_os 0 False (Some (\<lambda>_. True)) [([''disk''], MEDIA_TREE, REPORT)] False w1 = (n, w2)" by fastforce
  ultimately show ?thesis
    using sweep_after_a_killed_merge [OF law sample_capability sample_clean start(3,1,2) plain run sweep] by (auto simp: kept_def)
qed

end
