(* ===== verification/Dispatch_Facts.thy ===== *)
theory Dispatch_Facts
  imports Dispatch Merge_Facts
begin

text \<open>
  What a dispatch guarantees: it writes nothing unless every guard holds, it marks the breach of an obligation before it overwrites
  what is owed, and it loses no medium.
\<close>

subsection \<open>The two ways of a dispatch\<close>

definition transfer_onto :: "os \<Rightarrow> fs_capability \<Rightarrow> media_kind \<Rightarrow> place \<Rightarrow> place \<Rightarrow> bool fs_act" where
  "transfer_onto os cap kind = (case kind of Film \<Rightarrow> replace os cap | Show \<Rightarrow> merge os cap)"

definition may_overwrite :: "dispatcher \<Rightarrow> volume \<Rightarrow> media_kind \<Rightarrow> place \<Rightarrow> index_entry \<Rightarrow> bool" where
  "may_overwrite dp v kind src e \<longleftrightarrow> inside_sandbox dp (entry_path e) \<and> inside_sandbox dp src
     \<and> free_space dp (entry_disk e) \<ge> min_free_gb dp \<and> free_space dp (entry_disk e) \<ge> 3 / 2 * dir_size_gb (files_of src v)
     \<and> \<not> has_illegal_names (capability_of dp (entry_disk e)) (files_of src v) \<and> \<not> identity_conflict dp kind src (entry_path e) \<and> \<not> dry_run dp"

definition transferred :: "dispatch_action set" where
  "transferred = {MOVED, REPLACED, MERGED}"

lemma transfer_existing_run:
  "transfer_existing os cap kind src dest s = (case transfer_onto os cap kind src dest (volumes s) of
     (Inl e, v) \<Rightarrow> (Inl e, s\<lparr>volumes := v\<rparr>)
   | (Inr ok, v) \<Rightarrow> (Inr (ok, if \<not> ok then None else case kind of Film \<Rightarrow> Some ''overwrite''
        | Show \<Rightarrow> (case classify_merge_impact (files_of src (volumes s)) (folder_at dest (volumes s)) of
            Overwrite \<Rightarrow> Some ''overwrite'' | Metadata_Refresh \<Rightarrow> Some ''metadata-refresh'' | Add_Only \<Rightarrow> None)), s\<lparr>volumes := v\<rparr>))"
  by (cases kind) (auto simp: transfer_existing_def transfer_onto_def on_volumes_def then_with_def Let_def split: prod.split sum.split)

lemma then_do_done [simp]: "then_do (done_with ()) n = n"
  by (rule ext) (simp add: then_do_def)

lemma register_run: "\<exists>es. register dp kind category src dest disk act s = (Inr (), s\<lparr>dispatch_log := dispatch_log s @ es\<rparr>)"
  by (auto simp: register_def log_dispatch_def)

lemma journal_run: "\<exists>es. (case j of None \<Rightarrow> done_with () | Some op \<Rightarrow> log_dispatch (Journaled op dest)) s = (Inr (), s\<lparr>dispatch_log := dispatch_log s @ es\<rparr>)"
  by (cases j) (auto simp: log_dispatch_def intro: exI [of _ "[]"])

lemma dispatch_existing_run:
  assumes "dispatch_existing dp os kind src category e s = (r, s')"
  shows "\<not> may_overwrite dp (volumes s) kind src e \<and> s' = s \<and> (\<exists>res. r = Inr res \<and> (action res \<in> {SKIPPED, ERROR} \<or> dry_run dp))
    \<or> may_overwrite dp (volumes s) kind src e
      \<and> obligations_db s' = record_dispatched dp src (entry_path e) (files_of src (volumes s)) (mark_if_owed dp (entry_path e) (obligations_db s))
      \<and> (\<exists>answer. transfer_onto os (capability_of dp (entry_disk e)) kind src (entry_path e) (volumes s) = (answer, volumes s') \<and> isl r = isl answer
          \<and> (\<forall>res. r = Inr res \<longrightarrow> (if answer = Inr True then action res = existing_action kind \<and> destination res = Some (entry_path e) else action res = ERROR)))"
proof (cases "may_overwrite dp (volumes s) kind src e")
  case False
  then show ?thesis
    using assms unfolding dispatch_existing_def may_overwrite_def space_threshold_def by (auto simp: Let_def split: if_splits)
next
  case True
  let ?dest = "entry_path e" and ?f = "files_of src (volumes s)" and ?cap = "capability_of dp (entry_disk e)"
  define a where "a = record_dispatched dp src ?dest ?f (mark_if_owed dp ?dest (obligations_db s))"
  define s1 where "s1 = s\<lparr>obligations_db := a\<rparr>"
  obtain answer v where run: "transfer_onto os ?cap kind src ?dest (volumes s) = (answer, v)" by fastforce
  have guards: "inside_sandbox dp ?dest \<and> inside_sandbox dp src" "\<not> free_space dp (entry_disk e) < space_threshold dp (dir_size_gb ?f)"
      "\<not> has_illegal_names ?cap ?f" "\<not> identity_conflict dp kind src ?dest" "\<not> dry_run dp"
    using True by (auto simp: may_overwrite_def space_threshold_def)
  have start: "dispatch_existing dp os kind src category e s = then_with (transfer_existing os ?cap kind src ?dest) (\<lambda>(ok, journal).
      if \<not> ok then done_with \<lparr>source_of = src, destination = Some ?dest, result_disk = Some (entry_disk e), action = ERROR\<rparr>
      else then_do (case journal of None \<Rightarrow> done_with () | Some op \<Rightarrow> log_dispatch (Journaled op ?dest))
        (then_do (register dp kind category src ?dest (entry_disk e) (existing_action kind))
          (done_with \<lparr>source_of = src, destination = Some ?dest, result_disk = Some (entry_disk e), action = existing_action kind\<rparr>))) s1"
    using guards by (simp add: dispatch_existing_def Let_def on_obligations_def s1_def a_def)
  have vol: "transfer_onto os ?cap kind src ?dest (volumes s1) = (answer, v)" using run by (simp add: s1_def)
  show ?thesis
  proof (cases answer)
    case (Inl stop)
    then have "r = Inl stop" "s' = s1\<lparr>volumes := v\<rparr>"
      using assms start vol by (simp_all add: then_with_def transfer_existing_run)
    then show ?thesis using True run Inl by (simp add: s1_def a_def)
  next
    case (Inr ok)
    show ?thesis
    proof (cases ok)
      case False
      then have "r = Inr \<lparr>source_of = src, destination = Some ?dest, result_disk = Some (entry_disk e), action = ERROR\<rparr>" "s' = s1\<lparr>volumes := v\<rparr>"
        using assms start vol Inr by (simp_all add: then_with_def transfer_existing_run)
      then show ?thesis using True run Inr False by (simp add: s1_def a_def)
    next
      case True
      obtain j where j: "transfer_existing os ?cap kind src ?dest s1 = (Inr (True, j), s1\<lparr>volumes := v\<rparr>)"
        using vol Inr True by (simp add: transfer_existing_run)
      obtain es where es: "(case j of None \<Rightarrow> done_with () | Some op \<Rightarrow> log_dispatch (Journaled op ?dest)) (s1\<lparr>volumes := v\<rparr>)
          = (Inr (), s1\<lparr>volumes := v, dispatch_log := dispatch_log (s1\<lparr>volumes := v\<rparr>) @ es\<rparr>)" using journal_run by blast
      obtain es' where "register dp kind category src ?dest (entry_disk e) (existing_action kind) (s1\<lparr>volumes := v, dispatch_log := dispatch_log (s1\<lparr>volumes := v\<rparr>) @ es\<rparr>)
          = (Inr (), s1\<lparr>volumes := v, dispatch_log := es'\<rparr>)"
        using register_run [of dp kind category src ?dest "entry_disk e" "existing_action kind" "s1\<lparr>volumes := v, dispatch_log := dispatch_log (s1\<lparr>volumes := v\<rparr>) @ es\<rparr>"] by auto
      then have "r = Inr \<lparr>source_of = src, destination = Some ?dest, result_disk = Some (entry_disk e), action = existing_action kind\<rparr>"
          "s' = s1\<lparr>volumes := v, dispatch_log := es'\<rparr>"
        using assms start j es by (simp_all add: then_with_def then_do_def)
      then show ?thesis using \<open>may_overwrite dp (volumes s) kind src e\<close> run Inr True by (simp add: s1_def a_def)
    qed
  qed
qed

definition may_place :: "dispatcher \<Rightarrow> volume \<Rightarrow> place \<Rightarrow> string \<Rightarrow> disk_config \<Rightarrow> bool" where
  "may_place dp v src category d \<longleftrightarrow> pick_disk_for dp category (dir_size_gb (files_of src v)) = Some d
     \<and> inside_sandbox dp (folder_for dp d category @ [last src]) \<and> inside_sandbox dp src
     \<and> \<not> has_illegal_names (capability_of dp (disk_id d)) (files_of src v) \<and> \<not> dry_run dp"

lemma dispatch_new_run:
  assumes "dispatch_new dp os kind src category s = (r, s')"
  shows "\<not> (\<exists>d. may_place dp (volumes s) src category d) \<and> s' = s \<and> (\<exists>res. r = Inr res \<and> (action res \<in> {SKIPPED, ERROR} \<or> dry_run dp))
    \<or> (\<exists>d answer. let dest = folder_for dp d category @ [last src]; f = files_of src (volumes s) in
        may_place dp (volumes s) src category d
      \<and> obligations_db s' = record_dispatched dp src dest f (obligations_db s)
      \<and> move_new os (capability_of dp (disk_id d)) src dest (volumes s) = (answer, volumes s')
      \<and> (\<forall>res. r = Inr res \<longrightarrow> (if answer = Inr True then action res = MOVED \<and> destination res = Some dest else action res = ERROR)))"
proof (cases "\<exists>d. may_place dp (volumes s) src category d")
  case False
  then show ?thesis
    using assms unfolding dispatch_new_def may_place_def by (auto simp: Let_def split: if_splits option.splits)
next
  case True
  then obtain d where may: "may_place dp (volumes s) src category d" by blast
  let ?f = "files_of src (volumes s)"
  define dest where "dest = folder_for dp d category @ [last src]"
  define s1 where "s1 = s\<lparr>obligations_db := record_dispatched dp src dest ?f (obligations_db s)\<rparr>"
  let ?cap = "capability_of dp (disk_id d)"
  obtain answer v where run: "move_new os ?cap src dest (volumes s) = (answer, v)" by fastforce
  have start: "dispatch_new dp os kind src category s = then_with (on_volumes (move_new os ?cap src dest)) (\<lambda>ok.
      if \<not> ok then done_with \<lparr>source_of = src, destination = Some dest, result_disk = Some (disk_id d), action = ERROR\<rparr>
      else then_do (register dp kind category src dest (disk_id d) MOVED)
        (done_with \<lparr>source_of = src, destination = Some dest, result_disk = Some (disk_id d), action = MOVED\<rparr>)) s1"
    using may unfolding dest_def s1_def by (simp add: may_place_def dispatch_new_def Let_def on_obligations_def)
  have vol: "on_volumes (move_new os ?cap src dest) s1 = (answer, s1\<lparr>volumes := v\<rparr>)" using run by (simp add: on_volumes_def s1_def)
  have "\<exists>es. s' = s1\<lparr>volumes := v, dispatch_log := es\<rparr> \<and>
      (\<forall>res. r = Inr res \<longrightarrow> (if answer = Inr True then action res = MOVED \<and> destination res = Some dest else action res = ERROR))"
  proof (cases "answer = Inr True")
    case True
    obtain es where "register dp kind category src dest (disk_id d) MOVED (s1\<lparr>volumes := v\<rparr>) = (Inr (), s1\<lparr>volumes := v, dispatch_log := es\<rparr>)"
      using register_run [of dp kind category src dest "disk_id d" MOVED "s1\<lparr>volumes := v\<rparr>"] by auto
    then show ?thesis using assms start vol True by (auto simp: then_with_def then_do_def)
  next
    case False
    then show ?thesis
      using assms start vol by (cases answer) (auto simp: then_with_def s1_def intro!: exI [of _ "dispatch_log s"] split: if_splits)
  qed
  then show ?thesis unfolding Let_def using may run
    by (intro disjI2 exI [of _ d] exI [of _ answer]) (auto simp: dest_def s1_def)
qed

subsection \<open>Where a medium goes\<close>

definition dispatch_target :: "dispatcher \<Rightarrow> media_kind \<Rightarrow> place \<Rightarrow> string \<Rightarrow> volume \<Rightarrow> place option" where
  "dispatch_target dp kind src category v = (case resolve_existing dp v (last src) kind src of
     Some e \<Rightarrow> Some (entry_path e)
   | None \<Rightarrow> map_option (\<lambda>d. folder_for dp d category @ [last src]) (pick_disk_for dp category (dir_size_gb (files_of src v))))"

lemma resolved_is_there:
  assumes "resolve_existing dp v name kind media_dir = Some e"
  shows "folder_at (entry_path e) v \<noteq> None"
proof (cases "case index_find dp name kind media_dir of None \<Rightarrow> False | Some e \<Rightarrow> folder_at (entry_path e) v \<noteq> None")
  case True
  then show ?thesis using assms by (auto simp: resolve_existing_def Let_def split: option.splits)
next
  case False
  then show ?thesis using assms unfolding resolve_existing_def Let_def by (fastforce simp: find_Some_iff)
qed

lemma first_max_in: "first_max f x ys \<in> set (x # ys)"
  by (induction ys arbitrary: x) (auto split: if_splits)

lemma first_max_greatest: "y \<in> set (x # ys) \<Longrightarrow> f y \<le> f (first_max f x ys)"
proof (induction ys arbitrary: x y)
  case (Cons a ys)
  let ?z = "if f a > f x then a else x"
  have best: "f ?z \<le> f (first_max f ?z ys)" by (rule Cons.IH) simp
  show ?case
  proof (cases "y \<in> set ys")
    case True
    then have "f y \<le> f (first_max f ?z ys)" by (intro Cons.IH) simp
    then show ?thesis by simp
  next
    case False
    then have "f y \<le> f ?z" using Cons.prems by auto
    then have "f y \<le> f (first_max f ?z ys)" using best by linarith
    then show ?thesis by simp
  qed
qed simp

lemma picked:
  assumes "pick_disk_for dp category g = Some d"
  shows "d \<in> set (disks_accepting dp category) \<and> free_space dp (disk_id d) \<ge> space_threshold dp g
    \<and> (\<forall>d' \<in> set (disks_accepting dp category). free_space dp (disk_id d') \<le> free_space dp (disk_id d))"
proof -
  let ?fits = "filter (\<lambda>d. free_space dp (disk_id d) \<ge> space_threshold dp g) (disks_accepting dp category)"
  obtain x ys where fits: "?fits = x # ys" and d: "d = first_max (\<lambda>d. free_space dp (disk_id d)) x ys"
    using assms by (auto simp: pick_disk_for_def split: list.splits)
  have "d \<in> set ?fits" unfolding fits d by (rule first_max_in)
  then have own: "d \<in> set (disks_accepting dp category)" "free_space dp (disk_id d) \<ge> space_threshold dp g" by simp_all
  have "free_space dp (disk_id d') \<le> free_space dp (disk_id d)" if "d' \<in> set (disks_accepting dp category)" for d'
  proof (cases "free_space dp (disk_id d') \<ge> space_threshold dp g")
    case True
    then have "d' \<in> set (x # ys)" using that unfolding fits [symmetric] by simp
    then show ?thesis unfolding d by (rule first_max_greatest)
  next
    case False
    then show ?thesis using own(2) by linarith
  qed
  then show ?thesis using own by blast
qed

lemma picked_is_configured: "pick_disk_for dp category g = Some d \<Longrightarrow> d \<in> set (disk_configs dp)"
  using picked by (fastforce simp: disks_accepting_def)

lemma category_dir_listed:
  assumes "folder_at (p @ [c, n]) v \<noteq> None"
  shows "c \<in> set (entries_of p v)"
proof -
  obtain f where "map_of (media v) (p @ [c, n]) = Some f" using assms by (auto simp: folder_at_def)
  then have "p @ [c, n] \<in> set (map fst (media v))" by (force dest: map_of_SomeD)
  then have "(p @ [c, n]) ! length p \<in> set (entries_of p v)"
    unfolding entries_of_def set_remdups set_map set_filter by (rule_tac imageI) simp
  then show ?thesis by (simp add: nth_append)
qed

text \<open>Where every disk can be listed, a medium that has no folder goes to a place that is free.\<close>

lemma new_place_is_free:
  assumes disks: "\<forall>d \<in> set (disk_configs dp). is_mounted dp (disk_path d) \<and> listable dp (disk_path d)"
    and none: "resolve_existing dp v name kind media_dir = None" and pick: "pick_disk_for dp category g = Some d"
  shows "folder_at (folder_for dp d category @ [name]) v = None"
proof (rule ccontr)
  let ?c = "category_folder dp category"
  assume "folder_at (folder_for dp d category @ [name]) v \<noteq> None"
  then have there: "folder_at (disk_path d @ [?c, name]) v \<noteq> None" by (simp add: folder_for_def)
  have d: "d \<in> set (disk_configs dp)" by (rule picked_is_configured [OF pick])
  have "?c \<in> set (entries_of (disk_path d) v)" by (rule category_dir_listed [OF there])
  then show False
    using none there d disks by (fastforce simp: resolve_existing_def Let_def find_None_iff split: if_splits option.splits)
qed

subsection \<open>What a dispatch does\<close>

lemma dispatch_item_cases:
  assumes "dispatch_item dp os kind src category s = (r, s')"
  obtains e where "resolve_existing dp (volumes s) (last src) kind src = Some e" "dispatch_existing dp os kind src category e s = (r, s')"
  | "resolve_existing dp (volumes s) (last src) kind src = None" "dispatch_new dp os kind src category s = (r, s')"
  using assms by (auto simp: dispatch_item_def split: option.splits)

text \<open>A dispatch that is skipped, or run dry, changes nothing; what changes anything had every guard hold: both ends in
  the sandbox, the room for half as much again as the medium and the least of a disk, names the file system takes, and over an
  existing folder no id that says it is another medium.\<close>

theorem dispatch_writes_only_behind_its_guards:
  assumes "dispatch_item dp os kind src category s = (r, s')"
  shows "(r = Inr res \<and> action res = SKIPPED \<or> dry_run dp \<longrightarrow> s' = s)
    \<and> (s' \<noteq> s \<longrightarrow> (case resolve_existing dp (volumes s) (last src) kind src of
         Some e \<Rightarrow> may_overwrite dp (volumes s) kind src e
       | None \<Rightarrow> (\<exists>d. may_place dp (volumes s) src category d
           \<and> free_space dp (disk_id d) \<ge> max (min_free_gb dp) (3 / 2 * dir_size_gb (files_of src (volumes s))))))"
  using assms
proof (cases rule: dispatch_item_cases)
  case (1 e)
  have "s' = s" if "r = Inr res \<and> action res = SKIPPED \<or> dry_run dp"
    using dispatch_existing_run [OF 1(2)] that by (auto simp: may_overwrite_def existing_action_def split: if_splits media_kind.splits)
  then show ?thesis using dispatch_existing_run [OF 1(2)] 1(1) by auto
next
  case 2
  have "s' = s" if "r = Inr res \<and> action res = SKIPPED \<or> dry_run dp"
    using dispatch_new_run [OF 2(2)] that by (auto simp: may_place_def Let_def split: if_splits)
  moreover have "\<exists>d. may_place dp (volumes s) src category d" if "s' \<noteq> s" using dispatch_new_run [OF 2(2)] that by (auto simp: Let_def)
  moreover have "free_space dp (disk_id d) \<ge> max (min_free_gb dp) (3 / 2 * dir_size_gb (files_of src (volumes s)))"
    if "may_place dp (volumes s) src category d" for d
    using picked that by (fastforce simp: may_place_def space_threshold_def)
  ultimately show ?thesis using 2(1) by auto
qed

lemma marked_stays_marked:
  assumes "o1 \<in> set (seeds a)" "unreleased o1" "breached_at o1 \<noteq> None"
  shows "\<exists>o2 \<in> set (seeds (record_dispatched dp src dest f a)). obligation_id o2 = obligation_id o1 \<and> unreleased o2 \<and> breached_at o2 \<noteq> None"
proof -
  let ?kept = "\<lambda>os. \<exists>o2 \<in> set os. obligation_id o2 = obligation_id o1 \<and> unreleased o2 \<and> breached_at o2 \<noteq> None"
  have moved: "?kept (snd (set_dispatched_path h p os))" if "o1 \<in> set os" for h p os
    using that assms(2,3) by (intro bexI [of _ "if obligation_hash o1 = h \<and> unreleased o1 then o1\<lparr>dispatched_path := Some p\<rparr> else o1"])
      (auto simp: set_dispatched_path_def set_sql_update unreleased_def)
  have added: "?kept (snd (add_obligation new os))" if "o1 \<in> set os" for new os
    using that assms(2,3) by (auto simp: add_obligation_def)
  show ?thesis
    using assms moved [OF assms(1)] added [OF assms(1)]
    by (auto simp: record_dispatched_def record_dispatch_def write_dispatched_def emit_def Let_def split: option.split sum.split)
qed

text \<open>C33: a folder under which a torrent still owes seeding is only overwritten once the breach of its obligation is on record.\<close>

theorem owed_folder_is_marked_before_it_is_overwritten:
  assumes run: "dispatch_item dp os kind src category s = (r, s')" "resolve_existing dp (volumes s) (last src) kind src = Some e"
    and overwrites: "volumes s' \<noteq> volumes s" and "has_store dp"
    and owed: "o1 \<in> set (seeds (obligations_db s))" "at_or_under (path_text (entry_path e)) o1" "unreleased o1"
      "path_present (path_exists dp) o1" "dispatch_clock dp < obligation_added_at o1 + min_seed_time_s o1"
    and known: "list_all (path_known (path_exists dp)) (find_active_under (path_text (entry_path e)) (seeds (obligations_db s)))"
  shows "\<exists>o2 \<in> set (seeds (obligations_db s')). obligation_id o2 = obligation_id o1 \<and> unreleased o2 \<and> breached_at o2 \<noteq> None"
proof -
  let ?p = "path_text (entry_path e)" and ?a = "obligations_db s"
  have "o1 \<in> set (filter (owing (dispatch_clock dp) (path_exists dp)) (find_active_under ?p (seeds ?a)))"
    using owed by (simp add: find_active_under_def owing_def owed_until_of_def)
  then have "decide (dispatch_clock dp) (path_exists dp) ?p (seeds ?a) \<noteq> Some Allow" unfolding decide_Allow by (metis empty_iff empty_set)
  moreover have "decide (dispatch_clock dp) (path_exists dp) ?p (seeds ?a) \<noteq> None" using known by (simp add: decide_owing split: list.split)
  ultimately have "may_delete (Readable (seeds ?a)) (dispatch_clock dp) (path_exists dp) ?p \<noteq> Allow" by (auto simp: may_delete_def)
  then have mark: "mark_if_owed dp (entry_path e) ?a = mark_breach ?p (dispatch_clock dp) ?a" using \<open>has_store dp\<close> by (simp add: mark_if_owed_def)
  define o3 where "o3 = (if breached_at o1 = None then o1\<lparr>breached_at := Some (dispatch_clock dp)\<rparr> else o1)"
  have "o3 \<in> set (seeds (mark_breach ?p (dispatch_clock dp) ?a))"
    using owed(1-3) by (force simp: mark_breach_def mark_breached_under_def seed_update_def set_sql_update o3_def)
  moreover have "unreleased o3" "breached_at o3 \<noteq> None" "obligation_id o3 = obligation_id o1"
    using owed(3) by (auto simp: o3_def unreleased_def)
  moreover have "obligations_db s' = record_dispatched dp src (entry_path e) (files_of src (volumes s)) (mark_if_owed dp (entry_path e) ?a)"
    using dispatch_existing_run [of dp os kind src category e s r s'] run overwrites by (auto simp: dispatch_item_def)
  ultimately show ?thesis using marked_stays_marked [of o3] unfolding mark by metis
qed

text \<open>Nothing of an earlier dispatch is in the way, and no folder of a show holds a backup of a merge.\<close>

definition undisturbed :: "media_kind \<Rightarrow> place \<Rightarrow> folder \<Rightarrow> volume \<Rightarrow> place \<Rightarrow> bool" where
  "undisturbed kind src S v dest \<longleftrightarrow> dest \<noteq> []
     \<and> src \<notin> {dest, beside [] ''.new.tmp'' dest, beside [] ''.old.tmp'' dest, beside DISPATCH_TMP_PREFIX [] dest}
     \<and> (case kind of
          Film \<Rightarrow> folder_at (beside [] ''.new.tmp'' dest) v = None \<and> folder_at (beside [] ''.old.tmp'' dest) v = None
        | Show \<Rightarrow> clean S \<and> (\<forall>D. folder_at dest v = Some D \<longrightarrow> clean D))"

text \<open>The capability of the disk a medium goes to.\<close>

definition target_capability :: "dispatcher \<Rightarrow> media_kind \<Rightarrow> place \<Rightarrow> string \<Rightarrow> volume \<Rightarrow> fs_capability" where
  "target_capability dp kind src category v = (case resolve_existing dp v (last src) kind src of
     Some e \<Rightarrow> capability_of dp (entry_disk e)
   | None \<Rightarrow> (case pick_disk_for dp category (dir_size_gb (files_of src v)) of None \<Rightarrow> NTFS_MACFUSE | Some d \<Rightarrow> capability_of dp (disk_id d)))"

lemma capability_of_table: "capability_of dp i \<in> set CAPABILITY_TABLE"
  by (simp add: capability_of_def capability_in_table sample_capability split: option.split)

text \<open>What was at a place before.\<close>

definition before :: "volume \<Rightarrow> place \<Rightarrow> folder" where
  "before v p = (case folder_at p v of None \<Rightarrow> [] | Some D \<Rightarrow> D)"

lemma whole_landed: "whole cap S w \<Longrightarrow> landed cap S D (file_in w)"
  by (auto simp: whole_def landed_def landed_by_def file_in_def)

lemma transfer_keeps:
  assumes law: "rsync_documented os" "cap \<in> set CAPABILITY_TABLE" and clear: "undisturbed kind src S v dest"
    and start: "folder_at src v = Some S" "folder_at dest v = Some D" and run: "transfer_onto os cap kind src dest v = (answer, v')"
  shows "landed cap S D (file_in (folder_at dest v')) \<or> answer \<noteq> Inr True \<and> folder_at src v' = Some S"
proof (cases kind)
  case Film
  have "case (answer, v') of (Inr True, w') \<Rightarrow> whole cap S (folder_at dest w')
      | (Inr False, w') \<Rightarrow> unreplaced src dest S (Some D) (folders_of w')
      | (Inl _, w') \<Rightarrow> whole cap S (folder_at dest w') \<or> unreplaced src dest S (Some D) (folders_of w')"
    using replace_state [OF law, of dest src v S "Some D"] clear start run by (simp add: undisturbed_def Film transfer_onto_def)
  then show ?thesis by (auto simp: unreplaced_def folders_of_def whole_landed split: sum.splits bool.splits)
next
  case Show
  then show ?thesis
    using merge_state [OF law, of False S D src dest v] clear start run by (auto simp: undisturbed_def transfer_onto_def)
qed

text \<open>C14: a dispatch loses no medium, whatever the system refuses and wherever the process or \<open>rsync\<close> is killed: every file of it that
  rsync is not told to leave out is at its place, but where the quick check let a file of the same size stand, or the staged
  folder is as it was; and a dispatch that says it was done has it at its place. Assumed: nothing of an earlier dispatch is in
  the way (no \<open>.new.tmp\<close>, \<open>.old.tmp\<close> beside a film, no backup in a show); and for a medium with no folder yet, that a removal
  that is refused removed nothing and that every disk is mounted and can be listed.\<close>

theorem dispatch_loses_no_medium:
  assumes law: "rsync_documented os"
    and new: "resolve_existing dp (volumes s) (last src) kind src = None \<Longrightarrow>
      removals_whole os \<and> (\<forall>d \<in> set (disk_configs dp). is_mounted dp (disk_path d) \<and> listable dp (disk_path d))"
    and staged: "folder_at src (volumes s) = Some S"
    and clear: "\<forall>dest. dispatch_target dp kind src category (volumes s) = Some dest \<longrightarrow> undisturbed kind src S (volumes s) dest"
    and run: "dispatch_item dp os kind src category s = (r, s')"
  defines "cap \<equiv> target_capability dp kind src category (volumes s)"
  shows "(folder_at src (volumes s') = Some S
      \<or> (\<exists>dest. dispatch_target dp kind src category (volumes s) = Some dest
          \<and> landed cap S (before (volumes s) dest) (file_in (folder_at dest (volumes s')))))
    \<and> (\<forall>res. r = Inr res \<and> action res \<in> transferred \<and> \<not> dry_run dp \<longrightarrow>
        (\<exists>dest. dispatch_target dp kind src category (volumes s) = Some dest \<and> destination res = Some dest
          \<and> landed cap S (before (volumes s) dest) (file_in (folder_at dest (volumes s')))))"
  using run
proof (cases rule: dispatch_item_cases)
  case (1 e)
  have target: "dispatch_target dp kind src category (volumes s) = Some (entry_path e)" using 1(1) by (simp add: dispatch_target_def)
  have cap: "cap = capability_of dp (entry_disk e)" using 1(1) by (simp add: cap_def target_capability_def)
  obtain D where D: "folder_at (entry_path e) (volumes s) = Some D" using resolved_is_there [OF 1(1)] by blast
  from dispatch_existing_run [OF 1(2)]
  consider (same) res where "s' = s" "r = Inr res" "action res \<in> {SKIPPED, ERROR} \<or> dry_run dp"
    | (ran) answer where "transfer_onto os cap kind src (entry_path e) (volumes s) = (answer, volumes s')"
        "\<forall>res. r = Inr res \<longrightarrow> (if answer = Inr True then action res = existing_action kind \<and> destination res = Some (entry_path e) else action res = ERROR)"
    unfolding cap by blast
  then show ?thesis
  proof cases
    case same
    then show ?thesis using staged by (auto simp: transferred_def)
  next
    case ran
    have "cap \<in> set CAPABILITY_TABLE" by (simp add: cap capability_of_table)
    then have "landed cap S D (file_in (folder_at (entry_path e) (volumes s'))) \<or> answer \<noteq> Inr True \<and> folder_at src (volumes s') = Some S"
      by (rule transfer_keeps [OF law _ _ staged D ran(1)]) (use clear target in blast)
    moreover have "before (volumes s) (entry_path e) = D" by (simp add: before_def D)
    ultimately show ?thesis using ran(2) target by (auto simp: transferred_def split: if_splits)
  qed
next
  case 2
  have whole: "removals_whole os" and disks: "\<forall>d \<in> set (disk_configs dp). is_mounted dp (disk_path d) \<and> listable dp (disk_path d)"
    using new [OF 2(1)] by blast+
  from dispatch_new_run [OF 2(2)]
  consider (same) res where "s' = s" "r = Inr res" "action res \<in> {SKIPPED, ERROR} \<or> dry_run dp"
    | (ran) d answer where "may_place dp (volumes s) src category d"
        "move_new os (capability_of dp (disk_id d)) src (folder_for dp d category @ [last src]) (volumes s) = (answer, volumes s')"
        "\<forall>res. r = Inr res \<longrightarrow> (if answer = Inr True then action res = MOVED \<and> destination res = Some (folder_for dp d category @ [last src]) else action res = ERROR)"
    unfolding Let_def by blast
  then show ?thesis
  proof cases
    case same
    then show ?thesis using staged by (auto simp: transferred_def)
  next
    case ran
    let ?dest = "folder_for dp d category @ [last src]"
    have pick: "pick_disk_for dp category (dir_size_gb (files_of src (volumes s))) = Some d" using ran(1) by (simp add: may_place_def)
    have target: "dispatch_target dp kind src category (volumes s) = Some ?dest"
      using 2(1) pick by (simp add: dispatch_target_def)
    have cap: "cap = capability_of dp (disk_id d)" using 2(1) pick by (simp add: cap_def target_capability_def)
    have free: "folder_at ?dest (volumes s) = None"
      by (rule new_place_is_free [OF disks 2(1) pick])
    have "src \<notin> {?dest, beside DISPATCH_TMP_PREFIX [] ?dest}" using clear target by (simp add: undisturbed_def)
    then have "case (answer, volumes s') of (Inr True, w') \<Rightarrow> whole cap S (folder_at ?dest w')
        | (Inr False, w') \<Rightarrow> folder_at src w' = Some S
        | (Inl _, w') \<Rightarrow> whole cap S (folder_at ?dest w') \<or> folder_at src w' = Some S"
      using move_state [OF law capability_of_table [of dp "disk_id d"] whole _ _ staged free] ran(2) unfolding cap by (simp add: folder_for_def)
    then show ?thesis using ran(3) target by (auto simp: transferred_def whole_landed split: sum.splits bool.splits if_splits)
  qed
qed

subsection \<open>A film that replaces another\<close>

definition sample_dispatcher :: dispatcher where
  "sample_dispatcher = \<lparr>disk_configs = [\<lparr>disk_id = ''d'', disk_path = [''disk''], disk_fs_type = Some ''ntfs_macfuse'', disk_categories = [''films'']\<rparr>],
     is_mounted = (\<lambda>_. True), listable = (\<lambda>_. True), free_gb = (\<lambda>_. Some 100),
     index_find = (\<lambda>name kind d. Some \<lparr>entry_name = name, entry_disk = ''d'', entry_category = ''films'', entry_path = [''disk'', ''film''], entry_kind = kind\<rparr>),
     inside_sandbox = (\<lambda>_. True), probe_mount = (\<lambda>_. None), nfo_ids = (\<lambda>_ _. None), min_free_gb = 50, category_folder = (\<lambda>c. c),
     on_known_disk = (\<lambda>_. True), dry_run = False, has_store = True, path_exists = (\<lambda>_. Some True), dispatch_clock = 50,
     seeding_client = None, dispatch_economy = (\<lambda>_. None), dispatch_scope = None, run_uid = None\<rparr>"

definition sample_dispatch :: dispatch_state where
  "sample_dispatch = \<lparr>volumes = sample_films sample_film (Some [([''b.mkv''], ''old'')]) None,
     obligations_db = sample_seeds\<lparr>seeds := [sample_obligation\<lparr>dispatched_path := Some ''/disk/film''\<rparr>]\<rparr>, dispatch_log = []\<rparr>"

lemma sample_resolved:
  "resolve_existing sample_dispatcher (volumes sample_dispatch) name kind d
     = Some \<lparr>entry_name = name, entry_disk = ''d'', entry_category = ''films'', entry_path = [''disk'', ''film''], entry_kind = kind\<rparr>"
  by (simp add: resolve_existing_def Let_def sample_dispatcher_def sample_dispatch_def sample_films_def folder_at_def)

lemma sample_disk_capability: "capability_of sample_dispatcher ''d'' = NTFS_MACFUSE"
  by (simp add: capability_of_def resolve_capability_def capability_for_def CAPABILITY_TABLE_def NTFS_MACFUSE_def sample_dispatcher_def)

lemma sample_may: "may_overwrite sample_dispatcher (volumes sample_dispatch) Film [''staging'', ''film'']
    \<lparr>entry_name = n, entry_disk = ''d'', entry_category = ''films'', entry_path = [''disk'', ''film''], entry_kind = Film\<rparr>"
  by (simp add: may_overwrite_def sample_dispatcher_def sample_dispatch_def sample_films_def free_space_def dir_size_gb_def files_of_def folder_at_def
      sample_film_def has_illegal_names_def capability_of_def resolve_capability_def capability_for_def CAPABILITY_TABLE_def NTFS_MACFUSE_def NTFS_ILLEGAL_def
      identity_conflict_def)

lemma sample_run:
  obtains res s' where "dispatch_item sample_dispatcher sample_os Film [''staging'', ''film''] ''films'' sample_dispatch = (Inr res, s')"
    "action res = REPLACED" "volumes s' \<noteq> volumes sample_dispatch"
proof -
  let ?src = "[''staging'', ''film'']" and ?dest = "[''disk'', ''film'']" and ?w = "volumes sample_dispatch"
  let ?e = "\<lparr>entry_name = ''film'', entry_disk = ''d'', entry_category = ''films'', entry_path = ?dest, entry_kind = Film\<rparr>"
  have w: "?w = sample_films sample_film (Some [([''b.mkv''], ''old'')]) None" by (simp add: sample_dispatch_def)
  have replaced: "fst (replace sample_os NTFS_MACFUSE ?src ?dest ?w) = Inr True" "folder_at ?src (snd (replace sample_os NTFS_MACFUSE ?src ?dest ?w)) = None"
    unfolding w by code_simp+
  obtain r s' where run: "dispatch_item sample_dispatcher sample_os Film ?src ''films'' sample_dispatch = (r, s')" by fastforce
  then have ex: "dispatch_existing sample_dispatcher sample_os Film ?src ''films'' ?e sample_dispatch = (r, s')"
    using sample_resolved by (simp add: dispatch_item_def)
  from dispatch_existing_run [OF ex] sample_may sample_disk_capability obtain answer where "replace sample_os NTFS_MACFUSE ?src ?dest ?w = (answer, volumes s')" "isl r = isl answer"
      "\<forall>res. r = Inr res \<longrightarrow> (if answer = Inr True then action res = REPLACED else action res = ERROR)"
    by (auto simp: transfer_onto_def existing_action_def)
  then obtain res where "r = Inr res" "action res = REPLACED" "volumes s' = snd (replace sample_os NTFS_MACFUSE ?src ?dest ?w)"
    using replaced(1) by (cases r) auto
  moreover have "folder_at ?src ?w \<noteq> None" by (simp add: w sample_films_def folder_at_def)
  ultimately show ?thesis using that run replaced(2) by metis
qed

lemma dispatch_writes_only_behind_its_guards_witness:
  "snd (dispatch_item (sample_dispatcher\<lparr>dry_run := True\<rparr>) sample_os Film [''staging'', ''film''] ''films'' sample_dispatch) = sample_dispatch"
proof -
  obtain r s' where "dispatch_item (sample_dispatcher\<lparr>dry_run := True\<rparr>) sample_os Film [''staging'', ''film''] ''films'' sample_dispatch = (r, s')" by fastforce
  then show ?thesis using dispatch_writes_only_behind_its_guards [of "sample_dispatcher\<lparr>dry_run := True\<rparr>"] by auto
qed

lemma owed_folder_is_marked_before_it_is_overwritten_witness:
  "\<exists>s' o2. snd (dispatch_item sample_dispatcher sample_os Film [''staging'', ''film''] ''films'' sample_dispatch) = s'
    \<and> o2 \<in> set (seeds (obligations_db s')) \<and> obligation_id o2 = 1 \<and> breached_at o2 \<noteq> None"
proof -
  obtain res s' where run: "dispatch_item sample_dispatcher sample_os Film [''staging'', ''film''] ''films'' sample_dispatch = (Inr res, s')"
      "volumes s' \<noteq> volumes sample_dispatch" by (rule sample_run)
  have "\<exists>o2 \<in> set (seeds (obligations_db s')). obligation_id o2 = obligation_id (sample_obligation\<lparr>dispatched_path := Some ''/disk/film''\<rparr>)
      \<and> unreleased o2 \<and> breached_at o2 \<noteq> None"
    by (rule owed_folder_is_marked_before_it_is_overwritten [OF run(1) sample_resolved run(2)])
      (simp_all add: sample_dispatcher_def sample_dispatch_def sample_seeds_def at_or_under_def path_text_def unreleased_def sample_obligation_def
        new_obligation_def path_present_def path_known_def list_all_iff split: option.split)
  then show ?thesis using run(1) by (auto simp: sample_obligation_def)
qed

lemma dispatch_loses_no_medium_witness:
  "\<exists>s'. snd (dispatch_item sample_dispatcher sample_os Film [''staging'', ''film''] ''films'' sample_dispatch) = s'
    \<and> landed NTFS_MACFUSE sample_film [([''b.mkv''], ''old'')] (file_in (folder_at [''disk'', ''film''] (volumes s')))"
proof -
  obtain res s' where run: "dispatch_item sample_dispatcher sample_os Film [''staging'', ''film''] ''films'' sample_dispatch = (Inr res, s')"
      "action res = REPLACED" by (rule sample_run)
  have target: "dispatch_target sample_dispatcher Film [''staging'', ''film''] ''films'' (volumes sample_dispatch) = Some [''disk'', ''film'']"
    by (simp add: dispatch_target_def sample_resolved)
  have cap: "target_capability sample_dispatcher Film [''staging'', ''film''] ''films'' (volumes sample_dispatch) = NTFS_MACFUSE"
      "before (volumes sample_dispatch) [''disk'', ''film''] = [([''b.mkv''], ''old'')]"
    by (simp add: target_capability_def sample_resolved sample_disk_capability) (simp add: before_def sample_dispatch_def sample_films_def folder_at_def)
  have new: "resolve_existing sample_dispatcher (volumes sample_dispatch) (last [''staging'', ''film'']) Film [''staging'', ''film''] = None \<Longrightarrow>
      removals_whole sample_os \<and> (\<forall>d \<in> set (disk_configs sample_dispatcher). is_mounted sample_dispatcher (disk_path d) \<and> listable sample_dispatcher (disk_path d))"
    by (simp add: sample_resolved)
  have staged: "folder_at [''staging'', ''film''] (volumes sample_dispatch) = Some sample_film"
    by (simp add: sample_dispatch_def sample_films_def folder_at_def)
  have "undisturbed Film [''staging'', ''film''] sample_film (volumes sample_dispatch) [''disk'', ''film'']"
    by (simp add: undisturbed_def beside_def DISPATCH_TMP_PREFIX_def sample_dispatch_def sample_films_def folder_at_def)
  then have clear: "\<forall>dest. dispatch_target sample_dispatcher Film [''staging'', ''film''] ''films'' (volumes sample_dispatch) = Some dest
      \<longrightarrow> undisturbed Film [''staging'', ''film''] sample_film (volumes sample_dispatch) dest" by (simp add: target)
  have "\<not> dry_run sample_dispatcher" by (simp add: sample_dispatcher_def)
  then show ?thesis
    using dispatch_loses_no_medium [OF sample_documented new staged clear run(1)] run target cap by (auto simp: transferred_def)
qed

end
