(* ===== verification/Detect.thy ===== *)
theory Detect
  imports Reconcile
begin

text \<open>
  The detection of what is missing (\<open>acquire/detect.py\<close>) and the poll of the providers it rests on (\<open>acquire/airing.py\<close>): which
  episodes of the followed shows are known, which of them are aired and not in the library, what is put on the wanted table.
  Dates are day numbers. Parameters: the providers, the library's answers, the calendar's texts.
\<close>

subsection \<open>The poll of the providers\<close>

record aired_episode =
  ep_ref :: media_ref
  ep_season :: int
  ep_number :: int
  ep_day :: int
  ep_title :: string

record series_catalog =
  catalog_follow :: int
  catalog_ref :: media_ref
  catalog_status :: "string option"
  catalog_episodes :: "aired_episode list"

record episode_info =
  info_number :: int
  info_date :: string
  info_title :: string

text \<open>\<open>get_tv\<close> is the first provider of the chain, \<open>None\<close> when there is none or it raises; a fetcher of episodes that raises
  answers \<open>None\<close>, and \<open>fetchers\<close> is \<open>None\<close> when the chain itself raises. \<open>parse_day\<close> is \<open>strptime\<close> with the format of ISO dates.\<close>

record providers =
  get_tv :: "int \<Rightarrow> (string option \<times> int list) option"
  fetchers :: "(int \<Rightarrow> int \<Rightarrow> episode_info list option) list option"
  parse_day :: "string \<Rightarrow> int option"

definition in_order :: "'a list \<Rightarrow> 'a list" where
  "in_order xs = rev (remdups (rev xs))"

text \<open>The first answer that is not empty.\<close>

fun fetch_season :: "(int \<Rightarrow> int \<Rightarrow> episode_info list option) list \<Rightarrow> int \<Rightarrow> int \<Rightarrow> episode_info list" where
  "fetch_season [] i n = []"
| "fetch_season (f # fs) i n = (case f i n of Some (e # es) \<Rightarrow> e # es | _ \<Rightarrow> fetch_season fs i n)"

fun known_episodes :: "(string \<Rightarrow> int option) \<Rightarrow> media_ref \<Rightarrow> int \<Rightarrow> (int \<times> int) set \<Rightarrow> episode_info list \<Rightarrow> aired_episode list" where
  "known_episodes day ref n seen [] = []"
| "known_episodes day ref n seen (e # es) = (case day (info_date e) of
     None \<Rightarrow> known_episodes day ref n seen es
   | Some d \<Rightarrow> if (n, info_number e) \<in> seen then known_episodes day ref n seen es
       else \<lparr>ep_ref = ref, ep_season = n, ep_number = info_number e, ep_day = d, ep_title = info_title e\<rparr>
         # known_episodes day ref n (insert (n, info_number e) seen) es)"

text \<open>A number of season is asked once, so that the pairs seen in another season do not matter.\<close>

definition catalog_of :: "providers \<Rightarrow> followed \<Rightarrow> series_catalog option" where
  "catalog_of pv f = (case tvdb_id (follow_ref f) of
     None \<Rightarrow> None
   | Some i \<Rightarrow> map_option (\<lambda>(status, numbers).
       \<lparr>catalog_follow = follow_id f, catalog_ref = follow_ref f, catalog_status = status,
        catalog_episodes = concat (map (\<lambda>n. known_episodes (parse_day pv) (follow_ref f) n {}
          (case fetchers pv of None \<Rightarrow> [] | Some fs \<Rightarrow> fetch_season fs i n)) (in_order (filter (\<lambda>n. n \<ge> 1) numbers)))\<rparr>) (get_tv pv i))"

definition poll_catalog :: "providers \<Rightarrow> followed list \<Rightarrow> series_catalog list" where
  "poll_catalog pv fs = List.map_filter (catalog_of pv) fs"

subsection \<open>What a detection is given and answers\<close>

datatype detect_outcome = FILM_ACQUIRED | SKIPPED_OWNED | SKIPPED_DUP | RESURRECTED | ENQUEUED

record detect_action =
  action_kind :: wanted_kind
  action_title :: string
  action_season :: "int option"
  action_episode :: "int option"
  action_day :: "int option"
  episode_title :: "string option"
  detect_outcome :: detect_outcome

datatype detect_status = DETECT_OK | NO_ACTIVE | NO_MATCH

record detect_summary =
  enqueued :: nat
  skipped_owned :: nat
  skipped_dup :: nat
  resurrected :: nat
  swept_owned :: nat

record detect_result =
  detect_status :: detect_status
  detect_actions :: "detect_action list"
  detect_summary :: detect_summary

text \<open>\<open>tmdb_original\<close>: no provider of that name, a call that raises, a film or show without an original title; \<open>tvdb_title\<close>: a
  call that raises, no title. \<open>python_int\<close> is \<open>int(text)\<close>, \<open>None\<close> when it raises \<open>ValueError\<close>.\<close>

record detect_env =
  tv_providers :: providers
  owned_by :: ownership
  landing_journey :: "string \<Rightarrow> string option"
  global_cadence :: cadence
  today :: int
  iso_date :: "int \<Rightarrow> string"
  tmdb_original :: "(follow_kind \<Rightarrow> int \<Rightarrow> string option option) option"
  tvdb_title :: "int \<Rightarrow> string option option"
  python_int :: "string \<Rightarrow> int option"
  sweep_clock :: int

definition owned :: "detect_env \<Rightarrow> media_ref \<Rightarrow> wanted_kind \<Rightarrow> int option \<Rightarrow> int option \<Rightarrow> bool" where
  "owned env ref k s e \<longleftrightarrow> owned_by env ref k s e = Some True"

text \<open>\<open>by_ref\<close>: the last show of a reference.\<close>

definition by_ref :: "followed list \<Rightarrow> media_ref \<Rightarrow> followed option" where
  "by_ref shows ref = List.find (\<lambda>f. follow_ref f = ref) (rev shows)"

subsection \<open>The caches of a detection\<close>

definition aired_entry :: "detect_env \<Rightarrow> aired_episode \<Rightarrow> int \<times> int \<times> string option \<times> string" where
  "aired_entry env ep = (ep_season ep, ep_number ep, if ep_title ep = [] then None else Some (ep_title ep), iso_date env (ep_day ep))"

definition follow_of :: "followed list \<Rightarrow> aired_episode \<Rightarrow> int option" where
  "follow_of shows ep = map_option follow_id (by_ref shows (ep_ref ep))"

definition persist_aired_cache :: "detect_env \<Rightarrow> followed list \<Rightarrow> aired_episode list \<Rightarrow> acquire_db \<Rightarrow> acquire_db" where
  "persist_aired_cache env shows known s =
     fold (\<lambda>fid s. s\<lparr>aired := snd (replace_for_followed fid (map (aired_entry env) (filter (\<lambda>ep. follow_of shows ep = Some fid) known)) (aired s))\<rparr>)
       (in_order (List.map_filter (follow_of shows) known)) s"

definition persist_series_status :: "series_catalog list \<Rightarrow> acquire_db \<Rightarrow> acquire_db" where
  "persist_series_status catalogs s =
     fold (\<lambda>c s. case catalog_status c of None \<Rightarrow> s | Some st \<Rightarrow> s\<lparr>follows := set_series_status (catalog_follow c) st (follows s)\<rparr>) catalogs s"

subsection \<open>The original titles\<close>

definition ORIGINAL_TITLE_BACKFILL_CAP :: nat where "ORIGINAL_TITLE_BACKFILL_CAP = 25"

definition set_original :: "followed \<Rightarrow> string \<Rightarrow> acquire_db \<Rightarrow> acquire_db" where
  "set_original f title s = s\<lparr>follows := merge_metadata (follow_id f) None None None None (Some title) (follows s)\<rparr>"

definition heal_tvdb_only_show :: "detect_env \<Rightarrow> followed \<Rightarrow> acquire_db \<Rightarrow> acquire_db" where
  "heal_tvdb_only_show env f s = (case tvdb_title env (the (tvdb_id (follow_ref f))) of
     None \<Rightarrow> s
   | Some title \<Rightarrow> (case title of
       Some localized \<Rightarrow> if strip localized \<noteq> [] \<and> localized \<noteq> follow_title f
         then s\<lparr>follows := set_titles (follow_id f) localized (follow_title f) (follows s)\<rparr> else set_original f (follow_title f) s
     | None \<Rightarrow> set_original f (follow_title f) s))"

definition heal_original :: "(follow_kind \<Rightarrow> int \<Rightarrow> string option option) \<Rightarrow> followed \<Rightarrow> acquire_db \<Rightarrow> acquire_db" where
  "heal_original ask f s = (case ask (follow_kind f) (the (tmdb_id (follow_ref f))) of
     None \<Rightarrow> s
   | Some original \<Rightarrow> (case original of
       Some title \<Rightarrow> set_original f (if strip title \<noteq> [] then title else follow_title f) s
     | None \<Rightarrow> set_original f (follow_title f) s))"

definition backfill_original_titles :: "detect_env \<Rightarrow> followed list \<Rightarrow> acquire_db \<Rightarrow> acquire_db" where
  "backfill_original_titles env fs s =
     (let unhealed = filter (\<lambda>f. original_title f = None) fs;
          tvdb_only = filter (\<lambda>f. follow_kind f = FOLLOW_SHOW \<and> tmdb_id (follow_ref f) = None \<and> tvdb_id (follow_ref f) \<noteq> None) unhealed;
          s = fold (heal_tvdb_only_show env) (take ORIGINAL_TITLE_BACKFILL_CAP tvdb_only) s;
          unhealed = filter (\<lambda>f. tmdb_id (follow_ref f) \<noteq> None) unhealed
      in case tmdb_original env of None \<Rightarrow> s | Some ask \<Rightarrow> fold (heal_original ask) (take ORIGINAL_TITLE_BACKFILL_CAP unhealed) s)"

subsection \<open>A film\<close>

type_synonym detecting = "detect_action list \<times> acquire_db"

definition film_action :: "followed \<Rightarrow> detect_outcome \<Rightarrow> detect_action" where
  "film_action f out = \<lparr>action_kind = MOVIE, action_title = follow_title f, action_season = None, action_episode = None,
     action_day = None, episode_title = None, detect_outcome = out\<rparr>"

definition enqueue :: "media_ref \<Rightarrow> wanted_kind \<Rightarrow> int \<Rightarrow> int \<Rightarrow> int option \<Rightarrow> int option \<Rightarrow> acquire_db \<Rightarrow> acquire_db" where
  "enqueue ref k t fid n e s =
     emit (WantedEnqueued ref k n e) (on_wanted (\<lambda>rs. snd (add_wanted (fresh_item ref k t (Some fid) n e) rs)) s)"

text \<open>An owned film is unfollowed: its row is done, its follow deleted. One whose replacement was asked is wanted again, once.\<close>

definition unfollow_film :: "followed \<Rightarrow> acquire_db \<Rightarrow> acquire_db" where
  "unfollow_film f s =
     (let s = (case find_wanted (Some (follow_id f)) MOVIE None None None (wanted s) of
            None \<Rightarrow> s
          | Some r \<Rightarrow> if wanted_status r = DONE then s else on_wanted (set_status (wanted_id r) DONE) s)
      in emit (FilmAcquired (follow_ref f) (follow_title f) (follow_id f)) (delete_follow (follow_id f) s))"

definition detect_movie :: "detect_env \<Rightarrow> bool \<Rightarrow> int \<Rightarrow> followed \<Rightarrow> detecting \<Rightarrow> detecting" where
  "detect_movie env dry_run t f = (\<lambda>(acts, s).
     let there = owned env (follow_ref f) MOVIE None None;
         again = there \<and> replace_owned f;
         s = (if again \<and> \<not> dry_run then s\<lparr>follows := clear_replace_owned (follow_id f) (follows s)\<rparr> else s)
     in if there \<and> \<not> again then
          (if dry_run then (acts @ [film_action f SKIPPED_OWNED], s) else (acts @ [film_action f FILM_ACQUIRED], unfollow_film f s))
        else if find_wanted (Some (follow_id f)) MOVIE None None None (wanted s) \<noteq> None then (acts @ [film_action f SKIPPED_DUP], s)
        else (acts @ [film_action f ENQUEUED], if dry_run then s else enqueue (follow_ref f) MOVIE t (follow_id f) None None s))"

subsection \<open>An episode\<close>

definition episode_action :: "followed \<Rightarrow> aired_episode \<Rightarrow> detect_outcome \<Rightarrow> detect_action" where
  "episode_action f ep out = \<lparr>action_kind = EPISODE, action_title = follow_title f, action_season = Some (ep_season ep),
     action_episode = Some (ep_number ep), action_day = Some (ep_day ep), episode_title = Some (ep_title ep), detect_outcome = out\<rparr>"

definition owned_episode :: "detect_env \<Rightarrow> aired_episode \<Rightarrow> bool" where
  "owned_episode env ep \<longleftrightarrow> owned env (ep_ref ep) EPISODE (Some (ep_season ep)) (Some (ep_number ep))"

definition resurrectable :: "detect_env \<Rightarrow> int \<Rightarrow> followed \<Rightarrow> wanted_item \<Rightarrow> bool" where
  "resurrectable env t f r \<longleftrightarrow> wanted_status r = ABANDONED
     \<and> \<not> is_past_cutoff (effective_cadence (cadence_from_json (cadence_text f)) (global_cadence env)) t (enqueued_at r)"

definition detect_episode :: "detect_env \<Rightarrow> bool \<Rightarrow> int \<Rightarrow> followed list \<Rightarrow> aired_episode \<Rightarrow> detecting \<Rightarrow> detecting" where
  "detect_episode env dry_run t shows ep = (\<lambda>(acts, s). case by_ref shows (ep_ref ep) of
     None \<Rightarrow> (acts, s)
   | Some f \<Rightarrow>
       if owned_episode env ep then (acts @ [episode_action f ep SKIPPED_OWNED], s)
       else (case find_wanted (Some (follow_id f)) EPISODE (Some (ep_season ep)) (Some (ep_number ep)) None (wanted s) of
         Some r \<Rightarrow>
           if \<not> resurrectable env t f r then (acts @ [episode_action f ep SKIPPED_DUP], s)
           else if dry_run then (acts @ [episode_action f ep RESURRECTED], s)
           else (let (won, rs) = resurrect (wanted_id r) t (wanted s)
                 in (acts @ [episode_action f ep (if won then RESURRECTED else SKIPPED_DUP)], s\<lparr>wanted := rs\<rparr>))
       | None \<Rightarrow> (acts @ [episode_action f ep ENQUEUED],
           if dry_run then s else enqueue (ep_ref ep) EPISODE t (follow_id f) (Some (ep_season ep)) (Some (ep_number ep)) s)))"

subsection \<open>A season\<close>

definition season_groups :: "followed list \<Rightarrow> aired_episode list \<Rightarrow> ((int \<times> int) \<times> aired_episode list) list" where
  "season_groups shows known =
     (let key = (\<lambda>ep. map_option (\<lambda>fid. (fid, ep_season ep)) (follow_of shows ep))
      in map (\<lambda>k. (k, filter (\<lambda>ep. key ep = Some k) known)) (in_order (List.map_filter key known)))"

definition last_air :: "aired_episode list \<Rightarrow> int" where
  "last_air eps = Max (set (map ep_day eps))"

text \<open>Aired as a whole for a week, and not more than half of it in the library.\<close>

definition season_is_missing :: "detect_env \<Rightarrow> aired_episode list \<Rightarrow> bool" where
  "season_is_missing env eps \<longleftrightarrow>
     (let have = length (filter (owned_episode env) eps)
      in list_all (\<lambda>ep. ep_day ep \<le> today env) eps \<and> last_air eps \<le> today env - 7 \<and> have \<noteq> length eps \<and> 2 * have \<le> length eps)"

definition absorbable :: "int \<Rightarrow> aired_episode list \<Rightarrow> wanted_table \<Rightarrow> int list" where
  "absorbable fid eps rs = List.map_filter (\<lambda>ep. case find_wanted (Some fid) EPISODE (Some (ep_season ep)) (Some (ep_number ep)) None rs of
     None \<Rightarrow> None
   | Some r \<Rightarrow> if wanted_status r \<in> {PENDING, SEARCHING, AVAILABLE} then Some (wanted_id r) else None) eps"

definition season_action :: "followed \<Rightarrow> int \<Rightarrow> aired_episode list \<Rightarrow> detect_action" where
  "season_action f n eps = \<lparr>action_kind = SEASON, action_title = follow_title f, action_season = Some n, action_episode = None,
     action_day = Some (last_air eps), episode_title = None, detect_outcome = ENQUEUED\<rparr>"

definition enqueue_season :: "followed \<Rightarrow> int \<Rightarrow> int \<Rightarrow> aired_episode list \<Rightarrow> acquire_db \<Rightarrow> acquire_db" where
  "enqueue_season f n t eps s =
     (let sid = next_wanted_id (wanted s);
          s = enqueue (follow_ref f) SEASON t (follow_id f) (Some n) None s;
          ids = absorbable (follow_id f) eps (wanted s)
      in if ids = [] then s
         else emit (SeasonAbsorbedEpisodes sid (follow_ref f) n ids) (on_wanted (\<lambda>rs. snd (absorb_episodes sid ids rs)) s))"

definition detect_season :: "detect_env \<Rightarrow> bool \<Rightarrow> int \<Rightarrow> followed list \<Rightarrow> (int \<times> int) \<times> aired_episode list \<Rightarrow> detecting \<Rightarrow> detecting" where
  "detect_season env dry_run t shows = (\<lambda>((fid, n), eps) (acts, s).
     if \<not> season_is_missing env eps \<or> find_wanted (Some fid) SEASON (Some n) None None (wanted s) \<noteq> None then (acts, s)
     else case List.find (\<lambda>f. follow_id f = fid \<and> by_ref shows (follow_ref f) = Some f) shows of
       None \<Rightarrow> (acts, s)
     | Some f \<Rightarrow> (acts @ [season_action f n eps], if dry_run then s else enqueue_season f n t eps s))"

subsection \<open>A run\<close>

definition has_part :: "string \<Rightarrow> string \<Rightarrow> bool" where
  "has_part part text \<longleftrightarrow> list_ex (\<lambda>i. take (length part) (drop i text) = part) [0..<Suc (length text)]"

definition chosen :: "detect_env \<Rightarrow> string option \<Rightarrow> followed list \<Rightarrow> followed list" where
  "chosen env series active = (case series of
     None \<Rightarrow> active
   | Some text \<Rightarrow> (case python_int env text of
       Some i \<Rightarrow> filter (\<lambda>f. follow_id f = i) active
     | None \<Rightarrow> filter (\<lambda>f. has_part (lower text) (lower (follow_title f))) active))"

text \<open>Each count goes up where its action is appended.\<close>

definition tally :: "detect_action list \<Rightarrow> nat \<Rightarrow> detect_summary" where
  "tally acts n_swept =
     (let n = (\<lambda>outs. length (filter (\<lambda>a. detect_outcome a \<in> outs) acts))
      in \<lparr>enqueued = n {ENQUEUED}, skipped_owned = n {SKIPPED_OWNED, FILM_ACQUIRED}, skipped_dup = n {SKIPPED_DUP},
          resurrected = n {RESURRECTED}, swept_owned = n_swept\<rparr>)"

definition library_sweep :: "detect_env \<Rightarrow> sweep_env" where
  "library_sweep env = \<lparr>library_owns = owned_by env, journey = landing_journey env, client_items = None, foreign = {}, recorder = None\<rparr>"

text \<open>What a run that is not dry writes before it looks at the titles: the caches, the rows the library already has, the titles.\<close>

definition refresh :: "detect_env \<Rightarrow> followed list \<Rightarrow> series_catalog list \<Rightarrow> acquire_db \<Rightarrow> nat \<times> acquire_db" where
  "refresh env fs catalogs s =
     (let shows = filter (\<lambda>f. follow_kind f \<noteq> FOLLOW_MOVIE) fs;
          s = persist_series_status catalogs (persist_aired_cache env shows (concat (map catalog_episodes catalogs)) s);
          (rep, s) = reconcile_wanted (library_sweep env) (sweep_clock env) s
      in (closed_owned rep, backfill_original_titles env fs s))"

definition detect_run :: "detect_env \<Rightarrow> string option \<Rightarrow> bool \<Rightarrow> int \<Rightarrow> acquire_db \<Rightarrow> detect_result \<times> acquire_db" where
  "detect_run env series dry_run t s =
     (let active = list_active (follows s); fs = chosen env series active in
      if active = [] then (\<lparr>detect_status = NO_ACTIVE, detect_actions = [], detect_summary = tally [] 0\<rparr>, s)
      else if fs = [] then (\<lparr>detect_status = NO_MATCH, detect_actions = [], detect_summary = tally [] 0\<rparr>, s)
      else
        (let movies = filter (\<lambda>f. follow_kind f = FOLLOW_MOVIE) fs; shows = filter (\<lambda>f. follow_kind f \<noteq> FOLLOW_MOVIE) fs;
             catalogs = poll_catalog (tv_providers env) shows; known = concat (map catalog_episodes catalogs);
             (n_swept, s) = (if dry_run then (0, s) else refresh env fs catalogs s);
             d = fold (detect_movie env dry_run t) movies ([], s);
             d = fold (detect_episode env dry_run t shows) (filter (\<lambda>ep. ep_day ep \<le> today env) known) d;
             (acts, s) = fold (detect_season env dry_run t shows) (season_groups shows known) d
         in (\<lparr>detect_status = DETECT_OK, detect_actions = acts, detect_summary = tally acts n_swept\<rparr>, s)))"

end
