(* ===== verification/Detect_Facts.thy ===== *)
theory Detect_Facts
  imports Detect Reconcile_Facts
begin

text \<open>
  What a detection guarantees: a dry one writes nothing, no aired episode is forgotten, nothing is wanted that is not missing,
  and the wanted table stays sound unless a row is reopened.
\<close>

subsection \<open>A dry run\<close>

lemma dry_detection_keeps:
  "snd (detect_movie env True t f d) = snd d" "snd (detect_episode env True t shows ep d) = snd d" "snd (detect_season env True t shows g d) = snd d"
  by (auto simp: detect_movie_def detect_episode_def detect_season_def Let_def case_prod_beta split: option.split)

text \<open>A dry detection writes nothing.\<close>

theorem dry_detection_writes_nothing: "snd (detect_run env series True t s) = s"
  by (simp add: detect_run_def Let_def case_prod_beta fold_keeps [where g = snd] dry_detection_keeps)

subsection \<open>No aired episode is forgotten\<close>

definition wanted_episode :: "detect_env \<Rightarrow> int \<Rightarrow> followed \<Rightarrow> aired_episode \<Rightarrow> wanted_table \<Rightarrow> bool" where
  "wanted_episode env t f ep rs \<longleftrightarrow> (\<exists>r \<in> set rs. is_target (Some (follow_id f)) EPISODE (Some (ep_season ep)) (Some (ep_number ep)) r
     \<and> \<not> resurrectable env t f r)"

lemma wanted_episode_append: "wanted_episode env t f ep rs \<Longrightarrow> wanted_episode env t f ep (rs @ new)"
  by (auto simp: wanted_episode_def)

lemma wanted_episode_update:
  assumes "wanted_episode env t f ep rs" and "\<And>r. target (g r) = target r \<and> wanted_status (g r) \<noteq> ABANDONED"
  shows "wanted_episode env t f ep (sql_update P g rs)"
proof -
  obtain r where r: "r \<in> set rs" "is_target (Some (follow_id f)) EPISODE (Some (ep_season ep)) (Some (ep_number ep)) r" "\<not> resurrectable env t f r"
    using assms(1) by (auto simp: wanted_episode_def)
  then show ?thesis
    unfolding wanted_episode_def set_sql_update using assms(2) [of r]
    by (intro bexI [of _ "if P r then g r else r"]) (auto simp: is_target_def target_def resurrectable_def)
qed

lemma enqueue_wanted: "wanted (enqueue ref k t fid n e s) = snd (add_wanted (fresh_item ref k t (Some fid) n e) (wanted s))"
  by (simp add: enqueue_def emit_def on_wanted_def)

lemma add_wanted_appends: "\<exists>new. snd (add_wanted item rs) = rs @ [new] \<and> target new = target item \<and> wanted_status new = wanted_status item
    \<and> wanted_id new = next_wanted_id rs \<and> grabbed_hash new = None \<and> enqueued_at new = enqueued_at item"
  by (simp add: add_wanted_def target_def)

lemma resurrect_update: "snd (resurrect i t rs) = sql_update (\<lambda>r. wanted_id r = i \<and> wanted_status r = ABANDONED)
    (\<lambda>r. r\<lparr>wanted_status := PENDING, attempts := 0, enqueued_at := t, last_search_at := None, grabbed_hash := None\<rparr>) rs"
  by (simp add: resurrect_def move_def)

lemma detect_episode_keeps:
  assumes "wanted_episode env t f ep (wanted (snd d))"
  shows "wanted_episode env t f ep (wanted (snd (detect_episode env False t shows ep' d)))"
proof -
  obtain acts s where d: "d = (acts, s)" by (cases d)
  have "wanted_episode env t f ep (snd (resurrect i t (wanted s)))" for i
    unfolding resurrect_update using assms d by (intro wanted_episode_update) (auto simp: target_def)
  moreover have "wanted_episode env t f ep (wanted (enqueue ref k t fid n e s))" for ref k fid n e
    unfolding enqueue_wanted using assms d add_wanted_appends wanted_episode_append by (metis snd_conv)
  ultimately show ?thesis
    using assms d by (auto simp: detect_episode_def Let_def case_prod_beta split: option.split)
qed

lemma detect_episode_wants:
  assumes f: "by_ref shows (ep_ref ep) = Some f" and "\<not> owned_episode env ep"
  shows "wanted_episode env t f ep (wanted (snd (detect_episode env False t shows ep d)))"
proof -
  obtain acts s where d: "d = (acts, s)" by (cases d)
  let ?target = "is_target (Some (follow_id f)) EPISODE (Some (ep_season ep)) (Some (ep_number ep))"
  show ?thesis
  proof (cases "find_wanted (Some (follow_id f)) EPISODE (Some (ep_season ep)) (Some (ep_number ep)) None (wanted s)")
    case None
    obtain new where "wanted (enqueue (ep_ref ep) EPISODE t (follow_id f) (Some (ep_season ep)) (Some (ep_number ep)) s) = wanted s @ [new]"
        "target new = (Some (follow_id f), EPISODE, Some (ep_season ep), Some (ep_number ep))" "wanted_status new = PENDING"
      using add_wanted_appends [of "fresh_item (ep_ref ep) EPISODE t (Some (follow_id f)) (Some (ep_season ep)) (Some (ep_number ep))" "wanted s"]
      by (auto simp: enqueue_wanted target_def fresh_item_def)
    then show ?thesis
      using assms d None by (auto simp: detect_episode_def wanted_episode_def is_target_def target_def resurrectable_def)
  next
    case (Some r)
    then have r: "r \<in> set (wanted s)" "?target r" using sql_first_SomeD by (fastforce simp: find_wanted_def)+
    show ?thesis
    proof (cases "resurrectable env t f r")
      case False
      then show ?thesis using assms d Some r by (auto simp: detect_episode_def wanted_episode_def)
    next
      case True
      let ?g = "\<lambda>r. r\<lparr>wanted_status := PENDING, attempts := 0, enqueued_at := t, last_search_at := None, grabbed_hash := None\<rparr>"
      have "?g r \<in> set (snd (resurrect (wanted_id r) t (wanted s)))"
        unfolding resurrect_update set_sql_update using r(1) True by (intro image_eqI [of _ _ r]) (auto simp: resurrectable_def)
      moreover have "?target (?g r)" "\<not> resurrectable env t f (?g r)" using r(2) by (simp_all add: is_target_def resurrectable_def)
      ultimately have "wanted_episode env t f ep (snd (resurrect (wanted_id r) t (wanted s)))" unfolding wanted_episode_def by blast
      then show ?thesis using assms d Some True by (simp add: detect_episode_def Let_def case_prod_beta)
    qed
  qed
qed

lemma detect_season_keeps:
  assumes "wanted_episode env t f ep (wanted (snd d))"
  shows "wanted_episode env t f ep (wanted (snd (detect_season env False t shows g d)))"
proof -
  obtain acts s fid n eps where d: "d = (acts, s)" "g = ((fid, n), eps)" by (metis prod.exhaust)
  have add: "wanted_episode env t f ep (wanted (enqueue ref k t i m e s))" for ref k i m e
    unfolding enqueue_wanted using assms d(1) add_wanted_appends wanted_episode_append by (metis snd_conv)
  have "wanted_episode env t f ep (snd (absorb_episodes i ids rs))" if "wanted_episode env t f ep rs" for i ids rs
    using that by (auto simp: absorb_episodes_def Let_def target_def intro!: wanted_episode_update)
  then have "wanted_episode env t f ep (wanted (enqueue_season f' n t eps s))" for f'
    using add by (simp add: enqueue_season_def Let_def emit_def on_wanted_def)
  then show ?thesis using assms d by (auto simp: detect_season_def split: option.split)
qed

definition shows_of :: "detect_env \<Rightarrow> string option \<Rightarrow> acquire_db \<Rightarrow> followed list" where
  "shows_of env series s = filter (\<lambda>f. follow_kind f \<noteq> FOLLOW_MOVIE) (chosen env series (list_active (follows s)))"

definition films_of :: "detect_env \<Rightarrow> string option \<Rightarrow> acquire_db \<Rightarrow> followed list" where
  "films_of env series s = filter (\<lambda>f. follow_kind f = FOLLOW_MOVIE) (chosen env series (list_active (follows s)))"

definition known_of :: "detect_env \<Rightarrow> string option \<Rightarrow> acquire_db \<Rightarrow> aired_episode list" where
  "known_of env series s = concat (map catalog_episodes (poll_catalog (tv_providers env) (shows_of env series s)))"

text \<open>A run that is not dry, step by step.\<close>

lemma detect_run_steps:
  assumes "detect_run env series False t s = (res, s')" and "detect_status res = DETECT_OK"
  shows "\<exists>acts. detect_actions res = acts \<and> fold (detect_season env False t (shows_of env series s)) (season_groups (shows_of env series s) (known_of env series s))
      (fold (detect_episode env False t (shows_of env series s)) (filter (\<lambda>ep. ep_day ep \<le> today env) (known_of env series s))
        (fold (detect_movie env False t) (films_of env series s)
          ([], snd (refresh env (chosen env series (list_active (follows s))) (poll_catalog (tv_providers env) (shows_of env series s)) s)))) = (acts, s')"
  using assms by (auto simp: detect_run_def Let_def case_prod_beta shows_of_def films_of_def known_of_def split: if_splits)

lemma known_from_catalog: "ep \<in> set (known_episodes day ref n seen es) \<Longrightarrow> ep_ref ep = ref"
  by (induction es arbitrary: seen) (auto split: option.splits if_splits)

lemma catalog_refs: 
  assumes "catalog_of pv f = Some c" "ep \<in> set (catalog_episodes c)"
  shows "ep_ref ep = follow_ref f"
proof -
  obtain n es where "ep \<in> set (known_episodes (parse_day pv) (follow_ref f) n {} es)"
    using assms by (auto simp: catalog_of_def split: option.splits)
  then show ?thesis by (rule known_from_catalog)
qed

lemma by_ref_own:
  assumes d: "distinct (map follow_ref shows)" and f: "f \<in> set shows"
  shows "by_ref shows (follow_ref f) = Some f"
proof (cases "by_ref shows (follow_ref f)")
  case None
  then show ?thesis using f by (auto simp: by_ref_def find_None_iff)
next
  case (Some g)
  then have "g \<in> set shows" "follow_ref g = follow_ref f" using find_SomeD by (fastforce simp: by_ref_def)+
  then show ?thesis using d f Some by (metis distinct_map inj_onD)
qed

lemma chosen_subset: "set (chosen env series fs) \<subseteq> set fs"
  by (auto simp: chosen_def split: option.splits)

lemma chosen_distinct: "distinct (map g fs) \<Longrightarrow> distinct (map g (chosen env series fs))"
  by (auto simp: chosen_def distinct_map intro: inj_on_subset split: option.splits)

text \<open>C11: after a detection, every aired episode of a followed show that is not in the library has a row on the wanted table, and
  not one that was abandoned within its search time.\<close>

theorem no_aired_episode_is_forgotten:
  assumes refs: "distinct (map follow_ref (follows s))"
    and run: "detect_run env series False t s = (res, s')" "detect_status res = DETECT_OK"
    and mine: "f \<in> set (chosen env series (list_active (follows s)))" "follow_kind f = FOLLOW_SHOW"
    and ep: "catalog_of (tv_providers env) f = Some c" "ep \<in> set (catalog_episodes c)" "ep_day ep \<le> today env" "\<not> owned_episode env ep"
  shows "\<exists>r \<in> set (wanted s'). is_target (Some (follow_id f)) EPISODE (Some (ep_season ep)) (Some (ep_number ep)) r \<and> \<not> resurrectable env t f r"
proof -
  let ?shows = "shows_of env series s" and ?J = "\<lambda>d. wanted_episode env t f ep (wanted (snd d))"
  have f: "f \<in> set ?shows" using mine by (simp add: shows_of_def)
  have "distinct (map follow_ref ?shows)"
    unfolding shows_of_def list_active_def by (intro distinct_map_filter chosen_distinct refs)
  then have found: "by_ref ?shows (ep_ref ep) = Some f" using by_ref_own [OF _ f] catalog_refs [OF ep(1,2)] by simp
  have "c \<in> set (poll_catalog (tv_providers env) ?shows)" using f ep(1) by (force simp: poll_catalog_def map_filter_def)
  then have known: "ep \<in> set (filter (\<lambda>ep. ep_day ep \<le> today env) (known_of env series s))" using ep by (auto simp: known_of_def)
  have "?J (fold (detect_episode env False t ?shows) (filter (\<lambda>ep. ep_day ep \<le> today env) (known_of env series s)) d)" for d
    by (rule fold_invariant_from [where P = ?J and f = "detect_episode env False t ?shows", OF known])
      (rule detect_episode_wants [OF found ep(4)], erule detect_episode_keeps)
  then have "?J (fold (detect_season env False t ?shows) gs (fold (detect_episode env False t ?shows)
      (filter (\<lambda>ep. ep_day ep \<le> today env) (known_of env series s)) d))" for gs d
    by (rule fold_invariant [where P = ?J]) (erule detect_season_keeps)
  then have "wanted_episode env t f ep (wanted s')" using detect_run_steps [OF run] by (metis snd_conv)
  then show ?thesis by (simp add: wanted_episode_def)
qed

subsection \<open>Only what is missing is wanted\<close>

text \<open>A row as it was, or as it is left by the end of its follow.\<close>

definition stems :: "wanted_item \<Rightarrow> wanted_item \<Rightarrow> bool" where
  "stems r1 r \<longleftrightarrow> wanted_id r = wanted_id r1 \<and> wanted_kind r = wanted_kind r1 \<and> season r = season r1 \<and> episode r = episode r1
     \<and> followed_id r \<in> {followed_id r1, None}"

definition accounted :: "(wanted_item \<Rightarrow> bool) \<Rightarrow> wanted_table \<Rightarrow> bool" where
  "accounted P rs \<longleftrightarrow> (\<forall>r \<in> set rs. \<exists>r1. P r1 \<and> stems r1 r)"

lemma stems_refl [simp]: "stems r r"
  by (simp add: stems_def)

lemma accounted_update: "accounted P rs \<Longrightarrow> (\<And>r. stems r (f r)) \<Longrightarrow> accounted P (sql_update Q f rs)"
  unfolding accounted_def set_sql_update
proof (intro ballI, elim imageE, goal_cases)
  case (1 r r0)
  then obtain r1 where r1: "P r1" "stems r1 r0" by blast
  moreover have "stems r0 r" using 1 by simp
  ultimately have "stems r1 r" unfolding stems_def by auto
  then show ?case using r1(1) by blast
qed

lemma accounted_filter: "accounted P rs \<Longrightarrow> accounted P (filter Q rs)"
  by (simp add: accounted_def)

lemma accounted_append: "accounted P rs \<Longrightarrow> (\<And>r. r \<in> set new \<Longrightarrow> P r) \<Longrightarrow> accounted P (rs @ new)"
  unfolding accounted_def using stems_refl by fastforce

lemma accounted_moves:
  assumes "accounted P rs"
  shows "accounted P (set_status i st rs)" "accounted P (snd (resurrect i t rs))" "accounted P (snd (absorb_episodes j ids rs))"
  using assms by (auto simp: set_status_def move_def resurrect_def absorb_episodes_def Let_def stems_def intro!: accounted_update)

lemma accounted_delete: "accounted P (wanted s) \<Longrightarrow> accounted P (wanted (delete_follow i s))"
  by (auto simp: delete_follow_def stems_def intro!: accounted_update accounted_filter)

lemma accounted_enqueue:
  assumes "accounted P (wanted s)"
    and "\<And>r. wanted_kind r = k \<and> followed_id r = Some fid \<and> season r = n \<and> episode r = e \<Longrightarrow> P r"
  shows "accounted P (wanted (enqueue ref k t fid n e s))"
  unfolding enqueue_wanted add_wanted_def snd_conv using assms by (intro accounted_append) (auto simp: fresh_item_def)

definition missing_title :: "detect_env \<Rightarrow> followed list \<Rightarrow> followed list \<Rightarrow> aired_episode list \<Rightarrow> wanted_item \<Rightarrow> bool" where
  "missing_title env films shows known r = (case wanted_kind r of
     MOVIE \<Rightarrow> \<exists>f \<in> set films. followed_id r = Some (follow_id f) \<and> (owned env (follow_ref f) MOVIE None None \<longrightarrow> replace_owned f)
   | EPISODE \<Rightarrow> \<exists>ep \<in> set known. followed_id r \<noteq> None \<and> followed_id r = follow_of shows ep \<and> season r = Some (ep_season ep) \<and> episode r = Some (ep_number ep)
       \<and> ep_day ep \<le> today env \<and> \<not> owned_episode env ep
   | SEASON \<Rightarrow> \<exists>fid n eps. ((fid, n), eps) \<in> set (season_groups shows known) \<and> followed_id r = Some fid \<and> season r = Some n
       \<and> season_is_missing env eps)"

lemma movie_accounted:
  assumes "accounted P (wanted (snd d))" and "f \<in> set films" and P: "\<And>r. missing_title env films shows known r \<Longrightarrow> P r"
  shows "accounted P (wanted (snd (detect_movie env False t f d)))"
proof -
  obtain acts s where d: "d = (acts, s)" by (cases d)
  have s: "accounted P (wanted s)" "accounted P (wanted (s\<lparr>follows := fs\<rparr>))" for fs using assms(1) d by simp_all
  have unfollow: "accounted P (wanted (unfollow_film f s))"
    using s by (auto simp: unfollow_film_def emit_def on_wanted_def Let_def intro!: accounted_delete accounted_moves split: option.split)
  have "accounted P (wanted (enqueue (follow_ref f) MOVIE t (follow_id f) None None s'))"
    if "wanted s' = wanted s" "owned env (follow_ref f) MOVIE None None \<longrightarrow> replace_owned f" for s'
    using s(1) that assms(2) by (intro accounted_enqueue) (auto simp: missing_title_def intro!: P)
  then show ?thesis using d s unfollow by (auto simp: detect_movie_def Let_def)
qed

lemma episode_accounted:
  assumes "accounted P (wanted (snd d))" and "ep \<in> set known" "ep_day ep \<le> today env" and P: "\<And>r. missing_title env films shows known r \<Longrightarrow> P r"
  shows "accounted P (wanted (snd (detect_episode env False t shows ep d)))"
proof -
  obtain acts s where d: "d = (acts, s)" by (cases d)
  have s: "accounted P (wanted s)" using assms(1) d by simp
  have "accounted P (wanted (enqueue (ep_ref ep) EPISODE t (follow_id f) (Some (ep_season ep)) (Some (ep_number ep)) s))"
    if "by_ref shows (ep_ref ep) = Some f" "\<not> owned_episode env ep" for f
    using s that assms(2,3) by (intro accounted_enqueue) (auto simp: missing_title_def follow_of_def intro!: P bexI [of _ ep])
  then show ?thesis using d s by (auto simp: detect_episode_def Let_def case_prod_beta accounted_moves split: option.split)
qed

lemma season_accounted:
  assumes "accounted P (wanted (snd d))" and "g \<in> set (season_groups shows known)" and P: "\<And>r. missing_title env films shows known r \<Longrightarrow> P r"
  shows "accounted P (wanted (snd (detect_season env False t shows g d)))"
proof -
  obtain acts s fid n eps where d: "d = (acts, s)" "g = ((fid, n), eps)" by (metis prod.exhaust)
  have "accounted P (wanted (enqueue (follow_ref f) SEASON t (follow_id f) (Some n) None s))" if "follow_id f = fid" "season_is_missing env eps" for f
    using assms(1,2) d that by (intro accounted_enqueue) (auto simp: missing_title_def intro!: P)
  moreover have "accounted P (wanted (enqueue_season f n t eps s))"
    if "accounted P (wanted (enqueue (follow_ref f) SEASON t (follow_id f) (Some n) None s))" for f
    using that by (simp add: enqueue_season_def Let_def emit_def on_wanted_def accounted_moves)
  ultimately have "accounted P (wanted (enqueue_season f n t eps s))" if "follow_id f = fid" "season_is_missing env eps" for f
    using that by blast
  then show ?thesis using assms(1) d by (auto simp: detect_season_def split: option.split dest!: find_SomeD)
qed

lemma heal_keeps_wanted: "wanted (heal_tvdb_only_show env f s) = wanted s" "wanted (heal_original ask f s) = wanted s"
  by (auto simp: heal_tvdb_only_show_def heal_original_def set_original_def split: option.split)

lemma titles_keep_wanted:
  "wanted (persist_aired_cache env shows known s) = wanted s" "wanted (persist_series_status cs s) = wanted s"
  "wanted (backfill_original_titles env fs s) = wanted s"
  by (auto simp: persist_aired_cache_def persist_series_status_def backfill_original_titles_def Let_def heal_keeps_wanted
      fold_keeps [where g = wanted] split: option.split)

text \<open>The aired episodes as the run has cached them when its library sweep reads them.\<close>

definition aired_then :: "detect_env \<Rightarrow> followed list \<Rightarrow> series_catalog list \<Rightarrow> acquire_db \<Rightarrow> aired_table" where
  "aired_then env fs cs s = aired (persist_aired_cache env (filter (\<lambda>f. follow_kind f \<noteq> FOLLOW_MOVIE) fs) (concat (map catalog_episodes cs)) s)"

lemma status_keeps_aired: "aired (persist_series_status cs s) = aired s"
  by (auto simp: persist_series_status_def fold_keeps [where g = aired] split: option.split)

lemma refresh_rows:
  assumes "wanted_ok (wanted s)"
  shows "\<exists>f new. wanted (snd (refresh env fs cs s)) = map f (wanted s) @ new \<and> (\<forall>r. stems r (f r))
    \<and> (\<forall>r \<in> set new. \<exists>row \<in> set (wanted s). fallback_of (library_sweep env) (aired_then env fs cs s) (sweep_clock env) row r)
    \<and> wanted_ok (wanted (snd (refresh env fs cs s)))"
proof -
  define s1 where "s1 = persist_series_status cs (persist_aired_cache env (filter (\<lambda>f. follow_kind f \<noteq> FOLLOW_MOVIE) fs) (concat (map catalog_episodes cs)) s)"
  have same: "wanted s1 = wanted s" by (simp add: s1_def titles_keep_wanted)
  have as: "aired s1 = aired_then env fs cs s" by (simp add: s1_def status_keeps_aired aired_then_def)
  have "wanted (snd (refresh env fs cs s)) = wanted (snd (reconcile_wanted (library_sweep env) (sweep_clock env) s1))"
    by (simp add: refresh_def s1_def Let_def case_prod_beta titles_keep_wanted)
  moreover have "stems r (settled_row (library_sweep env) (aired s1) r)" for r
    by (simp add: settled_row_def stems_def split: option.split)
  ultimately show ?thesis
    using reconcile_wanted_rows [of s1 "library_sweep env" "sweep_clock env"] assms same unfolding as by (metis (no_types, lifting))
qed

text \<open>C12: every row of the wanted table after a detection has the target of a row that was there before, with its id; or is an episode
  of a season pack of the table before that the library sweep gave up since it landed with holes: one of the season's cached
  episodes that the library says it does not have; or stands for what is missing: a followed film that is not in the library (or
  is to be replaced), an aired episode of a followed show that is not, a season aired for a week of which no more than half is.
  (A row whose follow ends in the run keeps its target but for the follow.)\<close>

theorem detection_wants_only_what_is_missing:
  assumes ok: "wanted_ok (wanted s)" and run: "detect_run env series False t s = (res, s')" "detect_status res = DETECT_OK"
    and r: "r \<in> set (wanted s')"
  shows "(\<exists>r0 \<in> set (wanted s). stems r0 r)
    \<or> (\<exists>row \<in> set (wanted s). \<exists>x fid n e. fallback_of (library_sweep env)
          (aired_then env (chosen env series (list_active (follows s))) (poll_catalog (tv_providers env) (shows_of env series s)) s) (sweep_clock env) row x
        \<and> stems x r \<and> wanted_kind r = EPISODE \<and> followed_id r \<in> {Some fid, None} \<and> season r = Some n \<and> episode r = Some e
        \<and> followed_id row = Some fid \<and> season row = Some n \<and> owned_by env (media_ref row) EPISODE (Some n) (Some e) = Some False)
    \<or> (\<exists>x. missing_title env (films_of env series s) (shows_of env series s) (known_of env series s) x \<and> stems x r)"
proof -
  let ?films = "films_of env series s" and ?shows = "shows_of env series s" and ?known = "known_of env series s"
  let ?fs = "chosen env series (list_active (follows s))" and ?cs = "poll_catalog (tv_providers env) (shows_of env series s)"
  let ?F = "\<lambda>x. \<exists>row \<in> set (wanted s). fallback_of (library_sweep env) (aired_then env ?fs ?cs s) (sweep_clock env) row x"
  let ?P = "\<lambda>r1. r1 \<in> set (wanted s) \<or> ?F r1 \<or> missing_title env ?films ?shows ?known r1"
  let ?J = "\<lambda>d. accounted ?P (wanted (snd d))"
  let ?start = "([] :: detect_action list, snd (refresh env ?fs ?cs s))"
  have "accounted ?P (wanted (snd (refresh env ?fs ?cs s)))"
  proof -
    obtain f new where rows: "wanted (snd (refresh env ?fs ?cs s)) = map f (wanted s) @ new" "\<forall>r. stems r (f r)" "\<forall>r \<in> set new. ?F r"
      using refresh_rows [OF ok] by blast
    have "accounted ?P (map f (wanted s))" using rows(2) by (auto simp: accounted_def)
    then show ?thesis unfolding rows(1) using rows(3) by (intro accounted_append) blast+
  qed
  then have "?J ?start" by simp
  then have "?J (fold (detect_movie env False t) ?films ?start)"
    by (rule fold_invariant [where P = ?J]) (erule movie_accounted [where films = ?films and known = ?known]; blast)
  then have "?J (fold (detect_episode env False t ?shows) (filter (\<lambda>ep. ep_day ep \<le> today env) ?known) (fold (detect_movie env False t) ?films ?start))"
    by (rule fold_invariant [where P = ?J]) (rule episode_accounted [where films = ?films and known = ?known]; auto)
  then have "?J (fold (detect_season env False t ?shows) (season_groups ?shows ?known)
      (fold (detect_episode env False t ?shows) (filter (\<lambda>ep. ep_day ep \<le> today env) ?known) (fold (detect_movie env False t) ?films ?start)))"
    by (rule fold_invariant [where P = ?J]) (erule season_accounted [where films = ?films and known = ?known]; blast)
  then have "accounted ?P (wanted s')" using detect_run_steps [OF run] by (metis snd_conv)
  then obtain x where x: "?P x" "stems x r" using r unfolding accounted_def by blast
  have "\<exists>fid n e. wanted_kind r = EPISODE \<and> followed_id r \<in> {Some fid, None} \<and> season r = Some n \<and> episode r = Some e
      \<and> followed_id row = Some fid \<and> season row = Some n \<and> owned_by env (media_ref row) EPISODE (Some n) (Some e) = Some False"
    if "fallback_of (library_sweep env) as u row x" for as u row
    using that x(2) season_misses [of "library_owns (library_sweep env)" as row]
    by (fastforce simp: fallback_of_def requeued_episode_def stems_def library_sweep_def)
  then show ?thesis using x by blast
qed

subsection \<open>The wanted table\<close>

lemma wanted_ok_delete:
  assumes ok: "wanted_ok (wanted s)"
  shows "wanted_ok (wanted (delete_follow i s))"
proof -
  let ?old = "filter (\<lambda>r. \<not> (followed_id r = Some i \<and> wanted_status r \<in> {PENDING, SEARCHING, AVAILABLE})) (wanted s)"
  obtain Q where new: "wanted (delete_follow i s) = sql_update Q (\<lambda>r. r\<lparr>followed_id := None\<rparr>) ?old" by (simp add: delete_follow_def)
  have origin: "\<exists>r0 \<in> set (wanted s). r = r0 \<or> r = r0\<lparr>followed_id := None\<rparr>" if "r \<in> set (wanted (delete_follow i s))" for r
    using that unfolding new set_sql_update by auto
  have "distinct (map wanted_id (wanted (delete_follow i s)))"
    using distinct_map_filter [OF wanted_ok_distinct [OF ok]] unfolding new by (simp add: sql_update_def comp_def if_distrib cong: if_cong)
  moreover have "one_open (wanted (delete_follow i s))"
    unfolding one_open_def
  proof (intro ballI impI)
    fix r r' assume r: "r \<in> set (wanted (delete_follow i s))" "r' \<in> set (wanted (delete_follow i s))"
      and open_: "is_open r \<and> is_open r' \<and> followed_id r \<noteq> None \<and> target r = target r'"
    then have "followed_id r' \<noteq> None" by (auto simp: target_def)
    then have "r \<in> set (wanted s)" "r' \<in> set (wanted s)" using origin [OF r(1)] origin [OF r(2)] open_ by auto
    then show "wanted_id r = wanted_id r'" using ok open_ unfolding wanted_ok_def one_open_def by blast
  qed
  moreover have "claimable_rows_clean (wanted (delete_follow i s))"
    unfolding claimable_rows_clean_def
  proof (intro ballI impI)
    fix r assume r: "r \<in> set (wanted (delete_follow i s))" "wanted_status r \<in> {PENDING, AVAILABLE}"
    obtain r0 where r0: "r0 \<in> set (wanted s)" "r = r0 \<or> r = r0\<lparr>followed_id := None\<rparr>" using origin [OF r(1)] by blast
    then show "grabbed_hash r = None" using ok r(2) unfolding wanted_ok_def claimable_rows_clean_def by auto
  qed
  ultimately show ?thesis by (simp add: wanted_ok_def)
qed

lemma wanted_ok_enqueue:
  assumes "wanted_ok (wanted s)" and "find_wanted (Some fid) k n e None (wanted s) = None"
  shows "wanted_ok (wanted (enqueue ref k t fid n e s))"
  unfolding enqueue_wanted using assms by (intro wanted_ok_add) (auto simp: find_wanted_def sql_first_None)

definition reopened :: "detect_action list \<Rightarrow> bool" where
  "reopened acts \<longleftrightarrow> (\<exists>a \<in> set acts. detect_outcome a = RESURRECTED)"

definition sound_unless_reopened :: "detecting \<Rightarrow> bool" where
  "sound_unless_reopened d \<longleftrightarrow> reopened (fst d) \<or> wanted_ok (wanted (snd d))"

lemma movie_sound:
  assumes "sound_unless_reopened d"
  shows "sound_unless_reopened (detect_movie env False t f d)"
proof -
  obtain acts s where d: "d = (acts, s)" by (cases d)
  have "wanted_ok (wanted (unfollow_film f s))" if "wanted_ok (wanted s)"
    using that by (auto simp: unfollow_film_def Let_def emit_def on_wanted_def OPEN_WANTED_STATUSES_def intro!: wanted_ok_delete set_status_closed split: option.split)
  then show ?thesis
    using assms d by (auto simp: sound_unless_reopened_def reopened_def detect_movie_def Let_def wanted_ok_enqueue)
qed

lemma episode_sound:
  assumes "sound_unless_reopened d"
  shows "sound_unless_reopened (detect_episode env False t shows ep d)"
proof -
  obtain acts s where d: "d = (acts, s)" by (cases d)
  have "snd (resurrect i t (wanted s)) = wanted s" if "wanted_ok (wanted s)" "\<not> fst (resurrect i t (wanted s))" for i
    using move_lost [OF wanted_ok_distinct [OF that(1)]] that(2) unfolding resurrect_def by blast
  then show ?thesis
    using assms d by (auto simp: sound_unless_reopened_def reopened_def detect_episode_def Let_def case_prod_beta wanted_ok_enqueue episode_action_def split: option.split)
qed

lemma season_sound:
  assumes "sound_unless_reopened d"
  shows "sound_unless_reopened (detect_season env False t shows g d)"
proof -
  obtain acts s fid n eps where d: "d = (acts, s)" "g = ((fid, n), eps)" by (metis prod.exhaust)
  have "wanted_ok (wanted (enqueue_season f n t eps s))" if "wanted_ok (wanted s)" "find_wanted (Some (follow_id f)) SEASON (Some n) None None (wanted s) = None" for f
    using wanted_ok_enqueue [OF that, of "follow_ref f" t] by (simp add: enqueue_season_def Let_def emit_def on_wanted_def absorb_ok)
  then show ?thesis
    using assms d by (auto simp: sound_unless_reopened_def reopened_def detect_season_def split: option.split dest!: find_SomeD)
qed

text \<open>A detection that reopens no row keeps the wanted table sound: unique ids, one open wanted of a target, no claimable row with
  a hash.\<close>

theorem detection_keeps_the_table:
  assumes ok: "wanted_ok (wanted s)" and run: "detect_run env series False t s = (res, s')" "detect_status res = DETECT_OK"
    and none: "\<not> reopened (detect_actions res)"
  shows "wanted_ok (wanted s')"
proof -
  let ?shows = "shows_of env series s" and ?known = "known_of env series s" and ?J = sound_unless_reopened
  let ?start = "([] :: detect_action list, snd (refresh env (chosen env series (list_active (follows s))) (poll_catalog (tv_providers env) ?shows) s))"
  have "wanted_ok (wanted (snd (refresh env fs cs s)))" for fs cs using refresh_rows [OF ok, of env fs cs] by blast
  then have "?J ?start" by (simp add: sound_unless_reopened_def)
  then have "?J (fold (detect_season env False t ?shows) (season_groups ?shows ?known)
      (fold (detect_episode env False t ?shows) (filter (\<lambda>ep. ep_day ep \<le> today env) ?known) (fold (detect_movie env False t) (films_of env series s) ?start)))"
    by (intro fold_invariant [where P = ?J] movie_sound episode_sound season_sound)
  then have "?J (detect_actions res, s')" using detect_run_steps [OF run] by metis
  then show ?thesis using none by (simp add: sound_unless_reopened_def)
qed

text \<open>C34: the row that is reopened is the oldest of its target, whatever the others are: an abandoned episode is put back to pending
  beside a younger row of its target that is open, and the target is then wanted twice.\<close>

theorem detection_reopens_beside_an_open_row:
  assumes "distinct (map wanted_id (wanted s))"
    and f: "by_ref shows (ep_ref ep) = Some f" and "\<not> owned_episode env ep"
    and first: "find_wanted (Some (follow_id f)) EPISODE (Some (ep_season ep)) (Some (ep_number ep)) None (wanted s) = Some old" "resurrectable env t f old"
    and young: "young \<in> set (wanted s)" "is_target (Some (follow_id f)) EPISODE (Some (ep_season ep)) (Some (ep_number ep)) young" "is_open young"
  shows "\<not> one_open (wanted (snd (detect_episode env False t shows ep (acts, s))))"
proof -
  let ?g = "\<lambda>r. r\<lparr>wanted_status := PENDING, attempts := 0, enqueued_at := t, last_search_at := None, grabbed_hash := None\<rparr>"
  let ?rs = "snd (resurrect (wanted_id old) t (wanted s))"
  have old: "old \<in> set (wanted s)" "is_target (Some (follow_id f)) EPISODE (Some (ep_season ep)) (Some (ep_number ep)) old" "wanted_status old = ABANDONED"
    using sql_first_SomeD [OF first(1) [unfolded find_wanted_def]] first(2) by (auto simp: resurrectable_def)
  then have "young \<noteq> old" using young(3) by (auto simp: is_open_def OPEN_WANTED_STATUSES_def)
  then have ids: "wanted_id young \<noteq> wanted_id old" using keyed_unique [OF assms(1) young(1) old(1)] by blast
  have "wanted (snd (detect_episode env False t shows ep (acts, s))) = ?rs"
    using assms(2-5) by (simp add: detect_episode_def Let_def case_prod_beta)
  moreover have "?g old \<in> set ?rs" "young \<in> set ?rs"
    unfolding resurrect_update set_sql_update using old young(1) ids by (auto intro!: image_eqI [of _ _ old] image_eqI [of _ _ young])
  moreover have "is_open (?g old)" "target (?g old) = target young" "followed_id young \<noteq> None" "wanted_id (?g old) \<noteq> wanted_id young"
    using old(2) young(2) ids by (auto simp: is_open_def OPEN_WANTED_STATUSES_def target_def is_target_def)
  ultimately show ?thesis using young(3) unfolding one_open_def by metis
qed

subsection \<open>A run\<close>

definition sample_show_follow :: followed where
  "sample_show_follow = \<lparr>follow_id = 1, follow_ref = \<lparr>tvdb_id = Some 7, tmdb_id = None, imdb_id = None\<rparr>, follow_title = ''Show'', added_at = 0,
     follow_active = True, quality_profile_text = None, cadence_text = None, follow_kind = FOLLOW_SHOW, follow_year = None,
     original_title = Some ''Show'', replace_owned = False, series_status = None, poster_url = None, overview = None\<rparr>"

definition sample_follows_db :: acquire_db where
  "sample_follows_db = \<lparr>follows = [sample_show_follow], wanted = [], aired = [], seeds = [], marks = [], effects = []\<rparr>"

definition sample_detect :: detect_env where
  "sample_detect = \<lparr>tv_providers = \<lparr>get_tv = (\<lambda>_. Some (None, [1])), fetchers = Some [\<lambda>_ _. Some [\<lparr>info_number = 1, info_date = ''d'', info_title = ''Pilot''\<rparr>]],
       parse_day = (\<lambda>_. Some 10)\<rparr>, owned_by = (\<lambda>_ _ _ _. None), landing_journey = (\<lambda>_. None), global_cadence = sample_cadence, today = 12,
     iso_date = (\<lambda>_. ''d''), tmdb_original = None, tvdb_title = (\<lambda>_. None), python_int = (\<lambda>_. None), sweep_clock = 100\<rparr>"

lemma sample_detection:
  "wanted (snd (detect_run sample_detect None False 100 sample_follows_db)) = [fresh_item (follow_ref sample_show_follow) EPISODE 100 (Some 1) (Some 1) (Some 1)\<lparr>wanted_id := 1\<rparr>]"
  "detect_status (fst (detect_run sample_detect None False 100 sample_follows_db)) = DETECT_OK"
  by code_simp+

lemma no_aired_episode_is_forgotten_witness:
  "\<exists>r. r \<in> set (wanted (snd (detect_run sample_detect None False 100 sample_follows_db))) \<and> is_target (Some 1) EPISODE (Some 1) (Some 1) r"
proof -
  let ?ep = "\<lparr>ep_ref = follow_ref sample_show_follow, ep_season = 1, ep_number = 1, ep_day = 10, ep_title = ''Pilot''\<rparr>"
  obtain res s' where run: "detect_run sample_detect None False 100 sample_follows_db = (res, s')" by fastforce
  have "\<exists>r \<in> set (wanted s'). is_target (Some (follow_id sample_show_follow)) EPISODE (Some (ep_season ?ep)) (Some (ep_number ?ep)) r
      \<and> \<not> resurrectable sample_detect 100 sample_show_follow r"
  proof (rule no_aired_episode_is_forgotten [OF _ run, where c = "\<lparr>catalog_follow = 1, catalog_ref = follow_ref sample_show_follow, catalog_status = None, catalog_episodes = [?ep]\<rparr>"])
    show "detect_status res = DETECT_OK" using sample_detection(2) run by simp
  qed (simp_all add: sample_follows_db_def sample_show_follow_def sample_detect_def chosen_def list_active_def catalog_of_def in_order_def
      owned_episode_def owned_def)
  then show ?thesis unfolding run by (auto simp: sample_show_follow_def)
qed

lemma detection_wants_only_what_is_missing_witness:
  "\<exists>x. missing_title sample_detect [] [sample_show_follow] (known_of sample_detect None sample_follows_db) x
    \<and> stems x (fresh_item (follow_ref sample_show_follow) EPISODE 100 (Some 1) (Some 1) (Some 1)\<lparr>wanted_id := 1\<rparr>)"
proof -
  obtain res s' where run: "detect_run sample_detect None False 100 sample_follows_db = (res, s')" by fastforce
  have lists: "films_of sample_detect None sample_follows_db = []" "shows_of sample_detect None sample_follows_db = [sample_show_follow]"
    by (simp_all add: films_of_def shows_of_def chosen_def list_active_def sample_follows_db_def sample_show_follow_def)
  have ok: "wanted_ok (wanted sample_follows_db)" by (simp add: wanted_ok_def one_open_def claimable_rows_clean_def sample_follows_db_def)
  have "wanted s' = [fresh_item (follow_ref sample_show_follow) EPISODE 100 (Some 1) (Some 1) (Some 1)\<lparr>wanted_id := 1\<rparr>]" "detect_status res = DETECT_OK"
    using sample_detection run by simp_all
  then show ?thesis
    using detection_wants_only_what_is_missing [OF ok run, of "fresh_item (follow_ref sample_show_follow) EPISODE 100 (Some 1) (Some 1) (Some 1)\<lparr>wanted_id := 1\<rparr>"] lists
    by (simp add: sample_follows_db_def sample_detect_def)
qed

lemma detection_keeps_the_table_witness: "wanted_ok (wanted (snd (detect_run sample_detect None False 100 sample_follows_db)))"
proof -
  obtain res s' where run: "detect_run sample_detect None False 100 sample_follows_db = (res, s')" by fastforce
  have ok: "wanted_ok (wanted sample_follows_db)" by (simp add: wanted_ok_def one_open_def claimable_rows_clean_def sample_follows_db_def)
  have "\<not> reopened (detect_actions (fst (detect_run sample_detect None False 100 sample_follows_db)))" by code_simp
  then show ?thesis using detection_keeps_the_table [OF ok run] sample_detection(2) run by simp
qed

definition sample_episode :: aired_episode where
  "sample_episode = \<lparr>ep_ref = follow_ref sample_show_follow, ep_season = 1, ep_number = 1, ep_day = 10, ep_title = ''Pilot''\<rparr>"

definition sample_twice :: acquire_db where
  "sample_twice = sample_follows_db\<lparr>wanted := [(fresh_item (follow_ref sample_show_follow) EPISODE 0 (Some 1) (Some 1) (Some 1))\<lparr>wanted_id := 1, wanted_status := ABANDONED\<rparr>,
     (fresh_item (follow_ref sample_show_follow) EPISODE 50 (Some 1) (Some 1) (Some 1))\<lparr>wanted_id := 2\<rparr>]\<rparr>"

lemma detection_reopens_beside_an_open_row_witness:
  "\<not> one_open (wanted (snd (detect_episode sample_detect False 100 [sample_show_follow] sample_episode ([], sample_twice))))"
proof (rule detection_reopens_beside_an_open_row)
  show "by_ref [sample_show_follow] (ep_ref sample_episode) = Some sample_show_follow" by (simp add: by_ref_def sample_episode_def)
  show "find_wanted (Some (follow_id sample_show_follow)) EPISODE (Some (ep_season sample_episode)) (Some (ep_number sample_episode)) None (wanted sample_twice)
      = Some (hd (wanted sample_twice))" by code_simp
  show "wanted (sample_twice) ! 1 \<in> set (wanted sample_twice)" by (simp add: sample_twice_def)
qed (simp_all add: sample_twice_def sample_episode_def sample_show_follow_def sample_detect_def owned_episode_def owned_def resurrectable_def fresh_item_def
    is_past_cutoff_def effective_cadence_def cadence_from_json_def sample_cadence_def is_target_def is_open_def OPEN_WANTED_STATUSES_def)

end
