(* ===== verification/Spec2Isabelle.thy ===== *)
theory Spec2Isabelle
  imports Supervisor_Ticks Watch_Cycle Run_Lease Sessions Idempotency Rate_Limit Circuit Account_Errors Pass_Settles Deletion_Facts Reswitch_Facts Download_Facts Dispatch_Facts Detect_Facts
begin

text \<open>
  TorrentMate: the supervised runs, the accounts, the acquisition, the dispatch and the deletions of a home media server.

  The program (\<open>src/personalscraper\<close>) follows films and series, searches the trackers for the releases that are wanted, hands
  them to a torrent client, sorts and scrapes what was downloaded, and files it in a library that its web interface shows
  and edits. Its core keeps all state in SQLite tables that several processes share: a supervisor that runs the pipeline, the
  web application, the commands a timer starts. This development models that core as functions over the tables and proves what
  the tables, and the world outside them, are promised.

  \<^bold>\<open>The parts and how they meet.\<close>
  \<^item> \<^emph>\<open>Asking a run.\<close> A request to run the pipeline or to rescrape an item is authorised, joined to a request that already waits,
    or written to the table \<open>run_request\<close>. Theories \<open>Run_Request\<close> (\<open>app/supervisor/model.py\<close>: the request and its moves),
    \<open>Run_Queue\<close> (\<open>queue_repository.py\<close>), \<open>Run_Lease\<close> (\<open>lease_repository.py\<close>), \<open>Run_Service\<close> (\<open>service.py\<close>).
  \<^item> \<^emph>\<open>The supervisor.\<close> One process at a time holds the lease; at each tick it settles the runs that ended and starts the head of
    the queue. Theories \<open>Supervisor\<close> (\<open>app/supervisor/supervisor.py\<close>, \<open>launcher.py\<close>), \<open>Supervisor_Phases\<close> and
    \<open>Supervisor_Ticks\<close>; \<open>Watcher\<close> (\<open>acquire/watcher.py\<close>: when the torrent client's activity calls for a run) and
    \<open>Watch_Cycle\<close> (its tick, which asks the runs).
  \<^item> \<^emph>\<open>The accounts.\<close> Rights, roles and accounts, passwords, sessions, the sign-in through Plex, the friction of the sign-in
    doors. Theories \<open>Rights\<close> (\<open>app/accounts/rights.py\<close>, \<open>requirements.py\<close>, \<open>ceiling.py\<close>, \<open>authorise.py\<close>), \<open>Sessions\<close>
    (\<open>sessions.py\<close>, \<open>session_repository.py\<close>, \<open>own_sessions.py\<close>), \<open>Rate_Limit\<close> (\<open>ratelimit.py\<close>), \<open>Accounts\<close>
    (\<open>account_repository.py\<close>, \<open>role_repository.py\<close>, \<open>model.py\<close>), \<open>Account_Services\<close> (\<open>roles.py\<close>, \<open>roster.py\<close>), \<open>Sign_In\<close>
    (\<open>credentials.py\<close>, \<open>plex_sign_in.py\<close>, \<open>pin_repository.py\<close>); facts in \<open>Account_Tables\<close>, \<open>Account_Gates\<close>, \<open>Account_Safety\<close>,
    \<open>Account_Errors\<close>. \<open>Idempotency\<close> (\<open>app/idempotency\<close>) keeps the first answer of a write under its key.
  \<^item> \<^emph>\<open>The acquisition.\<close> The wanted items and their life: detected, searched, found, grabbed, reconciled, switched to another release.
    Theories \<open>Wanted_Store\<close> (\<open>acquire/_wanted_store.py\<close>), \<open>Acquire_Store\<close> (\<open>store.py\<close> and the other repositories),
    \<open>Download_Marks\<close> (\<open>_download_marks.py\<close>), \<open>Desired\<close> (\<open>desired.py\<close>), \<open>Cadence\<close> (\<open>cadence.py\<close>), \<open>Releases\<close> (\<open>_filters.py\<close>,
    \<open>_dedup.py\<close>, \<open>api/tracker/_ranking.py\<close>, \<open>_registry.py\<close>), \<open>Decimal\<close>, \<open>Bencode\<close>, \<open>Torrent_Source\<close>
    (\<open>api/torrent/_base.py\<close>), \<open>Fetch\<close> (\<open>api/tracker/_fetch.py\<close>), \<open>Grab_Orchestrator\<close> (\<open>orchestrator.py\<close>, \<open>_query.py\<close>,
    \<open>_resolve_walk.py\<close>), \<open>Pass_Gates\<close>, \<open>Search_Pass\<close>, \<open>Grab_Pass\<close> (the files of these names, \<open>service.py\<close>,
    \<open>_season_fallback.py\<close>), \<open>Reconcile\<close> (\<open>reconcile.py\<close>, \<open>_reswitch.py\<close>, \<open>_stall.py\<close>), \<open>Detect\<close>
    (\<open>detect.py\<close>, \<open>airing.py\<close>); facts in \<open>Wanted_Facts\<close>,
    \<open>Pass_Facts\<close>, \<open>Pass_Settles\<close>, \<open>Grab_Facts\<close>, \<open>Release_Facts\<close>, \<open>Reconcile_Facts\<close>, \<open>Reswitch_Facts\<close>, \<open>Download_Facts\<close>, \<open>Detect_Facts\<close>.
  \<^item> \<^emph>\<open>What is owed to the trackers, and deleting.\<close> A torrent must be seeded for the time its tracker asks; what holds its files may
    not be deleted before. Theories \<open>Obligations\<close> (\<open>acquire/obligations.py\<close>), \<open>Delete_Authority\<close> (\<open>delete_authority.py\<close>,
    \<open>core/delete_permit.py\<close>), \<open>Folder_Tree\<close> (a file system and its removals), \<open>Library_Deletion\<close> (\<open>app/library/deleting.py\<close>,
    \<open>deletion.py\<close>, \<open>indexer/deletion.py\<close>); facts in \<open>Deletion_Facts\<close>.
  \<^item> \<^emph>\<open>The dispatch.\<close> A verified medium goes to the disks of the library: moved to a new folder, put in place of the film that
    is there, or merged into its show. Theories \<open>Folder_Transfer\<close> (\<open>dispatch/_transfer.py\<close>, \<open>_movie.py\<close>, \<open>_tv.py\<close>,
    \<open>Dispatcher._move_new\<close>, \<open>crash_recovery.py\<close>, \<open>_extract_season_episode\<close>, and the table of \<open>indexer/_fs_capability.py\<close>) and \<open>Dispatch\<close> (\<open>_item.py\<close>, \<open>dispatcher.py\<close>,
    \<open>_identity.py\<close>, \<open>conf/resolver.py\<close>), which asks the permit of \<open>Delete_Authority\<close> and writes its obligations; facts in
    \<open>Transfer_Facts\<close>, \<open>Merge_Facts\<close>, \<open>Dispatch_Facts\<close>. Each call to the system may be refused, in part, and the process may be
    killed in each.
  \<^item> \<^emph>\<open>Shared.\<close> \<open>Prelude\<close> (the clock, tables as lists of rows with the statements of SQL, transition systems), \<open>Py_Errors\<close> (the
    exceptions), \<open>Acts\<close> (programs that write a store and may raise), \<open>Json\<close>, \<open>Circuit\<close> (\<open>core/circuit.py\<close>).

  \<^bold>\<open>How the code is read.\<close> A table is the list of its rows in the order of their insertion, a repository method a function on
  it that follows its statement: \<open>sql_update\<close> is an \<open>UPDATE ... WHERE\<close>, \<open>sql_first\<close> a \<open>SELECT ... LIMIT 1\<close>, and the count of
  the rows updated is the compare-and-set the repositories are built on. A class with state is a record, an enum a datatype. An
  exception is a value of the sum types of \<open>Py_Errors\<close>; in the passes over the wanted items, which write as they go, it is an
  \<open>act\<close>, whose raise keeps the writes made before it. Events and calls that leave the process (a notification, a torrent handed
  to the client, a folder removed, a process started) are entries of a list of effects, in order. What several processes do
  to one table is an inductive step relation over all their statements, and a property of runs is an invariant of it, by the
  locales \<open>transition_system\<close> and \<open>absorbing_fact\<close> of the prelude (what holds once holds for ever), interpreted for the queue, the
  supervisors, the sessions, the accounts and the idempotency keys; \<open>lease_authority\<close>, \<open>kept_by_doors\<close> and \<open>pass_over\<close> are the
  contracts of the lease, of the account services and of the two passes over the wanted items.

  \<^bold>\<open>What the lemmas show.\<close>
  \<^item> The queue, the lease and the supervisor: at most one run at a time however the processes interleave, stop and restart; the
    head is started, after it is durably running; a settled request stays as it is; each running request is judged as an
    abstract verdict says; a lease excludes every other supervisor until it lapses; a worker that cannot start is retried a
    bounded number of times.
  \<^item> The accounts: the server's owner keeps the Admin role and their access; nobody but an Admin widens what the accounts hold
    together; an account cut off is out; a session revoked, or a value replaced, is never found again; a Plex PIN signs in once;
    every service answers a result or a refusal; a key that fails gets a bounded number of attempts in any minute.
  \<^item> The writes: a kept answer is replayed, and a write that runs excludes every other of its key.
  \<^item> The acquisition: a detection wants every aired episode that is missing and nothing that is not; the passes settle every claim they make and keep the table sound (unique ids, one open wanted of a target,
    no claimable row with a hash); a grab hands over a release that passed the filters, names no other TMDB id and no tried hash, and, when its file was fetched, has
    the hash it names; the info hash of a torrent file is the hash of its own info value, and its reader returns on every file; the
    ranking is best first; the searches of an item end; a reconciliation settles each row by itself and leaves none waiting for
    a torrent that is gone; a release given up is not taken again; a download is announced once, in order.
  \<^item> Seeding and deletion: an obligation is released only by a lasting absence; a file that is owed survives every deletion; a
    deletion removes only what its permits allowed; a row leaves the index only with its folders; the trash of Plex is emptied
    only when nothing is in doubt.
  \<^item> The dispatch: whatever is refused and wherever the process is killed, a replaced film and a moved folder are whole, at
    their place or where they came from, but for the \<open>.DS_Store\<close> and \<open>._*\<close> files the command leaves out; a merged show keeps
    every file that is not superseded, and the source until it has landed; the sweep of the next start removes only
    leftovers; a dispatch that says it was done has the medium at its place; it changes nothing unless every guard holds, and
    marks the breach of an obligation before it overwrites what is owed. These rest on what \<open>rsync\<close> documents of the arguments the
    code builds for the file system of the disk (\<open>rsync_documented\<close>: it touches no other file, and when it says it succeeded
    each file of the source that is not excluded is there, where a file of the same size may stand for it). What a merge
    supersedes is kept as well where no copy of the backup is cut (\<open>backups_exact\<close>) and no refused removal has removed
    something (\<open>removals_whole\<close>); each property says which it needs, and what happens without them is among the defects below.

  \<^bold>\<open>Bounds and fuel.\<close> The bounds are the code's: a lease of 60 s; 5 attempts to start a worker; 30 unreadable reads of a lock; 5
  failed sign-ins in 60 s; 60 s of grace for a replaced session value; a PIN polled each second, alive 1800 s, 100 at most; a
  claim taken back after an hour; 3 candidates fetched by a grab; an absence confirmed after 1800 s; thresholds of 25, 50 and 75
  per cent; a download dead after 7200 s. The reader of bencoded files stops at depth 100 and runs on fuel: \<open>2 * length + 2\<close>, which
  \<open>info_hash_returns\<close> proves enough for every file. Every other loop is structural.

  \<^bold>\<open>What is assumed.\<close> One method, or one item of a pass, is one step of its process: the code holds a transaction or a lock
  there; the queue is modelled statement by statement. The clock is read once for each step. Times that the code keeps as floats
  are reals; text is ASCII where it is lower-cased or stripped. A write to SQLite does not fail in the passes.
  What is not under \<open>src/personalscraper\<close> is an argument of the definitions that use it: SHA-256, SHA-1, scrypt and HMAC, the answers of
  plex.tv, the token vault, regular expressions, guessit and rapidfuzz (the reading of a release's title), the calendar, the
  trackers and their transports, the torrent client, the reads of the media index and of the file system's mounts, the
  journeys of the provenance table, \<open>rsync\<close>. A law that a property needs of one of them is a hypothesis of it, with a witness.

  \<^bold>\<open>What is not modelled.\<close> The passes over the staging area (ingest, sort, scrape, enforce, verify, trailers) move files and call
  providers. The indexer scans disks. Of the dispatch, the index it keeps, the maintenance that follows it and the wiring of a
  run are not modelled; its folders are flat maps of files, without their empty directories. The clients of the trackers, of the torrent daemons and of the providers translate HTTP. The command line, the
  configuration, the logging, the translations and the presentation layers of \<open>http_v1\<close> and \<open>web\<close> are glue; the frontend is
  not Python. Within the parts above: the sleeping loop of the supervisor and its signals, the reading of files that only advise
  (the trigger file, the pending count), log lines, the texts of the answers.

  \<^bold>\<open>What modelling showed.\<close> An item whose trackers partly failed and otherwise found nothing makes the grab raise, and the raise
  leaves the pass (\<open>Grab_Facts.grab_raises_when_degraded\<close>). The cutoff gate may overwrite an item another item of the pass has
  absorbed. A removal of the source that is refused half way makes the dispatch delete the copy it had verified
  (\<open>Transfer_Facts.refused_cleanup_destroys_the_copy\<close>), and a rename that is refused because a folder is there makes it delete
  that folder (\<open>Transfer_Facts.move_removes_an_existing_folder\<close>). Merging a subtitle of another name deletes the episode
  (\<open>Merge_Facts.a_subtitle_purges_the_episode\<close>); what a killed replacement left enters the next one
  (\<open>Merge_Facts.leftovers_enter_the_next_film\<close>). A folder that holds a file the command leaves out fails the
  verification of its move, after the copy was made (\<open>Merge_Facts.an_excluded_file_fails_the_move\<close>), and of its merge
  (\<open>Merge_Facts.an_excluded_file_fails_the_merge\<close>). A merge whose backup was cut puts the cut copy back over the file it stands
  for (\<open>Merge_Facts.a_cut_backup_is_put_back\<close>), and one whose backup is removed by half loses an old file
  (\<open>Merge_Facts.a_backup_removed_by_half_is_lost\<close>). The detection may reopen an abandoned wanted beside an open one
  (\<open>Detect_Facts.detection_reopens_beside_an_open_row\<close>). The safety-net window of the watcher does not
  survive a quiet moment, a half-open breaker lets every call through (\<open>Circuit.half_open_lets_every_call_through\<close>), and a veto
  may outlast an obligation met by its ratio (\<open>Delete_Authority.veto_is_exact\<close>), each against the comment beside it.
\<close>

end
